(* ===== verification/Prelude.thy ===== *)
theory Prelude
  imports Main "HOL-Library.Word"
begin

unbundle bit_operations_syntax

text \<open>
  Shared vocabulary of the development.

  A function of the source that throws is a HOL function into \<open>'e + 'a\<close>, with \<open>Inl\<close> for
  the thrown error; \<open>rbind\<close> sequences two such computations the way consecutive statements
  of the source do (the first error leaves the function).  Bytes of a \<open>Uint8Array\<close> are
  \<open>8 word\<close> values; JavaScript numbers that hold counts, lengths and codes are \<open>nat\<close>.
  The lemmas of this theory are the arithmetic of bits and bytes on \<open>nat\<close> and the list
  facts that the codec theories share.  The collection \<open>byte_arith\<close> is the rewriting from
  shifts and masks to \<open>div\<close>, \<open>mod\<close> and sums.
\<close>

named_theorems byte_arith "shifts and masks as div, mod and sums"

type_synonym byte = "8 word"
type_synonym bytes = "8 word list"

definition rbind :: "'e + 'a \<Rightarrow> ('a \<Rightarrow> 'e + 'b) \<Rightarrow> 'e + 'b" where
  "rbind m f = (case m of Inl e \<Rightarrow> Inl e | Inr a \<Rightarrow> f a)"

lemma rbind_simps [simp]: "rbind (Inl e) f = Inl e" "rbind (Inr a) f = f a"
  by (simp_all add: rbind_def)

lemma rbind_eq_Inr_iff: "rbind m f = Inr b \<longleftrightarrow> (\<exists>a. m = Inr a \<and> f a = Inr b)"
  by (cases m) auto

lemma rbind_assoc: "rbind (rbind m f) g = rbind m (\<lambda>a. rbind (f a) g)"
  by (cases m) simp_all

lemma rbind_cong [fundef_cong]:
  "m = m' \<Longrightarrow> (\<And>a. m' = Inr a \<Longrightarrow> f a = f' a) \<Longrightarrow> rbind m f = rbind m' f'"
  by (cases m') auto

definition MAX_SAFE_INTEGER :: nat where
  "MAX_SAFE_INTEGER = 2 ^ 53 - 1"

text \<open>\<open>value & 0xff\<close> stored into a \<open>Uint8Array\<close> cell.\<close>

definition to_u8 :: "nat \<Rightarrow> byte" where
  "to_u8 n = word_of_nat n"

lemma unat_to_u8 [simp]: "unat (to_u8 n) = n mod 256"
  by (simp add: to_u8_def unat_of_nat)

lemma to_u8_unat [simp]: "to_u8 (unat b) = b"
  by (simp add: to_u8_def)

lemma to_u8_eq_iff: "to_u8 m = to_u8 n \<longleftrightarrow> m mod 256 = n mod 256"
  by (metis to_u8_unat unat_to_u8)

lemma to_u8_mod [simp]: "to_u8 (n mod 256) = to_u8 n"
  by (simp add: to_u8_eq_iff)

lemma unat_byte_less [simp]: "unat (b :: byte) < 256"
  using unsigned_less [of b] by simp

lemma unat_byte_le [simp]: "unat (b :: byte) \<le> 255"
  using unat_byte_less [of b] by linarith

lemma unat_byte_mod [simp]: "unat (b :: byte) mod 256 = unat b"
  by simp

subsection \<open>Shifts and masks on nat\<close>

lemma and_mask_nat: "(x :: nat) AND (2 ^ n - 1) = x mod 2 ^ n"
  by (metis mask_eq_exp_minus_1 take_bit_eq_mask take_bit_eq_mod)

lemma and_255 [byte_arith]: "(x :: nat) AND 255 = x mod 256"
  using and_mask_nat [of x 8] by simp

lemma and_127 [byte_arith]: "(x :: nat) AND 127 = x mod 128"
  using and_mask_nat [of x 7] by simp

lemma and_63 [byte_arith]: "(x :: nat) AND 63 = x mod 64"
  using and_mask_nat [of x 6] by simp

lemma and_15 [byte_arith]: "(x :: nat) AND 15 = x mod 16"
  using and_mask_nat [of x 4] by simp

lemma and_3 [byte_arith]: "(x :: nat) AND 3 = x mod 4"
  using and_mask_nat [of x 2] by simp

lemma or_shift_nat [byte_arith]:
  assumes "(b :: nat) < 2 ^ n"
  shows "push_bit n a OR b = a * 2 ^ n + b"
proof -
  have "push_bit n a AND b = 0"
  proof (rule bit_eqI)
    fix k
    show "bit (push_bit n a AND b) k \<longleftrightarrow> bit (0 :: nat) k"
      using assms
      by (auto simp: bit_and_iff bit_push_bit_iff)
        (metis bit_take_bit_iff leD take_bit_nat_eq_self)
  qed
  then have "push_bit n a + b = push_bit n a OR b"
    by (rule disjunctive_add_eq_or)
  then show ?thesis by (simp add: push_bit_eq_mult)
qed

lemmas shift_arith [byte_arith] = push_bit_eq_mult drop_bit_eq_div

lemma or_128_nat: "(x :: nat) < 128 \<Longrightarrow> x OR 128 = x + 128"
  using or_shift_nat [of x 7 1] by (simp add: or.commute push_bit_eq_mult)

lemma and_128_nat: "(x :: nat) < 256 \<Longrightarrow> x AND 128 = (if x < 128 then 0 else 128)"
proof -
  assume "x < 256"
  have 128: "(128 :: nat) = 2 ^ 7" by simp
  have "x AND 128 = push_bit 7 (drop_bit 7 x AND 1)"
    by (rule bit_eqI) (auto simp: 128 bit_and_iff bit_push_bit_iff bit_exp_iff bit_drop_bit_eq
        bit_1_iff bit_iff_odd_drop_bit [of x 7] simp del: power_numeral)
  also have "drop_bit 7 x AND 1 = x div 128 mod 2"
    by (simp add: drop_bit_eq_div and_one_eq)
  finally show ?thesis
    using \<open>x < 256\<close> by (auto simp: push_bit_eq_mult)
qed

subsection \<open>Lists\<close>

text \<open>\<open>out.set(part, offset)\<close> on a \<open>Uint8Array\<close> that is long enough.\<close>

definition u8_set :: "'a list \<Rightarrow> 'a list \<Rightarrow> nat \<Rightarrow> 'a list" where
  "u8_set out part offset = take offset out @ part @ drop (offset + length part) out"

lemma length_u8_set [simp]:
  "offset + length part \<le> length out \<Longrightarrow> length (u8_set out part offset) = length out"
  by (simp add: u8_set_def)

lemma take_u8_set:
  "offset + length part \<le> length out \<Longrightarrow>
    take (offset + length part) (u8_set out part offset) = take offset out @ part"
  by (simp add: u8_set_def)

text \<open>\<open>bytes.subarray(from, to)\<close> for in-range bounds.\<close>

definition subarray :: "'a list \<Rightarrow> nat \<Rightarrow> nat \<Rightarrow> 'a list" where
  "subarray xs from to = drop from (take to xs)"

lemma take_drop_append_eq:
  "drop n xs = ys @ zs \<Longrightarrow> drop (n + length ys) xs = zs"
  by (metis add.commute append_eq_conv_conj drop_drop)

lemma length_eq_4E:
  assumes "length xs = 4"
  obtains a b c d where "xs = [a, b, c, d]"
proof -
  from assms obtain a b c d where "xs = [a, b, c, d]"
    by (auto simp: numeral_eq_Suc length_Suc_conv)
  then show thesis by (rule that)
qed

end
