(* ===== verification/JsString.thy ===== *)
theory JsString
  imports Prelude
begin

text \<open>
  The parts of JavaScript strings the sources use.  A string is the list of its UTF-16 code
  units (\<open>jstr\<close>), so that \<open>length\<close>, \<open>charCodeAt\<close>, \<open>slice\<close> and \<open>indexOf\<close> count what JavaScript
  counts; \<open>js ''abc''\<close> is a string literal.  \<open>text_encode\<close> and \<open>text_decode\<close> are
  \<open>TextEncoder.encode\<close> and \<open>TextDecoder.decode\<close> for UTF-8 with their default options
  (lone surrogates and malformed bytes become U+FFFD, a leading byte order mark is dropped),
  following the state machine of the WHATWG encoding standard.  \<open>js_dec\<close> is the decimal
  form a number has in a template literal.
\<close>

type_synonym jstr = "nat list"

definition js :: "string \<Rightarrow> jstr" where
  "js s = map of_char s"

lemma length_js [simp]: "length (js s) = length s"
  by (simp add: js_def)

subsection \<open>Search and slicing\<close>

text \<open>\<open>s.indexOf(c)\<close> for a one-unit needle; \<open>None\<close> stands for \<open>-1\<close>.\<close>

fun index_of :: "nat \<Rightarrow> jstr \<Rightarrow> nat option" where
  "index_of c [] = None"
| "index_of c (x # xs) = (if x = c then Some 0 else map_option Suc (index_of c xs))"

text \<open>\<open>s.indexOf(c, from)\<close>.\<close>

definition index_from :: "nat \<Rightarrow> jstr \<Rightarrow> nat \<Rightarrow> nat option" where
  "index_from c s from = map_option (\<lambda>i. from + i) (index_of c (drop from s))"

text \<open>\<open>s.slice(from, to)\<close> for \<open>0 \<le> from\<close>, \<open>0 \<le> to\<close>.\<close>

definition slice :: "jstr \<Rightarrow> nat \<Rightarrow> nat \<Rightarrow> jstr" where
  "slice s from to = drop from (take to s)"

definition starts_at :: "jstr \<Rightarrow> jstr \<Rightarrow> nat \<Rightarrow> bool" where
  "starts_at s pre from \<longleftrightarrow> take (length pre) (drop from s) = pre"

lemma index_of_None_iff: "index_of c s = None \<longleftrightarrow> c \<notin> set s"
  by (induction s) auto

lemma index_of_notin [simp]: "c \<notin> set s \<Longrightarrow> index_of c s = None"
  by (simp add: index_of_None_iff)

lemma index_of_append: "c \<notin> set xs \<Longrightarrow> index_of c (xs @ c # ys) = Some (length xs)"
  by (induction xs) auto

lemma index_of_append_notin:
  "c \<notin> set xs \<Longrightarrow> index_of c (xs @ ys) = map_option (\<lambda>i. length xs + i) (index_of c ys)"
  by (induction xs; cases "index_of c ys") auto

lemma index_of_append_in:
  "c \<in> set xs \<Longrightarrow> index_of c (xs @ ys) = index_of c xs"
  by (induction xs) auto

lemma index_of_SomeD:
  "index_of c s = Some i \<Longrightarrow>
    i < length s \<and> s = take i s @ c # drop (Suc i) s \<and> c \<notin> set (take i s)"
proof (induction s arbitrary: i)
  case Nil
  then show ?case by simp
next
  case (Cons x s)
  then show ?case by (cases "x = c") auto
qed

lemma index_of_Some_split:
  assumes "index_of c s = Some i"
  obtains xs ys where "s = xs @ c # ys" "length xs = i" "c \<notin> set xs"
proof
  show "s = take i s @ c # drop (Suc i) s" "length (take i s) = i" "c \<notin> set (take i s)"
    using index_of_SomeD [OF assms] by auto
qed

subsection \<open>Decimal digits\<close>

fun js_dec :: "nat \<Rightarrow> jstr" where
  "js_dec n = (if n < 10 then [48 + n] else js_dec (n div 10) @ [48 + n mod 10])"

declare js_dec.simps [simp del]

definition is_digit_unit :: "nat \<Rightarrow> bool" where
  "is_digit_unit c \<longleftrightarrow> 48 \<le> c \<and> c \<le> 57"

text \<open>The value of a digit string, the sum the digit loops of the sources accumulate.\<close>

definition digits_val :: "jstr \<Rightarrow> nat" where
  "digits_val ds = foldl (\<lambda>acc c. acc * 10 + (c - 48)) 0 ds"

lemma digits_val_snoc: "digits_val (ds @ [c]) = digits_val ds * 10 + (c - 48)"
  by (simp add: digits_val_def)

lemma js_dec_digits: "c \<in> set (js_dec n) \<Longrightarrow> is_digit_unit c"
proof (induction n rule: js_dec.induct)
  case (1 n)
  then show ?case
    by (cases "n < 10") (auto simp: js_dec.simps [of n] is_digit_unit_def)
qed

lemma js_dec_not_Nil [simp]: "js_dec n \<noteq> []"
  by (subst js_dec.simps) simp

lemma digits_val_js_dec [simp]: "digits_val (js_dec n) = n"
proof (induction n rule: js_dec.induct)
  case (1 n)
  show ?case
  proof (cases "n < 10")
    case True
    then show ?thesis by (simp add: js_dec.simps [of n] digits_val_def)
  next
    case False
    then have "digits_val (js_dec n) = digits_val (js_dec (n div 10)) * 10 + n mod 10"
      by (simp add: js_dec.simps [of n] digits_val_snoc)
    also have "\<dots> = n div 10 * 10 + n mod 10" using 1 False by simp
    finally show ?thesis by simp
  qed
qed

lemma js_dec_hd: "n \<noteq> 0 \<Longrightarrow> hd (js_dec n) \<noteq> 48"
proof (induction n rule: js_dec.induct)
  case (1 n)
  show ?case
  proof (cases "n < 10")
    case True
    with 1 show ?thesis by (simp add: js_dec.simps [of n])
  next
    case False
    with 1 have "hd (js_dec (n div 10)) \<noteq> 48" by simp
    with False show ?thesis by (simp add: js_dec.simps [of n] hd_append)
  qed
qed

lemma js_dec_digits_val:
  assumes "ds \<noteq> []" "list_all is_digit_unit ds" "hd ds \<noteq> 48 \<or> ds = [48]"
  shows "js_dec (digits_val ds) = ds"
  using assms
proof (induction ds rule: rev_induct)
  case Nil
  then show ?case by simp
next
  case (snoc c ds)
  have c: "48 \<le> c" "c \<le> 57" using snoc.prems(2) by (auto simp: is_digit_unit_def)
  show ?case
  proof (cases "ds = []")
    case True
    with c show ?thesis by (simp add: digits_val_def js_dec.simps)
  next
    case False
    with snoc have IH: "js_dec (digits_val ds) = ds" by (auto simp: append_eq_Cons_conv)
    have hd: "hd ds \<noteq> 48" using False snoc.prems(3) by (auto simp: append_eq_Cons_conv)
    have pos: "digits_val ds \<noteq> 0"
    proof
      assume "digits_val ds = 0"
      with IH have "ds = [48]" by (simp add: js_dec.simps)
      with hd show False by simp
    qed
    let ?n = "digits_val ds * 10 + (c - 48)"
    obtain d where d: "c = 48 + d" "d \<le> 9" using c by (auto dest!: le_Suc_ex)
    then have "?n div 10 = digits_val ds" "?n mod 10 = c - 48" by auto
    moreover have "\<not> ?n < 10" using pos by simp
    ultimately have "js_dec ?n = js_dec (digits_val ds) @ [48 + (c - 48)]"
      by (simp add: js_dec.simps [of ?n])
    with IH c show ?thesis by (simp add: digits_val_snoc)
  qed
qed

subsection \<open>UTF-16 to scalar values and back\<close>

definition high_surrogate :: "nat \<Rightarrow> bool" where
  "high_surrogate u \<longleftrightarrow> 0xD800 \<le> u \<and> u \<le> 0xDBFF"

definition low_surrogate :: "nat \<Rightarrow> bool" where
  "low_surrogate u \<longleftrightarrow> 0xDC00 \<le> u \<and> u \<le> 0xDFFF"

text \<open>Code units are below \<open>0x10000\<close>; a larger number, which no string holds, counts as malformed.\<close>

definition unit_scalar :: "nat \<Rightarrow> nat" where
  "unit_scalar u = (if high_surrogate u \<or> low_surrogate u \<or> 0x10000 \<le> u then 0xFFFD else u)"

fun utf16_scalars :: "jstr \<Rightarrow> nat list" where
  "utf16_scalars [] = []"
| "utf16_scalars [u] = [unit_scalar u]"
| "utf16_scalars (u # v # us) =
    (if high_surrogate u \<and> low_surrogate v
     then (0x10000 + (u - 0xD800) * 0x400 + (v - 0xDC00)) # utf16_scalars us
     else unit_scalar u # utf16_scalars (v # us))"

definition scalar_units :: "nat \<Rightarrow> jstr" where
  "scalar_units c = (if c < 0x10000 then [c]
     else [0xD800 + (c - 0x10000) div 0x400, 0xDC00 + (c - 0x10000) mod 0x400])"

definition scalar_ok :: "nat \<Rightarrow> bool" where
  "scalar_ok c \<longleftrightarrow> c < 0xD800 \<or> 0xE000 \<le> c \<and> c < 0x110000"

text \<open>Strings without lone surrogates, the ones that survive a trip through UTF-8.\<close>

fun well_formed_utf16 :: "jstr \<Rightarrow> bool" where
  "well_formed_utf16 [] = True"
| "well_formed_utf16 [u] = (u < 0x10000 \<and> \<not> high_surrogate u \<and> \<not> low_surrogate u)"
| "well_formed_utf16 (u # v # us) =
    (if high_surrogate u then low_surrogate v \<and> well_formed_utf16 us
     else u < 0x10000 \<and> \<not> low_surrogate u \<and> well_formed_utf16 (v # us))"

lemma scalars_ok: "well_formed_utf16 s \<Longrightarrow> list_all scalar_ok (utf16_scalars s)"
  by (induction s rule: utf16_scalars.induct)
    (auto simp: scalar_ok_def unit_scalar_def high_surrogate_def low_surrogate_def
      split: if_splits)

lemma units_of_scalars:
  "well_formed_utf16 s \<Longrightarrow> concat (map scalar_units (utf16_scalars s)) = s"
proof (induction s rule: utf16_scalars.induct)
  case (3 u v us)
  show ?case
  proof (cases "high_surrogate u \<and> low_surrogate v")
    case True
    then obtain d where "v = 0xDC00 + d" "d < 0x400"
      by (auto simp: low_surrogate_def dest!: le_Suc_ex)
    with True have "(u - 0xD800) * 0x400 + (v - 0xDC00) < 0x100000"
      and "((u - 0xD800) * 0x400 + (v - 0xDC00)) div 0x400 = u - 0xD800"
      and "((u - 0xD800) * 0x400 + (v - 0xDC00)) mod 0x400 = v - 0xDC00"
      by (auto simp: high_surrogate_def low_surrogate_def)
    with True 3 show ?thesis
      by (auto simp: scalar_units_def high_surrogate_def low_surrogate_def)
  next
    case False
    with 3 show ?thesis by (auto simp: scalar_units_def unit_scalar_def split: if_splits)
  qed
qed (auto simp: scalar_units_def unit_scalar_def)

lemma well_formed_ascii: "list_all (\<lambda>c. c < 128) s \<Longrightarrow> well_formed_utf16 s"
  by (induction s rule: well_formed_utf16.induct)
    (auto simp: high_surrogate_def low_surrogate_def)

subsection \<open>UTF-8\<close>

definition utf8_bytes :: "nat \<Rightarrow> nat list" where
  "utf8_bytes c =
    (if c < 0x80 then [c]
     else if c < 0x800 then [0xC0 + c div 64, 0x80 + c mod 64]
     else if c < 0x10000 then [0xE0 + c div 4096, 0x80 + c div 64 mod 64, 0x80 + c mod 64]
     else [0xF0 + c div 262144, 0x80 + c div 4096 mod 64, 0x80 + c div 64 mod 64, 0x80 + c mod 64])"

definition text_encode :: "jstr \<Rightarrow> bytes" where
  "text_encode s = map to_u8 (concat (map utf8_bytes (utf16_scalars s)))"

text \<open>
  The decoder's state: bytes still needed, the code point so far and the range the next
  continuation byte must lie in.  A byte outside the range ends the sequence with U+FFFD
  and is read again.
\<close>

function utf8_scalars :: "nat list \<Rightarrow> nat \<Rightarrow> nat \<Rightarrow> nat \<Rightarrow> nat \<Rightarrow> nat list" where
  "utf8_scalars [] needed cp lo hi = (if needed = 0 then [] else [0xFFFD])"
| "utf8_scalars (b # bs) needed cp lo hi =
    (if needed = 0 then
       (if b < 0x80 then b # utf8_scalars bs 0 0 0x80 0xBF
        else if 0xC2 \<le> b \<and> b \<le> 0xDF then utf8_scalars bs 1 (b - 0xC0) 0x80 0xBF
        else if 0xE0 \<le> b \<and> b \<le> 0xEF then
          utf8_scalars bs 2 (b - 0xE0) (if b = 0xE0 then 0xA0 else 0x80)
            (if b = 0xED then 0x9F else 0xBF)
        else if 0xF0 \<le> b \<and> b \<le> 0xF4 then
          utf8_scalars bs 3 (b - 0xF0) (if b = 0xF0 then 0x90 else 0x80)
            (if b = 0xF4 then 0x8F else 0xBF)
        else 0xFFFD # utf8_scalars bs 0 0 0x80 0xBF)
     else if lo \<le> b \<and> b \<le> hi then
       (if needed = 1 then (cp * 64 + (b - 0x80)) # utf8_scalars bs 0 0 0x80 0xBF
        else utf8_scalars bs (needed - 1) (cp * 64 + (b - 0x80)) 0x80 0xBF)
     else 0xFFFD # utf8_scalars (b # bs) 0 0 0x80 0xBF)"
  by pat_completeness auto
termination
  by (relation "measures [\<lambda>(bs, _). length bs, \<lambda>(_, needed, _). needed]") auto

definition strip_bom :: "nat list \<Rightarrow> nat list" where
  "strip_bom cs = (case cs of c # cs' \<Rightarrow> if c = 0xFEFF then cs' else cs | [] \<Rightarrow> [])"

definition text_decode :: "bytes \<Rightarrow> jstr" where
  "text_decode bs = concat (map scalar_units (strip_bom (utf8_scalars (map unat bs) 0 0 0x80 0xBF)))"

declare utf8_scalars.simps(2) [simp del]

lemma utf8_bytes_less: "scalar_ok c \<Longrightarrow> b \<in> set (utf8_bytes c) \<Longrightarrow> b < 256"
  by (auto simp: utf8_bytes_def scalar_ok_def split: if_splits)

lemma utf8_scalars_append:
  assumes "scalar_ok c"
  shows "utf8_scalars (utf8_bytes c @ bs) 0 0 0x80 0xBF = c # utf8_scalars bs 0 0 0x80 0xBF"
proof -
  consider "c < 0x80" | "0x80 \<le> c" "c < 0x800" | "0x800 \<le> c" "c < 0x10000"
    | "0x10000 \<le> c" "c < 0x110000"
    using assms by (force simp: scalar_ok_def)
  then show ?thesis
  proof cases
    case 1
    then show ?thesis by (simp add: utf8_bytes_def utf8_scalars.simps(2))
  next
    case 2
    define a where "a = c div 64"
    define b where "b = c mod 64"
    have eq: "c = a * 64 + b" by (simp add: a_def b_def)
    have less: "b < 64" by (simp add: b_def)
    have r: "2 \<le> a" "a < 32" using 2 less unfolding eq by linarith+
    have "utf8_bytes c = [0xC0 + a, 0x80 + b]"
      using 2 by (simp add: utf8_bytes_def a_def b_def)
    then show ?thesis using r less by (simp add: utf8_scalars.simps(2)) (auto simp: eq)
  next
    case 3
    define q where "q = c div 64"
    define a where "a = q div 64"
    define b where "b = q mod 64"
    define d where "d = c mod 64"
    have "c = q * 64 + d" "q = a * 64 + b"
      by (simp_all add: q_def a_def b_def d_def)
    then have eq: "c = (a * 64 + b) * 64 + d" by simp
    have less: "b < 64" "d < 64" by (simp_all add: b_def d_def)
    have r: "a < 16" "a = 0 \<longrightarrow> 32 \<le> b" "a = 13 \<longrightarrow> b < 32"
      using 3 assms less unfolding eq scalar_ok_def by auto
    have "c div 4096 = a" by (simp add: a_def q_def div_mult2_eq [symmetric])
    then have "utf8_bytes c = [0xE0 + a, 0x80 + b, 0x80 + d]"
      using 3 by (simp add: utf8_bytes_def q_def b_def d_def)
    then show ?thesis using r less by (simp add: utf8_scalars.simps(2)) (auto simp: eq)
  next
    case 4
    define q where "q = c div 64"
    define p where "p = q div 64"
    define a where "a = p div 64"
    define b where "b = p mod 64"
    define d where "d = q mod 64"
    define e where "e = c mod 64"
    have "c = q * 64 + e" "q = p * 64 + d" "p = a * 64 + b"
      by (simp_all add: p_def q_def a_def b_def d_def e_def)
    then have eq: "c = ((a * 64 + b) * 64 + d) * 64 + e" by simp
    have less: "b < 64" "d < 64" "e < 64" by (simp_all add: b_def d_def e_def)
    have r: "a < 5" "a = 0 \<longrightarrow> 16 \<le> b" "a = 4 \<longrightarrow> b < 16"
      using 4 less unfolding eq by auto
    have "c div 262144 = a" "c div 4096 = p"
      by (simp_all add: a_def p_def q_def div_mult2_eq [symmetric])
    then have "utf8_bytes c = [0xF0 + a, 0x80 + b, 0x80 + d, 0x80 + e]"
      using 4 by (simp add: utf8_bytes_def q_def b_def d_def e_def)
    then show ?thesis using r less by (simp add: utf8_scalars.simps(2)) (auto simp: eq)
  qed
qed

lemma utf8_scalars_inverse:
  "list_all scalar_ok cs \<Longrightarrow> utf8_scalars (concat (map utf8_bytes cs)) 0 0 0x80 0xBF = cs"
  by (induction cs) (auto simp: utf8_scalars_append)

lemma strip_bom_id: "cs = [] \<or> hd cs \<noteq> 0xFEFF \<Longrightarrow> strip_bom cs = cs"
  by (cases cs) (auto simp: strip_bom_def)

text \<open>The strings that \<open>TextDecoder\<close> gives back after \<open>TextEncoder\<close>.\<close>

definition utf8_safe :: "jstr \<Rightarrow> bool" where
  "utf8_safe s \<longleftrightarrow> well_formed_utf16 s \<and> (s = [] \<or> hd s \<noteq> 0xFEFF)"

lemma hd_utf16_scalars:
  "well_formed_utf16 s \<Longrightarrow> s \<noteq> [] \<Longrightarrow> hd s \<noteq> 0xFEFF \<Longrightarrow> hd (utf16_scalars s) \<noteq> 0xFEFF"
  by (induction s rule: utf16_scalars.induct) (auto simp: unit_scalar_def high_surrogate_def)

lemma utf16_scalars_eq_Nil [simp]: "utf16_scalars s = [] \<longleftrightarrow> s = []"
  by (induction s rule: utf16_scalars.induct) auto

lemma text_decode_encode:
  assumes "utf8_safe s"
  shows "text_decode (text_encode s) = s"
proof -
  let ?cs = "utf16_scalars s"
  have wf: "well_formed_utf16 s" using assms by (simp add: utf8_safe_def)
  have ok: "list_all scalar_ok ?cs" using wf by (rule scalars_ok)
  then have less: "b < 256" if "b \<in> set (concat (map utf8_bytes ?cs))" for b
    using that by (auto simp: list_all_iff dest: utf8_bytes_less)
  have "map unat (text_encode s) = map (\<lambda>b. b mod 256) (concat (map utf8_bytes ?cs))"
    by (simp only: text_encode_def list.map_comp comp_def unat_to_u8)
  also have "\<dots> = concat (map utf8_bytes ?cs)"
    using less by (intro map_idI) simp
  finally have "map unat (text_encode s) = concat (map utf8_bytes ?cs)" .
  moreover have "strip_bom ?cs = ?cs"
    using assms hd_utf16_scalars [of s] by (auto simp: utf8_safe_def intro: strip_bom_id)
  ultimately show ?thesis
    using ok wf by (simp add: text_decode_def utf8_scalars_inverse units_of_scalars)
qed

lemma utf8_bytes_length: "length (utf8_bytes c) \<le> 4"
  by (simp add: utf8_bytes_def)

lemma length_text_encode: "length (text_encode s) \<le> 3 * length s"
proof -
  have le3: "length (utf8_bytes (unit_scalar u)) \<le> 3" for u
    by (auto simp: utf8_bytes_def unit_scalar_def)
  have "length (concat (map utf8_bytes (utf16_scalars s))) \<le> 3 * length s"
  proof (induction s rule: utf16_scalars.induct)
    case (3 u v us)
    from "3.IH" le3 [of u] utf8_bytes_length [of "0x10000 + (u - 0xD800) * 0x400 + (v - 0xDC00)"]
    show ?case by (auto simp del: length_concat)
  next
    case (2 u)
    then show ?case using le3 [of u] by simp
  qed simp
  then show ?thesis by (simp add: text_encode_def)
qed

lemma text_encode_Nil [simp]: "text_encode [] = []"
  by (simp add: text_encode_def)

end
