(* ===== verification/BinaryFormat.thy ===== *)
theory BinaryFormat
  imports Tokens
begin

text \<open>
  \<open>src/transport/binary/constants.ts\<close> and the node type of \<open>src/transport/types.ts\<close>: the tag
  bytes of the format, the alphabets of packed strings, the token maps the encoder looks
  strings up in, and \<open>BinaryNode\<close>.  The lemmas relate the merged token map to the tables:
  what the encoder finds in the map, the decoder finds back in the tables.
\<close>

definition LIST_EMPTY :: nat where "LIST_EMPTY = 0"
definition STREAM_END :: nat where "STREAM_END = 2"
definition DICTIONARY_0 :: nat where "DICTIONARY_0 = 236"
definition DICTIONARY_3 :: nat where "DICTIONARY_3 = 239"
definition JID_INTEROP :: nat where "JID_INTEROP = 245"
definition JID_FB :: nat where "JID_FB = 246"
definition JID_U :: nat where "JID_U = 247"
definition LIST_8 :: nat where "LIST_8 = 248"
definition LIST_16 :: nat where "LIST_16 = 249"
definition JID_PAIR :: nat where "JID_PAIR = 250"
definition HEX_8 :: nat where "HEX_8 = 251"
definition BINARY_8 :: nat where "BINARY_8 = 252"
definition BINARY_20 :: nat where "BINARY_20 = 253"
definition BINARY_32 :: nat where "BINARY_32 = 254"
definition NIBBLE_8 :: nat where "NIBBLE_8 = 255"

lemmas tag_bytes = LIST_EMPTY_def STREAM_END_def DICTIONARY_0_def DICTIONARY_3_def
  JID_INTEROP_def JID_FB_def JID_U_def LIST_8_def LIST_16_def JID_PAIR_def HEX_8_def
  BINARY_8_def BINARY_20_def BINARY_32_def NIBBLE_8_def

definition JID_U_DOMAIN_TYPE_PN :: nat where "JID_U_DOMAIN_TYPE_PN = 0x00"
definition JID_U_DOMAIN_TYPE_LID :: nat where "JID_U_DOMAIN_TYPE_LID = 0x01"
definition JID_U_DOMAIN_TYPE_HOSTED :: nat where "JID_U_DOMAIN_TYPE_HOSTED = 0x80"
definition JID_U_DOMAIN_TYPE_HOSTED_LID :: nat where "JID_U_DOMAIN_TYPE_HOSTED_LID = 0x81"
definition JID_U_DOMAIN_TYPE_HOSTED_MASK :: nat where "JID_U_DOMAIN_TYPE_HOSTED_MASK = 0x80"
definition JID_U_DOMAIN_TYPE_LID_MASK :: nat where "JID_U_DOMAIN_TYPE_LID_MASK = 0x01"

lemmas domain_types = JID_U_DOMAIN_TYPE_PN_def JID_U_DOMAIN_TYPE_LID_def
  JID_U_DOMAIN_TYPE_HOSTED_def JID_U_DOMAIN_TYPE_HOSTED_LID_def
  JID_U_DOMAIN_TYPE_HOSTED_MASK_def JID_U_DOMAIN_TYPE_LID_MASK_def

definition NIBBLE_ALPHABET :: jstr where
  "NIBBLE_ALPHABET = js ''0123456789-.'' @ replicate 4 0xFFFD"

definition HEX_ALPHABET :: jstr where
  "HEX_ALPHABET = js ''0123456789ABCDEF''"

subsection \<open>Token maps\<close>

text \<open>A run of \<open>map.set(key, value)\<close>: a later entry replaces an earlier one.\<close>

definition set_all :: "('k \<times> 'v) list \<Rightarrow> ('k \<rightharpoonup> 'v) \<Rightarrow> ('k \<rightharpoonup> 'v)" where
  "set_all entries m = foldl (\<lambda>m (k, v). m(k \<mapsto> v)) m entries"

definition SINGLE_BYTE_TOKEN_MAP :: "jstr \<rightharpoonup> nat" where
  "SINGLE_BYTE_TOKEN_MAP =
    set_all (zip SINGLE_BYTE_TOKENS [1..<Suc (length SINGLE_BYTE_TOKENS)]) Map.empty"

definition DICTIONARY_TOKEN_MAPS :: "(jstr \<rightharpoonup> nat) list" where
  "DICTIONARY_TOKEN_MAPS = map (\<lambda>d. set_all (zip d [0..<length d]) Map.empty) DICTIONARIES"

definition MERGED_TOKEN_DICTIONARY_FLAG :: nat where
  "MERGED_TOKEN_DICTIONARY_FLAG = 0x10000"

text \<open>
  The dictionaries are entered from the last to the first, then the single byte tokens, so
  an earlier table takes precedence: the entries of a map entered later win.
\<close>

definition merge_dictionary :: "(jstr \<rightharpoonup> nat) \<Rightarrow> nat \<Rightarrow> (jstr \<rightharpoonup> nat)" where
  "merge_dictionary m i = m ++
    (\<lambda>value. map_option (\<lambda>token. (MERGED_TOKEN_DICTIONARY_FLAG OR push_bit 8 i) OR token)
      ((DICTIONARY_TOKEN_MAPS ! i) value))"

definition MERGED_TOKEN_MAP :: "jstr \<rightharpoonup> nat" where
  "MERGED_TOKEN_MAP =
    foldl merge_dictionary Map.empty (rev [0..<length DICTIONARY_TOKEN_MAPS]) ++
    SINGLE_BYTE_TOKEN_MAP"

lemma set_all_SomeD: "set_all entries m k = Some v \<Longrightarrow> (k, v) \<in> set entries \<or> m k = Some v"
proof (induction entries arbitrary: m)
  case Nil
  then show ?case by (simp add: set_all_def)
next
  case (Cons e entries)
  obtain k' v' where e: "e = (k', v')" by (cases e)
  from Cons.prems have "set_all entries (m(k' \<mapsto> v')) k = Some v"
    by (simp add: set_all_def e)
  from Cons.IH [OF this] show ?case by (auto simp: e split: if_splits)
qed

lemma lengths_of_tables [simp]:
  "length SINGLE_BYTE_TOKENS = 235" "length DICTIONARY_0_TOKENS = 256"
  "length DICTIONARY_1_TOKENS = 256" "length DICTIONARY_2_TOKENS = 256"
  "length DICTIONARY_3_TOKENS = 256"
  by (simp_all add: SINGLE_BYTE_TOKENS_def SINGLE_BYTE_TOKENS_1_def SINGLE_BYTE_TOKENS_2_def
      DICTIONARY_0_TOKENS_def DICTIONARY_0_TOKENS_1_def DICTIONARY_0_TOKENS_2_def
      DICTIONARY_1_TOKENS_def DICTIONARY_1_TOKENS_1_def DICTIONARY_1_TOKENS_2_def
      DICTIONARY_2_TOKENS_def DICTIONARY_2_TOKENS_1_def DICTIONARY_2_TOKENS_2_def
      DICTIONARY_3_TOKENS_def DICTIONARY_3_TOKENS_1_def DICTIONARY_3_TOKENS_2_def)

lemma length_DICTIONARIES [simp]: "length DICTIONARIES = 4"
  by (simp add: DICTIONARIES_def)

lemma length_DICTIONARY [simp]: "i < 4 \<Longrightarrow> length (DICTIONARIES ! i) = 256"
  by (auto simp: DICTIONARIES_def less_Suc_eq numeral_eq_Suc)

lemma SINGLE_BYTE_TOKEN_MAP_SomeD:
  assumes "SINGLE_BYTE_TOKEN_MAP s = Some t"
  shows "0 < t \<and> t \<le> 235 \<and> SINGLE_BYTE_TOKENS ! (t - 1) = s"
  using set_all_SomeD [OF assms [unfolded SINGLE_BYTE_TOKEN_MAP_def]]
  by (auto simp: set_zip nth_append simp del: upt_Suc)

lemma DICTIONARY_TOKEN_MAPS_SomeD:
  assumes "i < 4" "(DICTIONARY_TOKEN_MAPS ! i) s = Some t"
  shows "t < 256 \<and> DICTIONARIES ! i ! t = s"
proof -
  have "(s, t) \<in> set (zip (DICTIONARIES ! i) [0..<length (DICTIONARIES ! i)])"
    using assms set_all_SomeD [of "zip (DICTIONARIES ! i) [0..<length (DICTIONARIES ! i)]"]
    by (fastforce simp: DICTIONARY_TOKEN_MAPS_def)
  with assms(1) show ?thesis by (auto simp: set_zip)
qed

lemma dictionary_token_parts:
  assumes "i < 4" "t < 256"
  shows "(MERGED_TOKEN_DICTIONARY_FLAG OR push_bit 8 i) OR t = 0x10000 + i * 256 + t"
proof -
  have "push_bit 16 1 OR push_bit 8 i = 0x10000 + push_bit 8 i"
    using or_shift_nat [of "push_bit 8 i" 16 1] assms by (simp add: push_bit_eq_mult)
  moreover have "push_bit 8 (256 + i) OR t = (256 + i) * 256 + t"
    using or_shift_nat [of t 8 "256 + i"] assms by simp
  ultimately show ?thesis
    by (simp add: MERGED_TOKEN_DICTIONARY_FLAG_def push_bit_eq_mult)
qed

definition token_found :: "jstr \<Rightarrow> nat \<Rightarrow> bool" where
  "token_found s token \<longleftrightarrow>
    (if token < MERGED_TOKEN_DICTIONARY_FLAG
     then 0 < token \<and> token \<le> 235 \<and> SINGLE_BYTE_TOKENS ! (token - 1) = s
     else \<exists>i t. i < 4 \<and> t < 256 \<and> token = 0x10000 + i * 256 + t \<and> DICTIONARIES ! i ! t = s)"

lemma merge_dictionary_found:
  assumes "\<And>s token. m s = Some token \<Longrightarrow> token_found s token" "i < 4"
    "merge_dictionary m i s = Some token"
  shows "token_found s token"
proof -
  from assms(3) consider "m s = Some token"
    | t where "(DICTIONARY_TOKEN_MAPS ! i) s = Some t"
        "token = (MERGED_TOKEN_DICTIONARY_FLAG OR push_bit 8 i) OR t"
    by (auto simp: merge_dictionary_def map_add_Some_iff)
  then show ?thesis
  proof cases
    case 1
    then show ?thesis by (rule assms(1))
  next
    case 2
    have t: "t < 256" "DICTIONARIES ! i ! t = s"
      using DICTIONARY_TOKEN_MAPS_SomeD [OF assms(2) 2(1)] by auto
    have "token = 0x10000 + i * 256 + t"
      using 2(2) dictionary_token_parts [OF assms(2) t(1)] by simp
    with t assms(2) show ?thesis
      by (auto simp: token_found_def MERGED_TOKEN_DICTIONARY_FLAG_def)
  qed
qed

lemma foldl_merge_found:
  assumes "\<And>s token. m s = Some token \<Longrightarrow> token_found s token" "\<forall>i \<in> set is. i < 4"
    "foldl merge_dictionary m is s = Some token"
  shows "token_found s token"
  using assms
proof (induction "is" arbitrary: m)
  case (Cons i "is")
  show ?case
    by (rule Cons.IH [where m = "merge_dictionary m i"])
      (use Cons.prems in \<open>auto intro: merge_dictionary_found\<close>)
qed auto

lemma MERGED_TOKEN_MAP_SomeD:
  assumes "MERGED_TOKEN_MAP s = Some token"
  shows "token_found s token"
proof -
  have len: "length DICTIONARY_TOKEN_MAPS = 4" by (simp add: DICTIONARY_TOKEN_MAPS_def)
  from assms consider "SINGLE_BYTE_TOKEN_MAP s = Some token"
    | "foldl merge_dictionary Map.empty (rev [0..<4]) s = Some token"
    unfolding MERGED_TOKEN_MAP_def len by (auto simp: map_add_Some_iff)
  then show ?thesis
  proof cases
    case 1
    from SINGLE_BYTE_TOKEN_MAP_SomeD [OF this] show ?thesis
      by (simp add: token_found_def MERGED_TOKEN_DICTIONARY_FLAG_def)
  next
    case 2
    then show ?thesis by (rule foldl_merge_found [rotated 2]) auto
  qed
qed

subsection \<open>Nodes\<close>

text \<open>
  \<open>attrs\<close> is a plain object; the list holds its own entries in the order \<open>Object.keys\<close>
  returns them.  \<open>NoContent\<close> is a \<open>content\<close> of \<open>null\<close> or \<open>undefined\<close>.
\<close>

type_synonym attrs = "(jstr \<times> jstr) list"

datatype 'n content = NoContent | CString jstr | CBytes bytes | CNodes "'n list"

datatype node = Node (tag: jstr) (attrs: attrs) (content: "node content")

text \<open>
  \<open>attrs[key] = value\<close> on a plain object: an existing key keeps its place, a new array index
  goes before the other keys in ascending order, any other new key goes last, and
  \<open>__proto__\<close> is the accessor of \<open>Object.prototype\<close>, which ignores a string.
\<close>

definition is_array_index :: "jstr \<Rightarrow> bool" where
  "is_array_index k \<longleftrightarrow> list_all is_digit_unit k \<and> k = js_dec (digits_val k) \<and>
    digits_val k < 2 ^ 32 - 1"

fun insert_index :: "jstr \<Rightarrow> jstr \<Rightarrow> attrs \<Rightarrow> attrs" where
  "insert_index k v [] = [(k, v)]"
| "insert_index k v ((k', v') # obj) =
    (if is_array_index k' \<and> digits_val k' < digits_val k then (k', v') # insert_index k v obj
     else (k, v) # (k', v') # obj)"

definition obj_set :: "jstr \<Rightarrow> jstr \<Rightarrow> attrs \<Rightarrow> attrs" where
  "obj_set k v obj =
    (if k = js ''__proto__'' then obj
     else if k \<in> set (map fst obj) then map (\<lambda>(k', v'). if k' = k then (k, v) else (k', v')) obj
     else if is_array_index k then insert_index k v obj
     else obj @ [(k, v)])"

text \<open>The entry lists that some sequence of assignments to \<open>{}\<close> produces in this very order.\<close>

definition plain_object :: "attrs \<Rightarrow> bool" where
  "plain_object obj \<longleftrightarrow> foldl (\<lambda>acc (k, v). obj_set k v acc) [] obj = obj"

lemma plain_object_names:
  assumes "distinct (map fst obj)"
    "\<forall>k \<in> set (map fst obj). k \<noteq> js ''__proto__'' \<and> \<not> is_array_index k"
  shows "plain_object obj"
proof -
  have "foldl (\<lambda>acc (k, v). obj_set k v acc) acc obj = acc @ obj"
    if "distinct (map fst acc @ map fst obj)" for acc
    using that assms(2)
    by (induction obj arbitrary: acc) (auto simp: obj_set_def image_iff)
  with assms(1) show ?thesis by (simp add: plain_object_def)
qed

end
