(* ===== verification/ByteWriter.thy ===== *)
theory ByteWriter
  imports JsString
begin

text \<open>
  The class \<open>ByteWriter\<close> of \<open>src/transport/binary/encoder.ts\<close>: a growing buffer and a write
  offset.  \<open>emitted\<close> is what \<open>toUint8Array\<close> returns, \<open>writer_ok\<close> the invariant of the class.
  The locale \<open>byte_sink\<close> is the contract the encoder relies on (every write appends its bytes
  to the emitted bytes and keeps the invariant); \<open>emits\<close> is the resulting refinement between a
  routine on the writer and the bytes it stands for, with its composition rules.
\<close>

record writer =
  buffer :: bytes
  woffset :: nat

definition new_writer :: "nat \<Rightarrow> writer" where
  "new_writer initialCapacity = \<lparr>buffer = replicate initialCapacity 0, woffset = 0\<rparr>"

text \<open>
  The doubling loop of \<open>ensure\<close>.  An empty buffer would double forever; \<open>writer_ok\<close> excludes
  it (the constructor is only called with the default capacity 256), and the guard \<open>0 < cap\<close>
  is what makes the function total.
\<close>

function grow_size :: "nat \<Rightarrow> nat \<Rightarrow> nat" where
  "grow_size cap needed = (if cap < needed \<and> 0 < cap then grow_size (cap * 2) needed else cap)"
  by pat_completeness auto
termination
  by (relation "measure (\<lambda>(cap, needed). needed - cap)") auto

declare grow_size.simps [simp del]

definition ensure :: "nat \<Rightarrow> writer \<Rightarrow> writer" where
  "ensure extra w =
    (let needed = woffset w + extra in
     if needed \<le> length (buffer w) then w
     else w\<lparr>buffer := u8_set (replicate (grow_size (length (buffer w)) needed) 0) (buffer w) 0\<rparr>)"

definition writeUint8 :: "nat \<Rightarrow> writer \<Rightarrow> writer" where
  "writeUint8 v w0 =
    (let w = ensure 1 w0
     in w\<lparr>buffer := (buffer w)[woffset w := to_u8 (v AND 255)], woffset := woffset w + 1\<rparr>)"

definition writeUint16 :: "nat \<Rightarrow> writer \<Rightarrow> writer" where
  "writeUint16 v w0 =
    (let w = ensure 2 w0
     in w\<lparr>buffer := (buffer w)
            [woffset w := to_u8 (drop_bit 8 v AND 255), woffset w + 1 := to_u8 (v AND 255)],
          woffset := woffset w + 2\<rparr>)"

definition writeUint32 :: "nat \<Rightarrow> writer \<Rightarrow> writer" where
  "writeUint32 v w0 =
    (let w = ensure 4 w0
     in w\<lparr>buffer := (buffer w)
            [woffset w := to_u8 (drop_bit 24 v AND 255), woffset w + 1 := to_u8 (drop_bit 16 v AND 255),
             woffset w + 2 := to_u8 (drop_bit 8 v AND 255), woffset w + 3 := to_u8 (v AND 255)],
          woffset := woffset w + 4\<rparr>)"

definition writeBytes :: "bytes \<Rightarrow> writer \<Rightarrow> writer" where
  "writeBytes bs w0 =
    (let w = ensure (length bs) w0
     in w\<lparr>buffer := u8_set (buffer w) bs (woffset w), woffset := woffset w + length bs\<rparr>)"

definition reserveUint8 :: "writer \<Rightarrow> nat \<times> writer" where
  "reserveUint8 w0 = (let w = ensure 1 w0 in (woffset w, w\<lparr>woffset := woffset w + 1\<rparr>))"

definition patchUint8 :: "nat \<Rightarrow> nat \<Rightarrow> writer \<Rightarrow> writer" where
  "patchUint8 at v w = w\<lparr>buffer := (buffer w)[at := to_u8 (v AND 255)]\<rparr>"

text \<open>\<open>encodeInto\<close> writes whole scalar values while they fit into the given room.\<close>

fun encode_into :: "nat \<Rightarrow> nat list \<Rightarrow> bytes" where
  "encode_into room [] = []"
| "encode_into room (c # cs) =
    (let bs = map to_u8 (utf8_bytes c) in
     if length bs \<le> room then bs @ encode_into (room - length bs) cs else [])"

definition writeUtf8 :: "jstr \<Rightarrow> nat \<Rightarrow> writer \<Rightarrow> nat \<times> writer" where
  "writeUtf8 s maxBytes w0 =
    (let w = ensure maxBytes w0;
         out = encode_into (length (buffer w) - woffset w) (utf16_scalars s)
     in (length out,
         w\<lparr>buffer := u8_set (buffer w) out (woffset w), woffset := woffset w + length out\<rparr>))"

definition emitted :: "writer \<Rightarrow> bytes" where
  "emitted w = take (woffset w) (buffer w)"

definition writer_ok :: "writer \<Rightarrow> bool" where
  "writer_ok w \<longleftrightarrow> 0 < length (buffer w) \<and> woffset w \<le> length (buffer w)"

subsection \<open>Every write appends\<close>

lemma grow_size_ge: "0 < cap \<Longrightarrow> needed \<le> grow_size cap needed \<and> cap \<le> grow_size cap needed"
proof (induction cap needed rule: grow_size.induct)
  case (1 cap needed)
  then show ?case
    by (cases "cap < needed") (auto simp: grow_size.simps [of cap needed])
qed

lemma ensure_ok:
  assumes "writer_ok w"
  shows "writer_ok (ensure n w)" "emitted (ensure n w) = emitted w"
    "woffset (ensure n w) = woffset w" "woffset w + n \<le> length (buffer (ensure n w))"
  using assms grow_size_ge [of "length (buffer w)" "woffset w + n"]
  by (auto simp: ensure_def writer_ok_def emitted_def Let_def u8_set_def)

lemma take_update_snoc:
  assumes "n < length xs"
  shows "take (Suc n) (xs[n := x]) = take n xs @ [x]"
  using assms by (simp add: take_Suc_conv_app_nth)

lemma take_update_beyond: "n \<le> m \<Longrightarrow> take n (xs[m := x]) = take n xs"
  by simp

lemma writeUint8_ok:
  assumes "writer_ok w"
  shows "writer_ok (writeUint8 v w)" "emitted (writeUint8 v w) = emitted w @ [to_u8 v]"
  using ensure_ok [OF assms, of 1]
  by (auto simp: writeUint8_def Let_def writer_ok_def emitted_def take_update_snoc and_255
      to_u8_eq_iff)

lemma writeBytes_ok:
  assumes "writer_ok w"
  shows "writer_ok (writeBytes bs w)" "emitted (writeBytes bs w) = emitted w @ bs"
  using ensure_ok [OF assms, of "length bs"]
  by (auto simp: writeBytes_def Let_def writer_ok_def emitted_def take_u8_set)

lemma content_two_updates:
  assumes "n + 2 \<le> length xs"
  shows "take (Suc (Suc n)) (xs[n := a, Suc n := b]) = take n xs @ [a, b]"
  using assms by (simp add: take_update_snoc)

lemma writeUint16_ok:
  assumes "writer_ok w"
  shows "writer_ok (writeUint16 v w)"
    "emitted (writeUint16 v w) = emitted w @ [to_u8 (v div 256), to_u8 v]"
  using ensure_ok [OF assms, of 2]
  by (auto simp: writeUint16_def Let_def writer_ok_def emitted_def content_two_updates and_255
      to_u8_eq_iff drop_bit_eq_div)

lemma content_four_updates:
  assumes "n + 4 \<le> length xs"
  shows "take (n + 4) (xs[n := a, n + 1 := b, n + 2 := c, n + 3 := d]) = take n xs @ [a, b, c, d]"
  using assms by (simp add: take_update_snoc eval_nat_numeral)

lemma writeUint32_ok:
  assumes "writer_ok w"
  shows "writer_ok (writeUint32 v w)"
    "emitted (writeUint32 v w) =
      emitted w @ [to_u8 (v div 16777216), to_u8 (v div 65536), to_u8 (v div 256), to_u8 v]"
  using ensure_ok [OF assms, of 4] content_four_updates [of "woffset w" "buffer (ensure 4 w)"]
  by (auto simp: writeUint32_def Let_def writer_ok_def emitted_def and_255
      to_u8_eq_iff drop_bit_eq_div)

lemma encode_into_all:
  "length (concat (map utf8_bytes cs)) \<le> room \<Longrightarrow>
    encode_into room cs = map to_u8 (concat (map utf8_bytes cs))"
  by (induction cs arbitrary: room) (auto simp: Let_def simp del: length_concat)

lemma writeUtf8_ok:
  assumes "writer_ok w" "3 * length s \<le> n"
  shows "writer_ok (snd (writeUtf8 s n w))"
    "emitted (snd (writeUtf8 s n w)) = emitted w @ text_encode s"
    "fst (writeUtf8 s n w) = length (text_encode s)"
    "woffset (snd (writeUtf8 s n w)) = woffset w + length (text_encode s)"
proof -
  let ?w = "ensure n w"
  have len: "length (text_encode s) \<le> n"
    using length_text_encode [of s] assms(2) by simp
  then have "length (concat (map utf8_bytes (utf16_scalars s))) \<le> length (buffer ?w) - woffset ?w"
    using ensure_ok [OF assms(1), of n] by (simp add: text_encode_def)
  then have "encode_into (length (buffer ?w) - woffset ?w) (utf16_scalars s) = text_encode s"
    by (simp add: encode_into_all text_encode_def)
  then show "writer_ok (snd (writeUtf8 s n w))"
    "emitted (snd (writeUtf8 s n w)) = emitted w @ text_encode s"
    "fst (writeUtf8 s n w) = length (text_encode s)"
    "woffset (snd (writeUtf8 s n w)) = woffset w + length (text_encode s)"
    using ensure_ok [OF assms(1), of n] len
    by (auto simp: writeUtf8_def Let_def writer_ok_def emitted_def take_u8_set)
qed

lemma reserveUint8_ok:
  assumes "writer_ok w"
  shows "writer_ok (snd (reserveUint8 w))" "fst (reserveUint8 w) = woffset w"
    "length (emitted w) = woffset w"
    "\<exists>b. emitted (snd (reserveUint8 w)) = emitted w @ [b]"
  using ensure_ok [OF assms, of 1] assms
  by (auto simp: reserveUint8_def Let_def writer_ok_def emitted_def take_Suc_conv_app_nth)

lemma length_emitted: "writer_ok w \<Longrightarrow> length (emitted w) = woffset w"
  by (simp add: writer_ok_def emitted_def)

lemma patchUint8_ok:
  assumes "writer_ok w" "at < woffset w"
  shows "writer_ok (patchUint8 at v w)"
    "emitted (patchUint8 at v w) = (emitted w)[at := to_u8 v]"
  using assms by (auto simp: patchUint8_def writer_ok_def emitted_def and_255 to_u8_eq_iff
      take_update_swap)

lemma new_writer_ok: "0 < n \<Longrightarrow> writer_ok (new_writer n)" "emitted (new_writer n) = []"
  by (simp_all add: new_writer_def writer_ok_def emitted_def)

subsection \<open>The contract of the encoder\<close>

text \<open>The result of running one fallible byte producer after another.\<close>

definition cat_r :: "'e + bytes \<Rightarrow> 'e + bytes \<Rightarrow> 'e + bytes" where
  "cat_r p q = rbind p (\<lambda>a. rbind q (\<lambda>b. Inr (a @ b)))"

lemma cat_r_simps [simp]:
  "cat_r (Inl e) q = Inl e" "cat_r (Inr a) (Inl e) = Inl e" "cat_r (Inr a) (Inr b) = Inr (a @ b)"
  by (simp_all add: cat_r_def)

locale byte_sink =
  fixes ok :: "'s \<Rightarrow> bool"
    and out :: "'s \<Rightarrow> bytes"
    and put8 :: "nat \<Rightarrow> 's \<Rightarrow> 's"
    and put :: "bytes \<Rightarrow> 's \<Rightarrow> 's"
  assumes ok_put8: "ok w \<Longrightarrow> ok (put8 v w)"
    and out_put8: "ok w \<Longrightarrow> out (put8 v w) = out w @ [to_u8 v]"
    and ok_put: "ok w \<Longrightarrow> ok (put bs w)"
    and out_put: "ok w \<Longrightarrow> out (put bs w) = out w @ bs"
begin

text \<open>A routine on the sink does what a byte producer says: same error, or its bytes appended.\<close>

definition emits :: "('s \<Rightarrow> 'e + 's) \<Rightarrow> 'e + bytes \<Rightarrow> bool" where
  "emits f r \<longleftrightarrow> (\<forall>w. ok w \<longrightarrow>
    (case r of Inl e \<Rightarrow> f w = Inl e
     | Inr bs \<Rightarrow> \<exists>w'. f w = Inr w' \<and> ok w' \<and> out w' = out w @ bs))"

lemma emits_Inl: "emits f (Inl e) \<longleftrightarrow> (\<forall>w. ok w \<longrightarrow> f w = Inl e)"
  by (simp add: emits_def)

lemma emits_InrI:
  "(\<And>w. ok w \<Longrightarrow> ok (g w) \<and> out (g w) = out w @ bs \<and> f w = Inr (g w)) \<Longrightarrow> emits f (Inr bs)"
  by (auto simp: emits_def)

lemma emits_cong: "emits f r \<Longrightarrow> (\<And>w. ok w \<Longrightarrow> g w = f w) \<Longrightarrow> emits g r"
  by (cases r) (auto simp: emits_def)

lemma emits_done: "emits Inr (Inr [])"
  by (simp add: emits_def)

lemma emits_put8: "emits (\<lambda>w. Inr (put8 v w)) (Inr [to_u8 v])"
  by (simp add: emits_def ok_put8 out_put8)

lemma emits_put: "emits (\<lambda>w. Inr (put bs w)) (Inr bs)"
  by (simp add: emits_def ok_put out_put)

lemma emits_seq:
  assumes "emits f p" "emits g q"
  shows "emits (\<lambda>w. rbind (f w) g) (cat_r p q)"
  unfolding emits_def
proof (intro allI impI)
  fix w
  assume w: "ok w"
  show "case cat_r p q of Inl e \<Rightarrow> rbind (f w) g = Inl e
    | Inr bs \<Rightarrow> \<exists>w'. rbind (f w) g = Inr w' \<and> ok w' \<and> out w' = out w @ bs"
  proof (cases p)
    case (Inl e)
    with assms(1) w show ?thesis by (simp add: emits_def)
  next
    case (Inr a)
    with assms(1) w obtain w1 where w1: "f w = Inr w1" "ok w1" "out w1 = out w @ a"
      by (auto simp: emits_def)
    show ?thesis
    proof (cases q)
      case (Inl e)
      with assms(2) w1 Inr show ?thesis by (simp add: emits_def)
    next
      case (Inr b)
      with assms(2) w1 obtain w2 where "g w1 = Inr w2" "ok w2" "out w2 = out w1 @ b"
        by (auto simp: emits_def)
      with w1 Inr \<open>p = Inr a\<close> show ?thesis by simp
    qed
  qed
qed

lemma emits_then_put8: "emits f q \<Longrightarrow> emits (\<lambda>w. f (put8 v w)) (cat_r (Inr [to_u8 v]) q)"
  using emits_seq [OF emits_put8, of f q v] by simp

end

interpretation sink: byte_sink writer_ok emitted writeUint8 writeBytes
  by unfold_locales (simp_all add: writeUint8_ok writeBytes_ok)

end
