(* ===== verification/Defaults.thy ===== *)
theory Defaults
  imports JsString
begin

text \<open>The servers and fixed ids of \<open>WA_DEFAULTS\<close> in \<open>src/protocol/defaults.ts\<close>.\<close>

definition HOST_DOMAIN :: jstr where "HOST_DOMAIN = js ''s.whatsapp.net''"
definition GROUP_SERVER :: jstr where "GROUP_SERVER = js ''g.us''"
definition BROADCAST_SERVER :: jstr where "BROADCAST_SERVER = js ''broadcast''"
definition LID_SERVER :: jstr where "LID_SERVER = js ''lid''"
definition HOSTED_SERVER :: jstr where "HOSTED_SERVER = js ''hosted''"
definition HOSTED_LID_SERVER :: jstr where "HOSTED_LID_SERVER = js ''hosted.lid''"
definition HOSTED_DEVICE_ID :: nat where "HOSTED_DEVICE_ID = 99"
definition MSGR_SERVER :: jstr where "MSGR_SERVER = js ''msgr''"
definition INTEROP_SERVER :: jstr where "INTEROP_SERVER = js ''interop''"
definition NEWSLETTER_SERVER :: jstr where "NEWSLETTER_SERVER = js ''newsletter''"
definition BOT_SERVER :: jstr where "BOT_SERVER = js ''bot''"
definition STATUS_BROADCAST_JID :: jstr where "STATUS_BROADCAST_JID = js ''status@broadcast''"

lemmas server_defs = HOST_DOMAIN_def GROUP_SERVER_def BROADCAST_SERVER_def LID_SERVER_def
  HOSTED_SERVER_def HOSTED_LID_SERVER_def MSGR_SERVER_def INTEROP_SERVER_def
  NEWSLETTER_SERVER_def BOT_SERVER_def

text \<open>The separators of a JID: \<open>@\<close> is 64 and \<open>:\<close> is 58.\<close>

lemma servers_plain [simp]:
  "64 \<notin> set HOST_DOMAIN" "64 \<notin> set LID_SERVER" "64 \<notin> set HOSTED_SERVER"
  "64 \<notin> set HOSTED_LID_SERVER" "58 \<notin> set HOST_DOMAIN" "58 \<notin> set LID_SERVER"
  "58 \<notin> set HOSTED_SERVER" "58 \<notin> set HOSTED_LID_SERVER"
  by (simp_all add: server_defs js_def)

lemma servers_not_Nil [simp]:
  "HOST_DOMAIN \<noteq> []" "LID_SERVER \<noteq> []" "HOSTED_SERVER \<noteq> []" "HOSTED_LID_SERVER \<noteq> []"
  by (simp_all add: server_defs js_def)

lemma servers_distinct:
  "distinct [HOST_DOMAIN, LID_SERVER, HOSTED_SERVER, HOSTED_LID_SERVER]"
  by (simp add: server_defs js_def)

lemma servers_neq [simp]:
  "HOST_DOMAIN \<noteq> LID_SERVER" "HOST_DOMAIN \<noteq> HOSTED_SERVER" "HOST_DOMAIN \<noteq> HOSTED_LID_SERVER"
  "LID_SERVER \<noteq> HOST_DOMAIN" "LID_SERVER \<noteq> HOSTED_SERVER" "LID_SERVER \<noteq> HOSTED_LID_SERVER"
  "HOSTED_SERVER \<noteq> HOST_DOMAIN" "HOSTED_SERVER \<noteq> LID_SERVER" "HOSTED_SERVER \<noteq> HOSTED_LID_SERVER"
  "HOSTED_LID_SERVER \<noteq> HOST_DOMAIN" "HOSTED_LID_SERVER \<noteq> LID_SERVER"
  "HOSTED_LID_SERVER \<noteq> HOSTED_SERVER"
  using servers_distinct by auto

end
