(* ===== verification/Encoder.thy ===== *)
theory Encoder
  imports BinaryFormat ByteWriter Defaults
begin

text \<open>
  \<open>src/transport/binary/encoder.ts\<close>: the routines that write a node, on the \<open>ByteWriter\<close> of
  theory ByteWriter, with every \<open>throw\<close> as an error value.  The second half states the wire
  format as plain functions from strings and nodes to bytes (\<open>wire_string\<close>, \<open>wire_jid\<close>,
  \<open>wire_node\<close>) and proves that the writer routines emit exactly those bytes and throw exactly
  those errors, for every state of the buffer.
\<close>

datatype enc_error =
    CannotNibbleEncode nat
  | InvalidBinaryLength nat
  | BinaryTooBig nat
  | InvalidListSize nat
  | ListTooLarge nat

subsection \<open>Packed strings\<close>

datatype packed = PACKED_NONE | PACKED_NIBBLE | PACKED_HEX

fun classify_loop :: "jstr \<Rightarrow> bool \<Rightarrow> bool \<Rightarrow> packed" where
  "classify_loop [] nibbleOk hexOk = (if nibbleOk then PACKED_NIBBLE else PACKED_HEX)"
| "classify_loop (code # rest) nibbleOk hexOk =
    (if 48 \<le> code \<and> code \<le> 57 then classify_loop rest nibbleOk hexOk
     else if code = 45 \<or> code = 46 then
       (if \<not> nibbleOk then PACKED_NONE else classify_loop rest nibbleOk False)
     else if 65 \<le> code \<and> code \<le> 70 then
       (if \<not> hexOk then PACKED_NONE else classify_loop rest False hexOk)
     else PACKED_NONE)"

definition classifyPackedString :: "jstr \<Rightarrow> packed" where
  "classifyPackedString s =
    (if length s = 0 \<or> 128 \<le> length s then PACKED_NONE else classify_loop s True True)"

definition toNibble :: "nat \<Rightarrow> nat \<Rightarrow> enc_error + nat" where
  "toNibble code packedType =
    (if 48 \<le> code \<and> code \<le> 57 then Inr (code - 48)
     else if packedType = NIBBLE_8 \<and> code = 45 then Inr 10
     else if packedType = NIBBLE_8 \<and> code = 46 then Inr 11
     else if packedType = HEX_8 \<and> 65 \<le> code \<and> code \<le> 70 then Inr (code - 55)
     else Inl (CannotNibbleEncode code))"

fun packed_loop :: "jstr \<Rightarrow> nat \<Rightarrow> writer \<Rightarrow> enc_error + writer" where
  "packed_loop [] packedType w = Inr w"
| "packed_loop [c] packedType w =
    rbind (toNibble c packedType) (\<lambda>high. Inr (writeUint8 (push_bit 4 high OR 0x0f) w))"
| "packed_loop (c # d # rest) packedType w =
    rbind (toNibble c packedType) (\<lambda>high. rbind (toNibble d packedType) (\<lambda>low.
      packed_loop rest packedType (writeUint8 (push_bit 4 high OR low) w)))"

definition packed_length_byte :: "nat \<Rightarrow> nat" where
  "packed_length_byte n = (if odd n then (n + 1) div 2 OR 0x80 else (n + 1) div 2)"

definition writePackedString :: "jstr \<Rightarrow> nat \<Rightarrow> writer \<Rightarrow> enc_error + writer" where
  "writePackedString s packedType w =
    packed_loop s packedType (writeUint8 (packed_length_byte (length s)) (writeUint8 packedType w))"

subsection \<open>Binary lengths and UTF-8\<close>

definition writeBinaryLength :: "nat \<Rightarrow> writer \<Rightarrow> enc_error + writer" where
  "writeBinaryLength len w =
    (if MAX_SAFE_INTEGER < len then Inl (InvalidBinaryLength len)
     else if len < 256 then Inr (writeUint8 len (writeUint8 BINARY_8 w))
     else if len < 2 ^ 20 then
       Inr (writeUint8 (len AND 255) (writeUint8 (drop_bit 8 len AND 255)
         (writeUint8 (drop_bit 16 len AND 255) (writeUint8 BINARY_20 w))))
     else if \<not> len < 0x100000000 then Inl (BinaryTooBig len)
     else Inr (writeUint32 len (writeUint8 BINARY_32 w)))"

definition writeUtf8WithLength :: "jstr \<Rightarrow> writer \<Rightarrow> enc_error + writer" where
  "writeUtf8WithLength s w =
    (if length s < 86 then
       (let w1 = writeUint8 BINARY_8 w;
            (lengthAt, w2) = reserveUint8 w1;
            (written, w3) = writeUtf8 s (length s * 3) w2
        in Inr (patchUint8 lengthAt written w3))
     else
       rbind (writeBinaryLength (length (text_encode s)) w)
         (\<lambda>w1. Inr (writeBytes (text_encode s) w1)))"

definition writeString :: "jstr \<Rightarrow> writer \<Rightarrow> enc_error + writer" where
  "writeString s w =
    (case MERGED_TOKEN_MAP s of
       Some token \<Rightarrow>
         if token < MERGED_TOKEN_DICTIONARY_FLAG then Inr (writeUint8 token w)
         else Inr (writeUint8 (token AND 255)
           (writeUint8 (DICTIONARY_0 + (drop_bit 8 token AND 255)) w))
     | None \<Rightarrow>
         (case classifyPackedString s of
            PACKED_NIBBLE \<Rightarrow> writePackedString s NIBBLE_8 w
          | PACKED_HEX \<Rightarrow> writePackedString s HEX_8 w
          | PACKED_NONE \<Rightarrow> writeUtf8WithLength s w))"

subsection \<open>JIDs\<close>

definition KNOWN_JID_SERVERS :: "jstr list" where
  "KNOWN_JID_SERVERS =
    [HOST_DOMAIN, LID_SERVER, GROUP_SERVER, NEWSLETTER_SERVER, BROADCAST_SERVER,
     HOSTED_LID_SERVER, HOSTED_SERVER, BOT_SERVER, MSGR_SERVER, INTEROP_SERVER]"

definition matchKnownServer :: "jstr \<Rightarrow> nat \<Rightarrow> jstr option" where
  "matchKnownServer s from =
    List.find (\<lambda>server. length server = length s - from \<and> starts_at s server from)
      KNOWN_JID_SERVERS"

text \<open>The digits of the device; \<open>None\<close> where the source returns \<open>false\<close>.\<close>

fun parse_device :: "jstr \<Rightarrow> nat \<Rightarrow> nat option" where
  "parse_device [] device = Some device"
| "parse_device (c # rest) device =
    (let digit = int c - 48 in
     if digit < 0 \<or> 9 < digit then None
     else let device' = device * 10 + nat digit in
       if 255 < device' then None else parse_device rest device')"

text \<open>
  What \<open>tryWriteJid\<close> reads off the string before it writes: end of the user part, device and
  server, or \<open>None\<close> where it returns \<open>false\<close>.
\<close>

definition jid_shape :: "jstr \<Rightarrow> (nat \<times> nat \<times> jstr) option" where
  "jid_shape s =
    (case index_of 64 s of
       None \<Rightarrow> None
     | Some atIndex \<Rightarrow>
         if atIndex = 0 \<or> atIndex = length s - 1 then None
         else if index_from 64 s (atIndex + 1) \<noteq> None then None
         else
           let server = (case matchKnownServer s (atIndex + 1) of
                 Some server \<Rightarrow> server | None \<Rightarrow> drop (atIndex + 1) s)
           in case index_of 58 s of
                None \<Rightarrow> Some (atIndex, 0, server)
              | Some colonIndex \<Rightarrow>
                  if colonIndex < atIndex then
                    (if colonIndex = atIndex - 1 then None
                     else map_option (\<lambda>device. (colonIndex, device, server))
                       (parse_device (slice s (colonIndex + 1) atIndex) 0))
                  else Some (atIndex, 0, server))"

definition jid_domain_type :: "jstr \<Rightarrow> nat option" where
  "jid_domain_type server =
    (if server = LID_SERVER then Some JID_U_DOMAIN_TYPE_LID
     else if server = HOSTED_LID_SERVER then Some JID_U_DOMAIN_TYPE_HOSTED_LID
     else if server = HOST_DOMAIN then Some JID_U_DOMAIN_TYPE_PN
     else if server = HOSTED_SERVER then Some JID_U_DOMAIN_TYPE_HOSTED
     else None)"

definition write_jid_pair :: "jstr \<Rightarrow> jstr \<Rightarrow> writer \<Rightarrow> enc_error + writer" where
  "write_jid_pair user server w =
    (let w1 = writeUint8 JID_PAIR w in
     rbind (if user = [] then Inr (writeUint8 LIST_EMPTY w1) else writeString user w1)
       (writeString server))"

text \<open>\<open>None\<close> is the result \<open>false\<close>: nothing was written.\<close>

definition tryWriteJid :: "jstr \<Rightarrow> writer \<Rightarrow> (enc_error + writer) option" where
  "tryWriteJid s w =
    (case jid_shape s of
       None \<Rightarrow> None
     | Some (userEnd, device, server) \<Rightarrow>
         (case jid_domain_type server of
            Some domainType \<Rightarrow>
              if device \<noteq> 0 \<and> 0 < userEnd then
                Some (writeString (slice s 0 userEnd)
                  (writeUint8 device (writeUint8 domainType (writeUint8 JID_U w))))
              else Some (write_jid_pair (slice s 0 userEnd) server w)
          | None \<Rightarrow> Some (write_jid_pair (slice s 0 userEnd) server w)))"

definition write_attr_value :: "jstr \<Rightarrow> writer \<Rightarrow> enc_error + writer" where
  "write_attr_value v w =
    (case tryWriteJid v w of Some r \<Rightarrow> r | None \<Rightarrow> writeString v w)"

subsection \<open>Nodes\<close>

definition writeListSize :: "nat \<Rightarrow> writer \<Rightarrow> enc_error + writer" where
  "writeListSize n w =
    (if MAX_SAFE_INTEGER < n then Inl (InvalidListSize n)
     else if n < 256 then Inr (writeUint8 n (writeUint8 LIST_8 w))
     else if \<not> n < 2 ^ 16 then Inl (ListTooLarge n)
     else Inr (writeUint16 n (writeUint8 LIST_16 w)))"

fun write_attrs :: "attrs \<Rightarrow> writer \<Rightarrow> enc_error + writer" where
  "write_attrs [] w = Inr w"
| "write_attrs ((k, v) # rest) w =
    rbind (writeString k w) (\<lambda>w1. rbind (write_attr_value v w1) (write_attrs rest))"

definition node_list_size :: "attrs \<Rightarrow> 'n content \<Rightarrow> nat" where
  "node_list_size as c = 1 + length as * 2 + (if c = NoContent then 0 else 1)"

fun writeNodeInternal :: "node \<Rightarrow> writer \<Rightarrow> enc_error + writer"
  and writeNodes :: "node list \<Rightarrow> writer \<Rightarrow> enc_error + writer" where
  "writeNodeInternal (Node t as c) w =
    rbind (writeListSize (node_list_size as c) w) (\<lambda>w1.
    rbind (writeString t w1) (\<lambda>w2.
    rbind (write_attrs as w2) (\<lambda>w3.
      case c of
        NoContent \<Rightarrow> Inr w3
      | CString s \<Rightarrow> writeUtf8WithLength s w3
      | CBytes bs \<Rightarrow>
          rbind (writeBinaryLength (length bs) w3) (\<lambda>w4. Inr (writeBytes bs w4))
      | CNodes children \<Rightarrow>
          rbind (writeListSize (length children) w3) (writeNodes children))))"
| "writeNodes [] w = Inr w"
| "writeNodes (child # rest) w = rbind (writeNodeInternal child w) (writeNodes rest)"

definition encodeBinaryNode :: "node \<Rightarrow> enc_error + bytes" where
  "encodeBinaryNode n =
    rbind (writeNodeInternal n (new_writer 256)) (\<lambda>w. Inr (emitted w))"

definition encodeBinaryNodeStanza :: "node \<Rightarrow> enc_error + bytes" where
  "encodeBinaryNodeStanza n =
    rbind (writeNodeInternal n (writeUint8 0 (new_writer 256))) (\<lambda>w. Inr (emitted w))"

subsection \<open>The wire format\<close>

definition nibble_val :: "nat \<Rightarrow> nat" where
  "nibble_val c = (if c = 45 then 10 else if c = 46 then 11 else if c \<le> 57 then c - 48 else c - 55)"

fun packed_bytes :: "jstr \<Rightarrow> bytes" where
  "packed_bytes [] = []"
| "packed_bytes [c] = [to_u8 (nibble_val c * 16 + 15)]"
| "packed_bytes (c # d # rest) = to_u8 (nibble_val c * 16 + nibble_val d) # packed_bytes rest"

definition wire_packed :: "nat \<Rightarrow> jstr \<Rightarrow> bytes" where
  "wire_packed packedType s =
    [to_u8 packedType, to_u8 (packed_length_byte (length s))] @ packed_bytes s"

definition wire_length :: "nat \<Rightarrow> enc_error + bytes" where
  "wire_length n =
    (if MAX_SAFE_INTEGER < n then Inl (InvalidBinaryLength n)
     else if n < 256 then Inr [to_u8 BINARY_8, to_u8 n]
     else if n < 2 ^ 20 then
       Inr [to_u8 BINARY_20, to_u8 (n div 65536), to_u8 (n div 256), to_u8 n]
     else if 2 ^ 32 \<le> n then Inl (BinaryTooBig n)
     else Inr [to_u8 BINARY_32, to_u8 (n div 16777216), to_u8 (n div 65536),
       to_u8 (n div 256), to_u8 n])"

definition wire_binary :: "bytes \<Rightarrow> enc_error + bytes" where
  "wire_binary bs = cat_r (wire_length (length bs)) (Inr bs)"

definition wire_string :: "jstr \<Rightarrow> enc_error + bytes" where
  "wire_string s =
    (case MERGED_TOKEN_MAP s of
       Some token \<Rightarrow>
         if token < MERGED_TOKEN_DICTIONARY_FLAG then Inr [to_u8 token]
         else Inr [to_u8 (DICTIONARY_0 + token div 256 mod 256), to_u8 token]
     | None \<Rightarrow>
         (case classifyPackedString s of
            PACKED_NIBBLE \<Rightarrow> Inr (wire_packed NIBBLE_8 s)
          | PACKED_HEX \<Rightarrow> Inr (wire_packed HEX_8 s)
          | PACKED_NONE \<Rightarrow> wire_binary (text_encode s)))"

definition wire_jid_pair :: "jstr \<Rightarrow> jstr \<Rightarrow> enc_error + bytes" where
  "wire_jid_pair user server =
    cat_r (Inr [to_u8 JID_PAIR])
      (cat_r (if user = [] then Inr [to_u8 LIST_EMPTY] else wire_string user) (wire_string server))"

definition wire_attr_value :: "jstr \<Rightarrow> enc_error + bytes" where
  "wire_attr_value v =
    (case jid_shape v of
       None \<Rightarrow> wire_string v
     | Some (userEnd, device, server) \<Rightarrow>
         (case jid_domain_type server of
            Some domainType \<Rightarrow>
              if device \<noteq> 0 \<and> 0 < userEnd then
                cat_r (Inr [to_u8 JID_U, to_u8 domainType, to_u8 device])
                  (wire_string (take userEnd v))
              else wire_jid_pair (take userEnd v) server
          | None \<Rightarrow> wire_jid_pair (take userEnd v) server))"

definition wire_list_size :: "nat \<Rightarrow> enc_error + bytes" where
  "wire_list_size n =
    (if MAX_SAFE_INTEGER < n then Inl (InvalidListSize n)
     else if n < 256 then Inr [to_u8 LIST_8, to_u8 n]
     else if 2 ^ 16 \<le> n then Inl (ListTooLarge n)
     else Inr [to_u8 LIST_16, to_u8 (n div 256), to_u8 n])"

fun wire_attrs :: "attrs \<Rightarrow> enc_error + bytes" where
  "wire_attrs [] = Inr []"
| "wire_attrs ((k, v) # rest) = cat_r (wire_string k) (cat_r (wire_attr_value v) (wire_attrs rest))"

fun wire_node :: "node \<Rightarrow> enc_error + bytes"
  and wire_nodes :: "node list \<Rightarrow> enc_error + bytes" where
  "wire_node (Node t as c) =
    cat_r (wire_list_size (node_list_size as c))
      (cat_r (wire_string t) (cat_r (wire_attrs as)
        (case c of
           NoContent \<Rightarrow> Inr []
         | CString s \<Rightarrow> wire_binary (text_encode s)
         | CBytes bs \<Rightarrow> wire_binary bs
         | CNodes children \<Rightarrow> cat_r (wire_list_size (length children)) (wire_nodes children))))"
| "wire_nodes [] = Inr []"
| "wire_nodes (child # rest) = cat_r (wire_node child) (wire_nodes rest)"

subsection \<open>The writer routines emit the wire format\<close>

lemmas emits_intros = sink.emits_seq sink.emits_put sink.emits_done sink.emits_put8

lemma emits_put8s:
  "sink.emits (\<lambda>w. Inr (writeUint8 b (writeUint8 a w))) (Inr [to_u8 a, to_u8 b])"
  "sink.emits (\<lambda>w. Inr (writeUint8 d (writeUint8 c (writeUint8 b (writeUint8 a w)))))
    (Inr [to_u8 a, to_u8 b, to_u8 c, to_u8 d])"
  by (simp_all add: sink.emits_def writeUint8_ok)

lemma emits_length: "sink.emits (writeBinaryLength n) (wire_length n)"
proof -
  have "sink.emits (\<lambda>w. Inr (writeUint32 n (writeUint8 a w)))
      (Inr [to_u8 a, to_u8 (n div 16777216), to_u8 (n div 65536), to_u8 (n div 256), to_u8 n])" for a
    by (simp add: sink.emits_def writeUint8_ok writeUint32_ok)
  then show ?thesis
    using emits_put8s(1) [of n BINARY_8]
      emits_put8s(2) [of "n AND 255" "drop_bit 8 n AND 255" "drop_bit 16 n AND 255" BINARY_20]
    by (auto simp: writeBinaryLength_def wire_length_def sink.emits_def and_255 drop_bit_eq_div)
qed

lemma emits_binary:
  "sink.emits (\<lambda>w. rbind (writeBinaryLength (length bs) w) (\<lambda>w1. Inr (writeBytes bs w1)))
    (wire_binary bs)"
  unfolding wire_binary_def by (rule sink.emits_seq [OF emits_length sink.emits_put])

lemma emits_utf8: "sink.emits (writeUtf8WithLength s) (wire_binary (text_encode s))"
proof (cases "length s < 86")
  case False
  then show ?thesis
    by (intro sink.emits_cong [OF emits_binary]) (simp add: writeUtf8WithLength_def)
next
  case True
  let ?n = "length (text_encode s)"
  have n: "?n < 256" using True length_text_encode [of s] by simp
  have "\<exists>w'. writeUtf8WithLength s w = Inr w' \<and> writer_ok w' \<and>
      emitted w' = emitted w @ [to_u8 BINARY_8, to_u8 ?n] @ text_encode s" if "writer_ok w" for w
  proof -
    let ?w1 = "writeUint8 BINARY_8 w"
    have w1: "writer_ok ?w1" "emitted ?w1 = emitted w @ [to_u8 BINARY_8]"
      using that by (simp_all add: writeUint8_ok)
    let ?w2 = "snd (reserveUint8 ?w1)"
    obtain b where w2: "writer_ok ?w2" "fst (reserveUint8 ?w1) = length (emitted ?w1)"
        "emitted ?w2 = emitted ?w1 @ [b]"
      using reserveUint8_ok [OF w1(1)] by auto
    let ?w3 = "snd (writeUtf8 s (length s * 3) ?w2)"
    have w3: "writer_ok ?w3" "emitted ?w3 = emitted ?w2 @ text_encode s"
        "fst (writeUtf8 s (length s * 3) ?w2) = ?n"
      using writeUtf8_ok [OF w2(1), of s "length s * 3"] by simp_all
    have off: "length (emitted ?w1) < woffset ?w3"
      using w2 w3 by (simp add: length_emitted [OF w3(1), symmetric])
    show ?thesis
      using True w1 w2 w3 patchUint8_ok [OF w3(1) off, of ?n]
      by (simp add: writeUtf8WithLength_def Let_def split_beta list_update_append)
  qed
  then show ?thesis
    using n by (simp add: sink.emits_def wire_binary_def wire_length_def MAX_SAFE_INTEGER_def)
qed

definition nibble_unit :: "nat \<Rightarrow> nat \<Rightarrow> bool" where
  "nibble_unit packedType c \<longleftrightarrow> is_digit_unit c \<or>
    packedType = NIBBLE_8 \<and> (c = 45 \<or> c = 46) \<or> packedType = HEX_8 \<and> 65 \<le> c \<and> c \<le> 70"

lemma toNibble_unit: "nibble_unit packedType c \<Longrightarrow> toNibble c packedType = Inr (nibble_val c)"
  by (auto simp: nibble_unit_def toNibble_def nibble_val_def is_digit_unit_def)

lemma nibble_val_less: "nibble_unit packedType c \<Longrightarrow> nibble_val c < 16"
  by (auto simp: nibble_unit_def nibble_val_def is_digit_unit_def)

lemma classify_loop_units:
  "classify_loop s nib hex = PACKED_NIBBLE \<Longrightarrow> nib \<and> list_all (nibble_unit NIBBLE_8) s"
  "classify_loop s nib hex = PACKED_HEX \<Longrightarrow> (hex \<or> nib) \<Longrightarrow>
    hex \<and> list_all (nibble_unit HEX_8) s"
  by (induction s nib hex rule: classify_loop.induct)
    (auto simp: nibble_unit_def is_digit_unit_def split: if_splits)

lemma classifyPackedString_units:
  "classifyPackedString s = PACKED_NIBBLE \<Longrightarrow>
    list_all (nibble_unit NIBBLE_8) s \<and> 0 < length s \<and> length s < 128"
  "classifyPackedString s = PACKED_HEX \<Longrightarrow>
    list_all (nibble_unit HEX_8) s \<and> 0 < length s \<and> length s < 128"
  by (auto simp: classifyPackedString_def dest: classify_loop_units split: if_splits)

lemma nibble_byte:
  assumes "nibble_unit ty c" "nibble_unit ty d"
  shows "push_bit 4 (nibble_val c) OR nibble_val d = nibble_val c * 16 + nibble_val d"
    "push_bit 4 (nibble_val c) OR 15 = nibble_val c * 16 + 15"
  using or_shift_nat [of "nibble_val d" 4] or_shift_nat [of 15 4] nibble_val_less [OF assms(2)]
  by simp_all

lemma emits_packed_loop:
  "list_all (nibble_unit ty) s \<Longrightarrow> sink.emits (packed_loop s ty) (Inr (packed_bytes s))"
proof (induction s rule: packed_bytes.induct)
  case 1
  then show ?case by (simp add: sink.emits_def)
next
  case (2 c)
  then show ?case
    using sink.emits_put8 [of "nibble_val c * 16 + 15"]
    by (simp add: toNibble_unit nibble_byte sink.emits_def)
next
  case (3 c d rest)
  then have "sink.emits (packed_loop rest ty) (Inr (packed_bytes rest))" by simp
  from sink.emits_then_put8 [OF this, of "nibble_val c * 16 + nibble_val d"] show ?case
    using 3(2) by (simp add: toNibble_unit nibble_byte [of ty c d] sink.emits_def)
qed

lemma emits_packed:
  assumes "list_all (nibble_unit ty) s"
  shows "sink.emits (writePackedString s ty) (Inr (wire_packed ty s))"
  using sink.emits_seq [OF emits_put8s(1) emits_packed_loop [OF assms],
      of "packed_length_byte (length s)" ty]
  by (simp add: writePackedString_def wire_packed_def sink.emits_def)

lemma emits_string: "sink.emits (writeString s) (wire_string s)"
proof (cases "MERGED_TOKEN_MAP s")
  case None
  show ?thesis
  proof (cases "classifyPackedString s")
    case PACKED_NONE
    with None show ?thesis
      by (auto simp: writeString_def wire_string_def intro: sink.emits_cong [OF emits_utf8])
  next
    case PACKED_NIBBLE
    with None classifyPackedString_units(1) [of s] show ?thesis
      by (auto simp: writeString_def wire_string_def intro: sink.emits_cong [OF emits_packed])
  next
    case PACKED_HEX
    with None classifyPackedString_units(2) [of s] show ?thesis
      by (auto simp: writeString_def wire_string_def intro: sink.emits_cong [OF emits_packed])
  qed
next
  case (Some token)
  then show ?thesis
    using sink.emits_put8 [of token]
      emits_put8s(1) [of "token AND 255" "DICTIONARY_0 + (drop_bit 8 token AND 255)"]
    by (auto simp: writeString_def wire_string_def sink.emits_def and_255 drop_bit_eq_div)
qed

lemma emits_jid_pair: "sink.emits (write_jid_pair user server) (wire_jid_pair user server)"
proof -
  have "sink.emits (\<lambda>w. if user = [] then Inr (writeUint8 LIST_EMPTY w) else writeString user w)
      (if user = [] then Inr [to_u8 LIST_EMPTY] else wire_string user)"
    using emits_string [of user] sink.emits_put8 [of LIST_EMPTY] by auto
  from sink.emits_then_put8 [OF sink.emits_seq [OF this emits_string [of server]], of JID_PAIR]
  show ?thesis unfolding write_jid_pair_def wire_jid_pair_def Let_def by simp
qed

lemma emits_attr_value: "sink.emits (write_attr_value v) (wire_attr_value v)"
proof (cases "jid_shape v")
  case None
  then show ?thesis
    by (auto simp: write_attr_value_def tryWriteJid_def wire_attr_value_def
        intro: sink.emits_cong [OF emits_string])
next
  case (Some shape)
  obtain userEnd device server where shape: "shape = (userEnd, device, server)"
    by (cases shape)
  have u: "sink.emits (\<lambda>w. writeString (take userEnd v)
      (writeUint8 device (writeUint8 ty (writeUint8 JID_U w))))
      (cat_r (Inr [to_u8 JID_U, to_u8 ty, to_u8 device]) (wire_string (take userEnd v)))" for ty
  proof -
    have "sink.emits (\<lambda>w. Inr (writeUint8 device (writeUint8 ty (writeUint8 JID_U w))))
        (Inr [to_u8 JID_U, to_u8 ty, to_u8 device])"
      by (simp add: sink.emits_def writeUint8_ok)
    from sink.emits_seq [OF this emits_string] show ?thesis by simp
  qed
  consider ty where "jid_domain_type server = Some ty" "device \<noteq> 0 \<and> 0 < userEnd"
    | "jid_domain_type server = None \<or> \<not> (device \<noteq> 0 \<and> 0 < userEnd)"
    by (cases "jid_domain_type server") blast+
  then show ?thesis
  proof cases
    case 1
    with Some shape have "wire_attr_value v =
        cat_r (Inr [to_u8 JID_U, to_u8 ty, to_u8 device]) (wire_string (take userEnd v))"
      by (simp add: wire_attr_value_def)
    with 1 Some shape show ?thesis
      by (auto simp: write_attr_value_def tryWriteJid_def slice_def intro: sink.emits_cong [OF u])
  next
    case 2
    with Some shape have "wire_attr_value v = wire_jid_pair (take userEnd v) server"
      by (auto simp: wire_attr_value_def split: option.split)
    with 2 Some shape show ?thesis
      by (auto simp: write_attr_value_def tryWriteJid_def slice_def split: option.split
          intro: sink.emits_cong [OF emits_jid_pair])
  qed
qed

lemma emits_list_size: "sink.emits (writeListSize n) (wire_list_size n)"
proof -
  have "sink.emits (\<lambda>w. Inr (writeUint16 n (writeUint8 a w)))
      (Inr [to_u8 a, to_u8 (n div 256), to_u8 n])" for a
    by (simp add: sink.emits_def writeUint8_ok writeUint16_ok)
  then show ?thesis
    using emits_put8s(1) [of n LIST_8]
    by (auto simp: writeListSize_def wire_list_size_def sink.emits_def)
qed

lemma emits_attrs: "sink.emits (write_attrs as) (wire_attrs as)"
proof (induction "as" rule: wire_attrs.induct)
  case 1
  then show ?case by (simp add: sink.emits_def)
next
  case (2 k v rest)
  show ?case
    unfolding wire_attrs.simps
    by (rule sink.emits_cong [OF sink.emits_seq [OF emits_string
            sink.emits_seq [OF emits_attr_value 2]]]) simp
qed

lemma emits_node:
  "sink.emits (writeNodeInternal n) (wire_node n)"
  "sink.emits (writeNodes ns) (wire_nodes ns)"
proof (induction n and ns rule: wire_node_wire_nodes.induct)
  case (1 t "as" c)
  let ?f = "\<lambda>w3. case c of
        NoContent \<Rightarrow> Inr w3
      | CString s \<Rightarrow> writeUtf8WithLength s w3
      | CBytes bs \<Rightarrow> rbind (writeBinaryLength (length bs) w3) (\<lambda>w4. Inr (writeBytes bs w4))
      | CNodes children \<Rightarrow> rbind (writeListSize (length children) w3) (writeNodes children)"
  let ?r = "case c of
           NoContent \<Rightarrow> Inr []
         | CString s \<Rightarrow> wire_binary (text_encode s)
         | CBytes bs \<Rightarrow> wire_binary bs
         | CNodes children \<Rightarrow> cat_r (wire_list_size (length children)) (wire_nodes children)"
  have content: "sink.emits ?f ?r"
    using 1 sink.emits_done emits_utf8 emits_binary sink.emits_seq [OF emits_list_size]
    by (cases c) auto
  show ?case
    unfolding wire_node.simps
    by (rule sink.emits_cong [OF sink.emits_seq [OF emits_list_size
            sink.emits_seq [OF emits_string sink.emits_seq [OF emits_attrs content]]]]) simp
next
  case 2
  then show ?case by (simp add: sink.emits_def)
next
  case (3 child rest)
  show ?case
    unfolding wire_nodes.simps by (rule sink.emits_cong [OF sink.emits_seq [OF 3]]) simp
qed

lemma encodeBinaryNode_wire: "encodeBinaryNode n = wire_node n"
  using emits_node(1) [of n] new_writer_ok [of 256]
  by (cases "wire_node n") (auto simp: encodeBinaryNode_def sink.emits_def)

lemma encodeBinaryNodeStanza_wire: "encodeBinaryNodeStanza n = cat_r (Inr [0]) (wire_node n)"
proof -
  have "writer_ok (writeUint8 0 (new_writer 256))" "emitted (writeUint8 0 (new_writer 256)) = [0]"
    using new_writer_ok [of 256] by (simp_all add: writeUint8_ok to_u8_def)
  then show ?thesis
    using emits_node(1) [of n]
    by (cases "wire_node n") (auto simp: encodeBinaryNodeStanza_def sink.emits_def)
qed

end
