(* ===== verification/ByteReader.thy ===== *)
theory ByteReader
  imports JsString
begin

text \<open>
  The class \<open>ByteReader\<close> of \<open>src/transport/binary/decoder.ts\<close>: the data and a read offset,
  every read checked against the end.  \<open>remaining\<close> is what is still unread.  The locale
  \<open>byte_source\<close> is the contract of the parsers built on it: reading takes bytes off the front.
  \<open>parses p bs v\<close> says that \<open>p\<close> reads exactly \<open>bs\<close>, whatever follows, and returns \<open>v\<close>;
  its composition rules are proved once in the locale.
\<close>

datatype dec_error =
    UnexpectedEnd
  | InvalidPackedLength nat
  | InvalidBinaryToken nat
  | InvalidDictionaryToken nat nat
  | UnsupportedStringToken nat
  | InvalidNodeListType nat
  | EmptyNodeList
  | InvalidNodeTag
  | InvalidAttributeEntry
  | StreamEndStanza
  | InflateFailed
  | OutOfFuel

record reader =
  rdata :: bytes
  roffset :: nat

definition new_reader :: "bytes \<Rightarrow> reader" where
  "new_reader bs = \<lparr>rdata = bs, roffset = 0\<rparr>"

definition ensure_available :: "nat \<Rightarrow> reader \<Rightarrow> dec_error + unit" where
  "ensure_available n r =
    (if length (rdata r) < roffset r + n then Inl UnexpectedEnd else Inr ())"

definition byte_at :: "reader \<Rightarrow> nat \<Rightarrow> nat" where
  "byte_at r i = unat (rdata r ! (roffset r + i))"

definition advance :: "nat \<Rightarrow> reader \<Rightarrow> reader" where
  "advance n r = r\<lparr>roffset := roffset r + n\<rparr>"

definition readUint8 :: "reader \<Rightarrow> dec_error + nat \<times> reader" where
  "readUint8 r = rbind (ensure_available 1 r) (\<lambda>_. Inr (byte_at r 0, advance 1 r))"

definition readUint16 :: "reader \<Rightarrow> dec_error + nat \<times> reader" where
  "readUint16 r = rbind (ensure_available 2 r) (\<lambda>_.
    Inr (push_bit 8 (byte_at r 0) OR byte_at r 1, advance 2 r))"

definition readUint32 :: "reader \<Rightarrow> dec_error + nat \<times> reader" where
  "readUint32 r = rbind (ensure_available 4 r) (\<lambda>_.
    Inr (((push_bit 24 (byte_at r 0) OR push_bit 16 (byte_at r 1)) OR push_bit 8 (byte_at r 2))
      OR byte_at r 3, advance 4 r))"

definition readBytes :: "nat \<Rightarrow> reader \<Rightarrow> dec_error + bytes \<times> reader" where
  "readBytes n r = rbind (ensure_available n r) (\<lambda>_.
    Inr (subarray (rdata r) (roffset r) (roffset r + n), advance n r))"

definition getRemaining :: "reader \<Rightarrow> nat" where
  "getRemaining r = length (rdata r) - roffset r"

definition remaining :: "reader \<Rightarrow> bytes" where
  "remaining r = drop (roffset r) (rdata r)"

text \<open>Sequencing of reads: the reader is threaded, the first error ends the parse.\<close>

definition rd_return :: "'a \<Rightarrow> 's \<Rightarrow> 'e + 'a \<times> 's" where
  "rd_return a r = Inr (a, r)"

definition rd_bind :: "('s \<Rightarrow> 'e + 'a \<times> 's) \<Rightarrow> ('a \<Rightarrow> 's \<Rightarrow> 'e + 'b \<times> 's) \<Rightarrow> 's \<Rightarrow> 'e + 'b \<times> 's" where
  "rd_bind m f r = rbind (m r) (\<lambda>(a, r'). f a r')"

definition rd_fail :: "'e \<Rightarrow> 's \<Rightarrow> 'e + 'a \<times> 's" where
  "rd_fail e r = Inl e"

lemma rd_bind_cong [fundef_cong]:
  "r = r' \<Longrightarrow> m r' = m' r' \<Longrightarrow> (\<And>a s. m' r' = Inr (a, s) \<Longrightarrow> f a s = f' a s) \<Longrightarrow>
    rd_bind m f r = rd_bind m' f' r'"
  by (cases "m' r'") (auto simp: rd_bind_def)

lemma rd_bind_assoc: "rd_bind (rd_bind m f) g = rd_bind m (\<lambda>a. rd_bind (f a) g)"
proof
  fix r
  show "rd_bind (rd_bind m f) g r = rd_bind m (\<lambda>a. rd_bind (f a) g) r"
    by (cases "m r") (auto simp: rd_bind_def)
qed

lemma length_remaining: "length (remaining r) = getRemaining r"
  by (simp add: remaining_def getRemaining_def)

lemma remaining_new_reader [simp]: "remaining (new_reader bs) = bs"
  by (simp add: remaining_def new_reader_def)

lemma remaining_advance: "remaining (advance n r) = drop n (remaining r)"
  by (simp add: remaining_def advance_def add.commute)

definition reader_ok :: "reader \<Rightarrow> bool" where
  "reader_ok r \<longleftrightarrow> roffset r \<le> length (rdata r)"

lemma reader_ok_new [simp]: "reader_ok (new_reader bs)"
  by (simp add: reader_ok_def new_reader_def)

lemma reader_split:
  assumes "reader_ok r" "remaining r = bs @ tl'"
  obtains pre where "rdata r = pre @ bs @ tl'" "roffset r = length pre"
proof
  show "rdata r = take (roffset r) (rdata r) @ bs @ tl'"
    using assms(2) by (metis append_take_drop_id remaining_def)
  show "roffset r = length (take (roffset r) (rdata r))"
    using assms(1) by (simp add: reader_ok_def)
qed

lemma advance_split:
  assumes "reader_ok r" "remaining r = bs @ tl'" "n = length bs"
  shows "reader_ok (advance n r)" "remaining (advance n r) = tl'" "ensure_available n r = Inr ()"
proof -
  obtain pre where "rdata r = pre @ bs @ tl'" "roffset r = length pre"
    using assms(1,2) by (rule reader_split)
  with assms(3) show "reader_ok (advance n r)" "remaining (advance n r) = tl'"
    "ensure_available n r = Inr ()"
    by (simp_all add: reader_ok_def advance_def remaining_def ensure_available_def)
qed

lemma byte_at_split:
  assumes "reader_ok r" "remaining r = bs @ tl'" "i < length bs"
  shows "byte_at r i = unat (bs ! i)"
  using assms by (auto elim!: reader_split simp: byte_at_def nth_append)

lemma subarray_split:
  assumes "reader_ok r" "remaining r = bs @ tl'"
  shows "subarray (rdata r) (roffset r) (roffset r + length bs) = bs"
  using assms by (auto elim!: reader_split simp: subarray_def)

subsection \<open>The contract of the parsers\<close>

locale byte_source =
  fixes good :: "'s \<Rightarrow> bool"
    and left :: "'s \<Rightarrow> bytes"
    and get8 :: "'s \<Rightarrow> 'e + nat \<times> 's"
    and get :: "nat \<Rightarrow> 's \<Rightarrow> 'e + bytes \<times> 's"
  assumes get8_left: "good r \<Longrightarrow> left r = b # tl' \<Longrightarrow>
      \<exists>r'. get8 r = Inr (unat b, r') \<and> good r' \<and> left r' = tl'"
    and get_left: "good r \<Longrightarrow> left r = bs @ tl' \<Longrightarrow>
      \<exists>r'. get (length bs) r = Inr (bs, r') \<and> good r' \<and> left r' = tl'"
begin

definition parses :: "('s \<Rightarrow> 'e + 'a \<times> 's) \<Rightarrow> bytes \<Rightarrow> 'a \<Rightarrow> bool" where
  "parses p bs v \<longleftrightarrow> (\<forall>r tl'. good r \<and> left r = bs @ tl' \<longrightarrow>
    (\<exists>r'. p r = Inr (v, r') \<and> good r' \<and> left r' = tl'))"

lemma parses_get8: "parses get8 [b] (unat b)"
  using get8_left by (simp add: parses_def)

lemma parses_get: "n = length bs \<Longrightarrow> parses (get n) bs bs"
  using get_left by (simp add: parses_def)

lemma parses_return: "parses (rd_return v) [] v"
  by (simp add: parses_def rd_return_def)

lemma parses_bind:
  assumes "parses p bs a" "parses (f a) cs v"
  shows "parses (rd_bind p f) (bs @ cs) v"
  unfolding parses_def
proof (intro allI impI)
  fix r tl'
  assume "good r \<and> left r = (bs @ cs) @ tl'"
  then obtain r1 where r1: "p r = Inr (a, r1)" "good r1" "left r1 = cs @ tl'"
    using assms(1) by (fastforce simp: parses_def)
  then obtain r2 where "f a r1 = Inr (v, r2)" "good r2" "left r2 = tl'"
    using assms(2) by (fastforce simp: parses_def)
  with r1 show "\<exists>r'. rd_bind p f r = Inr (v, r') \<and> good r' \<and> left r' = tl'"
    by (simp add: rd_bind_def)
qed

lemma parses_bind_map: "parses p bs a \<Longrightarrow> parses (rd_bind p (\<lambda>x. rd_return (g x))) bs (g a)"
  using parses_bind [of p bs a "\<lambda>x. rd_return (g x)" "[]"] by (simp add: parses_return)

lemma parses_get8_bind:
  "parses (f (unat b)) cs v \<Longrightarrow> parses (rd_bind get8 f) (b # cs) v"
  using parses_bind [OF parses_get8, of f b cs v] by simp

lemma parses_run:
  "parses p bs v \<Longrightarrow> good r \<Longrightarrow> left r = bs \<Longrightarrow> \<exists>r'. p r = Inr (v, r') \<and> good r' \<and> left r' = []"
  by (auto simp: parses_def)

end

interpretation src: byte_source reader_ok remaining readUint8 readBytes
proof unfold_locales
  fix r b tl'
  assume "reader_ok r" "remaining r = b # tl'"
  then show "\<exists>r'. readUint8 r = Inr (unat b, r') \<and> reader_ok r' \<and> remaining r' = tl'"
    using advance_split [of r "[b]" tl' 1] byte_at_split [of r "[b]" tl' 0]
    by (simp add: readUint8_def)
next
  fix r bs tl'
  assume "reader_ok r" "remaining r = bs @ tl'"
  then show "\<exists>r'. readBytes (length bs) r = Inr (bs, r') \<and> reader_ok r' \<and> remaining r' = tl'"
    using advance_split [of r bs tl' "length bs"] subarray_split [of r bs tl']
    by (simp add: readBytes_def)
qed

lemma or_shift_8: "push_bit 8 a OR unat (b :: byte) = a * 256 + unat b"
  using or_shift_nat [of "unat b" 8 a] by simp

lemma parses_readUint16: "src.parses readUint16 [a, b] (unat a * 256 + unat b)"
  unfolding src.parses_def
proof (intro allI impI)
  fix r tl'
  assume r: "reader_ok r \<and> remaining r = [a, b] @ tl'"
  then show "\<exists>r'. readUint16 r = Inr (unat a * 256 + unat b, r') \<and> reader_ok r' \<and> remaining r' = tl'"
    using advance_split [of r "[a, b]" tl' 2] byte_at_split [of r "[a, b]" tl' 0]
      byte_at_split [of r "[a, b]" tl' 1]
    by (simp add: readUint16_def or_shift_8)
qed

lemma readUint32_value:
  "((push_bit 24 (unat (a :: byte)) OR push_bit 16 (unat (b :: byte))) OR push_bit 8 (unat (c :: byte)))
    OR unat (d :: byte) = ((unat a * 256 + unat b) * 256 + unat c) * 256 + unat d"
proof -
  have "((push_bit 24 (unat a) OR push_bit 16 (unat b)) OR push_bit 8 (unat c)) OR unat d
      = push_bit 8 (push_bit 8 (push_bit 8 (unat a) OR unat b) OR unat c) OR unat d"
    by (simp add: push_bit_or)
  then show ?thesis by (simp only: or_shift_8)
qed

lemma parses_readUint32:
  "src.parses readUint32 [a, b, c, d] (((unat a * 256 + unat b) * 256 + unat c) * 256 + unat d)"
  unfolding src.parses_def
proof (intro allI impI)
  fix r tl'
  let ?bs = "[a, b, c, d]"
  assume r: "reader_ok r \<and> remaining r = ?bs @ tl'"
  then show "\<exists>r'. readUint32 r = Inr (((unat a * 256 + unat b) * 256 + unat c) * 256 + unat d, r')
      \<and> reader_ok r' \<and> remaining r' = tl'"
    using advance_split [of r ?bs tl' 4] byte_at_split [of r ?bs tl' 0] byte_at_split [of r ?bs tl' 1]
      byte_at_split [of r ?bs tl' 2] byte_at_split [of r ?bs tl' 3]
    by (simp add: readUint32_def readUint32_value)
qed

end
