(* ===== verification/Decoder.thy ===== *)
theory Decoder
  imports BinaryFormat ByteReader Defaults
begin

text \<open>
  \<open>src/transport/binary/decoder.ts\<close>: the parser of the binary node format on the \<open>ByteReader\<close>
  of theory ByteReader.  Every \<open>throw\<close> is an error value.  The recursion over child nodes
  carries a fuel that only bounds the nesting depth; a node takes at least two bytes, and
  \<open>decodeNodeInternal_fuel\<close> shows that one more than the number of remaining bytes is always
  enough, so \<open>OutOfFuel\<close> is not a result of \<open>decodeBinaryNode\<close>.  \<open>inflate\<close> stands for
  \<open>zlib.unzip\<close> and \<open>inflateRaw\<close> for \<open>zlib.inflateRaw\<close> of the platform, \<open>None\<close> for a
  rejected promise.
\<close>

subsection \<open>Strings\<close>

text \<open>The table of \<open>packedPairTable\<close> as the function it tabulates.\<close>

definition packedPairTable :: "jstr \<Rightarrow> nat \<Rightarrow> jstr" where
  "packedPairTable alphabet i = [alphabet ! (drop_bit 4 i AND 0x0f), alphabet ! (i AND 0x0f)]"

fun packed_read_loop :: "nat \<Rightarrow> jstr \<Rightarrow> jstr \<Rightarrow> reader \<Rightarrow> dec_error + jstr \<times> reader" where
  "packed_read_loop 0 alphabet out = rd_return out"
| "packed_read_loop (Suc n) alphabet out =
    rd_bind readUint8 (\<lambda>b. packed_read_loop n alphabet (out @ packedPairTable alphabet b))"

definition parsePacked :: "jstr \<Rightarrow> reader \<Rightarrow> dec_error + jstr \<times> reader" where
  "parsePacked alphabet =
    rd_bind readUint8 (\<lambda>lengthByte.
      let odd_len = (lengthByte AND 0x80 \<noteq> 0);
          byteCount = lengthByte AND 0x7f;
          outLength = int byteCount * 2 - (if odd_len then 1 else 0)
      in if outLength < 0 then rd_fail (InvalidPackedLength lengthByte)
         else rd_bind (packed_read_loop byteCount alphabet [])
           (\<lambda>out. rd_return (if odd_len then take (nat outLength) out else out)))"

definition readBinary :: "nat \<Rightarrow> reader \<Rightarrow> dec_error + bytes \<times> reader" where
  "readBinary token =
    (if token = BINARY_8 then rd_bind readUint8 readBytes
     else if token = BINARY_20 then
       rd_bind readUint8 (\<lambda>a. rd_bind readUint8 (\<lambda>b. rd_bind readUint8 (\<lambda>c.
         readBytes ((push_bit 16 (a AND 0x0f) OR push_bit 8 b) OR c))))
     else if token = BINARY_32 then rd_bind readUint32 readBytes
     else rd_fail (InvalidBinaryToken token))"

definition is_binary_token :: "nat \<Rightarrow> bool" where
  "is_binary_token token \<longleftrightarrow> token = BINARY_8 \<or> token = BINARY_20 \<or> token = BINARY_32"

definition decodeTokenString :: "nat \<Rightarrow> reader \<Rightarrow> dec_error + jstr \<times> reader" where
  "decodeTokenString token =
    (if 0 < token \<and> token \<le> length SINGLE_BYTE_TOKENS
     then rd_return (SINGLE_BYTE_TOKENS ! (token - 1))
     else if DICTIONARY_0 \<le> token \<and> token \<le> DICTIONARY_3 then
       rd_bind readUint8 (\<lambda>index.
         let dictionaryIndex = token - DICTIONARY_0 in
         if length DICTIONARIES \<le> dictionaryIndex \<or> length (DICTIONARIES ! dictionaryIndex) \<le> index
         then rd_fail (InvalidDictionaryToken dictionaryIndex index)
         else rd_return (DICTIONARIES ! dictionaryIndex ! index))
     else if token = NIBBLE_8 then parsePacked NIBBLE_ALPHABET
     else if token = HEX_8 then parsePacked HEX_ALPHABET
     else if is_binary_token token then
       rd_bind (readBinary token) (\<lambda>bs. rd_return (text_decode bs))
     else rd_fail (UnsupportedStringToken token))"

definition read_token_string :: "reader \<Rightarrow> dec_error + jstr \<times> reader" where
  "read_token_string = rd_bind readUint8 decodeTokenString"

subsection \<open>JIDs\<close>

definition decodeJidPair :: "reader \<Rightarrow> dec_error + jstr \<times> reader" where
  "decodeJidPair =
    rd_bind readUint8 (\<lambda>userToken.
    rd_bind (if userToken = LIST_EMPTY then rd_return [] else decodeTokenString userToken) (\<lambda>user.
    rd_bind read_token_string (\<lambda>server.
      rd_return (if user = [] then server else user @ js ''@'' @ server))))"

definition jid_u_domain :: "nat \<Rightarrow> jstr" where
  "jid_u_domain domainType =
    (if domainType = JID_U_DOMAIN_TYPE_LID then LID_SERVER
     else if domainType = JID_U_DOMAIN_TYPE_HOSTED_LID then HOSTED_LID_SERVER
     else if domainType AND JID_U_DOMAIN_TYPE_HOSTED_MASK \<noteq> 0 \<and>
        domainType AND JID_U_DOMAIN_TYPE_LID_MASK = 0 then HOSTED_SERVER
     else HOST_DOMAIN)"

definition decodeJidU :: "reader \<Rightarrow> dec_error + jstr \<times> reader" where
  "decodeJidU =
    rd_bind readUint8 (\<lambda>domainType. rd_bind readUint8 (\<lambda>device. rd_bind read_token_string (\<lambda>user.
      let domain = jid_u_domain domainType in
      rd_return (if 0 < device then user @ js '':'' @ js_dec device @ js ''@'' @ domain
        else user @ js ''@'' @ domain))))"

definition decodeJidInterop :: "reader \<Rightarrow> dec_error + jstr \<times> reader" where
  "decodeJidInterop =
    rd_bind read_token_string (\<lambda>user. rd_bind readUint16 (\<lambda>device. rd_bind readUint16 (\<lambda>integrator.
    rd_bind read_token_string (\<lambda>_.
      rd_return (js_dec integrator @ js ''-'' @ user @ js '':'' @ js_dec device @ js ''@interop'')))))"

definition decodeJidFb :: "reader \<Rightarrow> dec_error + jstr \<times> reader" where
  "decodeJidFb =
    rd_bind read_token_string (\<lambda>user. rd_bind readUint16 (\<lambda>device. rd_bind read_token_string (\<lambda>_.
      rd_return (user @ js '':'' @ js_dec device @ js ''@msgr''))))"

subsection \<open>Values and nodes\<close>

datatype wire_value = VNull | VString jstr | VBytes bytes

definition decodeValue :: "nat \<Rightarrow> bool \<Rightarrow> reader \<Rightarrow> dec_error + wire_value \<times> reader" where
  "decodeValue token forAttr =
    (if token = LIST_EMPTY then rd_return VNull
     else if token = JID_PAIR then rd_bind decodeJidPair (\<lambda>s. rd_return (VString s))
     else if token = JID_U then rd_bind decodeJidU (\<lambda>s. rd_return (VString s))
     else if token = JID_INTEROP then rd_bind decodeJidInterop (\<lambda>s. rd_return (VString s))
     else if token = JID_FB then rd_bind decodeJidFb (\<lambda>s. rd_return (VString s))
     else if is_binary_token token then
       rd_bind (readBinary token) (\<lambda>binary.
         rd_return (if forAttr then VString (text_decode binary) else VBytes binary))
     else rd_bind (decodeTokenString token) (\<lambda>s. rd_return (VString s)))"

definition read_attr_string :: "reader \<Rightarrow> dec_error + wire_value \<times> reader" where
  "read_attr_string = rd_bind readUint8 (\<lambda>token. decodeValue token True)"

fun attrs_loop :: "nat \<Rightarrow> attrs \<Rightarrow> reader \<Rightarrow> dec_error + attrs \<times> reader" where
  "attrs_loop 0 as = rd_return as"
| "attrs_loop (Suc n) as =
    rd_bind read_attr_string (\<lambda>key. rd_bind read_attr_string (\<lambda>val.
      case (key, val) of
        (VString k, VString v) \<Rightarrow> attrs_loop n (obj_set k v as)
      | _ \<Rightarrow> rd_fail InvalidAttributeEntry))"

definition read_list_size :: "reader \<Rightarrow> dec_error + nat \<times> reader" where
  "read_list_size =
    rd_bind readUint8 (\<lambda>listType.
      if listType = LIST_8 then readUint8
      else if listType = LIST_16 then readUint16
      else rd_fail (InvalidNodeListType listType))"

text \<open>
  \<open>remaining\<close> counts down by two from \<open>listSize - 1\<close>: the loop reads \<open>(listSize - 1) div 2\<close>
  attributes and there is content when \<open>listSize - 1\<close> is odd.
\<close>

fun decodeNodeInternal :: "nat \<Rightarrow> reader \<Rightarrow> dec_error + node \<times> reader"
  and decode_children :: "nat \<Rightarrow> nat \<Rightarrow> reader \<Rightarrow> dec_error + node list \<times> reader" where
  "decodeNodeInternal 0 = rd_fail OutOfFuel"
| "decodeNodeInternal (Suc fuel) =
    rd_bind read_list_size (\<lambda>listSize.
      if listSize = 0 then rd_fail EmptyNodeList
      else rd_bind read_attr_string (\<lambda>tagValue.
        case tagValue of
          VString t \<Rightarrow>
            if t = [] then rd_fail InvalidNodeTag
            else rd_bind (attrs_loop ((listSize - 1) div 2) []) (\<lambda>as.
              if odd (listSize - 1) then
                rd_bind readUint8 (\<lambda>contentToken.
                  if contentToken = LIST_EMPTY then rd_return (Node t as NoContent)
                  else if contentToken = LIST_8 \<or> contentToken = LIST_16 then
                    rd_bind (if contentToken = LIST_8 then readUint8 else readUint16)
                      (\<lambda>childrenCount. rd_bind (decode_children fuel childrenCount)
                        (\<lambda>children. rd_return (Node t as (CNodes children))))
                  else rd_bind (decodeValue contentToken False) (\<lambda>v.
                    rd_return (Node t as
                      (case v of VNull \<Rightarrow> NoContent
                       | VString s \<Rightarrow> CBytes (text_encode s)
                       | VBytes bs \<Rightarrow> CBytes bs))))
              else rd_return (Node t as NoContent))
        | _ \<Rightarrow> rd_fail InvalidNodeTag))"
| "decode_children fuel 0 = rd_return []"
| "decode_children fuel (Suc n) =
    rd_bind (decodeNodeInternal fuel) (\<lambda>child.
    rd_bind (decode_children fuel n) (\<lambda>rest. rd_return (child # rest)))"

definition decodeBinaryNode :: "bytes \<Rightarrow> dec_error + node" where
  "decodeBinaryNode bs = rbind (decodeNodeInternal (Suc (length bs)) (new_reader bs))
    (\<lambda>(n, r). Inr n)"

definition inflateCompressedStanza ::
    "(bytes \<Rightarrow> bytes option) \<Rightarrow> (bytes \<Rightarrow> bytes option) \<Rightarrow> bytes \<Rightarrow> dec_error + bytes" where
  "inflateCompressedStanza inflate inflateRaw bs =
    (case inflate bs of
       Some out \<Rightarrow> Inr out
     | None \<Rightarrow> (case inflateRaw bs of Some out \<Rightarrow> Inr out | None \<Rightarrow> Inl InflateFailed))"

definition decodeBinaryNodeStanza ::
    "(bytes \<Rightarrow> bytes option) \<Rightarrow> (bytes \<Rightarrow> bytes option) \<Rightarrow> bytes \<Rightarrow> dec_error + node" where
  "decodeBinaryNodeStanza inflate inflateRaw stanza =
    rbind (readUint8 (new_reader stanza)) (\<lambda>(flag, r).
      if flag = STREAM_END \<and> getRemaining r = 0 then Inl StreamEndStanza
      else rbind (readBytes (getRemaining r) r) (\<lambda>(nodeBytes, r').
        rbind (if flag AND 0x02 \<noteq> 0 then inflateCompressedStanza inflate inflateRaw nodeBytes
               else Inr nodeBytes)
          decodeBinaryNode))"

subsection \<open>The fuel is enough\<close>

text \<open>
  \<open>consumes m k p\<close>: on readers with at most \<open>m\<close> unread bytes, \<open>p\<close> does not run out of fuel
  and a successful run takes at least \<open>k\<close> bytes.
\<close>

definition consumes :: "nat \<Rightarrow> nat \<Rightarrow> (reader \<Rightarrow> dec_error + 'a \<times> reader) \<Rightarrow> bool" where
  "consumes m k p \<longleftrightarrow> (\<forall>r. getRemaining r \<le> m \<longrightarrow> p r \<noteq> Inl OutOfFuel \<and>
    (\<forall>v r'. p r = Inr (v, r') \<longrightarrow> getRemaining r' + k \<le> getRemaining r))"

lemma consumes_bind:
  assumes "consumes m a p" "\<And>v. a \<le> m \<Longrightarrow> consumes (m - a) b (f v)"
  shows "consumes m (a + b) (rd_bind p f)"
  unfolding consumes_def
proof (intro allI impI)
  fix r
  assume r: "getRemaining r \<le> m"
  show "rd_bind p f r \<noteq> Inl OutOfFuel \<and>
    (\<forall>v r'. rd_bind p f r = Inr (v, r') \<longrightarrow> getRemaining r' + (a + b) \<le> getRemaining r)"
  proof (cases "p r")
    case (Inl e)
    with assms(1) r show ?thesis by (auto simp: consumes_def rd_bind_def)
  next
    case (Inr vr)
    obtain v r1 where vr: "vr = (v, r1)" by (cases vr)
    with Inr assms(1) r have r1: "getRemaining r1 + a \<le> getRemaining r"
      by (auto simp: consumes_def)
    with r have "consumes (m - a) b (f v)" "getRemaining r1 \<le> m - a"
      using assms(2) [of v] by simp_all
    then have "f v r1 \<noteq> Inl OutOfFuel"
      "\<forall>v' r'. f v r1 = Inr (v', r') \<longrightarrow> getRemaining r' + b \<le> getRemaining r1"
      by (auto simp: consumes_def)
    with Inr vr r1 show ?thesis by (fastforce simp: rd_bind_def)
  qed
qed

lemma consumes_bind0:
  "consumes m k p \<Longrightarrow> (\<And>v. consumes m 0 (f v)) \<Longrightarrow> consumes m k (rd_bind p f)"
  using consumes_bind [of m k p 0 f] by (auto simp: consumes_def)

lemma consumes_weaken: "consumes m k p \<Longrightarrow> k' \<le> k \<Longrightarrow> consumes m k' p"
  by (force simp: consumes_def)

lemma consumes_return: "consumes m 0 (rd_return v)"
  by (simp add: consumes_def rd_return_def)

lemma consumes_fail: "e \<noteq> OutOfFuel \<Longrightarrow> consumes m k (rd_fail e)"
  by (simp add: consumes_def rd_fail_def)

lemma ensure_available_cases:
  "ensure_available n r = Inl UnexpectedEnd \<or>
    ensure_available n r = Inr () \<and> getRemaining (advance n r) + n = getRemaining r"
  by (auto simp: ensure_available_def getRemaining_def advance_def)

lemma consumes_checked:
  "consumes m n (\<lambda>r. rbind (ensure_available n r) (\<lambda>_. Inr (g r, advance n r)))"
  unfolding consumes_def
proof (intro allI impI)
  fix r
  from ensure_available_cases [of n r]
  show "rbind (ensure_available n r) (\<lambda>_. Inr (g r, advance n r)) \<noteq> Inl OutOfFuel \<and>
    (\<forall>v r'. rbind (ensure_available n r) (\<lambda>_. Inr (g r, advance n r)) = Inr (v, r') \<longrightarrow>
      getRemaining r' + n \<le> getRemaining r)"
    by auto
qed

lemma consumes_reads:
  "consumes m 1 readUint8" "consumes m 2 readUint16" "consumes m 4 readUint32"
  "consumes m n (readBytes n)"
  unfolding readUint8_def [abs_def] readUint16_def [abs_def] readUint32_def [abs_def]
    readBytes_def [abs_def]
  by (rule consumes_checked)+

lemmas consumes_reads_Suc = consumes_reads(1) [unfolded One_nat_def]

lemma consumes_reads0:
  "consumes m 0 readUint8" "consumes m 0 readUint16" "consumes m 0 readUint32"
  "consumes m 0 (readBytes n)"
  using consumes_reads consumes_weaken by (meson le0)+

lemmas consumes_intros = consumes_bind0 consumes_return consumes_fail consumes_reads0

lemma consumes_packed_loop: "consumes m 0 (packed_read_loop n alphabet out)"
  by (induction n arbitrary: out) (auto intro!: consumes_intros)

lemma consumes_parsePacked: "consumes m 0 (parsePacked alphabet)"
  unfolding parsePacked_def Let_def by (auto intro!: consumes_intros consumes_packed_loop)

lemma consumes_readBinary: "consumes m 0 (readBinary token)"
  unfolding readBinary_def by (auto intro!: consumes_intros)

lemma consumes_decodeTokenString: "consumes m 0 (decodeTokenString token)"
  unfolding decodeTokenString_def Let_def
  by (auto intro!: consumes_intros consumes_parsePacked consumes_readBinary)

lemma consumes_read_token_string: "consumes m 0 read_token_string"
  unfolding read_token_string_def by (intro consumes_intros consumes_decodeTokenString)

lemma consumes_jids:
  "consumes m 0 decodeJidPair" "consumes m 0 decodeJidU" "consumes m 0 decodeJidInterop"
  "consumes m 0 decodeJidFb"
  unfolding decodeJidPair_def decodeJidU_def decodeJidInterop_def decodeJidFb_def Let_def
  by (auto intro!: consumes_intros consumes_read_token_string consumes_decodeTokenString)

lemma consumes_decodeValue: "consumes m 0 (decodeValue token forAttr)"
  unfolding decodeValue_def
  by (auto intro!: consumes_intros consumes_jids consumes_readBinary consumes_decodeTokenString)

lemma consumes_read_attr_string: "consumes m 0 read_attr_string"
  unfolding read_attr_string_def by (intro consumes_intros consumes_decodeValue)

lemma consumes_attrs_loop: "consumes m 0 (attrs_loop n as)"
  by (induction n arbitrary: "as")
    (auto intro!: consumes_intros consumes_read_attr_string split: wire_value.split)

lemma consumes_read_list_size: "consumes m 1 read_list_size"
  unfolding read_list_size_def
  by (auto intro!: consumes_bind0 consumes_reads_Suc consumes_reads0 consumes_fail)

lemma decodeNodeInternal_consumes:
  assumes "m < fuel"
  shows "consumes m 1 (decodeNodeInternal fuel) \<and> consumes m 0 (decode_children fuel n)"
  using assms
proof (induction fuel arbitrary: m n)
  case 0
  then show ?case by simp
next
  case (Suc fuel)
  have node: "consumes m' 1 (decodeNodeInternal (Suc fuel))" if m': "m' \<le> fuel" for m'
  proof -
    have children: "consumes (m' - 1) 0 (decode_children fuel k)" if "1 \<le> m'" for k
      using Suc.IH [of "m' - 1" k] that m' by auto
    have "consumes m' (1 + 0) (decodeNodeInternal (Suc fuel))"
      unfolding decodeNodeInternal.simps
      by (rule consumes_bind [OF consumes_read_list_size])
        (auto intro!: consumes_intros consumes_read_attr_string consumes_attrs_loop
          consumes_decodeValue children [unfolded One_nat_def] split: wire_value.split)
    then show ?thesis by simp
  qed
  have "consumes m 0 (decode_children (Suc fuel) n)"
  proof (induction n)
    case 0
    show ?case by (simp add: consumes_return)
  next
    case (Suc n)
    have "consumes m 0 (decodeNodeInternal (Suc fuel))"
      using node [of m] Suc.prems \<open>m < Suc fuel\<close> by (auto intro: consumes_weaken)
    then show ?case
      using Suc.IH by (auto simp del: decodeNodeInternal.simps intro!: consumes_intros)
  qed
  then show ?case using node [of m] Suc.prems by simp
qed

lemma decodeBinaryNode_fuel: "decodeBinaryNode bs \<noteq> Inl OutOfFuel"
proof -
  have "getRemaining (new_reader bs) \<le> length bs"
    by (simp add: getRemaining_def new_reader_def)
  moreover have "consumes (length bs) 1 (decodeNodeInternal (Suc (length bs)))"
    using decodeNodeInternal_consumes [of "length bs" "Suc (length bs)"] by simp
  ultimately have "decodeNodeInternal (Suc (length bs)) (new_reader bs) \<noteq> Inl OutOfFuel"
    by (auto simp: consumes_def)
  then show ?thesis
    by (cases "decodeNodeInternal (Suc (length bs)) (new_reader bs)")
      (auto simp: decodeBinaryNode_def simp del: decodeNodeInternal.simps)
qed

end
