(* ===== verification/BinaryRoundtrip.thy ===== *)
theory BinaryRoundtrip
  imports Encoder Decoder
begin

text \<open>
  The decoder reads back what the encoder writes.  \<open>canon_node\<close> is the part of a node the wire
  format keeps: string content comes back as its UTF-8 bytes and a JID-shaped attribute value
  in the form of \<open>canon_attr\<close>.  The lemmas follow the routines bottom up; each says that the
  bytes of one \<open>wire_\<close> function are parsed back by the matching reader routine.
\<close>

definition string_token :: "nat \<Rightarrow> bool" where
  "string_token t \<longleftrightarrow> 0 < t \<and> (t \<le> 239 \<or> 251 \<le> t)"

subsection \<open>Lengths and binary data\<close>

lemma base256_2: "n < 65536 \<Longrightarrow> n div 256 mod 256 * 256 + n mod 256 = (n :: nat)"
  by simp

lemma base256_4:
  assumes "(n :: nat) < 2 ^ 32"
  shows "((n div 16777216 mod 256 * 256 + n div 65536 mod 256) * 256 + n div 256 mod 256) * 256
    + n mod 256 = n"
proof -
  have 1: "n div 65536 = n div 256 div 256" "n div 16777216 = n div 256 div 256 div 256"
    by (simp_all add: div_mult2_eq [symmetric])
  have "n div 256 div 256 div 256 < 256"
    using assms by (simp add: div_mult2_eq [symmetric] less_mult_imp_div_less)
  then show ?thesis unfolding 1 by simp
qed

lemma readBinary_20_value:
  assumes "(n :: nat) < 2 ^ 20"
  shows "(push_bit 16 (n div 65536 mod 256 AND 15) OR push_bit 8 (n div 256 mod 256)) OR n mod 256 = n"
proof -
  have 1: "n div 65536 = n div 256 div 256" by (simp add: div_mult2_eq [symmetric])
  have lt: "n div 256 div 256 < 16"
    using assms by (simp add: div_mult2_eq [symmetric] less_mult_imp_div_less)
  have "(push_bit 16 (n div 256 div 256) OR push_bit 8 (n div 256 mod 256)) OR n mod 256
      = push_bit 8 (push_bit 8 (n div 256 div 256) OR n div 256 mod 256) OR n mod 256"
    by (simp add: push_bit_or)
  also have "\<dots> = n"
    using or_shift_nat [of "n div 256 mod 256" 8 "n div 256 div 256"]
      or_shift_nat [of "n mod 256" 8 "n div 256"] by simp
  finally show ?thesis using lt unfolding 1 by (simp add: and_15)
qed

lemma parses_readBinary:
  assumes "wire_length n = Inr hdr" "length bs = n"
  obtains t hdr' where "hdr = to_u8 t # hdr'" "is_binary_token t" "251 < t" "t < 256"
    "src.parses (readBinary t) (hdr' @ bs) bs"
proof -
  from assms(1) consider
      "n < 256" "hdr = [to_u8 BINARY_8, to_u8 n]"
    | "n < 2 ^ 20" "hdr = [to_u8 BINARY_20, to_u8 (n div 65536), to_u8 (n div 256), to_u8 n]"
    | "n < 2 ^ 32" "hdr = [to_u8 BINARY_32, to_u8 (n div 16777216), to_u8 (n div 65536),
        to_u8 (n div 256), to_u8 n]"
    by (auto simp: wire_length_def split: if_splits)
  then show thesis
  proof cases
    case 1
    have "src.parses (readBinary BINARY_8) ([to_u8 n] @ bs) bs"
      using assms 1 by (auto simp: readBinary_def intro!: src.parses_get8_bind src.parses_get)
    with 1 show thesis by (intro that [of BINARY_8]) (auto simp: is_binary_token_def tag_bytes)
  next
    case 2
    have "src.parses (readBinary BINARY_20)
        ([to_u8 (n div 65536), to_u8 (n div 256), to_u8 n] @ bs) bs"
      using assms(2) readBinary_20_value [OF 2(1)]
      by (auto simp: readBinary_def tag_bytes intro!: src.parses_get8_bind src.parses_get)
    with 2 show thesis by (intro that [of BINARY_20]) (auto simp: is_binary_token_def tag_bytes)
  next
    case 3
    let ?hdr = "[to_u8 (n div 16777216), to_u8 (n div 65536), to_u8 (n div 256), to_u8 n]"
    have "src.parses readUint32 ?hdr n"
      using parses_readUint32 [of "to_u8 (n div 16777216)" "to_u8 (n div 65536)"
          "to_u8 (n div 256)" "to_u8 n"]
      by (simp only: unat_to_u8 base256_4 [OF 3(1)])
    then have "src.parses (readBinary BINARY_32) (?hdr @ bs) bs"
      using assms(2) src.parses_bind [of readUint32 ?hdr n readBytes bs bs] src.parses_get [of n bs]
      by (simp add: readBinary_def tag_bytes)
    with 3 show thesis by (intro that [of BINARY_32]) (auto simp: is_binary_token_def tag_bytes)
  qed
qed

lemma wire_binaryE:
  assumes "wire_binary bs = Inr out"
  obtains t out' where "out = to_u8 t # out'" "is_binary_token t" "251 < t" "t < 256"
    "src.parses (readBinary t) out' bs"
proof -
  obtain hdr where hdr: "wire_length (length bs) = Inr hdr" "out = hdr @ bs"
    using assms by (cases "wire_length (length bs)") (auto simp: wire_binary_def)
  from hdr(1) obtain t hdr' where "hdr = to_u8 t # hdr'" "is_binary_token t" "251 < t" "t < 256"
    "src.parses (readBinary t) (hdr' @ bs) bs"
    by (rule parses_readBinary) simp
  with hdr(2) show thesis by (intro that) auto
qed

subsection \<open>Packed strings\<close>

definition alphabet_of :: "nat \<Rightarrow> jstr" where
  "alphabet_of packedType = (if packedType = NIBBLE_8 then NIBBLE_ALPHABET else HEX_ALPHABET)"

lemma alphabet_nibble_val:
  assumes "nibble_unit ty c" "ty = NIBBLE_8 \<or> ty = HEX_8"
  shows "alphabet_of ty ! nibble_val c = c"
proof -
  have n: "\<forall>c \<in> set ([45, 46] @ [48..<58]). NIBBLE_ALPHABET ! nibble_val c = c"
    by (simp add: NIBBLE_ALPHABET_def js_def nibble_val_def)
  have h: "\<forall>c \<in> set ([48..<58] @ [65..<71]). HEX_ALPHABET ! nibble_val c = c"
    by (simp add: HEX_ALPHABET_def js_def nibble_val_def)
  from assms consider "ty = NIBBLE_8" "c \<in> set ([45, 46] @ [48..<58])"
    | "ty = HEX_8" "c \<in> set ([48..<58] @ [65..<71])"
    by (auto simp: nibble_unit_def is_digit_unit_def tag_bytes simp del: upt_rec_numeral)
  then show ?thesis
  proof cases
    case 1
    with n have "NIBBLE_ALPHABET ! nibble_val c = c" by blast
    with 1 show ?thesis by (simp add: alphabet_of_def)
  next
    case 2
    with h have "HEX_ALPHABET ! nibble_val c = c" by blast
    with 2 show ?thesis by (simp add: alphabet_of_def tag_bytes)
  qed
qed

lemma unpack_pair:
  assumes "nibble_unit ty c" "ty = NIBBLE_8 \<or> ty = HEX_8" "k < 16"
  shows "packedPairTable (alphabet_of ty) (unat (to_u8 (nibble_val c * 16 + k)))
    = [c, alphabet_of ty ! k]"
proof -
  have "nibble_val c < 16" by (rule nibble_val_less [OF assms(1)])
  with assms(3) have "(nibble_val c * 16 + k) mod 256 = nibble_val c * 16 + k" by simp
  with assms \<open>nibble_val c < 16\<close> show ?thesis
    by (simp add: packedPairTable_def and_15 drop_bit_eq_div alphabet_nibble_val)
qed

lemma parses_packed_loop:
  assumes "list_all (nibble_unit ty) s" "ty = NIBBLE_8 \<or> ty = HEX_8"
  shows "src.parses (packed_read_loop (length (packed_bytes s)) (alphabet_of ty) out) (packed_bytes s)
    (out @ s @ (if odd (length s) then [alphabet_of ty ! 15] else []))"
  using assms
proof (induction s arbitrary: out rule: packed_bytes.induct)
  case 1
  then show ?case by (simp add: src.parses_return)
next
  case (2 c)
  then show ?case
    using unpack_pair [of ty c 15] src.parses_return
    by (auto intro!: src.parses_get8_bind simp del: unat_to_u8)
next
  case (3 c d rest)
  have "nibble_val d < 16" using 3 nibble_val_less by auto
  then have "packedPairTable (alphabet_of ty) (unat (to_u8 (nibble_val c * 16 + nibble_val d))) = [c, d]"
    using 3 unpack_pair [of ty c "nibble_val d"] alphabet_nibble_val [of ty d] by simp
  then show ?case
    using 3 "3.IH" [of "out @ [c, d]"]
    by (auto intro!: src.parses_get8_bind simp del: unat_to_u8)
qed

lemma length_packed_bytes: "length (packed_bytes s) = (length s + 1) div 2"
  by (induction s rule: packed_bytes.induct) auto

lemma packed_length_byte_bits:
  assumes "n < 128" "0 < n"
  shows "packed_length_byte n < 256" "packed_length_byte n AND 128 \<noteq> 0 \<longleftrightarrow> odd n"
    "packed_length_byte n AND 127 = (n + 1) div 2"
proof -
  define k where "k = (n + 1) div 2"
  have h: "k < 128" using assms by (simp add: k_def)
  have e: "packed_length_byte n = (if odd n then k + 128 else k)"
    unfolding packed_length_byte_def k_def [symmetric] or_128_nat [OF h] ..
  show "packed_length_byte n < 256" using h e by simp
  show "packed_length_byte n AND 128 \<noteq> 0 \<longleftrightarrow> odd n"
    using h by (simp add: e and_128_nat)
  show "packed_length_byte n AND 127 = (n + 1) div 2"
    using h unfolding k_def [symmetric] by (simp add: e and_127)
qed

lemma parses_parsePacked:
  assumes "list_all (nibble_unit ty) s" "ty = NIBBLE_8 \<or> ty = HEX_8" "0 < length s" "length s < 128"
  shows "src.parses (parsePacked (alphabet_of ty))
    (to_u8 (packed_length_byte (length s)) # packed_bytes s) s"
proof -
  let ?b = "packed_length_byte (length s)"
  have b: "unat (to_u8 ?b) = ?b" using packed_length_byte_bits(1) [OF assms(4,3)] by simp
  have len: "?b AND 127 = length (packed_bytes s)"
    using packed_length_byte_bits(3) [OF assms(4,3)] by (simp add: length_packed_bytes)
  have out: "nat (int (length (packed_bytes s)) * 2 - 1) = length s" if "odd (length s)"
    using that by (auto simp: length_packed_bytes elim!: oddE)
  show ?thesis
    unfolding parsePacked_def
    by (rule src.parses_get8_bind)
      (use src.parses_bind_map [OF parses_packed_loop [OF assms(1,2), of "[]"],
          of "\<lambda>out. if odd (length s) then take (length s) out else out"]
        packed_length_byte_bits(2) [OF assms(4,3)] assms(3) out length_packed_bytes [of s]
       in \<open>auto simp: b len Let_def simp del: unat_to_u8\<close>)
qed

subsection \<open>Strings\<close>

lemma wire_stringE:
  assumes "wire_string s = Inr out" "utf8_safe s"
  obtains t out' where "out = to_u8 t # out'" "string_token t" "t < 256"
    "src.parses (decodeTokenString t) out' s"
    "src.parses (decodeValue t True) out' (VString s)"
proof -
  note result = that
  have value_if: "src.parses (decodeValue t True) out' (VString s)"
    if "src.parses (decodeTokenString t) out' s" "string_token t" "\<not> is_binary_token t" for t out'
    using that src.parses_bind_map [of "decodeTokenString t" out' s VString]
    by (auto simp: decodeValue_def string_token_def tag_bytes)
  have single: "src.parses (decodeTokenString t) [] s \<and> string_token t \<and> \<not> is_binary_token t \<and> t < 256"
    if "0 < t" "t \<le> 235" "SINGLE_BYTE_TOKENS ! (t - 1) = s" for t
    using that src.parses_return
    by (auto simp: decodeTokenString_def string_token_def is_binary_token_def tag_bytes)
  have dict: "src.parses (decodeTokenString (236 + i)) [to_u8 k] s"
    if "i < 4" "k < 256" "DICTIONARIES ! i ! k = s" for i k
    using that src.parses_return
    by (auto simp: decodeTokenString_def tag_bytes Let_def intro!: src.parses_get8_bind)
  show thesis
  proof (cases "MERGED_TOKEN_MAP s")
    case (Some token)
    have found: "token_found s token" using Some by (rule MERGED_TOKEN_MAP_SomeD)
    show thesis
    proof (cases "token < MERGED_TOKEN_DICTIONARY_FLAG")
      case True
      then have "out = [to_u8 token]" using assms(1) Some by (simp add: wire_string_def)
      with True found single [of token] value_if show thesis
        by (intro that [of token "[]"]) (auto simp: token_found_def)
    next
      case False
      then obtain i k where ik: "i < 4" "k < 256" "token = 0x10000 + i * 256 + k"
          "DICTIONARIES ! i ! k = s"
        using found by (auto simp: token_found_def)
      have t2: "token = (256 + i) * 256 + k" using ik by simp
      have "token div 256 = 256 + i" "token mod 256 = k"
        unfolding t2 using ik(2) by (simp_all only: div_mult_self3 mod_mult_self3 div_less mod_less)
      then have "token div 256 mod 256 = i" "token mod 256 = k" using ik(1) by auto
      then have "out = [to_u8 (236 + i), to_u8 k]"
        using assms(1) Some False ik(2) by (auto simp: wire_string_def tag_bytes to_u8_eq_iff)
      moreover have "string_token (236 + i)" "\<not> is_binary_token (236 + i)" "236 + i < 256"
        using ik by (auto simp: string_token_def is_binary_token_def tag_bytes)
      ultimately show thesis
        using dict [OF ik(1,2,4)] value_if by (intro that [of "236 + i" "[to_u8 k]"]) auto
    qed
  next
    case None
    have pk: thesis if "classifyPackedString s = pk" "list_all (nibble_unit ty) s"
        "0 < length s" "length s < 128" "ty = NIBBLE_8 \<or> ty = HEX_8" "out = wire_packed ty s" for pk ty
    proof (rule result [of ty "to_u8 (packed_length_byte (length s)) # packed_bytes s"])
      show "out = to_u8 ty # to_u8 (packed_length_byte (length s)) # packed_bytes s"
        using \<open>out = wire_packed ty s\<close> by (simp add: wire_packed_def)
      have p: "src.parses (parsePacked (alphabet_of ty))
          (to_u8 (packed_length_byte (length s)) # packed_bytes s) s"
        by (rule parses_parsePacked) (use that in auto)
      then show d: "src.parses (decodeTokenString ty)
          (to_u8 (packed_length_byte (length s)) # packed_bytes s) s"
        using \<open>ty = NIBBLE_8 \<or> ty = HEX_8\<close>
        by (auto simp: decodeTokenString_def alphabet_of_def tag_bytes)
      show "string_token ty" "ty < 256"
        using \<open>ty = NIBBLE_8 \<or> ty = HEX_8\<close> by (auto simp: string_token_def tag_bytes)
      then show "src.parses (decodeValue ty True)
          (to_u8 (packed_length_byte (length s)) # packed_bytes s) (VString s)"
        using \<open>ty = NIBBLE_8 \<or> ty = HEX_8\<close>
        by (intro value_if [OF d]) (auto simp: is_binary_token_def tag_bytes)
    qed
    show thesis
    proof (cases "classifyPackedString s")
      case PACKED_NIBBLE
      then show thesis
        using pk [of _ NIBBLE_8] classifyPackedString_units(1) assms(1) None
        by (auto simp: wire_string_def)
    next
      case PACKED_HEX
      then show thesis
        using pk [of _ HEX_8] classifyPackedString_units(2) assms(1) None
        by (auto simp: wire_string_def)
    next
      case PACKED_NONE
      then have "wire_binary (text_encode s) = Inr out"
        using assms(1) None by (simp add: wire_string_def)
      then obtain t out' where t: "out = to_u8 t # out'" "is_binary_token t" "251 < t" "t < 256"
          "src.parses (readBinary t) out' (text_encode s)"
        by (rule wire_binaryE)
      have dec: "text_decode (text_encode s) = s" using assms(2) by (rule text_decode_encode)
      have "src.parses (decodeTokenString t) out' s"
        using t src.parses_bind_map [OF t(5), of text_decode]
        by (auto simp: decodeTokenString_def is_binary_token_def tag_bytes dec)
      moreover have "src.parses (decodeValue t True) out' (VString s)"
        using t src.parses_bind_map [OF t(5), of "\<lambda>b. VString (text_decode b)"]
        by (auto simp: decodeValue_def is_binary_token_def tag_bytes dec)
      ultimately show thesis
        using t by (intro that [of t out']) (auto simp: string_token_def)
    qed
  qed
qed

lemma parses_read_token_string:
  assumes "wire_string s = Inr out" "utf8_safe s"
  shows "src.parses read_token_string out s"
  using assms
proof (rule wire_stringE)
  fix t out'
  assume "out = to_u8 t # out'" "t < 256" "src.parses (decodeTokenString t) out' s"
  then show ?thesis
    unfolding read_token_string_def by (auto intro!: src.parses_get8_bind)
qed

lemma parses_read_attr_string:
  assumes "wire_string s = Inr out" "utf8_safe s"
  shows "src.parses read_attr_string out (VString s)"
  using assms
proof (rule wire_stringE)
  fix t out'
  assume "out = to_u8 t # out'" "t < 256" "src.parses (decodeValue t True) out' (VString s)"
  then show ?thesis
    unfolding read_attr_string_def by (auto intro!: src.parses_get8_bind)
qed

subsection \<open>JIDs\<close>

text \<open>The form in which an attribute value comes back.\<close>

definition canon_attr :: "jstr \<Rightarrow> jstr" where
  "canon_attr v =
    (case jid_shape v of
       None \<Rightarrow> v
     | Some (userEnd, device, server) \<Rightarrow>
         if jid_domain_type server \<noteq> None \<and> device \<noteq> 0 \<and> 0 < userEnd
         then take userEnd v @ js '':'' @ js_dec device @ js ''@'' @ server
         else if userEnd = 0 then server
         else take userEnd v @ js ''@'' @ server)"

text \<open>Both halves of a value around its first \<open>@\<close> survive UTF-8.\<close>

definition attr_safe :: "jstr \<Rightarrow> bool" where
  "attr_safe v \<longleftrightarrow> utf8_safe v \<and>
    (case index_of 64 v of None \<Rightarrow> True | Some i \<Rightarrow> utf8_safe (drop (Suc i) v))"

lemma well_formed_append_left:
  "well_formed_utf16 (xs @ c # ys) \<Longrightarrow> \<not> low_surrogate c \<Longrightarrow> well_formed_utf16 xs"
proof (induction xs rule: well_formed_utf16.induct)
  case (2 u)
  then show ?case by (auto split: if_splits)
qed (auto split: if_splits)

lemma utf8_safe_take:
  assumes "utf8_safe v" "i < length v" "v ! i = 64 \<or> v ! i = 58"
  shows "utf8_safe (take i v)"
proof -
  have v: "v = take i v @ v ! i # drop (Suc i) v" using assms(2) by (rule id_take_nth_drop)
  have "well_formed_utf16 (take i v)"
    using assms(1,3) v well_formed_append_left [of "take i v" "v ! i" "drop (Suc i) v"]
    by (auto simp: utf8_safe_def low_surrogate_def)
  then show ?thesis
    using assms(1) by (cases v; cases i) (auto simp: utf8_safe_def)
qed

lemma parse_device_bound:
  "parse_device ds d = Some d' \<Longrightarrow> d \<le> 255 \<Longrightarrow> d' \<le> 255"
  by (induction ds d rule: parse_device.induct) (auto simp: Let_def split: if_splits)

lemma find_SomeD: "List.find P xs = Some x \<Longrightarrow> x \<in> set xs \<and> P x"
  by (induction xs) (auto split: if_splits)

lemma matchKnownServer_eq:
  assumes "matchKnownServer s from = Some server" "from \<le> length s"
  shows "server = drop from s"
proof -
  have "length server = length s - from" "take (length server) (drop from s) = server"
    using assms(1) by (auto simp: matchKnownServer_def starts_at_def dest: find_SomeD)
  then show ?thesis by simp
qed

lemma jid_shapeD:
  assumes "jid_shape v = Some (userEnd, device, server)"
  obtains at where "index_of 64 v = Some at" "0 < at" "server = drop (Suc at) v" "server \<noteq> []"
    "64 \<notin> set server" "device \<le> 255" "userEnd < length v" "v ! userEnd = 64 \<or> v ! userEnd = 58"
    "userEnd \<le> at"
proof -
  obtain at where at: "index_of 64 v = Some at"
    using assms by (auto simp: jid_shape_def split: option.splits)
  from index_of_SomeD [OF at] have at_less: "at < length v" and nth_at: "v ! at = 64"
    by (auto, metis append_take_drop_id length_take min.absorb4 nth_append_length)
  have ne: "at \<noteq> 0" "at \<noteq> length v - 1" "64 \<notin> set (drop (Suc at) v)"
    using assms at by (auto simp: jid_shape_def index_from_def index_of_None_iff split: if_splits
        option.splits)
  let ?server = "case matchKnownServer v (at + 1) of Some server \<Rightarrow> server | None \<Rightarrow> drop (at + 1) v"
  have server: "?server = drop (Suc at) v"
    using at_less matchKnownServer_eq [of v "at + 1"] by (auto split: option.split)
  consider "userEnd = at" "device = 0" "server = ?server"
    | colon where "index_of 58 v = Some colon" "colon < at" "userEnd = colon" "server = ?server"
        "parse_device (slice v (colon + 1) at) 0 = Some device"
    using assms at ne by (auto simp: jid_shape_def index_from_def index_of_None_iff Let_def
        split: option.splits if_splits)
  then show thesis
  proof cases
    case 1
    show thesis
      by (rule that [of at]) (use 1 server at at_less ne nth_at in auto)
  next
    case 2
    from index_of_SomeD [OF 2(1)] have "v ! colon = 58"
      by (auto, metis append_take_drop_id length_take min.absorb4 nth_append_length)
    moreover have "device \<le> 255" using parse_device_bound [OF 2(5)] by simp
    ultimately show thesis
      by (intro that [of at]) (use 2 server at at_less ne in auto)
  qed
qed

lemma jid_u_domain_type:
  "jid_domain_type server = Some t \<Longrightarrow> t < 256 \<and> jid_u_domain t = server"
proof -
  have "(128 :: nat) AND 1 = 0" "(0 :: nat) AND 128 = 0" "(128 :: nat) AND 128 \<noteq> 0" by simp_all
  then show "jid_domain_type server = Some t \<Longrightarrow> t < 256 \<and> jid_u_domain t = server"
    by (auto simp: jid_domain_type_def jid_u_domain_def domain_types split: if_splits)
qed

lemma parses_attr_value:
  assumes "wire_attr_value v = Inr out" "attr_safe v"
  shows "src.parses read_attr_string out (VString (canon_attr v))"
proof (cases "jid_shape v")
  case None
  then show ?thesis
    using assms parses_read_attr_string [of v out]
    by (simp add: wire_attr_value_def canon_attr_def attr_safe_def)
next
  case (Some shape)
  obtain userEnd device server where shape: "shape = (userEnd, device, server)" by (cases shape)
  from jid_shapeD [OF Some [unfolded shape]] obtain at
    where at: "index_of 64 v = Some at" "server = drop (Suc at) v" "server \<noteq> []" "device \<le> 255"
      "userEnd < length v" "v ! userEnd = 64 \<or> v ! userEnd = 58" by metis
  let ?user = "take userEnd v"
  have user: "utf8_safe ?user"
    using assms(2) at utf8_safe_take by (simp add: attr_safe_def)
  have server: "utf8_safe server" using assms(2) at by (simp add: attr_safe_def)
  show ?thesis
  proof (cases "jid_domain_type server \<noteq> None \<and> device \<noteq> 0 \<and> 0 < userEnd")
    case True
    then obtain t where t: "jid_domain_type server = Some t" by auto
    obtain ubs where ubs: "wire_string ?user = Inr ubs"
      using assms(1) Some shape t True by (cases "wire_string ?user") (auto simp: wire_attr_value_def)
    have out: "out = [to_u8 JID_U, to_u8 t, to_u8 device] @ ubs"
      using assms(1) Some shape t True ubs by (simp add: wire_attr_value_def)
    have "src.parses decodeJidU ([to_u8 t, to_u8 device] @ ubs)
        (?user @ js '':'' @ js_dec device @ js ''@'' @ server)"
      unfolding decodeJidU_def
      using src.parses_bind_map [OF parses_read_token_string [OF ubs user]] jid_u_domain_type [OF t]
        True at
      by (auto intro!: src.parses_get8_bind simp: Let_def)
    then have "src.parses (decodeValue JID_U True) ([to_u8 t, to_u8 device] @ ubs)
        (VString (canon_attr v))"
      using src.parses_bind_map True Some shape
      by (fastforce simp: decodeValue_def canon_attr_def tag_bytes)
    then show ?thesis
      unfolding read_attr_string_def out by (auto intro!: src.parses_get8_bind simp: tag_bytes)
  next
    case False
    then have "wire_jid_pair ?user server = Inr out"
      using assms(1) Some shape by (auto simp: wire_attr_value_def split: option.splits if_splits)
    then obtain ubs sbs where bs: "out = to_u8 JID_PAIR # ubs @ sbs" "wire_string server = Inr sbs"
        "(if ?user = [] then Inr [to_u8 LIST_EMPTY] else wire_string ?user) = Inr ubs"
      by (auto simp: wire_jid_pair_def cat_r_def rbind_eq_Inr_iff)
    have "src.parses (rd_bind readUint8 (\<lambda>userToken. if userToken = LIST_EMPTY then rd_return []
        else decodeTokenString userToken)) ubs ?user"
    proof (cases "?user = []")
      case True
      with bs(3) show ?thesis
        by (auto intro!: src.parses_get8_bind simp: src.parses_return tag_bytes)
    next
      case False
      with bs(3) have "wire_string ?user = Inr ubs" by simp
      from this user show ?thesis
        by (rule wire_stringE)
          (auto intro!: src.parses_get8_bind simp: string_token_def tag_bytes)
    qed
    note user_part = this
    let ?f = "\<lambda>user. rd_bind read_token_string (\<lambda>server. rd_return
        (if user = [] then server else user @ js ''@'' @ server))"
    have "src.parses (?f ?user) sbs (if ?user = [] then server else ?user @ js ''@'' @ server)"
      by (rule src.parses_bind_map [OF parses_read_token_string [OF bs(2) server]])
    from src.parses_bind [where f = ?f, OF user_part this]
    have "src.parses decodeJidPair (ubs @ sbs)
        (if ?user = [] then server else ?user @ js ''@'' @ server)"
      by (simp only: decodeJidPair_def rd_bind_assoc)
    moreover have "canon_attr v = (if ?user = [] then server else ?user @ js ''@'' @ server)"
      using False Some shape at(5) by (auto simp: canon_attr_def)
    ultimately have "src.parses decodeJidPair (ubs @ sbs) (canon_attr v)" by simp
    from src.parses_bind_map [OF this, of VString]
    have "src.parses (decodeValue JID_PAIR True) (ubs @ sbs) (VString (canon_attr v))"
      by (simp add: decodeValue_def tag_bytes)
    then show ?thesis
      unfolding read_attr_string_def bs(1) by (auto intro!: src.parses_get8_bind simp: tag_bytes)
  qed
qed

subsection \<open>Attributes\<close>

abbreviation canon_attrs :: "attrs \<Rightarrow> attrs" where
  "canon_attrs \<equiv> map (\<lambda>(k, v). (k, canon_attr v))"

lemma insert_index_map:
  "insert_index k (f v) (map (\<lambda>(k, v). (k, f v)) obj) = map (\<lambda>(k, v). (k, f v)) (insert_index k v obj)"
  by (induction k v obj rule: insert_index.induct) auto

lemma obj_set_map:
  "obj_set k (f v) (map (\<lambda>(k, v). (k, f v)) obj) = map (\<lambda>(k, v). (k, f v)) (obj_set k v obj)"
proof -
  have "map fst (map (\<lambda>(k, v). (k, f v)) obj) = map fst obj"
    by (simp add: split_beta comp_def)
  then have "k \<in> set (map fst (map (\<lambda>(k, v). (k, f v)) obj)) \<longleftrightarrow> k \<in> set (map fst obj)"
    by metis
  then show ?thesis
    unfolding obj_set_def by (simp only: insert_index_map split: if_split) (auto simp: comp_def)
qed

lemma plain_object_map:
  assumes "plain_object obj"
  shows "foldl (\<lambda>acc (k, v). obj_set k v acc) [] (map (\<lambda>(k, v). (k, f v)) obj)
    = map (\<lambda>(k, v). (k, f v)) obj"
proof -
  have "foldl (\<lambda>acc (k, v). obj_set k v acc) (map (\<lambda>(k, v). (k, f v)) acc)
        (map (\<lambda>(k, v). (k, f v)) xs)
      = map (\<lambda>(k, v). (k, f v)) (foldl (\<lambda>acc (k, v). obj_set k v acc) acc xs)" for acc xs
  proof (induction xs arbitrary: acc)
    case Nil
    show ?case by simp
  next
    case (Cons x xs)
    obtain k v where x: "x = (k, v)" by (cases x)
    show ?case using Cons.IH [of "obj_set k v acc"] by (simp add: x obj_set_map)
  qed
  from this [of "[]" obj] assms show ?thesis by (simp add: plain_object_def)
qed

lemma parses_attrs_loop:
  assumes "wire_attrs as = Inr out" "\<forall>(k, v) \<in> set as. utf8_safe k \<and> attr_safe v"
  shows "src.parses (attrs_loop (length as) acc) out
    (foldl (\<lambda>acc (k, v). obj_set k v acc) acc (canon_attrs as))"
  using assms
proof (induction "as" arbitrary: acc out)
  case Nil
  then show ?case by (simp add: src.parses_return)
next
  case (Cons kv "as")
  obtain k v where kv: "kv = (k, v)" by (cases kv)
  from Cons.prems obtain kb vb rb where b: "wire_string k = Inr kb" "wire_attr_value v = Inr vb"
      "wire_attrs as = Inr rb" "out = kb @ vb @ rb"
    by (auto simp: kv cat_r_def rbind_eq_Inr_iff)
  have rest: "src.parses (attrs_loop (length as) (obj_set k (canon_attr v) acc)) rb
      (foldl (\<lambda>acc (k, v). obj_set k v acc) acc (canon_attrs (kv # as)))"
    using Cons.IH [OF b(3)] Cons.prems by (simp add: kv)
  let ?g = "\<lambda>key val. case (key, val) of (VString k, VString v) \<Rightarrow> attrs_loop (length as) (obj_set k v acc)
      | _ \<Rightarrow> rd_fail InvalidAttributeEntry"
  have "src.parses (?g (VString k) (VString (canon_attr v))) rb
      (foldl (\<lambda>acc (k, v). obj_set k v acc) acc (canon_attrs (kv # as)))"
    using rest by simp
  from src.parses_bind [where f = "?g (VString k)", OF parses_attr_value [OF b(2)] this]
  have "src.parses (rd_bind read_attr_string (?g (VString k))) (vb @ rb)
      (foldl (\<lambda>acc (k, v). obj_set k v acc) acc (canon_attrs (kv # as)))"
    using Cons.prems by (simp add: kv)
  from src.parses_bind [where f = "\<lambda>key. rd_bind read_attr_string (?g key)",
      OF parses_read_attr_string [OF b(1)] this]
  show ?case using Cons.prems by (simp add: kv b(4))
qed

subsection \<open>Nodes\<close>

fun canon_node :: "node \<Rightarrow> node" where
  "canon_node (Node t as c) = Node t (canon_attrs as)
    (case c of
       NoContent \<Rightarrow> NoContent
     | CString s \<Rightarrow> CBytes (text_encode s)
     | CBytes bs \<Rightarrow> CBytes bs
     | CNodes children \<Rightarrow> CNodes (map canon_node children))"

text \<open>
  The nodes the format can carry: a non-empty tag, strings that survive UTF-8, attributes that
  are the own entries of a plain object, in every node of the tree.
\<close>

fun node_safe :: "node \<Rightarrow> bool" where
  "node_safe (Node t as c) \<longleftrightarrow> t \<noteq> [] \<and> utf8_safe t \<and> plain_object as \<and>
    (\<forall>(k, v) \<in> set as. utf8_safe k \<and> attr_safe v) \<and>
    (case c of CNodes children \<Rightarrow> \<forall>child \<in> set children. node_safe child | _ \<Rightarrow> True)"

lemma parses_read_list_size:
  assumes "wire_list_size n = Inr out"
  shows "src.parses read_list_size out n"
proof -
  from assms consider "n < 256" "out = [to_u8 LIST_8, to_u8 n]"
    | "n < 65536" "out = [to_u8 LIST_16, to_u8 (n div 256), to_u8 n]"
    by (auto simp: wire_list_size_def split: if_splits)
  then show ?thesis
  proof cases
    case 1
    then show ?thesis
      unfolding read_list_size_def using src.parses_get8 [of "to_u8 n"]
      by (auto intro!: src.parses_get8_bind simp: tag_bytes)
  next
    case 2
    then show ?thesis
      unfolding read_list_size_def using parses_readUint16 [of "to_u8 (n div 256)" "to_u8 n"]
        base256_2 [OF 2(1)]
      by (auto intro!: src.parses_get8_bind simp: tag_bytes)
  qed
qed

text \<open>The continuation of \<open>decodeNodeInternal\<close> after the content token.\<close>

abbreviation content_step :: "nat \<Rightarrow> jstr \<Rightarrow> attrs \<Rightarrow> nat \<Rightarrow> reader \<Rightarrow> dec_error + node \<times> reader" where
  "content_step fuel t as contentToken \<equiv>
    (if contentToken = LIST_EMPTY then rd_return (Node t as NoContent)
     else if contentToken = LIST_8 \<or> contentToken = LIST_16 then
       rd_bind (if contentToken = LIST_8 then readUint8 else readUint16)
         (\<lambda>childrenCount. rd_bind (decode_children fuel childrenCount)
           (\<lambda>children. rd_return (Node t as (CNodes children))))
     else rd_bind (decodeValue contentToken False) (\<lambda>v.
       rd_return (Node t as
         (case v of VNull \<Rightarrow> NoContent
          | VString s \<Rightarrow> CBytes (text_encode s)
          | VBytes bs \<Rightarrow> CBytes bs))))"

lemma parses_binary_content:
  assumes "wire_binary bs = Inr out"
  shows "src.parses (rd_bind readUint8 (content_step fuel t as)) out (Node t as (CBytes bs))"
  using assms
proof (rule wire_binaryE)
  fix token out'
  assume t: "out = to_u8 token # out'" "is_binary_token token" "251 < token" "token < 256"
    "src.parses (readBinary token) out' bs"
  have "src.parses (decodeValue token False) out' (VBytes bs)"
    using src.parses_bind_map [OF t(5), of VBytes] t(2,3)
    by (auto simp: decodeValue_def is_binary_token_def tag_bytes)
  from src.parses_bind_map [OF this, of "\<lambda>v. Node t as
      (case v of VNull \<Rightarrow> NoContent | VString s \<Rightarrow> CBytes (text_encode s) | VBytes bs \<Rightarrow> CBytes bs)"]
  have "src.parses (content_step fuel t as token) out' (Node t as (CBytes bs))"
    using t(3) by (simp add: tag_bytes)
  then show ?thesis using t by (auto intro!: src.parses_get8_bind)
qed

lemma parses_children_content:
  assumes "wire_list_size (length ns) = Inr hdr"
    "src.parses (decode_children fuel (length ns)) out ms"
  shows "src.parses (rd_bind readUint8 (content_step fuel t as)) (hdr @ out) (Node t as (CNodes ms))"
proof -
  let ?f = "\<lambda>n. rd_bind (decode_children fuel n) (\<lambda>children. rd_return (Node t as (CNodes children)))"
  have rest: "src.parses (?f (length ns)) out (Node t as (CNodes ms))"
    by (rule src.parses_bind_map [OF assms(2)])
  from assms(1) consider "length ns < 256" "hdr = [to_u8 LIST_8, to_u8 (length ns)]"
    | "length ns < 65536" "hdr = [to_u8 LIST_16, to_u8 (length ns div 256), to_u8 (length ns)]"
    by (auto simp: wire_list_size_def split: if_splits)
  then show ?thesis
  proof cases
    case 1
    have "src.parses readUint8 [to_u8 (length ns)] (length ns)"
      using src.parses_get8 [of "to_u8 (length ns)"] 1(1) by simp
    from src.parses_bind [where f = ?f, OF this rest] show ?thesis
      unfolding 1(2) by (auto intro!: src.parses_get8_bind simp: tag_bytes)
  next
    case 2
    have "src.parses readUint16 [to_u8 (length ns div 256), to_u8 (length ns)] (length ns)"
      using parses_readUint16 [of "to_u8 (length ns div 256)" "to_u8 (length ns)"]
        base256_2 [OF 2(1)] by simp
    from src.parses_bind [where f = ?f, OF this rest] show ?thesis
      unfolding 2(2) by (auto intro!: src.parses_get8_bind simp: tag_bytes)
  qed
qed

lemma parses_node_header:
  assumes "wire_list_size (node_list_size as c) = Inr hdr" "wire_string t = Inr tb"
    "wire_attrs as = Inr ab" "t \<noteq> []" "utf8_safe t" "plain_object as"
    "\<forall>(k, v) \<in> set as. utf8_safe k \<and> attr_safe v"
    "if c = NoContent then cb = [] \<and> n = Node t (canon_attrs as) NoContent
     else src.parses (rd_bind readUint8 (content_step fuel t (canon_attrs as))) cb n"
  shows "src.parses (decodeNodeInternal (Suc fuel)) (hdr @ tb @ ab @ cb) n"
proof -
  let ?size = "node_list_size as c"
  let ?attrs = "\<lambda>t as. if odd (?size - 1) then rd_bind readUint8 (content_step fuel t as)
    else rd_return (Node t as NoContent)"
  have size: "?size \<noteq> 0" "(?size - 1) div 2 = length as" "odd (?size - 1) \<longleftrightarrow> c \<noteq> NoContent"
    by (auto simp: node_list_size_def)
  have "src.parses (?attrs t (canon_attrs as)) cb n"
    using assms(8) size src.parses_return by (auto split: if_splits)
  moreover have "src.parses (attrs_loop ((?size - 1) div 2) []) ab (canon_attrs as)"
    using parses_attrs_loop [OF assms(3,7), of "[]"] plain_object_map [OF assms(6)] size by simp
  ultimately have "src.parses (rd_bind (attrs_loop ((?size - 1) div 2) []) (?attrs t)) (ab @ cb) n"
    by (intro src.parses_bind)
  with assms(4) have attrs: "src.parses (if t = [] then rd_fail InvalidNodeTag
      else rd_bind (attrs_loop ((?size - 1) div 2) []) (?attrs t)) (ab @ cb) n"
    by simp
  let ?tag = "\<lambda>tagValue. case tagValue of
          VString t \<Rightarrow>
            if t = [] then rd_fail InvalidNodeTag
            else rd_bind (attrs_loop ((?size - 1) div 2) []) (?attrs t)
        | _ \<Rightarrow> rd_fail InvalidNodeTag"
  have "src.parses (rd_bind read_attr_string ?tag) (tb @ ab @ cb) n"
    by (rule src.parses_bind [OF parses_read_attr_string [OF assms(2,5)]]) (simp add: attrs)
  with size(1) show ?thesis
    unfolding decodeNodeInternal.simps
    by (intro src.parses_bind [OF parses_read_list_size [OF assms(1)]]) simp
qed

lemma parses_node:
  "wire_node n = Inr out \<Longrightarrow> node_safe n \<Longrightarrow> length out < fuel \<Longrightarrow>
    src.parses (decodeNodeInternal fuel) out (canon_node n)"
  "wire_nodes ns = Inr out' \<Longrightarrow> \<forall>n \<in> set ns. node_safe n \<Longrightarrow> length out' < fuel' \<Longrightarrow>
    src.parses (decode_children fuel' (length ns)) out' (map canon_node ns)"
proof (induction n and ns arbitrary: out fuel and out' fuel' rule: wire_node_wire_nodes.induct)
  case (1 t "as" c)
  obtain hdr tb ab cb where b: "wire_list_size (node_list_size as c) = Inr hdr"
    "wire_string t = Inr tb" "wire_attrs as = Inr ab" "out = hdr @ tb @ ab @ cb"
    and cb: "(case c of NoContent \<Rightarrow> Inr [] | CString s \<Rightarrow> wire_binary (text_encode s)
         | CBytes bs \<Rightarrow> wire_binary bs
         | CNodes children \<Rightarrow> cat_r (wire_list_size (length children)) (wire_nodes children)) = Inr cb"
    using "1.prems"(1) by (auto simp: cat_r_def rbind_eq_Inr_iff)
  have "hdr \<noteq> []" using b(1) by (auto simp: wire_list_size_def split: if_splits)
  then obtain f where f: "fuel = Suc f" "length cb < f"
    using "1.prems"(3) b(4) by (cases fuel) (auto simp: neq_Nil_conv)
  have "if c = NoContent then cb = [] \<and> canon_node (Node t as c) = Node t (canon_attrs as) NoContent
     else src.parses (rd_bind readUint8 (content_step f t (canon_attrs as))) cb
       (canon_node (Node t as c))"
  proof (cases c)
    case (CNodes children)
    then obtain ch rest where ch: "wire_list_size (length children) = Inr ch"
        "wire_nodes children = Inr rest" "cb = ch @ rest"
      using cb by (auto simp: cat_r_def rbind_eq_Inr_iff)
    have "src.parses (decode_children f (length children)) rest (map canon_node children)"
      using "1.IH" [OF CNodes] ch f "1.prems"(2) CNodes by simp
    from parses_children_content [OF ch(1) this] show ?thesis by (simp add: CNodes ch(3))
  qed (use cb parses_binary_content in auto)
  then show ?case
    unfolding b(4) f(1) using "1.prems"(2) by (intro parses_node_header [OF b(1-3)]) auto
next
  case 2
  then show ?case by (simp add: src.parses_return)
next
  case (3 child rest)
  from "3.prems"(1) obtain cb rb where b: "wire_node child = Inr cb" "wire_nodes rest = Inr rb"
      "out' = cb @ rb"
    by (auto simp: cat_r_def rbind_eq_Inr_iff)
  have c: "src.parses (decodeNodeInternal fuel') cb (canon_node child)"
    and r: "src.parses (decode_children fuel' (length rest)) rb (map canon_node rest)"
    using "3.IH" "3.prems" b by auto
  let ?f = "\<lambda>child. rd_bind (decode_children fuel' (length rest)) (\<lambda>rest. rd_return (child # rest))"
  have "src.parses (?f (canon_node child)) rb (map canon_node (child # rest))"
    using src.parses_bind_map [OF r] by simp
  from src.parses_bind [where f = ?f, OF c this] show ?case
    by (simp add: b(3) del: decodeNodeInternal.simps)
qed

lemma decodeBinaryNode_wire:
  assumes "wire_node n = Inr bs" "node_safe n"
  shows "decodeBinaryNode bs = Inr (canon_node n)"
proof -
  have "src.parses (decodeNodeInternal (Suc (length bs))) bs (canon_node n)"
    using assms by (intro parses_node(1)) auto
  then obtain r' where "decodeNodeInternal (Suc (length bs)) (new_reader bs) = Inr (canon_node n, r')"
    using src.parses_run [of "decodeNodeInternal (Suc (length bs))" bs "canon_node n" "new_reader bs"]
    by (auto simp del: decodeNodeInternal.simps)
  then show ?thesis by (simp add: decodeBinaryNode_def del: decodeNodeInternal.simps)
qed

end
