(* ===== verification/BinaryProperties.thy ===== *)
theory BinaryProperties
  imports BinaryRoundtrip
begin

text \<open>
  The properties of the binary node codec as a whole.  \<open>node_small\<close> bounds the sizes a node may
  have so that every length field of the format holds them; with \<open>node_safe\<close> of theory
  BinaryRoundtrip it describes the nodes that survive a trip over the wire.
\<close>

subsection \<open>The encoder accepts every small node\<close>

definition str_small :: "jstr \<Rightarrow> bool" where
  "str_small s \<longleftrightarrow> length s < 2 ^ 30"

fun node_small :: "node \<Rightarrow> bool" where
  "node_small (Node t as c) \<longleftrightarrow> str_small t \<and> length as < 2 ^ 14 \<and>
    (\<forall>(k, v) \<in> set as. str_small k \<and> str_small v) \<and>
    (case c of
       NoContent \<Rightarrow> True
     | CString s \<Rightarrow> str_small s
     | CBytes bs \<Rightarrow> length bs < 2 ^ 32
     | CNodes children \<Rightarrow> length children < 2 ^ 16 \<and> (\<forall>child \<in> set children. node_small child))"

lemma cat_r_total: "\<exists>a. m = Inr a \<Longrightarrow> \<exists>b. r = Inr b \<Longrightarrow> \<exists>c. cat_r m r = Inr c"
  by (auto simp: cat_r_def)

lemma wire_length_total: "n < 2 ^ 32 \<Longrightarrow> \<exists>out. wire_length n = Inr out"
  by (auto simp: wire_length_def MAX_SAFE_INTEGER_def)

lemma wire_binary_total: "length bs < 2 ^ 32 \<Longrightarrow> \<exists>out. wire_binary bs = Inr out"
  unfolding wire_binary_def by (intro cat_r_total wire_length_total) auto

lemma length_text_encode_small: "str_small s \<Longrightarrow> length (text_encode s) < 2 ^ 32"
  using length_text_encode [of s] by (simp add: str_small_def)

lemma wire_string_total: "str_small s \<Longrightarrow> \<exists>out. wire_string s = Inr out"
  using wire_binary_total [OF length_text_encode_small, of s]
  by (auto simp: wire_string_def split: option.split packed.split)

lemma str_small_parts: "str_small s \<Longrightarrow> str_small (take n s)" "str_small s \<Longrightarrow> str_small (drop n s)"
  by (auto simp: str_small_def)

lemma wire_jid_pair_total:
  "str_small user \<Longrightarrow> str_small server \<Longrightarrow> \<exists>out. wire_jid_pair user server = Inr out"
  unfolding wire_jid_pair_def by (auto intro!: cat_r_total wire_string_total)

lemma wire_attr_value_total:
  assumes "str_small v"
  shows "\<exists>out. wire_attr_value v = Inr out"
proof (cases "jid_shape v")
  case None
  then show ?thesis using assms by (simp add: wire_attr_value_def wire_string_total)
next
  case (Some shape)
  obtain userEnd device server where shape: "shape = (userEnd, device, server)" by (cases shape)
  then obtain i where "server = drop i v" using Some jid_shapeD by metis
  then have "str_small server" "str_small (take userEnd v)" using assms str_small_parts by auto
  then show ?thesis
    using wire_jid_pair_total wire_string_total
    by (auto simp: wire_attr_value_def Some shape intro!: cat_r_total split: option.split)
qed

lemma wire_list_size_total: "n < 2 ^ 16 \<Longrightarrow> \<exists>out. wire_list_size n = Inr out"
  by (auto simp: wire_list_size_def MAX_SAFE_INTEGER_def)

lemma wire_attrs_total:
  "\<forall>(k, v) \<in> set as. str_small k \<and> str_small v \<Longrightarrow> \<exists>out. wire_attrs as = Inr out"
  by (induction "as" rule: wire_attrs.induct)
    (auto intro!: cat_r_total wire_string_total wire_attr_value_total)

lemma wire_node_total:
  "node_small n \<Longrightarrow> \<exists>out. wire_node n = Inr out"
  "\<forall>n \<in> set ns. node_small n \<Longrightarrow> \<exists>out. wire_nodes ns = Inr out"
proof (induction n and ns rule: wire_node_wire_nodes.induct)
  case (1 t "as" c)
  have "node_list_size as c < 2 ^ 16" using 1 by (simp add: node_list_size_def)
  moreover have "\<exists>out. (case c of
           NoContent \<Rightarrow> Inr []
         | CString s \<Rightarrow> wire_binary (text_encode s)
         | CBytes bs \<Rightarrow> wire_binary bs
         | CNodes children \<Rightarrow> cat_r (wire_list_size (length children)) (wire_nodes children)) = Inr out"
    using 1 wire_binary_total length_text_encode_small wire_list_size_total
    by (cases c) (auto intro!: cat_r_total)
  ultimately show ?case
    unfolding wire_node.simps
    using 1 by (intro cat_r_total wire_list_size_total wire_string_total wire_attrs_total) auto
qed (auto intro!: cat_r_total)

subsection \<open>The only errors of the encoder are size limits\<close>

definition size_error :: "enc_error \<Rightarrow> bool" where
  "size_error e \<longleftrightarrow> (\<forall>c. e \<noteq> CannotNibbleEncode c)"

lemma cat_r_size_error:
  "(\<And>e. m = Inl e \<Longrightarrow> size_error e) \<Longrightarrow> (\<And>e. r = Inl e \<Longrightarrow> size_error e) \<Longrightarrow>
    cat_r m r = Inl e \<Longrightarrow> size_error e"
  by (cases m; cases r) (auto simp: cat_r_def)

lemma wire_length_error: "wire_length n = Inl e \<Longrightarrow> size_error e"
  by (auto simp: wire_length_def size_error_def split: if_splits)

lemma wire_binary_error: "wire_binary bs = Inl e \<Longrightarrow> size_error e"
  unfolding wire_binary_def by (erule cat_r_size_error [rotated 2]) (auto dest: wire_length_error)

lemma wire_string_error: "wire_string s = Inl e \<Longrightarrow> size_error e"
  by (auto simp: wire_string_def dest: wire_binary_error split: option.splits if_splits packed.splits)

lemma wire_jid_pair_error: "wire_jid_pair user server = Inl e \<Longrightarrow> size_error e"
  unfolding wire_jid_pair_def
  by (erule cat_r_size_error [rotated 2], simp, erule cat_r_size_error [rotated 2])
    (auto dest: wire_string_error split: if_splits)

lemma wire_attr_value_error:
  assumes "wire_attr_value v = Inl e"
  shows "size_error e"
proof -
  have "size_error e" if "cat_r (Inr pre) (wire_string s) = Inl e" for pre s
    using that by (rule cat_r_size_error [rotated 2]) (auto dest: wire_string_error)
  with assms show ?thesis
    by (auto simp: wire_attr_value_def dest: wire_string_error wire_jid_pair_error
        split: option.splits if_splits)
qed

lemma wire_list_size_error: "wire_list_size n = Inl e \<Longrightarrow> size_error e"
  by (auto simp: wire_list_size_def size_error_def split: if_splits)

lemma wire_attrs_error: "wire_attrs as = Inl e \<Longrightarrow> size_error e"
proof (induction "as" arbitrary: e rule: wire_attrs.induct)
  case (2 k v rest)
  have tail: "size_error e" if "cat_r (wire_attr_value v) (wire_attrs rest) = Inl e" for e
    using that by (rule cat_r_size_error [rotated 2]) (use 2(1) wire_attr_value_error in auto)
  from 2(2) show ?case
    unfolding wire_attrs.simps
    by (rule cat_r_size_error [rotated 2]) (auto dest: wire_string_error tail)
qed simp

lemma wire_node_error:
  "wire_node n = Inl e \<Longrightarrow> size_error e"
  "wire_nodes ns = Inl e' \<Longrightarrow> size_error e'"
proof (induction n and ns arbitrary: e and e' rule: wire_node_wire_nodes.induct)
  case (1 t "as" c)
  let ?content = "case c of
           NoContent \<Rightarrow> Inr []
         | CString s \<Rightarrow> wire_binary (text_encode s)
         | CBytes bs \<Rightarrow> wire_binary bs
         | CNodes children \<Rightarrow> cat_r (wire_list_size (length children)) (wire_nodes children)"
  have content: "size_error e" if "?content = Inl e" for e
  proof (cases c)
    case (CNodes children)
    with that have "cat_r (wire_list_size (length children)) (wire_nodes children) = Inl e" by simp
    then show ?thesis
      by (rule cat_r_size_error [rotated 2]) (auto dest: wire_list_size_error 1(1) [OF CNodes])
  qed (use that wire_binary_error in auto)
  have rest: "size_error e" if "cat_r (wire_attrs as) ?content = Inl e" for e
    using that by (rule cat_r_size_error [rotated 2]) (auto dest: wire_attrs_error content)
  have rest2: "size_error e" if "cat_r (wire_string t) (cat_r (wire_attrs as) ?content) = Inl e" for e
    using that by (rule cat_r_size_error [rotated 2]) (auto dest: wire_string_error rest)
  from 1(2) show ?case
    unfolding wire_node.simps
    by (rule cat_r_size_error [rotated 2]) (auto dest: wire_list_size_error rest2)
next
  case (3 child rest)
  from 3(3) show ?case
    unfolding wire_nodes.simps by (rule cat_r_size_error [rotated 2]) (auto dest: 3(1,2))
qed simp

subsection \<open>What the decoder returns\<close>

text \<open>\<open>yields P p\<close>: every value a successful run of \<open>p\<close> returns satisfies \<open>P\<close>.\<close>

definition yields :: "('a \<Rightarrow> bool) \<Rightarrow> (reader \<Rightarrow> dec_error + 'a \<times> reader) \<Rightarrow> bool" where
  "yields P p \<longleftrightarrow> (\<forall>r v r'. p r = Inr (v, r') \<longrightarrow> P v)"

lemma yields_bind: "yields Q p \<Longrightarrow> (\<And>v. Q v \<Longrightarrow> yields P (f v)) \<Longrightarrow> yields P (rd_bind p f)"
  unfolding yields_def rd_bind_def by (fastforce simp: rbind_eq_Inr_iff split: prod.splits)

lemma yields_any: "yields (\<lambda>_. True) p"
  by (simp add: yields_def)

lemma yields_bind_any: "(\<And>v. yields P (f v)) \<Longrightarrow> yields P (rd_bind p f)"
  by (rule yields_bind [OF yields_any])

lemma yields_return: "P v \<Longrightarrow> yields P (rd_return v)"
  by (simp add: yields_def rd_return_def)

lemma yields_fail: "yields P (rd_fail e)"
  by (simp add: yields_def rd_fail_def)

lemmas yields_intros = yields_bind_any yields_return yields_fail

text \<open>
  The attributes of a decoded node have distinct names and none is \<open>__proto__\<close>, its tag is not
  empty and its content is bytes or nodes, never a string.
\<close>

definition attrs_ok :: "attrs \<Rightarrow> bool" where
  "attrs_ok as \<longleftrightarrow> distinct (map fst as) \<and> js ''__proto__'' \<notin> set (map fst as)"

fun node_ok :: "node \<Rightarrow> bool" where
  "node_ok (Node t as c) \<longleftrightarrow> t \<noteq> [] \<and> attrs_ok as \<and>
    (case c of
       CString s \<Rightarrow> False
     | CNodes children \<Rightarrow> \<forall>child \<in> set children. node_ok child
     | _ \<Rightarrow> True)"

lemma set_insert_index: "set (map fst (insert_index k v obj)) = insert k (set (map fst obj))"
  by (induction k v obj rule: insert_index.induct) auto

lemma distinct_insert_index:
  "k \<notin> set (map fst obj) \<Longrightarrow> distinct (map fst obj) \<Longrightarrow> distinct (map fst (insert_index k v obj))"
proof (induction k v obj rule: insert_index.induct)
  case (2 k v k' v' obj)
  then show ?case using set_insert_index [of k v obj] by auto
qed simp

lemma attrs_ok_obj_set: "attrs_ok as \<Longrightarrow> attrs_ok (obj_set k v as)"
proof -
  assume ok: "attrs_ok as"
  have names: "map fst (map (\<lambda>(k', v'). if k' = k then (k, v) else (k', v')) as) = map fst as"
    by (induction "as") auto
  show ?thesis
    using ok distinct_insert_index [of k "as" v] set_insert_index [of k v "as"]
    unfolding attrs_ok_def obj_set_def
    by (simp only: names split: if_split) auto
qed

lemma yields_attrs_loop: "attrs_ok as \<Longrightarrow> yields attrs_ok (attrs_loop n as)"
proof (induction n arbitrary: "as")
  case 0
  then show ?case by (simp add: yields_return)
next
  case (Suc n)
  then show ?case
    by (auto intro!: yields_bind_any yields_fail Suc.IH attrs_ok_obj_set split: wire_value.split)
qed

lemma yields_decodeNode:
  "yields node_ok (decodeNodeInternal fuel) \<and>
    (\<forall>k. yields (\<lambda>ns. \<forall>n \<in> set ns. node_ok n) (decode_children fuel k))"
proof (induction fuel)
  case 0
  have "yields (\<lambda>ns. \<forall>n \<in> set ns. node_ok n) (decode_children 0 k)" for k
    by (cases k) (simp_all add: yields_def rd_bind_def rd_fail_def rd_return_def)
  then show ?case by (simp add: yields_fail)
next
  case (Suc fuel)
  have children: "yields node_ok (rd_bind (decode_children fuel k)
      (\<lambda>children. rd_return (Node t as (CNodes children))))" if "t \<noteq> []" "attrs_ok as" for k t "as"
    by (rule yields_bind [OF conjunct2 [OF Suc.IH, rule_format]]) (use that in \<open>auto intro!: yields_return\<close>)
  have content: "yields node_ok (rd_bind readUint8 (content_step fuel t as))"
    if "t \<noteq> []" "attrs_ok as" for t "as"
    by (rule yields_bind_any)
      (use that in \<open>auto intro!: yields_intros children [OF that] split: wire_value.split\<close>)
  have rest: "yields node_ok (rd_bind (attrs_loop m []) (\<lambda>as.
      if even n then rd_bind readUint8 (content_step fuel t as) else rd_return (Node t as NoContent)))"
    if "t \<noteq> []" for m n t
    by (rule yields_bind [OF yields_attrs_loop])
      (use that content in \<open>auto intro!: yields_return simp: attrs_ok_def\<close>)
  have node: "yields node_ok (decodeNodeInternal (Suc fuel))"
    unfolding decodeNodeInternal.simps
    by (rule yields_bind_any, simp only: split: if_split, intro conjI impI,
        rule yields_fail, rule yields_bind_any)
      (auto intro!: yields_fail rest split: wire_value.split)
  have "yields (\<lambda>ns. \<forall>n \<in> set ns. node_ok n) (decode_children (Suc fuel) k)" for k
  proof (induction k)
    case (Suc k)
    show ?case
      unfolding decode_children.simps
      by (rule yields_bind [OF node], rule yields_bind [OF Suc]) (auto intro!: yields_return)
  qed (simp add: yields_return)
  with node show ?case by blast
qed

lemma decodeBinaryNode_ok: "decodeBinaryNode bs = Inr n \<Longrightarrow> node_ok n"
  using yields_decodeNode [of "Suc (length bs)"]
  by (auto simp: decodeBinaryNode_def yields_def rbind_eq_Inr_iff simp del: decodeNodeInternal.simps)

subsection \<open>JID attributes\<close>

lemma digits_foldl_ge: "acc \<le> foldl (\<lambda>acc c. acc * 10 + (c - 48)) acc ds" for acc :: nat
proof (induction ds arbitrary: acc)
  case (Cons c ds)
  from Cons [of "acc * 10 + (c - 48)"] show ?case by simp
qed simp

lemma parse_device_foldl:
  "list_all is_digit_unit ds \<Longrightarrow> foldl (\<lambda>acc c. acc * 10 + (c - 48)) d ds \<le> 255 \<Longrightarrow>
    parse_device ds d = Some (foldl (\<lambda>acc c. acc * 10 + (c - 48)) d ds)"
proof (induction ds d rule: parse_device.induct)
  case (2 c rest d)
  have c: "48 \<le> c" "c \<le> 57" using 2 by (auto simp: is_digit_unit_def)
  then have "nat (int c - 48) = c - 48" by linarith
  moreover have "d * 10 + (c - 48) \<le> 255"
    using 2(3) digits_foldl_ge [of "d * 10 + (c - 48)" rest] by simp
  ultimately show ?case using 2 c by (simp add: Let_def)
qed simp

lemma parse_device_js_dec: "d \<le> 255 \<Longrightarrow> parse_device (js_dec d) 0 = Some d"
  using parse_device_foldl [of "js_dec d" 0] digits_val_js_dec [of d] js_dec_digits [of _ d]
  by (simp add: digits_val_def list_all_iff)

lemma js_dec_plain [simp]: "64 \<notin> set (js_dec n)" "58 \<notin> set (js_dec n)"
  using js_dec_digits [of 64 n] js_dec_digits [of 58 n] by (auto simp: is_digit_unit_def)

lemma matched_server [simp]:
  "d = drop from s \<Longrightarrow> from \<le> length s \<Longrightarrow>
    (case matchKnownServer s from of None \<Rightarrow> d | Some server \<Rightarrow> server) = d"
  using matchKnownServer_eq [of s "from"] by (auto split: option.split)

lemma jid_shape_user:
  assumes "u \<noteq> []" "64 \<notin> set u" "58 \<notin> set u" "server \<noteq> []" "64 \<notin> set server"
  shows "jid_shape (u @ 64 # server) = Some (length u, 0, server)"
proof -
  let ?v = "u @ 64 # server"
  have at: "index_of 64 ?v = Some (length u)" by (rule index_of_append [OF assms(2)])
  have "index_of 58 ?v = None \<or> (\<exists>i. index_of 58 ?v = Some i \<and> length u < i)"
    using assms(3) by (cases "index_of 58 server") (auto simp: index_of_append_notin)
  then show ?thesis
    using assms at by (auto simp: jid_shape_def index_from_def Let_def)
qed

lemma jid_shape_device:
  assumes "64 \<notin> set u" "58 \<notin> set u" "server \<noteq> []" "64 \<notin> set server" "d \<le> 255"
  shows "jid_shape (u @ 58 # js_dec d @ 64 # server) = Some (length u, d, server)"
proof -
  let ?v = "u @ 58 # js_dec d @ 64 # server" and ?n = "length u + Suc (length (js_dec d))"
  have at: "index_of 64 ?v = Some ?n"
    using index_of_append [of 64 "u @ 58 # js_dec d" server] assms(1) by simp
  have "index_of 58 ?v = Some (length u)" by (rule index_of_append [OF assms(2)])
  moreover have "slice ?v (length u + 1) ?n = js_dec d" by (simp add: slice_def)
  ultimately show ?thesis
    using assms at parse_device_js_dec [OF assms(5)]
    by (auto simp: jid_shape_def index_from_def Let_def)
qed

lemma jid_shape_user_plain:
  assumes "jid_shape v = Some (userEnd, device, server)"
  shows "64 \<notin> set (take userEnd v)" "58 \<notin> set (take userEnd v)"
proof -
  obtain at where at: "index_of 64 v = Some at"
    using assms by (auto simp: jid_shape_def split: option.splits)
  then have v: "at < length v" "64 \<notin> set (take at v)" using index_of_SomeD by auto
  consider "userEnd = at" "index_of 58 v = None"
    | colon where "userEnd = at" "index_of 58 v = Some colon" "at \<le> colon"
    | "index_of 58 v = Some userEnd" "userEnd < at"
    using assms at by (auto simp: jid_shape_def Let_def not_less split: option.splits if_splits)
  then have "userEnd \<le> at \<and> 58 \<notin> set (take userEnd v)"
  proof cases
    case 2
    then have "58 \<notin> set (take colon v)" using index_of_SomeD by blast
    with 2 show ?thesis by (meson order.refl set_take_subset_set_take subset_code(1))
  qed (use index_of_SomeD in \<open>auto simp: index_of_None_iff dest: in_set_takeD\<close>)
  moreover from this have "set (take userEnd v) \<subseteq> set (take at v)"
    by (simp add: set_take_subset_set_take)
  ultimately show "64 \<notin> set (take userEnd v)" "58 \<notin> set (take userEnd v)" using v by auto
qed

text \<open>The form of \<open>canon_attr v\<close> for a JID-shaped value.\<close>

lemma canon_attr_cases:
  obtains (plain) "jid_shape v = None" "canon_attr v = v"
  | (server) at where "jid_shape v = Some (0, at, canon_attr v)" "64 \<notin> set (canon_attr v)"
  | (user) u d server where "jid_shape v = Some (length u, d, server)" "u = take (length u) v"
      "u \<noteq> []" "64 \<notin> set u" "58 \<notin> set u" "server \<noteq> []" "64 \<notin> set server" "d \<le> 255"
      "canon_attr v = (if jid_domain_type server \<noteq> None \<and> d \<noteq> 0
         then u @ 58 # js_dec d @ 64 # server else u @ 64 # server)"
proof (cases "jid_shape v")
  case None
  then show thesis by (intro plain) (simp_all add: canon_attr_def)
next
  case (Some shape)
  obtain userEnd d server where s: "jid_shape v = Some (userEnd, d, server)"
    using Some by (cases shape) auto
  from s obtain at where at: "server \<noteq> []" "64 \<notin> set server" "d \<le> 255" "userEnd < length v"
    by (rule jid_shapeD) blast
  show thesis
  proof (cases "userEnd = 0")
    case True
    then have "canon_attr v = server" by (simp add: canon_attr_def s)
    with True s at show thesis by (intro server) auto
  next
    case False
    then show thesis
      using s at jid_shape_user_plain [OF s]
      by (intro user [of "take userEnd v" d server]) (auto simp: canon_attr_def js_def)
  qed
qed

text \<open>
  The attribute values that change on the wire: of the form \<open>name:device@server\<close> with a decimal device
  up to 255, where the name is empty, the server is not one of the four with a domain type, or the
  device is zero or has leading zeros.
\<close>

definition lossy_jid :: "jstr \<Rightarrow> bool" where
  "lossy_jid v \<longleftrightarrow>
    (let user = takeWhile (\<lambda>c. c \<noteq> 64) v; server = drop (Suc (length user)) v;
         name = takeWhile (\<lambda>c. c \<noteq> 58) user; device = drop (Suc (length name)) user
     in 58 \<in> set user \<and> server \<noteq> [] \<and> 64 \<notin> set server \<and>
        device \<noteq> [] \<and> list_all is_digit_unit device \<and> digits_val device \<le> 255 \<and>
        (name = [] \<or> server \<notin> js ` {''s.whatsapp.net'', ''lid'', ''hosted'', ''hosted.lid''} \<or>
         hd device = 48))"

lemma parse_device_digits:
  "parse_device ds acc = Some d \<Longrightarrow> acc \<le> 255 \<Longrightarrow>
    list_all is_digit_unit ds \<and> d \<le> 255 \<and> d = foldl (\<lambda>acc c. acc * 10 + (c - 48)) acc ds"
proof (induction ds acc rule: parse_device.induct)
  case (2 c rest acc)
  then have c: "48 \<le> c" "c \<le> 57" by (auto simp: Let_def split: if_splits)
  then have "nat (int c - 48) = c - 48" by linarith
  with 2 c show ?case by (auto simp: Let_def is_digit_unit_def split: if_splits)
qed simp

lemma takeWhile_index_of: "index_of c s = Some i \<Longrightarrow> takeWhile (\<lambda>x. x \<noteq> c) s = take i s"
proof -
  assume "index_of c s = Some i"
  then have i: "i < length s" "s = take i s @ c # drop (Suc i) s" "c \<notin> set (take i s)"
    using index_of_SomeD by auto
  have "takeWhile (\<lambda>x. x \<noteq> c) (take i s @ c # drop (Suc i) s) = take i s"
    using i(3) by (subst takeWhile_append2) auto
  with i(2) show ?thesis by simp
qed

lemma canon_attr_lossless:
  assumes "\<not> lossy_jid v"
  shows "canon_attr v = v"
proof (cases "jid_shape v")
  case None
  then show ?thesis by (simp add: canon_attr_def)
next
  case (Some shape)
  obtain userEnd d server where s: "jid_shape v = Some (userEnd, d, server)"
    using Some by (cases shape) auto
  then obtain at where at: "index_of 64 v = Some at"
    and shape: "server = drop (Suc at) v" "0 < at" "server \<noteq> []" "64 \<notin> set server" "userEnd \<le> at"
    using jid_shapeD by metis
  have v: "at < length v" "v = take at v @ 64 # drop (Suc at) v" "64 \<notin> set (take at v)"
    using index_of_SomeD [OF at] by auto
  show ?thesis
  proof (cases "userEnd = at")
    case True
    then have "d = 0" using s at by (auto simp: jid_shape_def Let_def split: option.splits if_splits)
    then have "canon_attr v = take at v @ 64 # server" using s True shape(2) by (simp add: canon_attr_def js_def)
    with v(2) shape(1) show ?thesis by simp
  next
    case False
    then have colon: "index_of 58 v = Some userEnd" "userEnd < at"
      and d: "slice v (Suc userEnd) at \<noteq> []" "parse_device (slice v (Suc userEnd) at) 0 = Some d"
      using s at v(1) by (auto simp: jid_shape_def Let_def slice_def split: option.splits if_splits)
    define name where "name = take userEnd v"
    define device where "device = slice v (Suc userEnd) at"
    have name: "58 \<notin> set name" "length name = userEnd"
      using index_of_SomeD [OF colon(1)] by (simp_all add: name_def)
    have "v ! userEnd = 58" using index_of_SomeD [OF colon(1)] by (metis nth_append_length length_take min.absorb4)
    then have user: "take at v = name @ 58 # device"
      using id_take_nth_drop [of userEnd "take at v"] colon(2) v(1)
      by (simp add: name_def device_def slice_def drop_take)
    have dev: "device \<noteq> []" "list_all is_digit_unit device" "d \<le> 255" "d = digits_val device"
      using d parse_device_digits [of device 0 d] by (simp_all add: device_def digits_val_def)
    have "takeWhile (\<lambda>c. c \<noteq> 64) v = name @ 58 # device" using takeWhile_index_of [OF at] user by simp
    moreover have "takeWhile (\<lambda>c. c \<noteq> 58) (name @ 58 # device) = name"
      using name(1) by (subst takeWhile_append2) auto
    moreover have "drop (Suc (length (name @ 58 # device))) v = server"
      using shape(1) arg_cong [OF user, of length] v(1) by (simp add: min_absorb2)
    ultimately have ok: "name \<noteq> []" "server \<in> js ` {''s.whatsapp.net'', ''lid'', ''hosted'', ''hosted.lid''}"
      "hd device \<noteq> 48"
      using assms shape dev by (auto simp: lossy_jid_def)
    then have "js_dec d = device" using js_dec_digits_val [of device] dev by simp
    moreover have "jid_domain_type server \<noteq> None"
      using ok(2) by (auto simp: jid_domain_type_def server_defs)
    moreover have "d \<noteq> 0"
    proof
      assume "d = 0"
      then have "device = [48]" using \<open>js_dec d = device\<close> by (simp add: js_dec.simps)
      with ok(3) show False by simp
    qed
    moreover have "0 < userEnd" using ok(1) name(2) by auto
    ultimately have "canon_attr v = name @ 58 # device @ 64 # server"
      by (simp add: canon_attr_def s js_def name_def)
    also have "\<dots> = v" using v(2) user shape(1) by simp
    finally show ?thesis .
  qed
qed

lemma canon_attr_idem: "canon_attr (canon_attr v) = canon_attr v"
proof (cases rule: canon_attr_cases [of v])
  case (server at)
  then have "jid_shape (canon_attr v) = None" by (simp add: jid_shape_def)
  then show ?thesis by (simp add: canon_attr_def)
next
  case (user u d server)
  have "jid_shape (u @ 58 # js_dec d @ 64 # server) = Some (length u, d, server)"
    "jid_shape (u @ 64 # server) = Some (length u, 0, server)"
    using user by (auto intro!: jid_shape_device jid_shape_user)
  then have "canon_attr (u @ 58 # js_dec d @ 64 # server) = (if jid_domain_type server \<noteq> None \<and> d \<noteq> 0
      then u @ 58 # js_dec d @ 64 # server else u @ 64 # server)"
    "canon_attr (u @ 64 # server) = u @ 64 # server"
    using user(3) unfolding canon_attr_def by (simp_all add: js_def)
  then show ?thesis unfolding user(9) by presburger
qed simp

lemma canon_node_idem: "canon_node (canon_node n) = canon_node n"
proof (induction n rule: canon_node.induct)
  case (1 t "as" c)
  then show ?case
    by (cases c) (auto simp: canon_attr_idem comp_def split_beta)
qed

lemma well_formed_append:
  "well_formed_utf16 xs \<Longrightarrow> well_formed_utf16 ys \<Longrightarrow> well_formed_utf16 (xs @ ys)"
proof (induction xs rule: well_formed_utf16.induct)
  case (2 u)
  then show ?case by (cases ys) auto
qed (auto split: if_splits)

lemma well_formed_js_dec: "well_formed_utf16 (js_dec n)"
  by (rule well_formed_ascii)
    (use js_dec_digits [of _ n] in \<open>force simp: list_all_iff is_digit_unit_def\<close>)

lemma utf8_safe_joined:
  assumes "utf8_safe u" "u \<noteq> []" "utf8_safe server"
  shows "utf8_safe (u @ 64 # server)" "utf8_safe (u @ 58 # js_dec d @ 64 # server)"
proof -
  have "well_formed_utf16 [64]" "well_formed_utf16 [58]"
    by (simp_all add: high_surrogate_def low_surrogate_def)
  then have "well_formed_utf16 (u @ [64] @ server)"
    "well_formed_utf16 (u @ [58] @ js_dec d @ [64] @ server)"
    using assms well_formed_js_dec [of d] unfolding utf8_safe_def by (blast intro: well_formed_append)+
  then show "utf8_safe (u @ 64 # server)" "utf8_safe (u @ 58 # js_dec d @ 64 # server)"
    using assms(1,2) by (auto simp: utf8_safe_def)
qed

lemma attr_safe_canon:
  assumes "attr_safe v"
  shows "attr_safe (canon_attr v)"
proof (cases rule: canon_attr_cases [of v])
  case plain
  with assms show ?thesis by simp
next
  case (server at)
  then obtain i where "index_of 64 v = Some i" "canon_attr v = drop (Suc i) v"
    by (auto elim!: jid_shapeD)
  with assms server(2) show ?thesis by (simp add: attr_safe_def)
next
  case (user u d server)
  obtain i where i: "index_of 64 v = Some i" "server = drop (Suc i) v" "length u < length v"
      "v ! length u = 64 \<or> v ! length u = 58"
    using user(1) by (rule jid_shapeD) auto
  have safe: "utf8_safe server" "utf8_safe u"
    using assms i user(2) utf8_safe_take [of v "length u"] by (auto simp: attr_safe_def)
  have "index_of 64 (u @ 64 # server) = Some (length u)"
    "index_of 64 (u @ 58 # js_dec d @ 64 # server) = Some (length u + Suc (length (js_dec d)))"
    using index_of_append [of 64 u server] index_of_append [of 64 "u @ 58 # js_dec d" server] user
    by simp_all
  then show ?thesis
    unfolding user(9) attr_safe_def using safe user utf8_safe_joined [of u server] by simp
qed

lemma plain_object_canon: "plain_object as \<Longrightarrow> plain_object (canon_attrs as)"
  using plain_object_map [of "as" canon_attr] by (simp add: plain_object_def)

lemma node_safe_canon: "node_safe n \<Longrightarrow> node_safe (canon_node n)"
proof (induction n rule: canon_node.induct)
  case (1 t "as" c)
  then show ?case
    by (cases c) (auto simp: plain_object_canon attr_safe_canon)
qed

subsection \<open>Properties of the codec\<close>

text \<open>A node the witnesses use: \<open><iq to="5:7@lid"><ping/></iq>\<close> and its variants.\<close>

definition sample_node :: "jstr \<Rightarrow> node" where
  "sample_node jid = Node (js ''iq'') [(js ''to'', jid)] (CNodes [Node (js ''ping'') [] NoContent])"

definition sample_leaf :: "jstr \<Rightarrow> node" where
  "sample_leaf jid = Node (js ''iq'') [(js ''to'', jid)] NoContent"

lemma sample_node_ok:
  assumes "utf8_safe jid" "attr_safe jid" "str_small jid"
  shows "node_safe (sample_node jid)" "node_small (sample_node jid)"
    "node_safe (sample_leaf jid)" "node_small (sample_leaf jid)"
proof -
  have "is_array_index (js ''to'') = False"
    by (simp add: is_array_index_def js_def is_digit_unit_def)
  then show "node_safe (sample_node jid)" "node_safe (sample_leaf jid)"
    using assms
    by (simp_all add: sample_node_def sample_leaf_def utf8_safe_def js_def high_surrogate_def low_surrogate_def
        plain_object_def obj_set_def)
  show "node_small (sample_node jid)" "node_small (sample_leaf jid)"
    using assms by (simp_all add: sample_node_def sample_leaf_def str_small_def)
qed

lemma sample_jid_ok:
  "utf8_safe (js ''5:7@lid'')" "attr_safe (js ''5:7@lid'')" "str_small (js ''5:7@lid'')"
  "utf8_safe (js ''5:7@msgr'')" "attr_safe (js ''5:7@msgr'')" "str_small (js ''5:7@msgr'')"
  by (simp_all add: attr_safe_def utf8_safe_def js_def high_surrogate_def low_surrogate_def
      str_small_def)

lemmas sample_nodes = sample_node_ok [OF sample_jid_ok(1-3)] sample_node_ok [OF sample_jid_ok(4-6)]

lemma sample_node_encoded:
  "\<exists>bs. encodeBinaryNode (sample_node (js ''5:7@lid'')) = Inr bs"
  "\<exists>bs. encodeBinaryNode (sample_leaf (js ''5:7@lid'')) = Inr bs"
  "\<exists>bs. encodeBinaryNode (sample_leaf (js ''5:7@msgr'')) = Inr bs"
  using sample_nodes wire_node_total(1) by (simp_all add: encodeBinaryNode_wire)

text \<open>
  A node without lossy attribute values, and the node with its string contents as UTF-8 bytes, which is
  the only other thing the format does not keep.
\<close>

fun node_lossless :: "node \<Rightarrow> bool" where
  "node_lossless (Node t as c) \<longleftrightarrow>
    (\<forall>(k, v) \<in> set as. \<not> lossy_jid v) \<and>
    (case c of CNodes children \<Rightarrow> \<forall>child \<in> set children. node_lossless child | _ \<Rightarrow> True)"

fun utf8_content :: "node \<Rightarrow> node" where
  "utf8_content (Node t as c) = Node t as
    (case c of
       NoContent \<Rightarrow> NoContent
     | CString s \<Rightarrow> CBytes (text_encode s)
     | CBytes bs \<Rightarrow> CBytes bs
     | CNodes children \<Rightarrow> CNodes (map utf8_content children))"

lemma canon_attrs_lossless: "\<forall>(k, v) \<in> set as. \<not> lossy_jid v \<Longrightarrow> canon_attrs as = as"
  by (induction "as") (auto simp: canon_attr_lossless)

lemma canon_node_lossless: "node_lossless n \<Longrightarrow> canon_node n = utf8_content n"
proof (induction n rule: node_lossless.induct)
  case (1 t "as" c)
  then show ?case by (cases c) (simp_all add: canon_attrs_lossless)
qed

text \<open>
  C1: A node whose strings survive UTF-8, whose parts fit the length fields and none of whose attribute
  values is a JID that the format cannot carry (\<open>lossy_jid\<close>) is encoded without an error, and decoding
  the bytes returns the node: same tag, same attributes in the same order, same bytes and children,
  string content as its UTF-8 bytes.
\<close>

theorem node_roundtrip:
  assumes "node_safe n" "node_small n" "node_lossless n"
  shows "\<exists>bs. encodeBinaryNode n = Inr bs \<and> decodeBinaryNode bs = Inr (utf8_content n)"
  using wire_node_total(1) [OF assms(2)] decodeBinaryNode_wire [of n] assms(1) canon_node_lossless [OF assms(3)]
  by (auto simp: encodeBinaryNode_wire)

theorem node_roundtrip_witness:
  "\<exists>bs. encodeBinaryNode (sample_node (js ''5:7@lid'')) = Inr bs \<and>
    decodeBinaryNode bs = Inr (sample_node (js ''5:7@lid''))"
proof -
  have "\<not> lossy_jid (js ''5:7@lid'')" by (simp add: lossy_jid_def js_def)
  then have "node_lossless (sample_node (js ''5:7@lid''))" by (simp add: sample_node_def)
  moreover have "utf8_content (sample_node (js ''5:7@lid'')) = sample_node (js ''5:7@lid'')"
    by (simp add: sample_node_def)
  ultimately show ?thesis
    using node_roundtrip [of "sample_node (js ''5:7@lid'')"] sample_nodes by simp
qed

text \<open>
  An uncompressed stanza written by \<open>encodeBinaryNodeStanza\<close> is read back by
  \<open>decodeBinaryNodeStanza\<close> without a call to the decompressor, whatever the decompressor does.
\<close>

theorem stanza_roundtrip:
  assumes "encodeBinaryNodeStanza n = Inr bs" "node_safe n"
  shows "decodeBinaryNodeStanza inflate inflateRaw bs = Inr (canon_node n)"
proof -
  obtain out where out: "wire_node n = Inr out" "bs = 0 # out"
    using assms(1) by (auto simp: encodeBinaryNodeStanza_wire cat_r_def rbind_eq_Inr_iff)
  then show ?thesis
    using decodeBinaryNode_wire [OF out(1) assms(2)]
    by (simp add: decodeBinaryNodeStanza_def readUint8_def readBytes_def ensure_available_def
        new_reader_def advance_def getRemaining_def byte_at_def STREAM_END_def subarray_def)
qed

theorem stanza_roundtrip_witness:
  "\<exists>bs. encodeBinaryNodeStanza (sample_node (js ''5:7@lid'')) = Inr bs \<and>
    decodeBinaryNodeStanza Some Some bs = Inr (canon_node (sample_node (js ''5:7@lid'')))"
proof -
  obtain bs where "encodeBinaryNodeStanza (sample_node (js ''5:7@lid'')) = Inr bs"
    using sample_node_encoded by (auto simp: encodeBinaryNodeStanza_wire encodeBinaryNode_wire cat_r_def)
  with stanza_roundtrip [OF this] show ?thesis using sample_nodes by blast
qed

text \<open>
  A stanza with the compression flag is decompressed first; when the data is not a zlib or gzip
  stream but a raw deflate stream, the raw decompressor is used.  The node is the one that was
  encoded before compression.
\<close>

theorem compressed_stanza_roundtrip:
  assumes "encodeBinaryNode n = Inr bs" "node_safe n" "z \<noteq> []"
    "inflate z = Some bs \<or> inflate z = None \<and> inflateRaw z = Some bs"
  shows "decodeBinaryNodeStanza inflate inflateRaw (2 # z) = Inr (canon_node n)"
  using assms decodeBinaryNode_wire [of n bs]
  by (auto simp: decodeBinaryNodeStanza_def readUint8_def readBytes_def ensure_available_def
      new_reader_def advance_def getRemaining_def byte_at_def STREAM_END_def subarray_def
      inflateCompressedStanza_def encodeBinaryNode_wire)

theorem compressed_stanza_roundtrip_witness:
  "\<exists>bs. encodeBinaryNode (sample_node (js ''5:7@lid'')) = Inr bs \<and>
    decodeBinaryNodeStanza (\<lambda>z. None) (\<lambda>z. if z = [1] then Some bs else None) [2, 1]
      = Inr (canon_node (sample_node (js ''5:7@lid'')))"
proof -
  obtain bs where bs: "encodeBinaryNode (sample_node (js ''5:7@lid'')) = Inr bs"
    using sample_node_encoded by blast
  from compressed_stanza_roundtrip [OF bs, of "[1]"] bs show ?thesis using sample_nodes by auto
qed

text \<open>
  Forwarding is stable: a node that came out of the decoder is reproduced exactly when it is
  encoded and decoded once more.
\<close>

theorem decoded_node_stable:
  assumes "encodeBinaryNode n = Inr bs" "node_safe n" "decodeBinaryNode bs = Inr m"
    "encodeBinaryNode m = Inr bs'"
  shows "decodeBinaryNode bs' = Inr m"
proof -
  have "m = canon_node n"
    using assms(1-3) decodeBinaryNode_wire [of n bs] by (simp add: encodeBinaryNode_wire)
  then show ?thesis
    using decodeBinaryNode_wire [of m bs'] assms(2,4) node_safe_canon canon_node_idem
    by (simp add: encodeBinaryNode_wire)
qed

theorem decoded_node_stable_witness:
  "\<exists>m bs'. encodeBinaryNode m = Inr bs' \<and> decodeBinaryNode bs' = Inr m"
proof -
  obtain bs where bs: "encodeBinaryNode (sample_node (js ''5:7@lid'')) = Inr bs"
    using sample_node_encoded by blast
  let ?m = "canon_node (sample_node (js ''5:7@lid''))"
  have m: "decodeBinaryNode bs = Inr ?m"
    using bs sample_nodes decodeBinaryNode_wire by (simp add: encodeBinaryNode_wire)
  have "canon_attr (js ''5:7@lid'') = js ''5:7@lid''"
    by (simp add: canon_attr_def jid_shape_def js_def index_from_def matchKnownServer_def
        KNOWN_JID_SERVERS_def server_defs starts_at_def slice_def jid_domain_type_def js_dec.simps)
  then have "?m = sample_node (js ''5:7@lid'')"
    by (simp add: sample_node_def)
  with bs m decoded_node_stable [OF bs sample_nodes(1) m] show ?thesis by auto
qed

text \<open>
  C36: The routines of the encoder, with their growing buffer, reserved and patched length bytes,
  packed digit writers and JID parsing, write exactly the bytes of the wire format and throw
  exactly its errors.
\<close>

theorem encoder_refines_wire_format: "encodeBinaryNode n = wire_node n"
  by (rule encodeBinaryNode_wire)

text \<open>
  The encoder throws on nothing but sizes: the branch of \<open>toNibble\<close> that rejects a character
  is never reached.
\<close>

theorem encoder_only_size_errors: "encodeBinaryNode n \<noteq> Inl (CannotNibbleEncode c)"
  using wire_node_error(1) [of n] by (auto simp: encodeBinaryNode_wire size_error_def)

text \<open>C37: The decoder comes back on every input: it never runs out of the fuel of the model.\<close>

theorem decoder_total: "decodeBinaryNode bs \<noteq> Inl OutOfFuel"
  by (rule decodeBinaryNode_fuel)

text \<open>
  C38: Whatever bytes a peer sends, a node the decoder returns has a non-empty tag, attributes with
  distinct names, none of them \<open>__proto__\<close>, and bytes or nodes as content, at every depth.
\<close>

theorem decoded_node_ok:
  assumes "decodeBinaryNode bs = Inr n"
  shows "node_ok n"
  using assms by (rule decodeBinaryNode_ok)

theorem decoded_node_ok_witness: "\<exists>n. decodeBinaryNode [248, 1, 255, 1, 18] = Inr n \<and> node_ok n"
proof -
  have "\<exists>r. decodeNodeInternal (Suc 5) (new_reader [248, 1, 255, 1, 18])
      = Inr (Node (js ''12'') [] NoContent, r)"
    unfolding decodeNodeInternal.simps
    by (simp add: read_list_size_def read_attr_string_def rd_bind_def
        rd_return_def readUint8_def ensure_available_def advance_def new_reader_def byte_at_def
        getRemaining_def decodeValue_def decodeTokenString_def is_binary_token_def parsePacked_def
        packedPairTable_def NIBBLE_ALPHABET_def tag_bytes js_def and_15 and_127 and_128_nat
        drop_bit_eq_div)
  then have "decodeBinaryNode [248, 1, 255, 1, 18] = Inr (Node (js ''12'') [] NoContent)"
    by (auto simp: decodeBinaryNode_def eval_nat_numeral simp del: decodeNodeInternal.simps)
  from decoded_node_ok [OF this] this show ?thesis by blast
qed

text \<open>
  A device JID of the four domains (\<open>s.whatsapp.net\<close>, \<open>lid\<close>, \<open>hosted\<close>, \<open>hosted.lid\<close>) with a
  device from 1 to 255 comes back unchanged as an attribute value.
\<close>

theorem device_jid_roundtrip:
  assumes "node_safe (Node t [(k, u @ 58 # js_dec d @ 64 # server)] NoContent)"
    "encodeBinaryNode (Node t [(k, u @ 58 # js_dec d @ 64 # server)] NoContent) = Inr bs"
    "server \<in> {HOST_DOMAIN, LID_SERVER, HOSTED_SERVER, HOSTED_LID_SERVER}"
    "u \<noteq> []" "64 \<notin> set u" "58 \<notin> set u" "0 < d" "d \<le> 255"
  shows "decodeBinaryNode bs = Inr (Node t [(k, u @ 58 # js_dec d @ 64 # server)] NoContent)"
proof -
  have "jid_domain_type server \<noteq> None" "server \<noteq> []" "64 \<notin> set server"
    using assms(3) servers_not_Nil by (force simp: jid_domain_type_def)+
  then have "canon_attr (u @ 58 # js_dec d @ 64 # server) = u @ 58 # js_dec d @ 64 # server"
    using assms jid_shape_device [of u server d] by (simp add: canon_attr_def js_def)
  then show ?thesis
    using decodeBinaryNode_wire [OF assms(2) [unfolded encodeBinaryNode_wire] assms(1)] by simp
qed

theorem device_jid_roundtrip_witness:
  "\<exists>bs. encodeBinaryNode (sample_leaf (js ''5:7@lid'')) = Inr bs \<and>
    decodeBinaryNode bs = Inr (sample_leaf (js ''5:7@lid''))"
proof -
  have jid: "sample_leaf (js ''5:7@lid'') =
      Node (js ''iq'') [(js ''to'', js ''5'' @ 58 # js_dec 7 @ 64 # LID_SERVER)] NoContent"
    by (simp add: sample_leaf_def js_def js_dec.simps LID_SERVER_def)
  obtain bs where bs: "encodeBinaryNode (sample_leaf (js ''5:7@lid'')) = Inr bs"
    using sample_node_encoded by blast
  from device_jid_roundtrip [OF sample_nodes(3) [unfolded jid] bs [unfolded jid]] bs show ?thesis
    unfolding jid by (simp add: js_def)
qed

text \<open>
  On any other server the device is not written: the JID comes back without it.
\<close>

theorem device_dropped_elsewhere:
  assumes "node_safe (Node t [(k, u @ 58 # js_dec d @ 64 # server)] NoContent)"
    "encodeBinaryNode (Node t [(k, u @ 58 # js_dec d @ 64 # server)] NoContent) = Inr bs"
    "server \<notin> {HOST_DOMAIN, LID_SERVER, HOSTED_SERVER, HOSTED_LID_SERVER}"
    "u \<noteq> []" "64 \<notin> set u" "58 \<notin> set u" "server \<noteq> []" "64 \<notin> set server" "d \<le> 255"
  shows "decodeBinaryNode bs = Inr (Node t [(k, u @ 64 # server)] NoContent)"
proof -
  have "jid_domain_type server = None" using assms(3) by (auto simp: jid_domain_type_def)
  then have "canon_attr (u @ 58 # js_dec d @ 64 # server) = u @ 64 # server"
    using assms jid_shape_device [of u server d] by (simp add: canon_attr_def js_def)
  then show ?thesis
    using decodeBinaryNode_wire [OF assms(2) [unfolded encodeBinaryNode_wire] assms(1)] by simp
qed

theorem device_dropped_elsewhere_witness:
  "\<exists>bs. encodeBinaryNode (sample_leaf (js ''5:7@msgr'')) = Inr bs \<and>
    decodeBinaryNode bs = Inr (sample_leaf (js ''5@msgr''))"
proof -
  have jid: "sample_leaf (js ''5:7@msgr'') =
      Node (js ''iq'') [(js ''to'', js ''5'' @ 58 # js_dec 7 @ 64 # js ''msgr'')] NoContent"
    by (simp add: sample_leaf_def js_def js_dec.simps)
  obtain bs where bs: "encodeBinaryNode (sample_leaf (js ''5:7@msgr'')) = Inr bs"
    using sample_node_encoded by blast
  from device_dropped_elsewhere [OF sample_nodes(7) [unfolded jid] bs [unfolded jid]] bs
  show ?thesis by (simp add: jid sample_leaf_def server_defs js_def)
qed

end
