(* ===== verification/FrameCodec.thy ===== *)
theory FrameCodec
  imports Prelude
begin

text \<open>
  \<open>src/transport/noise/WaFrameCodec.ts\<close>: the codec that cuts the byte stream of the web socket
  into frames with a three byte length.  The state keeps the unfinished frame in \<open>buffered\<close>,
  which is either an array of its own (\<open>Own\<close>) or the preallocated \<open>tailScratch\<close>
  (\<open>Scratch\<close>); an in-place append to the latter writes into the scratch array.  A method that
  throws also returns the state it leaves behind.

  \<open>split_frames\<close> is the specification: it cuts a whole stream at once.  The locale
  \<open>chunked_source\<close> states what a client of an incremental splitter relies on and derives that
  the way the stream is cut into chunks does not matter; it is interpreted on the codec.
\<close>

datatype frame_error =
    InvalidMaxFrameLength int
  | MaxFrameLengthAboveLimit int
  | IncomingFrameTooLarge nat
  | FrameTooLarge nat

datatype buffer = Own bytes | Scratch

record codec =
  introFrame :: "bytes option"
  maxFrameLength :: nat
  tailScratch :: bytes
  introSent :: bool
  buffered :: buffer
  bufferedLength :: nat

definition WA_MAX_FRAME_LENGTH :: nat where
  "WA_MAX_FRAME_LENGTH = push_bit 24 1 - 1"

definition frameLength :: "bytes \<Rightarrow> nat" where
  "frameLength header =
    (push_bit 16 (unat (header ! 0)) OR push_bit 8 (unat (header ! 1))) OR unat (header ! 2)"

definition new_codec :: "bytes option \<Rightarrow> int \<Rightarrow> frame_error + codec" where
  "new_codec intro maxLength =
    (if int MAX_SAFE_INTEGER < maxLength \<or> maxLength \<le> 0 then Inl (InvalidMaxFrameLength maxLength)
     else if push_bit 24 1 \<le> maxLength then Inl (MaxFrameLengthAboveLimit maxLength)
     else Inr \<lparr>introFrame = (case intro of Some b \<Rightarrow> if 0 < length b then Some b else None | None \<Rightarrow> None),
       maxFrameLength = nat maxLength, tailScratch = replicate 4096 0, introSent = False,
       buffered = Own [], bufferedLength = 0\<rparr>)"

definition assertFrameLength :: "nat \<Rightarrow> nat \<Rightarrow> frame_error + unit" where
  "assertFrameLength maxLength len =
    (if len \<le> maxLength then Inr () else Inl (IncomingFrameTooLarge len))"

definition buffer_bytes :: "codec \<Rightarrow> bytes" where
  "buffer_bytes st = (case buffered st of Own b \<Rightarrow> b | Scratch \<Rightarrow> tailScratch st)"

definition appendBuffered :: "bytes \<Rightarrow> codec \<Rightarrow> codec" where
  "appendBuffered chunk st =
    (if length chunk = 0 then st
     else let len = bufferedLength st; nextLength = len + length chunk;
              st1 = (if len = 0 then st\<lparr>buffered := Own chunk\<rparr>
                else if length (buffer_bytes st) < nextLength then
                  st\<lparr>buffered := Own (u8_set
                    (u8_set (replicate (max nextLength (len * 2)) 0) (take len (buffer_bytes st)) 0)
                    chunk len)\<rparr>
                else case buffered st of
                    Own b \<Rightarrow> st\<lparr>buffered := Own (u8_set b chunk len)\<rparr>
                  | Scratch \<Rightarrow> st\<lparr>tailScratch := u8_set (tailScratch st) chunk len\<rparr>)
       in st1\<lparr>bufferedLength := nextLength\<rparr>)"

definition encodeFrame :: "bytes \<Rightarrow> codec \<Rightarrow> frame_error + bytes \<times> codec" where
  "encodeFrame frame st =
    (if maxFrameLength st < length frame then Inl (FrameTooLarge (length frame))
     else
       let header = [to_u8 (drop_bit 16 (length frame) AND 0xff),
             to_u8 (drop_bit 8 (length frame) AND 0xff), to_u8 (length frame AND 0xff)]
       in case introFrame st of
            Some intro \<Rightarrow>
              if \<not> introSent st then Inr (intro @ header @ frame, st\<lparr>introSent := True\<rparr>)
              else Inr (header @ frame, st\<lparr>introSent := True\<rparr>)
          | None \<Rightarrow> Inr (header @ frame, st\<lparr>introSent := True\<rparr>))"

subsection \<open>pushWireChunk\<close>

text \<open>
  A negative \<open>missing\<close> in the last case would need a buffered frame that is already complete,
  which \<open>codec_ok\<close> below excludes.  The \<open>while\<close> loop: the frames cut off from \<open>offset\<close> on and the offset where it stops.\<close>

function scan_loop :: "nat \<Rightarrow> bytes \<Rightarrow> nat \<Rightarrow> frame_error + bytes list \<times> nat" where
  "scan_loop maxLength chunk offset =
    (if length chunk < offset + 3 then Inr ([], offset)
     else
       let len = frameLength (subarray chunk offset (offset + 3)) in
       rbind (assertFrameLength maxLength len) (\<lambda>_.
         if length chunk - offset - 3 < len then Inr ([], offset)
         else let start = offset + 3; fin = start + len in
           rbind (scan_loop maxLength chunk fin)
             (\<lambda>(frames, stop). Inr (subarray chunk start fin # frames, stop))))"
  by pat_completeness auto
termination by (relation "measure (\<lambda>(_, chunk, offset). length chunk - offset)") auto

declare scan_loop.simps [simp del]

definition keep_rest :: "bytes \<Rightarrow> codec \<Rightarrow> codec" where
  "keep_rest rest st =
    (if length rest = 0 then st\<lparr>buffered := Own [], bufferedLength := 0\<rparr>
     else if length rest \<le> length (tailScratch st) then
       st\<lparr>tailScratch := u8_set (tailScratch st) rest 0, buffered := Scratch,
         bufferedLength := length rest\<rparr>
     else st\<lparr>buffered := Own rest, bufferedLength := length rest\<rparr>)"

text \<open>From \<open>const remainingChunk\<close> on; \<open>frames\<close> are those pushed before.\<close>

definition scan_rest :: "bytes list \<Rightarrow> bytes \<Rightarrow> codec \<Rightarrow> (frame_error + bytes list) \<times> codec" where
  "scan_rest frames remainingChunk st =
    (case scan_loop (maxFrameLength st) remainingChunk 0 of
       Inl e \<Rightarrow> (Inl e, st)
     | Inr (found, offset) \<Rightarrow> (Inr (frames @ found), keep_rest (drop offset remainingChunk) st))"

definition clear_buffer :: "codec \<Rightarrow> codec" where
  "clear_buffer st = st\<lparr>buffered := Own [], bufferedLength := 0\<rparr>"

definition pushWireChunk :: "bytes \<Rightarrow> codec \<Rightarrow> (frame_error + bytes list) \<times> codec" where
  "pushWireChunk chunk st =
    (if length chunk = 0 then (Inr [], st)
     else if bufferedLength st = 0 then scan_rest [] chunk st
     else if bufferedLength st < 3 then
       let missing = 3 - bufferedLength st in
       if length chunk < missing then (Inr [], appendBuffered chunk st)
       else
         let st1 = appendBuffered (subarray chunk 0 missing) st;
             len = frameLength (buffer_bytes st1) in
         (case assertFrameLength (maxFrameLength st) len of
            Inl e \<Rightarrow> (Inl e, st1)
          | Inr _ \<Rightarrow>
              if length chunk - missing < len then (Inr [], appendBuffered (drop missing chunk) st1)
              else scan_rest [subarray chunk missing (missing + len)] (drop (missing + len) chunk)
                (clear_buffer st1))
     else
       let len = frameLength (buffer_bytes st) in
       (case assertFrameLength (maxFrameLength st) len of
          Inl e \<Rightarrow> (Inl e, st)
        | Inr _ \<Rightarrow>
            let bufferedPayload = bufferedLength st - 3;
                missing = int len - int bufferedPayload in
            if int (length chunk) < missing then (Inr [], appendBuffered chunk st)
            else
              let frame =
                (if missing = 0 then take len (drop 3 (buffer_bytes st))
                 else if bufferedPayload = 0 then subarray chunk 0 (nat missing)
                 else u8_set (u8_set (replicate len 0)
                   (subarray (buffer_bytes st) 3 (bufferedLength st)) 0)
                   (subarray chunk 0 (nat missing)) bufferedPayload)
              in scan_rest [frame] (drop (nat missing) chunk) (clear_buffer st)))"

subsection \<open>The specification\<close>

function split_frames :: "nat \<Rightarrow> bytes \<Rightarrow> frame_error + bytes list \<times> bytes" where
  "split_frames maxLength bs =
    (if length bs < 3 then Inr ([], bs)
     else if maxLength < frameLength bs then Inl (IncomingFrameTooLarge (frameLength bs))
     else if length bs < 3 + frameLength bs then Inr ([], bs)
     else rbind (split_frames maxLength (drop (3 + frameLength bs) bs))
       (\<lambda>(frames, rest). Inr (take (frameLength bs) (drop 3 bs) # frames, rest)))"
  by pat_completeness auto
termination by (relation "measure (length \<circ> snd)") auto

declare split_frames.simps [simp del]

lemma split_frames_short [simp]: "length bs < 3 \<Longrightarrow> split_frames m bs = Inr ([], bs)"
  by (simp add: split_frames.simps)

lemma frameLength_take [simp]: "3 \<le> n \<Longrightarrow> frameLength (take n bs) = frameLength bs"
  by (simp add: frameLength_def)

lemma frameLength_append [simp]: "3 \<le> length bs \<Longrightarrow> frameLength (bs @ cs) = frameLength bs"
  by (auto simp: frameLength_def nth_append)

lemma split_frames_append:
  "split_frames m (bs @ cs) =
    rbind (split_frames m bs) (\<lambda>(frames, rest).
      rbind (split_frames m (rest @ cs)) (\<lambda>(later, rest'). Inr (frames @ later, rest')))"
proof (induction m bs rule: split_frames.induct)
  case (1 m bs)
  let ?n = "frameLength bs"
  have id: "x = rbind x (\<lambda>(fs, r). Inr (fs, r))" for x :: "frame_error + bytes list \<times> bytes"
    by (cases x) auto
  consider "length bs < 3" | "3 \<le> length bs" "m < ?n"
    | "3 \<le> length bs" "?n \<le> m" "length bs < 3 + ?n" | "3 + ?n \<le> length bs" "?n \<le> m"
    by linarith
  then show ?case
  proof cases
    case 1
    then show ?thesis using id by simp
  next
    case 2
    then show ?thesis by (simp add: split_frames.simps [of m bs] split_frames.simps [of m "bs @ cs"])
  next
    case 3
    then have "split_frames m bs = Inr ([], bs)" by (simp add: split_frames.simps [of m bs])
    then show ?thesis using id by simp
  next
    case 4
    have "split_frames m (bs @ cs) = rbind (split_frames m (drop (3 + ?n) bs @ cs))
        (\<lambda>(frames, rest). Inr (take ?n (drop 3 bs) # frames, rest))"
      using 4 by (simp add: split_frames.simps [of m "bs @ cs"])
    also have "\<dots> = rbind (split_frames m bs) (\<lambda>(frames, rest).
        rbind (split_frames m (rest @ cs)) (\<lambda>(later, rest'). Inr (frames @ later, rest')))"
      using 4 1 by (simp add: split_frames.simps [of m bs] rbind_assoc split_beta rbind_def
          split: sum.split)
    finally show ?thesis .
  qed
qed

lemma split_frames_rest:
  "split_frames m bs = Inr (frames, rest) \<Longrightarrow> split_frames m rest = Inr ([], rest)"
proof (induction m bs arbitrary: frames rule: split_frames.induct)
  case (1 m bs)
  let ?n = "frameLength bs"
  show ?case
  proof (cases "length bs < 3 \<or> m < ?n \<or> length bs < 3 + ?n")
    case True
    then have "rest = bs \<and> split_frames m bs = Inr ([], bs)"
      using 1(2) by (auto simp: split_frames.simps [of m bs] split: if_splits)
    then show ?thesis by simp
  next
    case False
    with 1 show ?thesis
      by (auto simp: split_frames.simps [of m bs] rbind_eq_Inr_iff not_less)
  qed
qed

subsection \<open>The codec implements it\<close>

definition pending :: "codec \<Rightarrow> bytes" where
  "pending st = take (bufferedLength st) (buffer_bytes st)"

definition codec_ok :: "codec \<Rightarrow> bool" where
  "codec_ok st \<longleftrightarrow> bufferedLength st \<le> length (buffer_bytes st) \<and>
    0 < length (tailScratch st) \<and>
    split_frames (maxFrameLength st) (pending st) = Inr ([], pending st)"

lemma length_pending: "bufferedLength st \<le> length (buffer_bytes st) \<Longrightarrow>
    length (pending st) = bufferedLength st"
  by (simp add: pending_def)

lemma appendBuffered_ok:
  assumes "bufferedLength st \<le> length (buffer_bytes st)"
  shows "pending (appendBuffered chunk st) = pending st @ chunk"
    "bufferedLength (appendBuffered chunk st) \<le> length (buffer_bytes (appendBuffered chunk st))"
    "bufferedLength (appendBuffered chunk st) = bufferedLength st + length chunk"
    "maxFrameLength (appendBuffered chunk st) = maxFrameLength st"
    "introFrame (appendBuffered chunk st) = introFrame st"
    "length (tailScratch (appendBuffered chunk st)) = length (tailScratch st)"
  using assms
  by (auto simp: appendBuffered_def Let_def pending_def buffer_bytes_def take_u8_set
      u8_set_def min_def split: buffer.splits if_splits)


lemma split_frames_suffix: "split_frames m bs = Inr (frames, rest) \<Longrightarrow> \<exists>pre. bs = pre @ rest"
proof (induction m bs arbitrary: frames rule: split_frames.induct)
  case (1 m bs)
  let ?n = "frameLength bs"
  show ?case
  proof (cases "length bs < 3 \<or> m < ?n \<or> length bs < 3 + ?n")
    case True
    with 1 show ?thesis by (auto simp: split_frames.simps [of m bs] split: if_splits)
  next
    case False
    with 1 obtain pre where "drop (3 + ?n) bs = pre @ rest"
      by (auto simp: split_frames.simps [of m bs] rbind_eq_Inr_iff not_less)
    then have "bs = (take (3 + ?n) bs @ pre) @ rest" by (metis append.assoc append_take_drop_id)
    then show ?thesis by blast
  qed
qed

lemma frameLength_subarray:
  "offset + 3 \<le> length chunk \<Longrightarrow>
    frameLength (subarray chunk offset (offset + 3)) = frameLength (drop offset chunk)"
  by (simp add: subarray_def frameLength_def add.commute)

lemma scan_loop_split:
  "offset \<le> length chunk \<Longrightarrow> scan_loop m chunk offset =
    rbind (split_frames m (drop offset chunk)) (\<lambda>(frames, rest). Inr (frames, length chunk - length rest))"
proof (induction m chunk offset rule: scan_loop.induct)
  case (1 m chunk offset)
  let ?n = "frameLength (drop offset chunk)"
  consider "length chunk < offset + 3" | "offset + 3 \<le> length chunk" "m < ?n"
    | "offset + 3 \<le> length chunk" "?n \<le> m" "length chunk < offset + 3 + ?n"
    | "offset + 3 + ?n \<le> length chunk" "?n \<le> m"
    by linarith
  then show ?case
  proof cases
    case 4
    let ?next = "offset + 3 + ?n"
    have sub: "subarray chunk (offset + 3) ?next = take ?n (drop 3 (drop offset chunk))"
      by (simp add: subarray_def drop_take add.commute)
    have "scan_loop m chunk ?next = rbind (split_frames m (drop ?next chunk))
        (\<lambda>(frames, rest). Inr (frames, length chunk - length rest))"
      using 4 by (intro "1.IH" [OF _ refl, simplified frameLength_subarray])
        (auto simp: frameLength_subarray assertFrameLength_def)
    moreover have "drop ?next chunk = drop (3 + ?n) (drop offset chunk)" by (simp add: add_ac)
    moreover have "scan_loop m chunk offset = rbind (scan_loop m chunk ?next)
        (\<lambda>(frames, stop). Inr (take ?n (drop 3 (drop offset chunk)) # frames, stop))"
    proof -
      have "\<not> length chunk < offset + 3" "\<not> length chunk - offset - 3 < ?n"
        using 4 by auto
      then show ?thesis
        using 4 by (subst scan_loop.simps)
          (simp only: Let_def frameLength_subarray assertFrameLength_def sub if_False if_True rbind_simps)
    qed
    moreover have "split_frames m (drop offset chunk) =
        rbind (split_frames m (drop (3 + ?n) (drop offset chunk)))
          (\<lambda>(frames, rest). Inr (take ?n (drop 3 (drop offset chunk)) # frames, rest))"
    proof -
      have "\<not> length (drop offset chunk) < 3" "\<not> m < ?n" "\<not> length (drop offset chunk) < 3 + ?n"
        using 4 by auto
      then show ?thesis by (subst split_frames.simps) (simp only: if_False)
    qed
    ultimately show ?thesis by (simp add: rbind_assoc split_beta)
  qed (use 1 in \<open>auto simp: scan_loop.simps [of m chunk offset] Let_def frameLength_subarray
      assertFrameLength_def split_frames.simps [of m "drop offset chunk"]\<close>)
qed

lemma scan_rest_split:
  "scan_rest frames chunk st =
    (case split_frames (maxFrameLength st) chunk of
       Inl e \<Rightarrow> (Inl e, st)
     | Inr (found, rest) \<Rightarrow> (Inr (frames @ found), keep_rest rest st))"
proof (cases "split_frames (maxFrameLength st) chunk")
  case (Inr res)
  then obtain found rest where res: "res = (found, rest)" by (cases res)
  then obtain pre where "chunk = pre @ rest" using Inr split_frames_suffix by blast
  with Inr res show ?thesis by (simp add: scan_rest_def scan_loop_split)
qed (simp add: scan_rest_def scan_loop_split)

lemma keep_rest_ok:
  assumes "0 < length (tailScratch st)" "split_frames (maxFrameLength st) bs = Inr (frames, rest)"
  shows "pending (keep_rest rest st) = rest" "codec_ok (keep_rest rest st)"
proof -
  show "pending (keep_rest rest st) = rest"
    by (simp add: keep_rest_def pending_def buffer_bytes_def u8_set_def)
  then show "codec_ok (keep_rest rest st)"
    using assms split_frames_rest [OF assms(2)]
    by (auto simp: codec_ok_def keep_rest_def buffer_bytes_def u8_set_def)
qed

lemma settings_kept [simp]:
  "maxFrameLength (keep_rest rest st) = maxFrameLength st"
  "maxFrameLength (clear_buffer st) = maxFrameLength st"
  "tailScratch (clear_buffer st) = tailScratch st"
  by (simp_all add: keep_rest_def clear_buffer_def)

text \<open>
  \<open>push_meets st all r\<close>: the result \<open>r\<close> of a push is what the specification says of the
  bytes \<open>all\<close> received since the last complete frame.
\<close>

definition push_meets :: "codec \<Rightarrow> bytes \<Rightarrow> (frame_error + bytes list) \<times> codec \<Rightarrow> bool" where
  "push_meets st all r \<longleftrightarrow>
    (case r of
       (Inl e, st') \<Rightarrow> split_frames (maxFrameLength st) all = Inl e
     | (Inr frames, st') \<Rightarrow> split_frames (maxFrameLength st) all = Inr (frames, pending st') \<and>
         codec_ok st' \<and> maxFrameLength st' = maxFrameLength st)"

lemma push_meets_scan:
  assumes "0 < length (tailScratch st')" "maxFrameLength st' = maxFrameLength st"
    "split_frames (maxFrameLength st) all =
      rbind (split_frames (maxFrameLength st) chunk) (\<lambda>(found, rest). Inr (frames @ found, rest))"
  shows "push_meets st all (scan_rest frames chunk st')"
  using assms keep_rest_ok [OF assms(1)]
  by (cases "split_frames (maxFrameLength st) chunk") (auto simp: push_meets_def scan_rest_split)

lemma push_meets_append:
  assumes "codec_ok st" "split_frames (maxFrameLength st) (pending st @ chunk) = Inr ([], pending st @ chunk)"
  shows "push_meets st (pending st @ chunk) (Inr [], appendBuffered chunk st)"
  using assms appendBuffered_ok [of st chunk] by (auto simp: push_meets_def codec_ok_def)

lemma push_meets_frame:
  assumes "0 < length (tailScratch st')" "maxFrameLength st' = maxFrameLength st"
    "3 + frameLength all \<le> length all" "frameLength all \<le> maxFrameLength st"
    "frame = take (frameLength all) (drop 3 all)" "chunk = drop (3 + frameLength all) all"
  shows "push_meets st all (scan_rest [frame] chunk st')"
  using assms by (intro push_meets_scan) (auto simp: split_frames.simps [of _ all])

lemma frameLength_buffer:
  "bufferedLength st \<le> length (buffer_bytes st) \<Longrightarrow> 3 \<le> bufferedLength st \<Longrightarrow>
    frameLength (buffer_bytes st) = frameLength (pending st)"
  by (simp add: pending_def)

lemma push_header:
  assumes ok: "codec_ok st" and c: "chunk \<noteq> []" "0 < bufferedLength st" "bufferedLength st < 3"
    "3 \<le> bufferedLength st + length chunk"
  shows "push_meets st (pending st @ chunk) (pushWireChunk chunk st)"
proof -
  let ?all = "pending st @ chunk"
  define k where "k = 3 - bufferedLength st"
  define st1 where "st1 = appendBuffered (subarray chunk 0 k) st"
  have bl: "bufferedLength st \<le> length (buffer_bytes st)" using ok by (simp add: codec_ok_def)
  have k: "k \<le> length chunk" "bufferedLength st + k = 3" using c by (simp_all add: k_def)
  note app = appendBuffered_ok [OF bl, of "subarray chunk 0 k", folded st1_def]
  have p1: "pending st1 = pending st @ take k chunk" "bufferedLength st1 = 3"
    using app k by (simp_all add: subarray_def)
  have all: "?all = pending st1 @ drop k chunk" by (simp add: p1)
  have lp1: "length (pending st1) = 3" using length_pending [OF app(2)] p1 by simp
  define n where "n = frameLength ?all"
  have n: "frameLength (buffer_bytes st1) = n"
    using frameLength_buffer [OF app(2)] p1(2) lp1 by (simp add: n_def all)
  have nn: "frameLength (pending st1) = n" using lp1 by (simp add: n_def all)
  have len: "length ?all = 3 + length (drop k chunk)" using lp1 by (simp add: all)
  have push: "pushWireChunk chunk st = (case assertFrameLength (maxFrameLength st) n of
      Inl e \<Rightarrow> (Inl e, st1)
    | Inr _ \<Rightarrow>
        if length chunk - k < n then (Inr [], appendBuffered (drop k chunk) st1)
        else scan_rest [subarray chunk k (k + n)] (drop (k + n) chunk) (clear_buffer st1))"
  proof -
    have "\<not> length chunk = 0" "\<not> bufferedLength st = 0" "\<not> length chunk < k" using c k by auto
    then show ?thesis
      by (simp only: pushWireChunk_def Let_def k_def [symmetric] st1_def [symmetric] n c(3)
          if_False if_True)
  qed
  consider "maxFrameLength st < n" | "n \<le> maxFrameLength st" "length chunk - k < n"
    | "n \<le> maxFrameLength st" "n \<le> length chunk - k" by linarith
  then show ?thesis
  proof cases
    case 1
    then show ?thesis
      using len by (simp add: push assertFrameLength_def push_meets_def n_def
          split_frames.simps [of _ ?all])
  next
    case 2
    have "split_frames (maxFrameLength st) ?all = Inr ([], ?all)"
      using 2 len by (simp add: split_frames.simps [of _ ?all] n_def)
    then show ?thesis
      using 2 appendBuffered_ok [OF app(2), of "drop k chunk"] app ok all
      by (auto simp: push assertFrameLength_def push_meets_def codec_ok_def)
  next
    case 3
    have "push_meets st ?all (scan_rest [subarray chunk k (k + n)] (drop (k + n) chunk)
        (clear_buffer st1))"
    proof (rule push_meets_frame)
      show "subarray chunk k (k + n) = take (frameLength ?all) (drop 3 ?all)"
        "drop (k + n) chunk = drop (3 + frameLength ?all) ?all"
        using lp1 nn by (simp_all add: all subarray_def drop_take add.commute)
    qed (use 3 len k app ok in \<open>auto simp: n_def codec_ok_def\<close>)
    with 3 show ?thesis by (simp add: push assertFrameLength_def)
  qed
qed

lemma push_payload:
  assumes ok: "codec_ok st" and c: "chunk \<noteq> []" "3 \<le> bufferedLength st"
  shows "push_meets st (pending st @ chunk) (pushWireChunk chunk st)"
proof -
  let ?all = "pending st @ chunk"
  have bl: "bufferedLength st \<le> length (buffer_bytes st)" using ok by (simp add: codec_ok_def)
  note lp = length_pending [OF bl]
  define n where "n = frameLength ?all"
  have n: "frameLength (buffer_bytes st) = n" "frameLength (pending st) = n"
    using frameLength_buffer [OF bl c(2)] lp c(2) by (simp_all add: n_def)
  have fits: "n \<le> maxFrameLength st" and less: "bufferedLength st < 3 + n"
    using ok lp c(2) n by (auto simp: codec_ok_def split_frames.simps [of _ "pending st"]
        rbind_eq_Inr_iff split: if_splits)
  define m where "m = 3 + n - bufferedLength st"
  have m: "0 < m" "m + (bufferedLength st - 3) = n" "int n - int (bufferedLength st - 3) = int m"
    using less c(2) by (simp_all add: m_def)
  have m': "n + 3 - bufferedLength st = m" by (simp add: m_def)
  define payload where "payload = subarray (buffer_bytes st) 3 (bufferedLength st)"
  have payload: "payload = drop 3 (pending st)" by (simp add: payload_def subarray_def pending_def)
  define frame where "frame = (if bufferedLength st - 3 = 0 then subarray chunk 0 m
    else u8_set (u8_set (replicate n 0) payload 0) (subarray chunk 0 m) (bufferedLength st - 3))"
  have push: "pushWireChunk chunk st = (if length chunk < m then (Inr [], appendBuffered chunk st)
      else scan_rest [frame] (drop m chunk) (clear_buffer st))"
    using c m fits unfolding frame_def payload_def
    by (cases "bufferedLength st = 3")
      (simp_all add: pushWireChunk_def Let_def n assertFrameLength_def del: of_nat_diff)
  show ?thesis
  proof (cases "length chunk < m")
    case True
    then have "split_frames (maxFrameLength st) ?all = Inr ([], ?all)"
      using fits lp c(2) m by (simp add: split_frames.simps [of _ ?all] n_def [symmetric] m_def)
    then show ?thesis using True push_meets_append [OF ok] by (simp add: push)
  next
    case False
    have plen: "length payload = bufferedLength st - 3" using lp by (simp add: payload)
    have frame: "frame = payload @ take m chunk"
      using False m plen by (auto simp: frame_def subarray_def u8_set_def)
    have "push_meets st ?all (scan_rest [frame] (drop m chunk) (clear_buffer st))"
    proof (rule push_meets_frame)
      show "frame = take (frameLength ?all) (drop 3 ?all)"
        using lp c(2) m plen False by (simp add: frame n_def [symmetric] payload m')
      show "drop m chunk = drop (3 + frameLength ?all) ?all"
        using lp less by (simp add: n_def [symmetric] m_def)
    qed (use False m lp c fits ok in \<open>auto simp: n_def [symmetric] codec_ok_def\<close>)
    with False show ?thesis by (simp add: push)
  qed
qed

lemma pushWireChunk_meets:
  assumes ok: "codec_ok st"
  shows "push_meets st (pending st @ chunk) (pushWireChunk chunk st)"
proof -
  let ?all = "pending st @ chunk" and ?len = "bufferedLength st"
  have bl: "?len \<le> length (buffer_bytes st)" and scratch: "0 < length (tailScratch st)"
    using ok by (simp_all add: codec_ok_def)
  note lp = length_pending [OF bl]
  consider (empty) "chunk = []" | (fresh) "chunk \<noteq> []" "?len = 0"
    | (short) "chunk \<noteq> []" "0 < ?len" "?len + length chunk < 3"
    | (header) "chunk \<noteq> []" "0 < ?len" "?len < 3" "3 \<le> ?len + length chunk"
    | (payload) "chunk \<noteq> []" "3 \<le> ?len"
    by fastforce
  then show ?thesis
  proof cases
    case empty
    with ok show ?thesis by (simp add: pushWireChunk_def push_meets_def codec_ok_def)
  next
    case fresh
    then show ?thesis
      using scratch lp push_meets_scan [OF scratch refl, of ?all ?all "[]"]
      by (auto simp: pushWireChunk_def rbind_def split: sum.split)
  next
    case short
    then show ?thesis
      using lp push_meets_append [OF ok, of chunk] by (auto simp: pushWireChunk_def Let_def)
  next
    case header
    then show ?thesis by (rule push_header [OF ok])
  next
    case payload
    then show ?thesis by (rule push_payload [OF ok])
  qed
qed

subsection \<open>Chunked sources\<close>

text \<open>The reads of a socket: every chunk is pushed, the first error ends the connection.\<close>

fun push_all :: "('c \<Rightarrow> 's \<Rightarrow> ('e + 'f list) \<times> 's) \<Rightarrow> 'c list \<Rightarrow> 's \<Rightarrow> ('e + 'f list) \<times> 's" where
  "push_all push [] st = (Inr [], st)"
| "push_all push (chunk # chunks) st =
    (case push chunk st of
       (Inl e, st1) \<Rightarrow> (Inl e, st1)
     | (Inr frames, st1) \<Rightarrow>
         (case push_all push chunks st1 of
            (Inl e, st2) \<Rightarrow> (Inl e, st2)
          | (Inr later, st2) \<Rightarrow> (Inr (frames @ later), st2)))"

locale chunked_source =
  fixes push :: "'c list \<Rightarrow> 's \<Rightarrow> ('e + 'f list) \<times> 's"
    and rest :: "'s \<Rightarrow> 'c list"
    and cfg :: "'s \<Rightarrow> 'k"
    and ok :: "'s \<Rightarrow> bool"
    and split :: "'k \<Rightarrow> 'c list \<Rightarrow> 'e + 'f list \<times> 'c list"
  assumes split_append: "split k (xs @ ys) =
      rbind (split k xs) (\<lambda>(fs, r). rbind (split k (r @ ys)) (\<lambda>(gs, r'). Inr (fs @ gs, r')))"
    and split_rest: "ok st \<Longrightarrow> split (cfg st) (rest st) = Inr ([], rest st)"
    and push_error: "ok st \<Longrightarrow> push c st = (Inl e, st') \<Longrightarrow> split (cfg st) (rest st @ c) = Inl e"
    and push_frames: "ok st \<Longrightarrow> push c st = (Inr fs, st') \<Longrightarrow>
      split (cfg st) (rest st @ c) = Inr (fs, rest st') \<and> ok st' \<and> cfg st' = cfg st"
begin

lemma push_all_split:
  "ok st \<Longrightarrow> case push_all push chunks st of
      (Inl e, st') \<Rightarrow> split (cfg st) (rest st @ concat chunks) = Inl e
    | (Inr fs, st') \<Rightarrow> split (cfg st) (rest st @ concat chunks) = Inr (fs, rest st') \<and> ok st'"
proof (induction chunks arbitrary: st)
  case Nil
  then show ?case by (simp add: split_rest)
next
  case (Cons c cs)
  obtain r st1 where p: "push c st = (r, st1)" by (cases "push c st")
  show ?case
  proof (cases r)
    case (Inl e)
    then have "split (cfg st) ((rest st @ c) @ concat cs) = Inl e"
      using push_error [OF Cons.prems] p Inl by (subst split_append) simp
    with Inl p show ?thesis by simp
  next
    case (Inr fs)
    then have f: "split (cfg st) (rest st @ c) = Inr (fs, rest st1)" "ok st1" "cfg st1 = cfg st"
      using push_frames Cons.prems p by auto
    have "split (cfg st) ((rest st @ c) @ concat cs) =
        rbind (split (cfg st) (rest st1 @ concat cs)) (\<lambda>(gs, r'). Inr (fs @ gs, r'))"
      by (subst split_append) (simp add: f)
    then show ?thesis
      using Cons.IH [OF f(2)] f(3) p Inr by (auto split: prod.splits sum.splits)
  qed
qed

lemma chunking_irrelevant:
  assumes "ok st" "concat cs = concat ds"
  shows "fst (push_all push cs st) = fst (push_all push ds st)"
  using push_all_split [OF assms(1), of cs] push_all_split [OF assms(1), of ds] assms(2)
  by (auto split: prod.splits sum.splits)

end

interpretation frames: chunked_source pushWireChunk pending maxFrameLength codec_ok split_frames
proof
  fix st c e st'
  assume "codec_ok st" "pushWireChunk c st = (Inl e, st')"
  then show "split_frames (maxFrameLength st) (pending st @ c) = Inl e"
    using pushWireChunk_meets [of st c] by (simp add: push_meets_def)
next
  fix st c fs st'
  assume "codec_ok st" "pushWireChunk c st = (Inr fs, st')"
  then show "split_frames (maxFrameLength st) (pending st @ c) = Inr (fs, pending st') \<and>
      codec_ok st' \<and> maxFrameLength st' = maxFrameLength st"
    using pushWireChunk_meets [of st c] by (simp add: push_meets_def)
next
  fix m xs ys
  show "split_frames m (xs @ ys) = rbind (split_frames m xs) (\<lambda>(fs, r).
      rbind (split_frames m (r @ ys)) (\<lambda>(gs, r'). Inr (fs @ gs, r')))"
    by (rule split_frames_append)
qed (simp add: codec_ok_def)

subsection \<open>Encoding\<close>

definition frame_wire :: "bytes \<Rightarrow> bytes" where
  "frame_wire frame = [to_u8 (length frame div 65536), to_u8 (length frame div 256),
    to_u8 (length frame)] @ frame"

definition intro_prefix :: "codec \<Rightarrow> bytes" where
  "intro_prefix st = (case introFrame st of Some intro \<Rightarrow> if introSent st then [] else intro | None \<Rightarrow> [])"

fun encode_frames :: "bytes list \<Rightarrow> codec \<Rightarrow> frame_error + bytes \<times> codec" where
  "encode_frames [] st = Inr ([], st)"
| "encode_frames (frame # frames) st =
    rbind (encodeFrame frame st) (\<lambda>(out, st1).
      rbind (encode_frames frames st1) (\<lambda>(later, st2). Inr (out @ later, st2)))"

lemma encodeFrame_eq:
  "encodeFrame frame st =
    (if maxFrameLength st < length frame then Inl (FrameTooLarge (length frame))
     else Inr (intro_prefix st @ frame_wire frame, st\<lparr>introSent := True\<rparr>))"
  by (auto simp: encodeFrame_def frame_wire_def intro_prefix_def Let_def and_255 drop_bit_eq_div
      split: option.split)

lemma encode_frames_eq:
  "encode_frames frames st = Inr (wire, st') \<Longrightarrow>
    wire = (if frames = [] then [] else intro_prefix st) @ concat (map frame_wire frames) \<and>
    (\<forall>frame \<in> set frames. length frame \<le> maxFrameLength st)"
proof (induction frames arbitrary: st wire)
  case (Cons frame frames)
  then obtain later where later: "length frame \<le> maxFrameLength st"
      "encode_frames frames (st\<lparr>introSent := True\<rparr>) = Inr (later, st')"
      "wire = (intro_prefix st @ frame_wire frame) @ later"
    by (auto simp: encodeFrame_eq rbind_eq_Inr_iff split: if_splits)
  have "intro_prefix (st\<lparr>introSent := True\<rparr>) = []"
    by (simp add: intro_prefix_def split: option.split)
  with Cons.IH [OF later(2)] later show ?case by simp
qed simp

lemma frameLength_wire:
  assumes "length frame < 2 ^ 24"
  shows "frameLength (frame_wire frame @ bs) = length frame"
proof -
  let ?n = "length frame"
  have 1: "?n div 65536 = ?n div 256 div 256" by (simp add: div_mult2_eq [symmetric])
  have lt: "?n div 256 div 256 < 256"
    using assms by (simp add: div_mult2_eq [symmetric] less_mult_imp_div_less)
  have "(push_bit 16 (?n div 256 div 256) OR push_bit 8 (?n div 256 mod 256)) OR ?n mod 256
      = push_bit 8 (push_bit 8 (?n div 256 div 256) OR ?n div 256 mod 256) OR ?n mod 256"
    by (simp add: push_bit_or)
  also have "\<dots> = ?n"
    using or_shift_nat [of "?n div 256 mod 256" 8 "?n div 256 div 256"]
      or_shift_nat [of "?n mod 256" 8 "?n div 256"] by simp
  finally show ?thesis using lt unfolding 1 by (simp add: frameLength_def frame_wire_def 1)
qed

lemma split_frames_wire:
  assumes "\<forall>frame \<in> set frames. length frame \<le> m" "m < 2 ^ 24"
  shows "split_frames m (concat (map frame_wire frames)) = Inr (frames, [])"
  using assms
proof (induction frames)
  case (Cons frame frames)
  let ?bs = "frame_wire frame @ concat (map frame_wire frames)"
  have n: "frameLength ?bs = length frame"
    using Cons.prems by (intro frameLength_wire) auto
  have "drop (3 + length frame) ?bs = concat (map frame_wire frames)"
    "take (length frame) (drop 3 ?bs) = frame" "3 + length frame \<le> length ?bs"
    by (simp_all add: frame_wire_def numeral_3_eq_3)
  then show ?case
    using Cons n by (simp add: split_frames.simps [of m ?bs])
qed simp

lemma new_codec_ok:
  assumes "new_codec intro m = Inr st"
  shows "codec_ok st" "pending st = []" "maxFrameLength st = nat m" "nat m < 2 ^ 24"
    "introFrame st = (if intro = Some [] then None else intro)" "\<not> introSent st"
  using assms
  by (auto simp: new_codec_def codec_ok_def pending_def buffer_bytes_def push_bit_eq_mult
      split: if_splits option.splits)

subsection \<open>Properties\<close>

text \<open>
  C24: A push on a codec in a reachable state refines cutting the stream at once: it returns the
  frames that the bytes received so far complete and keeps exactly the unfinished rest, or throws
  at the first length above the limit; the invariant and the limit are kept.
\<close>

theorem pushWireChunk_refines:
  assumes "codec_ok st"
  shows "case pushWireChunk chunk st of
      (Inl e, st') \<Rightarrow> split_frames (maxFrameLength st) (pending st @ chunk) = Inl e
    | (Inr frames, st') \<Rightarrow> split_frames (maxFrameLength st) (pending st @ chunk) = Inr (frames, pending st') \<and>
        codec_ok st' \<and> maxFrameLength st' = maxFrameLength st"
  using pushWireChunk_meets [OF assms] by (simp add: push_meets_def)

definition sample_codec :: codec where
  "sample_codec = \<lparr>introFrame = None, maxFrameLength = 1000, tailScratch = replicate 4096 0,
     introSent = False, buffered = Own [], bufferedLength = 0\<rparr>"

lemma sample_codec_new: "new_codec None 1000 = Inr sample_codec"
  by (simp add: new_codec_def sample_codec_def MAX_SAFE_INTEGER_def push_bit_eq_mult)

theorem pushWireChunk_refines_witness:
  "case pushWireChunk [0, 0, 2, 7, 8, 0] sample_codec of
      (Inl e, st') \<Rightarrow> split_frames 1000 [0, 0, 2, 7, 8, 0] = Inl e
    | (Inr frames, st') \<Rightarrow> split_frames 1000 [0, 0, 2, 7, 8, 0] = Inr (frames, pending st') \<and>
        codec_ok st' \<and> maxFrameLength st' = 1000"
  using pushWireChunk_refines [OF new_codec_ok(1) [OF sample_codec_new], of "[0, 0, 2, 7, 8, 0]"]
    new_codec_ok [OF sample_codec_new] by (auto split: prod.splits sum.splits)

text \<open>
  C26: How the network cuts the stream into chunks does not matter: from any reachable state, two
  sequences of chunks with the same bytes give the same frames or the same error.
\<close>

theorem frame_chunking_irrelevant:
  assumes "codec_ok st" "concat chunks = concat chunks'"
  shows "fst (push_all pushWireChunk chunks st) = fst (push_all pushWireChunk chunks' st)"
  using assms by (rule frames.chunking_irrelevant)

theorem frame_chunking_irrelevant_witness:
  "fst (push_all pushWireChunk [[0], [0, 1, 7, 0], [0]] sample_codec) =
    fst (push_all pushWireChunk [[0, 0, 1], [7, 0, 0]] sample_codec)"
  by (rule frame_chunking_irrelevant [OF new_codec_ok(1) [OF sample_codec_new]]) simp

text \<open>
  What one codec encodes, another one cuts back into the same frames, in whatever chunks the
  bytes arrive, and the intro bytes stand once, before the first frame.
\<close>

theorem frame_roundtrip:
  assumes "new_codec intro m = Inr a" "new_codec intro' m' = Inr b" "m \<le> m'"
    "encode_frames frames a = Inr (wire, a')" "frames \<noteq> []"
  shows "\<exists>body. wire = (case intro of Some bs \<Rightarrow> bs | None \<Rightarrow> []) @ body \<and>
    (\<forall>chunks. concat chunks = body \<longrightarrow> fst (push_all pushWireChunk chunks b) = Inr frames)"
proof -
  let ?body = "concat (map frame_wire frames)"
  note a = new_codec_ok [OF assms(1)] and b = new_codec_ok [OF assms(2)]
  have wire: "wire = intro_prefix a @ ?body" "\<forall>frame \<in> set frames. length frame \<le> maxFrameLength b"
    using encode_frames_eq [OF assms(4)] assms(3,5) a(3) b(3) by (auto intro: order_trans)
  have "intro_prefix a = (case intro of Some bs \<Rightarrow> bs | None \<Rightarrow> [])"
    using a(5,6) by (auto simp: intro_prefix_def split: option.split)
  moreover have "fst (push_all pushWireChunk chunks b) = Inr frames" if "concat chunks = ?body" for chunks
    using frames.push_all_split [OF b(1), of chunks] that b wire(2)
      split_frames_wire [OF wire(2)] by (auto split: prod.splits sum.splits)
  ultimately show ?thesis using wire(1) by blast
qed

theorem frame_roundtrip_witness:
  "\<exists>a wire a'. new_codec (Some [87, 65]) 1000 = Inr a \<and> encode_frames [[1, 2], [], [3]] a = Inr (wire, a') \<and>
    (\<exists>body. wire = [87, 65] @ body \<and>
      (\<forall>chunks. concat chunks = body \<longrightarrow>
        fst (push_all pushWireChunk chunks sample_codec) = Inr [[1, 2], [], [3]]))"
proof -
  obtain a where a: "new_codec (Some [87, 65]) 1000 = Inr a"
    by (simp add: new_codec_def MAX_SAFE_INTEGER_def push_bit_eq_mult)
  then have "maxFrameLength a = 1000" using new_codec_ok by simp
  then obtain wire a' where "encode_frames [[1, 2], [], [3]] a = Inr (wire, a')"
    by (simp add: encodeFrame_eq)
  with frame_roundtrip [OF a sample_codec_new order.refl this] a show ?thesis by auto
qed

end
