(* ===== verification/MessageChain.thy ===== *)
theory MessageChain
  imports Prelude
begin

text \<open>
  The receiving side of a symmetric key chain, as the sender key and the session ratchet of
  Signal both use it.  The chain has a position, a chain key for it and a bounded list of
  message keys that were skipped.  The locale \<open>skipping_chain\<close> states what a selection of the key
  for one message does (too far ahead, stale, stored, ahead); from these laws the theory
  derives what the callers rely on: the key a selection returns is the one the sender used, a
  key is never handed out twice, the list stays bounded, and messages may arrive in any order
  within the window.  It is interpreted in the theories SenderKeyChain and SignalRatchet.
\<close>

text \<open>The message key number \<open>i\<close> of the chain that starts with the chain key \<open>k0\<close>.\<close>

definition ideal_key :: "('k \<Rightarrow> 'k) \<Rightarrow> (nat \<Rightarrow> 'k \<Rightarrow> 'm) \<Rightarrow> 'k \<Rightarrow> nat \<Rightarrow> 'm" where
  "ideal_key nxt mk k0 i = mk i ((nxt ^^ i) k0)"

definition last_n :: "nat \<Rightarrow> 'a list \<Rightarrow> 'a list" where
  "last_n n xs = drop (length xs - n) xs"

lemma length_last_n [simp]: "length (last_n n xs) = min n (length xs)"
  by (simp add: last_n_def min_def)

lemma last_n_all: "length xs \<le> n \<Longrightarrow> last_n n xs = xs"
  by (simp add: last_n_def)

lemma set_last_n: "set (last_n n xs) \<subseteq> set xs"
  by (simp add: last_n_def set_drop_subset)

lemma distinct_last_n: "distinct (map f xs) \<Longrightarrow> distinct (map f (last_n n xs))"
  by (simp add: last_n_def drop_map [symmetric])

text \<open>A selection per arriving message; one that fails leaves the chain as it was.\<close>

fun select_all :: "('s \<Rightarrow> nat \<Rightarrow> 'e + 'm \<times> 's) \<Rightarrow> nat list \<Rightarrow> 's \<Rightarrow> ('e + 'm) list \<times> 's" where
  "select_all sel [] s = ([], s)"
| "select_all sel (t # ts) s =
    (case sel s t of
       Inl e \<Rightarrow> (case select_all sel ts s of (rs, s') \<Rightarrow> (Inl e # rs, s'))
     | Inr (m, s1) \<Rightarrow> (case select_all sel ts s1 of (rs, s') \<Rightarrow> (Inr m # rs, s')))"

lemma length_select_all [simp]: "length (fst (select_all sel ts s)) = length ts"
  by (induction sel ts s rule: select_all.induct) (auto split: sum.split prod.split)

text \<open>
  \<open>chain_tracks\<close>: the state belongs to the chain that started with \<open>k0\<close>: its key is the one for
  its position, the stored keys are keys of the chain for earlier positions, one for each.
\<close>

definition chain_tracks ::
    "('k \<Rightarrow> 'k) \<Rightarrow> (nat \<Rightarrow> 'k \<Rightarrow> 'm) \<Rightarrow> ('m \<Rightarrow> nat) \<Rightarrow> nat \<Rightarrow> 'k \<Rightarrow> nat \<Rightarrow> 'k \<Rightarrow> 'm list \<Rightarrow> bool" where
  "chain_tracks nxt mk idx cap k0 pos key unused \<longleftrightarrow> key = (nxt ^^ pos) k0 \<and>
    (\<forall>m \<in> set unused. idx m < pos \<and> m = ideal_key nxt mk k0 (idx m)) \<and>
    distinct (map idx unused) \<and> length unused \<le> cap"

locale skipping_chain =
  fixes nxt :: "'k \<Rightarrow> 'k"
    and mk :: "nat \<Rightarrow> 'k \<Rightarrow> 'm"
    and idx :: "'m \<Rightarrow> nat"
    and pos :: "'s \<Rightarrow> nat"
    and key :: "'s \<Rightarrow> 'k"
    and unused :: "'s \<Rightarrow> 'm list"
    and ok :: "'s \<Rightarrow> bool"
    and select :: "'s \<Rightarrow> nat \<Rightarrow> 'e + 'm \<times> 's"
    and limit :: nat
    and cap :: nat
    and valid :: "nat \<Rightarrow> bool"
  assumes idx_mk: "idx (mk i k) = i"
    and select_future: "ok s \<Longrightarrow> pos s + limit < t \<Longrightarrow> \<exists>e. select s t = Inl e"
    and select_stale: "ok s \<Longrightarrow> t < pos s \<Longrightarrow> t \<notin> idx ` set (unused s) \<Longrightarrow> \<exists>e. select s t = Inl e"
    and select_stored: "ok s \<Longrightarrow> t < pos s \<Longrightarrow> unused s = xs @ m # ys \<Longrightarrow> idx m = t \<Longrightarrow>
      t \<notin> idx ` set xs \<Longrightarrow> \<exists>s'. select s t = Inr (m, s') \<and> ok s' \<and> pos s' = pos s \<and>
        key s' = key s \<and> unused s' = xs @ ys"
    and select_ahead: "ok s \<Longrightarrow> valid t \<Longrightarrow> pos s \<le> t \<Longrightarrow> t \<le> pos s + limit \<Longrightarrow>
      \<exists>s'. select s t = Inr (mk t ((nxt ^^ (t - pos s)) (key s)), s') \<and> ok s' \<and>
        pos s' = Suc t \<and> key s' = (nxt ^^ (Suc t - pos s)) (key s) \<and>
        unused s' = (if t = pos s then unused s else last_n cap
          (unused s @ map (\<lambda>i. mk i ((nxt ^^ (i - pos s)) (key s))) [pos s..<t]))"
begin

definition tracks :: "'k \<Rightarrow> 's \<Rightarrow> bool" where
  "tracks k0 s \<longleftrightarrow> ok s \<and> chain_tracks nxt mk idx cap k0 (pos s) (key s) (unused s)"

definition spent :: "'s \<Rightarrow> nat \<Rightarrow> bool" where
  "spent s t \<longleftrightarrow> t < pos s \<and> t \<notin> idx ` set (unused s)"

lemma funpow_ahead: "p \<le> i \<Longrightarrow> (nxt ^^ (i - p)) ((nxt ^^ p) k0) = (nxt ^^ i) k0"
  by (metis comp_apply funpow_add le_add_diff_inverse2)

lemma skipped_keys:
  assumes "tracks k0 s"
  shows "map (\<lambda>i. mk i ((nxt ^^ (i - pos s)) (key s))) [pos s..<t] =
    map (ideal_key nxt mk k0) [pos s..<t]"
  using assms by (auto simp: tracks_def chain_tracks_def ideal_key_def funpow_ahead)

lemma stored_split:
  assumes "t \<in> idx ` set (unused s)"
  obtains xs m ys where "unused s = xs @ m # ys" "idx m = t" "t \<notin> idx ` set xs"
proof -
  have "\<exists>m \<in> set (unused s). idx m = t" using assms by auto
  from split_list_first_prop [OF this] show thesis using that by fastforce
qed

text \<open>One selection on a tracking state: the four cases.\<close>

lemma select_cases:
  assumes "tracks k0 s" "valid t"
  obtains (future) e where "pos s + limit < t" "select s t = Inl e"
  | (stale) e where "spent s t" "select s t = Inl e"
  | (stored) xs ys s' where "t < pos s" "unused s = xs @ ideal_key nxt mk k0 t # ys"
      "select s t = Inr (ideal_key nxt mk k0 t, s')" "ok s'" "pos s' = pos s" "key s' = key s"
      "unused s' = xs @ ys"
  | (ahead) s' where "pos s \<le> t" "t \<le> pos s + limit"
      "select s t = Inr (ideal_key nxt mk k0 t, s')" "ok s'" "pos s' = Suc t"
      "key s' = (nxt ^^ Suc t) k0"
      "unused s' = (if t = pos s then unused s else
        last_n cap (unused s @ map (ideal_key nxt mk k0) [pos s..<t]))"
proof -
  have ok: "ok s" and key: "key s = (nxt ^^ pos s) k0"
    and entry: "\<And>m. m \<in> set (unused s) \<Longrightarrow> m = ideal_key nxt mk k0 (idx m)"
    using assms by (auto simp: tracks_def chain_tracks_def)
  consider "pos s + limit < t" | "pos s \<le> t" "t \<le> pos s + limit"
    | "t < pos s" "t \<notin> idx ` set (unused s)" | "t < pos s" "t \<in> idx ` set (unused s)"
    by linarith
  then show thesis
  proof cases
    case 1
    with select_future [OF ok] show thesis using future by blast
  next
    case 2
    have "(nxt ^^ (i - pos s)) (key s) = (nxt ^^ i) k0" if "pos s \<le> i" for i
      using funpow_ahead [OF that] key by simp
    with 2 select_ahead [OF ok assms(2) 2, unfolded skipped_keys [OF assms(1)]] show thesis
      by (auto simp: ideal_key_def [of _ _ _ t] intro!: ahead)
  next
    case 3
    with select_stale [OF ok] show thesis using stale by (auto simp: spent_def)
  next
    case 4
    then obtain xs m ys where u: "unused s = xs @ m # ys" "idx m = t" "t \<notin> idx ` set xs"
      using stored_split by blast
    with entry [of m] have m: "m = ideal_key nxt mk k0 t" by simp
    from select_stored [OF ok 4(1) u] obtain s' where "select s t = Inr (m, s')" "ok s'"
        "pos s' = pos s" "key s' = key s" "unused s' = xs @ ys" by blast
    with u 4(1) show thesis unfolding m by (intro stored)
  qed
qed

lemma select_keeps:
  assumes "tracks k0 s" "select s t = Inr (m, s')" "valid t"
  shows "m = ideal_key nxt mk k0 t" "tracks k0 s'" "spent s' t"
    "\<And>u. spent s u \<Longrightarrow> spent s' u"
proof -
  have idx: "idx (ideal_key nxt mk k0 i) = i" for i by (simp add: ideal_key_def idx_mk)
  have t: "\<And>m. m \<in> set (unused s) \<Longrightarrow> idx m < pos s \<and> m = ideal_key nxt mk k0 (idx m)"
    "distinct (map idx (unused s))" "length (unused s) \<le> cap"
    using assms(1) by (auto simp: tracks_def chain_tracks_def)
  have "m = ideal_key nxt mk k0 t \<and> tracks k0 s' \<and> spent s' t \<and> (\<forall>u. spent s u \<longrightarrow> spent s' u)"
    using assms(1,3)
  proof (cases rule: select_cases [where t = t])
    case (stored xs ys s'')
    then show ?thesis
      using assms t idx [of t] by (auto simp: tracks_def chain_tracks_def spent_def)
  next
    case (ahead s'')
    let ?new = "unused s @ map (ideal_key nxt mk k0) [pos s..<t]"
    have new: "\<forall>m \<in> set ?new. idx m < Suc t \<and> m = ideal_key nxt mk k0 (idx m) \<and> idx m \<noteq> t"
      "distinct (map idx ?new)"
      using t ahead(1) by (fastforce simp: idx comp_def)+
    have "set (unused s'') \<subseteq> set ?new" "distinct (map idx (unused s''))" "length (unused s'') \<le> cap"
      using ahead(7) t(2,3) new(2) distinct_last_n [of idx ?new cap] set_last_n [of cap ?new] by auto
    with new(1) have u: "\<forall>m \<in> set (unused s''). idx m < Suc t \<and> m = ideal_key nxt mk k0 (idx m) \<and> idx m \<noteq> t"
      by blast
    have "u \<notin> idx ` set (unused s'')" if "spent s u" for u
      using that \<open>set (unused s'') \<subseteq> set ?new\<close> by (auto simp: spent_def idx)
    with u ahead \<open>distinct (map idx (unused s''))\<close> \<open>length (unused s'') \<le> cap\<close> assms(2)
    show ?thesis by (auto simp: tracks_def chain_tracks_def spent_def)
  qed (use assms in auto)
  then show "m = ideal_key nxt mk k0 t" "tracks k0 s'" "spent s' t" "\<And>u. spent s u \<Longrightarrow> spent s' u"
    by blast+
qed

lemma spent_fails: "tracks k0 s \<Longrightarrow> spent s t \<Longrightarrow> \<exists>e. select s t = Inl e"
  using select_stale by (auto simp: spent_def tracks_def)

lemma spent_all_fails:
  "tracks k0 s \<Longrightarrow> spent s u \<Longrightarrow> i < length ts \<Longrightarrow> ts ! i = u \<Longrightarrow>
    \<forall>t \<in> set ts. valid t \<Longrightarrow> \<exists>e. fst (select_all select ts s) ! i = Inl e"
proof (induction ts arbitrary: s i)
  case (Cons t ts)
  show ?case
  proof (cases "select s t")
    case (Inl e)
    with Cons show ?thesis by (cases i) (auto simp: split_beta)
  next
    case (Inr ms)
    then obtain m s1 where ms: "select s t = Inr (m, s1)" by (cases ms) auto
    from select_keeps [OF Cons.prems(1) ms] Cons.prems(2,5) have "tracks k0 s1" "spent s1 u" by auto
    moreover have "t \<noteq> u" using spent_fails [OF Cons.prems(1,2)] ms by auto
    ultimately show ?thesis using Cons ms by (cases i) (auto simp: split_beta)
  qed
qed simp

lemma select_all_keys:
  "tracks k0 s \<Longrightarrow> i < length ts \<Longrightarrow> fst (select_all select ts s) ! i = Inr m \<Longrightarrow>
    \<forall>t \<in> set ts. valid t \<Longrightarrow> m = ideal_key nxt mk k0 (ts ! i)"
proof (induction ts arbitrary: s i)
  case (Cons t ts)
  show ?case
  proof (cases "select s t")
    case (Inl e)
    with Cons show ?thesis by (cases i) (auto simp: split_beta)
  next
    case (Inr ms)
    then obtain m1 s1 where ms: "select s t = Inr (m1, s1)" by (cases ms) auto
    from select_keeps(1,2) [OF Cons.prems(1) ms] Cons ms show ?thesis
      by (cases i) (auto simp: split_beta)
  qed
qed simp

lemma no_replay:
  "tracks k0 s \<Longrightarrow> i < j \<Longrightarrow> j < length ts \<Longrightarrow> ts ! i = ts ! j \<Longrightarrow>
    fst (select_all select ts s) ! i = Inr m \<Longrightarrow> \<forall>t \<in> set ts. valid t \<Longrightarrow>
    \<exists>e. fst (select_all select ts s) ! j = Inl e"
proof (induction ts arbitrary: s i j)
  case (Cons t ts)
  then obtain j' where j: "j = Suc j'" by (cases j) auto
  show ?case
  proof (cases "select s t")
    case (Inl e)
    with Cons j show ?thesis by (cases i) (auto simp: split_beta)
  next
    case (Inr ms)
    then obtain m1 s1 where ms: "select s t = Inr (m1, s1)" by (cases ms) auto
    have "valid t" using Cons.prems(6) by simp
    note keeps = select_keeps [OF Cons.prems(1) ms this]
    show ?thesis
    proof (cases i)
      case 0
      with spent_all_fails [OF keeps(2,3), of j' ts] Cons.prems ms j show ?thesis
        by (auto simp: split_beta)
    next
      case (Suc i')
      with Cons.IH [OF keeps(2), of i' j'] Cons.prems ms j show ?thesis
        by (auto simp: split_beta)
    qed
  qed
qed simp

text \<open>
  \<open>window\<close>: of the positions from \<open>lo\<close> on, exactly those in \<open>used\<close> are gone; \<open>n0\<close> is the number of
  keys that were stored before.
\<close>

definition window :: "nat \<Rightarrow> nat \<Rightarrow> nat set \<Rightarrow> 's \<Rightarrow> bool" where
  "window lo n0 used s \<longleftrightarrow> lo \<le> pos s \<and> length (unused s) + lo \<le> n0 + pos s \<and>
    (\<forall>i. lo \<le> i \<and> i < pos s \<and> i \<notin> used \<longrightarrow> i \<in> idx ` set (unused s))"

lemma window_step:
  assumes "tracks k0 s" "window lo n0 used s" "lo \<le> t" "t \<notin> used" "t < lo + w" "pos s \<le> lo + w"
    "w \<le> limit" "n0 + w \<le> cap" "valid t"
  shows "\<exists>s'. select s t = Inr (ideal_key nxt mk k0 t, s') \<and> tracks k0 s' \<and>
    window lo n0 (insert t used) s' \<and> pos s' \<le> lo + w"
  using assms(1,9)
proof (cases rule: select_cases [where t = t])
  case (future e)
  with assms(2,5,7) show ?thesis by (simp add: window_def)
next
  case (stale e)
  with assms(2-4) show ?thesis by (auto simp: window_def spent_def)
next
  case (stored xs ys s')
  have "idx (ideal_key nxt mk k0 t) = t" by (simp add: ideal_key_def idx_mk)
  with stored select_keeps(2) [OF assms(1) stored(3) assms(9)] assms(2,6) show ?thesis
    by (auto simp: window_def)
next
  case (ahead s')
  have "length (unused s @ map (ideal_key nxt mk k0) [pos s..<t]) \<le> cap"
    using assms(2,5,8) ahead(1) by (auto simp: window_def)
  then have u: "unused s' = unused s @ map (ideal_key nxt mk k0) [pos s..<t]"
    using ahead(7) by (simp add: last_n_all)
  have "idx ` set (unused s') = idx ` set (unused s) \<union> {pos s..<t}"
    by (simp add: u image_Un image_image ideal_key_def idx_mk)
  moreover have "length (unused s') + lo \<le> n0 + pos s'"
    using assms(2) ahead(1,5) by (auto simp: u window_def)
  ultimately show ?thesis
    using ahead(1,3,5) select_keeps(2) [OF assms(1) ahead(3) assms(9)] assms(2,5)
    by (auto simp: window_def not_less)
qed

lemma any_order_window:
  "tracks k0 s \<Longrightarrow> window lo n0 used s \<Longrightarrow> distinct ts \<Longrightarrow> set ts \<inter> used = {} \<Longrightarrow>
    \<forall>t \<in> set ts. lo \<le> t \<and> t < lo + w \<Longrightarrow> pos s \<le> lo + w \<Longrightarrow> w \<le> limit \<Longrightarrow> n0 + w \<le> cap \<Longrightarrow>
    \<forall>t \<in> set ts. valid t \<Longrightarrow> fst (select_all select ts s) = map (\<lambda>t. Inr (ideal_key nxt mk k0 t)) ts"
proof (induction ts arbitrary: s used)
  case (Cons t ts)
  then obtain s' where s': "select s t = Inr (ideal_key nxt mk k0 t, s')" "tracks k0 s'"
      "window lo n0 (insert t used) s'" "pos s' \<le> lo + w"
    using window_step [of k0 s lo n0 used t w] by auto
  have "fst (select_all select ts s') = map (\<lambda>t. Inr (ideal_key nxt mk k0 t)) ts"
    using Cons.prems s' by (intro Cons.IH [OF s'(2,3)]) auto
  then show ?case using s'(1) by (auto simp: split_beta)
qed simp

lemma any_order:
  assumes "tracks k0 s" "distinct ts" "\<forall>t \<in> set ts. pos s \<le> t \<and> t < pos s + w" "w \<le> limit"
    "length (unused s) + w \<le> cap" "\<forall>t \<in> set ts. valid t"
  shows "fst (select_all select ts s) = map (\<lambda>t. Inr (ideal_key nxt mk k0 t)) ts"
  using assms by (intro any_order_window [of k0 s "pos s" "length (unused s)" "{}" ts w])
    (auto simp: window_def)

end

subsection \<open>The loop over skipped messages\<close>

text \<open>
  The loop both implementations share: \<open>derive\<close> gives the next chain key and the message key for
  an iteration, \<open>store\<close> is the form in which a key is kept.  \<open>overflow\<close> is the number of keys that
  are dropped before one is kept.
\<close>

fun skip_loop ::
    "(nat \<Rightarrow> 'k \<Rightarrow> 'e + 'k \<times> 'm) \<Rightarrow> ('m \<Rightarrow> 'u) \<Rightarrow> nat \<Rightarrow> nat \<Rightarrow> int \<Rightarrow> 'u list \<Rightarrow> 'm \<Rightarrow> 'k \<Rightarrow>
      'e + 'u list \<times> 'm \<times> 'k" where
  "skip_loop derive store 0 iteration overflow nextUnused messageKey chainKey =
    Inr (nextUnused, messageKey, chainKey)"
| "skip_loop derive store (Suc n) iteration overflow nextUnused messageKey chainKey =
    (let nextUnused' = (if 0 < overflow then nextUnused else nextUnused @ [store messageKey]);
         overflow' = (if 0 < overflow then overflow - 1 else overflow)
     in rbind (derive iteration chainKey) (\<lambda>(nextChainKey, nextMessageKey).
       skip_loop derive store n (iteration + 1) overflow' nextUnused' nextMessageKey nextChainKey))"

lemma butlast_Cons2: "butlast (x # y # xs) = x # butlast (y # xs)"
  by simp

lemma skip_loop_eq:
  assumes "\<And>i j. j < n \<Longrightarrow> derive i ((nxt ^^ j) k) = Inr (nxt ((nxt ^^ j) k), mk i ((nxt ^^ j) k))"
  shows "skip_loop derive store n it ov un m k =
    Inr (un @ map store (drop (nat ov) (butlast (m # map (\<lambda>i. mk (it + i) ((nxt ^^ i) k)) [0..<n]))),
      last (m # map (\<lambda>i. mk (it + i) ((nxt ^^ i) k)) [0..<n]), (nxt ^^ n) k)"
  using assms
proof (induction n arbitrary: it ov un m k)
  case (Suc n)
  let ?K = "\<lambda>it k. map (\<lambda>i. mk (it + i) ((nxt ^^ i) k)) [0..<n]"
  have d: "derive it k = Inr (nxt k, mk it k)" using Suc.prems [of 0 it] by simp
  have IH: "skip_loop derive store n (it + 1) ov' un' (mk it k) (nxt k) =
      Inr (un' @ map store (drop (nat ov') (butlast (mk it k # ?K (it + 1) (nxt k)))),
        last (mk it k # ?K (it + 1) (nxt k)), (nxt ^^ n) (nxt k))" for ov' un'
    using Suc.prems [of "Suc _"] by (intro Suc.IH) (simp add: funpow_swap1)
  have K: "map (\<lambda>i. mk (it + i) ((nxt ^^ i) k)) [0..<Suc n] = mk it k # ?K (it + 1) (nxt k)"
    unfolding upt_conv_Cons [OF zero_less_Suc] map_Suc_upt [symmetric]
    by (simp add: comp_def funpow_swap1)
  show ?case
    unfolding K skip_loop.simps Let_def d rbind_simps prod.case IH butlast_Cons2
    by (cases "0 < ov") (auto simp: funpow_swap1 nat_diff_distrib drop_Cons' simp del: butlast.simps)
qed simp

text \<open>
  The overflow bookkeeping of both implementations: \<open>skipped\<close> keys are added to the stored ones and
  the oldest beyond \<open>cap\<close> are dropped.
\<close>

definition overflow_count :: "nat \<Rightarrow> nat \<Rightarrow> nat \<Rightarrow> int" where
  "overflow_count delta stored cap = int delta + int stored - int cap"

lemma overflow_last_n:
  assumes "length new = delta"
  shows "(if 0 < overflow_count delta (length un) cap then drop (nat (overflow_count delta (length un) cap)) un
      else un) @ drop (nat (if 0 < overflow_count delta (length un) cap
        then overflow_count delta (length un) cap - int (length un)
        else overflow_count delta (length un) cap)) new = last_n cap (un @ new)"
proof (cases "0 < overflow_count delta (length un) cap")
  case True
  then have "nat (overflow_count delta (length un) cap) = length (un @ new) - cap"
    "nat (overflow_count delta (length un) cap - int (length un)) = length (un @ new) - cap - length un"
    using assms by (simp_all add: overflow_count_def)
  with True show ?thesis by (simp add: last_n_def)
next
  case False
  with assms show ?thesis by (simp add: last_n_def overflow_count_def)
qed

lemma map_upt_shift: "map f [p..<p + n] = map (\<lambda>i. f (p + i)) [0..<n]"
  by (induction n) auto

text \<open>The keys the loop pushes are the ones for the positions before the target.\<close>

lemma skipped_list:
  assumes "0 < n"
  shows "butlast (mk p k # map (\<lambda>i. mk (p + 1 + i) ((nxt ^^ i) (nxt k))) [0..<n]) =
      map (\<lambda>i. mk i ((nxt ^^ (i - p)) k)) [p..<p + n]"
    "last (mk p k # map (\<lambda>i. mk (p + 1 + i) ((nxt ^^ i) (nxt k))) [0..<n]) = mk (p + n) ((nxt ^^ n) k)"
proof -
  let ?f = "\<lambda>i. mk (p + i) ((nxt ^^ i) k)"
  have "mk p k # map (\<lambda>i. mk (p + 1 + i) ((nxt ^^ i) (nxt k))) [0..<n] = map ?f [0..<Suc n]"
    unfolding upt_conv_Cons [OF zero_less_Suc] map_Suc_upt [symmetric] by (simp add: comp_def funpow_swap1)
  then show "butlast (mk p k # map (\<lambda>i. mk (p + 1 + i) ((nxt ^^ i) (nxt k))) [0..<n]) =
      map (\<lambda>i. mk i ((nxt ^^ (i - p)) k)) [p..<p + n]"
    "last (mk p k # map (\<lambda>i. mk (p + 1 + i) ((nxt ^^ i) (nxt k))) [0..<n]) = mk (p + n) ((nxt ^^ n) k)"
    by (simp_all add: map_upt_shift)
qed

text \<open>The whole selection beyond the next message, from the overflow count to the end of the loop.\<close>

lemma skip_loop_result:
  fixes un :: "'u list" and cap :: nat
  assumes n: "0 < n" and derive: "\<And>i j. derive i ((nxt ^^ j) k) = Inr ((nxt ^^ Suc j) k, mk i ((nxt ^^ j) k))"
  defines "ov \<equiv> overflow_count n (length un) cap"
  shows "skip_loop derive store n (p + 1) (if 0 < ov then ov - int (length un) else ov)
      (if 0 < ov then drop (nat ov) un else un) (mk p k) (nxt k) =
    Inr (last_n cap (un @ map store (map (\<lambda>i. mk i ((nxt ^^ (i - p)) k)) [p..<p + n])),
      mk (p + n) ((nxt ^^ n) k), (nxt ^^ Suc n) k)"
proof -
  have d: "derive i ((nxt ^^ j) (nxt k)) = Inr (nxt ((nxt ^^ j) (nxt k)), mk i ((nxt ^^ j) (nxt k)))" for i j
    using derive [of i "Suc j"] by (simp add: funpow_swap1)
  have loop: "skip_loop derive store n (p + 1) o' un' (mk p k) (nxt k) =
      Inr (un' @ map store (drop (nat o') (map (\<lambda>i. mk i ((nxt ^^ (i - p)) k)) [p..<p + n])),
        mk (p + n) ((nxt ^^ n) k), (nxt ^^ n) (nxt k))" for o' un'
    by (subst skip_loop_eq [where nxt = nxt and mk = mk]) (simp_all only: d skipped_list [OF n])
  have "length (map store (map (\<lambda>i. mk i ((nxt ^^ (i - p)) k)) [p..<p + n])) = n" by simp
  from overflow_last_n [OF this, of un cap] show ?thesis
    unfolding loop by (simp only: ov_def drop_map [symmetric] funpow_Suc_right comp_apply)
qed

end
