(* ===== verification/ByteUtils.thy ===== *)
theory ByteUtils
  imports JsString
begin

text \<open>
  \<open>src/util/bytes.ts\<close>: hexadecimal and base64 in both directions, concatenation, equality,
  big-endian integers and the small array helpers.  The lookup tables of the source are the
  functions that index them; \<open>None\<close> and \<open>-1\<close> are the empty cells.  The lemmas show that
  each decoder inverts its encoder, that the table-driven loops compute the plain list
  functions they stand for, and which inputs are rejected.
\<close>

text \<open>A number of JavaScript as far as \<open>Number.isSafeInteger\<close> sees it: an integer, or a fraction, infinity or \<open>NaN\<close>.\<close>

datatype js_number = Integral int | NotIntegral

definition isSafeInteger :: "js_number \<Rightarrow> bool" where
  "isSafeInteger v = (case v of Integral n \<Rightarrow> \<bar>n\<bar> \<le> int MAX_SAFE_INTEGER | NotIntegral \<Rightarrow> False)"

datatype bytes_error =
    OddHexLength
  | InvalidHexCharacter
  | Base64Length
  | InvalidBase64Character
  | InvalidBase64Payload
  | MissingField
  | ByteLengthMismatch
  | InvalidIntegerValue js_number
  | InvalidMaxBytes
  | StreamExceededMaxBytes int

subsection \<open>Hexadecimal\<close>

definition HEX_CHARS :: jstr where
  "HEX_CHARS = js ''0123456789abcdef''"

definition HEX_TABLE :: "nat \<Rightarrow> jstr" where
  "HEX_TABLE i = [HEX_CHARS ! drop_bit 4 i, HEX_CHARS ! (i AND 15)]"

definition HEX_LOOKUP :: "nat \<Rightarrow> int" where
  "HEX_LOOKUP i =
    (if 0x30 \<le> i \<and> i \<le> 0x39 then int i - 0x30
     else if 0x41 \<le> i \<and> i \<le> 0x46 then int i - 0x41 + 10
     else if 0x61 \<le> i \<and> i \<le> 0x66 then int i - 0x61 + 10
     else - 1)"

fun bytesToHex :: "bytes \<Rightarrow> jstr" where
  "bytesToHex [] = []"
| "bytesToHex (b # bs) = HEX_TABLE (unat b) @ bytesToHex bs"

fun hex_pairs :: "jstr \<Rightarrow> bytes_error + bytes" where
  "hex_pairs (hiCode # loCode # rest) =
    (let hi = (if hiCode < 128 then HEX_LOOKUP hiCode else - 1);
         lo = (if loCode < 128 then HEX_LOOKUP loCode else - 1)
     in if hi OR lo < 0 then Inl InvalidHexCharacter
        else rbind (hex_pairs rest)
          (\<lambda>out. Inr (to_u8 (push_bit 4 (nat hi) OR nat lo) # out)))"
| "hex_pairs _ = Inr []"

definition hexToBytes :: "jstr \<Rightarrow> bytes_error + bytes" where
  "hexToBytes value =
    (if odd (length value) then Inl OddHexLength else hex_pairs value)"

subsection \<open>Base64\<close>

definition BASE64_CHARS :: jstr where
  "BASE64_CHARS = js ''ABCDEFGHIJKLMNOPQRSTUVWXYZabcdefghijklmnopqrstuvwxyz0123456789+/''"

definition BASE64URL_CHARS :: jstr where
  "BASE64URL_CHARS = js ''ABCDEFGHIJKLMNOPQRSTUVWXYZabcdefghijklmnopqrstuvwxyz0123456789-_''"

definition BASE64_LOOKUP :: "nat \<Rightarrow> nat option" where
  "BASE64_LOOKUP code = (if code = 0x3d then Some 0 else index_of code BASE64_CHARS)"

definition lookupBase64 :: "nat \<Rightarrow> bytes_error + nat" where
  "lookupBase64 code =
    (if 127 < code then Inl InvalidBase64Character
     else case BASE64_LOOKUP code of None \<Rightarrow> Inl InvalidBase64Character | Some v \<Rightarrow> Inr v)"

fun encodeBase64 :: "bytes \<Rightarrow> jstr \<Rightarrow> bool \<Rightarrow> jstr" where
  "encodeBase64 [] alphabet pad = []"
| "encodeBase64 [x] alphabet pad =
    (let a = unat x in
     [alphabet ! drop_bit 2 a, alphabet ! push_bit 4 (a AND 3)] @
     (if pad then js ''=='' else []))"
| "encodeBase64 [x, y] alphabet pad =
    (let a = unat x; b = unat y in
     [alphabet ! drop_bit 2 a, alphabet ! (push_bit 4 (a AND 3) OR drop_bit 4 b),
      alphabet ! push_bit 2 (b AND 15)] @
     (if pad then js ''='' else []))"
| "encodeBase64 (x # y # z # rest) alphabet pad =
    (let a = unat x; b = unat y; c = unat z in
     [alphabet ! drop_bit 2 a, alphabet ! (push_bit 4 (a AND 3) OR drop_bit 4 b),
      alphabet ! (push_bit 2 (b AND 15) OR drop_bit 6 c), alphabet ! (c AND 63)] @
     encodeBase64 rest alphabet pad)"

definition bytesToBase64 :: "bytes \<Rightarrow> jstr" where
  "bytesToBase64 value = encodeBase64 value BASE64_CHARS True"

definition bytesToBase64UrlSafe :: "bytes \<Rightarrow> jstr" where
  "bytesToBase64UrlSafe value = encodeBase64 value BASE64URL_CHARS False"

text \<open>
  The last group of four writes \<open>3 - padding\<close> bytes (the tests \<open>j < outLen\<close> of the source),
  every group before it writes three.
\<close>

fun base64_groups :: "nat \<Rightarrow> jstr \<Rightarrow> bytes_error + bytes" where
  "base64_groups padding (w # x # y # z # rest) =
    rbind (lookupBase64 w) (\<lambda>a. rbind (lookupBase64 x) (\<lambda>b.
      let out0 = to_u8 (push_bit 2 a OR drop_bit 4 b) in
      if rest = [] then
        (if padding < 2 then
           rbind (lookupBase64 y) (\<lambda>c.
             let out1 = to_u8 (push_bit 4 (b AND 15) OR drop_bit 2 c) in
             if padding < 1 then
               rbind (lookupBase64 z) (\<lambda>d.
                 Inr [out0, out1, to_u8 (push_bit 6 (c AND 3) OR d)])
             else Inr [out0, out1])
         else Inr [out0])
      else
        rbind (lookupBase64 y) (\<lambda>c. rbind (lookupBase64 z) (\<lambda>d.
          rbind (base64_groups padding rest) (\<lambda>out.
            Inr (out0 # to_u8 (push_bit 4 (b AND 15) OR drop_bit 2 c)
              # to_u8 (push_bit 6 (c AND 3) OR d) # out))))))"
| "base64_groups padding _ = Inr []"

definition base64ToBytes :: "jstr \<Rightarrow> bytes_error + bytes" where
  "base64ToBytes value =
    (let len = length value in
     if len = 0 then Inr []
     else if len AND 3 \<noteq> 0 then Inl Base64Length
     else base64_groups
       ((if value ! (len - 1) = 0x3d then 1 else 0) + (if value ! (len - 2) = 0x3d then 1 else 0))
       value)"

definition base64ToBytesChecked :: "jstr \<Rightarrow> bytes_error + bytes" where
  "base64ToBytesChecked value =
    (if length value = 0 then Inl InvalidBase64Payload else base64ToBytes value)"

text \<open>An absent value is \<open>None\<close>; \<open>-\<close> is 45, \<open>_\<close> is 95, \<open>+\<close> is 43, \<open>/\<close> is 47, \<open>=\<close> is 61.\<close>

definition url_to_std :: "nat \<Rightarrow> nat" where
  "url_to_std c = (if c = 45 then 43 else if c = 95 then 47 else c)"

definition decodeBase64Url :: "jstr option \<Rightarrow> bytes_error + bytes" where
  "decodeBase64Url value =
    (case value of
       None \<Rightarrow> Inl MissingField
     | Some v \<Rightarrow>
         if v = [] then Inl MissingField
         else let replaced = map url_to_std v;
                  target = (length v + 3) div 4 * 4
              in base64ToBytesChecked (replaced @ replicate (target - length v) 61))"

subsection \<open>Arrays\<close>

definition assertByteLength :: "bytes \<Rightarrow> nat \<Rightarrow> bytes_error + unit" where
  "assertByteLength value expectedLength =
    (if length value \<noteq> expectedLength then Inl ByteLengthMismatch else Inr ())"

datatype proto_bytes = ProtoMissing | ProtoBytes bytes | ProtoString jstr

definition decodeProtoBytes :: "proto_bytes \<Rightarrow> bytes_error + bytes" where
  "decodeProtoBytes value =
    (case value of
       ProtoMissing \<Rightarrow> Inl MissingField
     | ProtoBytes b \<Rightarrow> Inr b
     | ProtoString s \<Rightarrow> base64ToBytes s)"

fun concat_loop :: "bytes list \<Rightarrow> bytes \<Rightarrow> nat \<Rightarrow> bytes" where
  "concat_loop [] out offset = out"
| "concat_loop (part # parts) out offset =
    concat_loop parts (u8_set out part offset) (offset + length part)"

definition concatBytes :: "bytes list \<Rightarrow> bytes" where
  "concatBytes parts =
    (let total = foldl (\<lambda>acc part. acc + length part) 0 parts
     in concat_loop parts (replicate total 0) 0)"

fun xor_accumulate :: "bytes \<Rightarrow> bytes \<Rightarrow> byte \<Rightarrow> byte" where
  "xor_accumulate (a # as) (b # bs) diff = xor_accumulate as bs (diff OR (a XOR b))"
| "xor_accumulate _ _ diff = diff"

definition uint8Equal :: "bytes \<Rightarrow> bytes \<Rightarrow> bool" where
  "uint8Equal a b = (if length a \<noteq> length b then False else xor_accumulate a b 0 = 0)"

text \<open>\<open>timingSafeEqual\<close> of the platform compares the contents.\<close>

definition uint8TimingSafeEqual :: "bytes \<Rightarrow> bytes \<Rightarrow> bool" where
  "uint8TimingSafeEqual left right = (if length left \<noteq> length right then False else left = right)"

definition removeAt :: "'a list \<Rightarrow> int \<Rightarrow> 'a list" where
  "removeAt items index =
    (if items = [] then []
     else if index < 0 \<or> int (length items) \<le> index then items
     else take (nat index) items @ drop (Suc (nat index)) items)"

fun int_bytes_loop :: "nat \<Rightarrow> nat \<Rightarrow> bytes \<Rightarrow> bytes" where
  "int_bytes_loop 0 current out = out"
| "int_bytes_loop (Suc i) current out =
    int_bytes_loop i (current div 256) (out[i := to_u8 (current AND 255)])"

text \<open>The guard and the loop; only an integer can be negative and reach the loop.\<close>

definition intToBytes :: "nat \<Rightarrow> js_number \<Rightarrow> bytes_error + bytes" where
  "intToBytes byteLength v =
    (case v of
       Integral n \<Rightarrow>
         if \<not> isSafeInteger v \<or> n < 0 then Inl (InvalidIntegerValue v)
         else Inr (int_bytes_loop byteLength (nat n) (replicate byteLength 0))
     | NotIntegral \<Rightarrow> Inl (InvalidIntegerValue v))"

text \<open>
  \<open>readAllBytes\<close> over the chunks the stream delivers, already normalised to bytes: the loop
  stops with an error at the first chunk that takes the total over the limit.
\<close>

fun read_chunks :: "int option \<Rightarrow> bytes list \<Rightarrow> bytes list \<Rightarrow> nat \<Rightarrow> bytes_error + (bytes list \<times> nat)" where
  "read_chunks maxBytes [] chunks tot = Inr (chunks, tot)"
| "read_chunks maxBytes (chunk # rest) chunks tot =
    (let tot' = tot + length chunk in
     case maxBytes of
       Some m \<Rightarrow> if m < int tot' then Inl (StreamExceededMaxBytes m)
                 else read_chunks maxBytes rest (chunks @ [chunk]) tot'
     | None \<Rightarrow> read_chunks maxBytes rest (chunks @ [chunk]) tot')"

definition invalid_max_bytes :: "int option \<Rightarrow> bool" where
  "invalid_max_bytes maxBytes =
    (case maxBytes of None \<Rightarrow> False | Some m \<Rightarrow> int MAX_SAFE_INTEGER < m \<or> m < 0)"

definition readAllBytes :: "bytes list \<Rightarrow> int option \<Rightarrow> bytes_error + bytes" where
  "readAllBytes stream maxBytes =
    (if invalid_max_bytes maxBytes then Inl InvalidMaxBytes
     else rbind (read_chunks maxBytes stream [] 0) (\<lambda>(chunks, tot).
       if tot = 0 then Inr []
       else if length chunks = 1 then Inr (hd chunks)
       else Inr (concatBytes chunks)))"

subsection \<open>Hexadecimal round trip\<close>

lemma HEX_TABLE_length [simp]: "length (HEX_TABLE i) = 2"
  by (simp add: HEX_TABLE_def)

lemma length_bytesToHex [simp]: "length (bytesToHex bs) = 2 * length bs"
  by (induction bs) auto

lemma HEX_LOOKUP_CHARS:
  assumes "k < 16"
  shows "HEX_CHARS ! k < 128 \<and> HEX_LOOKUP (HEX_CHARS ! k) = int k"
proof -
  have "\<forall>k \<in> set [0..<16]. HEX_CHARS ! k < 128 \<and> HEX_LOOKUP (HEX_CHARS ! k) = int k"
    by code_simp
  with assms show ?thesis by simp
qed

lemma nibbles_join [byte_arith]:
  "(x :: nat) < 256 \<Longrightarrow> push_bit 4 (x div 16) OR (x mod 16) = x"
  using or_shift_nat [of "x mod 16" 4 "x div 16"] by simp

lemma hex_pairs_bytesToHex: "hex_pairs (bytesToHex bs) = Inr bs"
proof (induction bs)
  case (Cons b bs)
  have "unat b div 16 < 16" "unat b mod 16 < 16"
    using unat_byte_less [of b] by linarith+
  with Cons show ?case
    by (simp add: HEX_TABLE_def HEX_LOOKUP_CHARS and_15 drop_bit_eq_div nibbles_join Let_def
        or_negative_int_iff)
qed simp

lemma hexToBytes_bytesToHex: "hexToBytes (bytesToHex bs) = Inr bs"
  by (simp add: hexToBytes_def hex_pairs_bytesToHex)

subsection \<open>Base64 round trip\<close>

lemma lookup_BASE64_CHARS:
  assumes "k < 64"
  shows "lookupBase64 (BASE64_CHARS ! k) = Inr k"
proof -
  have "\<forall>k \<in> set [0..<64]. lookupBase64 (BASE64_CHARS ! k) = Inr k"
    by code_simp
  with assms show ?thesis by simp
qed

lemma BASE64_CHARS_not_pad:
  assumes "k < 64"
  shows "BASE64_CHARS ! k \<noteq> 61"
proof -
  have "\<forall>k \<in> set [0..<64]. BASE64_CHARS ! k \<noteq> 61"
    by code_simp
  with assms show ?thesis by simp
qed

lemma url_to_std_BASE64URL:
  assumes "k < 64"
  shows "url_to_std (BASE64URL_CHARS ! k) = BASE64_CHARS ! k"
proof -
  have "\<forall>k \<in> set [0..<64]. url_to_std (BASE64URL_CHARS ! k) = BASE64_CHARS ! k"
    by code_simp
  with assms show ?thesis by simp
qed

text \<open>The four six-bit groups of three bytes, and the bytes back from the groups.\<close>

lemma byte_div_less [simp]:
  "unat (x :: byte) div 16 < 16" "unat x div 64 < 4" "unat x div 4 < 64"
  using unat_byte_less [of x] by linarith+

lemma six_bits_less [simp]:
  "unat (x :: byte) mod 4 * 16 + unat (y :: byte) div 16 < 64"
  "unat y mod 16 * 4 + unat (z :: byte) div 64 < 64"
  "unat x mod 4 * 16 < 64" "unat y mod 16 * 4 < 64"
  using byte_div_less [of y] byte_div_less [of z] by linarith+

lemma six_bits:
  "unat (x :: byte) mod 4 * 16 OR unat (y :: byte) div 16 = unat x mod 4 * 16 + unat y div 16"
  "unat y mod 16 * 4 OR unat (z :: byte) div 64 = unat y mod 16 * 4 + unat z div 64"
  "push_bit 4 (unat x mod 4) = unat x mod 4 * 16"
  "push_bit 2 (unat y mod 16) = unat y mod 16 * 4"
  using or_shift_nat [of "unat y div 16" 4 "unat x mod 4"]
    or_shift_nat [of "unat z div 64" 2 "unat y mod 16"]
  by (simp_all add: push_bit_eq_mult)

lemma six_bits_split:
  "(unat (x :: byte) mod 4 * 16 + unat (y :: byte) div 16) div 16 = unat x mod 4"
  "(unat x mod 4 * 16 + unat y div 16) mod 16 = unat y div 16"
  "(unat y mod 16 * 4 + unat (z :: byte) div 64) div 4 = unat y mod 16"
  "(unat y mod 16 * 4 + unat z div 64) mod 4 = unat z div 64"
  using byte_div_less [of y] byte_div_less [of z] by auto

lemma bytes_from_six_bits:
  "to_u8 (push_bit 2 (unat (x :: byte) div 4) OR unat x mod 4) = x"
  "to_u8 (push_bit 4 (unat x div 16) OR unat x mod 16) = x"
  "to_u8 (push_bit 6 (unat x div 64) OR unat x mod 64) = x"
  using or_shift_nat [of "unat x mod 4" 2 "unat x div 4"]
    or_shift_nat [of "unat x mod 16" 4 "unat x div 16"]
    or_shift_nat [of "unat x mod 64" 6 "unat x div 64"]
  by simp_all

lemmas base64_arith = and_3 and_15 and_63 drop_bit_eq_div six_bits six_bits_split
  bytes_from_six_bits lookup_BASE64_CHARS

lemma lookup_pad [simp]: "lookupBase64 61 = Inr 0"
  by (simp add: lookupBase64_def BASE64_LOOKUP_def)

definition base64_padding :: "nat \<Rightarrow> nat" where
  "base64_padding n = (if n mod 3 = 0 then 0 else 3 - n mod 3)"

lemma base64_padding_3 [simp]: "base64_padding (Suc (Suc (Suc n))) = base64_padding n"
  by (simp add: base64_padding_def)

lemma encodeBase64_eq_Nil [simp]: "encodeBase64 bs alphabet pad = [] \<longleftrightarrow> bs = []"
  by (induction bs alphabet pad rule: encodeBase64.induct) (auto simp: Let_def)

lemma base64_groups_encode:
  "base64_groups (base64_padding (length bs)) (encodeBase64 bs BASE64_CHARS True) = Inr bs"
proof (induction bs BASE64_CHARS True rule: encodeBase64.induct)
  case 1
  show ?case by simp
next
  case (2 x)
  show ?case by (simp add: base64_padding_def Let_def base64_arith js_def)
next
  case (3 x y)
  show ?case by (simp add: base64_padding_def Let_def base64_arith js_def)
next
  case (4 x y z rest)
  then show ?case by (auto simp: Let_def base64_arith base64_padding_def)
qed

lemma length_encodeBase64: "length (encodeBase64 bs alphabet True) = (length bs + 2) div 3 * 4"
proof (induction bs alphabet True rule: encodeBase64.induct)
  case (4 x y z rest alphabet)
  have "(length (x # y # z # rest) + 2) div 3 = Suc ((length rest + 2) div 3)" by simp
  with 4 show ?case by (simp add: Let_def)
qed (auto simp: Let_def js_def)

lemma butlast_encodeBase64_ne [simp]: "butlast (encodeBase64 bs alphabet pad) = [] \<longleftrightarrow> bs = []"
  by (cases "(bs, alphabet, pad)" rule: encodeBase64.cases) (auto simp: Let_def)

text \<open>The padding the decoder counts at the end of an encoded string.\<close>

lemma encodeBase64_padding:
  assumes "bs \<noteq> []"
  shows "(if last (encodeBase64 bs BASE64_CHARS True) = 61 then 1 else 0) +
    (if last (butlast (encodeBase64 bs BASE64_CHARS True)) = 61 then 1 else 0)
    = base64_padding (length bs)"
  using assms
proof (induction bs BASE64_CHARS True rule: encodeBase64.induct)
  case (4 x y z rest)
  show ?case
  proof (cases "rest = []")
    case True
    then show ?thesis
      by (auto simp: Let_def base64_arith base64_padding_def BASE64_CHARS_not_pad)
  next
    case False
    with 4 show ?thesis by (simp add: Let_def)
  qed
qed (auto simp: Let_def base64_arith base64_padding_def js_def BASE64_CHARS_not_pad)

lemma nth_last_two:
  assumes "2 \<le> length xs"
  shows "xs ! (length xs - Suc 0) = last xs" "xs ! (length xs - 2) = last (butlast xs)"
proof -
  from assms have "xs \<noteq> []" by auto
  then show "xs ! (length xs - Suc 0) = last xs" by (simp add: last_conv_nth)
  from assms have "butlast xs \<noteq> []"
    using length_butlast [of xs] by (metis One_nat_def diff_is_0_eq list.size(3) not_less_eq_eq numeral_2_eq_2)
  moreover have "xs ! (length xs - 2) = butlast xs ! (length xs - 2)"
    using assms by (simp add: nth_butlast)
  ultimately show "xs ! (length xs - 2) = last (butlast xs)"
    by (simp add: last_conv_nth numeral_2_eq_2)
qed

lemma base64ToBytes_bytesToBase64: "base64ToBytes (bytesToBase64 bs) = Inr bs"
proof (cases "bs = []")
  case True
  then show ?thesis by (simp add: base64ToBytes_def bytesToBase64_def)
next
  case False
  let ?s = "encodeBase64 bs BASE64_CHARS True"
  have len: "length ?s = (length bs + 2) div 3 * 4" by (rule length_encodeBase64)
  have "0 < length bs" using False by simp
  then have "2 \<le> length ?s" unfolding len by linarith
  with False show ?thesis
    using encodeBase64_padding [OF False]
    by (simp add: base64ToBytes_def bytesToBase64_def Let_def nth_last_two and_3
        base64_groups_encode) (simp add: len)
qed

lemma replicate_2: "replicate 2 x = [x, x]"
  by (simp add: numeral_2_eq_2)

text \<open>The URL alphabet without padding decodes through the standard one.\<close>

lemma url_to_std_encode:
  "map url_to_std (encodeBase64 bs BASE64URL_CHARS False) @ replicate (base64_padding (length bs)) 61
    = encodeBase64 bs BASE64_CHARS True"
proof (induction bs BASE64URL_CHARS False rule: encodeBase64.induct)
  case (4 x y z rest)
  then show ?case by (simp add: Let_def base64_arith url_to_std_BASE64URL)
qed (simp_all add: Let_def base64_arith url_to_std_BASE64URL base64_padding_def js_def
    replicate_2)

lemma length_encodeBase64_url:
  "length (encodeBase64 bs alphabet False) + base64_padding (length bs) = (length bs + 2) div 3 * 4"
proof (induction bs alphabet False rule: encodeBase64.induct)
  case (4 x y z rest alphabet)
  have "(length (x # y # z # rest) + 2) div 3 = Suc ((length rest + 2) div 3)" by simp
  with 4 show ?case by (simp add: Let_def)
qed (auto simp: Let_def base64_padding_def)

lemma decodeBase64Url_bytesToBase64UrlSafe:
  assumes "bs \<noteq> []"
  shows "decodeBase64Url (Some (bytesToBase64UrlSafe bs)) = Inr bs"
proof -
  let ?v = "encodeBase64 bs BASE64URL_CHARS False"
  have len: "length ?v + base64_padding (length bs) = (length bs + 2) div 3 * 4"
    by (rule length_encodeBase64_url)
  have pad: "base64_padding (length bs) < 3"
    by (auto simp: base64_padding_def)
  define n where "n = (length bs + 2) div 3"
  have "(length ?v + 3) div 4 = n"
    using len pad unfolding n_def [symmetric] by (intro div_nat_eqI) simp_all
  with len have "(length ?v + 3) div 4 * 4 = length ?v + base64_padding (length bs)"
    by (simp add: n_def)
  then have "decodeBase64Url (Some (bytesToBase64UrlSafe bs)) =
      base64ToBytesChecked (encodeBase64 bs BASE64_CHARS True)"
    using assms by (simp add: decodeBase64Url_def bytesToBase64UrlSafe_def Let_def url_to_std_encode)
  then show ?thesis
    using assms base64ToBytes_bytesToBase64 [of bs]
    by (simp add: base64ToBytesChecked_def bytesToBase64_def)
qed

subsection \<open>Arrays\<close>

lemma concat_loop_eq:
  assumes "offset + length (concat parts) = length out"
  shows "concat_loop parts out offset = take offset out @ concat parts"
  using assms
proof (induction parts arbitrary: out offset)
  case Nil
  then show ?case by simp
next
  case (Cons part parts)
  then have "offset + length part \<le> length out" by simp
  with Cons show ?case by (simp add: take_u8_set)
qed

lemma foldl_length: "foldl (\<lambda>acc part. acc + length part) n parts = n + length (concat parts)"
  by (induction parts arbitrary: n) auto

lemma concatBytes_eq: "concatBytes parts = concat parts"
  by (simp add: concatBytes_def Let_def foldl_length concat_loop_eq)

lemma or_eq_0_word: "(x :: byte) OR y = 0 \<longleftrightarrow> x = 0 \<and> y = 0"
  by (rule or_eq_0_iff)

lemma xor_eq_0_word: "(x :: byte) XOR y = 0 \<longleftrightarrow> x = y"
  by (metis xor.left_neutral xor_self_eq xor.assoc xor.right_neutral)

lemma xor_accumulate_eq_0:
  "length a = length b \<Longrightarrow> xor_accumulate a b diff = 0 \<longleftrightarrow> diff = 0 \<and> a = b"
  by (induction a b diff rule: xor_accumulate.induct) (auto simp: or_eq_0_word xor_eq_0_word)

lemma uint8Equal_iff: "uint8Equal a b \<longleftrightarrow> a = b"
  by (auto simp: uint8Equal_def xor_accumulate_eq_0)

lemma uint8TimingSafeEqual_iff: "uint8TimingSafeEqual a b \<longleftrightarrow> a = b"
  by (auto simp: uint8TimingSafeEqual_def)

lemma removeAt_in_range:
  "i < length xs \<Longrightarrow> removeAt xs (int i) = take i xs @ drop (Suc i) xs"
  by (auto simp: removeAt_def)

definition be_value :: "bytes \<Rightarrow> nat" where
  "be_value bs = foldl (\<lambda>acc b. acc * 256 + unat b) 0 bs"

lemma be_value_snoc: "be_value (bs @ [b]) = be_value bs * 256 + unat b"
  by (simp add: be_value_def)

lemma int_bytes_loop_append:
  "n \<le> length out \<Longrightarrow>
    int_bytes_loop n current (out @ suf) = int_bytes_loop n current out @ suf"
  by (induction n arbitrary: current out) (auto simp: list_update_append1)

lemma length_int_bytes_loop [simp]: "length (int_bytes_loop n current out) = length out"
  by (induction n arbitrary: current out) auto

lemma int_bytes_loop_value:
  "be_value (int_bytes_loop n current (replicate n 0)) = current mod 256 ^ n"
proof (induction n arbitrary: current)
  case 0
  then show ?case by (simp add: be_value_def)
next
  case (Suc n)
  have "(replicate (Suc n) 0)[n := to_u8 (current AND 255)]
      = replicate n 0 @ [to_u8 (current AND 255)]"
    unfolding replicate_append_same [symmetric] replicate_Suc by (simp add: list_update_append)
  then have "be_value (int_bytes_loop (Suc n) current (replicate (Suc n) 0))
      = current div 256 mod 256 ^ n * 256 + current mod 256"
    using Suc [of "current div 256"]
    by (simp add: int_bytes_loop_append be_value_snoc and_255 del: replicate_Suc)
  also have "\<dots> = current mod 256 ^ Suc n"
    by (simp add: mod_mult2_eq [of current 256 "256 ^ n"])
  finally show ?case .
qed

lemma read_chunks_eq:
  "read_chunks maxBytes stream chunks tot =
    (case maxBytes of
       None \<Rightarrow> Inr (chunks @ stream, tot + length (concat stream))
     | Some m \<Rightarrow>
         if stream \<noteq> [] \<and> m < int (tot + length (concat stream)) then Inl (StreamExceededMaxBytes m)
         else Inr (chunks @ stream, tot + length (concat stream)))"
proof (induction stream arbitrary: chunks tot)
  case Nil
  then show ?case by (auto split: option.splits)
next
  case (Cons chunk rest)
  then show ?case by (auto simp: Let_def add.assoc split: option.splits)
qed

subsection \<open>Properties\<close>

text \<open>
  C40: Hex, base64 and URL-safe base64 text is decoded to the bytes it was made from; the one
  exception is the empty array in the URL-safe form, which the decoder takes for a missing field.
\<close>

theorem byte_text_roundtrips:
  "hexToBytes (bytesToHex bs) = Inr bs \<and> base64ToBytes (bytesToBase64 bs) = Inr bs \<and>
    decodeBase64Url (Some (bytesToBase64UrlSafe bs)) = (if bs = [] then Inl MissingField else Inr bs)"
  using hexToBytes_bytesToHex base64ToBytes_bytesToBase64 decodeBase64Url_bytesToBase64UrlSafe
  by (simp add: decodeBase64Url_def bytesToBase64UrlSafe_def)

text \<open>
  A misplaced padding sign hides what follows it: the last character of \<open>AA=!\<close> is not in
  the alphabet, and \<open>base64ToBytes\<close> returns two bytes for it.
\<close>

theorem base64_misplaced_padding: "base64ToBytes (js ''AA=!'') = Inr [0, 0]"
  by (simp add: base64ToBytes_def js_def lookupBase64_def BASE64_LOOKUP_def BASE64_CHARS_def
      and_3 and_15 drop_bit_eq_div to_u8_def Let_def)

text \<open>
  \<open>readAllBytes\<close> returns the concatenation of the chunks the stream delivers when the limit
  is valid and their total length stays within it, and an error otherwise.
\<close>

theorem readAllBytes_spec:
  "readAllBytes stream maxBytes =
    (case maxBytes of
       None \<Rightarrow> Inr (concat stream)
     | Some m \<Rightarrow>
         if int MAX_SAFE_INTEGER < m \<or> m < 0 then Inl InvalidMaxBytes
         else if m < int (length (concat stream)) then Inl (StreamExceededMaxBytes m)
         else Inr (concat stream))"
proof -
  have "length stream = 1 \<Longrightarrow> hd stream = concat stream"
    by (cases stream) auto
  then show ?thesis
    by (auto simp: readAllBytes_def invalid_max_bytes_def read_chunks_eq concatBytes_eq
        simp del: length_concat split: option.split)
qed

text \<open>
  \<open>intToBytes\<close> rejects negative numbers, fractions, \<open>NaN\<close> and infinities, and numbers above
  \<open>Number.MAX_SAFE_INTEGER\<close>; every other number is written in big-endian order, reduced modulo the width
  of the array.
\<close>

theorem intToBytes_big_endian:
  "case v of
     Integral n \<Rightarrow>
       if 0 \<le> n \<and> n \<le> 2 ^ 53 - 1
       then \<exists>bs. intToBytes len v = Inr bs \<and> length bs = len \<and> be_value bs = nat n mod 256 ^ len
       else intToBytes len v = Inl (InvalidIntegerValue v)
   | NotIntegral \<Rightarrow> intToBytes len v = Inl (InvalidIntegerValue v)"
  using int_bytes_loop_value [of len]
  by (auto simp: intToBytes_def isSafeInteger_def MAX_SAFE_INTEGER_def split: js_number.split)

end
