(* ===== verification/Crypto.thy ===== *)
theory Crypto
  imports ByteUtils
begin

text \<open>
  \<open>src/crypto/core\<close>: key formats (\<open>keys.ts\<close>), nonces (\<open>nonce.ts\<close>), \<open>hkdf.ts\<close> and the wrappers of
  \<open>primitives.ts\<close>.  The primitives themselves are the ones of \<open>node:crypto\<close>; they are the fields
  of the record \<open>crypto\<close>, an argument of every definition that uses them.  \<open>None\<close> stands for a call
  that throws.  A digest that is fed several chunks is the digest of their concatenation.
  \<open>crypto_laws\<close> states the documented behaviour the code relies on: output lengths, and that
  decryption inverts encryption under the same key and nonce.
\<close>

record crypto =
  hmac_sha256 :: "bytes \<Rightarrow> bytes \<Rightarrow> bytes"
  digest_sha256 :: "bytes \<Rightarrow> bytes"
  hkdf_sync :: "bytes \<Rightarrow> bytes \<Rightarrow> bytes \<Rightarrow> nat \<Rightarrow> bytes"
  cbc_seal :: "bytes \<Rightarrow> bytes \<Rightarrow> bytes \<Rightarrow> bytes option"
  cbc_open :: "bytes \<Rightarrow> bytes \<Rightarrow> bytes \<Rightarrow> bytes option"
  gcm_seal :: "bytes \<Rightarrow> bytes \<Rightarrow> bytes \<Rightarrow> bytes \<Rightarrow> (bytes \<times> bytes) option"
  gcm_open :: "bytes \<Rightarrow> bytes \<Rightarrow> bytes \<Rightarrow> bytes \<Rightarrow> bytes \<Rightarrow> bytes option"
  hmac_sha512 :: "bytes \<Rightarrow> bytes \<Rightarrow> bytes"

definition AES_GCM_TAG_LENGTH :: nat where "AES_GCM_TAG_LENGTH = 16"

definition crypto_laws :: "crypto \<Rightarrow> bool" where
  "crypto_laws C \<longleftrightarrow>
    (\<forall>k d. length (hmac_sha256 C k d) = 32) \<and>
    (\<forall>d. length (digest_sha256 C d) = 32) \<and>
    (\<forall>ikm salt info n. length (hkdf_sync C ikm salt info n) = n) \<and>
    (\<forall>k iv pt. length k = 32 \<and> length iv = 16 \<longrightarrow>
      (\<exists>ct. cbc_seal C k iv pt = Some ct \<and> cbc_open C k iv ct = Some pt)) \<and>
    (\<forall>k n pt aad. length k = 32 \<and> length n = 12 \<longrightarrow>
      (\<exists>ct tag. gcm_seal C k n pt aad = Some (ct, tag) \<and> length tag = AES_GCM_TAG_LENGTH \<and>
        gcm_open C k n ct tag aad = Some pt)) \<and>
    (\<forall>k d. length (hmac_sha512 C k d) = 64)"

subsection \<open>primitives.ts and hkdf.ts\<close>

definition sha256 :: "crypto \<Rightarrow> bytes list \<Rightarrow> bytes" where
  "sha256 C chunks = digest_sha256 C (concat chunks)"

definition hmacSha256Sign :: "crypto \<Rightarrow> bytes \<Rightarrow> bytes list \<Rightarrow> bytes" where
  "hmacSha256Sign C k chunks = hmac_sha256 C k (concat chunks)"

definition hmacSha512Sign :: "crypto \<Rightarrow> bytes \<Rightarrow> bytes list \<Rightarrow> bytes" where
  "hmacSha512Sign C k chunks = hmac_sha512 C k (concat chunks)"

definition hkdf :: "crypto \<Rightarrow> bytes \<Rightarrow> bytes option \<Rightarrow> bytes \<Rightarrow> nat \<Rightarrow> bytes" where
  "hkdf C ikm salt info outLength =
    hkdf_sync C ikm (case salt of Some s \<Rightarrow> s | None \<Rightarrow> []) info outLength"

definition hkdfSplit :: "crypto \<Rightarrow> bytes \<Rightarrow> bytes option \<Rightarrow> bytes \<Rightarrow> bytes \<times> bytes" where
  "hkdfSplit C ikm salt info =
    (let out = hkdf C ikm salt info 64 in (subarray out 0 32, drop 32 out))"

definition aesGcmEncrypt :: "crypto \<Rightarrow> bytes \<Rightarrow> bytes \<Rightarrow> bytes \<Rightarrow> bytes \<Rightarrow> bytes option" where
  "aesGcmEncrypt C k nonce plaintext aad =
    map_option (\<lambda>(ct, tag). concatBytes [ct, tag]) (gcm_seal C k nonce plaintext aad)"

text \<open>
  An argument of \<open>subarray\<close>: a negative index counts from the end, and both ends are clamped.  On a
  ciphertext shorter than a tag, \<open>tagOffset\<close> is negative.
\<close>

definition js_index :: "nat \<Rightarrow> int \<Rightarrow> nat" where
  "js_index n i = (if i < 0 then nat (max 0 (int n + i)) else min (nat i) n)"

definition aesGcmDecrypt :: "crypto \<Rightarrow> bytes \<Rightarrow> bytes \<Rightarrow> bytes \<Rightarrow> bytes \<Rightarrow> bytes option" where
  "aesGcmDecrypt C k nonce ciphertext aad =
    (let tagOffset = int (length ciphertext) - int AES_GCM_TAG_LENGTH;
         at = js_index (length ciphertext) tagOffset
     in gcm_open C k nonce (take at ciphertext) (drop at ciphertext) aad)"

definition aesCbcEncrypt :: "crypto \<Rightarrow> bytes \<Rightarrow> bytes \<Rightarrow> bytes \<Rightarrow> bytes option" where
  "aesCbcEncrypt C k iv plaintext = cbc_seal C k iv plaintext"

definition aesCbcDecrypt :: "crypto \<Rightarrow> bytes \<Rightarrow> bytes \<Rightarrow> bytes \<Rightarrow> bytes option" where
  "aesCbcDecrypt C k iv ciphertext = cbc_open C k iv ciphertext"

subsection \<open>nonce.ts\<close>

datatype nonce_error = NonceBufferTooShort nat | NonceCounterOverflow nat

definition writeNonceCounter :: "bytes \<Rightarrow> nat \<Rightarrow> nonce_error + bytes" where
  "writeNonceCounter out counter =
    (if length out < 12 then Inl (NonceBufferTooShort (length out))
     else if 0xffffffff < counter then Inl (NonceCounterOverflow counter)
     else Inr (out[8 := to_u8 (drop_bit 24 counter AND 0xff), 9 := to_u8 (drop_bit 16 counter AND 0xff),
       10 := to_u8 (drop_bit 8 counter AND 0xff), 11 := to_u8 (counter AND 0xff)]))"

subsection \<open>keys.ts\<close>

datatype key_error =
    InvalidKeyPrefix
  | InvalidKeyLength nat
  | EmptyVersionedContent
  | LegacyVersion
  | UnsupportedVersion nat
  | InvalidContentLength

definition SERIALIZED_PUB_KEY_PREFIX :: byte where "SERIALIZED_PUB_KEY_PREFIX = 5"

definition toSerializedPubKey :: "bytes \<Rightarrow> key_error + bytes" where
  "toSerializedPubKey k =
    (if length k = 33 then
       (if k ! 0 \<noteq> SERIALIZED_PUB_KEY_PREFIX then Inl InvalidKeyPrefix else Inr k)
     else if length k \<noteq> 32 then Inl (InvalidKeyLength (length k))
     else Inr (u8_set ((replicate 33 0)[0 := SERIALIZED_PUB_KEY_PREFIX]) k 1))"

definition toRawPubKey :: "bytes \<Rightarrow> key_error + bytes" where
  "toRawPubKey k =
    (if length k = 32 then Inr k
     else if length k = 33 \<and> k ! 0 = SERIALIZED_PUB_KEY_PREFIX then Inr (drop 1 k)
     else Inl (InvalidKeyLength (length k)))"

definition version_byte :: "nat \<Rightarrow> byte" where
  "version_byte version = to_u8 ((push_bit 4 version OR version) AND 0xff)"

definition prependVersion :: "bytes \<Rightarrow> nat \<Rightarrow> bytes" where
  "prependVersion content version = version_byte version # content"

definition readVersionedContent :: "bytes \<Rightarrow> nat \<Rightarrow> nat \<Rightarrow> key_error + bytes" where
  "readVersionedContent versionContent expectedVersion suffixLength =
    (if length versionContent < 1 then Inl EmptyVersionedContent
     else let version = drop_bit 4 (unat (versionContent ! 0)) in
       if version \<noteq> expectedVersion then
         (if version < expectedVersion then Inl LegacyVersion else Inl (UnsupportedVersion version))
       else if int (length versionContent) - int suffixLength \<le> 1 then Inl InvalidContentLength
       else Inr (subarray versionContent 1 (length versionContent - suffixLength)))"

subsection \<open>Lemmas\<close>

lemma crypto_lawsD:
  assumes "crypto_laws C"
  shows "length (hmac_sha256 C k d) = 32" "length (digest_sha256 C d) = 32"
    "length (hkdf_sync C ikm salt info n) = n"
    "length k = 32 \<Longrightarrow> length iv = 16 \<Longrightarrow>
      \<exists>ct. cbc_seal C k iv pt = Some ct \<and> cbc_open C k iv ct = Some pt"
    "length k = 32 \<Longrightarrow> length nonce = 12 \<Longrightarrow>
      \<exists>ct tag. gcm_seal C k nonce pt aad = Some (ct, tag) \<and> length tag = AES_GCM_TAG_LENGTH \<and>
        gcm_open C k nonce ct tag aad = Some pt"
    "length (hmac_sha512 C k d) = 64"
  using assms unfolding crypto_laws_def by blast+

lemma aesGcm_roundtrip:
  assumes "crypto_laws C" "length k = 32" "length nonce = 12"
  obtains ct where "aesGcmEncrypt C k nonce pt aad = Some ct" "aesGcmDecrypt C k nonce ct aad = Some pt"
proof -
  from crypto_lawsD(5) [OF assms] obtain ct tag where ct: "gcm_seal C k nonce pt aad = Some (ct, tag)"
      "length tag = AES_GCM_TAG_LENGTH" "gcm_open C k nonce ct tag aad = Some pt" by blast
  have "js_index (length (ct @ tag)) (int (length (ct @ tag)) - int AES_GCM_TAG_LENGTH) = length ct"
    using ct(2) by (simp add: js_index_def)
  with ct show thesis
    by (intro that [of "ct @ tag"]) (simp_all add: aesGcmEncrypt_def aesGcmDecrypt_def concatBytes_eq)
qed

lemma aesCbc_roundtrip:
  assumes "crypto_laws C" "length k = 32" "length iv = 16"
  obtains ct where "aesCbcEncrypt C k iv pt = Some ct" "aesCbcDecrypt C k iv ct = Some pt"
  using crypto_lawsD(4) [OF assms] by (auto simp: aesCbcEncrypt_def aesCbcDecrypt_def)

lemma length_hkdfSplit:
  assumes "crypto_laws C"
  shows "length (fst (hkdfSplit C ikm salt info)) = 32" "length (snd (hkdfSplit C ikm salt info)) = 32"
  using crypto_lawsD(3) [OF assms] by (simp_all add: hkdfSplit_def hkdf_def Let_def subarray_def)

text \<open>A stand-in for the platform that satisfies the laws, for the witnesses.\<close>

definition sample_crypto :: crypto where
  "sample_crypto = \<lparr>
     hmac_sha256 = (\<lambda>k d. take 32 (map ((+) 1) d @ k @ replicate 32 0)),
     digest_sha256 = (\<lambda>d. take 32 (d @ replicate 32 0)),
     hkdf_sync = (\<lambda>ikm salt info n. take n (ikm @ salt @ info @ replicate n 0)),
     cbc_seal = (\<lambda>k iv pt. if length k = 32 \<and> length iv = 16 then Some (rev pt) else None),
     cbc_open = (\<lambda>k iv ct. if length k = 32 \<and> length iv = 16 then Some (rev ct) else None),
     gcm_seal = (\<lambda>k n pt aad. if length k = 32 then Some (rev pt, replicate 16 (of_nat (length aad))) else None),
     gcm_open = (\<lambda>k n ct tag aad. if length k = 32 \<and> tag = replicate 16 (of_nat (length aad))
       then Some (rev ct) else None),
     hmac_sha512 = (\<lambda>k d. take 64 (map ((+) 1) d @ k @ replicate 64 0))\<rparr>"

lemma sample_crypto_laws: "crypto_laws sample_crypto"
  by (simp add: crypto_laws_def sample_crypto_def AES_GCM_TAG_LENGTH_def del: take_append)

lemma writeNonceCounter_eq:
  assumes "length out = 12" "counter < 2 ^ 32"
  shows "writeNonceCounter out counter = Inr (take 8 out @
    [to_u8 (counter div 16777216), to_u8 (counter div 65536), to_u8 (counter div 256), to_u8 counter])"
proof -
  define p where "p = take 8 out"
  have "length (drop 8 out) = 4" using assms(1) by simp
  then obtain a b c d where "drop 8 out = [a, b, c, d]" by (rule length_eq_4E)
  then have out: "out = p @ [a, b, c, d]" "length p = 8"
    using append_take_drop_id [of 8 out] assms(1) by (simp_all add: p_def)
  have "(p @ [a, b, c, d])[8 := w, 9 := x, 10 := y, 11 := z] = p @ [w, x, y, z]" for w x y z
    using out(2) by (simp add: list_update_append numeral_2_eq_2 numeral_3_eq_3)
  then show ?thesis
    using assms unfolding writeNonceCounter_def p_def [symmetric]
    by (simp add: out and_255 drop_bit_eq_div)
qed

end
