(* ===== verification/Jid.thy ===== *)
theory Jid
  imports Defaults
begin

text \<open>
  \<open>src/protocol/jid.ts\<close>: parsing, classification and rewriting of JIDs, the strings
  \<open>user@server\<close> and \<open>user:device@server\<close>.  Separators are code units: \<open>@\<close> is 64, \<open>:\<close> is 58,
  \<open>-\<close> is 45, \<open>.\<close> is 46 and \<open>|\<close> is 124.  A device is accumulated as a number and checked against
  \<open>Number.MAX_SAFE_INTEGER\<close> after every digit, so the sums that stay in range are exact.
\<close>

datatype jid_error =
    InvalidJid
  | RecipientEmpty
  | InvalidRecipient
  | InvalidJidDevice
  | InvalidUsername
  | InvalidDevice
  | PhoneEmpty

record signal_address =
  user :: jstr
  server :: "jstr option"
  device :: nat

definition KNOWN_SERVERS :: "jstr list" where
  "KNOWN_SERVERS =
    [LID_SERVER, HOST_DOMAIN, GROUP_SERVER, BROADCAST_SERVER, NEWSLETTER_SERVER,
     HOSTED_SERVER, HOSTED_LID_SERVER, BOT_SERVER, MSGR_SERVER, INTEROP_SERVER]"

definition internServerAt :: "jstr \<Rightarrow> nat \<Rightarrow> jstr" where
  "internServerAt jid from =
    (case List.find (\<lambda>s. length s = length jid - from \<and> starts_at jid s from) KNOWN_SERVERS of
       Some s \<Rightarrow> s
     | None \<Rightarrow> drop from jid)"

definition extractDigits :: "jstr \<Rightarrow> jstr" where
  "extractDigits input = filter (\<lambda>code. 48 \<le> code \<and> code \<le> 57) input"

definition findAtIndex :: "jstr \<Rightarrow> jid_error + nat" where
  "findAtIndex jid =
    (case index_of 64 jid of
       None \<Rightarrow> Inl InvalidJid
     | Some atIndex \<Rightarrow> if atIndex < 1 \<or> length jid - 1 \<le> atIndex then Inl InvalidJid else Inr atIndex)"

definition splitJid :: "jstr \<Rightarrow> jid_error + jstr \<times> jstr" where
  "splitJid jid = rbind (findAtIndex jid)
    (\<lambda>atIndex. Inr (slice jid 0 atIndex, internServerAt jid (atIndex + 1)))"

text \<open>\<open>String.prototype.trim\<close>.\<close>

definition is_js_space :: "nat \<Rightarrow> bool" where
  "is_js_space c \<longleftrightarrow> 9 \<le> c \<and> c \<le> 13 \<or> 0x2000 \<le> c \<and> c \<le> 0x200A \<or>
    c \<in> {32, 0xA0, 0x1680, 0x2028, 0x2029, 0x202F, 0x205F, 0x3000, 0xFEFF}"

definition js_trim :: "jstr \<Rightarrow> jstr" where
  "js_trim s = rev (dropWhile is_js_space (rev (dropWhile is_js_space s)))"

text \<open>The scan of \<open>normalizeRecipientJid\<close>: \<open>None\<close> when it meets an \<open>@\<close>, else whether there is a dash.\<close>

fun scan_recipient :: "jstr \<Rightarrow> bool \<Rightarrow> bool option" where
  "scan_recipient [] hasDash = Some hasDash"
| "scan_recipient (code # rest) hasDash =
    (if code = 64 then None else scan_recipient rest (if code = 45 then True else hasDash))"

definition normalizeRecipientJid :: "jstr \<Rightarrow> jid_error + jstr" where
  "normalizeRecipientJid to =
    (let input = js_trim to in
     if length input = 0 then Inl RecipientEmpty
     else case scan_recipient input False of
         None \<Rightarrow> Inr input
       | Some hasDash \<Rightarrow>
           let digits = extractDigits input in
           if hasDash then Inr (input @ js ''@'' @ GROUP_SERVER)
           else if length digits = 0 then Inl InvalidRecipient
           else Inr (digits @ js ''@'' @ HOST_DOMAIN))"

subsection \<open>Classification\<close>

definition isJidType :: "jstr \<Rightarrow> jstr \<Rightarrow> bool" where
  "isJidType jid type =
    (let atIndex = int (length jid) - int (length type) - 1 in
     if atIndex < 1 \<or> jid ! nat atIndex \<noteq> 64 \<or> drop (length jid - length type) jid \<noteq> type then False
     else list_all (\<lambda>c. c \<noteq> 64) (take (nat atIndex) jid))"

definition isLidJid :: "jstr \<Rightarrow> bool" where "isLidJid jid = isJidType jid LID_SERVER"
definition isUserJid :: "jstr \<Rightarrow> bool" where "isUserJid jid = isJidType jid HOST_DOMAIN"
definition isBotJid :: "jstr \<Rightarrow> bool" where "isBotJid jid = isJidType jid BOT_SERVER"
definition isGroupJid :: "jstr \<Rightarrow> bool" where "isGroupJid jid = isJidType jid GROUP_SERVER"
definition isBroadcastJid :: "jstr \<Rightarrow> bool" where
  "isBroadcastJid jid = isJidType jid BROADCAST_SERVER"
definition isStatusBroadcastJid :: "jstr \<Rightarrow> bool" where
  "isStatusBroadcastJid jid = (jid = STATUS_BROADCAST_JID)"
definition isNewsletterJid :: "jstr \<Rightarrow> bool" where
  "isNewsletterJid jid = isJidType jid NEWSLETTER_SERVER"
definition isGroupOrBroadcastJid :: "jstr \<Rightarrow> bool" where
  "isGroupOrBroadcastJid jid = (isGroupJid jid \<or> isBroadcastJid jid)"

subsection \<open>Addresses\<close>

text \<open>The digit loops: \<open>None\<close> where the source throws or returns \<open>false\<close>.\<close>

fun device_loop :: "jstr \<Rightarrow> nat \<Rightarrow> nat option" where
  "device_loop [] d = Some d"
| "device_loop (code # rest) d =
    (let digit = int code - 48 in
     if digit < 0 \<or> 9 < digit then None
     else let d' = d * 10 + nat digit in
       if MAX_SAFE_INTEGER < d' then None else device_loop rest d')"

definition parseSignalAddressFromJid :: "jstr \<Rightarrow> jid_error + signal_address" where
  "parseSignalAddressFromJid jid =
    rbind (findAtIndex jid) (\<lambda>atIndex.
      let serv = internServerAt jid (atIndex + 1) in
      case index_of 58 jid of
        None \<Rightarrow> Inr \<lparr>user = slice jid 0 atIndex, server = Some serv, device = 0\<rparr>
      | Some colonIndex \<Rightarrow>
          if atIndex < colonIndex then Inr \<lparr>user = slice jid 0 atIndex, server = Some serv, device = 0\<rparr>
          else if atIndex - 1 \<le> colonIndex then Inl InvalidJidDevice
          else case device_loop (slice jid (colonIndex + 1) atIndex) 0 of
              None \<Rightarrow> Inl InvalidJidDevice
            | Some dev \<Rightarrow> Inr \<lparr>user = slice jid 0 colonIndex, server = Some serv, device = dev\<rparr>)"

text \<open>\<open>address.server ?? WA_DEFAULTS.HOST_DOMAIN\<close>.\<close>

definition server_or_host :: "signal_address \<Rightarrow> jstr" where
  "server_or_host a = (case server a of Some s \<Rightarrow> s | None \<Rightarrow> HOST_DOMAIN)"

definition user_at :: "jstr \<Rightarrow> jstr \<Rightarrow> jstr" where
  "user_at u s = u @ js ''@'' @ s"

definition device_at :: "jstr \<Rightarrow> nat \<Rightarrow> jstr \<Rightarrow> jstr" where
  "device_at u d s = u @ js '':'' @ js_dec d @ js ''@'' @ s"

record parsed_jid =
  address :: signal_address
  userJid :: jstr
  normalizedJid :: jstr

definition parseJidFull :: "jstr \<Rightarrow> jid_error + parsed_jid" where
  "parseJidFull jid = rbind (parseSignalAddressFromJid jid) (\<lambda>a.
    let uj = user_at (user a) (server_or_host a) in
    Inr \<lparr>address = a, userJid = uj,
      normalizedJid = (if device a = 0 then uj else device_at (user a) (device a) (server_or_host a))\<rparr>)"

definition canonicalizeSignalServer :: "jstr \<Rightarrow> jstr \<Rightarrow> jstr" where
  "canonicalizeSignalServer serv hostDomain =
    (if serv = HOSTED_SERVER then hostDomain
     else if serv = HOSTED_LID_SERVER then LID_SERVER
     else serv)"

definition canonicalizeSignalJid :: "jstr \<Rightarrow> jstr \<Rightarrow> jid_error + jstr" where
  "canonicalizeSignalJid jid hostDomain = rbind (parseSignalAddressFromJid jid) (\<lambda>a.
    let serv = canonicalizeSignalServer (server_or_host a) hostDomain in
    if device a = 0 then Inr (user_at (user a) serv) else Inr (device_at (user a) (device a) serv))"

definition isHostedServerAt :: "jstr \<Rightarrow> nat \<Rightarrow> bool" where
  "isHostedServerAt jid from =
    (let len = length jid - from in
     if len = length HOSTED_SERVER then starts_at jid HOSTED_SERVER from
     else if len = length HOSTED_LID_SERVER then starts_at jid HOSTED_LID_SERVER from
     else False)"

definition toUserJid :: "jstr \<Rightarrow> bool \<Rightarrow> jstr \<Rightarrow> jid_error + jstr" where
  "toUserJid jid canonicalize hostDomain =
    (let fast = (case index_of 64 jid of
             None \<Rightarrow> False
           | Some atIndex \<Rightarrow> 1 \<le> atIndex \<and> atIndex < length jid - 1 \<and>
               (case index_of 58 jid of None \<Rightarrow> True | Some colonIndex \<Rightarrow> atIndex < colonIndex) \<and>
               (\<not> canonicalize \<or> \<not> isHostedServerAt jid (atIndex + 1)))
     in if fast then Inr jid
        else rbind (parseSignalAddressFromJid jid) (\<lambda>a.
          let baseServer = server_or_host a;
              serv = (if canonicalize then canonicalizeSignalServer baseServer hostDomain else baseServer)
          in if serv = baseServer \<and> length jid = length (user a) + 1 + length serv then Inr jid
             else Inr (user_at (user a) serv)))"

text \<open>\<open>!!me && ...\<close>: an absent or empty identity never matches.\<close>

definition matches_identity :: "jstr \<Rightarrow> jstr option \<Rightarrow> jid_error + bool" where
  "matches_identity candidateUser me =
    (case me of
       None \<Rightarrow> Inr False
     | Some m \<Rightarrow> if m = [] then Inr False
         else rbind (toUserJid m True HOST_DOMAIN) (\<lambda>u. Inr (u = candidateUser)))"

definition isOwnAccountJid :: "jstr \<Rightarrow> jstr option \<Rightarrow> jstr option \<Rightarrow> jid_error + bool" where
  "isOwnAccountJid jid meJid meLid =
    rbind (toUserJid jid True HOST_DOMAIN) (\<lambda>candidateUser.
      rbind (matches_identity candidateUser meJid) (\<lambda>pn.
        if pn then Inr True else matches_identity candidateUser meLid))"

definition canonicalizeOwnAccountJid :: "jstr \<Rightarrow> jstr option \<Rightarrow> jstr option \<Rightarrow> jstr" where
  "canonicalizeOwnAccountJid jid meJid meLid =
    (case (meJid, meLid) of
       (Some pn, Some lid) \<Rightarrow>
         if pn = [] \<or> lid = [] then jid
         else (case parseSignalAddressFromJid jid of
             Inl _ \<Rightarrow> jid
           | Inr a \<Rightarrow>
               if server_or_host a \<noteq> HOST_DOMAIN then jid
               else (case (parseSignalAddressFromJid pn, parseSignalAddressFromJid lid) of
                   (Inr mePn, Inr meLid) \<Rightarrow>
                     if user a \<noteq> user mePn then jid
                     else if device a = 0 then user_at (user meLid) LID_SERVER
                     else device_at (user meLid) (device a) LID_SERVER
                 | _ \<Rightarrow> jid))
     | _ \<Rightarrow> jid)"

definition normalizeDeviceJid :: "jstr \<Rightarrow> jid_error + jstr" where
  "normalizeDeviceJid jid = rbind (parseSignalAddressFromJid jid) (\<lambda>a.
    if device a = 0 then Inr (user_at (user a) (server_or_host a))
    else Inr (device_at (user a) (device a) (server_or_host a)))"

definition isHostedDeviceId :: "nat \<Rightarrow> bool" where
  "isHostedDeviceId deviceId = (deviceId = HOSTED_DEVICE_ID)"

definition isHostedServer :: "jstr \<Rightarrow> bool" where
  "isHostedServer serv = (serv = HOSTED_SERVER \<or> serv = HOSTED_LID_SERVER)"

definition buildDeviceJid :: "jstr \<Rightarrow> jstr \<Rightarrow> nat \<Rightarrow> jstr option \<Rightarrow> bool \<Rightarrow> jstr" where
  "buildDeviceJid usr normalizedServer deviceId rawServer isHosted =
    (if isHosted then
       (if \<not> isHostedDeviceId deviceId then device_at usr deviceId normalizedServer
        else let hostedServer =
              (if rawServer = Some HOSTED_LID_SERVER \<or> normalizedServer = LID_SERVER
               then HOSTED_LID_SERVER else HOSTED_SERVER)
          in device_at usr HOSTED_DEVICE_ID hostedServer)
     else if deviceId = 0 then user_at usr normalizedServer
     else device_at usr deviceId normalizedServer)"

definition applyDeviceToJid :: "jstr \<Rightarrow> nat option \<Rightarrow> jid_error + jstr" where
  "applyDeviceToJid uj dev =
    (case dev of
       None \<Rightarrow> Inr uj
     | Some d \<Rightarrow> if d = 0 then Inr uj
         else rbind (parseSignalAddressFromJid uj)
           (\<lambda>a. Inr (buildDeviceJid (user a) (server_or_host a) d None False)))"

definition isHostedDeviceJid :: "jstr \<Rightarrow> bool" where
  "isHostedDeviceJid jid =
    (case index_of 64 jid of
       None \<Rightarrow> False
     | Some atIndex \<Rightarrow>
         if atIndex < 1 \<or> length jid - 1 \<le> atIndex then False
         else if isHostedServerAt jid (atIndex + 1) then True
         else case index_of 58 jid of
             None \<Rightarrow> False
           | Some colonIndex \<Rightarrow>
               if atIndex - 1 \<le> colonIndex then False
               else case device_loop (slice jid (colonIndex + 1) atIndex) 0 of
                   None \<Rightarrow> False
                 | Some deviceId \<Rightarrow> isHostedDeviceId deviceId)"

text \<open>\<open>Number.parseInt(s, 10)\<close>: white space, a sign, then the longest run of digits; \<open>None\<close> is \<open>NaN\<close>.\<close>

definition parse_int :: "jstr \<Rightarrow> int option" where
  "parse_int s =
    (let t = dropWhile is_js_space s;
         neg = (t \<noteq> [] \<and> hd t = 45);
         body = (if t \<noteq> [] \<and> (hd t = 45 \<or> hd t = 43) then tl t else t);
         ds = takeWhile is_digit_unit body
     in if ds = [] then None else Some (if neg then - int (digits_val ds) else int (digits_val ds)))"

definition safe_from :: "int \<Rightarrow> int option \<Rightarrow> bool" where
  "safe_from low v = (case v of None \<Rightarrow> False | Some n \<Rightarrow> low \<le> n \<and> n \<le> int MAX_SAFE_INTEGER)"

definition getLoginIdentity :: "jstr \<Rightarrow> jid_error + int \<times> int" where
  "getLoginIdentity meJid =
    rbind (findAtIndex meJid) (\<lambda>atIndex.
      let colonIndex = index_of 58 meJid; dotIndex = index_of 46 meJid;
          hasColon = (case colonIndex of None \<Rightarrow> False | Some c \<Rightarrow> c < atIndex);
          hasDot = (case dotIndex of None \<Rightarrow> False
            | Some d \<Rightarrow> d < atIndex \<and> (case colonIndex of None \<Rightarrow> True | Some c \<Rightarrow> d < c));
          userEndIndex = (if hasDot then the dotIndex else if hasColon then the colonIndex else atIndex);
          username = parse_int (slice meJid 0 userEndIndex);
          dev = (if hasColon then parse_int (slice meJid (the colonIndex + 1) atIndex) else Some 0)
      in if \<not> safe_from 1 username then Inl InvalidUsername
         else if \<not> safe_from 0 dev then Inl InvalidDevice
         else Inr (the username, the dev))"

definition parsePhoneJid :: "jstr \<Rightarrow> jid_error + jstr" where
  "parsePhoneJid input =
    (let digits = extractDigits input in
     if digits = [] then Inl PhoneEmpty else Inr (digits @ js ''@'' @ HOST_DOMAIN))"

definition signalAddressKey :: "signal_address \<Rightarrow> jstr" where
  "signalAddressKey a = user a @ js ''|'' @ server_or_host a @ js ''|'' @ js_dec (device a)"

subsection \<open>Parsing and printing\<close>

lemma user_at_eq: "user_at u s = u @ 64 # s"
  by (simp add: user_at_def js_def)

lemma device_at_eq: "device_at u d s = u @ 58 # js_dec d @ 64 # s"
  by (simp add: device_at_def js_def)

lemmas jid_forms = user_at_eq device_at_eq

lemma intern_find:
  "List.find (\<lambda>s. length s = length jid - from \<and> starts_at jid s from) xs = Some s \<Longrightarrow>
    from \<le> length jid \<Longrightarrow> s = drop from jid"
  by (induction xs) (auto simp: starts_at_def split: if_splits)

lemma internServerAt_eq [simp]: "from \<le> length jid \<Longrightarrow> internServerAt jid from = drop from jid"
  by (auto simp: internServerAt_def dest: intern_find split: option.split)

lemma digits_mono: "acc \<le> foldl (\<lambda>acc c. acc * 10 + (c - 48)) acc ds" for acc :: nat
proof (induction ds arbitrary: acc)
  case (Cons c ds)
  from Cons [of "acc * 10 + (c - 48)"] show ?case by simp
qed simp

lemma device_loop_Some_iff:
  "device_loop ds d = Some d' \<longleftrightarrow> list_all is_digit_unit ds \<and>
    d' = foldl (\<lambda>acc c. acc * 10 + (c - 48)) d ds \<and> (ds \<noteq> [] \<longrightarrow> d' \<le> MAX_SAFE_INTEGER)"
proof (induction ds d rule: device_loop.induct)
  case (2 c rest d)
  show ?case
  proof (cases "is_digit_unit c")
    case False
    then show ?thesis by (auto simp: is_digit_unit_def)
  next
    case True
    then have c: "nat (int c - 48) = c - 48" "\<not> (int c - 48 < 0 \<or> 9 < int c - 48)"
      by (auto simp: is_digit_unit_def)
    have "d * 10 + (c - 48) \<le> foldl (\<lambda>acc c. acc * 10 + (c - 48)) (d * 10 + (c - 48)) rest"
      by (rule digits_mono)
    with 2 [OF refl c(2) refl] c True show ?thesis
      by (cases "rest = []") (auto simp: Let_def)
  qed
qed auto

lemma device_loop_js_dec: "d \<le> MAX_SAFE_INTEGER \<Longrightarrow> device_loop (js_dec d) 0 = Some d"
  using digits_val_js_dec [of d] js_dec_digits [of _ d]
  by (simp add: device_loop_Some_iff digits_val_def list_all_iff)

lemma js_dec_separators [simp]: "64 \<notin> set (js_dec n)" "58 \<notin> set (js_dec n)" "124 \<notin> set (js_dec n)"
  using js_dec_digits [of 64 n] js_dec_digits [of 58 n] js_dec_digits [of 124 n]
  by (auto simp: is_digit_unit_def)

lemma parse_user_at:
  assumes "u \<noteq> []" "64 \<notin> set u" "58 \<notin> set u" "s \<noteq> []"
  shows "parseSignalAddressFromJid (user_at u s) = Inr \<lparr>user = u, server = Some s, device = 0\<rparr>"
proof -
  have "index_of 64 (u @ 64 # s) = Some (length u)" by (rule index_of_append [OF assms(2)])
  then show ?thesis
    using assms by (auto simp: parseSignalAddressFromJid_def findAtIndex_def jid_forms slice_def
        index_of_append_notin Let_def split: option.split)
qed

lemma parse_digits:
  assumes "64 \<notin> set u" "58 \<notin> set u" "s \<noteq> []" "ds \<noteq> []" "device_loop ds 0 = Some d"
  shows "parseSignalAddressFromJid (u @ 58 # ds @ 64 # s) = Inr \<lparr>user = u, server = Some s, device = d\<rparr>"
proof -
  have "64 \<notin> set (u @ 58 # ds)"
    using assms by (auto simp: device_loop_Some_iff list_all_iff is_digit_unit_def)
  from index_of_append [OF this, of s] index_of_append [OF assms(2), of "ds @ 64 # s"]
  show ?thesis
    using assms by (auto simp: parseSignalAddressFromJid_def findAtIndex_def slice_def Let_def)
qed

lemma parse_device_at:
  assumes "64 \<notin> set u" "58 \<notin> set u" "s \<noteq> []" "d \<le> MAX_SAFE_INTEGER"
  shows "parseSignalAddressFromJid (device_at u d s) = Inr \<lparr>user = u, server = Some s, device = d\<rparr>"
  unfolding device_at_eq using assms by (intro parse_digits device_loop_js_dec) auto

text \<open>Every JID the parser accepts has one of the two forms.\<close>

lemma parse_cases:
  assumes "parseSignalAddressFromJid jid = Inr a"
  obtains (user) u s where "a = \<lparr>user = u, server = Some s, device = 0\<rparr>" "jid = u @ 64 # s"
      "u \<noteq> []" "64 \<notin> set u" "58 \<notin> set u" "s \<noteq> []"
  | (device) u s ds d where "a = \<lparr>user = u, server = Some s, device = d\<rparr>" "jid = u @ 58 # ds @ 64 # s"
      "ds \<noteq> []" "device_loop ds 0 = Some d" "d \<le> MAX_SAFE_INTEGER"
      "64 \<notin> set u" "58 \<notin> set u" "s \<noteq> []"
proof -
  obtain at where at: "index_of 64 jid = Some at" "1 \<le> at" "at < length jid - 1"
    using assms by (auto simp: parseSignalAddressFromJid_def rbind_eq_Inr_iff findAtIndex_def
        split: option.splits if_splits)
  then obtain w s where jid: "jid = w @ 64 # s" "length w = at" "64 \<notin> set w"
    using index_of_Some_split by metis
  have ne: "w \<noteq> []" "s \<noteq> []" using at jid by auto
  have fi: "findAtIndex jid = Inr (length w)" using at jid(2) by (simp add: findAtIndex_def)
  have s: "internServerAt jid (length w + 1) = s" by (simp add: jid(1))
  show thesis
  proof (cases "58 \<in> set w")
    case False
    then have "a = \<lparr>user = w, server = Some s, device = 0\<rparr>"
      using assms jid(1) s unfolding parseSignalAddressFromJid_def fi
      by (auto simp: Let_def slice_def index_of_append_notin split: option.splits)
    with False jid ne show thesis by (intro user [of w s]) auto
  next
    case True
    then obtain c where "index_of 58 w = Some c" by (cases "index_of 58 w") (auto simp: index_of_None_iff)
    then obtain u ds where w: "w = u @ 58 # ds" "length u = c" "58 \<notin> set u"
      using index_of_Some_split by metis
    have "index_of 58 jid = Some (length u)"
      using index_of_append [OF w(3), of "ds @ 64 # s"] by (simp add: jid(1) w(1))
    moreover have "slice jid (length u + 1) (length w) = ds" "slice jid 0 (length u) = u"
      by (simp_all add: jid(1) w(1) slice_def)
    ultimately obtain d where "device_loop ds 0 = Some d" "ds \<noteq> []"
        "a = \<lparr>user = u, server = Some s, device = d\<rparr>"
      using assms s w(1) unfolding parseSignalAddressFromJid_def fi
      by (auto simp: Let_def split: option.splits if_splits)
    with w jid ne show thesis
      by (intro device [of u s d ds]) (auto simp: device_loop_Some_iff)
  qed
qed

lemmas parse_forms = parse_user_at parse_device_at

definition print_address :: "signal_address \<Rightarrow> jstr" where
  "print_address a =
    (if device a = 0 then user_at (user a) (server_or_host a)
     else device_at (user a) (device a) (server_or_host a))"

lemma normalizeDeviceJid_eq:
  "normalizeDeviceJid jid = rbind (parseSignalAddressFromJid jid) (\<lambda>a. Inr (print_address a))"
  by (simp add: normalizeDeviceJid_def print_address_def if_distrib)

lemma parse_print:
  assumes "parseSignalAddressFromJid jid = Inr a" "user a \<noteq> [] \<or> device a \<noteq> 0"
  shows "parseSignalAddressFromJid (print_address a) = Inr a"
  using assms(1)
proof (cases rule: parse_cases)
  case (user u s)
  then show ?thesis using parse_user_at by (simp add: print_address_def server_or_host_def)
next
  case (device u s ds d)
  then show ?thesis
    using assms(2) parse_user_at [of u s] parse_device_at [of u s d]
    by (cases "d = 0") (simp_all add: print_address_def server_or_host_def)
qed

lemma isHostedServerAt_eq:
  assumes "from \<le> length jid"
  shows "isHostedServerAt jid from \<longleftrightarrow> isHostedServer (drop from jid)"
proof -
  have "length HOSTED_SERVER = 6" "length HOSTED_LID_SERVER = 10"
    by (simp_all add: HOSTED_SERVER_def HOSTED_LID_SERVER_def)
  moreover define t where "t = drop from jid"
  moreover have "length jid - from = length t" by (simp add: t_def)
  ultimately show ?thesis
    unfolding isHostedServerAt_def isHostedServer_def starts_at_def Let_def t_def [symmetric] by auto
qed

lemma canonicalizeSignalServer_id:
  "\<not> isHostedServer s \<Longrightarrow> canonicalizeSignalServer s h = s"
  by (simp add: isHostedServer_def canonicalizeSignalServer_def)

definition user_server :: "signal_address \<Rightarrow> bool \<Rightarrow> jstr \<Rightarrow> jstr" where
  "user_server a canonicalize hostDomain =
    (if canonicalize then canonicalizeSignalServer (server_or_host a) hostDomain else server_or_host a)"

text \<open>The fast path and the early returns of \<open>toUserJid\<close> give what parsing and printing gives.\<close>

lemma toUserJid_eq:
  "toUserJid jid canonicalize hostDomain = rbind (parseSignalAddressFromJid jid)
    (\<lambda>a. Inr (user_at (user a) (user_server a canonicalize hostDomain)))"
proof (cases "parseSignalAddressFromJid jid")
  case (Inl e)
  have "\<not> (\<exists>at. index_of 64 jid = Some at \<and> 1 \<le> at \<and> at < length jid - 1 \<and>
      (case index_of 58 jid of None \<Rightarrow> True | Some colonIndex \<Rightarrow> at < colonIndex))"
    using Inl by (auto simp: parseSignalAddressFromJid_def findAtIndex_def Let_def split: option.splits)
  with Inl show ?thesis unfolding toUserJid_def Let_def by (auto split: option.split)
next
  case (Inr a)
  let ?s = "user_server a canonicalize hostDomain"
  from Inr show ?thesis
  proof (cases rule: parse_cases)
    case (user u s)
    have at: "index_of 64 jid = Some (length u)"
      using index_of_append [OF user(4), of s] user(2) by simp
    have "?s = s" if "\<not> (canonicalize \<and> isHostedServer s)"
      using that user(1) canonicalizeSignalServer_id
      by (auto simp: user_server_def server_or_host_def)
    moreover have "isHostedServerAt jid (length u + 1) \<longleftrightarrow> isHostedServer s"
      by (simp add: isHostedServerAt_eq user(2))
    moreover have "length jid = length u + 1 + length s" by (simp add: user(2))
    ultimately show ?thesis
      using user at Inr unfolding toUserJid_def Let_def
      by (auto simp: user_server_def server_or_host_def jid_forms split: option.split)
  next
    case (device u s ds d)
    have "64 \<notin> set (u @ 58 # ds)"
      using device by (auto simp: device_loop_Some_iff list_all_iff is_digit_unit_def)
    then have "index_of 64 jid = Some (length u + Suc (length ds))" "index_of 58 jid = Some (length u)"
      using index_of_append [of 64 "u @ 58 # ds" s] index_of_append [OF device(7), of "ds @ 64 # s"]
      by (simp_all add: device(2))
    moreover have "length jid \<noteq> length u + 1 + length s" by (simp add: device(2))
    ultimately show ?thesis
      using device(1) Inr unfolding toUserJid_def Let_def
      by (auto simp: user_server_def server_or_host_def jid_forms split: option.split)
  qed
qed

lemma isJidType_iff: "isJidType jid type \<longleftrightarrow> (\<exists>u. u \<noteq> [] \<and> 64 \<notin> set u \<and> jid = u @ 64 # type)"
proof
  assume h: "isJidType jid type"
  define n where "n = length jid - length type - 1"
  have n: "nat (int (length jid) - int (length type) - 1) = n" by (simp add: n_def)
  have c: "length type + 2 \<le> length jid" "jid ! n = 64" "drop (length jid - length type) jid = type"
      "list_all (\<lambda>c. c \<noteq> 64) (take n jid)"
    using h unfolding isJidType_def Let_def n by (auto split: if_splits)
  moreover have "Suc n = length jid - length type" "n < length jid" "0 < n" using c(1) by (auto simp: n_def)
  ultimately have "jid = take n jid @ 64 # type" "take n jid \<noteq> []" "64 \<notin> set (take n jid)"
    using id_take_nth_drop [of n jid] by (auto simp: list_all_iff)
  then show "\<exists>u. u \<noteq> [] \<and> 64 \<notin> set u \<and> jid = u @ 64 # type" by blast
next
  assume "\<exists>u. u \<noteq> [] \<and> 64 \<notin> set u \<and> jid = u @ 64 # type"
  then obtain u where u: "u \<noteq> []" "64 \<notin> set u" "jid = u @ 64 # type" by blast
  have "int (length jid) - int (length type) - 1 = int (length u)" by (simp add: u(3))
  with u show "isJidType jid type"
    by (auto simp: isJidType_def Let_def list_all_iff Suc_le_eq)
qed

lemma parse_Inr_server:
  assumes "parseSignalAddressFromJid jid = Inr a"
  shows "server_or_host a \<noteq> []" "server a = Some (server_or_host a)" "64 \<notin> set (user a)"
    "58 \<notin> set (user a)" "device a \<le> MAX_SAFE_INTEGER" "user a = [] \<Longrightarrow> 58 \<in> set jid"
  using assms by (cases rule: parse_cases; simp add: server_or_host_def)+

lemma isOwnAccountJid_address:
  assumes "parseSignalAddressFromJid j = Inr a" "parseSignalAddressFromJid j' = Inr a'"
    "user a = user a'" "canonicalizeSignalServer (server_or_host a) HOST_DOMAIN =
      canonicalizeSignalServer (server_or_host a') HOST_DOMAIN"
  shows "isOwnAccountJid j meJid meLid = isOwnAccountJid j' meJid meLid"
  using assms by (simp add: isOwnAccountJid_def toUserJid_eq user_server_def)

subsection \<open>Properties\<close>

text \<open>
  Printing and parsing a device JID are inverse: the address \<open>buildDeviceJid\<close> was given comes
  back, for every user without separators and every safe device number.
\<close>

theorem jid_print_parse:
  assumes "u \<noteq> []" "64 \<notin> set u" "58 \<notin> set u" "s \<noteq> []" "d \<le> MAX_SAFE_INTEGER"
  shows "parseSignalAddressFromJid (buildDeviceJid u s d raw False) =
    Inr \<lparr>user = u, server = Some s, device = d\<rparr>"
  using assms parse_user_at [of u s] parse_device_at [of u s d] by (simp add: buildDeviceJid_def)

theorem jid_print_parse_witness:
  "parseSignalAddressFromJid (buildDeviceJid (js ''5511'') LID_SERVER 12 None False) =
    Inr \<lparr>user = js ''5511'', server = Some LID_SERVER, device = 12\<rparr>"
  by (rule jid_print_parse) (simp_all add: js_def MAX_SAFE_INTEGER_def)

text \<open>
  \<open>normalizeDeviceJid\<close> keeps the address and is idempotent: a second call changes nothing,
  whatever leading zeros or zero device the input had.
\<close>

theorem normalizeDeviceJid_stable:
  assumes "parseSignalAddressFromJid jid = Inr a" "user a \<noteq> []"
  shows "\<exists>jid'. normalizeDeviceJid jid = Inr jid' \<and> parseSignalAddressFromJid jid' = Inr a \<and>
    normalizeDeviceJid jid' = Inr jid'"
  using assms parse_print [OF assms(1)] by (simp add: normalizeDeviceJid_eq)

theorem normalizeDeviceJid_stable_witness:
  "\<exists>jid'. normalizeDeviceJid (js ''5:007@lid'') = Inr jid' \<and>
    parseSignalAddressFromJid jid' = Inr \<lparr>user = js ''5'', server = Some (js ''lid''), device = 7\<rparr> \<and>
    normalizeDeviceJid jid' = Inr jid'"
proof -
  have "parseSignalAddressFromJid (js ''5:007@lid'') =
      Inr \<lparr>user = js ''5'', server = Some (js ''lid''), device = 7\<rparr>"
    using parse_digits [of "js ''5''" "js ''lid''" "js ''007''" 7] by (simp add: js_def MAX_SAFE_INTEGER_def)
  from normalizeDeviceJid_stable [OF this] show ?thesis by (simp add: js_def)
qed

text \<open>
  The shortcuts of \<open>toUserJid\<close> (returning the input when it has no device and no hosted
  server, or when nothing was cut off) agree with the plain definition: parse the JID, drop the
  device, rewrite a hosted server if asked to, print; and it throws exactly when parsing throws.
\<close>

theorem toUserJid_spec:
  "toUserJid jid canonicalize hostDomain = rbind (parseSignalAddressFromJid jid) (\<lambda>a.
    Inr (user_at (user a) (if canonicalize then canonicalizeSignalServer (server_or_host a) hostDomain
      else server_or_host a)))"
  by (simp add: toUserJid_eq user_server_def)

text \<open>
  A JID belongs to the account whatever device it names and whether or not it uses the hosted
  variant of the server.
\<close>

theorem own_account_ignores_device:
  assumes "u \<noteq> []" "64 \<notin> set u" "58 \<notin> set u" "s \<noteq> []" "d \<le> MAX_SAFE_INTEGER"
  shows "isOwnAccountJid (device_at u d s) meJid meLid =
    isOwnAccountJid (user_at u (canonicalizeSignalServer s HOST_DOMAIN)) meJid meLid"
proof -
  have "canonicalizeSignalServer s HOST_DOMAIN \<noteq> []"
    "canonicalizeSignalServer (canonicalizeSignalServer s HOST_DOMAIN) HOST_DOMAIN =
      canonicalizeSignalServer s HOST_DOMAIN"
    using assms(4) by (simp_all add: canonicalizeSignalServer_def)
  with assms show ?thesis
    by (intro isOwnAccountJid_address [OF parse_device_at parse_user_at])
      (simp_all add: server_or_host_def)
qed

theorem own_account_ignores_device_witness:
  "isOwnAccountJid (device_at (js ''5'') 99 HOSTED_SERVER) (Some (js ''5@s.whatsapp.net'')) None =
    isOwnAccountJid (user_at (js ''5'') (canonicalizeSignalServer HOSTED_SERVER HOST_DOMAIN))
      (Some (js ''5@s.whatsapp.net'')) None"
  by (rule own_account_ignores_device) (simp_all add: js_def MAX_SAFE_INTEGER_def)

text \<open>
  A JID of the account's own phone number is rewritten to the LID of the account with the same
  device, so both name one Signal session.
\<close>

theorem own_account_to_lid:
  assumes "parseSignalAddressFromJid jid = Inr a" "server_or_host a = HOST_DOMAIN"
    "parseSignalAddressFromJid mePn = Inr pn" "user a = user pn"
    "parseSignalAddressFromJid meLid = Inr lid" "user lid \<noteq> []"
  shows "parseSignalAddressFromJid (canonicalizeOwnAccountJid jid (Some mePn) (Some meLid)) =
    Inr \<lparr>user = user lid, server = Some LID_SERVER, device = device a\<rparr>"
proof -
  have "mePn \<noteq> []" "meLid \<noteq> []"
    using assms(3,5) by (auto simp: parseSignalAddressFromJid_def findAtIndex_def)
  then have "canonicalizeOwnAccountJid jid (Some mePn) (Some meLid) =
      print_address \<lparr>user = user lid, server = Some LID_SERVER, device = device a\<rparr>"
    using assms by (simp add: canonicalizeOwnAccountJid_def print_address_def server_or_host_def)
  then show ?thesis
    using assms(6) parse_Inr_server(3,4) [OF assms(5)] parse_Inr_server(5) [OF assms(1)]
      parse_user_at [of "user lid" LID_SERVER] parse_device_at [of "user lid" LID_SERVER "device a"]
    by (simp add: print_address_def server_or_host_def)
qed

theorem own_account_to_lid_witness:
  "parseSignalAddressFromJid (canonicalizeOwnAccountJid (device_at (js ''5'') 3 HOST_DOMAIN)
      (Some (user_at (js ''5'') HOST_DOMAIN)) (Some (user_at (js ''88'') LID_SERVER))) =
    Inr \<lparr>user = js ''88'', server = Some LID_SERVER, device = 3\<rparr>"
proof -
  have "parseSignalAddressFromJid (device_at (js ''5'') 3 HOST_DOMAIN) =
      Inr \<lparr>user = js ''5'', server = Some HOST_DOMAIN, device = 3\<rparr>"
    "parseSignalAddressFromJid (user_at (js ''5'') HOST_DOMAIN) =
      Inr \<lparr>user = js ''5'', server = Some HOST_DOMAIN, device = 0\<rparr>"
    "parseSignalAddressFromJid (user_at (js ''88'') LID_SERVER) =
      Inr \<lparr>user = js ''88'', server = Some LID_SERVER, device = 0\<rparr>"
    using parse_device_at [of "js ''5''" HOST_DOMAIN 3] parse_user_at [of "js ''5''" HOST_DOMAIN]
      parse_user_at [of "js ''88''" LID_SERVER] by (simp_all add: js_def MAX_SAFE_INTEGER_def)
  from own_account_to_lid [OF this(1) _ this(2) _ this(3)] show ?thesis
    by (simp add: server_or_host_def js_def)
qed

text \<open>
  The classification predicates recognise exactly the JIDs \<open>user@server\<close> with a non-empty user
  that contains no further \<open>@\<close>.
\<close>

theorem jid_classes:
  "isLidJid jid = (\<exists>u. u \<noteq> [] \<and> 64 \<notin> set u \<and> jid = user_at u LID_SERVER) \<and>
    isUserJid jid = (\<exists>u. u \<noteq> [] \<and> 64 \<notin> set u \<and> jid = user_at u HOST_DOMAIN) \<and>
    isGroupJid jid = (\<exists>u. u \<noteq> [] \<and> 64 \<notin> set u \<and> jid = user_at u GROUP_SERVER) \<and>
    isBroadcastJid jid = (\<exists>u. u \<noteq> [] \<and> 64 \<notin> set u \<and> jid = user_at u BROADCAST_SERVER) \<and>
    isNewsletterJid jid = (\<exists>u. u \<noteq> [] \<and> 64 \<notin> set u \<and> jid = user_at u NEWSLETTER_SERVER) \<and>
    isBotJid jid = (\<exists>u. u \<noteq> [] \<and> 64 \<notin> set u \<and> jid = user_at u BOT_SERVER)"
  by (simp add: isLidJid_def isUserJid_def isGroupJid_def isBroadcastJid_def isNewsletterJid_def
      isBotJid_def isJidType_iff user_at_eq)

text \<open>
  \<open>signalAddressKey\<close> identifies the address: equal keys mean equal user, server and device,
  as long as servers contain no bar.
\<close>

theorem signalAddressKey_injective:
  assumes "signalAddressKey a = signalAddressKey b"
    "124 \<notin> set (server_or_host a)" "124 \<notin> set (server_or_host b)"
  shows "user a = user b \<and> server_or_host a = server_or_host b \<and> device a = device b"
proof -
  have split: "xs = ys \<and> us = vs" if "us @ 124 # xs = vs @ 124 # ys" "124 \<notin> set xs" "124 \<notin> set ys"
    for us vs xs ys :: jstr
  proof -
    have "rev xs @ 124 # rev us = rev ys @ 124 # rev vs"
      using that(1) by (metis rev.simps(2) rev_append append.assoc append_Cons append_Nil)
    moreover from this have "length (rev xs) = length (rev ys)"
      using index_of_append [of 124 "rev xs" "rev us"] index_of_append [of 124 "rev ys" "rev vs"] that(2,3)
      by simp
    ultimately show ?thesis by simp
  qed
  have key: "signalAddressKey c = (user c @ 124 # server_or_host c) @ 124 # js_dec (device c)" for c
    by (simp add: signalAddressKey_def js_def)
  from split [OF assms(1) [unfolded key]] have 1: "js_dec (device a) = js_dec (device b)"
      "user a @ 124 # server_or_host a = user b @ 124 # server_or_host b"
    by simp_all
  from 1(1) have "device a = device b" by (metis digits_val_js_dec)
  with split [OF 1(2) assms(2,3)] show ?thesis by simp
qed

theorem signalAddressKey_injective_witness:
  "signalAddressKey \<lparr>user = js ''5'', server = None, device = 1\<rparr> =
      signalAddressKey \<lparr>user = js ''5'', server = Some HOST_DOMAIN, device = 1\<rparr> \<and>
    server_or_host \<lparr>user = js ''5'', server = None, device = 1\<rparr> =
      server_or_host \<lparr>user = js ''5'', server = Some HOST_DOMAIN, device = 1\<rparr>"
  using signalAddressKey_injective [of "\<lparr>user = js ''5'', server = None, device = 1\<rparr>"
      "\<lparr>user = js ''5'', server = Some HOST_DOMAIN, device = 1\<rparr>"]
  by (simp add: signalAddressKey_def server_or_host_def HOST_DOMAIN_def js_def)

text \<open>
  The parser accepts an empty user in front of a device: the user JID of such an address is
  one that no parser accepts.
\<close>

theorem empty_user_accepted:
  "parseSignalAddressFromJid (js '':5@lid'') = Inr \<lparr>user = [], server = Some LID_SERVER, device = 5\<rparr> \<and>
    toUserJid (js '':5@lid'') False HOST_DOMAIN = Inr (js ''@lid'') \<and>
    parseSignalAddressFromJid (js ''@lid'') = Inl InvalidJid"
proof -
  have "parseSignalAddressFromJid (js '':5@lid'') = Inr \<lparr>user = [], server = Some LID_SERVER, device = 5\<rparr>"
    using parse_digits [of "[]" LID_SERVER "js ''5''" 5]
    by (simp add: js_def MAX_SAFE_INTEGER_def LID_SERVER_def)
  then show ?thesis
    by (simp add: toUserJid_eq user_server_def server_or_host_def user_at_eq LID_SERVER_def js_def
        parseSignalAddressFromJid_def findAtIndex_def)
qed

end
