(* ===== verification/SenderKeyChain.thy ===== *)
theory SenderKeyChain
  imports MessageChain Crypto Jid
begin

text \<open>
  \<open>src/signal/group/SenderKeyChain.ts\<close> with the constants of \<open>src/signal/constants.ts\<close> and the
  sender key types of \<open>src/signal/types.ts\<close>: the chain of message keys of one sender in a group.
  The theory interprets the locale \<open>skipping_chain\<close> on \<open>selectMessageKey\<close>.
\<close>

definition MAX_UNUSED_KEYS :: nat where "MAX_UNUSED_KEYS = 2000"
definition FUTURE_MESSAGES_MAX :: nat where "FUTURE_MESSAGES_MAX = 2000"
definition SENDER_KEY_FUTURE_MESSAGES_MAX :: nat where "SENDER_KEY_FUTURE_MESSAGES_MAX = 20000"
definition MESSAGE_KEY_LABEL :: bytes where "MESSAGE_KEY_LABEL = [1]"
definition CHAIN_KEY_LABEL :: bytes where "CHAIN_KEY_LABEL = [2]"
definition WHISPER_GROUP_INFO :: bytes where "WHISPER_GROUP_INFO = text_encode (js ''WhisperGroup'')"
definition WHISPER_MESSAGE_KEYS_INFO :: bytes where
  "WHISPER_MESSAGE_KEYS_INFO = text_encode (js ''WhisperMessageKeys'')"

record sender_message_key =
  smk_iteration :: nat
  smk_seed :: bytes

record sender_key =
  sk_groupId :: jstr
  sk_sender :: signal_address
  sk_keyId :: nat
  sk_iteration :: nat
  sk_chainKey :: bytes
  sk_signingPublicKey :: bytes
  sk_signingPrivateKey :: "bytes option"
  sk_unusedMessageKeys :: "sender_message_key list option"

datatype sender_key_error =
    SenderKeyTooFarInFuture
  | SenderKeyIterationStale
  | SenderKeyChainKeyLength

definition ensureChainKey :: "bytes \<Rightarrow> sender_key_error + bytes" where
  "ensureChainKey chainKey =
    (case assertByteLength chainKey 32 of
       Inl _ \<Rightarrow> Inl SenderKeyChainKeyLength
     | Inr _ \<Rightarrow> Inr chainKey)"

definition deriveSenderKeyMsgKeyFromChainKey ::
    "crypto \<Rightarrow> nat \<Rightarrow> bytes \<Rightarrow> bytes \<times> sender_message_key" where
  "deriveSenderKeyMsgKeyFromChainKey C iteration chainKey =
    (let nextChainRaw = hmacSha256Sign C chainKey [CHAIN_KEY_LABEL];
         messageInputKey = hmacSha256Sign C chainKey [MESSAGE_KEY_LABEL];
         nextChainKey = subarray nextChainRaw 0 32;
         messageSeed = hkdf C messageInputKey None WHISPER_GROUP_INFO 50
     in (nextChainKey, \<lparr>smk_iteration = iteration, smk_seed = messageSeed\<rparr>))"

definition deriveSenderKeyMsgKey ::
    "crypto \<Rightarrow> nat \<Rightarrow> bytes \<Rightarrow> sender_key_error + bytes \<times> sender_message_key" where
  "deriveSenderKeyMsgKey C iteration chainKey =
    rbind (ensureChainKey chainKey) (\<lambda>k. Inr (deriveSenderKeyMsgKeyFromChainKey C iteration k))"

text \<open>\<open>findIndex\<close>.\<close>

fun find_index :: "('a \<Rightarrow> bool) \<Rightarrow> 'a list \<Rightarrow> nat option" where
  "find_index P [] = None"
| "find_index P (x # xs) = (if P x then Some 0 else map_option Suc (find_index P xs))"

text \<open>\<open>futureMessagesMax ?? SENDER_KEY_FUTURE_MESSAGES_MAX\<close>.\<close>

definition future_limit :: "nat option \<Rightarrow> nat" where
  "future_limit futureMessagesMax =
    (case futureMessagesMax of Some m \<Rightarrow> m | None \<Rightarrow> SENDER_KEY_FUTURE_MESSAGES_MAX)"

definition selectSenderMessageKey ::
    "crypto \<Rightarrow> sender_key \<Rightarrow> nat \<Rightarrow> nat option \<Rightarrow> sender_key_error + sender_message_key \<times> sender_key" where
  "selectSenderMessageKey C senderKey targetIteration futureMessagesMax =
    (let delta = int targetIteration - int (sk_iteration senderKey);
         future = future_limit futureMessagesMax;
         currentUnused = (case sk_unusedMessageKeys senderKey of Some u \<Rightarrow> u | None \<Rightarrow> [])
     in if int future < delta then Inl SenderKeyTooFarInFuture
        else if delta < 0 then
          (case find_index (\<lambda>entry. smk_iteration entry = targetIteration) currentUnused of
             None \<Rightarrow> Inl SenderKeyIterationStale
           | Some foundIndex \<Rightarrow>
               Inr (currentUnused ! foundIndex,
                 senderKey\<lparr>sk_unusedMessageKeys := Some (removeAt currentUnused (int foundIndex))\<rparr>))
        else rbind (ensureChainKey (sk_chainKey senderKey)) (\<lambda>chainKey0.
          let (chainKey, messageKey) =
                deriveSenderKeyMsgKeyFromChainKey C (sk_iteration senderKey) chainKey0
          in if delta = 0 then
               Inr (messageKey, senderKey\<lparr>sk_iteration := targetIteration + 1, sk_chainKey := chainKey,
                 sk_unusedMessageKeys := Some currentUnused\<rparr>)
             else
               let overflow = delta + int (length currentUnused) - int MAX_UNUSED_KEYS;
                   nextUnused = (if 0 < overflow then drop (nat overflow) currentUnused else currentUnused);
                   overflow' = (if 0 < overflow then overflow - int (length currentUnused) else overflow)
               in rbind (skip_loop (\<lambda>i k. Inr (deriveSenderKeyMsgKeyFromChainKey C i k)) (\<lambda>m. m)
                    (nat delta) (sk_iteration senderKey + 1) overflow' nextUnused messageKey chainKey)
                  (\<lambda>(nextUnused', messageKey', chainKey').
                    Inr (messageKey', senderKey\<lparr>sk_iteration := targetIteration + 1,
                      sk_chainKey := chainKey', sk_unusedMessageKeys := Some nextUnused'\<rparr>))))"

subsection \<open>The chain laws\<close>

definition sk_next :: "crypto \<Rightarrow> bytes \<Rightarrow> bytes" where
  "sk_next C k = subarray (hmacSha256Sign C k [CHAIN_KEY_LABEL]) 0 32"

definition sk_message :: "crypto \<Rightarrow> nat \<Rightarrow> bytes \<Rightarrow> sender_message_key" where
  "sk_message C i k = \<lparr>smk_iteration = i,
    smk_seed = hkdf C (hmacSha256Sign C k [MESSAGE_KEY_LABEL]) None WHISPER_GROUP_INFO 50\<rparr>"

definition sk_unused :: "sender_key \<Rightarrow> sender_message_key list" where
  "sk_unused s = (case sk_unusedMessageKeys s of Some u \<Rightarrow> u | None \<Rightarrow> [])"

definition sk_ok :: "crypto \<Rightarrow> sender_key \<Rightarrow> bool" where
  "sk_ok C s \<longleftrightarrow> crypto_laws C \<and> length (sk_chainKey s) = 32"

lemma derive_sender_key:
  "deriveSenderKeyMsgKeyFromChainKey C i k = (sk_next C k, sk_message C i k)"
  by (simp add: deriveSenderKeyMsgKeyFromChainKey_def sk_next_def sk_message_def Let_def)

lemma length_sk_next: "crypto_laws C \<Longrightarrow> length (sk_next C k) = 32"
  by (simp add: sk_next_def hmacSha256Sign_def subarray_def crypto_lawsD)

lemma length_sk_next_pow: "crypto_laws C \<Longrightarrow> length k = 32 \<Longrightarrow> length ((sk_next C ^^ n) k) = 32"
  by (cases n) (simp_all add: length_sk_next)

lemma find_index_append:
  "\<forall>x \<in> set xs. \<not> P x \<Longrightarrow> P m \<Longrightarrow> find_index P (xs @ m # ys) = Some (length xs)"
  by (induction xs) auto

lemma find_index_None: "\<forall>x \<in> set xs. \<not> P x \<Longrightarrow> find_index P xs = None"
  by (induction xs) auto

lemma removeAt_append: "removeAt (xs @ m # ys) (int (length xs)) = xs @ ys"
  by (simp add: removeAt_def)

lemma select_sender_stored:
  assumes "t < sk_iteration s" "sk_unused s = xs @ m # ys" "smk_iteration m = t"
    "t \<notin> smk_iteration ` set xs"
  shows "selectSenderMessageKey C s t f = Inr (m, s\<lparr>sk_unusedMessageKeys := Some (xs @ ys)\<rparr>)"
proof -
  have "find_index (\<lambda>entry. smk_iteration entry = t) (xs @ m # ys) = Some (length xs)"
    using assms(3,4) by (intro find_index_append) (auto simp: image_iff)
  then show ?thesis
    using assms(1,2) by (simp add: selectSenderMessageKey_def Let_def sk_unused_def [symmetric]
        removeAt_append)
qed

lemma select_sender_ahead:
  assumes "sk_ok C s" "sk_iteration s \<le> t" "t \<le> sk_iteration s + future_limit f"
  shows "selectSenderMessageKey C s t f =
    Inr (sk_message C t ((sk_next C ^^ (t - sk_iteration s)) (sk_chainKey s)),
      s\<lparr>sk_iteration := Suc t, sk_chainKey := (sk_next C ^^ (Suc t - sk_iteration s)) (sk_chainKey s),
        sk_unusedMessageKeys := Some (if t = sk_iteration s then sk_unused s else
          last_n MAX_UNUSED_KEYS (sk_unused s @
            map (\<lambda>i. sk_message C i ((sk_next C ^^ (i - sk_iteration s)) (sk_chainKey s)))
              [sk_iteration s..<t]))\<rparr>)"
proof -
  let ?p = "sk_iteration s" and ?k = "sk_chainKey s"
  have k: "ensureChainKey ?k = Inr ?k"
    using assms(1) by (simp add: ensureChainKey_def assertByteLength_def sk_ok_def)
  show ?thesis
  proof (cases "t = ?p")
    case True
    then show ?thesis
      by (simp add: selectSenderMessageKey_def Let_def k derive_sender_key sk_unused_def [symmetric])
  next
    case False
    define n where "n = t - ?p"
    have n: "0 < n" "t = ?p + n" "int t - int ?p = int n" using False assms(2) by (simp_all add: n_def)
    have delta: "\<not> int (future_limit f) < int n" "\<not> int n < 0" "\<not> int n = 0" "nat (int n) = n"
      using n assms(3) by auto
    have loop: "skip_loop (\<lambda>i k. Inr (deriveSenderKeyMsgKeyFromChainKey C i k)) (\<lambda>m. m) n (?p + 1)
        (if 0 < overflow_count n (length (sk_unused s)) MAX_UNUSED_KEYS
         then overflow_count n (length (sk_unused s)) MAX_UNUSED_KEYS - int (length (sk_unused s))
         else overflow_count n (length (sk_unused s)) MAX_UNUSED_KEYS)
        (if 0 < overflow_count n (length (sk_unused s)) MAX_UNUSED_KEYS
         then drop (nat (overflow_count n (length (sk_unused s)) MAX_UNUSED_KEYS)) (sk_unused s)
         else sk_unused s) (sk_message C ?p ?k) (sk_next C ?k) =
      Inr (last_n MAX_UNUSED_KEYS (sk_unused s @ map (\<lambda>m. m)
        (map (\<lambda>i. sk_message C i ((sk_next C ^^ (i - ?p)) ?k)) [?p..<?p + n])),
        sk_message C (?p + n) ((sk_next C ^^ n) ?k), (sk_next C ^^ Suc n) ?k)"
      by (rule skip_loop_result [OF n(1)]) (simp add: derive_sender_key)
    have "selectSenderMessageKey C s t f = Inr (sk_message C t ((sk_next C ^^ n) ?k),
        s\<lparr>sk_iteration := t + 1, sk_chainKey := (sk_next C ^^ Suc n) ?k,
        sk_unusedMessageKeys := Some (last_n MAX_UNUSED_KEYS (sk_unused s @
          map (\<lambda>i. sk_message C i ((sk_next C ^^ (i - ?p)) ?k)) [?p..<t]))\<rparr>)"
      unfolding selectSenderMessageKey_def Let_def n(3) sk_unused_def [symmetric] k
      by (simp only: rbind_simps derive_sender_key prod.case option.case delta if_False
          overflow_count_def [symmetric] loop [unfolded derive_sender_key] list.map_ident n(2))
    then show ?thesis
      using False by (simp add: n_def [symmetric] n(2) Suc_diff_le)
  qed
qed

interpretation sender: skipping_chain "sk_next C" "sk_message C" smk_iteration sk_iteration sk_chainKey
    sk_unused "sk_ok C" "\<lambda>s t. selectSenderMessageKey C s t f" "future_limit f" MAX_UNUSED_KEYS
    "\<lambda>_. True"
  for C f
proof
  fix s t
  assume "sk_ok C s" "sk_iteration s + future_limit f < t"
  then show "\<exists>e. selectSenderMessageKey C s t f = Inl e"
    by (simp add: selectSenderMessageKey_def Let_def)
next
  fix s t
  assume "sk_ok C s" "t < sk_iteration s" "t \<notin> smk_iteration ` set (sk_unused s)"
  moreover from this have "find_index (\<lambda>entry. smk_iteration entry = t) (sk_unused s) = None"
    by (intro find_index_None) auto
  ultimately show "\<exists>e. selectSenderMessageKey C s t f = Inl e"
    by (simp add: selectSenderMessageKey_def Let_def sk_unused_def [symmetric])
next
  fix s t xs m ys
  assume "sk_ok C s" "t < sk_iteration s" "sk_unused s = xs @ m # ys" "smk_iteration m = t"
    "t \<notin> smk_iteration ` set xs"
  then show "\<exists>s'. selectSenderMessageKey C s t f = Inr (m, s') \<and> sk_ok C s' \<and>
      sk_iteration s' = sk_iteration s \<and> sk_chainKey s' = sk_chainKey s \<and> sk_unused s' = xs @ ys"
    using select_sender_stored [of t s xs m ys C f]
    by (simp add: sk_ok_def sk_unused_def [of "_\<lparr>sk_unusedMessageKeys := _\<rparr>"])
next
  fix s t
  assume "sk_ok C s" "sk_iteration s \<le> t" "t \<le> sk_iteration s + future_limit f"
  from select_sender_ahead [OF this] \<open>sk_ok C s\<close>
  show "\<exists>s'. selectSenderMessageKey C s t f =
      Inr (sk_message C t ((sk_next C ^^ (t - sk_iteration s)) (sk_chainKey s)), s') \<and> sk_ok C s' \<and>
      sk_iteration s' = Suc t \<and> sk_chainKey s' = (sk_next C ^^ (Suc t - sk_iteration s)) (sk_chainKey s) \<and>
      sk_unused s' = (if t = sk_iteration s then sk_unused s else last_n MAX_UNUSED_KEYS (sk_unused s @
        map (\<lambda>i. sk_message C i ((sk_next C ^^ (i - sk_iteration s)) (sk_chainKey s))) [sk_iteration s..<t]))"
    by (simp add: sk_ok_def length_sk_next_pow sk_unused_def [of "_\<lparr>sk_unusedMessageKeys := _\<rparr>"])
qed (simp add: sk_message_def)

subsection \<open>Properties\<close>

text \<open>The message key of an iteration on the chain whose first chain key is \<open>k0\<close>.\<close>

abbreviation sender_ideal_key :: "crypto \<Rightarrow> bytes \<Rightarrow> nat \<Rightarrow> sender_message_key" where
  "sender_ideal_key C \<equiv> ideal_key (sk_next C) (sk_message C)"

text \<open>A record that follows the chain of \<open>k0\<close>; \<open>fresh\<close> as it is stored from a distribution message.\<close>

definition sender_chain_ok :: "crypto \<Rightarrow> bytes \<Rightarrow> sender_key \<Rightarrow> bool" where
  "sender_chain_ok C k0 s \<longleftrightarrow> sk_ok C s \<and>
    chain_tracks (sk_next C) (sk_message C) smk_iteration MAX_UNUSED_KEYS k0
      (sk_iteration s) (sk_chainKey s) (sk_unused s)"

lemma sender_chain_ok_tracks: "sender_chain_ok C k0 s \<longleftrightarrow> sender.tracks C k0 s"
  by (simp add: sender_chain_ok_def sender.tracks_def)

definition sender_select :: "crypto \<Rightarrow> nat option \<Rightarrow> sender_key \<Rightarrow> nat \<Rightarrow>
    sender_key_error + sender_message_key \<times> sender_key" where
  "sender_select C f s t = selectSenderMessageKey C s t f"

definition sample_sender_key :: sender_key where
  "sample_sender_key = \<lparr>sk_groupId = js ''1-2@g.us'', sk_sender = \<lparr>user = js ''5'', server = None, device = 0\<rparr>,
     sk_keyId = 7, sk_iteration = 0, sk_chainKey = replicate 32 9, sk_signingPublicKey = [],
     sk_signingPrivateKey = None, sk_unusedMessageKeys = None\<rparr>"

lemma sample_sender_key_ok: "sender_chain_ok sample_crypto (replicate 32 9) sample_sender_key"
  "sk_iteration sample_sender_key = 0" "sk_unused sample_sender_key = []"
  using sample_crypto_laws
  by (simp_all add: sender_chain_ok_def sk_ok_def chain_tracks_def sample_sender_key_def sk_unused_def)

text \<open>
  C25: A selection that succeeds returns the message key the sender derived for that iteration; the
  record still follows the sender's chain afterwards, with one stored key per skipped iteration
  and never more than 2000 of them.
\<close>

theorem group_key_invariant:
  assumes "sender_chain_ok C k0 s" "selectSenderMessageKey C s t f = Inr (m, s')"
  shows "m = sender_ideal_key C k0 t \<and> sender_chain_ok C k0 s' \<and> length (sk_unused s') \<le> MAX_UNUSED_KEYS"
  using sender.select_keeps(1,2) [where C = C and f = f and ?k0.0 = k0 and s = s and t = t and m = m and s' = s'] assms
  by (simp add: sender_chain_ok_tracks sender.tracks_def chain_tracks_def)

theorem group_key_invariant_witness:
  "\<exists>m s'. selectSenderMessageKey sample_crypto sample_sender_key 3 None = Inr (m, s') \<and>
    m = sender_ideal_key sample_crypto (replicate 32 9) 3 \<and>
    sender_chain_ok sample_crypto (replicate 32 9) s' \<and> length (sk_unused s') \<le> MAX_UNUSED_KEYS"
proof -
  have "sk_ok sample_crypto sample_sender_key" using sample_sender_key_ok by (simp add: sender_chain_ok_def)
  from select_sender_ahead [OF this, of 3 None]
  obtain m s' where s': "selectSenderMessageKey sample_crypto sample_sender_key 3 None = Inr (m, s')"
    by (simp add: sample_sender_key_ok future_limit_def SENDER_KEY_FUTURE_MESSAGES_MAX_def)
  from group_key_invariant [OF sample_sender_key_ok(1) s'] s' show ?thesis by blast
qed

text \<open>
  C27: A message key is handed out at most once: of two arrivals with the same iteration in any
  sequence of arrivals, the second one fails once the first has succeeded.
\<close>

theorem group_no_replay:
  assumes "sender_chain_ok C k0 s" "i < j" "j < length ts" "ts ! i = ts ! j"
    "fst (select_all (sender_select C f) ts s) ! i = Inr m"
  shows "\<exists>e. fst (select_all (sender_select C f) ts s) ! j = Inl e"
  using assms sender.no_replay [where C = C and f = f and ?k0.0 = k0 and s = s and i = i and j = j and ts = ts and m = m]
  by (simp add: sender_chain_ok_tracks sender_select_def [abs_def])

theorem group_no_replay_witness:
  "\<exists>e. fst (select_all (sender_select sample_crypto None) [2, 2] sample_sender_key) ! 1 = Inl e"
proof -
  have "sk_ok sample_crypto sample_sender_key" using sample_sender_key_ok by (simp add: sender_chain_ok_def)
  from select_sender_ahead [OF this, of 2 None]
  have "\<exists>m. fst (select_all (sender_select sample_crypto None) [2, 2] sample_sender_key) ! 0 = Inr m"
    by (simp add: sender_select_def sample_sender_key_ok future_limit_def SENDER_KEY_FUTURE_MESSAGES_MAX_def
        split: sum.split prod.split)
  then obtain m where
    "fst (select_all (sender_select sample_crypto None) [2, 2] sample_sender_key) ! 0 = Inr m" ..
  from group_no_replay [OF sample_sender_key_ok(1) _ _ _ this, of 1] show ?thesis by simp
qed

text \<open>
  C28: Group messages may arrive in any order: from a record without stored keys, any selection of
  the next \<open>w\<close> iterations in any order finds its keys, as long as \<open>w\<close> is at most 2000 and at most
  the configured limit, and they are the keys of the sender.
\<close>

theorem group_messages_any_order:
  assumes "sender_chain_ok C k0 s" "sk_unused s = []" "distinct ts"
    "\<forall>t \<in> set ts. sk_iteration s \<le> t \<and> t < sk_iteration s + w" "w \<le> MAX_UNUSED_KEYS" "w \<le> future_limit f"
  shows "fst (select_all (sender_select C f) ts s) = map (\<lambda>t. Inr (sender_ideal_key C k0 t)) ts"
  using assms sender.any_order [where C = C and f = f and ?k0.0 = k0 and s = s and ts = ts and w = w]
  by (simp add: sender_chain_ok_tracks sender_select_def [abs_def])

theorem group_messages_any_order_witness:
  "fst (select_all (sender_select sample_crypto None) [5, 0, 3] sample_sender_key) =
    map (\<lambda>t. Inr (sender_ideal_key sample_crypto (replicate 32 9) t)) [5, 0, 3]"
  by (rule group_messages_any_order [OF sample_sender_key_ok(1,3), where w = 6])
    (simp_all add: sample_sender_key_ok MAX_UNUSED_KEYS_def future_limit_def
      SENDER_KEY_FUTURE_MESSAGES_MAX_def)

end
