(* ===== verification/Curve.thy ===== *)
theory Curve
  imports Crypto
begin

text \<open>
  Key pairs (\<open>src/crypto/curves/types.ts\<close>) and the Diffie-Hellman function of
  \<open>src/crypto/curves/X25519.ts\<close>.  The curve itself is the one of \<open>node:crypto\<close> (or of a native
  module): the record \<open>curve\<close> is a parameter, and \<open>curve_laws\<close> states what the code relies on, that
  both sides of an exchange get the same secret.  \<open>None\<close> stands for a call that throws.
\<close>

record key_pair =
  pubKey :: bytes
  privKey :: bytes

record curve =
  scalar_mult :: "bytes \<Rightarrow> bytes \<Rightarrow> bytes option"
  curve_public :: "bytes \<Rightarrow> bytes"

definition curve_laws :: "curve \<Rightarrow> bool" where
  "curve_laws X \<longleftrightarrow>
    (\<forall>a. length a = 32 \<longrightarrow> length (curve_public X a) = 32) \<and>
    (\<forall>a b. length a = 32 \<and> length b = 32 \<longrightarrow>
      (\<exists>s. scalar_mult X a (curve_public X b) = Some s \<and> scalar_mult X b (curve_public X a) = Some s))"

datatype curve_error =
    PrivateKeyLength nat
  | PublicKeyLength nat
  | DiffieHellmanFailed

definition scalarMult :: "curve \<Rightarrow> bytes \<Rightarrow> bytes \<Rightarrow> curve_error + bytes" where
  "scalarMult X priv pub =
    (if length priv \<noteq> 32 then Inl (PrivateKeyLength (length priv))
     else if length pub \<noteq> 32 then Inl (PublicKeyLength (length pub))
     else case scalar_mult X priv pub of Some s \<Rightarrow> Inr s | None \<Rightarrow> Inl DiffieHellmanFailed)"

text \<open>What \<open>generateKeyPair\<close> and \<open>keyPairFromPrivateKey\<close> return.\<close>

definition generated_pair :: "curve \<Rightarrow> key_pair \<Rightarrow> bool" where
  "generated_pair X g \<longleftrightarrow> length (privKey g) = 32 \<and> pubKey g = curve_public X (privKey g)"

lemma generated_length:
  "curve_laws X \<Longrightarrow> generated_pair X g \<Longrightarrow> length (pubKey g) = 32"
  by (simp add: generated_pair_def curve_laws_def)

lemma scalarMult_agrees:
  assumes "curve_laws X" "generated_pair X a" "generated_pair X b"
  obtains s where "scalarMult X (privKey a) (pubKey b) = Inr s" "scalarMult X (privKey b) (pubKey a) = Inr s"
proof -
  have len: "length (privKey a) = 32" "length (privKey b) = 32"
    "length (curve_public X (privKey a)) = 32" "length (curve_public X (privKey b)) = 32"
    using assms by (simp_all add: generated_pair_def curve_laws_def)
  obtain s where "scalar_mult X (privKey a) (curve_public X (privKey b)) = Some s"
      "scalar_mult X (privKey b) (curve_public X (privKey a)) = Some s"
    using assms(1) len(1,2) unfolding curve_laws_def by blast
  with len assms(2,3) show thesis
    by (intro that [of s]) (simp_all add: scalarMult_def generated_pair_def)
qed

text \<open>A stand-in that satisfies the laws, for the witnesses.\<close>

definition sample_curve :: curve where
  "sample_curve = \<lparr>scalar_mult = (\<lambda>a b. Some (map2 (+) a b)), curve_public = (\<lambda>a. a)\<rparr>"

lemma map2_commute: "map2 (+) (a :: bytes) b = map2 (+) b a"
  by (induction a b rule: list_induct2') (auto simp: add.commute)

lemma sample_curve_laws: "curve_laws sample_curve"
  by (simp add: curve_laws_def sample_curve_def map2_commute)

end
