(* ===== verification/SessionEncoding.thy ===== *)
theory SessionEncoding
  imports SenderKeyChain Curve
begin

text \<open>
  The session types of \<open>src/signal/types.ts\<close> and \<open>src/signal/session/encoding.ts\<close>, which converts
  them to and from the objects of the protobuf library (\<open>raw_\<close> types: every field may be absent)
  and to the stored \<open>RecordStructure\<close>.  The generated protobuf code is a parameter: a record of an
  encoding and a decoding function.  The cache of encoded previous sessions is keyed by array
  identity and only saves the second encoding; it is left out.
\<close>

subsection \<open>Types\<close>

record peer =
  regId :: nat
  peerKey :: bytes

record message_key =
  mk_index :: nat
  mk_cipherKey :: bytes
  mk_macKey :: bytes
  mk_iv :: bytes

record raw_message_key =
  rm_index :: "nat option"
  rm_cipherKey :: "bytes option"
  rm_macKey :: "bytes option"
  rm_iv :: "bytes option"

record raw_chain_key =
  rk_index :: "nat option"
  rk_key :: "bytes option"

record raw_chain =
  rc_senderRatchetKey :: "bytes option"
  rc_senderRatchetKeyPrivate :: "bytes option"
  rc_chainKey :: "raw_chain_key option"
  rc_messageKeys :: "raw_message_key list option"

record raw_pre_key =
  rp_preKeyId :: "nat option"
  rp_signedPreKeyId :: "nat option"
  rp_baseKey :: "bytes option"

record raw_session =
  rs_sessionVersion :: "nat option"
  rs_localRegistrationId :: "nat option"
  rs_localIdentityPublic :: "bytes option"
  rs_remoteRegistrationId :: "nat option"
  rs_remoteIdentityPublic :: "bytes option"
  rs_rootKey :: "bytes option"
  rs_previousCounter :: "nat option"
  rs_senderChain :: "raw_chain option"
  rs_receiverChains :: "raw_chain list option"
  rs_pendingPreKey :: "raw_pre_key option"
  rs_aliceBaseKey :: "bytes option"

record recv_chain =
  rcv_ratchetPubKey :: bytes
  rcv_nextMsgIndex :: nat
  rcv_chainKey :: bytes
  rcv_unusedMsgKeys :: "raw_message_key list"

record send_chain =
  snd_ratchetKey :: key_pair
  snd_nextMsgIndex :: nat
  snd_chainKey :: bytes

record exchange_info =
  remoteOneTimeId :: "nat option"
  remoteSignedId :: nat
  localOneTimePubKey :: bytes

record snapshot =
  ss_local :: peer
  ss_remote :: peer
  rootKey :: bytes
  sendChain :: send_chain
  recvChains :: "raw_chain list"
  initialExchangeInfo :: "exchange_info option"
  prevSendChainHighestIndex :: nat
  aliceBaseKey :: "bytes option"

record session = snapshot +
  prevSessions :: "raw_session list"

datatype signal_error =
    InvalidBytesValue
  | InvalidNumberValue
  | UnsafeNumber nat
  | InvalidLength nat nat
  | MissingChainKey
  | MissingPrivateRatchetKey
  | MissingSenderChain
  | MissingCurrentSession
  | RecordDecodeFailed
  | InvalidMessageKeyLength
  | MessageTooFarInFuture
  | DuplicateMessage
  | SessionNotFound
  | InvalidMessageMac
  | CipherFailed
  | CurveError curve_error
  | BadKey key_error
  | InvalidSignalMessage
  | InvalidPreKeySignalMessage
  | ProtoDecodeFailed
  | RegistrationMissing
  | SignedPreKeyMissing nat
  | PreKeyMissing nat
  | IdentityMismatch

definition key_result :: "key_error + 'a \<Rightarrow> signal_error + 'a" where
  "key_result r = (case r of Inl e \<Rightarrow> Inl (BadKey e) | Inr a \<Rightarrow> Inr a)"

subsection \<open>Coercions\<close>

text \<open>\<open>asBytes\<close>, \<open>asNumber\<close> and their optional variants on a field of a decoded message.\<close>

definition asBytes :: "bytes option \<Rightarrow> signal_error + bytes" where
  "asBytes v = (case v of Some b \<Rightarrow> Inr b | None \<Rightarrow> Inl InvalidBytesValue)"

definition toSafeNumber :: "nat \<Rightarrow> signal_error + nat" where
  "toSafeNumber n = (if n \<le> MAX_SAFE_INTEGER then Inr n else Inl (UnsafeNumber n))"

definition asNumber :: "nat option \<Rightarrow> signal_error + nat" where
  "asNumber v = (case v of Some n \<Rightarrow> toSafeNumber n | None \<Rightarrow> Inl InvalidNumberValue)"

definition asOptionalNumber :: "nat option \<Rightarrow> signal_error + nat option" where
  "asOptionalNumber v =
    (case v of None \<Rightarrow> Inr None | Some n \<Rightarrow> rbind (asNumber (Some n)) (\<lambda>m. Inr (Some m)))"

definition asOptionalBytes :: "bytes option \<Rightarrow> signal_error + bytes option" where
  "asOptionalBytes v = Inr v"

definition check_length :: "bytes \<Rightarrow> nat \<Rightarrow> signal_error + unit" where
  "check_length b n =
    (case assertByteLength b n of Inl _ \<Rightarrow> Inl (InvalidLength (length b) n) | Inr u \<Rightarrow> Inr u)"

text \<open>\<open>asBytes\<close> followed by \<open>assertByteLength\<close>.\<close>

definition sized_bytes :: "bytes option \<Rightarrow> nat \<Rightarrow> signal_error + bytes" where
  "sized_bytes v n = rbind (asBytes v) (\<lambda>b. rbind (check_length b n) (\<lambda>_. Inr b))"

subsection \<open>Chains\<close>

definition encodeSignalSendChain :: "send_chain \<Rightarrow> raw_chain" where
  "encodeSignalSendChain c =
    \<lparr>rc_senderRatchetKey = Some (pubKey (snd_ratchetKey c)),
     rc_senderRatchetKeyPrivate = Some (privKey (snd_ratchetKey c)),
     rc_chainKey = Some \<lparr>rk_index = Some (snd_nextMsgIndex c), rk_key = Some (snd_chainKey c)\<rparr>,
     rc_messageKeys = Some []\<rparr>"

definition encodeSignalRecvChain :: "recv_chain \<Rightarrow> raw_chain" where
  "encodeSignalRecvChain c =
    \<lparr>rc_senderRatchetKey = Some (rcv_ratchetPubKey c), rc_senderRatchetKeyPrivate = None,
     rc_chainKey = Some \<lparr>rk_index = Some (rcv_nextMsgIndex c), rk_key = Some (rcv_chainKey c)\<rparr>,
     rc_messageKeys = Some (rcv_unusedMsgKeys c)\<rparr>"

definition decodeSignalMessageKey :: "raw_message_key \<Rightarrow> signal_error + message_key" where
  "decodeSignalMessageKey m =
    rbind (sized_bytes (rm_cipherKey m) 32) (\<lambda>c.
    rbind (sized_bytes (rm_macKey m) 32) (\<lambda>k.
    rbind (sized_bytes (rm_iv m) 16) (\<lambda>v.
    rbind (asNumber (rm_index m)) (\<lambda>i.
      Inr \<lparr>mk_index = i, mk_cipherKey = c, mk_macKey = k, mk_iv = v\<rparr>))))"

definition decodeSignalRecvChain :: "raw_chain \<Rightarrow> signal_error + recv_chain" where
  "decodeSignalRecvChain c =
    (case rc_chainKey c of
       None \<Rightarrow> Inl MissingChainKey
     | Some k \<Rightarrow>
         rbind (sized_bytes (rc_senderRatchetKey c) 33) (\<lambda>ratchet.
         rbind (sized_bytes (rk_key k) 32) (\<lambda>key.
         rbind (asNumber (rk_index k)) (\<lambda>i.
           Inr \<lparr>rcv_ratchetPubKey = ratchet, rcv_nextMsgIndex = i, rcv_chainKey = key,
             rcv_unusedMsgKeys = (case rc_messageKeys c of Some ms \<Rightarrow> ms | None \<Rightarrow> [])\<rparr>))))"

definition decodeSignalSendChain :: "raw_chain \<Rightarrow> signal_error + send_chain" where
  "decodeSignalSendChain c =
    (case rc_chainKey c of
       None \<Rightarrow> Inl MissingChainKey
     | Some k \<Rightarrow>
         rbind (asOptionalBytes (rc_senderRatchetKeyPrivate c)) (\<lambda>private.
         (case private of
            None \<Rightarrow> Inl MissingPrivateRatchetKey
          | Some priv \<Rightarrow>
              rbind (check_length priv 32) (\<lambda>_.
              rbind (sized_bytes (rc_senderRatchetKey c) 33) (\<lambda>ratchet.
              rbind (sized_bytes (rk_key k) 32) (\<lambda>key.
              rbind (asNumber (rk_index k)) (\<lambda>i.
                Inr \<lparr>snd_ratchetKey = \<lparr>pubKey = ratchet, privKey = priv\<rparr>, snd_nextMsgIndex = i,
                  snd_chainKey = key\<rparr>)))))))"

subsection \<open>Sessions\<close>

definition encodeSignalSessionSnapshot :: "'a snapshot_scheme \<Rightarrow> raw_session" where
  "encodeSignalSessionSnapshot s =
    \<lparr>rs_sessionVersion = Some 3,
     rs_localRegistrationId = Some (regId (ss_local s)),
     rs_localIdentityPublic = Some (peerKey (ss_local s)),
     rs_remoteRegistrationId = Some (regId (ss_remote s)),
     rs_remoteIdentityPublic = Some (peerKey (ss_remote s)),
     rs_rootKey = Some (rootKey s),
     rs_previousCounter = Some (prevSendChainHighestIndex s),
     rs_senderChain = Some (encodeSignalSendChain (sendChain s)),
     rs_receiverChains = Some (recvChains s),
     rs_pendingPreKey = map_option (\<lambda>x. \<lparr>rp_preKeyId = remoteOneTimeId x,
       rp_signedPreKeyId = Some (remoteSignedId x), rp_baseKey = Some (localOneTimePubKey x)\<rparr>)
       (initialExchangeInfo s),
     rs_aliceBaseKey = aliceBaseKey s\<rparr>"

definition check_optional_length :: "bytes option \<Rightarrow> nat \<Rightarrow> signal_error + unit" where
  "check_optional_length v n = (case v of Some b \<Rightarrow> check_length b n | None \<Rightarrow> Inr ())"

definition decode_base_key :: "raw_pre_key option \<Rightarrow> signal_error + bytes option" where
  "decode_base_key p =
    rbind (case p of None \<Rightarrow> Inr None | Some r \<Rightarrow> rbind (asBytes (rp_baseKey r)) (\<lambda>b. Inr (Some b)))
      (\<lambda>k. rbind (check_optional_length k 33) (\<lambda>_. Inr k))"

definition decode_pending :: "raw_pre_key option \<Rightarrow> bytes option \<Rightarrow> signal_error + exchange_info option" where
  "decode_pending p key =
    (case p of
       None \<Rightarrow> Inr None
     | Some r \<Rightarrow>
         rbind (asOptionalNumber (rp_preKeyId r)) (\<lambda>one.
         rbind (asNumber (rp_signedPreKeyId r)) (\<lambda>signed.
           Inr (Some \<lparr>remoteOneTimeId = one, remoteSignedId = signed,
             localOneTimePubKey = (case key of Some b \<Rightarrow> b | None \<Rightarrow> [])\<rparr>))))"

definition decodeSignalSessionSnapshot :: "raw_session \<Rightarrow> signal_error + snapshot" where
  "decodeSignalSessionSnapshot r =
    (case rs_senderChain r of
       None \<Rightarrow> Inl MissingSenderChain
     | Some sender \<Rightarrow>
         rbind (sized_bytes (rs_localIdentityPublic r) 33) (\<lambda>localKey.
         rbind (sized_bytes (rs_remoteIdentityPublic r) 33) (\<lambda>remoteKey.
         rbind (sized_bytes (rs_rootKey r) 32) (\<lambda>root.
         rbind (decode_base_key (rs_pendingPreKey r)) (\<lambda>oneTime.
         rbind (asOptionalBytes (rs_aliceBaseKey r)) (\<lambda>alice.
         rbind (check_optional_length alice 33) (\<lambda>_.
         rbind (asNumber (rs_localRegistrationId r)) (\<lambda>localReg.
         rbind (asNumber (rs_remoteRegistrationId r)) (\<lambda>remoteReg.
         rbind (decodeSignalSendChain sender) (\<lambda>send.
         rbind (decode_pending (rs_pendingPreKey r) oneTime) (\<lambda>pending.
         rbind (asOptionalNumber (rs_previousCounter r)) (\<lambda>prev.
           Inr \<lparr>ss_local = \<lparr>regId = localReg, peerKey = localKey\<rparr>,
             ss_remote = \<lparr>regId = remoteReg, peerKey = remoteKey\<rparr>, rootKey = root,
             sendChain = send,
             recvChains = (case rs_receiverChains r of Some cs \<Rightarrow> cs | None \<Rightarrow> []),
             initialExchangeInfo = pending,
             prevSendChainHighestIndex = (case prev of Some n \<Rightarrow> n | None \<Rightarrow> 0),
             aliceBaseKey = alice\<rparr>))))))))))))"

subsection \<open>Stored records\<close>

text \<open>\<open>proto.RecordStructure\<close>: the current session, if set, and the previous ones.\<close>

record record_proto =
  encode_record :: "raw_session option \<Rightarrow> raw_session list \<Rightarrow> bytes"
  decode_record :: "bytes \<Rightarrow> (raw_session option \<times> raw_session list) option"

definition encodeSignalSessionRecord :: "record_proto \<Rightarrow> session \<Rightarrow> bytes" where
  "encodeSignalSessionRecord P s =
    (if length (prevSessions s) = 0 then encode_record P (Some (encodeSignalSessionSnapshot s)) []
     else
       let suffix = encode_record P None (prevSessions s);
           current = encode_record P (Some (encodeSignalSessionSnapshot s)) []
       in u8_set (u8_set (replicate (length current + length suffix) 0) current 0) suffix
            (length current))"

definition decodeSignalSessionRecord :: "record_proto \<Rightarrow> bytes option \<Rightarrow> signal_error + session" where
  "decodeSignalSessionRecord P raw =
    rbind (asBytes raw) (\<lambda>b.
      case decode_record P b of
        None \<Rightarrow> Inl RecordDecodeFailed
      | Some (None, _) \<Rightarrow> Inl MissingCurrentSession
      | Some (Some current, previous) \<Rightarrow>
          rbind (decodeSignalSessionSnapshot current) (\<lambda>s.
            Inr (snapshot.extend s \<lparr>prevSessions = previous\<rparr>)))"

definition decodeSignalRemoteIdentity :: "bytes option \<Rightarrow> signal_error + bytes" where
  "decodeSignalRemoteIdentity raw = asBytes raw"

subsection \<open>Round trips\<close>

lemma sized_bytes_Some [simp]: "length b = n \<Longrightarrow> sized_bytes (Some b) n = Inr b"
  by (simp add: sized_bytes_def asBytes_def check_length_def assertByteLength_def)

lemma check_length_eq [simp]: "length b = n \<Longrightarrow> check_length b n = Inr ()"
  by (simp add: check_length_def assertByteLength_def)

lemma asNumber_Some [simp]: "n \<le> MAX_SAFE_INTEGER \<Longrightarrow> asNumber (Some n) = Inr n"
  by (simp add: asNumber_def toSafeNumber_def)

definition send_chain_ok :: "send_chain \<Rightarrow> bool" where
  "send_chain_ok c \<longleftrightarrow> length (privKey (snd_ratchetKey c)) = 32 \<and>
    length (pubKey (snd_ratchetKey c)) = 33 \<and> length (snd_chainKey c) = 32 \<and>
    snd_nextMsgIndex c \<le> MAX_SAFE_INTEGER"

definition recv_chain_ok :: "recv_chain \<Rightarrow> bool" where
  "recv_chain_ok c \<longleftrightarrow> length (rcv_ratchetPubKey c) = 33 \<and> length (rcv_chainKey c) = 32 \<and>
    rcv_nextMsgIndex c \<le> MAX_SAFE_INTEGER"

definition exchange_ok :: "exchange_info \<Rightarrow> bool" where
  "exchange_ok x \<longleftrightarrow> remoteSignedId x \<le> MAX_SAFE_INTEGER \<and> length (localOneTimePubKey x) = 33 \<and>
    (case remoteOneTimeId x of Some n \<Rightarrow> n \<le> MAX_SAFE_INTEGER | None \<Rightarrow> True)"

definition snapshot_ok :: "'a snapshot_scheme \<Rightarrow> bool" where
  "snapshot_ok s \<longleftrightarrow> regId (ss_local s) \<le> MAX_SAFE_INTEGER \<and> length (peerKey (ss_local s)) = 33 \<and>
    regId (ss_remote s) \<le> MAX_SAFE_INTEGER \<and> length (peerKey (ss_remote s)) = 33 \<and>
    length (rootKey s) = 32 \<and> send_chain_ok (sendChain s) \<and>
    (case initialExchangeInfo s of Some x \<Rightarrow> exchange_ok x | None \<Rightarrow> True) \<and>
    prevSendChainHighestIndex s \<le> MAX_SAFE_INTEGER \<and>
    (case aliceBaseKey s of Some k \<Rightarrow> length k = 33 | None \<Rightarrow> True)"

lemma recv_chain_roundtrip: "recv_chain_ok c \<Longrightarrow> decodeSignalRecvChain (encodeSignalRecvChain c) = Inr c"
  by (simp add: decodeSignalRecvChain_def encodeSignalRecvChain_def recv_chain_ok_def)

lemma send_chain_roundtrip: "send_chain_ok c \<Longrightarrow> decodeSignalSendChain (encodeSignalSendChain c) = Inr c"
  by (simp add: decodeSignalSendChain_def encodeSignalSendChain_def send_chain_ok_def asOptionalBytes_def)

lemma decode_pending_roundtrip:
  assumes "case initialExchangeInfo s of Some x \<Rightarrow> exchange_ok x | None \<Rightarrow> True"
  defines "p \<equiv> rs_pendingPreKey (encodeSignalSessionSnapshot s)"
  shows "\<exists>k. decode_base_key p = Inr k \<and> decode_pending p k = Inr (initialExchangeInfo s)"
  using assms
  by (cases "initialExchangeInfo s")
    (auto simp: encodeSignalSessionSnapshot_def decode_base_key_def decode_pending_def asBytes_def
      check_optional_length_def asOptionalNumber_def exchange_ok_def split: option.splits)

lemma snapshot_roundtrip:
  assumes "snapshot_ok s"
  shows "decodeSignalSessionSnapshot (encodeSignalSessionSnapshot s) = Inr (snapshot.truncate s)"
proof -
  let ?r = "encodeSignalSessionSnapshot s"
  obtain k where k: "decode_base_key (rs_pendingPreKey ?r) = Inr k"
      "decode_pending (rs_pendingPreKey ?r) k = Inr (initialExchangeInfo s)"
    using decode_pending_roundtrip [of s] assms by (auto simp: snapshot_ok_def)
  have alice: "check_optional_length (aliceBaseKey s) 33 = Inr ()"
    using assms by (auto simp: snapshot_ok_def check_optional_length_def split: option.splits)
  have sel: "rs_senderChain ?r = Some (encodeSignalSendChain (sendChain s))"
    "rs_localIdentityPublic ?r = Some (peerKey (ss_local s))"
    "rs_remoteIdentityPublic ?r = Some (peerKey (ss_remote s))"
    "rs_rootKey ?r = Some (rootKey s)" "rs_aliceBaseKey ?r = aliceBaseKey s"
    "rs_localRegistrationId ?r = Some (regId (ss_local s))"
    "rs_remoteRegistrationId ?r = Some (regId (ss_remote s))"
    "rs_previousCounter ?r = Some (prevSendChainHighestIndex s)"
    "rs_receiverChains ?r = Some (recvChains s)"
    by (simp_all add: encodeSignalSessionSnapshot_def)
  show ?thesis
    using assms k alice
    by (simp add: decodeSignalSessionSnapshot_def sel snapshot_ok_def send_chain_roundtrip
        asOptionalBytes_def asOptionalNumber_def snapshot.truncate_def)
qed

text \<open>What is used of the protobuf library: decoding concatenated messages merges their fields.\<close>

definition record_laws :: "record_proto \<Rightarrow> raw_session \<Rightarrow> raw_session list \<Rightarrow> bool" where
  "record_laws P c ps \<longleftrightarrow>
    decode_record P (encode_record P (Some c) []) = Some (Some c, []) \<and>
    decode_record P (encode_record P (Some c) [] @ encode_record P None ps) = Some (Some c, ps)"

lemma snapshot_extend_truncate:
  "snapshot.extend (snapshot.truncate s) \<lparr>prevSessions = prevSessions s\<rparr> = (s :: session)"
  by (simp add: snapshot.extend_def snapshot.truncate_def)

lemma u8_set_pair: "u8_set (u8_set (replicate (length a + length b) 0) a 0) b (length a) = a @ b"
  by (simp add: u8_set_def)

text \<open>
  C35: A session record survives storing: what \<open>encodeSignalSessionRecord\<close> writes, with or without
  previous sessions, is decoded to the same record.
\<close>

theorem session_record_roundtrip:
  assumes "snapshot_ok s" "record_laws P (encodeSignalSessionSnapshot s) (prevSessions s)"
  shows "decodeSignalSessionRecord P (Some (encodeSignalSessionRecord P s)) = Inr s"
proof (cases "prevSessions s = []")
  case True
  with assms snapshot_extend_truncate [of s] show ?thesis
    by (simp add: decodeSignalSessionRecord_def encodeSignalSessionRecord_def record_laws_def asBytes_def
        snapshot_roundtrip)
next
  case False
  with assms snapshot_extend_truncate [of s] show ?thesis
    by (simp add: decodeSignalSessionRecord_def encodeSignalSessionRecord_def record_laws_def asBytes_def
        snapshot_roundtrip Let_def u8_set_pair)
qed

definition sample_session :: session where
  "sample_session = \<lparr>ss_local = \<lparr>regId = 1, peerKey = replicate 33 5\<rparr>,
     ss_remote = \<lparr>regId = 2, peerKey = replicate 33 5\<rparr>, rootKey = replicate 32 1,
     sendChain = \<lparr>snd_ratchetKey = \<lparr>pubKey = replicate 33 5, privKey = replicate 32 2\<rparr>,
       snd_nextMsgIndex = 3, snd_chainKey = replicate 32 4\<rparr>,
     recvChains = [], initialExchangeInfo = None, prevSendChainHighestIndex = 0,
     aliceBaseKey = None, prevSessions = []\<rparr>"

definition sample_stored_session :: session where
  "sample_stored_session = sample_session\<lparr>prevSessions := [encodeSignalSessionSnapshot sample_session]\<rparr>"

definition sample_record_proto :: record_proto where
  "sample_record_proto = \<lparr>encode_record = (\<lambda>c _. if c = None then [2] else [1]),
     decode_record = (\<lambda>b. Some (Some (encodeSignalSessionSnapshot sample_stored_session),
       if b = [1] then [] else prevSessions sample_stored_session))\<rparr>"

lemma sample_session_ok: "snapshot_ok sample_session" "snapshot_ok sample_stored_session"
  by (simp_all add: snapshot_ok_def sample_session_def sample_stored_session_def send_chain_ok_def
      MAX_SAFE_INTEGER_def)

theorem session_record_roundtrip_witness:
  "decodeSignalSessionRecord sample_record_proto
    (Some (encodeSignalSessionRecord sample_record_proto sample_stored_session)) = Inr sample_stored_session"
  by (rule session_record_roundtrip [OF sample_session_ok(2)])
    (simp add: sample_record_proto_def record_laws_def)

end
