(* ===== verification/SignalRatchet.thy ===== *)
theory SignalRatchet
  imports SessionEncoding
begin

text \<open>
  \<open>src/signal/session/SignalSession.ts\<close>, \<open>SignalSerializer.ts\<close> and \<open>SignalRatchet.ts\<close>: session
  set-up, the message formats, and the double ratchet.  Parameters: the platform's ciphers
  (\<open>crypto\<close>), the curve X25519 (\<open>curve\<close>), and the generated protobuf code (\<open>signal_proto\<close>).  A key
  pair the code generates is an argument of the step that generates it.
\<close>

definition SIGNAL_VERSION :: nat where "SIGNAL_VERSION = 3"
definition SIGNAL_MAC_SIZE :: nat where "SIGNAL_MAC_SIZE = 8"
definition MAX_PREV_SESSIONS :: nat where "MAX_PREV_SESSIONS = 40"
definition MAX_TRACKED_RECV_CHAINS :: nat where "MAX_TRACKED_RECV_CHAINS = 4"
definition WHISPER_TEXT_INFO :: bytes where "WHISPER_TEXT_INFO = text_encode (js ''WhisperText'')"
definition WHISPER_RATCHET_INFO :: bytes where
  "WHISPER_RATCHET_INFO = text_encode (js ''WhisperRatchet'')"
definition SIGNAL_PREFIX :: bytes where "SIGNAL_PREFIX = replicate 32 0xff"

subsection \<open>SignalSession.ts\<close>

definition ecdh :: "curve \<Rightarrow> bytes \<Rightarrow> bytes \<Rightarrow> signal_error + bytes" where
  "ecdh X privateKey publicKey = rbind (key_result (toRawPubKey publicKey)) (\<lambda>p.
    case scalarMult X privateKey p of Inl e \<Rightarrow> Inl (CurveError e) | Inr s \<Rightarrow> Inr s)"

definition toSerializedKeyPair :: "key_pair \<Rightarrow> signal_error + key_pair" where
  "toSerializedKeyPair pair =
    rbind (key_result (toSerializedPubKey (pubKey pair))) (\<lambda>p.
      Inr \<lparr>pubKey = p, privKey = privKey pair\<rparr>)"

definition calculateRatchet ::
    "crypto \<Rightarrow> curve \<Rightarrow> bytes \<Rightarrow> key_pair \<Rightarrow> bytes \<Rightarrow> signal_error + bytes \<times> bytes" where
  "calculateRatchet C X root localRatchet remoteRatchetPubKey =
    rbind (ecdh X (privKey localRatchet) remoteRatchetPubKey) (\<lambda>sharedSecret.
      Inr (hkdfSplit C sharedSecret (Some root) WHISPER_RATCHET_INFO))"

definition snapshotToRecord :: "snapshot \<Rightarrow> session" where
  "snapshotToRecord s = snapshot.extend s \<lparr>prevSessions = []\<rparr>"

text \<open>The loop over the previous sessions of \<open>findMatchingSession\<close>, from \<open>index\<close> on.\<close>

fun find_previous :: "session \<Rightarrow> bytes \<Rightarrow> nat \<Rightarrow> raw_session list \<Rightarrow> signal_error + session option" where
  "find_previous s base index [] = Inr None"
| "find_previous s base index (rawPrev # rest) =
    (if case rs_aliceBaseKey rawPrev of Some k \<Rightarrow> \<not> uint8Equal k base | None \<Rightarrow> True
     then find_previous s base (index + 1) rest
     else rbind (decodeSignalSessionSnapshot rawPrev) (\<lambda>decoded.
       Inr (Some (snapshot.extend decoded
         \<lparr>prevSessions = encodeSignalSessionSnapshot s # take index (prevSessions s) @
           drop (index + 1) (prevSessions s)\<rparr>))))"

definition findMatchingSession :: "session option \<Rightarrow> bytes \<Rightarrow> signal_error + session option" where
  "findMatchingSession session sessionBaseKey =
    (case session of
       None \<Rightarrow> Inr None
     | Some s \<Rightarrow>
         rbind (key_result (toSerializedPubKey sessionBaseKey)) (\<lambda>base.
           if case aliceBaseKey s of Some k \<Rightarrow> uint8Equal k base | None \<Rightarrow> False then Inr (Some s)
           else find_previous s base 0 (prevSessions s)))"

record local_identity =
  li_regId :: nat
  staticKeyPair :: key_pair

record key_ref =
  kr_id :: nat
  kr_publicKey :: bytes

record pre_key_bundle =
  pb_regId :: nat
  pb_identity :: bytes
  pb_signedKey :: key_ref
  pb_oneTimeKey :: "key_ref option"
  pb_ratchetKey :: "bytes option"

definition optional_ecdh :: "curve \<Rightarrow> bytes \<Rightarrow> bytes option \<Rightarrow> signal_error + bytes option" where
  "optional_ecdh X priv pub =
    (case pub of None \<Rightarrow> Inr None | Some p \<Rightarrow> rbind (ecdh X priv p) (\<lambda>s. Inr (Some s)))"

definition shared_parts :: "bytes option \<Rightarrow> bytes list" where
  "shared_parts v = (case v of Some b \<Rightarrow> [b] | None \<Rightarrow> [])"

definition initiateSessionOutgoing ::
    "crypto \<Rightarrow> curve \<Rightarrow> local_identity \<Rightarrow> pre_key_bundle \<Rightarrow> key_pair \<Rightarrow> key_pair \<Rightarrow> signal_error + session" where
  "initiateSessionOutgoing C X local remoteBundle localOneTimeBase generated =
    rbind (key_result (toSerializedPubKey (pb_identity remoteBundle))) (\<lambda>remoteIdentity.
    rbind (key_result (toSerializedPubKey (kr_publicKey (pb_signedKey remoteBundle)))) (\<lambda>remoteSignedKey.
    rbind (case pb_oneTimeKey remoteBundle of
        None \<Rightarrow> Inr None
      | Some k \<Rightarrow> rbind (key_result (toSerializedPubKey (kr_publicKey k))) (\<lambda>p. Inr (Some p)))
      (\<lambda>remoteOneTimeKey.
    rbind (key_result (toSerializedPubKey (case pb_ratchetKey remoteBundle of
        Some k \<Rightarrow> k | None \<Rightarrow> kr_publicKey (pb_signedKey remoteBundle)))) (\<lambda>remoteRatchetKey.
    rbind (ecdh X (privKey (staticKeyPair local)) remoteSignedKey) (\<lambda>signedDh.
    rbind (ecdh X (privKey localOneTimeBase) remoteIdentity) (\<lambda>identityDh.
    rbind (ecdh X (privKey localOneTimeBase) remoteSignedKey) (\<lambda>baseDh.
    rbind (optional_ecdh X (privKey localOneTimeBase) remoteOneTimeKey) (\<lambda>oneTimeDh.
      let secret = concatBytes ([SIGNAL_PREFIX, signedDh, identityDh, baseDh] @ shared_parts oneTimeDh);
          (root, chain) = hkdfSplit C secret None WHISPER_TEXT_INFO;
          recvChain = \<lparr>rc_senderRatchetKey = Some remoteRatchetKey, rc_senderRatchetKeyPrivate = None,
            rc_chainKey = Some \<lparr>rk_index = Some 0, rk_key = Some chain\<rparr>, rc_messageKeys = Some []\<rparr>
      in rbind (toSerializedKeyPair generated) (\<lambda>sendRatchet.
         rbind (calculateRatchet C X root sendRatchet remoteRatchetKey) (\<lambda>(sendRoot, sendKey).
           Inr \<lparr>ss_local = \<lparr>regId = li_regId local, peerKey = pubKey (staticKeyPair local)\<rparr>,
             ss_remote = \<lparr>regId = pb_regId remoteBundle, peerKey = remoteIdentity\<rparr>,
             rootKey = sendRoot,
             sendChain = \<lparr>snd_ratchetKey = sendRatchet, snd_nextMsgIndex = 0, snd_chainKey = sendKey\<rparr>,
             recvChains = [recvChain],
             initialExchangeInfo = Some \<lparr>remoteOneTimeId = map_option kr_id (pb_oneTimeKey remoteBundle),
               remoteSignedId = kr_id (pb_signedKey remoteBundle),
               localOneTimePubKey = pubKey localOneTimeBase\<rparr>,
             prevSendChainHighestIndex = 0,
             aliceBaseKey = Some (pubKey localOneTimeBase), prevSessions = []\<rparr>))))))))))"

record incoming_keys =
  ik_signed :: key_pair
  ik_oneTime :: "key_pair option"
  ik_ratchet :: key_pair

definition initiateSessionIncoming ::
    "crypto \<Rightarrow> curve \<Rightarrow> local_identity \<Rightarrow> peer \<Rightarrow> bytes \<Rightarrow> incoming_keys \<Rightarrow> signal_error + session" where
  "initiateSessionIncoming C X local remote sessionBaseKey localKeys =
    rbind (key_result (toSerializedPubKey sessionBaseKey)) (\<lambda>baseKey.
    rbind (key_result (toSerializedPubKey (peerKey remote))) (\<lambda>remotePub.
    rbind (ecdh X (privKey (ik_signed localKeys)) remotePub) (\<lambda>identityDh.
    rbind (ecdh X (privKey (staticKeyPair local)) baseKey) (\<lambda>staticDh.
    rbind (ecdh X (privKey (ik_signed localKeys)) baseKey) (\<lambda>signedDh.
    rbind (case ik_oneTime localKeys of
        None \<Rightarrow> Inr None
      | Some k \<Rightarrow> rbind (ecdh X (privKey k) baseKey) (\<lambda>s. Inr (Some s))) (\<lambda>oneTimeDh.
      let secret = concatBytes ([SIGNAL_PREFIX, identityDh, staticDh, signedDh] @ shared_parts oneTimeDh);
          (root, chain) = hkdfSplit C secret None WHISPER_TEXT_INFO
      in Inr \<lparr>ss_local = \<lparr>regId = li_regId local, peerKey = pubKey (staticKeyPair local)\<rparr>,
           ss_remote = \<lparr>regId = regId remote, peerKey = remotePub\<rparr>, rootKey = root,
           sendChain = \<lparr>snd_ratchetKey = ik_ratchet localKeys, snd_nextMsgIndex = 0, snd_chainKey = chain\<rparr>,
           recvChains = [], initialExchangeInfo = None, prevSendChainHighestIndex = 0,
           aliceBaseKey = Some baseKey, prevSessions = []\<rparr>))))))"

subsection \<open>SignalSerializer.ts\<close>

record signal_message =
  sm_ratchetKey :: "bytes option"
  sm_counter :: "nat option"
  sm_previousCounter :: "nat option"
  sm_ciphertext :: "bytes option"

record pre_key_message =
  pm_registrationId :: "nat option"
  pm_preKeyId :: "nat option"
  pm_signedPreKeyId :: "nat option"
  pm_baseKey :: "bytes option"
  pm_identityKey :: "bytes option"
  pm_message :: "bytes option"

record signal_proto =
  encode_signal :: "signal_message \<Rightarrow> bytes"
  decode_signal :: "bytes \<Rightarrow> signal_message option"
  encode_pre_key :: "pre_key_message \<Rightarrow> bytes"
  decode_pre_key :: "bytes \<Rightarrow> pre_key_message option"

record parsed_message =
  ps_ratchetPubKey :: bytes
  ps_counter :: nat
  ps_ciphertext :: bytes
  ps_versionContentMac :: bytes

record parsed_pre_key = parsed_message +
  pk_remote :: peer
  pk_sessionBaseKey :: bytes
  pk_localSignedPreKeyId :: nat
  pk_localOneTimeKeyId :: "nat option"

definition deserializeMsg :: "signal_proto \<Rightarrow> bytes \<Rightarrow> signal_error + parsed_message" where
  "deserializeMsg P vcm =
    rbind (key_result (readVersionedContent vcm SIGNAL_VERSION SIGNAL_MAC_SIZE)) (\<lambda>body.
      case decode_signal P body of
        None \<Rightarrow> Inl ProtoDecodeFailed
      | Some m \<Rightarrow>
          (case (sm_ratchetKey m, sm_counter m, sm_ciphertext m) of
             (Some ratchet, Some n, Some ct) \<Rightarrow>
               rbind (key_result (toSerializedPubKey ratchet)) (\<lambda>pub.
                 Inr \<lparr>ps_ratchetPubKey = pub, ps_counter = n, ps_ciphertext = ct, ps_versionContentMac = vcm\<rparr>)
           | _ \<Rightarrow> Inl InvalidSignalMessage))"

definition deserializePkMsg :: "signal_proto \<Rightarrow> bytes \<Rightarrow> signal_error + parsed_pre_key" where
  "deserializePkMsg P versionContent =
    rbind (key_result (readVersionedContent versionContent SIGNAL_VERSION 0)) (\<lambda>body.
      case decode_pre_key P body of
        None \<Rightarrow> Inl ProtoDecodeFailed
      | Some m \<Rightarrow>
          (case (pm_registrationId m, pm_signedPreKeyId m, pm_baseKey m, pm_identityKey m, pm_message m) of
             (Some reg, Some signedId, Some base, Some ident, Some message) \<Rightarrow>
               rbind (deserializeMsg P message) (\<lambda>signal.
               rbind (key_result (toSerializedPubKey ident)) (\<lambda>identPub.
               rbind (key_result (toSerializedPubKey base)) (\<lambda>basePub.
                 Inr (parsed_message.extend signal
                   \<lparr>pk_remote = \<lparr>regId = reg, peerKey = identPub\<rparr>, pk_sessionBaseKey = basePub,
                    pk_localSignedPreKeyId = signedId, pk_localOneTimeKeyId = pm_preKeyId m\<rparr>))))
           | _ \<Rightarrow> Inl InvalidPreKeySignalMessage))"

subsection \<open>SignalRatchet.ts: message keys\<close>

definition splitMsgKey :: "nat \<Rightarrow> bytes \<Rightarrow> signal_error + message_key" where
  "splitMsgKey index bs =
    (if length bs < 80 then Inl InvalidMessageKeyLength
     else Inr \<lparr>mk_index = index, mk_cipherKey = subarray bs 0 32, mk_macKey = subarray bs 32 64,
       mk_iv = subarray bs 64 80\<rparr>)"

definition deriveMsgKey :: "crypto \<Rightarrow> nat \<Rightarrow> bytes \<Rightarrow> signal_error + bytes \<times> message_key" where
  "deriveMsgKey C index chainKey =
    (let nextChainRaw = hmacSha256Sign C chainKey [CHAIN_KEY_LABEL];
         messageInputKey = hmacSha256Sign C chainKey [MESSAGE_KEY_LABEL];
         nextChainKey = subarray nextChainRaw 0 32;
         expanded = hkdf C messageInputKey None WHISPER_MESSAGE_KEYS_INFO 80
     in rbind (splitMsgKey index expanded) (\<lambda>m. Inr (nextChainKey, m)))"

text \<open>The form in which the loop of \<open>selectMessageKey\<close> keeps a skipped key.\<close>

definition stored_key :: "message_key \<Rightarrow> raw_message_key" where
  "stored_key m = \<lparr>rm_index = Some (mk_index m), rm_cipherKey = Some (mk_cipherKey m),
     rm_macKey = Some (mk_macKey m), rm_iv = Some (mk_iv m)\<rparr>"

definition selectMessageKey ::
    "crypto \<Rightarrow> recv_chain \<Rightarrow> nat \<Rightarrow> signal_error + message_key \<times> recv_chain" where
  "selectMessageKey C chain targetCounter =
    (let delta = int targetCounter - int (rcv_nextMsgIndex chain);
         unused = rcv_unusedMsgKeys chain
     in if int FUTURE_MESSAGES_MAX < delta then Inl MessageTooFarInFuture
        else if delta < 0 then
          (case find_index (\<lambda>entry. rm_index entry = Some targetCounter) unused of
             None \<Rightarrow> Inl DuplicateMessage
           | Some idx \<Rightarrow>
               rbind (decodeSignalMessageKey (unused ! idx)) (\<lambda>messageKey.
                 Inr (messageKey, chain\<lparr>rcv_unusedMsgKeys := removeAt unused (int idx)\<rparr>)))
        else rbind (deriveMsgKey C (rcv_nextMsgIndex chain) (rcv_chainKey chain)) (\<lambda>(chainKey, currentMessageKey).
          if delta = 0 then
            Inr (currentMessageKey,
              chain\<lparr>rcv_nextMsgIndex := targetCounter + 1, rcv_chainKey := chainKey\<rparr>)
          else
            let overflow = delta + int (length unused) - int MAX_UNUSED_KEYS;
                nextUnused = (if 0 < overflow then drop (nat overflow) unused else unused);
                overflow' = (if 0 < overflow then overflow - int (length unused) else overflow)
            in rbind (skip_loop (deriveMsgKey C) stored_key (nat delta) (rcv_nextMsgIndex chain + 1)
                 overflow' nextUnused currentMessageKey chainKey)
               (\<lambda>(nextUnused', messageKey, chainKey').
                 Inr (messageKey, chain\<lparr>rcv_nextMsgIndex := targetCounter + 1, rcv_chainKey := chainKey',
                   rcv_unusedMsgKeys := nextUnused'\<rparr>))))"

subsection \<open>SignalRatchet.ts: encryption and decryption\<close>

datatype envelope_type = Msg | PkMsg

text \<open>The bytes of a \<open>SignalMessage\<close>: version, payload and the truncated MAC.\<close>

definition signal_bytes :: "crypto \<Rightarrow> bytes \<Rightarrow> bytes \<Rightarrow> bytes \<Rightarrow> bytes \<Rightarrow> bytes" where
  "signal_bytes C macKey localPub remotePub payload =
    (let versionedLength = 1 + length payload;
         blank = replicate (versionedLength + SIGNAL_MAC_SIZE) 0;
         out = u8_set (blank[0 := version_byte SIGNAL_VERSION]) payload 1;
         mac = hmacSha256Sign C macKey [localPub, remotePub, subarray out 0 versionedLength]
     in u8_set out (subarray mac 0 SIGNAL_MAC_SIZE) versionedLength)"

definition encryptMsg ::
    "crypto \<Rightarrow> signal_proto \<Rightarrow> session \<Rightarrow> bytes \<Rightarrow> signal_error + session \<times> envelope_type \<times> bytes" where
  "encryptMsg C P session plaintext =
    rbind (deriveMsgKey C (snd_nextMsgIndex (sendChain session)) (snd_chainKey (sendChain session)))
      (\<lambda>(nextChainKey, messageKey).
    case aesCbcEncrypt C (mk_cipherKey messageKey) (mk_iv messageKey) plaintext of
      None \<Rightarrow> Inl CipherFailed
    | Some ct \<Rightarrow>
        let payload = encode_signal P
              \<lparr>sm_ratchetKey = Some (pubKey (snd_ratchetKey (sendChain session))),
               sm_counter = Some (mk_index messageKey),
               sm_previousCounter = Some (prevSendChainHighestIndex session), sm_ciphertext = Some ct\<rparr>;
            signalMessage = signal_bytes C (mk_macKey messageKey) (peerKey (ss_local session))
              (peerKey (ss_remote session)) payload;
            (type, output) =
              (case initialExchangeInfo session of
                 None \<Rightarrow> (Msg, signalMessage)
               | Some x \<Rightarrow> (PkMsg, prependVersion (encode_pre_key P
                   \<lparr>pm_registrationId = Some (regId (ss_local session)), pm_preKeyId = remoteOneTimeId x,
                    pm_signedPreKeyId = Some (remoteSignedId x), pm_baseKey = Some (localOneTimePubKey x),
                    pm_identityKey = Some (peerKey (ss_local session)), pm_message = Some signalMessage\<rparr>)
                   SIGNAL_VERSION))
        in Inr (session\<lparr>sendChain := \<lparr>snd_ratchetKey = snd_ratchetKey (sendChain session),
             snd_nextMsgIndex = mk_index messageKey + 1, snd_chainKey = nextChainKey\<rparr>\<rparr>, type, output))"

text \<open>The first receiving chain of the sender's ratchet key.\<close>

definition find_recv_chain :: "raw_chain list \<Rightarrow> bytes \<Rightarrow> nat option" where
  "find_recv_chain cs key =
    find_index (\<lambda>c. case rc_senderRatchetKey c of Some k \<Rightarrow> uint8Equal k key | None \<Rightarrow> False) cs"

text \<open>The branch for a new ratchet key: a receiving and a sending ratchet step.\<close>

definition ratchet_step ::
    "crypto \<Rightarrow> curve \<Rightarrow> session \<Rightarrow> bytes \<Rightarrow> nat \<Rightarrow> key_pair \<Rightarrow> signal_error + message_key \<times> session" where
  "ratchet_step C X session ratchetKey n generated =
    rbind (calculateRatchet C X (rootKey session) (snd_ratchetKey (sendChain session)) ratchetKey)
      (\<lambda>(recvRoot, recvKey).
    rbind (selectMessageKey C \<lparr>rcv_ratchetPubKey = ratchetKey, rcv_nextMsgIndex = 0,
        rcv_chainKey = recvKey, rcv_unusedMsgKeys = []\<rparr> n) (\<lambda>(messageKey, updatedChain).
    rbind (toSerializedKeyPair generated) (\<lambda>newSendRatchet.
    rbind (calculateRatchet C X recvRoot newSendRatchet ratchetKey) (\<lambda>(sendRoot, sendKey).
      Inr (messageKey, session\<lparr>rootKey := sendRoot,
        recvChains := last_n MAX_TRACKED_RECV_CHAINS (recvChains session) @
          [encodeSignalRecvChain updatedChain],
        sendChain := \<lparr>snd_ratchetKey = newSendRatchet, snd_nextMsgIndex = 0, snd_chainKey = sendKey\<rparr>,
        initialExchangeInfo := None,
        prevSendChainHighestIndex := snd_nextMsgIndex (sendChain session) - 1\<rparr>)))))"

definition known_chain_step ::
    "crypto \<Rightarrow> session \<Rightarrow> nat \<Rightarrow> nat \<Rightarrow> signal_error + message_key \<times> session" where
  "known_chain_step C session index n =
    rbind (decodeSignalRecvChain (recvChains session ! index)) (\<lambda>decoded.
    rbind (selectMessageKey C decoded n) (\<lambda>(messageKey, updatedChain).
      Inr (messageKey,
        session\<lparr>recvChains := (recvChains session)[index := encodeSignalRecvChain updatedChain]\<rparr>)))"

text \<open>\<open>b.subarray(0, b.length - n)\<close> and \<open>b.subarray(b.length - n)\<close>, also when \<open>n\<close> is larger than the array.\<close>

definition without_suffix :: "bytes \<Rightarrow> nat \<Rightarrow> bytes" where
  "without_suffix b n = take (js_index (length b) (int (length b) - int n)) b"

definition suffix_of :: "bytes \<Rightarrow> nat \<Rightarrow> bytes" where
  "suffix_of b n = drop (js_index (length b) (int (length b) - int n)) b"

definition open_message :: "crypto \<Rightarrow> 'a snapshot_scheme \<Rightarrow> message_key \<Rightarrow> 'b parsed_message_scheme \<Rightarrow> signal_error + bytes" where
  "open_message C session messageKey message =
    (let payload = without_suffix (ps_versionContentMac message) SIGNAL_MAC_SIZE;
         expectedMac = hmacSha256Sign C (mk_macKey messageKey)
           [peerKey (ss_remote session), peerKey (ss_local session), payload];
         receivedMac = suffix_of (ps_versionContentMac message) SIGNAL_MAC_SIZE
     in if \<not> uint8TimingSafeEqual (subarray expectedMac 0 SIGNAL_MAC_SIZE) receivedMac
        then Inl InvalidMessageMac
        else case aesCbcDecrypt C (mk_cipherKey messageKey) (mk_iv messageKey) (ps_ciphertext message) of
               None \<Rightarrow> Inl CipherFailed
             | Some plaintext \<Rightarrow> Inr plaintext)"

definition decryptMsgFromSession ::
    "crypto \<Rightarrow> curve \<Rightarrow> session \<Rightarrow> 'b parsed_message_scheme \<Rightarrow> key_pair \<Rightarrow> signal_error + session \<times> bytes" where
  "decryptMsgFromSession C X session message generated =
    rbind (key_result (toSerializedPubKey (ps_ratchetPubKey message))) (\<lambda>ratchetKey.
    rbind (case find_recv_chain (recvChains session) ratchetKey of
        None \<Rightarrow> ratchet_step C X session ratchetKey (ps_counter message) generated
      | Some index \<Rightarrow> known_chain_step C session index (ps_counter message)) (\<lambda>(messageKey, updatedSession).
    rbind (open_message C session messageKey message) (\<lambda>plaintext.
      Inr (updatedSession, plaintext))))"

record new_session_info =
  newIdentity :: "bytes option"
  baseSession :: session
  usedPreKey :: "nat option"

record decrypt_outcome =
  do_updatedSession :: session
  do_plaintext :: bytes
  do_newSessionInfo :: "new_session_info option"

text \<open>
  The fallback over the previous sessions: \<open>i\<close> is the index, \<open>generated\<close> the key pair the attempt
  generates if it needs one.  An attempt that throws goes on with the next one.
\<close>

fun try_previous ::
    "crypto \<Rightarrow> curve \<Rightarrow> session \<Rightarrow> 'b parsed_message_scheme \<Rightarrow> (nat \<Rightarrow> key_pair) \<Rightarrow> nat \<Rightarrow> raw_session list \<Rightarrow>
      decrypt_outcome option" where
  "try_previous C X session parsed generated i [] = None"
| "try_previous C X session parsed generated i (raw # rest) =
    (case rbind (decodeSignalSessionSnapshot raw) (\<lambda>decoded.
        rbind (decryptMsgFromSession C X (snapshotToRecord decoded) parsed (generated (Suc i)))
          (\<lambda>(updatedPrev, pt). Inr (snapshotToRecord decoded, updatedPrev, pt))) of
       Inl _ \<Rightarrow> try_previous C X session parsed generated (Suc i) rest
     | Inr (prevSession, updatedPrev, pt) \<Rightarrow>
         Some \<lparr>do_updatedSession = updatedPrev\<lparr>prevSessions := encodeSignalSessionSnapshot session #
             take i (prevSessions session) @ drop (i + 1) (prevSessions session)\<rparr>,
           do_plaintext = pt,
           do_newSessionInfo = Some \<lparr>newIdentity =
               (if uint8Equal (peerKey (ss_remote updatedPrev)) (peerKey (ss_remote session)) then None
                else Some (peerKey (ss_remote updatedPrev))),
             baseSession = prevSession, usedPreKey = None\<rparr>\<rparr>)"

definition decryptMsg ::
    "crypto \<Rightarrow> curve \<Rightarrow> session option \<Rightarrow> 'b parsed_message_scheme \<Rightarrow> (nat \<Rightarrow> key_pair) \<Rightarrow>
      signal_error + decrypt_outcome" where
  "decryptMsg C X session parsed generated =
    (case session of
       None \<Rightarrow> Inl SessionNotFound
     | Some s \<Rightarrow>
         (case decryptMsgFromSession C X s parsed (generated 0) of
            Inr (updated, pt) \<Rightarrow> Inr \<lparr>do_updatedSession = updated, do_plaintext = pt, do_newSessionInfo = None\<rparr>
          | Inl err \<Rightarrow>
              (case try_previous C X s parsed generated 0 (prevSessions s) of
                 Some outcome \<Rightarrow> Inr outcome
               | None \<Rightarrow> Inl err)))"

end
