(* ===== verification/RatchetChain.thy ===== *)
theory RatchetChain
  imports SignalRatchet
begin

text \<open>
  The receiving chains of the double ratchet as a skipping chain: \<open>selectMessageKey\<close> of
  \<open>SignalRatchet.ts\<close> on a \<open>recv_chain\<close>, whose skipped keys are kept in the raw form of the protobuf
  library and are decoded when they are used.
\<close>

definition rt_message :: "crypto \<Rightarrow> nat \<Rightarrow> bytes \<Rightarrow> message_key" where
  "rt_message C i k =
    (let e = hkdf C (hmacSha256Sign C k [MESSAGE_KEY_LABEL]) None WHISPER_MESSAGE_KEYS_INFO 80
     in \<lparr>mk_index = i, mk_cipherKey = subarray e 0 32, mk_macKey = subarray e 32 64,
          mk_iv = subarray e 64 80\<rparr>)"

definition message_key_ok :: "message_key \<Rightarrow> bool" where
  "message_key_ok m \<longleftrightarrow> length (mk_cipherKey m) = 32 \<and> length (mk_macKey m) = 32 \<and>
    length (mk_iv m) = 16 \<and> mk_index m \<le> MAX_SAFE_INTEGER"

definition of_raw :: "raw_message_key \<Rightarrow> message_key" where
  "of_raw r = \<lparr>mk_index = the (rm_index r), mk_cipherKey = the (rm_cipherKey r),
     mk_macKey = the (rm_macKey r), mk_iv = the (rm_iv r)\<rparr>"

definition raw_ok :: "raw_message_key \<Rightarrow> bool" where
  "raw_ok r \<longleftrightarrow> r = stored_key (of_raw r) \<and> message_key_ok (of_raw r)"

definition rt_unused :: "recv_chain \<Rightarrow> message_key list" where
  "rt_unused c = map of_raw (rcv_unusedMsgKeys c)"

text \<open>Message counters are 32 bit numbers on the wire.\<close>

definition counter_ok :: "nat \<Rightarrow> bool" where
  "counter_ok n \<longleftrightarrow> n < 2 ^ 32"

definition rt_ok :: "crypto \<Rightarrow> recv_chain \<Rightarrow> bool" where
  "rt_ok C c \<longleftrightarrow> crypto_laws C \<and> length (rcv_ratchetPubKey c) = 33 \<and> length (rcv_chainKey c) = 32 \<and>
    rcv_nextMsgIndex c \<le> 2 ^ 32 \<and> (\<forall>r \<in> set (rcv_unusedMsgKeys c). raw_ok r)"

lemma of_raw_stored [simp]: "of_raw (stored_key m) = m"
  by (simp add: of_raw_def stored_key_def)

lemma raw_ok_stored [simp]: "raw_ok (stored_key m) = message_key_ok m"
  by (simp add: raw_ok_def)

lemma decode_stored: "message_key_ok m \<Longrightarrow> decodeSignalMessageKey (stored_key m) = Inr m"
  by (simp add: decodeSignalMessageKey_def stored_key_def message_key_ok_def)

lemma decode_raw: "raw_ok r \<Longrightarrow> decodeSignalMessageKey r = Inr (of_raw r)"
  using decode_stored [of "of_raw r"] by (simp add: raw_ok_def)

lemma raw_index: "raw_ok r \<Longrightarrow> rm_index r = Some (mk_index (of_raw r))"
  unfolding raw_ok_def stored_key_def by (metis raw_message_key.select_convs(1))

lemma derive_rt: "crypto_laws C \<Longrightarrow> deriveMsgKey C i k = Inr (sk_next C k, rt_message C i k)"
  by (simp add: deriveMsgKey_def splitMsgKey_def sk_next_def rt_message_def Let_def hkdf_def crypto_lawsD)

lemma rt_message_ok: "crypto_laws C \<Longrightarrow> i \<le> MAX_SAFE_INTEGER \<Longrightarrow> message_key_ok (rt_message C i k)"
  by (simp add: message_key_ok_def rt_message_def Let_def hkdf_def crypto_lawsD subarray_def)

lemma mk_index_rt_message [simp]: "mk_index (rt_message C i k) = i"
  by (simp add: rt_message_def Let_def)

lemma rt_find_None:
  assumes "rt_ok C c" "t \<notin> mk_index ` set (rt_unused c)"
  shows "find_index (\<lambda>entry. rm_index entry = Some t) (rcv_unusedMsgKeys c) = None"
  using assms by (intro find_index_None) (auto simp: rt_ok_def rt_unused_def raw_index)

lemma rt_select_stored:
  assumes "rt_ok C c" "t < rcv_nextMsgIndex c" "rt_unused c = xs @ m # ys" "mk_index m = t"
    "t \<notin> mk_index ` set xs"
  shows "\<exists>c'. selectMessageKey C c t = Inr (m, c') \<and> rt_ok C c' \<and>
    rcv_nextMsgIndex c' = rcv_nextMsgIndex c \<and> rcv_chainKey c' = rcv_chainKey c \<and>
    rt_unused c' = xs @ ys \<and> rcv_ratchetPubKey c' = rcv_ratchetPubKey c"
proof -
  obtain us r vs where u: "rcv_unusedMsgKeys c = us @ r # vs" "map of_raw us = xs" "of_raw r = m"
      "map of_raw vs = ys"
    using assms(3) unfolding rt_unused_def map_eq_append_conv map_eq_Cons_conv by blast
  have raw: "raw_ok r" "\<forall>x \<in> set us. raw_ok x"
    using assms(1) by (auto simp: rt_ok_def u(1))
  have "\<forall>x \<in> set us. mk_index (of_raw x) \<noteq> t" using assms(5) u(2) by fastforce
  with raw(2) have "\<forall>x \<in> set us. rm_index x \<noteq> Some t" by (simp add: raw_index)
  moreover have "rm_index r = Some t" using raw(1) assms(4) u(3) by (simp add: raw_index)
  ultimately have "find_index (\<lambda>entry. rm_index entry = Some t) (us @ r # vs) = Some (length us)"
    by (rule find_index_append)
  with assms(1,2) decode_raw [OF raw(1)] show ?thesis
    unfolding selectMessageKey_def Let_def u(1)
    by (auto simp: u removeAt_append rt_ok_def rt_unused_def)
qed

lemma rt_loop:
  fixes c :: recv_chain
  assumes "crypto_laws C" "0 < n"
  defines "ov \<equiv> overflow_count n (length (rcv_unusedMsgKeys c)) MAX_UNUSED_KEYS"
  shows "skip_loop (deriveMsgKey C) stored_key n (p + 1) (if 0 < ov then ov - int (length (rcv_unusedMsgKeys c)) else ov)
      (if 0 < ov then drop (nat ov) (rcv_unusedMsgKeys c) else rcv_unusedMsgKeys c)
      (rt_message C p k) (sk_next C k) =
    Inr (last_n MAX_UNUSED_KEYS (rcv_unusedMsgKeys c @ map stored_key
        (map (\<lambda>i. rt_message C i ((sk_next C ^^ (i - p)) k)) [p..<p + n])),
      rt_message C (p + n) ((sk_next C ^^ n) k), (sk_next C ^^ Suc n) k)"
  unfolding ov_def by (rule skip_loop_result [OF assms(2)]) (simp add: derive_rt [OF assms(1)])

lemma map_last_n: "map f (last_n n xs) = last_n n (map f xs)"
  by (simp add: last_n_def drop_map)

lemma rt_select_ahead:
  assumes "rt_ok C c" "rcv_nextMsgIndex c \<le> t" "t \<le> rcv_nextMsgIndex c + FUTURE_MESSAGES_MAX"
  shows "selectMessageKey C c t =
    Inr (rt_message C t ((sk_next C ^^ (t - rcv_nextMsgIndex c)) (rcv_chainKey c)),
      c\<lparr>rcv_nextMsgIndex := Suc t,
        rcv_chainKey := (sk_next C ^^ (Suc t - rcv_nextMsgIndex c)) (rcv_chainKey c),
        rcv_unusedMsgKeys := (if t = rcv_nextMsgIndex c then rcv_unusedMsgKeys c else
          last_n MAX_UNUSED_KEYS (rcv_unusedMsgKeys c @ map stored_key
            (map (\<lambda>i. rt_message C i ((sk_next C ^^ (i - rcv_nextMsgIndex c)) (rcv_chainKey c)))
              [rcv_nextMsgIndex c..<t])))\<rparr>)"
proof (cases "t = rcv_nextMsgIndex c")
  case True
  with assms(1) show ?thesis
    by (simp add: selectMessageKey_def Let_def derive_rt rt_ok_def)
next
  case False
  define n where "n = t - rcv_nextMsgIndex c"
  have laws: "crypto_laws C" using assms(1) by (simp add: rt_ok_def)
  have n: "0 < n" "t = rcv_nextMsgIndex c + n" "int t - int (rcv_nextMsgIndex c) = int n"
    using False assms(2) by (simp_all add: n_def)
  have delta: "\<not> int FUTURE_MESSAGES_MAX < int n" "\<not> int n < 0" "\<not> int n = 0" "nat (int n) = n"
    using n assms(3) by auto
  have "selectMessageKey C c t = Inr (rt_message C t ((sk_next C ^^ n) (rcv_chainKey c)),
      c\<lparr>rcv_nextMsgIndex := t + 1, rcv_chainKey := (sk_next C ^^ Suc n) (rcv_chainKey c),
        rcv_unusedMsgKeys := last_n MAX_UNUSED_KEYS (rcv_unusedMsgKeys c @ map stored_key
          (map (\<lambda>i. rt_message C i ((sk_next C ^^ (i - rcv_nextMsgIndex c)) (rcv_chainKey c)))
            [rcv_nextMsgIndex c..<t]))\<rparr>)"
    unfolding selectMessageKey_def Let_def n(3)
    by (simp only: rbind_simps derive_rt [OF laws] prod.case delta if_False
        overflow_count_def [symmetric] rt_loop [OF laws n(1)] n(2))
  then show ?thesis
    using False by (simp add: n_def [symmetric] n(2) Suc_diff_le)
qed

lemma last_n_sub: "x \<in> set (last_n n xs) \<Longrightarrow> x \<in> set xs"
  unfolding last_n_def by (rule in_set_dropD)

lemma rt_ok_ahead:
  assumes "rt_ok C c" "rcv_nextMsgIndex c \<le> t" "t \<le> rcv_nextMsgIndex c + FUTURE_MESSAGES_MAX" "counter_ok t"
  shows "\<exists>c'. selectMessageKey C c t =
      Inr (rt_message C t ((sk_next C ^^ (t - rcv_nextMsgIndex c)) (rcv_chainKey c)), c') \<and> rt_ok C c' \<and>
    rcv_nextMsgIndex c' = Suc t \<and> rcv_chainKey c' = (sk_next C ^^ (Suc t - rcv_nextMsgIndex c)) (rcv_chainKey c) \<and>
    rt_unused c' = (if t = rcv_nextMsgIndex c then rt_unused c else last_n MAX_UNUSED_KEYS (rt_unused c @
      map (\<lambda>i. rt_message C i ((sk_next C ^^ (i - rcv_nextMsgIndex c)) (rcv_chainKey c)))
        [rcv_nextMsgIndex c..<t])) \<and>
    rcv_ratchetPubKey c' = rcv_ratchetPubKey c"
proof -
  have laws: "crypto_laws C" using assms(1) by (simp add: rt_ok_def)
  have "raw_ok (stored_key (rt_message C i k))" if "i < t" for i k
    using that assms(4) rt_message_ok [OF laws, of i k]
    by (simp add: counter_ok_def MAX_SAFE_INTEGER_def)
  then have "\<forall>r \<in> set (last_n MAX_UNUSED_KEYS (rcv_unusedMsgKeys c @ map stored_key
      (map (\<lambda>i. rt_message C i ((sk_next C ^^ (i - rcv_nextMsgIndex c)) (rcv_chainKey c)))
        [rcv_nextMsgIndex c..<t]))). raw_ok r"
    using assms(1) by (auto dest!: last_n_sub simp: rt_ok_def)
  moreover have "length ((sk_next C ^^ n) (rcv_chainKey c)) = 32" for n
    using assms(1) length_sk_next_pow [OF laws] by (simp add: rt_ok_def)
  ultimately show ?thesis
    using assms(1,4) unfolding rt_select_ahead [OF assms(1-3)]
    by (auto simp: rt_ok_def rt_unused_def map_last_n comp_def counter_ok_def)
qed

interpretation recv: skipping_chain "sk_next C" "rt_message C" mk_index rcv_nextMsgIndex rcv_chainKey
    rt_unused "rt_ok C" "selectMessageKey C" FUTURE_MESSAGES_MAX MAX_UNUSED_KEYS counter_ok
  for C
proof
  fix s t
  assume "rt_ok C s" "rcv_nextMsgIndex s + FUTURE_MESSAGES_MAX < t"
  then show "\<exists>e. selectMessageKey C s t = Inl e"
    by (simp add: selectMessageKey_def Let_def)
next
  fix s t
  assume "rt_ok C s" "t < rcv_nextMsgIndex s" "t \<notin> mk_index ` set (rt_unused s)"
  with rt_find_None [OF this(1,3)] show "\<exists>e. selectMessageKey C s t = Inl e"
    by (simp add: selectMessageKey_def Let_def)
next
  fix s t xs m ys
  assume "rt_ok C s" "t < rcv_nextMsgIndex s" "rt_unused s = xs @ m # ys" "mk_index m = t"
    "t \<notin> mk_index ` set xs"
  from rt_select_stored [OF this] show "\<exists>s'. selectMessageKey C s t = Inr (m, s') \<and> rt_ok C s' \<and>
      rcv_nextMsgIndex s' = rcv_nextMsgIndex s \<and> rcv_chainKey s' = rcv_chainKey s \<and> rt_unused s' = xs @ ys"
    by blast
next
  fix s t
  assume "rt_ok C s" "counter_ok t" "rcv_nextMsgIndex s \<le> t" "t \<le> rcv_nextMsgIndex s + FUTURE_MESSAGES_MAX"
  from rt_ok_ahead [OF this(1,3,4,2)]
  show "\<exists>s'. selectMessageKey C s t =
      Inr (rt_message C t ((sk_next C ^^ (t - rcv_nextMsgIndex s)) (rcv_chainKey s)), s') \<and> rt_ok C s' \<and>
      rcv_nextMsgIndex s' = Suc t \<and> rcv_chainKey s' = (sk_next C ^^ (Suc t - rcv_nextMsgIndex s)) (rcv_chainKey s) \<and>
      rt_unused s' = (if t = rcv_nextMsgIndex s then rt_unused s else last_n MAX_UNUSED_KEYS (rt_unused s @
        map (\<lambda>i. rt_message C i ((sk_next C ^^ (i - rcv_nextMsgIndex s)) (rcv_chainKey s)))
          [rcv_nextMsgIndex s..<t]))"
    by blast
qed simp

text \<open>A selection keeps the ratchet key of the chain.\<close>

lemma selectMessageKey_pub:
  "selectMessageKey C c t = Inr (m, c') \<Longrightarrow> rcv_ratchetPubKey c' = rcv_ratchetPubKey c"
  by (auto simp: selectMessageKey_def Let_def rbind_eq_Inr_iff split: if_splits option.splits)

end
