(* ===== verification/SampleFields.thy ===== *)
theory SampleFields
  imports Prelude
begin

text \<open>
  Parts of the stand-ins for the generated protobuf code, which the witnesses use: fields that may be
  absent are written so that they can be read back from the front of what follows.
\<close>

text \<open>A codec that writes every field as a byte string with its length in unary.\<close>

definition enc_field :: "bytes option \<Rightarrow> bytes" where
  "enc_field v = (case v of None \<Rightarrow> [0] | Some b \<Rightarrow> 1 # replicate (length b) 1 @ [0] @ b)"

definition dec_field :: "bytes \<Rightarrow> bytes option \<times> bytes" where
  "dec_field bs =
    (if hd bs = 0 then (None, tl bs)
     else let n = length (takeWhile ((=) 1) (tl bs)); r = drop (Suc n) (tl bs)
       in (Some (take n r), drop n r))"

definition enc_num :: "nat option \<Rightarrow> bytes" where
  "enc_num v = enc_field (map_option (\<lambda>n. replicate n 0) v)"

definition dec_num :: "bytes \<Rightarrow> nat option \<times> bytes" where
  "dec_num bs = map_prod (map_option length) id (dec_field bs)"

lemma takeWhile_unary: "takeWhile ((=) 1) (replicate n (1 :: byte) @ 0 # xs) = replicate n 1"
  by (induction n) auto

lemma dec_enc_field [simp]: "dec_field (enc_field v @ rest) = (v, rest)"
  by (cases v) (simp_all add: dec_field_def enc_field_def takeWhile_unary Let_def)

lemma dec_enc_num [simp]: "dec_num (enc_num v @ rest) = (v, rest)"
  by (cases v) (simp_all add: dec_num_def enc_num_def)

lemma dec_enc_field_end [simp]: "dec_field (enc_field v) = (v, [])"
  using dec_enc_field [of v "[]"] by simp

lemma enc_field_not_Nil [simp]: "enc_field v \<noteq> []"
  by (cases v) (simp_all add: enc_field_def)

end
