(* ===== verification/SessionMessages.thy ===== *)
theory SessionMessages
  imports RatchetChain SampleFields
begin

text \<open>
  The laws the session code relies on of the protobuf library, a stand-in that satisfies them,
  and what they give for single messages: what one side encrypts the other side parses and opens with
  the same message key.
\<close>

subsection \<open>Laws of the parameters\<close>

definition u32_field :: "nat option \<Rightarrow> bool" where
  "u32_field v \<longleftrightarrow> (case v of Some n \<Rightarrow> n < 2 ^ 32 | None \<Rightarrow> True)"

definition proto_laws :: "signal_proto \<Rightarrow> bool" where
  "proto_laws P \<longleftrightarrow>
    (\<forall>m. u32_field (sm_counter m) \<and> u32_field (sm_previousCounter m) \<longrightarrow>
      decode_signal P (encode_signal P m) = Some m) \<and>
    (\<forall>m. sm_ratchetKey m \<noteq> None \<longrightarrow> encode_signal P m \<noteq> []) \<and>
    (\<forall>m. u32_field (pm_registrationId m) \<and> u32_field (pm_preKeyId m) \<and> u32_field (pm_signedPreKeyId m) \<longrightarrow>
      decode_pre_key P (encode_pre_key P m) = Some m) \<and>
    (\<forall>m. pm_message m \<noteq> None \<longrightarrow> encode_pre_key P m \<noteq> [])"

subsection \<open>Key pairs\<close>

definition serialized_pair :: "curve \<Rightarrow> key_pair \<Rightarrow> bool" where
  "serialized_pair X kp \<longleftrightarrow> length (privKey kp) = 32 \<and>
    pubKey kp = SERIALIZED_PUB_KEY_PREFIX # curve_public X (privKey kp)"

definition serialized_key :: "bytes \<Rightarrow> bool" where
  "serialized_key k \<longleftrightarrow> length k = 33 \<and> k ! 0 = SERIALIZED_PUB_KEY_PREFIX"

lemma toSerializedPubKey_serialized: "serialized_key k \<Longrightarrow> toSerializedPubKey k = Inr k"
  by (simp add: serialized_key_def toSerializedPubKey_def)

lemma toSerializedPubKey_raw: "length k = 32 \<Longrightarrow> toSerializedPubKey k = Inr (SERIALIZED_PUB_KEY_PREFIX # k)"
  by (simp add: toSerializedPubKey_def u8_set_def take_update_swap)

lemma toSerializedPubKey_Inr: "toSerializedPubKey k = Inr k' \<Longrightarrow> serialized_key k'"
  by (auto simp: toSerializedPubKey_def serialized_key_def u8_set_def take_update_swap split: if_splits)

lemma toRawPubKey_serialized: "length k = 32 \<Longrightarrow> toRawPubKey (SERIALIZED_PUB_KEY_PREFIX # k) = Inr k"
  by (simp add: toRawPubKey_def)

lemma serialized_pair_key:
  "curve_laws X \<Longrightarrow> serialized_pair X kp \<Longrightarrow> serialized_key (pubKey kp)"
  by (simp add: serialized_pair_def serialized_key_def curve_laws_def)

lemma toSerializedKeyPair_generated:
  assumes "curve_laws X" "generated_pair X g"
  shows "toSerializedKeyPair g =
      Inr \<lparr>pubKey = SERIALIZED_PUB_KEY_PREFIX # curve_public X (privKey g), privKey = privKey g\<rparr>"
    "serialized_pair X \<lparr>pubKey = SERIALIZED_PUB_KEY_PREFIX # curve_public X (privKey g), privKey = privKey g\<rparr>"
  using assms by (simp_all add: toSerializedKeyPair_def generated_pair_def serialized_pair_def
      curve_laws_def toSerializedPubKey_raw key_result_def)

text \<open>Both sides of a Diffie-Hellman exchange get the same secret.\<close>

lemma ecdh_agrees:
  assumes "curve_laws X" "serialized_pair X a" "serialized_pair X b"
  obtains s where "ecdh X (privKey a) (pubKey b) = Inr s" "ecdh X (privKey b) (pubKey a) = Inr s"
proof -
  have len: "length (privKey a) = 32" "length (privKey b) = 32"
    "length (curve_public X (privKey a)) = 32" "length (curve_public X (privKey b)) = 32"
    using assms by (simp_all add: serialized_pair_def curve_laws_def)
  obtain s where "scalar_mult X (privKey a) (curve_public X (privKey b)) = Some s"
      "scalar_mult X (privKey b) (curve_public X (privKey a)) = Some s"
    using assms(1) len(1,2) unfolding curve_laws_def by blast
  with len assms(2,3) show thesis
    by (intro that [of s]) (simp_all add: ecdh_def scalarMult_def serialized_pair_def
        toRawPubKey_serialized key_result_def)
qed

subsection \<open>Message bytes\<close>

definition signal_head :: "bytes \<Rightarrow> bytes" where
  "signal_head payload = version_byte SIGNAL_VERSION # payload"

lemma version_byte_3: "version_byte SIGNAL_VERSION = 0x33"
  by (simp add: version_byte_def SIGNAL_VERSION_def push_bit_eq_mult to_u8_def)

lemma signal_bytes_eq:
  assumes "crypto_laws C"
  shows "signal_bytes C mac localPub remotePub payload =
    signal_head payload @ take SIGNAL_MAC_SIZE
      (hmac_sha256 C mac (localPub @ remotePub @ signal_head payload))"
proof -
  let ?n = "1 + length payload"
  have out: "u8_set ((replicate (?n + SIGNAL_MAC_SIZE) 0)[0 := version_byte SIGNAL_VERSION]) payload 1 =
      signal_head payload @ replicate SIGNAL_MAC_SIZE 0"
    by (simp add: u8_set_def signal_head_def)
  have head: "subarray (signal_head payload @ replicate SIGNAL_MAC_SIZE 0) 0 ?n = signal_head payload"
    by (simp add: subarray_def signal_head_def)
  have tail: "u8_set (signal_head payload @ replicate SIGNAL_MAC_SIZE 0) m ?n = signal_head payload @ m"
    if "length m = SIGNAL_MAC_SIZE" for m :: bytes
    using that by (simp add: u8_set_def signal_head_def)
  show ?thesis
    unfolding signal_bytes_def Let_def out head
    by (subst tail) (simp_all add: hmacSha256Sign_def subarray_def crypto_lawsD [OF assms] SIGNAL_MAC_SIZE_def)
qed

lemma split_suffix:
  assumes "length m = n"
  shows "without_suffix (b @ m) n = b" "suffix_of (b @ m) n = m"
  using assms by (simp_all add: without_suffix_def suffix_of_def js_index_def)

lemma read_signal_bytes:
  assumes "crypto_laws C" "payload \<noteq> []"
  shows "readVersionedContent (signal_bytes C mac localPub remotePub payload) SIGNAL_VERSION SIGNAL_MAC_SIZE =
    Inr payload"
proof -
  define t where "t = take SIGNAL_MAC_SIZE (hmac_sha256 C mac (localPub @ remotePub @ signal_head payload))"
  have "length t = 8" using crypto_lawsD [OF assms(1)] by (simp add: t_def SIGNAL_MAC_SIZE_def)
  moreover have "signal_bytes C mac localPub remotePub payload = 0x33 # payload @ t"
    unfolding signal_bytes_eq [OF assms(1)] t_def by (simp add: signal_head_def version_byte_3)
  moreover have "length payload > 0" using assms(2) by simp
  ultimately show ?thesis
    unfolding readVersionedContent_def
    by (simp add: SIGNAL_VERSION_def SIGNAL_MAC_SIZE_def subarray_def drop_bit_eq_div)
qed

lemma deserialize_signal_bytes:
  fixes ct :: bytes
  assumes "crypto_laws C" "proto_laws P" "serialized_key ratchet" "n < 2 ^ 32" "prev < 2 ^ 32"
  defines "m \<equiv> \<lparr>sm_ratchetKey = Some ratchet, sm_counter = Some n, sm_previousCounter = Some prev,
      sm_ciphertext = Some ct\<rparr>"
  shows "deserializeMsg P (signal_bytes C mac localPub remotePub (encode_signal P m)) =
    Inr \<lparr>ps_ratchetPubKey = ratchet, ps_counter = n, ps_ciphertext = ct,
      ps_versionContentMac = signal_bytes C mac localPub remotePub (encode_signal P m)\<rparr>"
proof -
  have "encode_signal P m \<noteq> []" "decode_signal P (encode_signal P m) = Some m"
    using assms(2,4,5) unfolding proto_laws_def m_def by (simp_all add: u32_field_def)
  with toSerializedPubKey_serialized [OF assms(3)] show ?thesis
    unfolding deserializeMsg_def read_signal_bytes [OF assms(1) \<open>encode_signal P m \<noteq> []\<close>]
    by (simp add: key_result_def m_def)
qed

text \<open>The receiver opens what the sender sealed, with the roles of the identity keys swapped.\<close>

lemma open_sealed:
  assumes "crypto_laws C" "aesCbcDecrypt C (mk_cipherKey m) (mk_iv m) (ps_ciphertext message) = Some pt"
    "ps_versionContentMac message =
      signal_bytes C (mk_macKey m) (peerKey (ss_remote session)) (peerKey (ss_local session)) payload"
  shows "open_message C session m message = Inr pt"
proof -
  let ?mac = "hmac_sha256 C (mk_macKey m)
    (peerKey (ss_remote session) @ peerKey (ss_local session) @ signal_head payload)"
  have "length (take SIGNAL_MAC_SIZE ?mac) = SIGNAL_MAC_SIZE"
    by (simp add: crypto_lawsD [OF assms(1)] SIGNAL_MAC_SIZE_def)
  from split_suffix [OF this, of "signal_head payload"] assms(2) show ?thesis
    unfolding open_message_def Let_def assms(3) signal_bytes_eq [OF assms(1)]
    by (simp add: uint8TimingSafeEqual_iff hmacSha256Sign_def subarray_def)
qed

subsection \<open>Envelopes\<close>

text \<open>What \<open>decryptMessage\<close> parses an envelope to; of a pre-key message, the part the ratchet sees.\<close>

definition parse_envelope :: "signal_proto \<Rightarrow> envelope_type \<Rightarrow> bytes \<Rightarrow> signal_error + parsed_message" where
  "parse_envelope P type b =
    (case type of
       Msg \<Rightarrow> deserializeMsg P b
     | PkMsg \<Rightarrow> rbind (deserializePkMsg P b) (\<lambda>m. Inr (parsed_message.truncate m)))"

lemma decryptMsgFromSession_truncate:
  "decryptMsgFromSession C X s (parsed_message.truncate m) g = decryptMsgFromSession C X s m g"
  by (simp add: decryptMsgFromSession_def open_message_def parsed_message.truncate_def
      cong: option.case_cong if_cong)

lemma read_prepended:
  "body \<noteq> [] \<Longrightarrow> readVersionedContent (prependVersion body SIGNAL_VERSION) SIGNAL_VERSION 0 = Inr body"
  unfolding prependVersion_def version_byte_3
  by (cases body) (simp_all add: readVersionedContent_def SIGNAL_VERSION_def subarray_def drop_bit_eq_div)

definition identity_ok :: "'a snapshot_scheme \<Rightarrow> bool" where
  "identity_ok s \<longleftrightarrow> regId (ss_local s) < 2 ^ 32 \<and> serialized_key (peerKey (ss_local s)) \<and>
    (case initialExchangeInfo s of
       None \<Rightarrow> True
     | Some x \<Rightarrow> u32_field (remoteOneTimeId x) \<and> remoteSignedId x < 2 ^ 32 \<and>
         serialized_key (localOneTimePubKey x))"

lemma deserialize_pre_key:
  assumes "proto_laws P" "identity_ok s" "initialExchangeInfo s = Some x"
    "deserializeMsg P inner = Inr message"
  shows "deserializePkMsg P (prependVersion (encode_pre_key P
      \<lparr>pm_registrationId = Some (regId (ss_local s)), pm_preKeyId = remoteOneTimeId x,
       pm_signedPreKeyId = Some (remoteSignedId x), pm_baseKey = Some (localOneTimePubKey x),
       pm_identityKey = Some (peerKey (ss_local s)), pm_message = Some inner\<rparr>) SIGNAL_VERSION) =
    Inr (parsed_message.extend message
      \<lparr>pk_remote = ss_local s, pk_sessionBaseKey = localOneTimePubKey x,
       pk_localSignedPreKeyId = remoteSignedId x, pk_localOneTimeKeyId = remoteOneTimeId x\<rparr>)"
proof -
  let ?m = "\<lparr>pm_registrationId = Some (regId (ss_local s)), pm_preKeyId = remoteOneTimeId x,
    pm_signedPreKeyId = Some (remoteSignedId x), pm_baseKey = Some (localOneTimePubKey x),
    pm_identityKey = Some (peerKey (ss_local s)), pm_message = Some inner\<rparr>"
  have "decode_pre_key P (encode_pre_key P ?m) = Some ?m" "encode_pre_key P ?m \<noteq> []"
    using assms(1-3) unfolding proto_laws_def by (simp_all add: identity_ok_def u32_field_def)
  moreover have "toSerializedPubKey (peerKey (ss_local s)) = Inr (peerKey (ss_local s))"
    "toSerializedPubKey (localOneTimePubKey x) = Inr (localOneTimePubKey x)"
    using assms(2,3) by (simp_all add: identity_ok_def toSerializedPubKey_serialized)
  ultimately show ?thesis
    using assms(4) by (cases "ss_local s") (simp add: deserializePkMsg_def read_prepended key_result_def)
qed

text \<open>
  One call of \<open>encryptMsg\<close>: it succeeds, moves the sending chain one step, and the envelope parses to
  a message that every session with swapped identities opens with the message key of its counter.
\<close>

lemma encryptMsg_opens:
  assumes "crypto_laws C" "proto_laws P" "identity_ok s"
    "serialized_key (pubKey (snd_ratchetKey (sendChain s)))"
    "snd_nextMsgIndex (sendChain s) < 2 ^ 32" "prevSendChainHighestIndex s < 2 ^ 32"
  obtains ty b parsed where
    "encryptMsg C P s pt = Inr (s\<lparr>sendChain := (sendChain s)\<lparr>
        snd_nextMsgIndex := Suc (snd_nextMsgIndex (sendChain s)),
        snd_chainKey := sk_next C (snd_chainKey (sendChain s))\<rparr>\<rparr>, ty, b)"
    "parse_envelope P ty b = Inr parsed"
    "ps_ratchetPubKey parsed = pubKey (snd_ratchetKey (sendChain s))"
    "ps_counter parsed = snd_nextMsgIndex (sendChain s)"
    "\<And>r. peerKey (ss_local r) = peerKey (ss_remote s) \<Longrightarrow> peerKey (ss_remote r) = peerKey (ss_local s) \<Longrightarrow>
      open_message C (r :: session)
        (rt_message C (snd_nextMsgIndex (sendChain s)) (snd_chainKey (sendChain s))) parsed = Inr pt"
proof -
  let ?n = "snd_nextMsgIndex (sendChain s)" and ?k = "snd_chainKey (sendChain s)"
  let ?mk = "rt_message C ?n ?k"
  let ?pub = "pubKey (snd_ratchetKey (sendChain s))"
  have "message_key_ok ?mk"
    using assms(5) by (intro rt_message_ok [OF assms(1)]) (simp add: MAX_SAFE_INTEGER_def)
  then obtain ct where ct: "aesCbcEncrypt C (mk_cipherKey ?mk) (mk_iv ?mk) pt = Some ct"
      "aesCbcDecrypt C (mk_cipherKey ?mk) (mk_iv ?mk) ct = Some pt"
    using aesCbc_roundtrip [OF assms(1)] unfolding message_key_ok_def by blast
  define payload where "payload = encode_signal P \<lparr>sm_ratchetKey = Some ?pub, sm_counter = Some ?n,
    sm_previousCounter = Some (prevSendChainHighestIndex s), sm_ciphertext = Some ct\<rparr>"
  define inner where "inner = signal_bytes C (mk_macKey ?mk) (peerKey (ss_local s)) (peerKey (ss_remote s)) payload"
  define message where "message = \<lparr>ps_ratchetPubKey = ?pub, ps_counter = ?n, ps_ciphertext = ct,
    ps_versionContentMac = inner\<rparr>"
  have parse: "deserializeMsg P inner = Inr message"
    unfolding inner_def payload_def message_def
    by (rule deserialize_signal_bytes [OF assms(1,2,4-6)])
  have opens: "open_message C r ?mk message = Inr pt"
    if "peerKey (ss_local r) = peerKey (ss_remote s)" "peerKey (ss_remote r) = peerKey (ss_local s)"
    for r :: session
    by (rule open_sealed [OF assms(1), where payload = payload])
      (simp_all add: message_def inner_def ct(2) that)
  let ?s' = "s\<lparr>sendChain := (sendChain s)\<lparr>snd_nextMsgIndex := Suc ?n, snd_chainKey := sk_next C ?k\<rparr>\<rparr>"
  have upd: "s\<lparr>sendChain := \<lparr>snd_ratchetKey = snd_ratchetKey (sendChain s), snd_nextMsgIndex = ?n + 1,
      snd_chainKey = sk_next C ?k\<rparr>\<rparr> = ?s'" by simp
  show thesis
  proof (cases "initialExchangeInfo s")
    case None
    have "encryptMsg C P s pt = Inr (?s', Msg, inner)"
      by (simp add: encryptMsg_def derive_rt [OF assms(1)] ct(1) None Let_def inner_def payload_def)
    then show thesis
      by (rule that [where parsed = message])
        (simp_all add: parse_envelope_def parse message_def opens [unfolded message_def])
  next
    case (Some x)
    define b where "b = prependVersion (encode_pre_key P
      \<lparr>pm_registrationId = Some (regId (ss_local s)), pm_preKeyId = remoteOneTimeId x,
       pm_signedPreKeyId = Some (remoteSignedId x), pm_baseKey = Some (localOneTimePubKey x),
       pm_identityKey = Some (peerKey (ss_local s)), pm_message = Some inner\<rparr>) SIGNAL_VERSION"
    have "encryptMsg C P s pt = Inr (?s', PkMsg, b)"
      by (simp add: encryptMsg_def derive_rt [OF assms(1)] ct(1) Some Let_def b_def inner_def payload_def)
    moreover have "parse_envelope P PkMsg b = Inr message"
      unfolding parse_envelope_def b_def deserialize_pre_key [OF assms(2,3) Some parse]
      by (simp add: parsed_message.truncate_def parsed_message.extend_def)
    ultimately show thesis
      by (rule that [where parsed = message]) (simp_all add: message_def opens [unfolded message_def])
  qed
qed

subsection \<open>Stand-ins for the parameters\<close>

definition sample_proto :: signal_proto where
  "sample_proto = \<lparr>
     encode_signal = (\<lambda>m. enc_field (sm_ratchetKey m) @ enc_num (sm_counter m) @
       enc_num (sm_previousCounter m) @ enc_field (sm_ciphertext m)),
     decode_signal = (\<lambda>b. let (r, b1) = dec_field b; (n, b2) = dec_num b1; (p, b3) = dec_num b2;
         (c, b4) = dec_field b3
       in Some \<lparr>sm_ratchetKey = r, sm_counter = n, sm_previousCounter = p, sm_ciphertext = c\<rparr>),
     encode_pre_key = (\<lambda>m. enc_num (pm_registrationId m) @ enc_num (pm_preKeyId m) @
       enc_num (pm_signedPreKeyId m) @ enc_field (pm_baseKey m) @ enc_field (pm_identityKey m) @
       enc_field (pm_message m)),
     decode_pre_key = (\<lambda>b. let (r, b1) = dec_num b; (o', b2) = dec_num b1; (s, b3) = dec_num b2;
         (k, b4) = dec_field b3; (i, b5) = dec_field b4; (m, b6) = dec_field b5
       in Some \<lparr>pm_registrationId = r, pm_preKeyId = o', pm_signedPreKeyId = s, pm_baseKey = k,
         pm_identityKey = i, pm_message = m\<rparr>)\<rparr>"

lemma sample_proto_laws: "proto_laws sample_proto"
  by (simp add: proto_laws_def sample_proto_def)

end
