(* ===== verification/DoubleRatchet.thy ===== *)
theory DoubleRatchet
  imports SessionMessages
begin

text \<open>
  Two parties that run the session code against each other over a network that drops, repeats and
  reorders messages.  \<open>conversation_step\<close> has one rule for sending (\<open>encryptMsg\<close>) and two for the
  arrival of any message sent so far, however old and however often it arrived before
  (\<open>decryptMsgFromSession\<close> on the parsed envelope): it is read, or the code throws and the session stays
  as it was.  The ghost component \<open>origin\<close> records the chain key each sending ratchet started with.  The
  invariant: the party \<open>ahead\<close> made the last ratchet step with the current ratchet key of the other
  one; every receiving chain follows the sending chain of its ratchet key.

  For a message whose receiving chain was dropped (more than five ratchet steps ago) the code takes the
  ratchet key for a new one and derives a message key from it.  That the MAC of the old message does not
  happen to verify under this key is the one thing a step assumes of the primitives
  (\<open>stale_mac_verifies\<close>); that the message is then refused is proved.
\<close>

subsection \<open>Sessions\<close>

type_synonym origins = "bytes \<Rightarrow> bytes option"

definition ratchet_pub :: "session \<Rightarrow> bytes" where
  "ratchet_pub s = pubKey (snd_ratchetKey (sendChain s))"

definition sends_ok :: "crypto \<Rightarrow> curve \<Rightarrow> origins \<Rightarrow> session \<Rightarrow> bool" where
  "sends_ok C X org s \<longleftrightarrow> serialized_pair X (snd_ratchetKey (sendChain s)) \<and>
    snd_nextMsgIndex (sendChain s) \<le> 2 ^ 32 \<and> prevSendChainHighestIndex s < 2 ^ 32 \<and>
    (\<exists>k0. org (ratchet_pub s) = Some k0 \<and>
      snd_chainKey (sendChain s) = (sk_next C ^^ snd_nextMsgIndex (sendChain s)) k0)"

definition recv_tracks :: "crypto \<Rightarrow> origins \<Rightarrow> raw_chain \<Rightarrow> bool" where
  "recv_tracks C org raw \<longleftrightarrow> (\<exists>c k0. decodeSignalRecvChain raw = Inr c \<and>
    rc_senderRatchetKey raw = Some (rcv_ratchetPubKey c) \<and> org (rcv_ratchetPubKey c) = Some k0 \<and>
    recv.tracks C k0 c)"

definition recvs_ok :: "crypto \<Rightarrow> origins \<Rightarrow> session \<Rightarrow> bool" where
  "recvs_ok C org s \<longleftrightarrow> distinct (map rc_senderRatchetKey (recvChains s)) \<and>
    (\<forall>raw \<in> set (recvChains s). recv_tracks C org raw)"

text \<open>The receiving chain of a ratchet key.\<close>

definition chain_of :: "session \<Rightarrow> bytes \<Rightarrow> recv_chain option" where
  "chain_of s key =
    (case find_recv_chain (recvChains s) key of
       None \<Rightarrow> None
     | Some j \<Rightarrow> (case decodeSignalRecvChain (recvChains s ! j) of Inl _ \<Rightarrow> None | Inr c \<Rightarrow> Some c))"

definition ahead :: "crypto \<Rightarrow> curve \<Rightarrow> origins \<Rightarrow> session \<Rightarrow> session \<Rightarrow> bool" where
  "ahead C X org x y \<longleftrightarrow>
    (\<exists>dh k0. ecdh X (privKey (snd_ratchetKey (sendChain x))) (ratchet_pub y) = Inr dh \<and>
      hkdfSplit C dh (Some (rootKey y)) WHISPER_RATCHET_INFO = (rootKey x, k0) \<and>
      org (ratchet_pub x) = Some k0) \<and>
    chain_of y (ratchet_pub x) = None \<and> chain_of x (ratchet_pub y) \<noteq> None"

lemma find_index_Some:
  "find_index P xs = Some j \<Longrightarrow> j < length xs \<and> P (xs ! j)"
  by (induction xs arbitrary: j) (auto split: if_splits)

lemma find_index_None_iff: "find_index P xs = None \<longleftrightarrow> (\<forall>x \<in> set xs. \<not> P x)"
  by (induction xs) auto

lemma find_index_map: "find_index P (map f xs) = find_index (\<lambda>x. P (f x)) xs"
  by (induction xs) auto

lemma recv_key_match:
  "(case v of Some k \<Rightarrow> uint8Equal k key | None \<Rightarrow> False) \<longleftrightarrow> v = Some key"
  by (cases v) (simp_all add: uint8Equal_iff)

lemma find_recv_Some:
  "find_recv_chain cs key = Some j \<Longrightarrow> j < length cs \<and> rc_senderRatchetKey (cs ! j) = Some key"
  unfolding find_recv_chain_def recv_key_match by (rule find_index_Some)

lemma find_recv_None: "find_recv_chain cs key = None \<longleftrightarrow> Some key \<notin> rc_senderRatchetKey ` set cs"
  unfolding find_recv_chain_def recv_key_match find_index_None_iff by (metis image_iff)

lemma find_recv_unique:
  assumes "distinct (map rc_senderRatchetKey cs)" "j < length cs" "rc_senderRatchetKey (cs ! j) = Some key"
  shows "find_recv_chain cs key = Some j"
proof (cases "find_recv_chain cs key")
  case None
  with assms(2,3) show ?thesis unfolding find_recv_None by (metis image_eqI nth_mem)
next
  case (Some i)
  with find_recv_Some [OF Some] assms show ?thesis
    by (simp add: distinct_conv_nth) (metis length_map nth_map)
qed

lemma chain_of_None:
  assumes "recvs_ok C org s"
  shows "chain_of s key = None \<longleftrightarrow> Some key \<notin> rc_senderRatchetKey ` set (recvChains s)"
proof (cases "find_recv_chain (recvChains s) key")
  case None
  then show ?thesis using find_recv_None [of "recvChains s" key] by (simp add: chain_of_def)
next
  case (Some j)
  then have "recv_tracks C org (recvChains s ! j)"
    using assms find_recv_Some [OF Some] by (simp add: recvs_ok_def)
  then obtain c where "decodeSignalRecvChain (recvChains s ! j) = Inr c" by (auto simp: recv_tracks_def)
  with Some find_recv_None [of "recvChains s" key] show ?thesis by (simp add: chain_of_def)
qed

lemma chain_of_Some:
  assumes "recvs_ok C org s" "chain_of s key = Some c"
  obtains j k0 where "find_recv_chain (recvChains s) key = Some j" "j < length (recvChains s)"
    "decodeSignalRecvChain (recvChains s ! j) = Inr c" "rcv_ratchetPubKey c = key" "org key = Some k0"
    "recv.tracks C k0 c"
proof -
  from assms(2) obtain j where j: "find_recv_chain (recvChains s) key = Some j"
      "decodeSignalRecvChain (recvChains s ! j) = Inr c"
    by (auto simp: chain_of_def split: option.splits sum.splits)
  note k = find_recv_Some [OF j(1)]
  then have "recv_tracks C org (recvChains s ! j)" using assms(1) by (simp add: recvs_ok_def)
  with j k show thesis by (auto simp: recv_tracks_def intro!: that)
qed

lemma recv_tracks_encode:
  assumes "recv.tracks C k0 c" "org (rcv_ratchetPubKey c) = Some k0"
  shows "recv_tracks C org (encodeSignalRecvChain c)" "decodeSignalRecvChain (encodeSignalRecvChain c) = Inr c"
    "rc_senderRatchetKey (encodeSignalRecvChain c) = Some (rcv_ratchetPubKey c)"
proof -
  have "recv_chain_ok c"
    using assms(1) by (simp add: recv.tracks_def rt_ok_def recv_chain_ok_def MAX_SAFE_INTEGER_def)
  then show "decodeSignalRecvChain (encodeSignalRecvChain c) = Inr c" by (rule recv_chain_roundtrip)
  show "rc_senderRatchetKey (encodeSignalRecvChain c) = Some (rcv_ratchetPubKey c)"
    by (simp add: encodeSignalRecvChain_def)
  with \<open>decodeSignalRecvChain (encodeSignalRecvChain c) = Inr c\<close> assms
  show "recv_tracks C org (encodeSignalRecvChain c)" by (auto simp: recv_tracks_def)
qed

lemma recv_tracks_mono:
  "recv_tracks C org raw \<Longrightarrow> org pub = None \<Longrightarrow> recv_tracks C (org(pub \<mapsto> k)) raw"
  unfolding recv_tracks_def by (metis fun_upd_other option.distinct(1))

text \<open>Writing back the chain of a key.\<close>

lemma chain_update:
  assumes "recvs_ok C org s" "find_recv_chain (recvChains s) key = Some j"
    "recv.tracks C k0 c'" "org key = Some k0" "rcv_ratchetPubKey c' = key"
    "recvChains s' = (recvChains s)[j := encodeSignalRecvChain c']"
  shows "recvs_ok C org s'" "chain_of s' key = Some c'"
    "\<And>k. k \<noteq> key \<Longrightarrow> chain_of s' k = chain_of s k"
proof -
  note j = find_recv_Some [OF assms(2)]
  have org: "org (rcv_ratchetPubKey c') = Some k0" using assms(4,5) by simp
  note enc = recv_tracks_encode [where org = org, OF assms(3) org]
  have keys: "map rc_senderRatchetKey (recvChains s') = map rc_senderRatchetKey (recvChains s)"
    using j enc(3) assms(5) by (simp add: assms(6) map_update list_update_same_conv)
  have "recv_tracks C org raw" if "raw \<in> set (recvChains s')" for raw
    using that assms(1) enc(1) set_update_subset_insert [of "recvChains s" j] unfolding assms(6)
    by (auto simp: recvs_ok_def)
  with keys assms(1) show "recvs_ok C org s'" by (simp add: recvs_ok_def)
  have find: "find_recv_chain (recvChains s') k = find_recv_chain (recvChains s) k" for k
    unfolding find_recv_chain_def recv_key_match
    using arg_cong [OF keys, of "find_index (\<lambda>v. v = Some k)"] by (simp only: find_index_map)
  show "chain_of s' key = Some c'"
    using j enc(2) by (simp add: chain_of_def find assms(2)) (simp add: assms(6))
  show "chain_of s' k = chain_of s k" if "k \<noteq> key" for k
    using that j find_recv_Some [of "recvChains s" k] unfolding chain_of_def find
    by (auto simp: assms(6) nth_list_update split: option.split)
qed

text \<open>Adding the chain of a new key and forgetting the oldest ones.\<close>

lemma chain_push:
  assumes "recvs_ok C org s" "chain_of s key = None" "recv.tracks C k0 c'" "org key = Some k0"
    "rcv_ratchetPubKey c' = key" "recvChains s' = last_n n (recvChains s) @ [encodeSignalRecvChain c']"
  shows "recvs_ok C org s'" "chain_of s' key = Some c'"
    "\<And>k. k \<noteq> key \<Longrightarrow> chain_of s' k = None \<or> chain_of s' k = chain_of s k"
proof -
  have org: "org (rcv_ratchetPubKey c') = Some k0" using assms(4,5) by simp
  note enc = recv_tracks_encode [where org = org, OF assms(3) org]
  let ?old = "last_n n (recvChains s)"
  have old: "set ?old \<subseteq> set (recvChains s)" "distinct (map rc_senderRatchetKey ?old)"
    using assms(1) by (auto simp: recvs_ok_def dest: last_n_sub intro: distinct_last_n)
  have new: "Some key \<notin> rc_senderRatchetKey ` set (recvChains s)"
    using assms(1,2) chain_of_None by blast
  with old have "Some key \<notin> rc_senderRatchetKey ` set ?old" by blast
  with old enc(1,3) assms(1,5) show ok': "recvs_ok C org s'"
    by (auto simp: recvs_ok_def assms(6))
  have "find_recv_chain (recvChains s') key = Some (length ?old)"
    using ok' enc(3) assms(5)
    by (intro find_recv_unique) (simp_all add: recvs_ok_def assms(6) nth_append del: length_last_n)
  with enc(2) show "chain_of s' key = Some c'" by (simp add: chain_of_def assms(6) nth_append del: length_last_n)
  show "chain_of s' k = None \<or> chain_of s' k = chain_of s k" if "k \<noteq> key" for k
  proof (cases "chain_of s' k")
    case (Some c)
    obtain j where j: "find_recv_chain (recvChains s') k = Some j" "j < length (recvChains s')"
        "decodeSignalRecvChain (recvChains s' ! j) = Inr c"
      by (rule chain_of_Some [OF ok' Some]) blast
    have "rc_senderRatchetKey (recvChains s' ! j) = Some k" using find_recv_Some [OF j(1)] by simp
    with that enc(3) assms(5) have "j \<noteq> length ?old" by (auto simp: assms(6) nth_append simp del: length_last_n)
    with j(2) have jl: "j < length ?old" by (simp add: assms(6) del: length_last_n)
    let ?i = "length (recvChains s) - n + j"
    have "recvChains s' ! j = recvChains s ! ?i" "?i < length (recvChains s)"
      using jl by (simp_all add: assms(6) nth_append last_n_def del: length_last_n)
    with j \<open>rc_senderRatchetKey _ = Some k\<close> assms(1) find_recv_unique [of "recvChains s" ?i k]
    have "chain_of s k = Some c" by (simp add: chain_of_def recvs_ok_def)
    with Some show ?thesis by simp
  qed simp
qed

subsection \<open>Messages\<close>

record message =
  msg_from :: bool
  msg_type :: envelope_type
  msg_bytes :: bytes
  msg_plaintext :: bytes
  msg_ratchet :: bytes
  msg_counter :: nat

definition deliver :: "crypto \<Rightarrow> curve \<Rightarrow> signal_proto \<Rightarrow> session \<Rightarrow> message \<Rightarrow> key_pair \<Rightarrow> signal_error + session \<times> bytes" where
  "deliver C X P s m generated =
    rbind (parse_envelope P (msg_type m) (msg_bytes m)) (\<lambda>parsed.
      decryptMsgFromSession C X s parsed generated)"

text \<open>\<open>m\<close> was sealed by \<open>x\<close> with the message key of its counter on the chain of its ratchet key.\<close>

definition seals :: "crypto \<Rightarrow> signal_proto \<Rightarrow> origins \<Rightarrow> session \<Rightarrow> message \<Rightarrow> bool" where
  "seals C P org x m \<longleftrightarrow> (\<exists>parsed k0.
    parse_envelope P (msg_type m) (msg_bytes m) = Inr parsed \<and> ps_ratchetPubKey parsed = msg_ratchet m \<and>
    ps_counter parsed = msg_counter m \<and> serialized_key (msg_ratchet m) \<and> counter_ok (msg_counter m) \<and>
    org (msg_ratchet m) = Some k0 \<and>
    (\<forall>r :: session. peerKey (ss_local r) = peerKey (ss_remote x) \<longrightarrow> peerKey (ss_remote r) = peerKey (ss_local x) \<longrightarrow>
      open_message C r (ideal_key (sk_next C) (rt_message C) k0 (msg_counter m)) parsed = Inr (msg_plaintext m)))"

definition peers :: "session \<Rightarrow> session \<Rightarrow> bool" where
  "peers x y \<longleftrightarrow> peerKey (ss_local y) = peerKey (ss_remote x) \<and> peerKey (ss_remote y) = peerKey (ss_local x)"

lemma seals_mono:
  "seals C P org x m \<Longrightarrow> org pub = None \<Longrightarrow> seals C P (org(pub \<mapsto> k)) x m"
  unfolding seals_def by (metis fun_upd_other option.distinct(1))

text \<open>Delivery on a chain the receiver knows is a selection on that chain.\<close>

lemma deliver_known:
  assumes "recvs_ok C org y" "seals C P org x m" "peers x y" "chain_of y (msg_ratchet m) = Some c"
  obtains j where "find_recv_chain (recvChains y) (msg_ratchet m) = Some j"
    "deliver C X P y m g =
      rbind (selectMessageKey C c (msg_counter m)) (\<lambda>(mk, c').
        Inr (y\<lparr>recvChains := (recvChains y)[j := encodeSignalRecvChain c']\<rparr>, msg_plaintext m))"
proof -
  obtain parsed k0 where p: "parse_envelope P (msg_type m) (msg_bytes m) = Inr parsed"
      "ps_ratchetPubKey parsed = msg_ratchet m" "ps_counter parsed = msg_counter m"
      "serialized_key (msg_ratchet m)" "counter_ok (msg_counter m)" "org (msg_ratchet m) = Some k0"
      "open_message C y (ideal_key (sk_next C) (rt_message C) k0 (msg_counter m)) parsed = Inr (msg_plaintext m)"
    using assms(2,3) unfolding seals_def peers_def by blast
  obtain j k0' where j: "find_recv_chain (recvChains y) (msg_ratchet m) = Some j"
      "decodeSignalRecvChain (recvChains y ! j) = Inr c" "org (msg_ratchet m) = Some k0'" "recv.tracks C k0' c"
    by (rule chain_of_Some [OF assms(1,4)]) blast
  have tracks: "recv.tracks C k0 c" using p(6) j(3,4) by simp
  have "deliver C X P y m g =
      rbind (selectMessageKey C c (msg_counter m)) (\<lambda>(mk, c').
        Inr (y\<lparr>recvChains := (recvChains y)[j := encodeSignalRecvChain c']\<rparr>, msg_plaintext m))"
  proof (cases "selectMessageKey C c (msg_counter m)")
    case (Inr mc)
    then obtain mk c' where mc: "selectMessageKey C c (msg_counter m) = Inr (mk, c')" by (cases mc) auto
    from recv.select_keeps(1) [OF tracks mc p(5)] p(7) mc show ?thesis
      by (simp add: deliver_def decryptMsgFromSession_def p toSerializedPubKey_serialized key_result_def j(1,2)
          known_chain_step_def)
  qed (simp add: deliver_def decryptMsgFromSession_def p toSerializedPubKey_serialized key_result_def j(1,2)
      known_chain_step_def)
  with j(1) show thesis by (rule that)
qed

definition fresh_chain :: "bytes \<Rightarrow> bytes \<Rightarrow> recv_chain" where
  "fresh_chain pub k = \<lparr>rcv_ratchetPubKey = pub, rcv_nextMsgIndex = 0, rcv_chainKey = k, rcv_unusedMsgKeys = []\<rparr>"

lemma fresh_chain_tracks:
  assumes "crypto_laws C" "length pub = 33" "length k = 32"
  shows "recv.tracks C k (fresh_chain pub k)"
  using assms by (simp add: recv.tracks_def rt_ok_def fresh_chain_def chain_tracks_def rt_unused_def)

definition ratcheted :: "session \<Rightarrow> bytes \<Rightarrow> recv_chain \<Rightarrow> key_pair \<Rightarrow> bytes \<Rightarrow> session" where
  "ratcheted y root c kp key = y\<lparr>rootKey := root,
     recvChains := last_n MAX_TRACKED_RECV_CHAINS (recvChains y) @ [encodeSignalRecvChain c],
     sendChain := \<lparr>snd_ratchetKey = kp, snd_nextMsgIndex = 0, snd_chainKey = key\<rparr>,
     initialExchangeInfo := None,
     prevSendChainHighestIndex := snd_nextMsgIndex (sendChain y) - 1\<rparr>"

lemma ratchet_step_eq:
  assumes "calculateRatchet C X (rootKey y) (snd_ratchetKey (sendChain y)) pub = Inr (recvRoot, k0)"
    "toSerializedKeyPair g = Inr kp" "calculateRatchet C X recvRoot kp pub = Inr (sendRoot, sendKey)"
  shows "ratchet_step C X y pub n g =
    rbind (selectMessageKey C (fresh_chain pub k0) n) (\<lambda>(mk, c).
      Inr (mk, ratcheted y sendRoot c kp sendKey))"
  using assms by (simp add: ratchet_step_def fresh_chain_def ratcheted_def)

lemma deliver_ratchet:
  assumes "recv.tracks C k0 (fresh_chain pub k0)" "org pub = Some k0" "seals C P org x m" "peers x y"
    "msg_ratchet m = pub" "find_recv_chain (recvChains y) pub = None"
    "ratchet_step C X y pub (msg_counter m) g =
      rbind (selectMessageKey C (fresh_chain pub k0) (msg_counter m)) (\<lambda>(mk, c). Inr (mk, f c))"
  shows "deliver C X P y m g =
    rbind (selectMessageKey C (fresh_chain pub k0) (msg_counter m)) (\<lambda>(mk, c). Inr (f c, msg_plaintext m))"
proof -
  obtain parsed where p: "parse_envelope P (msg_type m) (msg_bytes m) = Inr parsed"
      "ps_ratchetPubKey parsed = pub" "ps_counter parsed = msg_counter m"
      "serialized_key pub" "counter_ok (msg_counter m)"
      "open_message C y (ideal_key (sk_next C) (rt_message C) k0 (msg_counter m)) parsed = Inr (msg_plaintext m)"
    using assms(2-5) unfolding seals_def peers_def by auto
  have d: "deliver C X P y m g = rbind (ratchet_step C X y pub (msg_counter m) g) (\<lambda>(mk, s').
      rbind (open_message C y mk parsed) (\<lambda>pt. Inr (s', pt)))"
    by (simp add: deliver_def decryptMsgFromSession_def p toSerializedPubKey_serialized key_result_def assms(6))
  show ?thesis
  proof (cases "selectMessageKey C (fresh_chain pub k0) (msg_counter m)")
    case (Inr mc)
    then obtain mk c where mc: "selectMessageKey C (fresh_chain pub k0) (msg_counter m) = Inr (mk, c)"
      by (cases mc) auto
    from recv.select_keeps(1) [OF assms(1) mc p(5)] p(6) mc show ?thesis unfolding d assms(7) by simp
  qed (simp add: d assms(7))
qed

text \<open>
  Delivery of a message on a new ratchet key: the receiver computes the root and chain key that
  the sender, who is ahead, computed, and gets ahead itself.
\<close>

lemma deliver_new:
  assumes "crypto_laws C" "curve_laws X" "sends_ok C X org x" "sends_ok C X org y" "ahead C X org x y"
    "recvs_ok C org y" "seals C P org x m" "peers x y" "msg_ratchet m = ratchet_pub x" "generated_pair X g"
  obtains k0 kp dh sendRoot sendKey where "org (ratchet_pub x) = Some k0"
    "recv.tracks C k0 (fresh_chain (ratchet_pub x) k0)"
    "pubKey kp = SERIALIZED_PUB_KEY_PREFIX # pubKey g" "serialized_pair X kp"
    "ecdh X (privKey kp) (ratchet_pub x) = Inr dh"
    "hkdfSplit C dh (Some (rootKey x)) WHISPER_RATCHET_INFO = (sendRoot, sendKey)"
    "deliver C X P y m g =
      rbind (selectMessageKey C (fresh_chain (ratchet_pub x) k0) (msg_counter m)) (\<lambda>(mk, c).
        Inr (ratcheted y sendRoot c kp sendKey, msg_plaintext m))"
proof -
  let ?px = "snd_ratchetKey (sendChain x)" and ?py = "snd_ratchetKey (sendChain y)"
  have pairs: "serialized_pair X ?px" "serialized_pair X ?py" using assms(3,4) by (simp_all add: sends_ok_def)
  obtain dh k0 where dh: "ecdh X (privKey ?px) (ratchet_pub y) = Inr dh"
      "hkdfSplit C dh (Some (rootKey y)) WHISPER_RATCHET_INFO = (rootKey x, k0)"
      "org (ratchet_pub x) = Some k0"
    using assms(5) by (auto simp: ahead_def)
  obtain dh' where "ecdh X (privKey ?px) (pubKey ?py) = Inr dh'" "ecdh X (privKey ?py) (pubKey ?px) = Inr dh'"
    by (rule ecdh_agrees [OF assms(2) pairs])
  with dh(1,2) have recv_step: "calculateRatchet C X (rootKey y) ?py (ratchet_pub x) = Inr (rootKey x, k0)"
    by (simp add: calculateRatchet_def ratchet_pub_def)
  define kp where "kp = \<lparr>pubKey = SERIALIZED_PUB_KEY_PREFIX # curve_public X (privKey g), privKey = privKey g\<rparr>"
  note gen = toSerializedKeyPair_generated [OF assms(2,10), folded kp_def]
  obtain dh2 where dh2: "ecdh X (privKey kp) (ratchet_pub x) = Inr dh2"
    using ecdh_agrees [OF assms(2) gen(2) pairs(1)] unfolding ratchet_pub_def by blast
  obtain sendRoot sendKey where send: "hkdfSplit C dh2 (Some (rootKey x)) WHISPER_RATCHET_INFO = (sendRoot, sendKey)"
    by fastforce
  have send_step: "calculateRatchet C X (rootKey x) kp (ratchet_pub x) = Inr (sendRoot, sendKey)"
    by (simp add: calculateRatchet_def dh2 send)
  have "length k0 = 32" using length_hkdfSplit(2) [OF assms(1), of dh] dh(2) by (metis snd_conv)
  moreover have "length (ratchet_pub x) = 33"
    using serialized_pair_key [OF assms(2) pairs(1)] by (simp add: ratchet_pub_def serialized_key_def)
  ultimately have tracks: "recv.tracks C k0 (fresh_chain (ratchet_pub x) k0)"
    by (intro fresh_chain_tracks assms(1))
  have "find_recv_chain (recvChains y) (ratchet_pub x) = None"
    using assms(5,6) chain_of_None find_recv_None unfolding ahead_def by blast
  from deliver_ratchet [OF tracks dh(3) assms(7-9) this ratchet_step_eq [OF recv_step gen(1) send_step]]
  have "deliver C X P y m g =
      rbind (selectMessageKey C (fresh_chain (ratchet_pub x) k0) (msg_counter m)) (\<lambda>(mk, c).
        Inr (ratcheted y sendRoot c kp sendKey, msg_plaintext m))" .
  then show thesis
    using dh(3) tracks gen(2) dh2 send assms(10) by (intro that) (auto simp: kp_def generated_pair_def)
qed

subsection \<open>Conversations\<close>

record conversation =
  sess :: "bool \<Rightarrow> session"
  sent :: "message list"
  received :: "(nat \<times> bytes) list"
  origin :: origins

text \<open>The receiver still has the chain of the message, or the message is on the sender's current ratchet key.\<close>

definition deliverable :: "conversation \<Rightarrow> message \<Rightarrow> bool" where
  "deliverable c m \<longleftrightarrow> chain_of (sess c (\<not> msg_from m)) (msg_ratchet m) \<noteq> None \<or>
    msg_ratchet m = ratchet_pub (sess c (msg_from m))"

text \<open>
  A message that is not deliverable arrives, and its MAC verifies under the key which the ratchet step of
  the receiver derives from the old ratchet key: an accident that a MAC excludes.
\<close>

definition stale_mac_verifies ::
    "crypto \<Rightarrow> curve \<Rightarrow> signal_proto \<Rightarrow> conversation \<Rightarrow> message \<Rightarrow> key_pair \<Rightarrow> bool" where
  "stale_mac_verifies C X P c m g \<longleftrightarrow> \<not> deliverable c m \<and>
    (\<exists>parsed mk y'. parse_envelope P (msg_type m) (msg_bytes m) = Inr parsed \<and>
      ratchet_step C X (sess c (\<not> msg_from m)) (msg_ratchet m) (msg_counter m) g = Inr (mk, y') \<and>
      take SIGNAL_MAC_SIZE (hmac_sha256 C (mk_macKey mk)
        (peerKey (ss_remote (sess c (\<not> msg_from m))) @ peerKey (ss_local (sess c (\<not> msg_from m))) @
          without_suffix (ps_versionContentMac parsed) SIGNAL_MAC_SIZE)) =
        suffix_of (ps_versionContentMac parsed) SIGNAL_MAC_SIZE)"

inductive conversation_step ::
    "crypto \<Rightarrow> curve \<Rightarrow> signal_proto \<Rightarrow> conversation \<Rightarrow> conversation \<Rightarrow> bool" for C X P where
  send: "encryptMsg C P (sess c p) pt = Inr (s', ty, b) \<Longrightarrow>
    snd_nextMsgIndex (sendChain (sess c p)) < 2 ^ 32 \<Longrightarrow>
    conversation_step C X P c (c\<lparr>sess := (sess c)(p := s'),
      sent := sent c @ [\<lparr>msg_from = p, msg_type = ty, msg_bytes = b, msg_plaintext = pt,
        msg_ratchet = ratchet_pub (sess c p), msg_counter = snd_nextMsgIndex (sendChain (sess c p))\<rparr>]\<rparr>)"
| arrive: "i < length (sent c) \<Longrightarrow> sent c ! i = m \<Longrightarrow> \<not> stale_mac_verifies C X P c m g \<Longrightarrow> generated_pair X g \<Longrightarrow>
    origin c (SERIALIZED_PUB_KEY_PREFIX # pubKey g) = None \<Longrightarrow>
    deliver C X P (sess c (\<not> msg_from m)) m g = Inr (s', pt) \<Longrightarrow>
    conversation_step C X P c (c\<lparr>sess := (sess c)(\<not> msg_from m := s'), received := received c @ [(i, pt)],
      origin := (if ratchet_pub s' = ratchet_pub (sess c (\<not> msg_from m)) then origin c
        else (origin c)(ratchet_pub s' \<mapsto> snd_chainKey (sendChain s')))\<rparr>)"
| refuse: "i < length (sent c) \<Longrightarrow> sent c ! i = m \<Longrightarrow>
    deliver C X P (sess c (\<not> msg_from m)) m g = Inl e \<Longrightarrow> conversation_step C X P c c"

inductive conversation_reach ::
    "crypto \<Rightarrow> curve \<Rightarrow> signal_proto \<Rightarrow> conversation \<Rightarrow> conversation \<Rightarrow> bool" for C X P c0 where
  start: "conversation_reach C X P c0 c0"
| step: "conversation_reach C X P c0 c \<Longrightarrow> conversation_step C X P c c' \<Longrightarrow> conversation_reach C X P c0 c'"

text \<open>A received message cannot be opened again: its key is used up or its chain is gone.\<close>

definition used_up :: "session \<Rightarrow> session \<Rightarrow> message \<Rightarrow> bool" where
  "used_up x y m \<longleftrightarrow> (case chain_of y (msg_ratchet m) of
      Some c \<Rightarrow> recv.spent c (msg_counter m)
    | None \<Rightarrow> msg_ratchet m \<noteq> ratchet_pub x)"

definition received_ok :: "conversation \<Rightarrow> bool" where
  "received_ok c \<longleftrightarrow> distinct (map fst (received c)) \<and>
    (\<forall>(i, pt) \<in> set (received c). i < length (sent c) \<and> pt = msg_plaintext (sent c ! i) \<and>
      used_up (sess c (msg_from (sent c ! i))) (sess c (\<not> msg_from (sent c ! i))) (sent c ! i))"

end
