(* ===== verification/Conversations.thy ===== *)
theory Conversations
  imports DoubleRatchet
begin

text \<open>
  The invariant of conversations is kept by every step.  The lemmas are stated for a pair of
  sessions \<open>x\<close>, \<open>y\<close>, where \<open>y\<close> receives.
\<close>

definition party_ok :: "crypto \<Rightarrow> curve \<Rightarrow> origins \<Rightarrow> session \<Rightarrow> bool" where
  "party_ok C X org s \<longleftrightarrow> identity_ok s \<and> sends_ok C X org s \<and> recvs_ok C org s"

definition pair_ok :: "crypto \<Rightarrow> curve \<Rightarrow> origins \<Rightarrow> session \<Rightarrow> session \<Rightarrow> bool" where
  "pair_ok C X org x y \<longleftrightarrow> peers x y \<and> party_ok C X org x \<and> party_ok C X org y \<and>
    (ahead C X org x y \<or> ahead C X org y x)"

lemma peers_sym: "peers x y = peers y x"
  by (auto simp: peers_def)

lemma pair_ok_sym: "pair_ok C X org x y = pair_ok C X org y x"
  by (auto simp: pair_ok_def peers_sym)

definition same_identity :: "session \<Rightarrow> session \<Rightarrow> bool" where
  "same_identity s s' \<longleftrightarrow> ss_local s' = ss_local s \<and> ss_remote s' = ss_remote s"

lemma same_identity_cong:
  assumes "same_identity s s'"
  shows "seals C P org s' m = seals C P org s m" "peers s' z = peers s z" "peers z s' = peers z s"
  using assms by (simp_all add: same_identity_def seals_def peers_def)

lemma recvs_ok_mono: "recvs_ok C org s \<Longrightarrow> org pub = None \<Longrightarrow> recvs_ok C (org(pub \<mapsto> k)) s"
  by (auto simp: recvs_ok_def intro: recv_tracks_mono)

lemma sends_ok_mono: "sends_ok C X org s \<Longrightarrow> org pub = None \<Longrightarrow> sends_ok C X (org(pub \<mapsto> k)) s"
  by (auto simp: sends_ok_def)

lemma chain_of_origin: "recvs_ok C org s \<Longrightarrow> org key = None \<Longrightarrow> chain_of s key = None"
  by (cases "chain_of s key") (auto elim: chain_of_Some)

lemma chain_of_cong: "recvChains s = recvChains s' \<Longrightarrow> chain_of s = chain_of s'"
  unfolding chain_of_def [abs_def] by (simp cong: option.case_cong sum.case_cong)

subsection \<open>Sending\<close>

lemma send_keeps:
  assumes "crypto_laws C" "proto_laws P" "pair_ok C X org x y" "encryptMsg C P x pt = Inr (x', ty, b)"
    "snd_nextMsgIndex (sendChain x) < 2 ^ 32" "curve_laws X"
  shows "pair_ok C X org x' y" "same_identity x x'" "ratchet_pub x' = ratchet_pub x"
    "chain_of x' = chain_of x"
    "seals C P org x \<lparr>msg_from = p, msg_type = ty, msg_bytes = b, msg_plaintext = pt,
      msg_ratchet = ratchet_pub x, msg_counter = snd_nextMsgIndex (sendChain x)\<rparr>"
proof -
  have x: "identity_ok x" "sends_ok C X org x" "recvs_ok C org x"
    using assms(3) by (simp_all add: pair_ok_def party_ok_def)
  then obtain k0 where k0: "org (ratchet_pub x) = Some k0"
      "snd_chainKey (sendChain x) = (sk_next C ^^ snd_nextMsgIndex (sendChain x)) k0"
    by (auto simp: sends_ok_def)
  have pub: "serialized_key (ratchet_pub x)"
    using x(2) serialized_pair_key [OF assms(6)] by (simp add: sends_ok_def ratchet_pub_def)
  then have pub': "serialized_key (pubKey (snd_ratchetKey (sendChain x)))" by (simp add: ratchet_pub_def)
  have prev: "prevSendChainHighestIndex x < 2 ^ 32" using x(2) by (simp add: sends_ok_def)
  obtain parsed where
    x': "x' = x\<lparr>sendChain := (sendChain x)\<lparr>snd_nextMsgIndex := Suc (snd_nextMsgIndex (sendChain x)),
        snd_chainKey := sk_next C (snd_chainKey (sendChain x))\<rparr>\<rparr>"
    and parsed: "parse_envelope P ty b = Inr parsed" "ps_ratchetPubKey parsed = ratchet_pub x"
      "ps_counter parsed = snd_nextMsgIndex (sendChain x)"
      "\<And>r. peerKey (ss_local r) = peerKey (ss_remote x) \<Longrightarrow> peerKey (ss_remote r) = peerKey (ss_local x) \<Longrightarrow>
        open_message C (r :: session)
          (rt_message C (snd_nextMsgIndex (sendChain x)) (snd_chainKey (sendChain x))) parsed = Inr pt"
    using encryptMsg_opens [OF assms(1,2) x(1) pub' assms(5) prev, of pt] assms(4)
    unfolding ratchet_pub_def by (metis Inr_inject Pair_inject)
  show same: "same_identity x x'" "ratchet_pub x' = ratchet_pub x" "chain_of x' = chain_of x"
    by (simp_all add: x' same_identity_def ratchet_pub_def cong: chain_of_cong)
  have "sends_ok C X org x'"
    using x(2) k0 assms(5) unfolding sends_ok_def same(2) by (simp add: x')
  with x(1,3) have "party_ok C X org x'" by (simp add: party_ok_def x' recvs_ok_def identity_ok_def)
  moreover have "ahead C X org x' y = ahead C X org x y" "ahead C X org y x' = ahead C X org y x"
    unfolding ahead_def same by (simp_all add: x')
  ultimately show "pair_ok C X org x' y"
    using assms(3) same_identity_cong(2) [OF same(1)] by (simp add: pair_ok_def)
  show "seals C P org x \<lparr>msg_from = p, msg_type = ty, msg_bytes = b, msg_plaintext = pt,
      msg_ratchet = ratchet_pub x, msg_counter = snd_nextMsgIndex (sendChain x)\<rparr>"
    using parsed k0 pub assms(5) by (simp add: seals_def counter_ok_def ideal_key_def)
qed

subsection \<open>Receiving\<close>

text \<open>What a delivery of \<open>m\<close> from \<open>x\<close> to \<open>y\<close> establishes.\<close>

definition received_by ::
    "crypto \<Rightarrow> curve \<Rightarrow> origins \<Rightarrow> origins \<Rightarrow> session \<Rightarrow> session \<Rightarrow> session \<Rightarrow> message \<Rightarrow> bool" where
  "received_by C X org org' x y y' m \<longleftrightarrow> pair_ok C X org' x y' \<and> same_identity y y' \<and>
    \<not> used_up x y m \<and> used_up x y' m \<and>
    (\<forall>m'. org (msg_ratchet m') \<noteq> None \<longrightarrow> used_up x y m' \<longrightarrow> used_up x y' m') \<and>
    (\<forall>m'. org (msg_ratchet m') \<noteq> None \<longrightarrow> used_up y x m' \<longrightarrow> used_up y' x m')"

lemma receive_known:
  assumes "pair_ok C X org x y" "seals C P org x m" "chain_of y (msg_ratchet m) = Some c"
    "deliver C X P y m g = Inr (y', pt)"
  shows "pt = msg_plaintext m" "ratchet_pub y' = ratchet_pub y" "received_by C X org org x y y' m"
proof -
  let ?key = "msg_ratchet m"
  have y: "recvs_ok C org y" "peers x y" "sends_ok C X org y" "identity_ok y"
    using assms(1) by (simp_all add: pair_ok_def party_ok_def)
  obtain j where j: "find_recv_chain (recvChains y) ?key = Some j"
    "deliver C X P y m g = rbind (selectMessageKey C c (msg_counter m)) (\<lambda>(mk, c').
        Inr (y\<lparr>recvChains := (recvChains y)[j := encodeSignalRecvChain c']\<rparr>, msg_plaintext m))"
    by (rule deliver_known [OF y(1) assms(2) y(2) assms(3)])
  with assms(4) obtain mk c' where select: "selectMessageKey C c (msg_counter m) = Inr (mk, c')"
    and y': "y' = y\<lparr>recvChains := (recvChains y)[j := encodeSignalRecvChain c']\<rparr>" "pt = msg_plaintext m"
    by (auto simp: rbind_eq_Inr_iff)
  obtain k0 where k0: "org ?key = Some k0" "recv.tracks C k0 c" "rcv_ratchetPubKey c = ?key"
    using chain_of_Some [OF y(1) assms(3)] by metis
  have n: "counter_ok (msg_counter m)" using assms(2) by (auto simp: seals_def)
  note keeps = recv.select_keeps [OF k0(2) select n]
  have pub: "rcv_ratchetPubKey c' = ?key" using selectMessageKey_pub [OF select] k0(3) by simp
  note upd = chain_update [OF y(1) j(1) keeps(2) k0(1) pub, of y']
  have chains: "recvs_ok C org y'" "chain_of y' ?key = Some c'" "k \<noteq> ?key \<Longrightarrow> chain_of y' k = chain_of y k" for k
    using upd by (simp_all add: y'(1))
  show "pt = msg_plaintext m" by (rule y'(2))
  show rp: "ratchet_pub y' = ratchet_pub y" by (simp add: y'(1) ratchet_pub_def)
  have id: "same_identity y y'" by (simp add: y'(1) same_identity_def)
  have none: "chain_of y' k = None \<longleftrightarrow> chain_of y k = None" for k
    using chains(2) chains(3) [of k] assms(3) by (cases "k = ?key") auto
  have "ahead C X org x y' = ahead C X org x y" "ahead C X org y' x = ahead C X org y x"
    unfolding ahead_def rp none by (simp_all add: y'(1))
  moreover have "party_ok C X org y'"
    using y(3,4) chains(1) rp by (simp add: party_ok_def sends_ok_def y'(1) identity_ok_def)
  ultimately have pair: "pair_ok C X org x y'"
    using assms(1) same_identity_cong(3) [OF id] by (simp add: pair_ok_def)
  have fresh: "\<not> recv.spent c (msg_counter m)"
    using recv.spent_fails [OF k0(2)] select by fastforce
  have mono: "used_up x y' m'" if "used_up x y m'" for m'
    using that chains(2) chains(3) [of "msg_ratchet m'"] keeps(4) assms(3)
    by (cases "msg_ratchet m' = ?key") (auto simp: used_up_def)
  have "used_up y' x m' = used_up y x m'" for m' unfolding used_up_def rp ..
  with pair id fresh keeps(3) chains(2) assms(3) mono show "received_by C X org org x y y' m"
    by (simp add: received_by_def used_up_def)
qed

lemma receive_new:
  assumes "crypto_laws C" "curve_laws X" "pair_ok C X org x y" "seals C P org x m"
    "chain_of y (msg_ratchet m) = None" "msg_ratchet m = ratchet_pub x" "generated_pair X g"
    "org (SERIALIZED_PUB_KEY_PREFIX # pubKey g) = None" "deliver C X P y m g = Inr (y', pt)"
  shows "pt = msg_plaintext m" "ratchet_pub y' = SERIALIZED_PUB_KEY_PREFIX # pubKey g"
    "received_by C X org (org(ratchet_pub y' \<mapsto> snd_chainKey (sendChain y'))) x y y' m"
proof -
  let ?new = "SERIALIZED_PUB_KEY_PREFIX # pubKey g"
  have ok: "peers x y" "identity_ok y" "sends_ok C X org x" "sends_ok C X org y" "recvs_ok C org x" "recvs_ok C org y"
    using assms(3) by (simp_all add: pair_ok_def party_ok_def)
  have "ahead C X org x y" using assms(3,5,6) by (auto simp: pair_ok_def ahead_def)
  then obtain k0 kp dh sendRoot sendKey where d: "org (ratchet_pub x) = Some k0"
      "recv.tracks C k0 (fresh_chain (ratchet_pub x) k0)" "pubKey kp = ?new" "serialized_pair X kp"
      "ecdh X (privKey kp) (ratchet_pub x) = Inr dh"
      "hkdfSplit C dh (Some (rootKey x)) WHISPER_RATCHET_INFO = (sendRoot, sendKey)"
      "deliver C X P y m g =
        rbind (selectMessageKey C (fresh_chain (ratchet_pub x) k0) (msg_counter m)) (\<lambda>(mk, c).
          Inr (ratcheted y sendRoot c kp sendKey, msg_plaintext m))"
    by (rule deliver_new [OF assms(1,2) ok(3,4) _ ok(6) assms(4) ok(1) assms(6,7)])
  with assms(9) obtain mk c where select: "selectMessageKey C (fresh_chain (ratchet_pub x) k0) (msg_counter m) = Inr (mk, c)"
    and y': "y' = ratcheted y sendRoot c kp sendKey" and pt: "pt = msg_plaintext m"
    by (auto simp: rbind_eq_Inr_iff)
  have n: "counter_ok (msg_counter m)" using assms(4) by (auto simp: seals_def)
  note keeps = recv.select_keeps [OF d(2) select n]
  have pub: "rcv_ratchetPubKey c = ratchet_pub x" using selectMessageKey_pub [OF select] by (simp add: fresh_chain_def)
  show "pt = msg_plaintext m" by (rule pt)
  show rp: "ratchet_pub y' = ?new" by (simp add: y' ratcheted_def ratchet_pub_def d(3))
  let ?org = "org(ratchet_pub y' \<mapsto> snd_chainKey (sendChain y'))"
  have new: "org (ratchet_pub y') = None" using assms(8) rp by simp
  note push = chain_push [OF ok(6) assms(5) [unfolded assms(6)] keeps(2) d(1) pub, of y' MAX_TRACKED_RECV_CHAINS]
  have chains: "recvs_ok C org y'" "chain_of y' (ratchet_pub x) = Some c"
      "k \<noteq> ratchet_pub x \<Longrightarrow> chain_of y' k = None \<or> chain_of y' k = chain_of y k" for k
    using push by (simp_all add: y' ratcheted_def)
  have id: "same_identity y y'" by (simp add: y' ratcheted_def same_identity_def)
  have "snd_nextMsgIndex (sendChain y) \<le> 2 ^ 32" using ok(4) unfolding sends_ok_def by blast
  then have "snd_nextMsgIndex (sendChain y) - 1 < 2 ^ 32" by simp
  with d(4) have "sends_ok C X ?org y'" by (simp add: sends_ok_def) (simp add: y' ratcheted_def)
  then have "party_ok C X ?org y'"
    using ok(2) recvs_ok_mono [OF chains(1) new] by (simp add: party_ok_def y' ratcheted_def identity_ok_def)
  moreover have "party_ok C X ?org x"
    using assms(3) recvs_ok_mono [OF ok(5) new] sends_ok_mono [OF ok(3) new]
    by (simp add: pair_ok_def party_ok_def)
  moreover have "ahead C X ?org y' x"
    unfolding ahead_def using d(5,6) chain_of_origin [OF ok(5) new] chains(2)
    by (simp add: y' ratcheted_def)
  ultimately have pair: "pair_ok C X ?org x y'"
    using ok(1) same_identity_cong(3) [OF id] by (simp add: pair_ok_def)
  have mono: "used_up x y' m'" if "org (msg_ratchet m') \<noteq> None" "used_up x y m'" for m'
    using that chains(2) chains(3) [of "msg_ratchet m'"] assms(5,6)
    by (cases "msg_ratchet m' = ratchet_pub x") (auto simp: used_up_def split: option.splits)
  have other: "used_up y' x m'" if "org (msg_ratchet m') \<noteq> None" "used_up y x m'" for m'
    using that new by (auto simp: used_up_def split: option.splits)
  show "received_by C X org ?org x y y' m"
    using pair id assms(5,6) chains(2) keeps(3) mono other by (simp add: received_by_def used_up_def)
qed

subsection \<open>The invariant\<close>

definition conversation_ok :: "crypto \<Rightarrow> curve \<Rightarrow> signal_proto \<Rightarrow> conversation \<Rightarrow> bool" where
  "conversation_ok C X P c \<longleftrightarrow> pair_ok C X (origin c) (sess c True) (sess c False) \<and>
    (\<forall>m \<in> set (sent c). seals C P (origin c) (sess c (msg_from m)) m) \<and> received_ok c"

text \<open>The parameters of a conversation satisfy their laws.\<close>

definition parameters_ok :: "crypto \<Rightarrow> curve \<Rightarrow> signal_proto \<Rightarrow> bool" where
  "parameters_ok C X P \<longleftrightarrow> crypto_laws C \<and> curve_laws X \<and> proto_laws P"

lemma conversation_pair: "conversation_ok C X P c \<Longrightarrow> pair_ok C X (origin c) (sess c p) (sess c (\<not> p))"
  by (cases p) (simp_all add: conversation_ok_def pair_ok_sym)

lemma pair_update: "pair_ok C X org s' (f (\<not> p)) \<Longrightarrow> pair_ok C X org ((f(p := s')) True) ((f(p := s')) False)"
  by (cases p) (simp_all add: pair_ok_sym)

lemma send_step_ok:
  assumes "parameters_ok C X P" "conversation_ok C X P c" "encryptMsg C P (sess c p) pt = Inr (s', ty, b)"
    "snd_nextMsgIndex (sendChain (sess c p)) < 2 ^ 32"
  defines "m \<equiv> \<lparr>msg_from = p, msg_type = ty, msg_bytes = b, msg_plaintext = pt,
      msg_ratchet = ratchet_pub (sess c p), msg_counter = snd_nextMsgIndex (sendChain (sess c p))\<rparr>"
  shows "conversation_ok C X P (c\<lparr>sess := (sess c)(p := s'), sent := sent c @ [m]\<rparr>)"
proof -
  have laws: "crypto_laws C" "proto_laws P" "curve_laws X" using assms(1) by (simp_all add: parameters_ok_def)
  note keeps = send_keeps [OF laws(1,2) conversation_pair [OF assms(2)] assms(3,4) laws(3)]
  let ?f = "(sess c)(p := s')"
  have same: "seals C P (origin c) (?f q) m' = seals C P (origin c) (sess c q) m'"
    "ratchet_pub (?f q) = ratchet_pub (sess c q)" "chain_of (?f q) = chain_of (sess c q)" for q m'
    using keeps(2-4) by (simp_all add: same_identity_cong(1) [OF keeps(2)])
  have "used_up (?f q) (?f q') m' = used_up (sess c q) (sess c q') m'" for q q' m'
    unfolding used_up_def same ..
  then have "received_ok (c\<lparr>sess := ?f, sent := sent c @ [m]\<rparr>)"
    using assms(2) unfolding conversation_ok_def received_ok_def by (auto simp: nth_append)
  moreover have "seals C P (origin c) (sess c p) m" unfolding m_def by (rule keeps(5))
  ultimately show ?thesis
    using assms(2) pair_update [where f = "sess c" and p = p, OF keeps(1)] same(1)
    by (auto simp: conversation_ok_def m_def simp del: fun_upd_apply)
qed

text \<open>A message that is not deliverable is refused: the code takes a ratchet step and the MAC does not match.\<close>

lemma stale_refused:
  assumes "recvs_ok C org (sess c (\<not> msg_from m))" "seals C P org' x m"
    "\<not> deliverable c m" "\<not> stale_mac_verifies C X P c m g"
  shows "\<exists>e. deliver C X P (sess c (\<not> msg_from m)) m g = Inl e"
proof -
  let ?y = "sess c (\<not> msg_from m)"
  obtain parsed where parsed: "parse_envelope P (msg_type m) (msg_bytes m) = Inr parsed"
    "ps_ratchetPubKey parsed = msg_ratchet m" "ps_counter parsed = msg_counter m" "serialized_key (msg_ratchet m)"
    using assms(2) by (auto simp: seals_def)
  have "chain_of ?y (msg_ratchet m) = None" using assms(3) by (auto simp: deliverable_def)
  then have none: "find_recv_chain (recvChains ?y) (msg_ratchet m) = None"
    using chain_of_None [OF assms(1)] find_recv_None by blast
  have refused: "open_message C ?y mk parsed = Inl InvalidMessageMac"
    if "ratchet_step C X ?y (msg_ratchet m) (msg_counter m) g = Inr (mk, y')" for mk y'
    using assms(3,4) parsed(1) that
    by (auto simp: stale_mac_verifies_def open_message_def hmacSha256Sign_def uint8TimingSafeEqual_iff subarray_def Let_def)
  show ?thesis
  proof (cases "ratchet_step C X ?y (msg_ratchet m) (msg_counter m) g")
    case (Inr r)
    obtain mk y' where "r = (mk, y')" by fastforce
    with Inr refused parsed none show ?thesis
      by (simp add: deliver_def decryptMsgFromSession_def key_result_def toSerializedPubKey_serialized)
  qed (use parsed none in \<open>simp add: deliver_def decryptMsgFromSession_def key_result_def toSerializedPubKey_serialized\<close>)
qed

lemma arrive_step_ok:
  assumes "parameters_ok C X P" "conversation_ok C X P c" "i < length (sent c)" "sent c ! i = m"
    "\<not> stale_mac_verifies C X P c m g" "generated_pair X g" "origin c (SERIALIZED_PUB_KEY_PREFIX # pubKey g) = None"
    "deliver C X P (sess c (\<not> msg_from m)) m g = Inr (s', pt)"
  defines "org' \<equiv> (if ratchet_pub s' = ratchet_pub (sess c (\<not> msg_from m)) then origin c
      else (origin c)(ratchet_pub s' \<mapsto> snd_chainKey (sendChain s')))"
  shows "pt = msg_plaintext m" "i \<notin> fst ` set (received c)"
    "conversation_ok C X P (c\<lparr>sess := (sess c)(\<not> msg_from m := s'), received := received c @ [(i, pt)],
      origin := org'\<rparr>)"
proof -
  let ?x = "sess c (msg_from m)" and ?y = "sess c (\<not> msg_from m)"
  have laws: "crypto_laws C" "curve_laws X" using assms(1) by (simp_all add: parameters_ok_def)
  have pair: "pair_ok C X (origin c) ?x ?y" by (rule conversation_pair [OF assms(2)])
  have sealed: "\<forall>m' \<in> set (sent c). seals C P (origin c) (sess c (msg_from m')) m'"
    using assms(2) by (simp add: conversation_ok_def)
  with assms(3,4) have m: "seals C P (origin c) ?x m" by auto
  have res: "pt = msg_plaintext m \<and> received_by C X (origin c) org' ?x ?y s' m \<and>
      (\<forall>z m'. seals C P (origin c) z m' \<longrightarrow> seals C P org' z m')"
  proof (cases "chain_of ?y (msg_ratchet m)")
    case (Some ch)
    from receive_known [OF pair m Some assms(8)] show ?thesis by (simp add: org'_def)
  next
    case None
    have "recvs_ok C (origin c) ?y" using pair by (simp add: pair_ok_def party_ok_def)
    then have "deliverable c m" using stale_refused [OF _ m _ assms(5)] assms(8) by fastforce
    with None have "msg_ratchet m = ratchet_pub ?x" by (simp add: deliverable_def)
    note new = receive_new [OF laws pair m None this assms(6-8)]
    have "ratchet_pub s' \<noteq> ratchet_pub ?y"
      using pair assms(7) new(2) by (auto simp: pair_ok_def party_ok_def sends_ok_def)
    with new assms(7) show ?thesis by (simp add: org'_def seals_mono)
  qed
  then show pt: "pt = msg_plaintext m" by simp
  have rec: "received_by C X (origin c) org' ?x ?y s' m"
    and mono: "\<And>z m'. seals C P (origin c) z m' \<Longrightarrow> seals C P org' z m'" using res by simp_all
  have old: "i' < length (sent c) \<and> pt' = msg_plaintext (sent c ! i') \<and>
      used_up (sess c (msg_from (sent c ! i'))) (sess c (\<not> msg_from (sent c ! i'))) (sent c ! i')"
    if "(i', pt') \<in> set (received c)" for i' pt'
    using that assms(2) by (auto simp: conversation_ok_def received_ok_def)
  show fresh: "i \<notin> fst ` set (received c)"
    using old assms(4) rec by (fastforce simp: received_by_def)
  let ?f = "(sess c)(\<not> msg_from m := s')"
  have kept: "used_up (?f (msg_from m')) (?f (\<not> msg_from m')) m'"
    if "m' \<in> set (sent c)" "used_up (sess c (msg_from m')) (sess c (\<not> msg_from m')) m'" for m'
  proof -
    have "origin c (msg_ratchet m') \<noteq> None" using sealed that(1) by (auto simp: seals_def)
    then show ?thesis
      using rec that(2) by (cases "msg_from m'"; cases "msg_from m") (auto simp: received_by_def)
  qed
  have used: "used_up (?f (msg_from m)) (?f (\<not> msg_from m)) m"
    using rec by (cases "msg_from m") (simp_all add: received_by_def)
  have "received_ok (c\<lparr>sess := ?f, received := received c @ [(i, pt)], origin := org'\<rparr>)"
    using assms(2-4) fresh used kept old pt
    by (auto simp: received_ok_def conversation_ok_def simp del: fun_upd_apply)
  moreover have "seals C P org' (?f (msg_from m')) m'" if "m' \<in> set (sent c)" for m'
    using sealed that mono rec same_identity_cong(1) [of ?y s'] by (auto simp: received_by_def)
  moreover have "pair_ok C X org' (?f True) (?f False)"
    using rec pair_update [of C X org' s' "sess c" "\<not> msg_from m"] by (simp add: received_by_def pair_ok_sym)
  ultimately show "conversation_ok C X P (c\<lparr>sess := ?f, received := received c @ [(i, pt)], origin := org'\<rparr>)"
    by (simp add: conversation_ok_def del: fun_upd_apply)
qed

lemma conversation_step_ok:
  assumes "conversation_step C X P c c'" "parameters_ok C X P" "conversation_ok C X P c"
  shows "conversation_ok C X P c'"
  using assms(1)
proof cases
  case (send p pt s' ty b)
  with send_step_ok [OF assms(2,3) send(2,3)] show ?thesis by simp
next
  case (arrive i m g s' pt)
  with arrive_step_ok(3) [OF assms(2,3) arrive(2-7)] show ?thesis by simp
qed (use assms(3) in simp)

lemma conversation_reach_ok:
  "conversation_reach C X P c0 c \<Longrightarrow> parameters_ok C X P \<Longrightarrow> conversation_ok C X P c0 \<Longrightarrow> conversation_ok C X P c"
  by (induction rule: conversation_reach.induct) (auto intro: conversation_step_ok)

end
