(* ===== verification/SessionProperties.thy ===== *)
theory SessionProperties
  imports Conversations
begin

text \<open>
  The properties of the double ratchet sessions: the two sides of a session set-up are in step, and
  in every conversation from there on messages are read at most once, as they were written, and are
  readable as long as their keys are within the limits.
\<close>

subsection \<open>Session set-up\<close>

record handshake =
  hs_alice :: local_identity
  hs_bob :: local_identity
  hs_signed :: "nat \<times> key_pair"
  hs_oneTime :: "(nat \<times> key_pair) option"
  hs_base :: key_pair
  hs_generated :: key_pair

text \<open>The bundle the server hands out for Bob, and the keys Bob uses when the first message arrives.\<close>

definition hs_bundle :: "handshake \<Rightarrow> pre_key_bundle" where
  "hs_bundle h = \<lparr>pb_regId = li_regId (hs_bob h), pb_identity = pubKey (staticKeyPair (hs_bob h)),
     pb_signedKey = \<lparr>kr_id = fst (hs_signed h), kr_publicKey = pubKey (snd (hs_signed h))\<rparr>,
     pb_oneTimeKey = map_option (\<lambda>(i, k). \<lparr>kr_id = i, kr_publicKey = pubKey k\<rparr>) (hs_oneTime h),
     pb_ratchetKey = None\<rparr>"

definition hs_keys :: "handshake \<Rightarrow> incoming_keys" where
  "hs_keys h = \<lparr>ik_signed = snd (hs_signed h), ik_oneTime = map_option snd (hs_oneTime h),
     ik_ratchet = snd (hs_signed h)\<rparr>"

definition handshake_ok :: "curve \<Rightarrow> handshake \<Rightarrow> bool" where
  "handshake_ok X h \<longleftrightarrow> serialized_pair X (staticKeyPair (hs_alice h)) \<and>
    serialized_pair X (staticKeyPair (hs_bob h)) \<and> serialized_pair X (snd (hs_signed h)) \<and>
    (case hs_oneTime h of Some (i, k) \<Rightarrow> serialized_pair X k \<and> i < 2 ^ 32 | None \<Rightarrow> True) \<and>
    serialized_pair X (hs_base h) \<and> generated_pair X (hs_generated h) \<and>
    li_regId (hs_alice h) < 2 ^ 32 \<and> li_regId (hs_bob h) < 2 ^ 32 \<and> fst (hs_signed h) < 2 ^ 32 \<and>
    SERIALIZED_PUB_KEY_PREFIX # pubKey (hs_generated h) \<noteq> pubKey (snd (hs_signed h))"

definition start_conversation :: "session \<Rightarrow> session \<Rightarrow> conversation" where
  "start_conversation a b = \<lparr>sess = (\<lambda>p. if p then a else b), sent = [], received = [],
     origin = [ratchet_pub a \<mapsto> snd_chainKey (sendChain a), ratchet_pub b \<mapsto> snd_chainKey (sendChain b)]\<rparr>"

text \<open>The two sessions, from the results of the key agreement.\<close>

definition alice_start :: "handshake \<Rightarrow> key_pair \<Rightarrow> bytes \<Rightarrow> bytes \<Rightarrow> bytes \<Rightarrow> session" where
  "alice_start h gen sendRoot sendKey chain = \<lparr>ss_local = \<lparr>regId = li_regId (hs_alice h), peerKey = pubKey (staticKeyPair (hs_alice h))\<rparr>,
       ss_remote = \<lparr>regId = li_regId (hs_bob h), peerKey = pubKey (staticKeyPair (hs_bob h))\<rparr>,
       rootKey = sendRoot,
       sendChain = \<lparr>snd_ratchetKey = gen, snd_nextMsgIndex = 0, snd_chainKey = sendKey\<rparr>,
       recvChains = [\<lparr>rc_senderRatchetKey = Some (pubKey (snd (hs_signed h))),
         rc_senderRatchetKeyPrivate = None,
         rc_chainKey = Some \<lparr>rk_index = Some 0, rk_key = Some chain\<rparr>, rc_messageKeys = Some []\<rparr>],
       initialExchangeInfo = Some \<lparr>remoteOneTimeId = map_option fst (hs_oneTime h),
         remoteSignedId = fst (hs_signed h), localOneTimePubKey = pubKey (hs_base h)\<rparr>,
       prevSendChainHighestIndex = 0, aliceBaseKey = Some (pubKey (hs_base h)), prevSessions = []\<rparr>"

definition bob_start :: "handshake \<Rightarrow> bytes \<Rightarrow> bytes \<Rightarrow> session" where
  "bob_start h root chain = \<lparr>ss_local = \<lparr>regId = li_regId (hs_bob h), peerKey = pubKey (staticKeyPair (hs_bob h))\<rparr>,
       ss_remote = \<lparr>regId = li_regId (hs_alice h), peerKey = pubKey (staticKeyPair (hs_alice h))\<rparr>,
       rootKey = root,
       sendChain = \<lparr>snd_ratchetKey = snd (hs_signed h), snd_nextMsgIndex = 0, snd_chainKey = chain\<rparr>,
       recvChains = [], initialExchangeInfo = None, prevSendChainHighestIndex = 0,
       aliceBaseKey = Some (pubKey (hs_base h)), prevSessions = []\<rparr>"

lemma optional_dh_agrees:
  assumes "curve_laws X" "serialized_pair X base"
    "case one of Some (i, k) \<Rightarrow> serialized_pair X k \<and> i < (2 :: nat) ^ 32 | None \<Rightarrow> True"
  obtains s where "optional_ecdh X (privKey base) (map_option (pubKey \<circ> snd) one) = Inr s"
    "(case map_option snd one of None \<Rightarrow> Inr None
      | Some k \<Rightarrow> rbind (ecdh X (privKey k) (pubKey base)) (\<lambda>s. Inr (Some s))) = Inr s"
proof (cases one)
  case (Some ik)
  obtain i k where ik: "ik = (i, k)" by (cases ik)
  with Some assms(3) have "serialized_pair X k" by simp
  then obtain s where "ecdh X (privKey base) (pubKey k) = Inr s" "ecdh X (privKey k) (pubKey base) = Inr s"
    by (rule ecdh_agrees [OF assms(1,2)])
  with Some ik show thesis by (intro that [of "Some s"]) (simp_all add: optional_ecdh_def)
qed (simp add: that optional_ecdh_def)

text \<open>The first receiving chain of the side that starts, and the sending chain of the other side.\<close>

lemma first_chain_ok:
  assumes "crypto_laws C" "curve_laws X" "serialized_pair X kp" "length k = 32" "org (pubKey kp) = Some k"
  shows "recv_tracks C org \<lparr>rc_senderRatchetKey = Some (pubKey kp), rc_senderRatchetKeyPrivate = None,
    rc_chainKey = Some \<lparr>rk_index = Some 0, rk_key = Some k\<rparr>, rc_messageKeys = Some []\<rparr>"
proof -
  have "length (pubKey kp) = 33"
    using serialized_pair_key [OF assms(2,3)] by (simp add: serialized_key_def)
  with fresh_chain_tracks [OF assms(1) this assms(4)] assms(4,5) show ?thesis
    by (intro recv_tracks_def [THEN iffD2] exI [of _ "fresh_chain (pubKey kp) k"] exI [of _ k])
      (simp add: decodeSignalRecvChain_def fresh_chain_def)
qed

lemma handshake_sessions:
  assumes "crypto_laws C" "curve_laws X" "handshake_ok X h"
  defines "gen \<equiv> \<lparr>pubKey = SERIALIZED_PUB_KEY_PREFIX # pubKey (hs_generated h), privKey = privKey (hs_generated h)\<rparr>"
  obtains root chain sendRoot sendKey dh where
    "length chain = 32" "length sendKey = 32" "serialized_pair X gen"
    "ecdh X (privKey gen) (pubKey (snd (hs_signed h))) = Inr dh"
    "hkdfSplit C dh (Some root) WHISPER_RATCHET_INFO = (sendRoot, sendKey)"
    "initiateSessionOutgoing C X (hs_alice h) (hs_bundle h) (hs_base h) (hs_generated h) = Inr
      (alice_start h gen sendRoot sendKey chain)"
    "initiateSessionIncoming C X (hs_bob h)
      \<lparr>regId = li_regId (hs_alice h), peerKey = pubKey (staticKeyPair (hs_alice h))\<rparr>
      (pubKey (hs_base h)) (hs_keys h) = Inr
      (bob_start h root chain)"
proof -
  let ?a = "staticKeyPair (hs_alice h)" and ?b = "staticKeyPair (hs_bob h)"
  let ?s = "snd (hs_signed h)" and ?e = "hs_base h"
  have pairs: "serialized_pair X ?a" "serialized_pair X ?b" "serialized_pair X ?s" "serialized_pair X ?e"
    "generated_pair X (hs_generated h)"
    "case hs_oneTime h of Some (i, k) \<Rightarrow> serialized_pair X k \<and> i < 2 ^ 32 | None \<Rightarrow> True"
    using assms(3) by (simp_all add: handshake_ok_def)
  note key = toSerializedPubKey_serialized [OF serialized_pair_key [OF assms(2)]]
  obtain d1 where d1: "ecdh X (privKey ?a) (pubKey ?s) = Inr d1" "ecdh X (privKey ?s) (pubKey ?a) = Inr d1"
    by (rule ecdh_agrees [OF assms(2) pairs(1,3)])
  obtain d2 where d2: "ecdh X (privKey ?e) (pubKey ?b) = Inr d2" "ecdh X (privKey ?b) (pubKey ?e) = Inr d2"
    by (rule ecdh_agrees [OF assms(2) pairs(4,2)])
  obtain d3 where d3: "ecdh X (privKey ?e) (pubKey ?s) = Inr d3" "ecdh X (privKey ?s) (pubKey ?e) = Inr d3"
    by (rule ecdh_agrees [OF assms(2) pairs(4,3)])
  obtain d4 where d4: "optional_ecdh X (privKey ?e) (map_option (pubKey \<circ> snd) (hs_oneTime h)) = Inr d4"
    "(case map_option snd (hs_oneTime h) of None \<Rightarrow> Inr None
      | Some k \<Rightarrow> rbind (ecdh X (privKey k) (pubKey ?e)) (\<lambda>s. Inr (Some s))) = Inr d4"
    by (rule optional_dh_agrees [OF assms(2) pairs(4,6)])
  have one: "(case pb_oneTimeKey (hs_bundle h) of None \<Rightarrow> Inr None
      | Some k \<Rightarrow> rbind (key_result (toSerializedPubKey (kr_publicKey k))) (\<lambda>p. Inr (Some p))) =
      Inr (map_option (pubKey \<circ> snd) (hs_oneTime h))"
    using pairs(6) key by (auto simp: hs_bundle_def key_result_def split: option.splits)
  have gen: "toSerializedKeyPair (hs_generated h) = Inr gen" "serialized_pair X gen"
    using toSerializedKeyPair_generated [OF assms(2) pairs(5)] pairs(5)
    by (simp_all add: gen_def generated_pair_def)
  obtain dh where dh: "ecdh X (privKey gen) (pubKey ?s) = Inr dh"
    by (rule ecdh_agrees [OF assms(2) gen(2) pairs(3)])
  define secret where "secret = concatBytes ([SIGNAL_PREFIX, d1, d2, d3] @ shared_parts d4)"
  obtain root chain where rc: "hkdfSplit C secret None WHISPER_TEXT_INFO = (root, chain)" by fastforce
  obtain sendRoot sendKey where sr: "hkdfSplit C dh (Some root) WHISPER_RATCHET_INFO = (sendRoot, sendKey)"
    by fastforce
  have len: "length chain = 32" "length sendKey = 32"
    using length_hkdfSplit(2) [OF assms(1)] rc sr by (metis snd_conv)+
  note steps = key [OF pairs(1)] key [OF pairs(2)] key [OF pairs(3)] key [OF pairs(4)] key_result_def
  show thesis
  proof (rule that [OF len gen(2) dh sr])
    show "initiateSessionOutgoing C X (hs_alice h) (hs_bundle h) (hs_base h) (hs_generated h) = Inr
      (alice_start h gen sendRoot sendKey chain)"
      unfolding initiateSessionOutgoing_def one
      by (simp add: alice_start_def hs_bundle_def steps d1 d2 d3 d4(1) [unfolded comp_def] secret_def [symmetric, simplified] rc gen(1) sr dh
          calculateRatchet_def option.map_comp comp_def split_beta)
    show "initiateSessionIncoming C X (hs_bob h) \<lparr>regId = li_regId (hs_alice h), peerKey = pubKey ?a\<rparr>
      (pubKey ?e) (hs_keys h) = Inr
      (bob_start h root chain)"
      by (simp add: bob_start_def initiateSessionIncoming_def hs_keys_def steps d1 d2 d3 d4(2) [simplified]
          secret_def [symmetric, simplified] rc)
  qed
qed

lemma handshake_conversation:
  assumes "parameters_ok C X P" "handshake_ok X h"
  shows "\<exists>a b. initiateSessionOutgoing C X (hs_alice h) (hs_bundle h) (hs_base h) (hs_generated h) = Inr a \<and>
    initiateSessionIncoming C X (hs_bob h)
      \<lparr>regId = li_regId (hs_alice h), peerKey = pubKey (staticKeyPair (hs_alice h))\<rparr>
      (pubKey (hs_base h)) (hs_keys h) = Inr b \<and>
    conversation_ok C X P (start_conversation a b) \<and>
    snd_nextMsgIndex (sendChain a) = 0 \<and> recvChains b = []"
proof -
  have laws: "crypto_laws C" "curve_laws X" using assms(1) by (simp_all add: parameters_ok_def)
  let ?s = "snd (hs_signed h)"
  define gen where "gen = \<lparr>pubKey = SERIALIZED_PUB_KEY_PREFIX # pubKey (hs_generated h),
    privKey = privKey (hs_generated h)\<rparr>"
  obtain root chain sendRoot sendKey dh where d: "length chain = 32" "length sendKey = 32" "serialized_pair X gen"
      "ecdh X (privKey gen) (pubKey ?s) = Inr dh"
      "hkdfSplit C dh (Some root) WHISPER_RATCHET_INFO = (sendRoot, sendKey)"
    and init: "initiateSessionOutgoing C X (hs_alice h) (hs_bundle h) (hs_base h) (hs_generated h) =
        Inr (alice_start h gen sendRoot sendKey chain)"
      "initiateSessionIncoming C X (hs_bob h)
        \<lparr>regId = li_regId (hs_alice h), peerKey = pubKey (staticKeyPair (hs_alice h))\<rparr>
        (pubKey (hs_base h)) (hs_keys h) = Inr (bob_start h root chain)"
    unfolding gen_def by (rule handshake_sessions [OF laws assms(2)])
  let ?a = "alice_start h gen sendRoot sendKey chain" and ?b = "bob_start h root chain"
  let ?org = "[ratchet_pub ?a \<mapsto> sendKey, ratchet_pub ?b \<mapsto> chain]"
  have ok: "serialized_pair X ?s" "pubKey gen \<noteq> pubKey ?s"
    using assms(2) by (simp_all add: handshake_ok_def gen_def)
  have pubs: "ratchet_pub ?a = pubKey gen" "ratchet_pub ?b = pubKey ?s"
    by (simp_all add: ratchet_pub_def alice_start_def bob_start_def)
  have ident: "identity_ok ?a" "identity_ok ?b"
    using assms(2) serialized_pair_key [OF laws(2)]
    by (auto simp: handshake_ok_def identity_ok_def alice_start_def bob_start_def u32_field_def split: option.splits)
  have sends: "sends_ok C X ?org ?a" "sends_ok C X ?org ?b"
    unfolding sends_ok_def pubs using d(3) ok by (simp_all add: alice_start_def bob_start_def)
  have chain: "recv_tracks C ?org (hd (recvChains ?a))"
    using first_chain_ok [OF laws ok(1) d(1), of ?org] by (simp add: pubs alice_start_def)
  then have recvs: "recvs_ok C ?org ?a" "recvs_ok C ?org ?b"
    by (simp_all add: recvs_ok_def alice_start_def bob_start_def)
  have "ahead C X ?org ?a ?b"
    unfolding ahead_def chain_of_None [OF recvs(1)] chain_of_None [OF recvs(2)] using d(4,5) ok(2)
    by (simp add: pubs) (simp add: alice_start_def bob_start_def)
  with ident sends recvs have "pair_ok C X ?org ?a ?b"
    by (simp add: pair_ok_def party_ok_def) (simp add: peers_def alice_start_def bob_start_def)
  moreover have "snd_chainKey (sendChain ?a) = sendKey" "snd_chainKey (sendChain ?b) = chain"
    by (simp_all add: alice_start_def bob_start_def)
  ultimately have "conversation_ok C X P (start_conversation ?a ?b)"
    by (simp add: conversation_ok_def start_conversation_def received_ok_def)
  moreover have "snd_nextMsgIndex (sendChain ?a) = 0" "recvChains ?b = []"
    by (simp_all add: alice_start_def bob_start_def)
  ultimately show ?thesis using init by blast
qed

definition sample_pair :: "byte \<Rightarrow> key_pair" where
  "sample_pair b = \<lparr>pubKey = SERIALIZED_PUB_KEY_PREFIX # replicate 32 b, privKey = replicate 32 b\<rparr>"

definition sample_generated :: "byte \<Rightarrow> key_pair" where
  "sample_generated b = \<lparr>pubKey = replicate 32 b, privKey = replicate 32 b\<rparr>"

definition sample_handshake :: handshake where
  "sample_handshake = \<lparr>hs_alice = \<lparr>li_regId = 1, staticKeyPair = sample_pair 1\<rparr>,
     hs_bob = \<lparr>li_regId = 2, staticKeyPair = sample_pair 2\<rparr>, hs_signed = (3, sample_pair 3),
     hs_oneTime = Some (4, sample_pair 4), hs_base = sample_pair 5, hs_generated = sample_generated 6\<rparr>"

lemma sample_parameters: "parameters_ok sample_crypto sample_curve sample_proto"
  by (simp add: parameters_ok_def sample_crypto_laws sample_curve_laws sample_proto_laws)

lemma sample_generated_pair: "generated_pair sample_curve (sample_generated b)"
  by (simp add: generated_pair_def sample_generated_def sample_curve_def)

lemma replicate_32_eq: "replicate 32 x = replicate 32 y \<longleftrightarrow> x = y"
  by simp

lemma sample_handshake_ok: "handshake_ok sample_curve sample_handshake"
  by (simp add: handshake_ok_def sample_handshake_def serialized_pair_def sample_pair_def
      sample_generated_pair) (simp add: sample_generated_def sample_curve_def)

subsection \<open>Readable messages\<close>

definition can_open :: "conversation \<Rightarrow> message \<Rightarrow> bool" where
  "can_open c m \<longleftrightarrow>
    (case chain_of (sess c (\<not> msg_from m)) (msg_ratchet m) of
       Some ch \<Rightarrow> msg_counter m \<le> rcv_nextMsgIndex ch + FUTURE_MESSAGES_MAX \<and>
         (rcv_nextMsgIndex ch \<le> msg_counter m \<or> msg_counter m \<in> mk_index ` set (rt_unused ch))
     | None \<Rightarrow> msg_ratchet m = ratchet_pub (sess c (msg_from m)) \<and> msg_counter m \<le> FUTURE_MESSAGES_MAX)"

lemma select_succeeds:
  assumes "recv.tracks C k0 ch" "counter_ok n" "n \<le> rcv_nextMsgIndex ch + FUTURE_MESSAGES_MAX"
    "rcv_nextMsgIndex ch \<le> n \<or> n \<in> mk_index ` set (rt_unused ch)"
  obtains mk ch' where "selectMessageKey C ch n = Inr (mk, ch')"
  using assms(1,2)
proof (cases rule: recv.select_cases [where t = n])
  case (stale e)
  with assms(4) show thesis by (auto simp: recv.spent_def)
qed (use assms(3) that in auto)

lemma can_open_delivers:
  assumes "parameters_ok C X P" "conversation_ok C X P c" "i < length (sent c)" "sent c ! i = m"
    "can_open c m" "generated_pair X g"
  shows "\<exists>s'. deliver C X P (sess c (\<not> msg_from m)) m g = Inr (s', msg_plaintext m)"
proof -
  let ?x = "sess c (msg_from m)" and ?y = "sess c (\<not> msg_from m)"
  have laws: "crypto_laws C" "curve_laws X" using assms(1) by (simp_all add: parameters_ok_def)
  have pair: "pair_ok C X (origin c) ?x ?y" by (rule conversation_pair [OF assms(2)])
  then have ok: "peers ?x ?y" "sends_ok C X (origin c) ?x" "sends_ok C X (origin c) ?y" "recvs_ok C (origin c) ?y"
    by (simp_all add: pair_ok_def party_ok_def)
  have m: "seals C P (origin c) ?x m" using assms(2-4) by (auto simp: conversation_ok_def)
  then have n: "counter_ok (msg_counter m)" by (auto simp: seals_def)
  show ?thesis
  proof (cases "chain_of ?y (msg_ratchet m)")
    case (Some ch)
    obtain k0 where "recv.tracks C k0 ch" by (rule chain_of_Some [OF ok(4) Some])
    then obtain mk ch' where "selectMessageKey C ch (msg_counter m) = Inr (mk, ch')"
      using assms(5) Some by (auto simp: can_open_def intro: select_succeeds [OF _ n])
    moreover obtain j where "deliver C X P ?y m g = rbind (selectMessageKey C ch (msg_counter m)) (\<lambda>(mk, c').
        Inr (?y\<lparr>recvChains := (recvChains ?y)[j := encodeSignalRecvChain c']\<rparr>, msg_plaintext m))"
      by (rule deliver_known [OF ok(4) m ok(1) Some])
    ultimately show ?thesis by simp
  next
    case None
    with assms(5) have cur: "msg_ratchet m = ratchet_pub ?x" "msg_counter m \<le> FUTURE_MESSAGES_MAX"
      by (simp_all add: can_open_def)
    with None pair have "ahead C X (origin c) ?x ?y" by (auto simp: pair_ok_def ahead_def)
    then obtain k0 kp sendRoot sendKey where "recv.tracks C k0 (fresh_chain (ratchet_pub ?x) k0)"
      and d: "deliver C X P ?y m g =
        rbind (selectMessageKey C (fresh_chain (ratchet_pub ?x) k0) (msg_counter m)) (\<lambda>(mk, c).
          Inr (ratcheted ?y sendRoot c kp sendKey, msg_plaintext m))"
      by (rule deliver_new [OF laws ok(2,3) _ ok(4) m ok(1) cur(1) assms(6)])
    from select_succeeds [OF this(1) n] cur(2)
    obtain mk ch' where "selectMessageKey C (fresh_chain (ratchet_pub ?x) k0) (msg_counter m) = Inr (mk, ch')"
      by (auto simp: fresh_chain_def)
    with d show ?thesis by simp
  qed
qed

text \<open>A first message from a session set-up, sent and not yet delivered.\<close>

lemma first_message:
  assumes "parameters_ok C X P" "conversation_ok C X P (start_conversation a b)"
    "snd_nextMsgIndex (sendChain a) = 0" "recvChains b = []"
  obtains c m where "conversation_step C X P (start_conversation a b) c" "sent c = [m]" "msg_plaintext m = pt"
    "received c = []" "can_open c m" "origin c = origin (start_conversation a b)" "msg_from m"
proof -
  let ?c0 = "start_conversation a b"
  have laws: "crypto_laws C" "proto_laws P" "curve_laws X" using assms(1) by (simp_all add: parameters_ok_def)
  have sess: "sess ?c0 True = a" "sess ?c0 False = b" "sent ?c0 = []" "received ?c0 = []"
    by (simp_all add: start_conversation_def)
  have pair: "pair_ok C X (origin ?c0) a b" using conversation_pair [OF assms(2), of True] sess by simp
  then have a: "identity_ok a" "serialized_pair X (snd_ratchetKey (sendChain a))" "prevSendChainHighestIndex a < 2 ^ 32"
    by (simp_all add: pair_ok_def party_ok_def sends_ok_def)
  obtain a' ty w where enc: "encryptMsg C P a pt = Inr (a', ty, w)"
    by (rule encryptMsg_opens [OF laws(1,2) a(1) serialized_pair_key [OF laws(3) a(2)] _ a(3), of pt])
      (use assms(3) in auto)
  define m where "m = \<lparr>msg_from = True, msg_type = ty, msg_bytes = w, msg_plaintext = pt,
    msg_ratchet = ratchet_pub a, msg_counter = 0\<rparr>"
  define c where "c = ?c0\<lparr>sess := (sess ?c0)(True := a'), sent := [m]\<rparr>"
  have step: "conversation_step C X P ?c0 c"
    using conversation_step.send [of C P ?c0 True pt a' ty w X] enc sess assms(3)
    by (simp add: c_def m_def)
  have "ratchet_pub a' = ratchet_pub a"
    using send_keeps(3) [OF laws(1,2) pair enc _ laws(3)] assms(3) by simp
  moreover have "chain_of b k = None" for k
    using assms(4) by (simp add: chain_of_def find_recv_chain_def)
  ultimately have "can_open c m"
    using sess by (simp add: can_open_def c_def m_def)
  then show thesis
    by (intro that [OF step, of m]) (simp_all add: c_def m_def sess)
qed

lemma fresh_sample: "\<exists>g. generated_pair sample_curve g \<and>
    [a \<mapsto> x, b \<mapsto> y] (SERIALIZED_PUB_KEY_PREFIX # pubKey g) = None"
proof -
  let ?k = "\<lambda>v :: byte. SERIALIZED_PUB_KEY_PREFIX # replicate 32 v"
  have "?k 0 \<noteq> ?k 1" "?k 0 \<noteq> ?k 2" "?k 1 \<noteq> ?k 2" by simp_all
  then have "\<exists>v. ?k v \<noteq> a \<and> ?k v \<noteq> b" by metis
  then obtain v where "?k v \<noteq> a \<and> ?k v \<noteq> b" ..
  then show ?thesis
    by (intro exI [of _ "sample_generated v"]) (simp add: sample_generated_pair, simp add: sample_generated_def)
qed

lemma sample_conversation:
  obtains c0 c m g where "conversation_ok sample_crypto sample_curve sample_proto c0"
    "conversation_reach sample_crypto sample_curve sample_proto c0 c" "sent c = [m]" "msg_plaintext m = pt"
    "received c = []" "can_open c m" "generated_pair sample_curve g"
    "origin c (SERIALIZED_PUB_KEY_PREFIX # pubKey g) = None" "msg_from m"
proof -
  obtain a b where ab: "conversation_ok sample_crypto sample_curve sample_proto (start_conversation a b)"
      "snd_nextMsgIndex (sendChain a) = 0" "recvChains b = []"
    using handshake_conversation [OF sample_parameters sample_handshake_ok] by blast
  obtain c m where c: "conversation_step sample_crypto sample_curve sample_proto (start_conversation a b) c"
      "sent c = [m]" "msg_plaintext m = pt" "received c = []" "can_open c m"
      "origin c = origin (start_conversation a b)" "msg_from m"
    by (rule first_message [OF sample_parameters ab])
  obtain g where g: "generated_pair sample_curve g"
      "origin (start_conversation a b) (SERIALIZED_PUB_KEY_PREFIX # pubKey g) = None"
    using fresh_sample [of "ratchet_pub a" "snd_chainKey (sendChain a)" "ratchet_pub b" "snd_chainKey (sendChain b)"]
    unfolding start_conversation_def conversation.select_convs by blast
  with c ab(1) conversation_reach.step [OF conversation_reach.start c(1)] show thesis
    by (intro that [of "start_conversation a b" c m g]) simp_all
qed

subsection \<open>Properties\<close>

text \<open>
  C3: The two sides of a session set-up are in step: from the pre-key bundle the initiator and from
  the first message the responder derive sessions that fit together (same identities, each side
  able to follow the other side's ratchet), with or without a one-time pre-key.
\<close>

theorem session_setup_in_step:
  assumes "parameters_ok C X P" "handshake_ok X h"
  shows "\<exists>a b. initiateSessionOutgoing C X (hs_alice h) (hs_bundle h) (hs_base h) (hs_generated h) = Inr a \<and>
    initiateSessionIncoming C X (hs_bob h)
      \<lparr>regId = li_regId (hs_alice h), peerKey = pubKey (staticKeyPair (hs_alice h))\<rparr>
      (pubKey (hs_base h)) (hs_keys h) = Inr b \<and>
    conversation_ok C X P (start_conversation a b)"
  using handshake_conversation [OF assms] by blast

theorem session_setup_in_step_witness:
  "\<exists>a b. initiateSessionOutgoing sample_crypto sample_curve (hs_alice sample_handshake)
      (hs_bundle sample_handshake) (hs_base sample_handshake) (hs_generated sample_handshake) = Inr a \<and>
    conversation_ok sample_crypto sample_curve sample_proto (start_conversation a b)"
  using session_setup_in_step [OF sample_parameters sample_handshake_ok] by blast

text \<open>
  C2: In every conversation over a network that drops, repeats and reorders the messages, old ones whose
  receiving chain was dropped included, each side reads a message at most once, and what it reads is
  what the other side wrote; assumed is that the MAC of such an old message does not verify under a
  fresh key (\<open>stale_mac_verifies\<close>).
\<close>

theorem messages_read_once:
  assumes "parameters_ok C X P" "conversation_ok C X P c0" "conversation_reach C X P c0 c"
  shows "distinct (map fst (received c)) \<and>
    (\<forall>(i, pt) \<in> set (received c). i < length (sent c) \<and> pt = msg_plaintext (sent c ! i))"
  using conversation_reach_ok [OF assms(3,1,2)] by (auto simp: conversation_ok_def received_ok_def)

theorem messages_read_once_witness:
  "\<exists>c0 c. conversation_reach sample_crypto sample_curve sample_proto c0 c \<and> length (received c) = 1 \<and>
    (\<forall>(i, pt) \<in> set (received c). i < length (sent c) \<and> pt = msg_plaintext (sent c ! i))"
proof -
  obtain c0 c m g where c: "conversation_ok sample_crypto sample_curve sample_proto c0"
    "conversation_reach sample_crypto sample_curve sample_proto c0 c" "sent c = [m]"
    "received c = []" "can_open c m" "generated_pair sample_curve g"
    "origin c (SERIALIZED_PUB_KEY_PREFIX # pubKey g) = None"
    by (rule sample_conversation)
  have ok: "conversation_ok sample_crypto sample_curve sample_proto c"
    by (rule conversation_reach_ok [OF c(2) sample_parameters c(1)])
  from can_open_delivers [OF sample_parameters ok, of 0 m g] c obtain s' where
    "deliver sample_crypto sample_curve sample_proto (sess c (\<not> msg_from m)) m g = Inr (s', msg_plaintext m)"
    by auto
  moreover have "deliverable c m" using c(5) by (auto simp: deliverable_def can_open_def split: option.splits)
  then have "\<not> stale_mac_verifies sample_crypto sample_curve sample_proto c m g"
    by (simp add: stale_mac_verifies_def)
  ultimately have "conversation_step sample_crypto sample_curve sample_proto c (c\<lparr>
      sess := (sess c)(\<not> msg_from m := s'), received := received c @ [(0, msg_plaintext m)],
      origin := (if ratchet_pub s' = ratchet_pub (sess c (\<not> msg_from m)) then origin c
        else (origin c)(ratchet_pub s' \<mapsto> snd_chainKey (sendChain s')))\<rparr>)" (is "conversation_step _ _ _ _ ?c")
    using c(3,6,7) by (intro conversation_step.arrive) simp_all
  with c(2) have reach: "conversation_reach sample_crypto sample_curve sample_proto c0 ?c"
    by (rule conversation_reach.step)
  have "length (received ?c) = 1" using c(4) by simp
  with reach messages_read_once [OF sample_parameters c(1) reach] show ?thesis by blast
qed

text \<open>
  C4: A message whose key is still within the limits can be read, however the conversation went: its
  counter is at most 2000 ahead of the receiver's chain, or its skipped key is still stored, or it
  is on the sender's current ratchet key and that is new to the receiver.
\<close>

theorem message_readable:
  assumes "parameters_ok C X P" "conversation_ok C X P c0" "conversation_reach C X P c0 c"
    "i < length (sent c)" "can_open c (sent c ! i)" "generated_pair X g"
  shows "\<exists>s'. deliver C X P (sess c (\<not> msg_from (sent c ! i))) (sent c ! i) g =
    Inr (s', msg_plaintext (sent c ! i))"
  using can_open_delivers [OF assms(1) conversation_reach_ok [OF assms(3,1,2)] assms(4) refl assms(5,6)] .

theorem message_readable_witness:
  "\<exists>(c :: conversation) m g s'. sent c = [m] \<and>
    deliver sample_crypto sample_curve sample_proto (sess c False) m g = Inr (s', [104, 105])"
proof -
  obtain c0 c m g where c: "conversation_ok sample_crypto sample_curve sample_proto c0"
    "conversation_reach sample_crypto sample_curve sample_proto c0 c" "sent c = [m]"
    "msg_plaintext m = [104, 105]" "can_open c m" "generated_pair sample_curve g" "msg_from m"
    by (rule sample_conversation)
  from message_readable [OF sample_parameters c(1,2), of 0 g] c(3-7)
  have "\<exists>s'. deliver sample_crypto sample_curve sample_proto (sess c False) m g = Inr (s', [104, 105])" by simp
  with c(3) show ?thesis by blast
qed

end
