(* ===== verification/Collections.thy ===== *)
theory Collections
  imports Prelude "HOL-Library.AList"
begin

text \<open>
  A JavaScript \<open>Map\<close> as the list of its entries in insertion order, and the functions of
  \<open>src/util/collections.ts\<close> on it: the bounded insert of the memory stores and the limits.  The
  locale \<open>kv_store\<close> is what the clients of a keyed store rely on; it is interpreted on the
  bounded map.
\<close>

type_synonym ('k, 'v) jsmap = "('k \<times> 'v) list"

definition jsmap_ok :: "('k, 'v) jsmap \<Rightarrow> bool" where
  "jsmap_ok m \<longleftrightarrow> distinct (map fst m)"

definition map_get :: "('k, 'v) jsmap \<Rightarrow> 'k \<Rightarrow> 'v option" where
  "map_get m k = map_of m k"

definition map_delete :: "'k \<Rightarrow> ('k, 'v) jsmap \<Rightarrow> ('k, 'v) jsmap" where
  "map_delete k m = filter (\<lambda>e. fst e \<noteq> k) m"

text \<open>\<open>map.set\<close>: an existing key keeps its place, a new one goes last.\<close>

definition map_set :: "'k \<Rightarrow> 'v \<Rightarrow> ('k, 'v) jsmap \<Rightarrow> ('k, 'v) jsmap" where
  "map_set k v m = AList.update k v m"

text \<open>The \<open>while\<close> loop of \<open>setBoundedMapEntry\<close>, with the entries it evicts.\<close>

fun evict_oldest :: "nat \<Rightarrow> ('k, 'v) jsmap \<Rightarrow> ('k \<times> 'v) list \<Rightarrow> ('k, 'v) jsmap \<times> ('k \<times> 'v) list" where
  "evict_oldest maxEntries [] evicted = ([], evicted)"
| "evict_oldest maxEntries (oldest # rest) evicted =
    (if maxEntries < length (oldest # rest) then evict_oldest maxEntries rest (evicted @ [oldest])
     else (oldest # rest, evicted))"

definition setBoundedMapEntry ::
    "'k \<Rightarrow> 'v \<Rightarrow> nat \<Rightarrow> ('k, 'v) jsmap \<Rightarrow> ('k, 'v) jsmap \<times> ('k \<times> 'v) list" where
  "setBoundedMapEntry k v maxEntries m = evict_oldest maxEntries (map_set k v (map_delete k m)) []"

datatype limit_error = InvalidQueryLimit int

definition normalizeQueryLimit :: "int option \<Rightarrow> int \<Rightarrow> limit_error + int" where
  "normalizeQueryLimit limit defaultLimit =
    (case limit of
       None \<Rightarrow> Inr defaultLimit
     | Some l \<Rightarrow> if int MAX_SAFE_INTEGER < l \<or> l \<le> 0 then Inl (InvalidQueryLimit l) else Inr l)"

definition resolveCleanupIntervalMs :: "int \<Rightarrow> int \<Rightarrow> int" where
  "resolveCleanupIntervalMs ttlMs maxIntervalMs =
    (if ttlMs \<le> 1000 then ttlMs else min maxIntervalMs (ttlMs div 2))"

fun idle_period_loop :: "int list \<Rightarrow> int \<Rightarrow> int" where
  "idle_period_loop [] periodMs = periodMs"
| "idle_period_loop (ttl # ttls) periodMs =
    idle_period_loop ttls (min periodMs (max 1000 (ttl div 2)))"

definition resolveIdleSweepPeriodMs :: "int list \<Rightarrow> int" where
  "resolveIdleSweepPeriodMs ttlsMs = idle_period_loop ttlsMs 60000"

subsection \<open>Lemmas\<close>

lemma map_get_delete [simp]: "map_get (map_delete k m) k' = (if k' = k then None else map_get m k')"
  by (induction m) (auto simp: map_get_def map_delete_def)

lemma map_get_set [simp]: "map_get (map_set k v m) k' = (if k' = k then Some v else map_get m k')"
  by (auto simp: map_get_def map_set_def update_conv')

lemma map_get_Nil: "map_get [] k = None"
  by (simp add: map_get_def)

lemma map_get_key: "k \<in> fst ` set m \<longleftrightarrow> map_get m k \<noteq> None"
  by (simp add: map_get_def map_of_eq_None_iff)

lemma jsmap_ok_delete [simp]: "jsmap_ok m \<Longrightarrow> jsmap_ok (map_delete k m)"
  by (simp add: jsmap_ok_def map_delete_def distinct_map_filter)

lemma jsmap_ok_set [simp]: "jsmap_ok m \<Longrightarrow> jsmap_ok (map_set k v m)"
  by (simp add: jsmap_ok_def map_set_def distinct_update)

lemma map_set_new: "map_get m k = None \<Longrightarrow> map_set k v m = m @ [(k, v)]"
  by (induction m) (auto simp: map_get_def map_set_def split: if_splits)

lemma evict_oldest_eq:
  "evict_oldest n m ev = (drop (length m - n) m, ev @ take (length m - n) m)"
proof (induction m arbitrary: ev)
  case (Cons e m)
  show ?case
  proof (cases "n < length (e # m)")
    case True
    then have "length (e # m) - n = Suc (length m - n)" by simp
    with True Cons show ?thesis by simp
  qed simp
qed simp

lemma setBoundedMapEntry_eq:
  "setBoundedMapEntry k v n m =
    (let m' = map_delete k m @ [(k, v)] in (drop (length m' - n) m', take (length m' - n) m'))"
  by (simp add: setBoundedMapEntry_def evict_oldest_eq map_set_new Let_def)

lemma setBoundedMapEntry_get:
  assumes "jsmap_ok m" "0 < n"
  shows "map_get (fst (setBoundedMapEntry k v n m)) k = Some v"
    "k' \<noteq> k \<Longrightarrow> map_get (fst (setBoundedMapEntry k v n m)) k' \<in> {None, map_get m k'}"
    "jsmap_ok (fst (setBoundedMapEntry k v n m))" "length (fst (setBoundedMapEntry k v n m)) \<le> n"
proof -
  let ?m = "map_delete k m @ [(k, v)]"
  define d where "d = length ?m - n"
  have m: "fst (setBoundedMapEntry k v n m) = drop d ?m"
    by (simp add: setBoundedMapEntry_eq d_def Let_def)
  have d: "d \<le> length (map_delete k m)" using assms(2) by (simp add: d_def)
  have "map_get (map_delete k m) k = None" by simp
  then have k: "k \<notin> fst ` set (map_delete k m)" by (simp add: map_get_def map_of_eq_None_iff)
  have ok: "jsmap_ok (map_delete k m)" using assms(1) by simp
  have dm: "drop d ?m = drop d (map_delete k m) @ [(k, v)]" using d by simp
  have sub: "set (drop d (map_delete k m)) \<subseteq> set (map_delete k m)" by (rule set_drop_subset)
  with k have "k \<notin> fst ` set (drop d (map_delete k m))" by blast
  then show "map_get (fst (setBoundedMapEntry k v n m)) k = Some v"
    unfolding m dm by (simp add: map_get_def map_add_Some_iff map_of_eq_None_iff)
  show "jsmap_ok (fst (setBoundedMapEntry k v n m))"
    using \<open>k \<notin> fst ` set (drop d (map_delete k m))\<close> distinct_drop [OF ok [unfolded jsmap_ok_def], of d]
    unfolding m dm by (simp add: jsmap_ok_def drop_map)
  show "length (fst (setBoundedMapEntry k v n m)) \<le> n" unfolding m by (simp add: d_def)
  show "map_get (fst (setBoundedMapEntry k v n m)) k' \<in> {None, map_get m k'}" if "k' \<noteq> k"
  proof (cases "map_of (drop d (map_delete k m)) k'")
    case None
    with that show ?thesis unfolding m dm by (simp add: map_get_def map_add_def)
  next
    case (Some w)
    then have "(k', w) \<in> set (map_delete k m)" using sub map_of_SomeD by fast
    then have "map_get (map_delete k m) k' = Some w"
      using ok by (simp add: map_get_def jsmap_ok_def map_of_is_SomeI)
    with that have "map_get m k' = Some w" by simp
    with that Some show ?thesis unfolding m dm by (simp add: map_get_def map_add_def)
  qed
qed

text \<open>
  A store with a bounded number of entries: a write is visible, it may drop other keys, and it
  never changes the value of another key.
\<close>

locale kv_store =
  fixes get :: "'s \<Rightarrow> 'k \<Rightarrow> 'v option"
    and put :: "'k \<Rightarrow> 'v \<Rightarrow> 's \<Rightarrow> 's"
    and ok :: "'s \<Rightarrow> bool"
  assumes put_ok: "ok s \<Longrightarrow> ok (put k v s)"
    and get_put: "ok s \<Longrightarrow> get (put k v s) k = Some v"
    and get_put_other: "ok s \<Longrightarrow> k' \<noteq> k \<Longrightarrow> get (put k v s) k' \<in> {None, get s k'}"
begin

lemma get_put_cases:
  "ok s \<Longrightarrow> get (put k v s) k' = Some w \<Longrightarrow> (k' = k \<and> w = v) \<or> get s k' = Some w"
  using get_put [of s k v] get_put_other [of s k' k v] by (cases "k' = k") auto

lemma puts_last:
  "ok s \<Longrightarrow> k \<notin> set (map fst later) \<Longrightarrow>
    get (fold (\<lambda>(k, v). put k v) later (put k v s)) k \<in> {None, Some v}"
proof -
  have "get (fold (\<lambda>(k, v). put k v) later s) k \<in> {None, Some v}"
    if "ok s" "get s k \<in> {None, Some v}" "k \<notin> set (map fst later)" for s
    using that
  proof (induction later arbitrary: s)
    case (Cons e later)
    obtain k1 v1 where e: "e = (k1, v1)" by (cases e)
    have "get (put k1 v1 s) k \<in> {None, Some v}"
      using get_put_other [of s k k1 v1] Cons.prems e by auto
    then show ?case using Cons e put_ok by auto
  qed simp
  then show "ok s \<Longrightarrow> k \<notin> set (map fst later) \<Longrightarrow>
      get (fold (\<lambda>(k, v). put k v) later (put k v s)) k \<in> {None, Some v}"
    using get_put put_ok by simp
qed

end

interpretation bounded_map: kv_store map_get "\<lambda>k v m. fst (setBoundedMapEntry k v (Suc n) m)" jsmap_ok
  for n
proof
  fix m :: "('a, 'b) jsmap" and k v k'
  assume "jsmap_ok m"
  note bounded = setBoundedMapEntry_get [OF this, of "Suc n", OF zero_less_Suc]
  show "jsmap_ok (fst (setBoundedMapEntry k v (Suc n) m))" by (rule bounded)
  show "map_get (fst (setBoundedMapEntry k v (Suc n) m)) k = Some v" by (rule bounded)
  show "k' \<noteq> k \<Longrightarrow> map_get (fst (setBoundedMapEntry k v (Suc n) m)) k' \<in> {None, map_get m k'}"
    by (rule bounded)
qed

end
