(* ===== verification/SenderKeyStore.thy ===== *)
theory SenderKeyStore
  imports Collections SenderKeyChain
begin

text \<open>
  \<open>src/store/memory/sender-key.store.ts\<close>: the in-memory sender key store, two bounded maps keyed
  by group and sender.  The access hooks of the class are empty in it and are left out.  The
  locale \<open>sender_key_store\<close> is the part of the contract \<open>WaSenderKeyStore\<close> that the sender key
  manager relies on; it is interpreted on the memory store.
\<close>

record distribution =
  di_groupId :: jstr
  di_sender :: signal_address
  di_keyId :: nat
  di_timestampMs :: nat

record memory_store =
  senderKeys :: "(jstr, sender_key) jsmap"
  senderDistributions :: "(jstr, distribution) jsmap"
  maxSenderKeys :: nat
  maxSenderDistributions :: nat

definition makeKey :: "jstr \<Rightarrow> signal_address \<Rightarrow> jstr" where
  "makeKey groupId sender = groupId @ js ''|'' @ signalAddressKey sender"

datatype store_error = NotPositiveSafeInteger

text \<open>\<open>resolvePositive\<close> of \<open>src/util/coercion.ts\<close>.\<close>

definition resolveOptionalPositive :: "int option \<Rightarrow> store_error + int option" where
  "resolveOptionalPositive value =
    (case value of
       None \<Rightarrow> Inr None
     | Some v \<Rightarrow> if v \<le> int MAX_SAFE_INTEGER \<and> 0 < v then Inr (Some v) else Inl NotPositiveSafeInteger)"

definition resolvePositive :: "int option \<Rightarrow> int \<Rightarrow> store_error + int" where
  "resolvePositive value fallback =
    rbind (resolveOptionalPositive value) (\<lambda>v. Inr (case v of Some w \<Rightarrow> w | None \<Rightarrow> fallback))"

definition DEFAULT_SENDER_KEY_STORE_LIMITS :: int where
  "DEFAULT_SENDER_KEY_STORE_LIMITS = 8192"

definition new_memory_store :: "int option \<Rightarrow> int option \<Rightarrow> store_error + memory_store" where
  "new_memory_store maxKeys maxDistributions =
    rbind (resolvePositive maxKeys DEFAULT_SENDER_KEY_STORE_LIMITS) (\<lambda>mk.
    rbind (resolvePositive maxDistributions DEFAULT_SENDER_KEY_STORE_LIMITS) (\<lambda>md.
      Inr \<lparr>senderKeys = [], senderDistributions = [], maxSenderKeys = nat mk,
        maxSenderDistributions = nat md\<rparr>))"

definition upsertSenderKey :: "sender_key \<Rightarrow> memory_store \<Rightarrow> memory_store" where
  "upsertSenderKey rec s = s\<lparr>senderKeys :=
    fst (setBoundedMapEntry (makeKey (sk_groupId rec) (sk_sender rec)) rec (maxSenderKeys s) (senderKeys s))\<rparr>"

definition upsertSenderKeyDistribution :: "distribution \<Rightarrow> memory_store \<Rightarrow> memory_store" where
  "upsertSenderKeyDistribution rec s = s\<lparr>senderDistributions :=
    fst (setBoundedMapEntry (makeKey (di_groupId rec) (di_sender rec)) rec (maxSenderDistributions s)
      (senderDistributions s))\<rparr>"

definition upsertSenderKeyDistributions :: "distribution list \<Rightarrow> memory_store \<Rightarrow> memory_store" where
  "upsertSenderKeyDistributions records s = fold upsertSenderKeyDistribution records s"

definition getGroupSenderKeyList :: "memory_store \<Rightarrow> jstr \<Rightarrow> sender_key list \<times> distribution list" where
  "getGroupSenderKeyList s groupId =
    (filter (\<lambda>r. sk_groupId r = groupId) (map snd (senderKeys s)),
     filter (\<lambda>r. di_groupId r = groupId) (map snd (senderDistributions s)))"

definition getDeviceSenderKey :: "memory_store \<Rightarrow> jstr \<Rightarrow> signal_address \<Rightarrow> sender_key option" where
  "getDeviceSenderKey s groupId sender = map_get (senderKeys s) (makeKey groupId sender)"

definition getDeviceSenderKeyDistributions ::
    "memory_store \<Rightarrow> jstr \<Rightarrow> signal_address list \<Rightarrow> distribution option list" where
  "getDeviceSenderKeyDistributions s groupId senders =
    map (\<lambda>sender. map_get (senderDistributions s) (makeKey groupId sender)) senders"

text \<open>\<open>deleteMatching\<close>: an absent or empty group id matches every group.  The count comes first.\<close>

definition matches_target :: "jstr \<Rightarrow> signal_address \<Rightarrow> jstr option \<Rightarrow> signal_address \<Rightarrow> bool" where
  "matches_target recGroup target groupId recSender \<longleftrightarrow>
    (case groupId of Some g \<Rightarrow> g = [] \<or> recGroup = g | None \<Rightarrow> True) \<and>
    signalAddressKey recSender = signalAddressKey target"

definition deleteMatching ::
    "('v \<Rightarrow> jstr) \<Rightarrow> ('v \<Rightarrow> signal_address) \<Rightarrow> signal_address \<Rightarrow> jstr option \<Rightarrow> (jstr, 'v) jsmap \<Rightarrow>
      nat \<times> (jstr, 'v) jsmap" where
  "deleteMatching group_of sender_of target groupId m =
    (let hit = (\<lambda>e. matches_target (group_of (snd e)) target groupId (sender_of (snd e)))
     in (length (filter hit m), filter (\<lambda>e. \<not> hit e) m))"

definition deleteDeviceSenderKey :: "signal_address \<Rightarrow> jstr option \<Rightarrow> memory_store \<Rightarrow> nat \<times> memory_store" where
  "deleteDeviceSenderKey target groupId s =
    (let (n, ks) = deleteMatching sk_groupId sk_sender target groupId (senderKeys s);
         (n', ds) = deleteMatching di_groupId di_sender target groupId (senderDistributions s)
     in (n + n', s\<lparr>senderKeys := ks, senderDistributions := ds\<rparr>))"

fun markForgetSenderKey :: "jstr \<Rightarrow> signal_address list \<Rightarrow> nat \<Rightarrow> memory_store \<Rightarrow> nat \<times> memory_store" where
  "markForgetSenderKey groupId [] deleted s = (deleted, s)"
| "markForgetSenderKey groupId (participant # rest) deleted s =
    (let (n, s') = deleteDeviceSenderKey participant (Some groupId) s
     in markForgetSenderKey groupId rest (deleted + n) s')"

definition clear_store :: "memory_store \<Rightarrow> memory_store" where
  "clear_store s = s\<lparr>senderKeys := [], senderDistributions := []\<rparr>"

subsection \<open>The contract\<close>

locale sender_key_store =
  fixes get :: "'s \<Rightarrow> jstr \<Rightarrow> signal_address \<Rightarrow> sender_key option"
    and put :: "sender_key \<Rightarrow> 's \<Rightarrow> 's"
    and put_distribution :: "distribution \<Rightarrow> 's \<Rightarrow> 's"
    and ok :: "'s \<Rightarrow> bool"
  assumes put_ok: "ok s \<Longrightarrow> ok (put r s)"
    and put_distribution_ok: "ok s \<Longrightarrow> ok (put_distribution d s)"
    and get_put: "ok s \<Longrightarrow> get (put r s) (sk_groupId r) (sk_sender r) = Some r"
    and get_put_distribution: "ok s \<Longrightarrow> get (put_distribution d s) g a = get s g a"
    and get_address: "signalAddressKey a = signalAddressKey b \<Longrightarrow> get s g a = get s g b"

definition memory_ok :: "memory_store \<Rightarrow> bool" where
  "memory_ok s \<longleftrightarrow> jsmap_ok (senderKeys s) \<and> jsmap_ok (senderDistributions s) \<and>
    0 < maxSenderKeys s \<and> 0 < maxSenderDistributions s \<and>
    length (senderKeys s) \<le> maxSenderKeys s \<and>
    length (senderDistributions s) \<le> maxSenderDistributions s"

lemma upsertSenderKey_ok:
  assumes "memory_ok s"
  shows "memory_ok (upsertSenderKey r s)"
    "getDeviceSenderKey (upsertSenderKey r s) (sk_groupId r) (sk_sender r) = Some r"
proof -
  have "jsmap_ok (senderKeys s)" "0 < maxSenderKeys s" using assms by (simp_all add: memory_ok_def)
  note bounded = setBoundedMapEntry_get [OF this]
  show "memory_ok (upsertSenderKey r s)"
    using assms by (simp add: memory_ok_def upsertSenderKey_def bounded(3,4))
  show "getDeviceSenderKey (upsertSenderKey r s) (sk_groupId r) (sk_sender r) = Some r"
    by (simp add: upsertSenderKey_def getDeviceSenderKey_def bounded(1))
qed

lemma upsertSenderKeyDistribution_ok:
  assumes "memory_ok s"
  shows "memory_ok (upsertSenderKeyDistribution d s)"
proof -
  have "jsmap_ok (senderDistributions s)" "0 < maxSenderDistributions s"
    using assms by (simp_all add: memory_ok_def)
  note bounded = setBoundedMapEntry_get [OF this]
  show ?thesis using assms by (simp add: memory_ok_def upsertSenderKeyDistribution_def bounded(3,4))
qed

interpretation memory: sender_key_store getDeviceSenderKey upsertSenderKey upsertSenderKeyDistribution
    memory_ok
proof
  show "getDeviceSenderKey (upsertSenderKeyDistribution d s) g a = getDeviceSenderKey s g a" for d s g a
    by (simp add: getDeviceSenderKey_def upsertSenderKeyDistribution_def)
  show "signalAddressKey a = signalAddressKey b \<Longrightarrow> getDeviceSenderKey s g a = getDeviceSenderKey s g b"
    for a b s g
    by (simp add: getDeviceSenderKey_def makeKey_def)
qed (simp_all add: upsertSenderKey_ok upsertSenderKeyDistribution_ok)

lemma resolvePositive_pos: "resolvePositive v fallback = Inr w \<Longrightarrow> 0 < fallback \<Longrightarrow> 0 < w"
  by (auto simp: resolvePositive_def resolveOptionalPositive_def rbind_eq_Inr_iff
      split: option.splits if_splits)

lemma new_memory_store_ok:
  assumes "new_memory_store mk md = Inr s"
  shows "memory_ok s"
proof -
  have d: "0 < DEFAULT_SENDER_KEY_STORE_LIMITS" by (simp add: DEFAULT_SENDER_KEY_STORE_LIMITS_def)
  from assms obtain k n where "resolvePositive mk DEFAULT_SENDER_KEY_STORE_LIMITS = Inr k"
    "resolvePositive md DEFAULT_SENDER_KEY_STORE_LIMITS = Inr n"
    "s = \<lparr>senderKeys = [], senderDistributions = [], maxSenderKeys = nat k,
        maxSenderDistributions = nat n\<rparr>"
    by (auto simp: new_memory_store_def rbind_eq_Inr_iff)
  with resolvePositive_pos [OF _ d] show ?thesis by (simp add: memory_ok_def jsmap_ok_def)
qed

lemma jsmap_ok_filter: "jsmap_ok m \<Longrightarrow> jsmap_ok (filter P m)"
  by (simp add: jsmap_ok_def distinct_map_filter)

lemma deleteDeviceSenderKey_ok: "memory_ok s \<Longrightarrow> memory_ok (snd (deleteDeviceSenderKey target g s))"
  by (auto simp: memory_ok_def deleteDeviceSenderKey_def deleteMatching_def Let_def jsmap_ok_filter
      intro: le_trans [OF length_filter_le])

lemma markForgetSenderKey_ok: "memory_ok s \<Longrightarrow> memory_ok (snd (markForgetSenderKey g ps n s))"
proof (induction g ps n s rule: markForgetSenderKey.induct)
  case (2 groupId participant rest deleted s)
  obtain k s' where d: "deleteDeviceSenderKey participant (Some groupId) s = (k, s')"
    by (cases "deleteDeviceSenderKey participant (Some groupId) s")
  with deleteDeviceSenderKey_ok [OF 2(2), of participant "Some groupId"] have "memory_ok s'" by simp
  with 2(1) [OF d [symmetric] refl] show ?case by (simp add: d)
qed simp

lemma clear_store_ok: "memory_ok s \<Longrightarrow> memory_ok (clear_store s)"
  by (simp add: memory_ok_def clear_store_def jsmap_ok_def)

lemma upsertDistributions_ok: "memory_ok s \<Longrightarrow> memory_ok (upsertSenderKeyDistributions ds s)"
  unfolding upsertSenderKeyDistributions_def
  by (induction ds arbitrary: s) (auto intro: memory.put_distribution_ok)

text \<open>
  C39: Every operation of the memory store keeps its invariant: keys stay unique and neither map
  ever exceeds its configured size.
\<close>

theorem memory_store_invariant:
  assumes "memory_ok s"
  shows "memory_ok (upsertSenderKey r s) \<and> memory_ok (upsertSenderKeyDistributions ds s) \<and>
    memory_ok (snd (deleteDeviceSenderKey target g s)) \<and>
    memory_ok (snd (markForgetSenderKey g' participants n s)) \<and> memory_ok (clear_store s)"
  using assms memory.put_ok upsertDistributions_ok deleteDeviceSenderKey_ok markForgetSenderKey_ok
    clear_store_ok by simp

theorem memory_store_invariant_witness:
  "memory_ok (upsertSenderKey sample_sender_key
    \<lparr>senderKeys = [], senderDistributions = [], maxSenderKeys = 1, maxSenderDistributions = 1\<rparr>)"
  by (rule conjunct1 [OF memory_store_invariant]) (simp add: memory_ok_def jsmap_ok_def)

end
