(* ===== verification/SignalStores.thy ===== *)
theory SignalStores
  imports SenderKeyStore SignalRatchet
begin

text \<open>
  The in-memory stores of the Signal protocol under \<open>src/store/memory\<close>: sessions
  (\<open>session.store.ts\<close>), remote identities (\<open>identity.store.ts\<close>), one-time pre-keys
  (\<open>pre-key.store.ts\<close>) and the registration (\<open>signal.store.ts\<close>).  The empty access hooks are left
  out.  Sessions and identities share the shape of a bounded map keyed by address.
\<close>

subsection \<open>Maps keyed by address\<close>

record 'v address_store =
  as_entries :: "(jstr, 'v) jsmap"
  as_max :: nat

definition address_get :: "'v address_store \<Rightarrow> signal_address \<Rightarrow> 'v option" where
  "address_get s a = map_get (as_entries s) (signalAddressKey a)"

definition address_set :: "signal_address \<Rightarrow> 'v \<Rightarrow> 'v address_store \<Rightarrow> 'v address_store" where
  "address_set a v s = s\<lparr>as_entries := fst (setBoundedMapEntry (signalAddressKey a) v (as_max s) (as_entries s))\<rparr>"

definition address_store_ok :: "'v address_store \<Rightarrow> bool" where
  "address_store_ok s \<longleftrightarrow> jsmap_ok (as_entries s) \<and> 0 < as_max s \<and> length (as_entries s) \<le> as_max s"

definition DEFAULT_MAX_SESSIONS :: int where "DEFAULT_MAX_SESSIONS = 8192"
definition DEFAULT_MAX_REMOTE_IDENTITIES :: int where "DEFAULT_MAX_REMOTE_IDENTITIES = 8192"
definition DEFAULT_MAX_PRE_KEYS :: int where "DEFAULT_MAX_PRE_KEYS = 4096"

definition new_address_store :: "int option \<Rightarrow> int \<Rightarrow> store_error + 'v address_store" where
  "new_address_store limit fallback =
    rbind (resolvePositive limit fallback) (\<lambda>n. Inr \<lparr>as_entries = [], as_max = nat n\<rparr>)"

type_synonym session_store = "session address_store"
type_synonym identity_store = "bytes address_store"

definition new_session_store :: "int option \<Rightarrow> store_error + session_store" where
  "new_session_store maxSessions = new_address_store maxSessions DEFAULT_MAX_SESSIONS"

definition hasSession :: "session_store \<Rightarrow> signal_address \<Rightarrow> bool" where
  "hasSession s a \<longleftrightarrow> address_get s a \<noteq> None"

definition hasSessions :: "session_store \<Rightarrow> signal_address list \<Rightarrow> bool list" where
  "hasSessions s as = map (hasSession s) as"

definition getSession :: "session_store \<Rightarrow> signal_address \<Rightarrow> session option" where
  "getSession s a = address_get s a"

definition getSessionsBatch :: "session_store \<Rightarrow> signal_address list \<Rightarrow> session option list" where
  "getSessionsBatch s as = map (getSession s) as"

definition setSession :: "signal_address \<Rightarrow> session \<Rightarrow> session_store \<Rightarrow> session_store" where
  "setSession a v s = address_set a v s"

definition setSessionsBatch :: "(signal_address \<times> session) list \<Rightarrow> session_store \<Rightarrow> session_store" where
  "setSessionsBatch entries s = fold (\<lambda>(a, v). setSession a v) entries s"

definition deleteSession :: "signal_address \<Rightarrow> session_store \<Rightarrow> session_store" where
  "deleteSession a s = s\<lparr>as_entries := map_delete (signalAddressKey a) (as_entries s)\<rparr>"

definition clear_sessions :: "session_store \<Rightarrow> session_store" where
  "clear_sessions s = s\<lparr>as_entries := []\<rparr>"

definition new_identity_store :: "int option \<Rightarrow> store_error + identity_store" where
  "new_identity_store maxRemoteIdentities = new_address_store maxRemoteIdentities DEFAULT_MAX_REMOTE_IDENTITIES"

definition getRemoteIdentity :: "identity_store \<Rightarrow> signal_address \<Rightarrow> bytes option" where
  "getRemoteIdentity s a = address_get s a"

definition getRemoteIdentities :: "identity_store \<Rightarrow> signal_address list \<Rightarrow> bytes option list" where
  "getRemoteIdentities s as = map (getRemoteIdentity s) as"

definition setRemoteIdentity :: "signal_address \<Rightarrow> bytes \<Rightarrow> identity_store \<Rightarrow> identity_store" where
  "setRemoteIdentity a v s = address_set a v s"

definition setRemoteIdentities :: "(signal_address \<times> bytes) list \<Rightarrow> identity_store \<Rightarrow> identity_store" where
  "setRemoteIdentities entries s = fold (\<lambda>(a, v). setRemoteIdentity a v) entries s"

definition clear_identities :: "identity_store \<Rightarrow> identity_store" where
  "clear_identities s = s\<lparr>as_entries := []\<rparr>"

subsection \<open>One-time pre-keys\<close>

record pre_key =
  pkr_keyId :: nat
  pkr_keyPair :: key_pair

record pre_key_store =
  preKeys :: "(nat, pre_key) jsmap"
  uploadedPreKeys :: "nat set"
  serverHasPreKeys :: bool
  nextPreKeyId :: nat
  maxPreKeys :: nat

datatype pre_key_error = InvalidPreKeyCount int | PreKeyOutOfBoundary int

definition new_pre_key_store :: "int option \<Rightarrow> store_error + pre_key_store" where
  "new_pre_key_store maxKeys =
    rbind (resolvePositive maxKeys DEFAULT_MAX_PRE_KEYS) (\<lambda>n.
      Inr \<lparr>preKeys = [], uploadedPreKeys = {}, serverHasPreKeys = False, nextPreKeyId = 1, maxPreKeys = nat n\<rparr>)"

text \<open>The bounded insert with the callback that forgets the upload mark of evicted keys.\<close>

definition insert_pre_key :: "pre_key \<Rightarrow> pre_key_store \<Rightarrow> pre_key_store" where
  "insert_pre_key r s =
    (let (m, evicted) = setBoundedMapEntry (pkr_keyId r) r (maxPreKeys s) (preKeys s)
     in s\<lparr>preKeys := m, uploadedPreKeys := uploadedPreKeys s - fst ` set evicted\<rparr>)"

definition putPreKey :: "pre_key \<Rightarrow> pre_key_store \<Rightarrow> pre_key_store" where
  "putPreKey r s =
    (let s' = insert_pre_key r s
     in if nextPreKeyId s' \<le> pkr_keyId r then s'\<lparr>nextPreKeyId := pkr_keyId r + 1\<rparr> else s')"

text \<open>The loop over the sorted ids that are not uploaded; \<open>True\<close> when it returned early.\<close>

fun collect_available :: "pre_key_store \<Rightarrow> nat \<Rightarrow> nat list \<Rightarrow> pre_key list \<Rightarrow> pre_key list \<times> bool" where
  "collect_available s count [] available = (available, False)"
| "collect_available s count (keyId # rest) available =
    (case map_get (preKeys s) keyId of
       None \<Rightarrow> collect_available s count rest available
     | Some r \<Rightarrow>
         if count \<le> length (available @ [r]) then (available @ [r], True)
         else collect_available s count rest (available @ [r]))"

text \<open>The \<open>while\<close> loop that generates the missing keys; \<open>missing\<close> is \<open>count - available.length\<close>.\<close>

fun generate_missing ::
    "(nat \<Rightarrow> pre_key) \<Rightarrow> nat \<Rightarrow> pre_key_store \<Rightarrow> pre_key list \<Rightarrow> pre_key list \<times> pre_key_store" where
  "generate_missing generator 0 s available = (available, s)"
| "generate_missing generator (Suc missing) s available =
    (let r = generator (nextPreKeyId s);
         s' = insert_pre_key r (s\<lparr>nextPreKeyId := nextPreKeyId s + 1\<rparr>)
     in generate_missing generator missing s' (available @ [r]))"

definition getOrGenPreKeys ::
    "int \<Rightarrow> (nat \<Rightarrow> pre_key) \<Rightarrow> pre_key_store \<Rightarrow> pre_key_error + pre_key list \<times> pre_key_store" where
  "getOrGenPreKeys count generator s =
    (if int MAX_SAFE_INTEGER < count \<or> count \<le> 0 then Inl (InvalidPreKeyCount count)
     else
       let ids = sort (filter (\<lambda>k. k \<notin> uploadedPreKeys s) (map fst (preKeys s)));
           (available, done_early) = collect_available s (nat count) ids []
       in if done_early then Inr (available, s)
          else Inr (generate_missing generator (nat count - length available) s available))"

definition getPreKeyById :: "pre_key_store \<Rightarrow> nat \<Rightarrow> pre_key option" where
  "getPreKeyById s keyId = map_get (preKeys s) keyId"

definition getPreKeysById :: "pre_key_store \<Rightarrow> nat list \<Rightarrow> pre_key option list" where
  "getPreKeysById s keyIds = map (getPreKeyById s) keyIds"

definition consumePreKeyById :: "nat \<Rightarrow> pre_key_store \<Rightarrow> pre_key option \<times> pre_key_store" where
  "consumePreKeyById keyId s =
    (case map_get (preKeys s) keyId of
       None \<Rightarrow> (None, s)
     | Some r \<Rightarrow> (Some r, s\<lparr>preKeys := map_delete keyId (preKeys s), uploadedPreKeys := uploadedPreKeys s - {keyId}\<rparr>))"

definition getOrGenSinglePreKey :: "(nat \<Rightarrow> pre_key) \<Rightarrow> pre_key_store \<Rightarrow> pre_key_error + pre_key \<times> pre_key_store" where
  "getOrGenSinglePreKey generator s =
    rbind (getOrGenPreKeys 1 generator s) (\<lambda>(keys, s'). Inr (hd keys, s'))"

definition markKeyAsUploaded :: "int \<Rightarrow> pre_key_store \<Rightarrow> pre_key_error + pre_key_store" where
  "markKeyAsUploaded keyId s =
    (if keyId < 0 \<or> int (nextPreKeyId s) \<le> keyId then Inl (PreKeyOutOfBoundary keyId)
     else Inr (s\<lparr>uploadedPreKeys := uploadedPreKeys s \<union> {c \<in> fst ` set (preKeys s). int c \<le> keyId}\<rparr>))"

definition setServerHasPreKeys :: "bool \<Rightarrow> pre_key_store \<Rightarrow> pre_key_store" where
  "setServerHasPreKeys v s = s\<lparr>serverHasPreKeys := v\<rparr>"

definition clear_pre_keys :: "pre_key_store \<Rightarrow> pre_key_store" where
  "clear_pre_keys s = s\<lparr>preKeys := [], uploadedPreKeys := {}, serverHasPreKeys := False, nextPreKeyId := 1\<rparr>"

subsection \<open>Registration\<close>

record registration_info =
  registrationId :: nat
  identityKeyPair :: key_pair

record signed_pre_key =
  spk_keyId :: nat
  spk_keyPair :: key_pair
  spk_signature :: bytes

record signal_store =
  registrationInfo :: "registration_info option"
  signedPreKey :: "signed_pre_key option"
  signedPreKeyRotationTs :: "nat option"

definition new_signal_store :: signal_store where
  "new_signal_store = \<lparr>registrationInfo = None, signedPreKey = None, signedPreKeyRotationTs = None\<rparr>"

definition getSignedPreKeyById :: "signal_store \<Rightarrow> nat \<Rightarrow> signed_pre_key option" where
  "getSignedPreKeyById s keyId =
    (case signedPreKey s of None \<Rightarrow> None | Some r \<Rightarrow> if spk_keyId r = keyId then Some r else None)"

definition setSignedPreKey :: "signed_pre_key \<Rightarrow> signal_store \<Rightarrow> signal_store" where
  "setSignedPreKey r s = s\<lparr>signedPreKey := Some r\<rparr>"

definition setRegistrationInfo :: "registration_info \<Rightarrow> signal_store \<Rightarrow> signal_store" where
  "setRegistrationInfo r s = s\<lparr>registrationInfo := Some r\<rparr>"

definition setSignedPreKeyRotationTs :: "nat option \<Rightarrow> signal_store \<Rightarrow> signal_store" where
  "setSignedPreKeyRotationTs v s = s\<lparr>signedPreKeyRotationTs := v\<rparr>"

definition clear_signal_store :: "signal_store \<Rightarrow> signal_store" where
  "clear_signal_store s = s\<lparr>registrationInfo := None, signedPreKey := None, signedPreKeyRotationTs := None\<rparr>"

subsection \<open>The address stores are key-value stores\<close>

lemma address_set_get:
  assumes "address_store_ok s"
  shows "address_store_ok (address_set a v s)" "address_get (address_set a v s) a = Some v"
    "signalAddressKey b \<noteq> signalAddressKey a \<Longrightarrow> address_get (address_set a v s) b \<in> {None, address_get s b}"
proof -
  have "jsmap_ok (as_entries s)" "0 < as_max s" using assms by (simp_all add: address_store_ok_def)
  note bounded = setBoundedMapEntry_get [OF this]
  show "address_store_ok (address_set a v s)"
    using assms by (simp add: address_store_ok_def address_set_def bounded(3,4))
  show "address_get (address_set a v s) a = Some v"
    by (simp add: address_set_def address_get_def bounded(1))
  show "address_get (address_set a v s) b \<in> {None, address_get s b}" if "signalAddressKey b \<noteq> signalAddressKey a"
    using bounded(2) [OF that] by (simp add: address_set_def address_get_def)
qed

text \<open>Overwriting a key evicts nothing.\<close>

lemma setBoundedMapEntry_replace:
  assumes "jsmap_ok m" "length m \<le> n" "map_get m k \<noteq> None"
  shows "map_get (fst (setBoundedMapEntry k v n m)) k' = (if k' = k then Some v else map_get m k')"
proof -
  have "k \<in> fst ` set m" using assms(3) by (simp add: map_get_def map_of_eq_None_iff)
  then have "length (map_delete k m) < length m"
    unfolding map_delete_def by (metis (mono_tags, lifting) imageE length_filter_less)
  with assms(2) have "length (map_delete k m @ [(k, v)]) - n = 0" by simp
  then have "fst (setBoundedMapEntry k v n m) = map_delete k m @ [(k, v)]"
    by (simp add: setBoundedMapEntry_eq Let_def)
  moreover have "map_get (map_delete k m @ [(k, v)]) k' = (if k' = k then Some v else map_get m k')"
    using map_get_delete [of k m k'] by (auto simp: map_get_def map_add_def split: option.splits)
  ultimately show ?thesis by simp
qed

lemma address_set_replace:
  assumes "address_store_ok s" "address_get s a \<noteq> None"
  shows "address_get (address_set a v s) b =
    (if signalAddressKey b = signalAddressKey a then Some v else address_get s b)"
  using assms setBoundedMapEntry_replace [of "as_entries s" "as_max s" "signalAddressKey a" v "signalAddressKey b"]
  by (simp add: address_store_ok_def address_get_def address_set_def)

subsection \<open>Pre-key ids\<close>

definition pre_key_store_ok :: "pre_key_store \<Rightarrow> bool" where
  "pre_key_store_ok s \<longleftrightarrow> jsmap_ok (preKeys s) \<and> 0 < maxPreKeys s \<and> length (preKeys s) \<le> maxPreKeys s \<and>
    (\<forall>(k, r) \<in> set (preKeys s). pkr_keyId r = k \<and> k < nextPreKeyId s) \<and>
    uploadedPreKeys s \<subseteq> fst ` set (preKeys s)"

text \<open>The generator makes a key with the id it is asked for.\<close>

definition generator_ok :: "(nat \<Rightarrow> pre_key) \<Rightarrow> bool" where
  "generator_ok generator \<longleftrightarrow> (\<forall>n. pkr_keyId (generator n) = n)"

lemma pre_key_bounds:
  "pre_key_store_ok s \<Longrightarrow> k \<in> fst ` set (preKeys s) \<Longrightarrow> k < nextPreKeyId s"
  by (auto simp: pre_key_store_ok_def)

lemma insert_pre_key_ok:
  assumes "pre_key_store_ok s" "pkr_keyId r < nextPreKeyId s"
  shows "pre_key_store_ok (insert_pre_key r s)" "nextPreKeyId (insert_pre_key r s) = nextPreKeyId s"
    "fst ` set (preKeys (insert_pre_key r s)) \<subseteq> insert (pkr_keyId r) (fst ` set (preKeys s))"
    "uploadedPreKeys (insert_pre_key r s) \<subseteq> uploadedPreKeys s"
proof -
  let ?k = "pkr_keyId r"
  define m' where "m' = map_delete ?k (preKeys s) @ [(?k, r)]"
  define d where "d = length m' - maxPreKeys s"
  have ins: "preKeys (insert_pre_key r s) = drop d m'" "nextPreKeyId (insert_pre_key r s) = nextPreKeyId s"
    "uploadedPreKeys (insert_pre_key r s) = uploadedPreKeys s - fst ` set (take d m')"
    "maxPreKeys (insert_pre_key r s) = maxPreKeys s"
    by (simp_all add: insert_pre_key_def setBoundedMapEntry_eq m'_def d_def Let_def)
  have m: "jsmap_ok (preKeys s)" "0 < maxPreKeys s" using assms(1) by (simp_all add: pre_key_store_ok_def)
  note bounded = setBoundedMapEntry_get [OF m, where k = ?k and v = r]
  have b: "jsmap_ok (drop d m')" "length (drop d m') \<le> maxPreKeys s"
    using bounded(3,4) by (simp_all add: setBoundedMapEntry_eq m'_def d_def Let_def)
  have sub: "set m' \<subseteq> insert (?k, r) (set (preKeys s))" by (auto simp: m'_def map_delete_def)
  have keys: "fst ` set m' = insert ?k (fst ` set (preKeys s))" by (auto simp: m'_def map_delete_def)
  have "fst ` set m' = fst ` set (take d m') \<union> fst ` set (drop d m')"
    by (metis append_take_drop_id image_Un set_append)
  moreover have "uploadedPreKeys s \<subseteq> fst ` set m'" using assms(1) by (auto simp: pre_key_store_ok_def keys)
  ultimately have up: "uploadedPreKeys s - fst ` set (take d m') \<subseteq> fst ` set (drop d m')" by auto
  have "pkr_keyId x = k \<and> k < nextPreKeyId s" if "(k, x) \<in> set (drop d m')" for k x
    using that sub assms set_drop_subset [of d m'] by (auto simp: pre_key_store_ok_def)
  with b up m(2) show "pre_key_store_ok (insert_pre_key r s)"
    unfolding pre_key_store_ok_def ins by blast
  show "fst ` set (preKeys (insert_pre_key r s)) \<subseteq> insert ?k (fst ` set (preKeys s))"
    unfolding ins using keys set_drop_subset [of d m'] by blast
  show "nextPreKeyId (insert_pre_key r s) = nextPreKeyId s" by (rule ins(2))
  show "uploadedPreKeys (insert_pre_key r s) \<subseteq> uploadedPreKeys s" unfolding ins by blast
qed

text \<open>An upload mark is forgotten only together with its key.\<close>

lemma insert_pre_key_marks:
  assumes "pre_key_store_ok s" "k \<in> uploadedPreKeys s" "k \<in> fst ` set (preKeys (insert_pre_key r s))"
  shows "k \<in> uploadedPreKeys (insert_pre_key r s)"
proof -
  let ?k = "pkr_keyId r"
  define m' where "m' = map_delete ?k (preKeys s) @ [(?k, r)]"
  define d where "d = length m' - maxPreKeys s"
  have ins: "preKeys (insert_pre_key r s) = drop d m'"
    "uploadedPreKeys (insert_pre_key r s) = uploadedPreKeys s - fst ` set (take d m')"
    by (simp_all add: insert_pre_key_def setBoundedMapEntry_eq m'_def d_def Let_def)
  have "distinct (map fst (map_delete ?k (preKeys s)))"
    using assms(1) by (simp add: pre_key_store_ok_def jsmap_ok_def map_delete_def distinct_map_filter)
  then have "distinct (map fst m')" by (auto simp: m'_def map_delete_def)
  then have "distinct (map fst (take d m') @ map fst (drop d m'))"
    by (metis append_take_drop_id map_append)
  with assms(2,3) show ?thesis unfolding ins by auto
qed

lemma more_ids_ok: "pre_key_store_ok s \<Longrightarrow> nextPreKeyId s \<le> n \<Longrightarrow> pre_key_store_ok (s\<lparr>nextPreKeyId := n\<rparr>)"
  by (auto simp: pre_key_store_ok_def)

lemma putPreKey_ok:
  assumes "pre_key_store_ok s"
  shows "pre_key_store_ok (putPreKey r s)"
proof -
  let ?s = "s\<lparr>nextPreKeyId := max (nextPreKeyId s) (pkr_keyId r + 1)\<rparr>"
  have "putPreKey r s = insert_pre_key r ?s"
    by (auto simp: putPreKey_def insert_pre_key_def Let_def split_beta max_def)
  with insert_pre_key_ok(1) [of ?s r] more_ids_ok [OF assms] show ?thesis by simp
qed

lemma collect_available_eq:
  "\<forall>k \<in> set ids. k \<in> fst ` set (preKeys s) \<Longrightarrow> length av < count \<Longrightarrow>
    collect_available s count ids av =
      (av @ take (count - length av) (map (\<lambda>k. the (map_get (preKeys s) k)) ids), count \<le> length av + length ids)"
proof (induction ids arbitrary: av)
  case (Cons k ids)
  then obtain r where "map_get (preKeys s) k = Some r"
    using map_get_key [of k "preKeys s"] by auto
  with Cons show ?case
    by (cases "count \<le> length (av @ [r])") (simp_all add: take_Cons' Suc_diff_Suc)
qed simp

lemma generate_missing_spec:
  assumes "pre_key_store_ok s" "generator_ok generator"
  shows "fst (generate_missing generator n s av) = av @ map generator [nextPreKeyId s..<nextPreKeyId s + n] \<and>
    pre_key_store_ok (snd (generate_missing generator n s av)) \<and>
    nextPreKeyId (snd (generate_missing generator n s av)) = nextPreKeyId s + n \<and>
    fst ` set (preKeys (snd (generate_missing generator n s av))) \<subseteq>
      fst ` set (preKeys s) \<union> {nextPreKeyId s..<nextPreKeyId s + n} \<and>
    uploadedPreKeys (snd (generate_missing generator n s av)) \<subseteq> uploadedPreKeys s"
  using assms(1)
proof (induction n arbitrary: s av)
  case (Suc n)
  let ?r = "generator (nextPreKeyId s)" and ?s = "s\<lparr>nextPreKeyId := nextPreKeyId s + 1\<rparr>"
  have r: "pkr_keyId ?r = nextPreKeyId s" using assms(2) by (simp add: generator_ok_def)
  have "pre_key_store_ok ?s" "pkr_keyId ?r < nextPreKeyId ?s" using Suc.prems r by (simp_all add: more_ids_ok)
  note ins = insert_pre_key_ok [OF this]
  let ?s1 = "insert_pre_key ?r ?s" and ?N = "nextPreKeyId s"
  have next1: "nextPreKeyId ?s1 = Suc ?N" using ins(2) by simp
  note IH = Suc.IH [OF ins(1), of "av @ [?r]", unfolded next1]
  have eq: "generate_missing generator (Suc n) s av = generate_missing generator n ?s1 (av @ [?r])"
    by (simp add: Let_def)
  have u: "map generator [?N..<?N + Suc n] = ?r # map generator [Suc ?N..<Suc ?N + n]"
    by (subst upt_conv_Cons) simp_all
  have sub: "fst ` set (preKeys ?s1) \<union> {Suc ?N..<Suc ?N + n} \<subseteq> fst ` set (preKeys s) \<union> {?N..<?N + Suc n}"
    using ins(3) r by auto
  show ?case
    unfolding eq u
  proof (intro conjI)
    show "fst (generate_missing generator n ?s1 (av @ [?r])) = av @ ?r # map generator [Suc ?N..<Suc ?N + n]"
      using IH by (simp del: upt_Suc)
    show "uploadedPreKeys (snd (generate_missing generator n ?s1 (av @ [?r]))) \<subseteq> uploadedPreKeys s"
      using IH ins(4) by auto
    show "fst ` set (preKeys (snd (generate_missing generator n ?s1 (av @ [?r])))) \<subseteq>
        fst ` set (preKeys s) \<union> {?N..<?N + Suc n}"
      using IH sub by blast
  qed (use IH in auto)
qed simp

text \<open>One call of \<open>getOrGenPreKeys\<close>: the stored keys in order of their ids, then new ids.\<close>

lemma getOrGenPreKeys_spec:
  assumes "pre_key_store_ok s" "generator_ok generator" "getOrGenPreKeys count generator s = Inr (keys, s')"
  shows "length keys = nat count \<and> distinct (map pkr_keyId keys) \<and>
    (\<forall>k \<in> set keys. pkr_keyId k \<notin> uploadedPreKeys s \<and>
      (pkr_keyId k \<in> fst ` set (preKeys s) \<or> nextPreKeyId s \<le> pkr_keyId k) \<and> pkr_keyId k < nextPreKeyId s') \<and>
    pre_key_store_ok s' \<and> nextPreKeyId s \<le> nextPreKeyId s' \<and> uploadedPreKeys s' \<subseteq> uploadedPreKeys s \<and>
    (\<forall>k \<in> fst ` set (preKeys s'). k \<in> fst ` set (preKeys s) \<or> nextPreKeyId s \<le> k)"
proof -
  define ids where "ids = sort (filter (\<lambda>k. k \<notin> uploadedPreKeys s) (map fst (preKeys s)))"
  let ?rec = "\<lambda>k. the (map_get (preKeys s) k)"
  have pos: "0 < nat count" and nc: "\<not> (int MAX_SAFE_INTEGER < count \<or> count \<le> 0)"
    using assms(3) by (auto simp: getOrGenPreKeys_def split: if_splits)
  have ids: "\<forall>k \<in> set ids. k \<in> fst ` set (preKeys s)" "\<forall>k \<in> set ids. k \<notin> uploadedPreKeys s" "distinct ids"
    using assms(1) by (auto simp: ids_def pre_key_store_ok_def jsmap_ok_def)
  have rec: "pkr_keyId (?rec k) = k" if k: "k \<in> set ids" for k
  proof -
    obtain r where "map_get (preKeys s) k = Some r"
      using k ids(1) map_get_key [of k "preKeys s"] by blast
    with assms(1) map_of_SomeD [of "preKeys s" k r] show ?thesis by (auto simp: map_get_def pre_key_store_ok_def)
  qed
  define available where "available = take (nat count) (map ?rec ids)"
  have av: "map pkr_keyId available = take (nat count) ids"
    using rec by (simp add: available_def take_map [symmetric] map_idI)
  have len: "length available = min (nat count) (length ids)" by (simp add: available_def)
  have av_ids: "pkr_keyId k \<in> set ids" if "k \<in> set available" for k
    using that av set_take_subset [of "nat count" ids] by (metis in_mono image_eqI set_map)
  have collect: "collect_available s (nat count) ids [] = (available, nat count \<le> length ids)"
    using collect_available_eq [of ids s "[]" "nat count"] ids(1) pos by (simp add: available_def)
  have res: "getOrGenPreKeys count generator s = (if nat count \<le> length ids then Inr (available, s)
      else Inr (generate_missing generator (nat count - length available) s available))"
    using nc by (simp add: getOrGenPreKeys_def ids_def [symmetric] collect)
  show ?thesis
  proof (cases "nat count \<le> length ids")
    case True
    then have "keys = available" "s' = s" using res assms(3) by simp_all
    with True av av_ids ids(1-3) len assms(1) show ?thesis by (auto intro: pre_key_bounds)
  next
    case False
    define n where "n = nat count - length available"
    note gen = generate_missing_spec [OF assms(1,2), of n available]
    have keys: "keys = available @ map generator [nextPreKeyId s..<nextPreKeyId s + n]"
      "s' = snd (generate_missing generator n s available)"
      using False res assms(3) gen by (simp_all add: n_def [symmetric]) (metis fst_conv, metis snd_conv)
    have g: "pkr_keyId (generator i) = i" for i using assms(2) by (simp add: generator_ok_def)
    have below: "k < nextPreKeyId s" if "k \<in> fst ` set (preKeys s)" for k
      using that pre_key_bounds [OF assms(1)] by blast
    have up: "uploadedPreKeys s \<subseteq> fst ` set (preKeys s)" using assms(1) by (simp add: pre_key_store_ok_def)
    have ks: "map pkr_keyId keys = take (nat count) ids @ [nextPreKeyId s..<nextPreKeyId s + n]"
      by (simp add: keys(1) av comp_def g)
    have next': "nextPreKeyId s' = nextPreKeyId s + n" using gen keys(2) by simp
    have "pkr_keyId k \<notin> uploadedPreKeys s \<and>
        (pkr_keyId k \<in> fst ` set (preKeys s) \<or> nextPreKeyId s \<le> pkr_keyId k) \<and> pkr_keyId k < nextPreKeyId s'"
      if "k \<in> set keys" for k
    proof (cases "k \<in> set available")
      case True
      then show ?thesis using av_ids ids below next' by fastforce
    next
      case False
      with that obtain i where "k = generator i" "nextPreKeyId s \<le> i" "i < nextPreKeyId s + n"
        by (auto simp: keys(1))
      then show ?thesis using g up below next' by fastforce
    qed
    moreover have "distinct (map pkr_keyId keys)"
      using ids(1,3) below unfolding ks by (fastforce dest: in_set_takeD)
    moreover have "length keys = nat count" using False len by (simp add: keys(1) n_def)
    moreover have "k \<in> fst ` set (preKeys s) \<or> nextPreKeyId s \<le> k" if "k \<in> fst ` set (preKeys s')" for k
      using that gen keys(2) by auto
    ultimately show ?thesis using gen keys(2) next' by simp
  qed
qed

text \<open>
  The operations on the store: requests, marks, keys that are taken out, and keys that are stored under
  a new id or an id in use.  (\<open>clear\<close> starts the ids again, and a key that is put back under an id that
  was used up is a new key for the store.)
\<close>

inductive pre_key_step :: "pre_key_store \<Rightarrow> pre_key_store \<Rightarrow> bool" where
  request: "generator_ok g \<Longrightarrow> getOrGenPreKeys count g s = Inr (keys, s') \<Longrightarrow> pre_key_step s s'"
| mark: "markKeyAsUploaded upTo s = Inr s' \<Longrightarrow> pre_key_step s s'"
| consume: "pre_key_step s (snd (consumePreKeyById k s))"
| put: "getPreKeyById s (pkr_keyId r) \<noteq> None \<or> nextPreKeyId s \<le> pkr_keyId r \<Longrightarrow> pre_key_step s (putPreKey r s)"
| server_flag: "pre_key_step s (setServerHasPreKeys v s)"

text \<open>An id that will not be handed out again: it was used, and its key is gone or uploaded.\<close>

definition retired :: "pre_key_store \<Rightarrow> nat \<Rightarrow> bool" where
  "retired s k \<longleftrightarrow> k < nextPreKeyId s \<and> (k \<in> fst ` set (preKeys s) \<longrightarrow> k \<in> uploadedPreKeys s)"

lemma insert_pre_key_retired:
  assumes "pre_key_store_ok s" "pkr_keyId r < nextPreKeyId s" "retired s k"
    "k = pkr_keyId r \<Longrightarrow> k \<in> fst ` set (preKeys s)"
  shows "retired (insert_pre_key r s) k"
  using assms insert_pre_key_ok [OF assms(1,2)] insert_pre_key_marks [OF assms(1), of k r]
  by (auto simp: retired_def)

lemma generate_missing_retired:
  assumes "generator_ok g" "pre_key_store_ok s" "retired s k"
  shows "retired (snd (generate_missing g n s av)) k"
  using assms(2,3)
proof (induction n arbitrary: s av)
  case (Suc n)
  let ?r = "g (nextPreKeyId s)" and ?s = "s\<lparr>nextPreKeyId := nextPreKeyId s + 1\<rparr>"
  have r: "pkr_keyId ?r = nextPreKeyId s" using assms(1) by (simp add: generator_ok_def)
  have s: "pre_key_store_ok ?s" "pkr_keyId ?r < nextPreKeyId ?s" "retired ?s k" "k \<noteq> pkr_keyId ?r"
    using Suc.prems r by (auto simp: more_ids_ok retired_def)
  then show ?case
    using Suc.IH [OF insert_pre_key_ok(1) [OF s(1,2)] insert_pre_key_retired [OF s(1-3)]] by (simp add: Let_def)
qed simp

lemma markKeyAsUploaded_Inr:
  assumes "markKeyAsUploaded upTo s = Inr s'"
  shows "preKeys s' = preKeys s" "nextPreKeyId s' = nextPreKeyId s" "maxPreKeys s' = maxPreKeys s"
    "uploadedPreKeys s' = uploadedPreKeys s \<union> {c \<in> fst ` set (preKeys s). int c \<le> upTo}"
proof -
  have "s' = s\<lparr>uploadedPreKeys := uploadedPreKeys s \<union> {c \<in> fst ` set (preKeys s). int c \<le> upTo}\<rparr>"
    using assms by (simp add: markKeyAsUploaded_def split: if_splits)
  then show "preKeys s' = preKeys s" "nextPreKeyId s' = nextPreKeyId s" "maxPreKeys s' = maxPreKeys s"
    "uploadedPreKeys s' = uploadedPreKeys s \<union> {c \<in> fst ` set (preKeys s). int c \<le> upTo}"
    by simp_all
qed

lemma pre_key_step_ok:
  assumes "pre_key_step s s'" "pre_key_store_ok s"
  shows "pre_key_store_ok s' \<and> nextPreKeyId s \<le> nextPreKeyId s' \<and> (\<forall>k. retired s k \<longrightarrow> retired s' k)"
  using assms(1)
proof cases
  case (request g count keys)
  have "retired s' k" if "retired s k" for k
    using request(2) generate_missing_retired [OF request(1) assms(2) that] that
    by (auto simp: getOrGenPreKeys_def Let_def split: if_splits prod.splits) (metis snd_conv)
  with getOrGenPreKeys_spec [OF assms(2) request] show ?thesis by blast
next
  case (mark upTo)
  note m = markKeyAsUploaded_Inr [OF mark]
  show ?thesis using assms(2) unfolding pre_key_store_ok_def retired_def m by auto
next
  case (consume k)
  then show ?thesis
    using assms(2)
    by (auto simp: consumePreKeyById_def pre_key_store_ok_def retired_def jsmap_ok_def map_delete_def
        distinct_map_filter intro: order.trans [OF length_filter_le] split: option.split)
next
  case (put r)
  let ?s = "s\<lparr>nextPreKeyId := max (nextPreKeyId s) (pkr_keyId r + 1)\<rparr>"
  have eq: "s' = insert_pre_key r ?s"
    using put(1) by (auto simp: putPreKey_def insert_pre_key_def Let_def split_beta max_def)
  have s: "pre_key_store_ok ?s" "pkr_keyId r < nextPreKeyId ?s"
    using more_ids_ok [OF assms(2)] by simp_all
  have "retired s' k" if k: "retired s k" for k
    unfolding eq
  proof (rule insert_pre_key_retired [OF s])
    show "retired ?s k" using k by (auto simp: retired_def)
    show "k \<in> fst ` set (preKeys ?s)" if "k = pkr_keyId r"
      using put(2) k that map_get_key [of k "preKeys s"]
      by (auto simp: retired_def getPreKeyById_def map_get_def map_of_eq_None_iff)
  qed
  then show ?thesis using insert_pre_key_ok(1,2) [OF s] unfolding eq by simp
next
  case (server_flag v)
  then show ?thesis using assms(2) by (simp add: setServerHasPreKeys_def pre_key_store_ok_def retired_def)
qed

lemma pre_key_steps_ok:
  assumes "pre_key_step\<^sup>*\<^sup>* s s'" "pre_key_store_ok s"
  shows "pre_key_store_ok s' \<and> nextPreKeyId s \<le> nextPreKeyId s' \<and> (\<forall>k. retired s k \<longrightarrow> retired s' k)"
  using assms
proof (induction rule: rtranclp_induct)
  case (step t u)
  with pre_key_step_ok [OF step(2)] show ?case by force
qed simp


definition sample_pre_key :: "nat \<Rightarrow> pre_key" where
  "sample_pre_key n = \<lparr>pkr_keyId = n, pkr_keyPair = \<lparr>pubKey = [], privKey = []\<rparr>\<rparr>"

lemma generate_two:
  "generate_missing g 2 s av =
    (let s1 = insert_pre_key (g (nextPreKeyId s)) (s\<lparr>nextPreKeyId := nextPreKeyId s + 1\<rparr>);
         s2 = insert_pre_key (g (nextPreKeyId s1)) (s1\<lparr>nextPreKeyId := nextPreKeyId s1 + 1\<rparr>)
     in (av @ [g (nextPreKeyId s), g (nextPreKeyId s1)], s2))"
  by (simp add: numeral_2_eq_2 Let_def)

lemma insert_sample_pre_key:
  "n \<notin> fst ` set (preKeys s) \<Longrightarrow> length (preKeys s) < maxPreKeys s \<Longrightarrow>
    insert_pre_key (sample_pre_key n) s = s\<lparr>preKeys := preKeys s @ [(n, sample_pre_key n)]\<rparr>"
proof -
  assume n: "n \<notin> fst ` set (preKeys s)" "length (preKeys s) < maxPreKeys s"
  then have "map_delete n (preKeys s) = preKeys s" unfolding map_delete_def by (force simp: filter_id_conv)
  with n show ?thesis by (simp add: insert_pre_key_def sample_pre_key_def setBoundedMapEntry_eq Let_def)
qed

definition sample_uploaded_store :: "nat list \<Rightarrow> nat set \<Rightarrow> pre_key_store" where
  "sample_uploaded_store ids up = \<lparr>preKeys = map (\<lambda>n. (n, sample_pre_key n)) ids, uploadedPreKeys = up,
     serverHasPreKeys = True, nextPreKeyId = length ids + 1, maxPreKeys = 5\<rparr>"

lemma sample_requests:
  "getOrGenPreKeys 2 sample_pre_key (sample_uploaded_store [1] {1}) =
    Inr ([sample_pre_key 2, sample_pre_key 3], sample_uploaded_store [1, 2, 3] {1})"
  "markKeyAsUploaded 3 (sample_uploaded_store [1, 2, 3] {1}) = Inr (sample_uploaded_store [1, 2, 3] {1, 2, 3})"
  "getOrGenPreKeys 2 sample_pre_key (sample_uploaded_store [1, 2, 3] {1, 2, 3}) =
    Inr ([sample_pre_key 4, sample_pre_key 5], sample_uploaded_store [1, 2, 3, 4, 5] {1, 2, 3})"
  "getOrGenPreKeys 1 sample_pre_key (sample_uploaded_store [1, 2, 3, 4, 5] {1, 2, 3}) =
    Inr ([sample_pre_key 4], sample_uploaded_store [1, 2, 3, 4, 5] {1, 2, 3})"
  by (auto simp: getOrGenPreKeys_def MAX_SAFE_INTEGER_def sample_uploaded_store_def markKeyAsUploaded_def
      generate_two insert_sample_pre_key)
    (simp_all add: numeral_eq_Suc map_get_def)


end
