(* ===== verification/SignalProtocol.thy ===== *)
theory SignalProtocol
  imports SignalStores SessionMessages
begin

text \<open>
  \<open>src/signal/session/SignalProtocol.ts\<close>: the operations on sessions as the rest of the client
  calls them, over the four stores.  An operation is a function from the stores to its result and
  the stores it leaves, also when it throws; the per-address lock makes each of them one step.  The
  key pairs an operation generates are arguments.
\<close>

record stores =
  st_signal :: signal_store
  st_preKey :: pre_key_store
  st_session :: session_store
  st_identity :: identity_store

subsection \<open>Operations with effects\<close>

type_synonym ('s, 'a) action = "'s \<Rightarrow> (signal_error + 'a) \<times> 's"

definition act_return :: "'a \<Rightarrow> ('s, 'a) action" where
  "act_return a = (\<lambda>s. (Inr a, s))"

definition act_lift :: "signal_error + 'a \<Rightarrow> ('s, 'a) action" where
  "act_lift r = (\<lambda>s. (r, s))"

definition act_read :: "('s \<Rightarrow> signal_error + 'a) \<Rightarrow> ('s, 'a) action" where
  "act_read f = (\<lambda>s. (f s, s))"

definition act_write :: "('s \<Rightarrow> 's) \<Rightarrow> ('s, unit) action" where
  "act_write f = (\<lambda>s. (Inr (), f s))"

definition act_bind :: "('s, 'a) action \<Rightarrow> ('a \<Rightarrow> ('s, 'b) action) \<Rightarrow> ('s, 'b) action" where
  "act_bind m f = (\<lambda>s. case m s of (Inl e, s') \<Rightarrow> (Inl e, s') | (Inr a, s') \<Rightarrow> f a s')"

lemma act_simps [simp]:
  "act_return a s = (Inr a, s)" "act_lift r s = (r, s)" "act_read f s = (f s, s)" "act_write g s = (Inr (), g s)"
  by (simp_all add: act_return_def act_lift_def act_read_def act_write_def)

lemma act_bind_eq:
  "act_bind m f s = (case fst (m s) of Inl e \<Rightarrow> (Inl e, snd (m s)) | Inr a \<Rightarrow> f a (snd (m s)))"
  by (cases "m s") (auto simp: act_bind_def split: sum.splits)

lemma act_bind_Inr:
  "act_bind m f s = (Inr b, s') \<longleftrightarrow> (\<exists>a s1. m s = (Inr a, s1) \<and> f a s1 = (Inr b, s'))"
  by (cases "m s") (auto simp: act_bind_def split: sum.splits)

subsection \<open>The local identity and the pre-keys\<close>

definition requireLocalIdentity :: "signal_store \<Rightarrow> signal_error + local_identity" where
  "requireLocalIdentity store =
    (case registrationInfo store of
       None \<Rightarrow> Inl RegistrationMissing
     | Some r \<Rightarrow> rbind (toSerializedKeyPair (identityKeyPair r)) (\<lambda>pair.
         Inr \<lparr>li_regId = registrationId r, staticKeyPair = pair\<rparr>))"

definition requireSignedPreKey :: "signal_store \<Rightarrow> nat \<Rightarrow> signal_error + signed_pre_key" where
  "requireSignedPreKey store n =
    (case getSignedPreKeyById store n of None \<Rightarrow> Inl (SignedPreKeyMissing n) | Some k \<Rightarrow> Inr k)"

definition requirePreKey :: "pre_key_store \<Rightarrow> nat \<Rightarrow> signal_error + pre_key" where
  "requirePreKey store n =
    (case getPreKeyById store n of None \<Rightarrow> Inl (PreKeyMissing n) | Some k \<Rightarrow> Inr k)"

subsection \<open>Outgoing sessions\<close>

record establish_options =
  reuseExisting :: bool
  knownAbsent :: bool
  localIdentity :: "local_identity option"

text \<open>The check for a session to reuse, shared by the two operations that build one.\<close>

definition reusable_session ::
    "signal_address \<Rightarrow> pre_key_bundle \<Rightarrow> establish_options \<Rightarrow> (stores, session option) action" where
  "reusable_session addr remoteBundle options = act_read (\<lambda>s.
    if reuseExisting options \<and> \<not> knownAbsent options then
      (case getSession (st_session s) addr of
         None \<Rightarrow> Inr None
       | Some existing \<Rightarrow>
           rbind (key_result (toSerializedPubKey (pb_identity remoteBundle))) (\<lambda>remoteIdentity.
             if \<not> uint8Equal (peerKey (ss_remote existing)) remoteIdentity then Inl IdentityMismatch
             else Inr (Some existing)))
    else Inr None)"

definition build_session ::
    "crypto \<Rightarrow> curve \<Rightarrow> pre_key_bundle \<Rightarrow> establish_options \<Rightarrow> key_pair \<Rightarrow> key_pair \<Rightarrow> (stores, session) action" where
  "build_session C X remoteBundle options base ratchet =
    act_bind (act_read (\<lambda>s. case localIdentity options of
        Some local \<Rightarrow> Inr local | None \<Rightarrow> requireLocalIdentity (st_signal s))) (\<lambda>local.
    act_bind (act_lift (toSerializedKeyPair base)) (\<lambda>localOneTimeBase.
      act_lift (initiateSessionOutgoing C X local remoteBundle localOneTimeBase ratchet)))"

definition establishOutgoingSession ::
    "crypto \<Rightarrow> curve \<Rightarrow> signal_address \<Rightarrow> pre_key_bundle \<Rightarrow> establish_options \<Rightarrow> key_pair \<Rightarrow> key_pair \<Rightarrow>
      (stores, session) action" where
  "establishOutgoingSession C X addr remoteBundle options base ratchet =
    act_bind (reusable_session addr remoteBundle options) (\<lambda>existing.
      case existing of
        Some v \<Rightarrow> act_return v
      | None \<Rightarrow>
          act_bind (build_session C X remoteBundle options base ratchet) (\<lambda>session.
          act_bind (act_write (\<lambda>s. s\<lparr>st_identity :=
              setRemoteIdentity addr (peerKey (ss_remote session)) (st_identity s)\<rparr>)) (\<lambda>_.
          act_bind (act_write (\<lambda>s. s\<lparr>st_session := setSession addr session (st_session s)\<rparr>)) (\<lambda>_.
            act_return session))))"

record prepared =
  pr_session :: session
  pr_remoteIdentity :: bytes
  pr_reusedExisting :: bool

definition prepareOutgoingSession ::
    "crypto \<Rightarrow> curve \<Rightarrow> signal_address \<Rightarrow> pre_key_bundle \<Rightarrow> establish_options \<Rightarrow> key_pair \<Rightarrow> key_pair \<Rightarrow>
      (stores, prepared) action" where
  "prepareOutgoingSession C X addr remoteBundle options base ratchet =
    act_bind (reusable_session addr remoteBundle options) (\<lambda>existing.
      case existing of
        Some v \<Rightarrow> act_return \<lparr>pr_session = v, pr_remoteIdentity = peerKey (ss_remote v), pr_reusedExisting = True\<rparr>
      | None \<Rightarrow>
          act_bind (build_session C X remoteBundle options base ratchet) (\<lambda>session.
            act_return \<lparr>pr_session = session, pr_remoteIdentity = peerKey (ss_remote session),
              pr_reusedExisting = False\<rparr>))"

text \<open>
  \<open>persistOutgoingSessionsBatch\<close>: the entries for which a session exists by now are resolved to it,
  or skipped when the identities differ; the others are written, identities first.
\<close>

record session_entry =
  se_address :: signal_address
  se_session :: session
  se_remoteIdentity :: bytes

fun sort_entries ::
    "(session_entry \<times> session option) list \<Rightarrow>
      (signal_address \<times> bytes) list \<Rightarrow> (signal_address \<times> session) list \<Rightarrow> (signal_address \<times> session) list \<Rightarrow>
      signal_address list \<Rightarrow>
      (signal_address \<times> bytes) list \<times> (signal_address \<times> session) list \<times> (signal_address \<times> session) list \<times>
      signal_address list" where
  "sort_entries [] ids sessions resolved skipped = (ids, sessions, resolved, skipped)"
| "sort_entries ((entry, current) # rest) ids sessions resolved skipped =
    (case current of
       Some existing \<Rightarrow>
         if uint8Equal (peerKey (ss_remote existing)) (se_remoteIdentity entry)
         then sort_entries rest ids sessions (resolved @ [(se_address entry, existing)]) skipped
         else sort_entries rest ids sessions resolved (skipped @ [se_address entry])
     | None \<Rightarrow>
         sort_entries rest (ids @ [(se_address entry, se_remoteIdentity entry)])
           (sessions @ [(se_address entry, se_session entry)])
           (resolved @ [(se_address entry, se_session entry)]) skipped)"

definition persistOutgoingSessionsBatch ::
    "session_entry list \<Rightarrow> (stores, (signal_address \<times> session) list \<times> signal_address list) action" where
  "persistOutgoingSessionsBatch entries s =
    (if length entries = 0 then (Inr ([], []), s)
     else
       let existingSessions = getSessionsBatch (st_session s) (map se_address entries);
           (ids, sessions, resolved, skipped) = sort_entries (zip entries existingSessions) [] [] [] [];
           s1 = (if 0 < length ids then s\<lparr>st_identity := setRemoteIdentities ids (st_identity s)\<rparr> else s);
           s2 = (if 0 < length sessions then s1\<lparr>st_session := setSessionsBatch sessions (st_session s1)\<rparr> else s1)
       in (Inr (resolved, skipped), s2))"

subsection \<open>Encryption\<close>

record encrypt_request =
  er_address :: signal_address
  er_plaintext :: bytes
  er_expectedIdentity :: "bytes option"

record encrypted =
  en_type :: envelope_type
  en_ciphertext :: bytes
  en_baseKey :: "bytes option"

text \<open>The loop that collects the different addresses, in the order of their first request.\<close>

fun unique_addresses :: "signal_address list \<Rightarrow> jstr set \<Rightarrow> signal_address list" where
  "unique_addresses [] seen = []"
| "unique_addresses (a # rest) seen =
    (if signalAddressKey a \<in> seen then unique_addresses rest seen
     else a # unique_addresses rest (insert (signalAddressKey a) seen))"

text \<open>A stored session has precedence over a prefetched one.\<close>

fun latest_sessions ::
    "(jstr, session) jsmap \<Rightarrow> (signal_address \<times> session option) list \<Rightarrow> (jstr, session) jsmap \<Rightarrow> (jstr, session) jsmap" where
  "latest_sessions prefetched [] latest = latest"
| "latest_sessions prefetched ((a, current) # rest) latest =
    latest_sessions prefetched rest
      (case current of
         Some v \<Rightarrow> map_set (signalAddressKey a) v latest
       | None \<Rightarrow>
           (case map_get prefetched (signalAddressKey a) of
              Some v \<Rightarrow> map_set (signalAddressKey a) v latest
            | None \<Rightarrow> latest))"

record encrypt_progress =
  ep_latest :: "(jstr, session) jsmap"
  ep_sessions :: "(jstr, signal_address \<times> session) jsmap"
  ep_identities :: "(jstr, signal_address \<times> bytes) jsmap"
  ep_results :: "encrypted list"

definition encrypt_one ::
    "crypto \<Rightarrow> signal_proto \<Rightarrow> encrypt_request \<Rightarrow> encrypt_progress \<Rightarrow> signal_error + encrypt_progress" where
  "encrypt_one C P request p =
    (let addressKey = signalAddressKey (er_address request)
     in case map_get (ep_latest p) addressKey of
          None \<Rightarrow> Inl SessionNotFound
        | Some session \<Rightarrow>
            rbind (case er_expectedIdentity request of
                None \<Rightarrow> Inr ()
              | Some k \<Rightarrow> rbind (key_result (toSerializedPubKey k)) (\<lambda>expected.
                  if \<not> uint8Equal expected (peerKey (ss_remote session)) then Inl IdentityMismatch else Inr ()))
            (\<lambda>_. rbind (encryptMsg C P session (er_plaintext request)) (\<lambda>(updatedSession, type, ct).
              Inr \<lparr>ep_latest = map_set addressKey updatedSession (ep_latest p),
                ep_sessions = map_set addressKey (er_address request, updatedSession) (ep_sessions p),
                ep_identities =
                  (if \<not> uint8Equal (peerKey (ss_remote updatedSession)) (peerKey (ss_remote session))
                   then map_set addressKey (er_address request, peerKey (ss_remote updatedSession)) (ep_identities p)
                   else ep_identities p),
                ep_results = ep_results p @
                  [\<lparr>en_type = type, en_ciphertext = ct, en_baseKey = aliceBaseKey updatedSession\<rparr>]\<rparr>)))"

fun encrypt_loop ::
    "crypto \<Rightarrow> signal_proto \<Rightarrow> encrypt_request list \<Rightarrow> encrypt_progress \<Rightarrow> signal_error + encrypt_progress" where
  "encrypt_loop C P [] p = Inr p"
| "encrypt_loop C P (request # rest) p = rbind (encrypt_one C P request p) (encrypt_loop C P rest)"

definition encryptMessagesBatch ::
    "crypto \<Rightarrow> signal_proto \<Rightarrow> encrypt_request list \<Rightarrow> (signal_address \<times> session) list \<Rightarrow>
      (stores, encrypted list) action" where
  "encryptMessagesBatch C P requests prefetchedSessions =
    (if length requests = 0 then act_return []
     else
       let prefetched = fold (\<lambda>(a, v). map_set (signalAddressKey a) v) prefetchedSessions [];
           unique = unique_addresses (map er_address requests) {}
       in act_bind (act_read (\<lambda>s. encrypt_loop C P requests
            \<lparr>ep_latest = latest_sessions prefetched (zip unique (getSessionsBatch (st_session s) unique)) [],
             ep_sessions = [], ep_identities = [], ep_results = []\<rparr>)) (\<lambda>p.
          act_bind (act_write (\<lambda>s.
            if 0 < length (ep_identities p)
            then s\<lparr>st_identity := setRemoteIdentities (map snd (ep_identities p)) (st_identity s)\<rparr> else s)) (\<lambda>_.
          act_bind (act_write (\<lambda>s.
            s\<lparr>st_session := setSessionsBatch (map snd (ep_sessions p)) (st_session s)\<rparr>)) (\<lambda>_.
          act_return (ep_results p)))))"

definition encryptMessage ::
    "crypto \<Rightarrow> signal_proto \<Rightarrow> signal_address \<Rightarrow> bytes \<Rightarrow> bytes option \<Rightarrow> (stores, encrypted) action" where
  "encryptMessage C P addr plaintext expectedIdentity =
    act_bind (encryptMessagesBatch C P
        [\<lparr>er_address = addr, er_plaintext = plaintext, er_expectedIdentity = expectedIdentity\<rparr>] [])
      (\<lambda>results. act_return (hd results))"

subsection \<open>Decryption\<close>

definition decryptPkMsg ::
    "crypto \<Rightarrow> curve \<Rightarrow> session option \<Rightarrow> parsed_pre_key \<Rightarrow> key_pair \<Rightarrow> (stores, decrypt_outcome) action" where
  "decryptPkMsg C X currentSession parsed generated =
    act_bind (act_lift (findMatchingSession currentSession (pk_sessionBaseKey parsed))) (\<lambda>matchingSession.
      case matchingSession of
        Some matching \<Rightarrow>
          act_bind (act_lift (decryptMsgFromSession C X matching parsed generated)) (\<lambda>(updated, plaintext).
            act_return \<lparr>do_updatedSession = updated, do_plaintext = plaintext, do_newSessionInfo = None\<rparr>)
      | None \<Rightarrow>
          act_bind (act_read (\<lambda>s. requireLocalIdentity (st_signal s))) (\<lambda>local.
          act_bind (act_read (\<lambda>s. requireSignedPreKey (st_signal s) (pk_localSignedPreKeyId parsed))) (\<lambda>signedPreKey.
          act_bind (act_read (\<lambda>s. case pk_localOneTimeKeyId parsed of
              None \<Rightarrow> Inr None
            | Some n \<Rightarrow> rbind (requirePreKey (st_preKey s) n) (\<lambda>k. Inr (Some k)))) (\<lambda>oneTimePreKey.
          act_bind (act_lift (toSerializedKeyPair (spk_keyPair signedPreKey))) (\<lambda>signedPair.
          act_bind (act_lift (case oneTimePreKey of
              None \<Rightarrow> Inr None
            | Some k \<Rightarrow> rbind (toSerializedKeyPair (pkr_keyPair k)) (\<lambda>p. Inr (Some p)))) (\<lambda>oneTimePair.
          act_bind (act_lift (initiateSessionIncoming C X local (pk_remote parsed) (pk_sessionBaseKey parsed)
              \<lparr>ik_signed = signedPair, ik_oneTime = oneTimePair, ik_ratchet = signedPair\<rparr>)) (\<lambda>incoming.
          let identityUpdate =
                (case currentSession of
                   None \<Rightarrow> Some (peerKey (ss_remote incoming))
                 | Some current \<Rightarrow>
                     if \<not> uint8Equal (peerKey (ss_remote incoming)) (peerKey (ss_remote current))
                     then Some (peerKey (ss_remote incoming)) else None);
              base =
                (case currentSession of
                   None \<Rightarrow> incoming
                 | Some current \<Rightarrow> incoming\<lparr>prevSessions :=
                     encodeSignalSessionSnapshot current # take (MAX_PREV_SESSIONS - 1) (prevSessions current)\<rparr>)
          in act_bind (act_lift (decryptMsgFromSession C X base parsed generated)) (\<lambda>(updated, plaintext).
             act_bind (act_write (\<lambda>s. case pk_localOneTimeKeyId parsed of
                 None \<Rightarrow> s
               | Some n \<Rightarrow> s\<lparr>st_preKey := snd (consumePreKeyById n (st_preKey s))\<rparr>)) (\<lambda>_.
             act_return \<lparr>do_updatedSession = updated, do_plaintext = plaintext,
               do_newSessionInfo = Some \<lparr>newIdentity = identityUpdate, baseSession = base,
                 usedPreKey = pk_localOneTimeKeyId parsed\<rparr>\<rparr>)))))))))"

record envelope =
  ev_type :: envelope_type
  ev_ciphertext :: bytes

definition decryptMessage ::
    "crypto \<Rightarrow> curve \<Rightarrow> signal_proto \<Rightarrow> signal_address \<Rightarrow> envelope \<Rightarrow> (nat \<Rightarrow> key_pair) \<Rightarrow> (stores, bytes) action" where
  "decryptMessage C X P addr env generated =
    act_bind (act_read (\<lambda>s. Inr (getSession (st_session s) addr))) (\<lambda>currentSession.
    act_bind (case ev_type env of
        PkMsg \<Rightarrow>
          act_bind (act_lift (deserializePkMsg P (ev_ciphertext env))) (\<lambda>parsed.
            decryptPkMsg C X currentSession parsed (generated 0))
      | Msg \<Rightarrow>
          act_bind (act_lift (deserializeMsg P (ev_ciphertext env))) (\<lambda>parsed.
            act_lift (decryptMsg C X currentSession parsed generated))) (\<lambda>outcome.
      let nextRemoteIdentity =
            (case do_newSessionInfo outcome of
               Some info \<Rightarrow>
                 (case newIdentity info of
                    Some k \<Rightarrow> k
                  | None \<Rightarrow> peerKey (ss_remote (do_updatedSession outcome)))
             | None \<Rightarrow> peerKey (ss_remote (do_updatedSession outcome)));
          identityChanged =
            (case currentSession of
               None \<Rightarrow> True
             | Some current \<Rightarrow> \<not> uint8Equal (peerKey (ss_remote current)) nextRemoteIdentity)
      in act_bind (act_write (\<lambda>s.
           if identityChanged then s\<lparr>st_identity := setRemoteIdentity addr nextRemoteIdentity (st_identity s)\<rparr>
           else s)) (\<lambda>_.
         act_bind (act_write (\<lambda>s.
           s\<lparr>st_session := setSession addr (do_updatedSession outcome) (st_session s)\<rparr>)) (\<lambda>_.
         act_return (do_plaintext outcome)))))"

end
