(* ===== verification/ProtocolProperties.thy ===== *)
theory ProtocolProperties
  imports SignalProtocol
begin

text \<open>
  What the operations of \<open>SignalProtocol\<close> do to the stores: they keep the stores within their
  limits and the stored identities in agreement with the stored sessions; a decryption that fails
  leaves no trace; a batch of encryptions is the encryptions one by one.
\<close>

subsection \<open>Address stores\<close>

interpretation addresses: kv_store
  "\<lambda>s k. map_get (as_entries s) k"
  "\<lambda>k v s. s\<lparr>as_entries := fst (setBoundedMapEntry k v (as_max s) (as_entries s))\<rparr>"
  address_store_ok
proof
  fix s :: "'b address_store" and k k' :: jstr and v
  assume "address_store_ok s"
  then have "jsmap_ok (as_entries s)" "0 < as_max s" by (simp_all add: address_store_ok_def)
  note bounded = setBoundedMapEntry_get [OF this]
  let ?s = "s\<lparr>as_entries := fst (setBoundedMapEntry k v (as_max s) (as_entries s))\<rparr>"
  show "address_store_ok ?s"
    using \<open>address_store_ok s\<close> by (simp add: address_store_ok_def bounded(3,4))
  show "map_get (as_entries ?s) k = Some v" by (simp add: bounded(1))
  show "k' \<noteq> k \<Longrightarrow> map_get (as_entries ?s) k' \<in> {None, map_get (as_entries s) k'}"
    using bounded(2) by simp
qed

lemma address_get_set_cases:
  assumes "address_store_ok s" "address_get (address_set a v s) b = Some w"
  shows "(signalAddressKey b = signalAddressKey a \<and> w = v) \<or>
    (signalAddressKey b \<noteq> signalAddressKey a \<and> address_get s b = Some w)"
  using addresses.get_put_cases [OF assms(1), of "signalAddressKey a" v "signalAddressKey b" w]
    addresses.get_put [OF assms(1), of "signalAddressKey a" v] assms(2)
  by (cases "signalAddressKey b = signalAddressKey a") (auto simp: address_get_def address_set_def)

text \<open>No stored session has another identity than the stored one.\<close>

definition identities_match :: "session_store \<Rightarrow> identity_store \<Rightarrow> bool" where
  "identities_match sessions ids \<longleftrightarrow> (\<forall>a v k. getSession sessions a = Some v \<longrightarrow>
    getRemoteIdentity ids a = Some k \<longrightarrow> k = peerKey (ss_remote v))"

definition stores_ok :: "stores \<Rightarrow> bool" where
  "stores_ok s \<longleftrightarrow> address_store_ok (st_session s) \<and> address_store_ok (st_identity s) \<and>
    pre_key_store_ok (st_preKey s) \<and> identities_match (st_session s) (st_identity s)"

lemmas session_access = getSession_def setSession_def getRemoteIdentity_def setRemoteIdentity_def

lemma match_write:
  assumes "address_store_ok ss" "address_store_ok ids" "identities_match ss ids"
  shows "identities_match (setSession a v ss) (setRemoteIdentity a (peerKey (ss_remote v)) ids)"
  unfolding identities_match_def session_access
proof (intro allI impI)
  fix b w k
  assume "address_get (address_set a v ss) b = Some w"
    "address_get (address_set a (peerKey (ss_remote v)) ids) b = Some k"
  then show "k = peerKey (ss_remote w)"
    using address_get_set_cases [OF assms(1)] address_get_set_cases [OF assms(2)] assms(3)
    unfolding identities_match_def session_access by blast
qed

text \<open>A session with the identity of the one it replaces.\<close>

lemma match_update:
  assumes "address_store_ok ss" "identities_match ss ids" "getSession ss a = Some old"
    "peerKey (ss_remote v) = peerKey (ss_remote old)"
  shows "identities_match (setSession a v ss) ids"
  unfolding identities_match_def session_access
proof (intro allI impI)
  fix b w k
  assume get: "address_get (address_set a v ss) b = Some w" "address_get ids b = Some k"
  show "k = peerKey (ss_remote w)"
  proof (cases "signalAddressKey b = signalAddressKey a")
    case True
    then have "address_get ss b = Some old" using assms(3) by (simp add: session_access address_get_def)
    with get address_get_set_cases [OF assms(1) get(1)] True assms(2,4) show ?thesis
      unfolding identities_match_def session_access by metis
  next
    case False
    with get address_get_set_cases [OF assms(1) get(1)] assms(2) show ?thesis
      unfolding identities_match_def session_access by blast
  qed
qed

lemma address_folds_ok:
  "address_store_ok ss \<Longrightarrow> address_store_ok (setSessionsBatch vs ss)"
  "address_store_ok ids \<Longrightarrow> address_store_ok (setRemoteIdentities ks ids)"
  unfolding setSessionsBatch_def setRemoteIdentities_def
  by (induction vs arbitrary: ss, simp_all add: split_beta setSession_def address_set_get(1))
    (induction ks arbitrary: ids, simp_all add: split_beta setRemoteIdentity_def address_set_get(1))

lemma match_writes:
  assumes "address_store_ok ss" "address_store_ok ids" "identities_match ss ids"
  shows "identities_match (setSessionsBatch vs ss)
    (setRemoteIdentities (map (\<lambda>(a, v). (a, peerKey (ss_remote v))) vs) ids)"
proof (induction vs rule: rev_induct)
  case Nil
  show ?case using assms(3) by (simp add: setSessionsBatch_def setRemoteIdentities_def)
next
  case (snoc e vs)
  from match_write [OF address_folds_ok(1) [OF assms(1)] address_folds_ok(2) [OF assms(2)] this, of "fst e" "snd e"]
  show ?case by (simp add: setSessionsBatch_def setRemoteIdentities_def split_beta)
qed

subsection \<open>What decryption returns\<close>

lemma decryptMsgFromSession_remote:
  "decryptMsgFromSession C X s m g = Inr (s', pt) \<Longrightarrow> ss_remote s' = ss_remote s"
  by (auto simp: decryptMsgFromSession_def ratchet_step_def known_chain_step_def rbind_eq_Inr_iff
      split: option.splits)

definition outcome_identity :: "decrypt_outcome \<Rightarrow> bytes" where
  "outcome_identity d =
    (case do_newSessionInfo d of
       Some info \<Rightarrow> (case newIdentity info of Some k \<Rightarrow> k | None \<Rightarrow> peerKey (ss_remote (do_updatedSession d)))
     | None \<Rightarrow> peerKey (ss_remote (do_updatedSession d)))"

lemma try_previous_identity:
  "try_previous C X s m g i raws = Some d \<Longrightarrow> outcome_identity d = peerKey (ss_remote (do_updatedSession d))"
  by (induction C X s m g i raws rule: try_previous.induct)
    (auto simp: outcome_identity_def split: sum.splits if_splits)

lemma decryptMsg_identity:
  "decryptMsg C X s m g = Inr d \<Longrightarrow> outcome_identity d = peerKey (ss_remote (do_updatedSession d))"
  by (auto simp: decryptMsg_def outcome_identity_def dest: try_previous_identity
      split: option.splits sum.splits)

text \<open>
  A pre-key message that opens a new session uses up the one-time key it names, and nothing else
  touches the stores.
\<close>

definition uses_pre_key :: "parsed_pre_key \<Rightarrow> session option \<Rightarrow> stores \<Rightarrow> stores \<Rightarrow> bool" where
  "uses_pre_key parsed current s s' \<longleftrightarrow>
    (case pk_localOneTimeKeyId parsed of
       None \<Rightarrow> s' = s
     | Some n \<Rightarrow>
         if findMatchingSession current (pk_sessionBaseKey parsed) = Inr None
         then getPreKeyById (st_preKey s) n \<noteq> None \<and>
           s' = s\<lparr>st_preKey := snd (consumePreKeyById n (st_preKey s))\<rparr>
         else s' = s)"

lemma decryptPkMsg_cases:
  assumes "decryptPkMsg C X current parsed g s = (r, s')"
  shows "case r of
      Inl e \<Rightarrow> s' = s
    | Inr d \<Rightarrow> outcome_identity d = peerKey (ss_remote (do_updatedSession d)) \<and> uses_pre_key parsed current s s'"
  using assms
  by (auto simp: decryptPkMsg_def act_bind_eq Let_def uses_pre_key_def outcome_identity_def rbind_eq_Inr_iff
      requirePreKey_def uint8Equal_iff dest!: decryptMsgFromSession_remote split: sum.splits option.splits if_splits)

text \<open>The message of an envelope, and what its decryption changes in the stores.\<close>

definition decrypted_stores :: "signal_proto \<Rightarrow> signal_address \<Rightarrow> envelope \<Rightarrow> stores \<Rightarrow> stores \<Rightarrow> bool" where
  "decrypted_stores P addr env s s' \<longleftrightarrow>
    (\<exists>updated s1. (case ev_type env of
         Msg \<Rightarrow> s1 = s
       | PkMsg \<Rightarrow> \<exists>parsed. deserializePkMsg P (ev_ciphertext env) = Inr parsed \<and>
           uses_pre_key parsed (getSession (st_session s) addr) s s1) \<and>
      s' = s1\<lparr>st_session := setSession addr updated (st_session s),
        st_identity :=
          (case getSession (st_session s) addr of
             Some current \<Rightarrow>
               if peerKey (ss_remote current) = peerKey (ss_remote updated) then st_identity s
               else setRemoteIdentity addr (peerKey (ss_remote updated)) (st_identity s)
           | None \<Rightarrow> setRemoteIdentity addr (peerKey (ss_remote updated)) (st_identity s))\<rparr>)"

lemma uses_pre_key_stores:
  "uses_pre_key parsed current s s1 \<Longrightarrow> st_session s1 = st_session s \<and> st_identity s1 = st_identity s"
  by (auto simp: uses_pre_key_def split: option.splits if_splits)

lemma decryptMessage_cases:
  assumes "decryptMessage C X P addr env g s = (r, s')"
  shows "case r of Inl e \<Rightarrow> s' = s | Inr pt \<Rightarrow> decrypted_stores P addr env s s'"
proof -
  let ?current = "getSession (st_session s) addr"
  define m where "m = (case ev_type env of
      PkMsg \<Rightarrow> act_bind (act_lift (deserializePkMsg P (ev_ciphertext env))) (\<lambda>parsed. decryptPkMsg C X ?current parsed (g 0))
    | Msg \<Rightarrow> act_bind (act_lift (deserializeMsg P (ev_ciphertext env))) (\<lambda>parsed. act_lift (decryptMsg C X ?current parsed g)))"
  obtain q s1 where q: "m s = (q, s1)" by (cases "m s")
  have inner: "case q of
      Inl e \<Rightarrow> s1 = s
    | Inr d \<Rightarrow> outcome_identity d = peerKey (ss_remote (do_updatedSession d)) \<and>
        (case ev_type env of
           Msg \<Rightarrow> s1 = s
         | PkMsg \<Rightarrow> \<exists>parsed. deserializePkMsg P (ev_ciphertext env) = Inr parsed \<and> uses_pre_key parsed ?current s s1)"
    using q by (auto simp: m_def act_bind_eq dest: decryptMsg_identity decryptPkMsg_cases
        split: envelope_type.splits sum.splits)
  have run: "decryptMessage C X P addr env g s =
      (case q of
         Inl e \<Rightarrow> (Inl e, s1)
       | Inr d \<Rightarrow>
           (Inr (do_plaintext d), s1\<lparr>st_identity :=
               (if case ?current of None \<Rightarrow> True
                   | Some current \<Rightarrow> \<not> uint8Equal (peerKey (ss_remote current)) (outcome_identity d)
                then setRemoteIdentity addr (outcome_identity d) (st_identity s1) else st_identity s1),
             st_session := setSession addr (do_updatedSession d) (st_session s1)\<rparr>))"
    using q by (simp add: decryptMessage_def act_bind_eq m_def [symmetric] outcome_identity_def Let_def
        split: sum.splits option.splits)
  show ?thesis
  proof (cases q)
    case (Inl e)
    with run inner assms show ?thesis by auto
  next
    case (Inr d)
    then have id: "outcome_identity d = peerKey (ss_remote (do_updatedSession d))" using inner by simp
    have same: "st_session s1 = st_session s" "st_identity s1 = st_identity s"
      using inner Inr uses_pre_key_stores by (auto split: envelope_type.splits)
    have r: "r = Inr (do_plaintext d)" using assms run Inr by simp
    have "decrypted_stores P addr env s s'" unfolding decrypted_stores_def
      using assms run Inr inner
      by (intro exI [of _ "do_updatedSession d"] exI [of _ s1])
        (auto simp: id same uint8Equal_iff split: option.splits)
    with r show ?thesis by simp
  qed
qed

subsection \<open>Encryption, one request\<close>

lemma encryptMsg_remote: "encryptMsg C P v pt = Inr (v', t, ct) \<Longrightarrow> ss_remote v' = ss_remote v"
  unfolding encryptMsg_def rbind_def Let_def
  by (auto split: sum.split_asm option.split_asm prod.split_asm)

definition encrypt_step ::
    "crypto \<Rightarrow> signal_proto \<Rightarrow> session \<Rightarrow> encrypt_request \<Rightarrow> signal_error + session \<times> encrypted" where
  "encrypt_step C P v r =
    rbind (case er_expectedIdentity r of
        None \<Rightarrow> Inr ()
      | Some k \<Rightarrow> rbind (key_result (toSerializedPubKey k)) (\<lambda>expected.
          if \<not> uint8Equal expected (peerKey (ss_remote v)) then Inl IdentityMismatch else Inr ()))
    (\<lambda>_. rbind (encryptMsg C P v (er_plaintext r)) (\<lambda>(v', t, ct).
      Inr (v', \<lparr>en_type = t, en_ciphertext = ct, en_baseKey = aliceBaseKey v'\<rparr>)))"

lemma encrypt_step_remote: "encrypt_step C P v r = Inr (v', e) \<Longrightarrow> ss_remote v' = ss_remote v"
  by (auto simp: encrypt_step_def rbind_eq_Inr_iff dest: encryptMsg_remote)

definition with_update :: "signal_address \<Rightarrow> session \<Rightarrow> encrypted \<Rightarrow> encrypt_progress \<Rightarrow> encrypt_progress" where
  "with_update a v e p = p\<lparr>ep_latest := map_set (signalAddressKey a) v (ep_latest p),
    ep_sessions := map_set (signalAddressKey a) (a, v) (ep_sessions p), ep_results := ep_results p @ [e]\<rparr>"

lemma encrypt_one_eq:
  "encrypt_one C P r p =
    (case map_get (ep_latest p) (signalAddressKey (er_address r)) of
       None \<Rightarrow> Inl SessionNotFound
     | Some v \<Rightarrow> rbind (encrypt_step C P v r) (\<lambda>(v', e). Inr (with_update (er_address r) v' e p)))"
proof (cases "map_get (ep_latest p) (signalAddressKey (er_address r))")
  case (Some v)
  show ?thesis
  proof (cases "encryptMsg C P v (er_plaintext r)")
    case (Inr x)
    obtain v' t ct where x: "x = (v', t, ct)" by (cases x)
    from Inr x have "ss_remote v' = ss_remote v" by (simp add: encryptMsg_remote)
    with Some Inr x show ?thesis
      by (cases p; cases "er_expectedIdentity r")
        (simp_all add: encrypt_one_def encrypt_step_def with_update_def uint8Equal_iff rbind_assoc Let_def)
  qed (use Some in \<open>cases "er_expectedIdentity r", simp_all add: encrypt_one_def encrypt_step_def rbind_assoc Let_def\<close>)
qed (simp add: encrypt_one_def)

lemma encryptMessage_eq:
  assumes "getSession (st_session s) (er_address r) = Some v"
  shows "encryptMessage C P (er_address r) (er_plaintext r) (er_expectedIdentity r) s =
    (case encrypt_step C P v r of
       Inl e \<Rightarrow> (Inl e, s)
     | Inr (v', e) \<Rightarrow> (Inr e, s\<lparr>st_session := setSession (er_address r) v' (st_session s)\<rparr>))"
proof -
  have "encrypt_step C P v \<lparr>er_address = er_address r, er_plaintext = er_plaintext r,
      er_expectedIdentity = er_expectedIdentity r\<rparr> = encrypt_step C P v r"
    by (simp add: encrypt_step_def)
  with assms show ?thesis
    by (cases "encrypt_step C P v r")
      (auto simp: encryptMessage_def encryptMessagesBatch_def act_bind_eq getSessionsBatch_def map_get_def
        map_set_def encrypt_one_eq with_update_def setSessionsBatch_def Let_def)
qed

subsection \<open>Encryption, a batch\<close>

lemma unique_addresses_keys:
  "signalAddressKey ` set (unique_addresses as seen) = signalAddressKey ` set as - seen"
  by (induction as seen rule: unique_addresses.induct) auto

lemma getSession_key: "signalAddressKey a = signalAddressKey b \<Longrightarrow> getSession s a = getSession s b"
  by (simp add: getSession_def address_get_def)

lemma latest_sessions_get:
  "map_get (latest_sessions pre (zip us (getSessionsBatch s us)) L) (signalAddressKey b) =
    (if signalAddressKey b \<in> signalAddressKey ` set us
     then (case getSession s b of
             Some v \<Rightarrow> Some v
           | None \<Rightarrow> (case map_get pre (signalAddressKey b) of Some v \<Rightarrow> Some v | None \<Rightarrow> map_get L (signalAddressKey b)))
     else map_get L (signalAddressKey b))"
proof (induction us arbitrary: L)
  case (Cons u us)
  then show ?case
    using getSession_key [of b u s]
    by (cases "signalAddressKey b = signalAddressKey u")
      (auto simp: getSessionsBatch_def split: option.splits)
qed (simp add: getSessionsBatch_def)

lemma setSessionsBatch_get:
  assumes "address_store_ok s" "jsmap_ok es" "\<forall>(k, a, v) \<in> set es. k = signalAddressKey a \<and> getSession s a \<noteq> None"
  shows "getSession (setSessionsBatch (map snd es) s) b =
    (case map_get es (signalAddressKey b) of Some (_, v) \<Rightarrow> Some v | None \<Rightarrow> getSession s b)"
  using assms
proof (induction es arbitrary: s)
  case (Cons e es)
  obtain k a v where e: "e = (k, a, v)" by (cases e)
  with Cons.prems(3) have a: "k = signalAddressKey a" "getSession s a \<noteq> None" by auto
  then have rep: "getSession (setSession a v s) c =
      (if signalAddressKey c = signalAddressKey a then Some v else getSession s c)" for c
    using address_set_replace [OF Cons.prems(1)] by (simp add: session_access)
  have "\<forall>(k', c, w) \<in> set es. k' = signalAddressKey c \<and> getSession (setSession a v s) c \<noteq> None"
    using Cons.prems(3) by (auto simp: rep)
  moreover have "address_store_ok (setSession a v s)"
    using address_set_get(1) [OF Cons.prems(1)] by (simp add: setSession_def)
  moreover have "jsmap_ok es" "map_get es k = None"
    using Cons.prems(2) by (auto simp: jsmap_ok_def e map_get_def map_of_eq_None_iff)
  ultimately show ?case
    using Cons.IH [of "setSession a v s"] a
    by (auto simp: e setSessionsBatch_def rep map_get_def split: option.splits)
qed (simp add: setSessionsBatch_def map_get_def)

text \<open>The requests one by one, the first error ending the run.\<close>

fun encrypt_each :: "crypto \<Rightarrow> signal_proto \<Rightarrow> encrypt_request list \<Rightarrow> (stores, encrypted list) action" where
  "encrypt_each C P [] = act_return []"
| "encrypt_each C P (r # rs) =
    act_bind (encryptMessage C P (er_address r) (er_plaintext r) (er_expectedIdentity r)) (\<lambda>e.
    act_bind (encrypt_each C P rs) (\<lambda>es. act_return (e # es)))"

text \<open>A batch in progress against the stores after the same requests one by one.\<close>

definition in_step :: "stores \<Rightarrow> encrypt_request list \<Rightarrow> encrypt_progress \<Rightarrow> stores \<Rightarrow> bool" where
  "in_step s rs p s' \<longleftrightarrow> address_store_ok (st_session s') \<and> jsmap_ok (ep_sessions p) \<and> ep_identities p = [] \<and>
    (\<forall>(k, a, v) \<in> set (ep_sessions p). k = signalAddressKey a \<and> getSession (st_session s) a \<noteq> None) \<and>
    (\<forall>b. getSession (st_session s') b =
      (case map_get (ep_sessions p) (signalAddressKey b) of Some (_, v) \<Rightarrow> Some v | None \<Rightarrow> getSession (st_session s) b)) \<and>
    (\<forall>r \<in> set rs. map_get (ep_latest p) (signalAddressKey (er_address r)) = getSession (st_session s') (er_address r) \<and>
      getSession (st_session s) (er_address r) \<noteq> None)"

lemma map_set_in: "(k', w) \<in> set (map_set k v m) \<Longrightarrow> (k' = k \<and> w = v) \<or> (k', w) \<in> set m"
  unfolding map_set_def by (induction m) (auto split: if_splits)

lemma in_step_update:
  assumes "in_step s (r # rs) p s'"
  shows "in_step s rs (with_update (er_address r) v' e p)
    (s'\<lparr>st_session := setSession (er_address r) v' (st_session s')\<rparr>)"
proof -
  let ?a = "er_address r" and ?S = "st_session s'"
  have ok: "address_store_ok ?S" and there: "getSession (st_session s) ?a \<noteq> None"
    and get: "\<And>b. getSession ?S b =
      (case map_get (ep_sessions p) (signalAddressKey b) of Some (_, v) \<Rightarrow> Some v | None \<Rightarrow> getSession (st_session s) b)"
    using assms unfolding in_step_def by auto
  have "getSession ?S ?a \<noteq> None" using there by (auto simp: get split: option.splits)
  then have rep: "getSession (setSession ?a v' ?S) c =
      (if signalAddressKey c = signalAddressKey ?a then Some v' else getSession ?S c)" for c
    using address_set_replace [OF ok] by (simp add: session_access)
  have sess: "k = signalAddressKey a \<and> getSession (st_session s) a \<noteq> None"
    if "(k, a, v) \<in> set (map_set (signalAddressKey ?a) (?a, v') (ep_sessions p))" for k a v
    using map_set_in [OF that] assms there unfolding in_step_def by auto
  have "jsmap_ok (map_set (signalAddressKey ?a) (?a, v') (ep_sessions p))"
    using assms unfolding in_step_def by simp
  with assms sess address_set_get(1) [OF ok] rep show ?thesis
    unfolding in_step_def by (auto simp: with_update_def get setSession_def [symmetric])
qed

text \<open>Everything but the sessions.\<close>

definition same_but_sessions :: "stores \<Rightarrow> stores \<Rightarrow> bool" where
  "same_but_sessions s s' \<longleftrightarrow> st_signal s' = st_signal s \<and> st_preKey s' = st_preKey s \<and> st_identity s' = st_identity s"

lemma encrypt_loop_in_step:
  "in_step s rs p s' \<Longrightarrow>
    case encrypt_loop C P rs p of
      Inl e \<Rightarrow> \<exists>s''. encrypt_each C P rs s' = (Inl e, s'')
    | Inr p' \<Rightarrow> \<exists>s'' es. encrypt_each C P rs s' = (Inr es, s'') \<and> ep_results p' = ep_results p @ es \<and>
        in_step s [] p' s'' \<and> same_but_sessions s' s''"
proof (induction rs arbitrary: p s')
  case Nil
  then show ?case by (simp add: same_but_sessions_def)
next
  case (Cons r rs)
  have "map_get (ep_latest p) (signalAddressKey (er_address r)) = getSession (st_session s') (er_address r)"
    "getSession (st_session s') (er_address r) \<noteq> None"
    using Cons.prems unfolding in_step_def by (auto split: option.splits)
  then obtain v where v: "map_get (ep_latest p) (signalAddressKey (er_address r)) = Some v"
    "getSession (st_session s') (er_address r) = Some v" by auto
  show ?case
  proof (cases "encrypt_step C P v r")
    case (Inl e)
    with v show ?thesis by (simp add: encrypt_one_eq encryptMessage_eq act_bind_eq)
  next
    case (Inr x)
    obtain v' enc where x: "x = (v', enc)" by (cases x)
    note ih = Cons.IH [OF in_step_update [OF Cons.prems, of v' enc]]
    from v Inr x have run: "encryptMessage C P (er_address r) (er_plaintext r) (er_expectedIdentity r) s' =
        (Inr enc, s'\<lparr>st_session := setSession (er_address r) v' (st_session s')\<rparr>)"
      by (simp add: encryptMessage_eq)
    from v Inr x have one: "encrypt_one C P r p = Inr (with_update (er_address r) v' enc p)"
      by (simp add: encrypt_one_eq)
    show ?thesis
      using ih by (auto simp: one run act_bind_eq with_update_def same_but_sessions_def split: sum.splits)
  qed
qed

lemma in_step_start:
  assumes "address_store_ok (st_session s)" "\<forall>r \<in> set rs. getSession (st_session s) (er_address r) \<noteq> None"
  defines "unique \<equiv> unique_addresses (map er_address rs) {}"
  shows "in_step s rs \<lparr>ep_latest = latest_sessions pre (zip unique (getSessionsBatch (st_session s) unique)) [],
    ep_sessions = [], ep_identities = [], ep_results = []\<rparr> s"
  using assms(1,2) unfolding in_step_def unique_def
  by (auto simp: latest_sessions_get unique_addresses_keys jsmap_ok_def map_get_Nil)

definition sample_address :: signal_address where
  "sample_address = \<lparr>user = js ''1'', server = None, device = 0\<rparr>"

definition sample_stores :: stores where
  "sample_stores = \<lparr>st_signal = new_signal_store, st_preKey = sample_uploaded_store [1] {1},
     st_session = \<lparr>as_entries = [(signalAddressKey sample_address, sample_session)], as_max = 2\<rparr>,
     st_identity = \<lparr>as_entries = [(signalAddressKey sample_address, peerKey (ss_remote sample_session))], as_max = 2\<rparr>\<rparr>"

lemma sample_stores_session:
  "address_store_ok (st_session sample_stores)" "getSession (st_session sample_stores) sample_address = Some sample_session"
  by (simp_all add: sample_stores_def address_store_ok_def jsmap_ok_def session_access address_get_def map_get_def)

lemma sample_stores_ok: "stores_ok sample_stores"
proof -
  have "address_store_ok (st_identity sample_stores)" "pre_key_store_ok (st_preKey sample_stores)"
    by (simp_all add: sample_stores_def address_store_ok_def jsmap_ok_def pre_key_store_ok_def sample_uploaded_store_def
        sample_pre_key_def)
  moreover have "identities_match (st_session sample_stores) (st_identity sample_stores)"
    by (auto simp: identities_match_def sample_stores_def session_access address_get_def map_get_def split: if_splits)
  ultimately show ?thesis using sample_stores_session(1) by (simp add: stores_ok_def)
qed

definition sample_request :: "bytes \<Rightarrow> encrypt_request" where
  "sample_request pt = \<lparr>er_address = sample_address, er_plaintext = pt, er_expectedIdentity = None\<rparr>"

text \<open>
  C32: Encrypting a batch of messages is encrypting them one after the other: when every address has
  a session, the batch returns the same ciphertexts, or the same error, as the messages one by one,
  also when an address occurs several times, and leaves every session as they do although each one is
  written only once; a batch that fails leaves the stores as they were.
\<close>

theorem batch_encrypts_in_order:
  assumes "address_store_ok (st_session s)" "\<forall>r \<in> set requests. getSession (st_session s) (er_address r) \<noteq> None"
    "encryptMessagesBatch C P requests prefetched s = (r, s')"
  shows "case r of
      Inl e \<Rightarrow> s' = s \<and> fst (encrypt_each C P requests s) = Inl e
    | Inr es \<Rightarrow> fst (encrypt_each C P requests s) = Inr es \<and>
        (\<forall>a. getSession (st_session s') a = getSession (st_session (snd (encrypt_each C P requests s))) a) \<and>
        same_but_sessions s s' \<and> same_but_sessions s (snd (encrypt_each C P requests s))"
proof (cases "requests = []")
  case True
  with assms(3) show ?thesis by (auto simp: encryptMessagesBatch_def same_but_sessions_def)
next
  case False
  define pre where "pre = fold (\<lambda>(a, v). map_set (signalAddressKey a) v) prefetched []"
  define unique where "unique = unique_addresses (map er_address requests) {}"
  define start where "start = \<lparr>ep_latest = latest_sessions pre (zip unique (getSessionsBatch (st_session s) unique)) [],
    ep_sessions = [], ep_identities = [], ep_results = []\<rparr>"
  have "in_step s requests start s" unfolding start_def unique_def by (rule in_step_start [OF assms(1,2)])
  note loop = encrypt_loop_in_step [OF this, of C P]
  have batch: "encryptMessagesBatch C P requests prefetched s =
    (case encrypt_loop C P requests start of
       Inl e \<Rightarrow> (Inl e, s)
     | Inr p \<Rightarrow> (Inr (ep_results p), (if 0 < length (ep_identities p)
           then s\<lparr>st_identity := setRemoteIdentities (map snd (ep_identities p)) (st_identity s)\<rparr> else s)
         \<lparr>st_session := setSessionsBatch (map snd (ep_sessions p)) (st_session s)\<rparr>))"
    using False by (simp add: encryptMessagesBatch_def act_bind_eq start_def unique_def pre_def Let_def split: sum.split)
  show ?thesis
  proof (cases "encrypt_loop C P requests start")
    case (Inl e)
    with batch assms(3) loop show ?thesis by auto
  next
    case (Inr p)
    with loop obtain s'' es where each: "encrypt_each C P requests s = (Inr es, s'')"
      "ep_results p = es" "in_step s [] p s''" "same_but_sessions s s''" by (auto simp: start_def)
    have "getSession (setSessionsBatch (map snd (ep_sessions p)) (st_session s)) a = getSession (st_session s'') a" for a
      using each(3) setSessionsBatch_get [OF assms(1), of "ep_sessions p" a] unfolding in_step_def by simp
    moreover have "ep_identities p = []" using each(3) by (simp add: in_step_def)
    ultimately show ?thesis using batch assms(3) Inr each by (auto simp: same_but_sessions_def)
  qed
qed

theorem batch_encrypts_in_order_witness:
  "fst (encryptMessagesBatch sample_crypto sample_proto [sample_request [1], sample_request [2]] [] sample_stores) =
    fst (encrypt_each sample_crypto sample_proto [sample_request [1], sample_request [2]] sample_stores)"
proof -
  let ?rs = "[sample_request [1], sample_request [2]]"
  obtain r s' where run: "encryptMessagesBatch sample_crypto sample_proto ?rs [] sample_stores = (r, s')"
    by (cases "encryptMessagesBatch sample_crypto sample_proto ?rs [] sample_stores")
  have "\<forall>r \<in> set ?rs. getSession (st_session sample_stores) (er_address r) \<noteq> None"
    by (simp add: sample_request_def sample_stores_session)
  from batch_encrypts_in_order [OF sample_stores_session(1) this run] run show ?thesis
    by (auto split: sum.splits)
qed

subsection \<open>The operations on the stores\<close>

lemma consumePreKeyById_ok: "pre_key_store_ok s \<Longrightarrow> pre_key_store_ok (snd (consumePreKeyById n s))"
  by (auto simp: pre_key_store_ok_def consumePreKeyById_def map_delete_def jsmap_ok_def distinct_map_filter
      intro: le_trans [OF length_filter_le] split: option.splits)

lemma getPreKeyById_consume:
  "getPreKeyById (snd (consumePreKeyById n s)) k = (if k = n then None else getPreKeyById s k)"
  by (auto simp: getPreKeyById_def consumePreKeyById_def split: option.splits)

text \<open>The one-time key that a message names and that its new session is built from.\<close>

definition named_pre_key :: "signal_proto \<Rightarrow> signal_address \<Rightarrow> envelope \<Rightarrow> stores \<Rightarrow> nat option" where
  "named_pre_key P addr env s =
    (case (ev_type env, deserializePkMsg P (ev_ciphertext env)) of
       (PkMsg, Inr parsed) \<Rightarrow>
         if findMatchingSession (getSession (st_session s) addr) (pk_sessionBaseKey parsed) = Inr None
         then pk_localOneTimeKeyId parsed else None
     | _ \<Rightarrow> None)"

lemma uses_pre_key_get:
  "uses_pre_key parsed current s s1 \<Longrightarrow> st_signal s1 = st_signal s \<and>
    (\<forall>n. getPreKeyById (st_preKey s1) n =
      (if findMatchingSession current (pk_sessionBaseKey parsed) = Inr None \<and> pk_localOneTimeKeyId parsed = Some n
       then None else getPreKeyById (st_preKey s) n)) \<and>
    (pre_key_store_ok (st_preKey s) \<longrightarrow> pre_key_store_ok (st_preKey s1))"
  by (auto simp: uses_pre_key_def getPreKeyById_consume consumePreKeyById_ok split: option.splits if_splits)

lemma decrypted_stores_pre_keys:
  assumes "decrypted_stores P addr env s s'"
  shows "st_signal s' = st_signal s"
    "getPreKeyById (st_preKey s') n =
      (if named_pre_key P addr env s = Some n then None else getPreKeyById (st_preKey s) n)"
    "pre_key_store_ok (st_preKey s) \<Longrightarrow> pre_key_store_ok (st_preKey s')"
proof -
  from assms obtain updated s1 where s1: "case ev_type env of
         Msg \<Rightarrow> s1 = s
       | PkMsg \<Rightarrow> \<exists>parsed. deserializePkMsg P (ev_ciphertext env) = Inr parsed \<and>
           uses_pre_key parsed (getSession (st_session s) addr) s s1"
    and s': "st_preKey s' = st_preKey s1" "st_signal s' = st_signal s1"
    unfolding decrypted_stores_def by auto
  show "st_signal s' = st_signal s"
    using s1 s' by (auto dest: uses_pre_key_get split: envelope_type.splits)
  show "getPreKeyById (st_preKey s') n =
      (if named_pre_key P addr env s = Some n then None else getPreKeyById (st_preKey s) n)"
    using s1 unfolding s' named_pre_key_def
    by (auto dest!: uses_pre_key_get split: envelope_type.splits if_splits)
  show "pre_key_store_ok (st_preKey s) \<Longrightarrow> pre_key_store_ok (st_preKey s')"
    using s1 unfolding s' by (auto dest: uses_pre_key_get split: envelope_type.splits)
qed

lemma decrypted_stores_ok:
  assumes "stores_ok s" "decrypted_stores P addr env s s'"
  shows "stores_ok s'"
    "\<exists>v. getSession (st_session s') addr = Some v \<and>
      getRemoteIdentity (st_identity s') addr \<in> {None, Some (peerKey (ss_remote v))}"
proof -
  let ?current = "getSession (st_session s) addr"
  from assms(2) obtain v where s': "st_session s' = setSession addr v (st_session s)"
    "st_identity s' =
      (case ?current of
         Some current \<Rightarrow> if peerKey (ss_remote current) = peerKey (ss_remote v) then st_identity s
           else setRemoteIdentity addr (peerKey (ss_remote v)) (st_identity s)
       | None \<Rightarrow> setRemoteIdentity addr (peerKey (ss_remote v)) (st_identity s))"
    unfolding decrypted_stores_def by auto
  have ok: "address_store_ok (st_session s)" "address_store_ok (st_identity s)" "pre_key_store_ok (st_preKey s)"
    "identities_match (st_session s) (st_identity s)"
    using assms(1) by (simp_all add: stores_ok_def)
  have match: "identities_match (st_session s') (st_identity s')"
    using match_write [OF ok(1,2,4)] match_update [OF ok(1,4)] unfolding s'
    by (auto split: option.splits)
  have "address_store_ok (st_session s')" "address_store_ok (st_identity s')"
    using address_set_get(1) ok unfolding s' by (auto simp: setSession_def setRemoteIdentity_def split: option.splits)
  with match show "stores_ok s'"
    using decrypted_stores_pre_keys(3) [OF assms(2) ok(3)] by (simp add: stores_ok_def)
  have "getSession (st_session s') addr = Some v"
    using address_set_get(2) [OF ok(1)] unfolding s' session_access by simp
  with match show "\<exists>v. getSession (st_session s') addr = Some v \<and>
      getRemoteIdentity (st_identity s') addr \<in> {None, Some (peerKey (ss_remote v))}"
    unfolding identities_match_def by (cases "getRemoteIdentity (st_identity s') addr") auto
qed

lemma store_new_session_ok:
  assumes "stores_ok s"
  shows "stores_ok (s\<lparr>st_identity := setRemoteIdentity a (peerKey (ss_remote v)) (st_identity s),
    st_session := setSession a v (st_session s)\<rparr>)"
  using assms match_write
  by (auto simp: stores_ok_def setSession_def setRemoteIdentity_def address_set_get(1))

lemma act_read_only:
  "snd (reusable_session addr b opts s) = s" "snd (build_session C X b opts k r s) = s"
  by (simp_all add: reusable_session_def build_session_def act_bind_eq split: sum.splits)

lemma establish_ok:
  assumes "stores_ok s"
  shows "stores_ok (snd (establishOutgoingSession C X addr b opts k r s))"
proof -
  let ?reuse = "reusable_session addr b opts s" and ?build = "build_session C X b opts k r s"
  have "establishOutgoingSession C X addr b opts k r s =
    (case fst ?reuse of
       Inl e \<Rightarrow> (Inl e, s)
     | Inr (Some v) \<Rightarrow> (Inr v, s)
     | Inr None \<Rightarrow>
         (case fst ?build of
            Inl e \<Rightarrow> (Inl e, s)
          | Inr v \<Rightarrow> (Inr v, s\<lparr>st_identity := setRemoteIdentity addr (peerKey (ss_remote v)) (st_identity s),
              st_session := setSession addr v (st_session s)\<rparr>)))"
    by (simp add: establishOutgoingSession_def act_bind_eq act_read_only split: sum.split option.split)
  then show ?thesis using assms store_new_session_ok by (auto split: sum.splits option.splits)
qed

text \<open>The writes of \<open>persistOutgoingSessionsBatch\<close> are the entries that had no session.\<close>

lemma sort_entries_eq:
  "sort_entries es ids sessions resolved skipped =
    (ids @ map (\<lambda>(e, _). (se_address e, se_remoteIdentity e)) (filter (\<lambda>(_, c). c = None) es),
     sessions @ map (\<lambda>(e, _). (se_address e, se_session e)) (filter (\<lambda>(_, c). c = None) es),
     fst (snd (snd (sort_entries es ids sessions resolved skipped))),
     snd (snd (snd (sort_entries es ids sessions resolved skipped))))"
  by (induction es ids sessions resolved skipped rule: sort_entries.induct) (auto split: option.splits)

lemma persist_ok:
  assumes "stores_ok s" "\<forall>e \<in> set entries. se_remoteIdentity e = peerKey (ss_remote (se_session e))"
  shows "stores_ok (snd (persistOutgoingSessionsBatch entries s))"
proof (cases "entries = []")
  case True
  with assms(1) show ?thesis by (simp add: persistOutgoingSessionsBatch_def)
next
  case False
  let ?es = "zip entries (getSessionsBatch (st_session s) (map se_address entries))"
  define new where "new = map (\<lambda>(e, _). (se_address e, se_session e)) (filter (\<lambda>(_, c). c = None) ?es)"
  have "se_remoteIdentity e = peerKey (ss_remote (se_session e))" if "(e, c) \<in> set ?es" for e c
    using assms(2) set_zip_leftD [OF that] by simp
  then have ids: "map (\<lambda>(e, _). (se_address e, se_remoteIdentity e)) (filter (\<lambda>(_, c). c = None) ?es) =
      map (\<lambda>(a, v). (a, peerKey (ss_remote v))) new"
    unfolding new_def by (auto simp: split_beta)
  have ok: "address_store_ok (st_session s)" "address_store_ok (st_identity s)" "pre_key_store_ok (st_preKey s)"
    "identities_match (st_session s) (st_identity s)"
    using assms(1) by (simp_all add: stores_ok_def)
  have sorted: "fst (sort_entries ?es [] [] [] []) = map (\<lambda>(a, v). (a, peerKey (ss_remote v))) new"
    "fst (snd (sort_entries ?es [] [] [] [])) = new"
    by (subst sort_entries_eq, simp add: ids new_def)+
  have "snd (persistOutgoingSessionsBatch entries s) =
      s\<lparr>st_identity := setRemoteIdentities (map (\<lambda>(a, v). (a, peerKey (ss_remote v))) new) (st_identity s),
        st_session := setSessionsBatch new (st_session s)\<rparr>"
    using False by (simp add: persistOutgoingSessionsBatch_def Let_def split_beta sorted
        setRemoteIdentities_def setSessionsBatch_def)
  then show ?thesis using ok match_writes [OF ok(1,2,4), of new] address_folds_ok by (simp add: stores_ok_def)
qed

text \<open>The stored identity of an address, if any, is that of the session.\<close>

definition agrees :: "identity_store \<Rightarrow> jstr \<Rightarrow> session \<Rightarrow> bool" where
  "agrees ids k v \<longleftrightarrow> (\<forall>key. map_get (as_entries ids) k = Some key \<longrightarrow> key = peerKey (ss_remote v))"

definition all_agree :: "identity_store \<Rightarrow> (jstr, session) jsmap \<Rightarrow> bool" where
  "all_agree ids m \<longleftrightarrow> (\<forall>(k, v) \<in> set m. agrees ids k v)"

lemma all_agree_Nil: "all_agree ids []"
  by (simp add: all_agree_def)

lemma all_agree_set: "all_agree ids m \<Longrightarrow> agrees ids k v \<Longrightarrow> all_agree ids (map_set k v m)"
  unfolding all_agree_def using map_set_in by fastforce

lemma all_agree_get: "all_agree ids m \<Longrightarrow> map_get m k = Some v \<Longrightarrow> agrees ids k v"
  unfolding all_agree_def map_get_def by (auto dest: map_of_SomeD)

lemma match_agrees:
  "identities_match ss ids \<longleftrightarrow> (\<forall>a v. getSession ss a = Some v \<longrightarrow> agrees ids (signalAddressKey a) v)"
  by (auto simp: identities_match_def agrees_def session_access address_get_def)

lemma latest_sessions_agree:
  "all_agree ids pre \<Longrightarrow> identities_match ss ids \<Longrightarrow> all_agree ids L \<Longrightarrow>
    all_agree ids (latest_sessions pre (zip us (getSessionsBatch ss us)) L)"
proof (induction us arbitrary: L)
  case (Cons u us)
  have "all_agree ids
    (case getSession ss u of
       Some v \<Rightarrow> map_set (signalAddressKey u) v L
     | None \<Rightarrow> (case map_get pre (signalAddressKey u) of Some v \<Rightarrow> map_set (signalAddressKey u) v L | None \<Rightarrow> L))"
    using Cons.prems by (auto simp: match_agrees all_agree_get intro!: all_agree_set split: option.split)
  with Cons show ?case by (simp add: getSessionsBatch_def)
qed (simp add: getSessionsBatch_def)

definition progress_agrees :: "identity_store \<Rightarrow> encrypt_progress \<Rightarrow> bool" where
  "progress_agrees ids p \<longleftrightarrow> all_agree ids (ep_latest p) \<and> ep_identities p = [] \<and>
    (\<forall>(k, a, v) \<in> set (ep_sessions p). agrees ids (signalAddressKey a) v)"

lemma encrypt_loop_agrees:
  "progress_agrees ids p \<Longrightarrow> encrypt_loop C P rs p = Inr p' \<Longrightarrow> progress_agrees ids p'"
proof (induction rs arbitrary: p)
  case (Cons r rs)
  then obtain v v' e where v: "map_get (ep_latest p) (signalAddressKey (er_address r)) = Some v"
    "encrypt_step C P v r = Inr (v', e)"
    "encrypt_loop C P rs (with_update (er_address r) v' e p) = Inr p'"
    by (auto simp: encrypt_one_eq rbind_eq_Inr_iff split: option.splits)
  have "agrees ids (signalAddressKey (er_address r)) v"
    using Cons.prems(1) v(1) all_agree_get by (auto simp: progress_agrees_def)
  then have new: "agrees ids (signalAddressKey (er_address r)) v'"
    using encrypt_step_remote [OF v(2)] by (simp add: agrees_def)
  have "progress_agrees ids (with_update (er_address r) v' e p)"
    using Cons.prems(1) new map_set_in all_agree_set [OF _ new] unfolding progress_agrees_def with_update_def
    by fastforce
  from Cons.IH [OF this v(3)] show ?case .
qed simp

lemma sessions_batch_agree:
  "address_store_ok ss \<Longrightarrow> identities_match ss ids \<Longrightarrow> \<forall>(a, v) \<in> set vs. agrees ids (signalAddressKey a) v \<Longrightarrow>
    identities_match (setSessionsBatch vs ss) ids"
proof (induction vs arbitrary: ss)
  case (Cons e vs)
  obtain a v where e: "e = (a, v)" by (cases e)
  have "agrees ids (signalAddressKey b) w" if "getSession (setSession a v ss) b = Some w" for b w
    using address_get_set_cases [OF Cons.prems(1), of a v b w] that Cons.prems(2,3)
    by (auto simp: session_access e match_agrees)
  then have "identities_match (setSession a v ss) ids" by (simp add: match_agrees)
  moreover have "address_store_ok (setSession a v ss)"
    using Cons.prems(1) by (simp add: setSession_def address_set_get(1))
  ultimately show ?case using Cons by (simp add: e setSessionsBatch_def)
qed (simp add: setSessionsBatch_def)

lemma encrypt_batch_ok:
  assumes "stores_ok s" "\<forall>(a, v) \<in> set prefetched. agrees (st_identity s) (signalAddressKey a) v"
  shows "stores_ok (snd (encryptMessagesBatch C P requests prefetched s))"
proof (cases "requests = []")
  case True
  with assms(1) show ?thesis by (simp add: encryptMessagesBatch_def)
next
  case False
  let ?ids = "st_identity s" and ?unique = "unique_addresses (map er_address requests) {}"
  define pre where "pre = fold (\<lambda>(a, v). map_set (signalAddressKey a) v) prefetched []"
  have "all_agree ?ids (fold (\<lambda>(a, v). map_set (signalAddressKey a) v) ps m)"
    if "all_agree ?ids m" "\<forall>(a, v) \<in> set ps. agrees ?ids (signalAddressKey a) v" for ps m
    using that by (induction ps arbitrary: m) (auto intro: all_agree_set)
  from this [OF _ assms(2), of "[]"] have pre: "all_agree ?ids pre" by (simp add: pre_def all_agree_def)
  define start where "start = \<lparr>ep_latest = latest_sessions pre (zip ?unique (getSessionsBatch (st_session s) ?unique)) [],
    ep_sessions = [], ep_identities = [], ep_results = []\<rparr>"
  have ok: "address_store_ok (st_session s)" "identities_match (st_session s) ?ids"
    using assms(1) by (simp_all add: stores_ok_def)
  have "progress_agrees ?ids start"
    using latest_sessions_agree [OF pre ok(2), of "[]" ?unique]
    by (simp add: progress_agrees_def start_def all_agree_Nil)
  note finished = encrypt_loop_agrees [OF this, of C P requests]
  have batch: "snd (encryptMessagesBatch C P requests prefetched s) =
    (case encrypt_loop C P requests start of
       Inl e \<Rightarrow> s
     | Inr p \<Rightarrow> (if 0 < length (ep_identities p)
           then s\<lparr>st_identity := setRemoteIdentities (map snd (ep_identities p)) (st_identity s)\<rparr> else s)
         \<lparr>st_session := setSessionsBatch (map snd (ep_sessions p)) (st_session s)\<rparr>)"
    using False by (simp add: encryptMessagesBatch_def act_bind_eq start_def pre_def Let_def split: sum.split)
  show ?thesis
  proof (cases "encrypt_loop C P requests start")
    case (Inr p)
    with finished have p: "ep_identities p = []" "\<forall>(a, v) \<in> set (map snd (ep_sessions p)). agrees ?ids (signalAddressKey a) v"
      by (auto simp: progress_agrees_def)
    from sessions_batch_agree [OF ok p(2)] address_folds_ok(1) [OF ok(1)] assms(1) show ?thesis
      by (simp add: batch Inr p(1) stores_ok_def)
  qed (use batch assms(1) in simp)
qed

text \<open>
  C33: The protocol keeps its stores consistent: no operation on sessions (setting one up, storing a
  prepared batch, encrypting a batch, decrypting) ever lets a store exceed its limits, marks a missing
  pre-key as uploaded, or leaves an address with a session and the identity of somebody else.
\<close>

theorem protocol_stores_invariant:
  assumes "stores_ok s" "\<forall>e \<in> set entries. se_remoteIdentity e = peerKey (ss_remote (se_session e))"
    "\<forall>(a, v) \<in> set prefetched. agrees (st_identity s) (signalAddressKey a) v"
  shows "stores_ok (snd (establishOutgoingSession C X addr bundle options base ratchet s)) \<and>
    stores_ok (snd (persistOutgoingSessionsBatch entries s)) \<and>
    stores_ok (snd (encryptMessagesBatch C P requests prefetched s)) \<and>
    stores_ok (snd (decryptMessage C X P addr env generated s))"
proof -
  have "stores_ok (snd (decryptMessage C X P addr env generated s))"
    using decryptMessage_cases [of C X P addr env generated s] decrypted_stores_ok(1) [OF assms(1)] assms(1)
    by (cases "decryptMessage C X P addr env generated s") (auto split: sum.splits)
  then show ?thesis
    using establish_ok [OF assms(1)] persist_ok [OF assms(1,2)] encrypt_batch_ok [OF assms(1,3)] by blast
qed

theorem protocol_stores_invariant_witness:
  "stores_ok (snd (encryptMessagesBatch sample_crypto sample_proto [sample_request [1]] [(sample_address, sample_session)] sample_stores))"
proof -
  have "\<forall>(a, v) \<in> set [(sample_address, sample_session)]. agrees (st_identity sample_stores) (signalAddressKey a) v"
    by (simp add: agrees_def sample_stores_def map_get_def)
  from protocol_stores_invariant [OF sample_stores_ok _ this, of "[]"] show ?thesis by simp
qed

text \<open>
  C5: Decryption is all or nothing: a message that is not accepted leaves every store as it was, its
  one-time pre-key included; an accepted one stores a session for its sender whose identity is the
  stored one, and removes exactly the one-time pre-key that its new session was built from.
\<close>

theorem decryption_all_or_nothing:
  assumes "stores_ok s" "decryptMessage C X P addr env generated s = (r, s')"
  shows "case r of
      Inl e \<Rightarrow> s' = s
    | Inr plaintext \<Rightarrow>
        (\<exists>v. getSession (st_session s') addr = Some v \<and>
          getRemoteIdentity (st_identity s') addr \<in> {None, Some (peerKey (ss_remote v))}) \<and>
        (\<forall>n. getPreKeyById (st_preKey s') n =
          (if named_pre_key P addr env s = Some n then None else getPreKeyById (st_preKey s) n)) \<and>
        st_signal s' = st_signal s"
  using decryptMessage_cases [OF assms(2)] decrypted_stores_ok(2) [OF assms(1)] decrypted_stores_pre_keys
  by (auto split: sum.splits)

theorem decryption_all_or_nothing_witness:
  "snd (decryptMessage sample_crypto sample_curve sample_proto sample_address \<lparr>ev_type = PkMsg, ev_ciphertext = []\<rparr>
    (\<lambda>_. \<lparr>pubKey = replicate 32 7, privKey = replicate 32 7\<rparr>) sample_stores) = sample_stores"
proof -
  let ?g = "\<lambda>_. \<lparr>pubKey = replicate 32 7, privKey = replicate 32 7\<rparr>" and ?env = "\<lparr>ev_type = PkMsg, ev_ciphertext = []\<rparr>"
  obtain e where "deserializePkMsg sample_proto [] = Inl e"
    by (cases "deserializePkMsg sample_proto []") (simp_all add: deserializePkMsg_def readVersionedContent_def key_result_def)
  then have "decryptMessage sample_crypto sample_curve sample_proto sample_address ?env ?g sample_stores =
      (Inl e, snd (decryptMessage sample_crypto sample_curve sample_proto sample_address ?env ?g sample_stores))"
    by (simp add: decryptMessage_def act_bind_eq)
  from decryption_all_or_nothing [OF sample_stores_ok this] show ?thesis by simp
qed

end
