(* ===== verification/StoreLock.thy ===== *)
theory StoreLock
  imports Main
begin

text \<open>
  \<open>src/infra/perf/StoreLock.ts\<close>: locks by key, taken alone (\<open>run\<close>) or several at a time
  (\<open>runMany\<close>).  Each call of \<open>runInternal\<close> makes a slot, that is the promise it returns; \<open>chains\<close>
  holds the last slot of every key.  A call runs to its end in one turn of the event loop, together
  with the calls that a task started by it makes before its first \<open>await\<close>: the code calls such a task
  before the slot is in \<open>chains\<close>.  The later turns are the steps of a relation: a slot starts when the
  one before it has settled, its continuation takes the next key or calls the task, and a slot settles
  when the promise it waits for has settled.  A task settles in a turn of its own, at any time after it
  was called.  Keys are strings in the source; all that matters is that \<open>sort\<close> orders them linearly.
\<close>

subsection \<open>State\<close>

record 'k slot =
  slot_key :: 'k
  slot_prev :: "nat option"
  slot_job :: nat
  slot_index :: nat
  slot_started :: bool
  slot_inner :: "nat option"
  slot_settled :: bool

text \<open>A call of \<open>run\<close> or \<open>runMany\<close> with its keys in order; its task is called and later settles.\<close>

record 'k job =
  job_keys :: "'k list"
  job_called :: bool
  job_finished :: bool

record 'k store_lock =
  chains :: "'k \<Rightarrow> nat option"
  closed :: bool
  slot_of :: "nat \<Rightarrow> 'k slot"
  slot_count :: nat
  job_of :: "nat \<Rightarrow> 'k job"
  job_count :: nat

subsection \<open>Operations\<close>

definition new_lock :: "'k store_lock" where
  "new_lock = \<lparr>chains = (\<lambda>_. None), closed = False, slot_of = (\<lambda>_. undefined), slot_count = 0,
     job_of = (\<lambda>_. undefined), job_count = 0\<rparr>"

text \<open>The slot of a call of \<open>runInternal\<close>, which becomes the last one of its key.\<close>

definition add_slot :: "'k \<Rightarrow> nat \<Rightarrow> nat \<Rightarrow> nat option \<Rightarrow> 'k store_lock \<Rightarrow> 'k store_lock" where
  "add_slot key job index previous s =
    (let n = slot_count s
     in s\<lparr>chains := (chains s)(key \<mapsto> n),
          slot_of := (slot_of s)(n := \<lparr>slot_key = key, slot_prev = previous, slot_job = job,
            slot_index = index, slot_started = (previous = None), slot_inner = None, slot_settled = False\<rparr>),
          slot_count := n + 1\<rparr>)"

text \<open>
  \<open>runInternal\<close>: without a previous slot the task is called at once, before the slot is entered in
  \<open>chains\<close>, otherwise when the previous one has settled.  \<open>task\<close> is what the task does to the lock
  before its first \<open>await\<close>.
\<close>

definition runInternal ::
    "'k \<Rightarrow> nat \<Rightarrow> nat \<Rightarrow> ('k store_lock \<Rightarrow> 'k store_lock) \<Rightarrow> 'k store_lock \<Rightarrow> 'k store_lock" where
  "runInternal key job index task s =
    (case chains s key of
       Some previous \<Rightarrow> add_slot key job index (Some previous) s
     | None \<Rightarrow> add_slot key job index None (task s))"

text \<open>The loop over the sorted keys that drops repetitions.\<close>

fun unique_loop :: "'k \<Rightarrow> 'k list \<Rightarrow> 'k list" where
  "unique_loop previousKey [] = []"
| "unique_loop previousKey (key # rest) =
    (if key = previousKey then unique_loop previousKey rest else key # unique_loop key rest)"

definition ordered_keys :: "('k :: linorder) list \<Rightarrow> 'k list" where
  "ordered_keys keys =
    (if length keys \<le> 1 then keys
     else case sort keys of [] \<Rightarrow> [] | first # rest \<Rightarrow> first # unique_loop first rest)"

text \<open>
  \<open>acquire\<close> at \<open>index\<close>, called by the slot \<open>outer\<close> of the job or at the start: take the next key or,
  when all are taken, call the task.
\<close>

definition call_task :: "nat \<Rightarrow> 'k store_lock \<Rightarrow> 'k store_lock" where
  "call_task j s = s\<lparr>job_of := (job_of s)(j := (job_of s j)\<lparr>job_called := True\<rparr>)\<rparr>"

definition acquire :: "nat option \<Rightarrow> nat \<Rightarrow> nat \<Rightarrow> 'k store_lock \<Rightarrow> 'k store_lock" where
  "acquire outer job index s =
    (if length (job_keys (job_of s job)) \<le> index then call_task job s
     else
       let s' = runInternal (job_keys (job_of s job) ! index) job index (\<lambda>s. s) s
       in case outer of
            None \<Rightarrow> s'
          | Some n \<Rightarrow> s'\<lparr>slot_of := (slot_of s')(n := (slot_of s' n)\<lparr>slot_inner := Some (slot_count s)\<rparr>)\<rparr>)"

datatype lock_error = LockClosed

text \<open>
  A call of \<open>runMany\<close> with its keys, and the calls that its task makes in turn before its first
  \<open>await\<close>.  They happen inside the call when the task is called at once, that is without keys or with
  one key that is free; a task that is called in a later turn makes its calls in that turn.
\<close>

datatype 'k request = Request (request_keys: "'k list") (request_calls: "'k request list")

definition with_job :: "('k :: linorder) list \<Rightarrow> 'k store_lock \<Rightarrow> 'k store_lock" where
  "with_job keys s = s\<lparr>
     job_of := (job_of s)(job_count s := \<lparr>job_keys = ordered_keys keys, job_called = False, job_finished = False\<rparr>),
     job_count := job_count s + 1\<rparr>"

fun runMany :: "('k :: linorder) request \<Rightarrow> 'k store_lock \<Rightarrow> lock_error + 'k store_lock"
  and task_calls :: "'k request list \<Rightarrow> 'k store_lock \<Rightarrow> 'k store_lock" where
  "runMany (Request keys calls) s =
    (if closed s then Inl LockClosed
     else
       let j = job_count s; s1 = with_job keys s
       in Inr (case keys of
            [] \<Rightarrow> task_calls calls (call_task j s1)
          | [key] \<Rightarrow> runInternal key j 0 (\<lambda>s. task_calls calls (call_task j s)) s1
          | _ \<Rightarrow> acquire None j 0 s1))"
| "task_calls [] s = s"
| "task_calls (r # rs) s = (case runMany r s of Inl _ \<Rightarrow> task_calls rs s | Inr s' \<Rightarrow> task_calls rs s')"

definition run :: "('k :: linorder) \<Rightarrow> 'k request list \<Rightarrow> 'k store_lock \<Rightarrow> lock_error + 'k store_lock" where
  "run key calls s = runMany (Request [key] calls) s"

definition shutdown :: "'k store_lock \<Rightarrow> 'k store_lock" where
  "shutdown s = s\<lparr>closed := True\<rparr>"

text \<open>
  A task that is called with a key must not ask for this key again before its first \<open>await\<close>, nor must
  the tasks that it calls: \<open>chains\<close> does not know yet that the key is taken
  (\<open>reentrant_task_overlaps\<close> below).
\<close>

primrec all_keys :: "'k request \<Rightarrow> 'k set" where
  "all_keys (Request keys calls) = set keys \<union> \<Union> (set (map all_keys calls))"

primrec polite :: "'k request \<Rightarrow> bool" where
  "polite (Request keys calls) \<longleftrightarrow>
    (case keys of [key] \<Rightarrow> key \<notin> \<Union> (set (map all_keys calls)) | _ \<Rightarrow> True) \<and> list_all id (map polite calls)"

subsection \<open>Turns of the event loop\<close>

text \<open>The promise that the slot returns has settled.\<close>

definition inner_settled :: "'k store_lock \<Rightarrow> nat \<Rightarrow> bool" where
  "inner_settled s n \<longleftrightarrow>
    (case slot_inner (slot_of s n) of
       Some m \<Rightarrow> slot_settled (slot_of s m)
     | None \<Rightarrow> length (job_keys (job_of s (slot_job (slot_of s n)))) \<le> slot_index (slot_of s n) + 1 \<and>
         job_finished (job_of s (slot_job (slot_of s n))))"

inductive turn :: "'k store_lock \<Rightarrow> 'k store_lock \<Rightarrow> bool" where
  start: "n < slot_count s \<Longrightarrow> \<not> slot_started (slot_of s n) \<Longrightarrow> slot_prev (slot_of s n) = Some p \<Longrightarrow>
    slot_settled (slot_of s p) \<Longrightarrow>
    turn s (s\<lparr>slot_of := (slot_of s)(n := (slot_of s n)\<lparr>slot_started := True\<rparr>)\<rparr>)"
| proceed: "n < slot_count s \<Longrightarrow> slot_started (slot_of s n) \<Longrightarrow> slot_inner (slot_of s n) = None \<Longrightarrow>
    slot_job (slot_of s n) = j \<Longrightarrow> \<not> job_called (job_of s j) \<Longrightarrow>
    turn s (acquire (Some n) j (slot_index (slot_of s n) + 1) s)"
| finish: "j < job_count s \<Longrightarrow> job_called (job_of s j) \<Longrightarrow> \<not> job_finished (job_of s j) \<Longrightarrow>
    turn s (s\<lparr>job_of := (job_of s)(j := (job_of s j)\<lparr>job_finished := True\<rparr>)\<rparr>)"
| settle: "n < slot_count s \<Longrightarrow> slot_started (slot_of s n) \<Longrightarrow> \<not> slot_settled (slot_of s n) \<Longrightarrow> inner_settled s n \<Longrightarrow>
    turn s (s\<lparr>slot_of := (slot_of s)(n := (slot_of s n)\<lparr>slot_settled := True\<rparr>)\<rparr>)"
| forget: "n < slot_count s \<Longrightarrow> slot_settled (slot_of s n) \<Longrightarrow> chains s (slot_key (slot_of s n)) = Some n \<Longrightarrow>
    turn s (s\<lparr>chains := (chains s)(slot_key (slot_of s n) := None)\<rparr>)"

inductive lock_step :: "('k :: linorder) store_lock \<Rightarrow> 'k store_lock \<Rightarrow> bool" where
  call: "polite r \<Longrightarrow> runMany r s = Inr s' \<Longrightarrow> lock_step s s'"
| close: "lock_step s (shutdown s)"
| turn: "turn s s' \<Longrightarrow> lock_step s s'"

inductive lock_reach :: "('k :: linorder) store_lock \<Rightarrow> bool" where
  init: "lock_reach new_lock"
| step: "lock_reach s \<Longrightarrow> lock_step s s' \<Longrightarrow> lock_reach s'"

subsection \<open>The queue of a key\<close>

abbreviation key_at :: "'k store_lock \<Rightarrow> nat \<Rightarrow> 'k" where "key_at s n \<equiv> slot_key (slot_of s n)"
abbreviation started :: "'k store_lock \<Rightarrow> nat \<Rightarrow> bool" where "started s n \<equiv> slot_started (slot_of s n)"
abbreviation settled :: "'k store_lock \<Rightarrow> nat \<Rightarrow> bool" where "settled s n \<equiv> slot_settled (slot_of s n)"

text \<open>\<open>t\<close> is the last slot before \<open>n\<close> with its key; without one, the slots of the key have settled.\<close>

definition last_before :: "'k store_lock \<Rightarrow> nat \<Rightarrow> 'k \<Rightarrow> nat option \<Rightarrow> bool" where
  "last_before s n k t \<longleftrightarrow>
    (case t of
       Some p \<Rightarrow> p < n \<and> key_at s p = k \<and> (\<forall>m. p < m \<longrightarrow> m < n \<longrightarrow> key_at s m \<noteq> k)
     | None \<Rightarrow> \<forall>m < n. key_at s m = k \<longrightarrow> settled s m)"

definition queue_ok :: "'k store_lock \<Rightarrow> bool" where
  "queue_ok s \<longleftrightarrow>
    (\<forall>n < slot_count s. last_before s n (key_at s n) (slot_prev (slot_of s n))) \<and>
    (\<forall>k. last_before s (slot_count s) k (chains s k)) \<and>
    (\<forall>n < slot_count s. settled s n \<longrightarrow> started s n) \<and>
    (\<forall>n < slot_count s. started s n \<longrightarrow> (\<forall>m < n. key_at s m = key_at s n \<longrightarrow> settled s m)) \<and>
    (\<forall>n < slot_count s. slot_prev (slot_of s n) = None \<longrightarrow> started s n)"

lemma queue_okD:
  assumes "queue_ok s"
  shows "n < slot_count s \<Longrightarrow> last_before s n (key_at s n) (slot_prev (slot_of s n))"
    "last_before s (slot_count s) k (chains s k)"
    "n < slot_count s \<Longrightarrow> settled s n \<Longrightarrow> started s n"
    "n < slot_count s \<Longrightarrow> started s n \<Longrightarrow> m < n \<Longrightarrow> key_at s m = key_at s n \<Longrightarrow> settled s m"
    "n < slot_count s \<Longrightarrow> slot_prev (slot_of s n) = None \<Longrightarrow> started s n"
  using assms unfolding queue_ok_def by blast+

text \<open>A change of the slots that keeps their keys and forgets no settled one.\<close>

lemma last_before_mono:
  assumes "last_before s n k t" "\<forall>m < n. key_at s' m = key_at s m \<and> (settled s m \<longrightarrow> settled s' m)"
  shows "last_before s' n k t"
  using assms unfolding last_before_def by (cases t) auto

lemma add_slot_queue_ok:
  assumes "queue_ok s" "p = chains s k"
  shows "queue_ok (add_slot k j i p s)"
proof -
  let ?s = "add_slot k j i p s" and ?n = "slot_count s"
  have old: "slot_of ?s m = slot_of s m" if "m < ?n" for m
    using that by (simp add: add_slot_def Let_def)
  have new: "key_at ?s ?n = k" "slot_prev (slot_of ?s ?n) = p" "started ?s ?n \<longleftrightarrow> p = None"
    "\<not> settled ?s ?n" "slot_count ?s = Suc ?n" "chains ?s = (chains s)(k \<mapsto> ?n)"
    by (simp_all add: add_slot_def Let_def)
  have before: "last_before ?s n k' t" if "last_before s n k' t" "n \<le> ?n" for n k' t
    using that(1) by (rule last_before_mono) (use that(2) old in auto)
  have last: "last_before s ?n k p" using queue_okD(2) [OF assms(1), of k] assms(2) by simp
  have "last_before ?s n (key_at ?s n) (slot_prev (slot_of ?s n))" if "n < Suc ?n" for n
    using that before queue_okD(1) [OF assms(1)] last by (cases "n = ?n") (simp_all add: new old)
  moreover have "last_before ?s (Suc ?n) k' (chains ?s k')" for k'
  proof (cases "k' = k")
    case True
    then show ?thesis by (simp add: last_before_def new)
  next
    case False
    with before [OF queue_okD(2) [OF assms(1), of k']] show ?thesis
      unfolding last_before_def by (auto simp: new less_Suc_eq split: option.splits)
  qed
  moreover have "started ?s n" if "n < Suc ?n" "settled ?s n" for n
    using that queue_okD(3) [OF assms(1)] by (cases "n = ?n") (simp_all add: new old)
  moreover have "settled ?s m" if "n < Suc ?n" "started ?s n" "m < n" "key_at ?s m = key_at ?s n" for n m
  proof (cases "n = ?n")
    case True
    with that new have p: "p = None" and m: "m < ?n" "key_at ?s m = k" by simp_all
    then have "key_at s m = k" by (metis old)
    with last m(1) have "settled s m" unfolding p by (simp add: last_before_def)
    then show ?thesis unfolding old [OF m(1)] .
  next
    case False
    with that queue_okD(4) [OF assms(1), of n m] show ?thesis by (simp add: old)
  qed
  moreover have "started ?s n" if "n < Suc ?n" "slot_prev (slot_of ?s n) = None" for n
  proof (cases "n = ?n")
    case True
    then show ?thesis using that(2) new(2,3) by metis
  next
    case False
    then show ?thesis using that queue_okD(5) [OF assms(1)] by (simp add: old)
  qed
  ultimately show ?thesis unfolding queue_ok_def by (simp add: new(5))
qed

text \<open>A change of other fields of the slots, or of the jobs.\<close>

lemma queue_ok_cong:
  assumes "queue_ok s" "slot_count s' = slot_count s" "chains s' = chains s"
    "\<forall>n. key_at s' n = key_at s n \<and> slot_prev (slot_of s' n) = slot_prev (slot_of s n) \<and>
      started s' n = started s n \<and> settled s' n = settled s n"
  shows "queue_ok s'"
proof -
  have "last_before s n k t \<Longrightarrow> last_before s' n k t" for n k t
    by (erule last_before_mono) (use assms(4) in simp)
  with assms show ?thesis unfolding queue_ok_def by simp
qed

lemma runInternal_idle: "runInternal k j i (\<lambda>s. s) s = add_slot k j i (chains s k) s"
  by (simp add: runInternal_def split: option.split)

lemma acquire_queue_ok: "queue_ok s \<Longrightarrow> queue_ok (acquire outer j i s)"
proof -
  assume ok: "queue_ok s"
  let ?k = "job_keys (job_of s j) ! i"
  let ?s = "add_slot ?k j i (chains s ?k) s"
  have "queue_ok ?s" by (rule add_slot_queue_ok [OF ok refl])
  moreover have "queue_ok (?s\<lparr>slot_of := (slot_of ?s)(n := (slot_of ?s n)\<lparr>slot_inner := Some m\<rparr>)\<rparr>)" for n m
    using \<open>queue_ok ?s\<close> by (rule queue_ok_cong) auto
  moreover have "queue_ok (s\<lparr>job_of := J\<rparr>)" for J using ok by (rule queue_ok_cong) auto
  ultimately show ?thesis unfolding acquire_def call_task_def runInternal_idle by (auto simp: Let_def split: option.split)
qed

lemma started_before:
  assumes "queue_ok s" "n < slot_count s" "last_before s n k (Some p)" "settled s p" "m < n" "key_at s m = k"
  shows "settled s m"
proof -
  have p: "p < n" "key_at s p = k" "\<forall>m. p < m \<longrightarrow> m < n \<longrightarrow> key_at s m \<noteq> k"
    using assms(3) by (simp_all add: last_before_def)
  then consider "m = p" | "m < p" using assms(5,6) by (metis linorder_neqE_nat)
  then show ?thesis
  proof cases
    case 2
    have "started s p" using queue_okD(3) [OF assms(1)] p(1) assms(2,4) by simp
    with 2 p assms show ?thesis using queue_okD(4) [OF assms(1), of p m] by simp
  qed (use assms(4) in simp)
qed

lemma turn_queue_ok: "turn s s' \<Longrightarrow> queue_ok s \<Longrightarrow> queue_ok s'"
proof (induction rule: turn.induct)
  case (start n s p)
  let ?s = "s\<lparr>slot_of := (slot_of s)(n := (slot_of s n)\<lparr>slot_started := True\<rparr>)\<rparr>"
  have same: "key_at ?s m = key_at s m" "settled ?s m = settled s m" "slot_prev (slot_of ?s m) = slot_prev (slot_of s m)"
    "started ?s m \<longleftrightarrow> m = n \<or> started s m" for m by simp_all
  have "settled s m" if "m < n" "key_at s m = key_at s n" for m
    using started_before [OF start(5,1) _ start(4) that] queue_okD(1) [OF start(5,1)] start(3) by simp
  moreover have "last_before s m k t \<Longrightarrow> last_before ?s m k t" for m k t
    by (erule last_before_mono) simp
  ultimately show ?case using start(5) unfolding queue_ok_def same by auto
next
  case (settle n s)
  let ?s = "s\<lparr>slot_of := (slot_of s)(n := (slot_of s n)\<lparr>slot_settled := True\<rparr>)\<rparr>"
  have same: "key_at ?s m = key_at s m" "settled ?s m \<longleftrightarrow> m = n \<or> settled s m"
    "slot_prev (slot_of ?s m) = slot_prev (slot_of s m)" "started ?s m = started s m" for m by simp_all
  have mono: "last_before s m k t \<Longrightarrow> last_before ?s m k t" for m k t
    by (erule last_before_mono) simp
  show ?case using settle(2,5) mono unfolding queue_ok_def same by auto
next
  case (forget n s)
  let ?k = "key_at s n"
  let ?s = "s\<lparr>chains := (chains s)(?k := None)\<rparr>"
  have n: "last_before s (slot_count s) ?k (Some n)" using queue_okD(2) [OF forget(4), of ?k] forget(3) by simp
  have "settled s m" if "m < slot_count s" "key_at s m = ?k" for m
  proof -
    from n that consider "m = n" | "m < n" unfolding last_before_def by (auto dest: linorder_neqE_nat)
    then show ?thesis
      using forget(1,2) queue_okD(3) [OF forget(4), of n] queue_okD(4) [OF forget(4), of n m] that(2) by cases simp_all
  qed
  then have none: "last_before s (slot_count s) ?k None" by (simp add: last_before_def)
  have same: "last_before ?s m k t = last_before s m k t" for m k t
    by (cases t) (simp_all add: last_before_def)
  from none forget(4) show ?case unfolding queue_ok_def same by simp
next
  case (finish j s)
  from finish(4) show ?case by (rule queue_ok_cong) auto
qed (simp add: acquire_queue_ok)

subsection \<open>The slots of a job\<close>

abbreviation keys_of :: "'k store_lock \<Rightarrow> nat \<Rightarrow> 'k list" where "keys_of s j \<equiv> job_keys (job_of s j)"
abbreviation owner :: "'k store_lock \<Rightarrow> nat \<Rightarrow> nat" where "owner s n \<equiv> slot_job (slot_of s n)"
abbreviation index_at :: "'k store_lock \<Rightarrow> nat \<Rightarrow> nat" where "index_at s n \<equiv> slot_index (slot_of s n)"
abbreviation inner :: "'k store_lock \<Rightarrow> nat \<Rightarrow> nat option" where "inner s n \<equiv> slot_inner (slot_of s n)"
abbreviation called :: "'k store_lock \<Rightarrow> nat \<Rightarrow> bool" where "called s j \<equiv> job_called (job_of s j)"
abbreviation finished :: "'k store_lock \<Rightarrow> nat \<Rightarrow> bool" where "finished s j \<equiv> job_finished (job_of s j)"

text \<open>
  A job takes its keys in increasing order: its slots are numbered from 0, each but the first made by
  the one before it, and its task is called when all are held.
\<close>

definition slots_ok :: "('k :: linorder) store_lock \<Rightarrow> bool" where
  "slots_ok s \<longleftrightarrow>
    (\<forall>n < slot_count s. owner s n < job_count s \<and> index_at s n < length (keys_of s (owner s n)) \<and>
      key_at s n = keys_of s (owner s n) ! index_at s n) \<and>
    (\<forall>n < slot_count s. \<forall>m. inner s n = Some m \<longrightarrow> n < m \<and> m < slot_count s \<and> owner s m = owner s n \<and>
      index_at s m = index_at s n + 1 \<and> started s n) \<and>
    (\<forall>n < slot_count s. \<forall>m < slot_count s. owner s n = owner s m \<longrightarrow> index_at s n = index_at s m \<longrightarrow> n = m) \<and>
    (\<forall>m < slot_count s. 0 < index_at s m \<longrightarrow> (\<exists>n < m. inner s n = Some m)) \<and>
    (\<forall>n < slot_count s. settled s n \<longrightarrow> inner_settled s n)"

definition jobs_ok :: "('k :: linorder) store_lock \<Rightarrow> nat set \<Rightarrow> bool" where
  "jobs_ok s J \<longleftrightarrow>
    (\<forall>j < job_count s. sorted_wrt (<) (keys_of s j)) \<and>
    (\<forall>j < job_count s. j \<notin> J \<longrightarrow>
      (if keys_of s j = [] then called s j else \<exists>n < slot_count s. owner s n = j \<and> index_at s n = 0)) \<and>
    (\<forall>j < job_count s. j \<notin> J \<longrightarrow> called s j \<longrightarrow> keys_of s j \<noteq> [] \<longrightarrow>
      (\<exists>n < slot_count s. owner s n = j \<and> index_at s n + 1 = length (keys_of s j) \<and> started s n)) \<and>
    (\<forall>j < job_count s. finished s j \<longrightarrow> called s j)"

lemma slots_okD:
  assumes "slots_ok s" "n < slot_count s"
  shows "owner s n < job_count s" "index_at s n < length (keys_of s (owner s n))"
    "key_at s n = keys_of s (owner s n) ! index_at s n"
    "inner s n = Some m \<Longrightarrow> n < m \<and> m < slot_count s \<and> owner s m = owner s n \<and>
      index_at s m = index_at s n + 1 \<and> started s n"
    "m < slot_count s \<Longrightarrow> owner s n = owner s m \<Longrightarrow> index_at s n = index_at s m \<Longrightarrow> n = m"
    "0 < index_at s n \<Longrightarrow> \<exists>m < n. inner s m = Some n"
    "settled s n \<Longrightarrow> inner_settled s n"
  using assms unfolding slots_ok_def by blast+

lemma slots_okI:
  assumes "\<And>n. n < slot_count s \<Longrightarrow> owner s n < job_count s \<and> index_at s n < length (keys_of s (owner s n)) \<and>
      key_at s n = keys_of s (owner s n) ! index_at s n"
    "\<And>n m. n < slot_count s \<Longrightarrow> inner s n = Some m \<Longrightarrow> n < m \<and> m < slot_count s \<and> owner s m = owner s n \<and>
      index_at s m = index_at s n + 1 \<and> started s n"
    "\<And>n m. n < slot_count s \<Longrightarrow> m < slot_count s \<Longrightarrow> owner s n = owner s m \<Longrightarrow> index_at s n = index_at s m \<Longrightarrow> n = m"
    "\<And>m. m < slot_count s \<Longrightarrow> 0 < index_at s m \<Longrightarrow> \<exists>n < m. inner s n = Some m"
    "\<And>n. n < slot_count s \<Longrightarrow> settled s n \<Longrightarrow> inner_settled s n"
  shows "slots_ok s"
  using assms unfolding slots_ok_def by blast

lemma jobs_okD:
  assumes "jobs_ok s J" "j < job_count s"
  shows "sorted_wrt (<) (keys_of s j)" "j \<notin> J \<Longrightarrow> keys_of s j = [] \<Longrightarrow> called s j"
    "j \<notin> J \<Longrightarrow> keys_of s j \<noteq> [] \<Longrightarrow> \<exists>n < slot_count s. owner s n = j \<and> index_at s n = 0"
    "j \<notin> J \<Longrightarrow> called s j \<Longrightarrow> keys_of s j \<noteq> [] \<Longrightarrow>
      \<exists>n < slot_count s. owner s n = j \<and> index_at s n + 1 = length (keys_of s j) \<and> started s n"
    "finished s j \<Longrightarrow> called s j"
  using assms unfolding jobs_ok_def by (auto split: if_splits)

lemma jobs_ok_update:
  assumes "jobs_ok s J" "slot_count s' = slot_count s" "job_count s' = job_count s"
    and same: "\<And>n. owner s' n = owner s n" "\<And>n. index_at s' n = index_at s n" "\<And>j. keys_of s' j = keys_of s j"
      "\<And>j. called s' j = called s j"
    and mono: "\<And>n. started s n \<Longrightarrow> started s' n" "\<And>j. finished s' j \<Longrightarrow> finished s j \<or> called s j"
  shows "jobs_ok s' J"
proof -
  note ok = jobs_okD [OF assms(1)]
  show ?thesis unfolding jobs_ok_def assms(2,3) same
  proof (intro conjI allI impI)
    fix j
    assume j: "j < job_count s"
    show "sorted_wrt (<) (keys_of s j)" by (rule ok(1) [OF j])
    show "if keys_of s j = [] then called s j else \<exists>n < slot_count s. owner s n = j \<and> index_at s n = 0" if "j \<notin> J"
      using ok(2,3) [OF j that] by simp
    show "\<exists>n < slot_count s. owner s n = j \<and> index_at s n + 1 = length (keys_of s j) \<and> started s' n"
      if "j \<notin> J" "called s j" "keys_of s j \<noteq> []"
      using ok(4) [OF j that] mono(1) by blast
    show "called s j" if "finished s' j" using mono(2) [OF that] ok(5) [OF j] by blast
  qed
qed

text \<open>
  Who may take the key at \<open>i\<close>: the start of a job, or its last slot so far.  The jobs \<open>J\<close> of
  \<open>jobs_ok\<close> have no slot yet.
\<close>

definition taker :: "('k :: linorder) store_lock \<Rightarrow> nat option \<Rightarrow> nat \<Rightarrow> nat \<Rightarrow> bool" where
  "taker s outer j i \<longleftrightarrow> j < job_count s \<and>
    (case outer of
       None \<Rightarrow> i = 0 \<and> (\<forall>n < slot_count s. owner s n \<noteq> j)
     | Some n \<Rightarrow> \<not> called s j \<and> n < slot_count s \<and> started s n \<and> inner s n = None \<and> owner s n = j \<and> i = index_at s n + 1)"

lemma taker_new:
  assumes "slots_ok s" "taker s outer j i" "n < slot_count s" "owner s n = j"
  shows "index_at s n \<noteq> i"
proof
  assume i: "index_at s n = i"
  show False
  proof (cases outer)
    case None
    with assms show False by (simp add: taker_def)
  next
    case (Some m)
    with assms(2) have m: "m < slot_count s" "inner s m = None" "owner s m = j" "i = index_at s m + 1"
      by (simp_all add: taker_def)
    with i slots_okD(6) [OF assms(1,3)] obtain k where k: "k < n" "inner s k = Some n" by auto
    have kc: "k < slot_count s" using k(1) assms(3) by simp
    from slots_okD(4) [OF assms(1) this k(2)] have "owner s k = j" "index_at s k = index_at s m"
      using assms(4) i m(4) by simp_all
    then have "m = k" using slots_okD(5) [OF assms(1) m(1) kc] m(3) by simp
    with m(2) k(2) show False by simp
  qed
qed

lemma taker_unsettled:
  assumes "slots_ok s" "jobs_ok s J" "taker s (Some n) j i"
  shows "\<not> settled s n"
proof
  assume "settled s n"
  with assms slots_okD(7) [OF assms(1), of n] jobs_okD(5) [OF assms(2), of j] show False
    by (auto simp: taker_def inner_settled_def)
qed

text \<open>The state after the next key was taken.\<close>

lemma acquire_key:
  assumes "taker s outer j i" "i < length (keys_of s j)"
  defines "s' \<equiv> acquire outer j i s" and "N \<equiv> slot_count s"
  shows "slot_count s' = Suc N" "job_of s' = job_of s" "job_count s' = job_count s"
    "owner s' N = j" "index_at s' N = i" "key_at s' N = keys_of s j ! i" "inner s' N = None" "\<not> settled s' N"
    "n < N \<Longrightarrow> owner s' n = owner s n \<and> index_at s' n = index_at s n \<and> key_at s' n = key_at s n \<and>
      started s' n = started s n \<and> settled s' n = settled s n"
    "n < N \<Longrightarrow> inner s' n = (if outer = Some n then Some N else inner s n)"
  using assms(1,2)
  by (auto simp: s'_def N_def acquire_def runInternal_idle add_slot_def Let_def taker_def split: option.splits)

text \<open>A change that keeps the shape of the jobs.\<close>

lemma slots_ok_update:
  assumes "slots_ok s" "slot_count s' = slot_count s" "job_count s' = job_count s"
    and same: "\<And>n. owner s' n = owner s n" "\<And>n. index_at s' n = index_at s n" "\<And>n. key_at s' n = key_at s n"
      "\<And>n. inner s' n = inner s n" "\<And>j. keys_of s' j = keys_of s j"
    and mono: "\<And>n. started s n \<Longrightarrow> started s' n" "\<And>n. settled s n \<Longrightarrow> settled s' n" "\<And>j. finished s j \<Longrightarrow> finished s' j"
    and new: "\<And>n. n < slot_count s \<Longrightarrow> settled s' n \<Longrightarrow> settled s n \<or> inner_settled s n"
  shows "slots_ok s'"
proof -
  note ok = slots_okD [OF assms(1)]
  have settled: "inner_settled s' n" if "inner_settled s n" for n
    using that mono(2,3) by (auto simp: inner_settled_def same split: option.splits)
  show ?thesis
  proof (rule slots_okI; unfold assms(2,3) same)
    show "n < m \<and> m < slot_count s \<and> owner s m = owner s n \<and> index_at s m = index_at s n + 1 \<and> started s' n"
      if "n < slot_count s" "inner s n = Some m" for n m
      using ok(4) [OF that] mono(1) by blast
    show "inner_settled s' n" if "n < slot_count s" "settled s' n" for n
      using new [OF that] ok(7) [OF that(1)] settled by blast
  qed (use ok in blast)+
qed

lemma slots_ok_cong:
  assumes "slots_ok s" "slot_of s' = slot_of s" "slot_count s' = slot_count s" "job_count s' = job_count s"
    "\<And>j. keys_of s' j = keys_of s j" "\<And>j. finished s j \<Longrightarrow> finished s' j"
  shows "slots_ok s'"
  by (rule slots_ok_update [OF assms(1)]) (simp_all add: assms)

lemma acquire_slots_ok:
  assumes "slots_ok s" "jobs_ok s J" "taker s outer j i"
  shows "slots_ok (acquire outer j i s)"
proof (cases "i < length (keys_of s j)")
  case False
  then have a: "acquire outer j i s = s\<lparr>job_of := (job_of s)(j := (job_of s j)\<lparr>job_called := True\<rparr>)\<rparr>"
    by (simp add: acquire_def call_task_def)
  show ?thesis unfolding a by (rule slots_ok_cong [OF assms(1)]) auto
next
  case True
  let ?s = "acquire outer j i s" and ?N = "slot_count s"
  note new = acquire_key(1-8) [OF assms(3) True] and old = acquire_key(9,10) [OF assms(3) True]
  note ok = slots_okD [OF assms(1)]
  have j: "j < job_count s" using assms(3) by (simp add: taker_def)
  have members: "owner ?s n < job_count s \<and> index_at ?s n < length (keys_of s (owner ?s n)) \<and>
      key_at ?s n = keys_of s (owner ?s n) ! index_at ?s n" if "n < Suc ?N" for n
    using that j True ok(1-3) [of n] by (cases "n = ?N") (simp_all add: new old)
  have inner: "n < m \<and> m < Suc ?N \<and> owner ?s m = owner ?s n \<and> index_at ?s m = index_at ?s n + 1 \<and> started ?s n"
    if "n < Suc ?N" "inner ?s n = Some m" for n m
  proof -
    have n: "n < ?N" using that by (cases "n = ?N") (simp_all add: new)
    show ?thesis
    proof (cases "outer = Some n")
      case True
      with assms(3) have "owner s n = j" "i = index_at s n + 1" "started s n" by (simp_all add: taker_def)
      moreover have "m = ?N" using that(2) old(2) [OF n] True by simp
      ultimately show ?thesis using n new(4,5) old(1) [OF n] by simp
    next
      case False
      with that n have "inner s n = Some m" by (simp add: old)
      with ok(4) [OF n this] n show ?thesis by (simp add: old)
    qed
  qed
  have fresh: "\<not> (owner ?s n = j \<and> index_at ?s n = i)" if "n < ?N" for n
    using taker_new [OF assms(1,3) that] old(1) [OF that] by metis
  have unique: "n = m"
    if "n < Suc ?N" "m < Suc ?N" "owner ?s n = owner ?s m" "index_at ?s n = index_at ?s m" for n m
  proof (cases "n < ?N"; cases "m < ?N")
    assume "n < ?N" "m < ?N"
    with that ok(5) [of n m] old(1) show ?thesis by metis
  next
    assume "n < ?N" "\<not> m < ?N"
    with that fresh [of n] new(4,5) show ?thesis by (metis less_antisym)
  next
    assume "\<not> n < ?N" "m < ?N"
    with that fresh [of m] new(4,5) show ?thesis by (metis less_antisym)
  qed (use that in simp)
  have made: "\<exists>n < m. inner ?s n = Some m" if "m < Suc ?N" "0 < index_at ?s m" for m
  proof (cases "m = ?N")
    case True
    with that assms(3) obtain n where "outer = Some n" "n < ?N" by (auto simp: new taker_def split: option.splits)
    with old(2) [of n] True show ?thesis by (intro exI [of _ n]) simp
  next
    case False
    with that have m: "m < ?N" "0 < index_at s m" by (simp_all add: old)
    from ok(6) [OF m] obtain n where n: "n < m" "inner s n = Some m" by blast
    then have "outer \<noteq> Some n" using assms(3) by (auto simp: taker_def)
    with n m show ?thesis by (intro exI [of _ n]) (simp add: old)
  qed
  have "inner_settled ?s n" if "n < Suc ?N" "settled ?s n" for n
  proof -
    have n: "n < ?N" "settled s n" using that by (cases "n = ?N"; simp add: new old)+
    then have "outer \<noteq> Some n" using taker_unsettled [OF assms(1,2)] assms(3) by auto
    with n ok(7) [OF n] ok(4) [OF n(1)] show ?thesis
      by (auto simp: inner_settled_def new old split: option.splits)
  qed
  with members inner unique made show ?thesis by (intro slots_okI; unfold new(1-3)) blast+
qed

lemma acquire_jobs_ok:
  assumes "slots_ok s" "jobs_ok s J" "taker s outer j i" "outer \<noteq> None \<longrightarrow> j \<notin> J"
    "outer = None \<longrightarrow> called s j \<longrightarrow> (\<exists>k. keys_of s j = [k] \<and> chains s k = None)"
  shows "jobs_ok (acquire outer j i s) (J - {j})"
proof (cases "i < length (keys_of s j)")
  case False
  then have a: "acquire outer j i s = s\<lparr>job_of := (job_of s)(j := (job_of s j)\<lparr>job_called := True\<rparr>)\<rparr>"
    by (simp add: acquire_def call_task_def)
  have last: "\<exists>n < slot_count s. owner s n = j \<and> index_at s n + 1 = length (keys_of s j) \<and> started s n"
    if "keys_of s j \<noteq> []"
  proof -
    from that False assms(3) obtain n where "n < slot_count s" "started s n" "owner s n = j" "i = index_at s n + 1"
      by (auto simp: taker_def split: option.splits)
    with False slots_okD(2) [OF assms(1), of n] show ?thesis by (intro exI [of _ n]) simp
  qed
  have "\<exists>n < slot_count s. owner s n = j \<and> index_at s n = 0" if "keys_of s j \<noteq> []"
    using that False jobs_okD(3) [OF assms(2), of j] assms(3,4) by (auto simp: taker_def split: option.splits)
  with last show ?thesis using assms(2) unfolding jobs_ok_def a by (auto split: if_splits)
next
  case True
  let ?s = "acquire outer j i s" and ?N = "slot_count s"
  note new = acquire_key(1-8) [OF assms(3) True] and old = acquire_key(9,10) [OF assms(3) True]
  note ok = jobs_okD [OF assms(2)]
  have "if keys_of s j' = [] then called s j' else \<exists>n < Suc ?N. owner ?s n = j' \<and> index_at ?s n = 0"
    if j': "j' < job_count s" "j' \<notin> J - {j}" for j'
  proof (cases "j' = j \<and> outer = None")
    case True
    with assms(3) have "i = 0" "keys_of s j' \<noteq> []"
      using \<open>i < length (keys_of s j)\<close> by (auto simp: taker_def)
    then show ?thesis using new True by auto
  next
    case False
    with that assms(4) have "j' \<notin> J" by auto
    then show ?thesis using ok(2,3) [OF j'(1)] old(1) by (metis less_SucI)
  qed
  moreover have "\<exists>n < Suc ?N. owner ?s n = j' \<and> index_at ?s n + 1 = length (keys_of s j') \<and> started ?s n"
    if "j' < job_count s" "j' \<notin> J - {j}" "called s j'" "keys_of s j' \<noteq> []" for j'
  proof (cases "j' = j")
    case True
    have outer: "outer = None" using assms(3) that(3) True by (auto simp: taker_def split: option.splits)
    with assms(3,5) that(3) True obtain k where k: "keys_of s j = [k]" "chains s k = None" "i = 0"
      by (auto simp: taker_def)
    then have "started ?s ?N"
      by (simp add: acquire_def runInternal_idle add_slot_def Let_def outer)
    with k new True show ?thesis by (intro exI [of _ ?N]) simp
  next
    case False
    then show ?thesis using ok(4) [OF that(1) _ that(3,4)] that(2) old(1) by (metis Diff_iff less_SucI singletonD)
  qed
  ultimately show ?thesis using ok(1,5) unfolding jobs_ok_def by (simp add: new(1-3))
qed

subsection \<open>Every reachable state\<close>

definition lock_ok :: "('k :: linorder) store_lock \<Rightarrow> bool" where
  "lock_ok s \<longleftrightarrow> queue_ok s \<and> slots_ok s \<and> jobs_ok s {}"

lemma unique_loop_sorted:
  "sorted (p # ks) \<Longrightarrow> sorted_wrt (<) (p # unique_loop p ks) \<and> set (p # unique_loop p ks) = set (p # ks)"
proof (induction p ks rule: unique_loop.induct)
  case (2 previousKey key rest)
  show ?case
  proof (cases "key = previousKey")
    case False
    with 2(3) have "previousKey < key" by auto
    with False 2 show ?thesis by (auto dest: order_less_trans)
  qed (use 2 in auto)
qed simp

lemma ordered_keys_sorted:
  "sorted_wrt (<) (ordered_keys keys)" "set (ordered_keys keys) = set keys"
proof -
  have "sorted_wrt (<) (ordered_keys keys) \<and> set (ordered_keys keys) = set keys"
  proof (cases "length keys \<le> 1")
    case True
    then show ?thesis by (cases keys) (auto simp: ordered_keys_def)
  next
    case False
    then obtain p ks where sort: "sort keys = p # ks" by (cases "sort keys", simp_all) (metis length_sort list.size(3) zero_le)
    then have "sorted (p # ks)" "set (p # ks) = set keys" by (metis sorted_sort, metis set_sort)
    with unique_loop_sorted [of p ks] False sort show ?thesis by (simp add: ordered_keys_def)
  qed
  then show "sorted_wrt (<) (ordered_keys keys)" "set (ordered_keys keys) = set keys" by simp_all
qed

text \<open>
  Inside a call: the tasks \<open>J\<close> are in their synchronous part.  Each of them holds one key that
  \<open>chains\<close> does not show.
\<close>

definition calling :: "('k :: linorder) store_lock \<Rightarrow> nat set \<Rightarrow> bool" where
  "calling s J \<longleftrightarrow> (\<forall>j \<in> J. j < job_count s \<and> (\<forall>n < slot_count s. owner s n \<noteq> j) \<and>
    (\<exists>k. keys_of s j = [k] \<and> chains s k = None))"

definition lock_in :: "('k :: linorder) store_lock \<Rightarrow> nat set \<Rightarrow> bool" where
  "lock_in s J \<longleftrightarrow> queue_ok s \<and> slots_ok s \<and> jobs_ok s J \<and> calling s J"

definition held_keys :: "('k :: linorder) store_lock \<Rightarrow> nat set \<Rightarrow> 'k set" where
  "held_keys s J = (\<Union>j \<in> J. set (keys_of s j))"

lemma lock_in_empty: "lock_in s {} \<longleftrightarrow> lock_ok s"
  by (simp add: lock_in_def lock_ok_def calling_def)

text \<open>What calls inside a call keep of the jobs before them.\<close>

definition same_jobs :: "('k :: linorder) store_lock \<Rightarrow> 'k store_lock \<Rightarrow> bool" where
  "same_jobs s s' \<longleftrightarrow> job_count s \<le> job_count s' \<and> (\<forall>j < job_count s. keys_of s' j = keys_of s j)"

lemma same_jobs_trans: "same_jobs s t \<Longrightarrow> same_jobs t u \<Longrightarrow> same_jobs s u"
  by (auto simp: same_jobs_def)

lemma same_jobs_held: "same_jobs s s' \<Longrightarrow> calling s J \<Longrightarrow> held_keys s' J = held_keys s J"
  by (auto simp: same_jobs_def calling_def held_keys_def)

lemma with_job_view:
  "slot_of (with_job keys s) = slot_of s" "slot_count (with_job keys s) = slot_count s"
  "chains (with_job keys s) = chains s" "job_count (with_job keys s) = Suc (job_count s)"
  "j < job_count s \<Longrightarrow> job_of (with_job keys s) j = job_of s j"
  "job_of (with_job keys s) (job_count s) = \<lparr>job_keys = ordered_keys keys, job_called = False, job_finished = False\<rparr>"
  by (simp_all add: with_job_def)

lemma with_job_ok:
  assumes "lock_in s J"
  shows "queue_ok (with_job keys s)" "slots_ok (with_job keys s)" "jobs_ok (with_job keys s) (insert (job_count s) J)"
    "calling (with_job keys s) J" "taker (with_job keys s) None (job_count s) 0" "same_jobs s (with_job keys s)"
proof -
  let ?s = "with_job keys s"
  have ok: "queue_ok s" "slots_ok s" "jobs_ok s J" "calling s J" using assms by (simp_all add: lock_in_def)
  note slots = with_job_view(1-4) [of keys s] and jobs = with_job_view(5) [of _ s keys] with_job_view(6) [of keys s]
  show "queue_ok ?s" using ok(1) by (rule queue_ok_cong) (simp_all add: slots)
  note so = slots_okD [OF ok(2)]
  have settled: "inner_settled ?s n" if "n < slot_count s" "inner_settled s n" for n
    using that jobs(1) [OF so(1) [OF that(1)]] by (auto simp: inner_settled_def slots split: option.splits)
  show "slots_ok ?s"
  proof (rule slots_okI; unfold slots)
    fix n
    assume n: "n < slot_count s"
    show "owner s n < Suc (job_count s) \<and> index_at s n < length (keys_of ?s (owner s n)) \<and>
        key_at s n = keys_of ?s (owner s n) ! index_at s n"
      using so(1-3) [OF n] jobs(1) [OF so(1) [OF n]] by simp
    show "slot_settled (slot_of s n) \<Longrightarrow> inner_settled ?s n" using settled [OF n] so(7) [OF n] by blast
  qed (use so in blast)+
  note jo = jobs_okD [OF ok(3)]
  show "jobs_ok ?s (insert (job_count s) J)" unfolding jobs_ok_def slots
  proof (intro conjI allI impI)
    fix j
    assume j: "j < Suc (job_count s)"
    show "sorted_wrt (<) (keys_of ?s j)"
      using j jo(1) jobs by (cases "j = job_count s") (simp_all add: ordered_keys_sorted)
    show "if keys_of ?s j = [] then called ?s j else \<exists>n < slot_count s. owner s n = j \<and> index_at s n = 0"
      if "j \<notin> insert (job_count s) J" using that j jo(2,3) jobs(1) [of j] by auto
    show "\<exists>n < slot_count s. owner s n = j \<and> index_at s n + 1 = length (keys_of ?s j) \<and> started s n"
      if "j \<notin> insert (job_count s) J" "called ?s j" "keys_of ?s j \<noteq> []"
      using that j jo(4) [of j] jobs by (cases "j = job_count s") auto
    show "called ?s j" if "finished ?s j"
      using that j jo(5) [of j] jobs by (cases "j = job_count s") auto
  qed
  show "calling ?s J" using ok(4) jobs(1) by (fastforce simp: calling_def slots)
  have "owner s n \<noteq> job_count s" if "n < slot_count s" for n using so(1) [OF that] by simp
  then show "taker ?s None (job_count s) 0" by (simp add: taker_def slots)
  show "same_jobs s ?s" using jobs(1) by (simp add: same_jobs_def slots)
qed

lemma calling_new: "lock_in s J \<Longrightarrow> job_count s \<notin> J"
  by (auto simp: lock_in_def calling_def)

lemma call_task_view:
  "slot_of (call_task j s) = slot_of s" "slot_count (call_task j s) = slot_count s" "chains (call_task j s) = chains s"
  "job_count (call_task j s) = job_count s" "keys_of (call_task j s) i = keys_of s i"
  "finished (call_task j s) i = finished s i" "called (call_task j s) i \<longleftrightarrow> i = j \<or> called s i"
  by (simp_all add: call_task_def)

text \<open>The task of a job without slots is called, with its key still missing in \<open>chains\<close>.\<close>

lemma call_task_ok:
  assumes "queue_ok s" "slots_ok s" "jobs_ok s (insert j J)" "calling s (insert j J)"
  shows "lock_in (call_task j s) (insert j J)" "same_jobs s (call_task j s)"
proof -
  let ?s = "call_task j s"
  have "queue_ok ?s" by (rule queue_ok_cong [OF assms(1)]) (simp_all add: call_task_view)
  moreover have "slots_ok ?s" by (rule slots_ok_cong [OF assms(2)]) (simp_all add: call_task_view)
  moreover have "jobs_ok ?s (insert j J)"
    using assms(3) unfolding jobs_ok_def call_task_view by auto
  moreover have "calling ?s (insert j J)" using assms(4) unfolding calling_def call_task_view by simp
  ultimately show "lock_in ?s (insert j J)" by (simp add: lock_in_def)
  show "same_jobs s ?s" by (simp add: same_jobs_def call_task_view)
qed

lemma acquire_jobs_view:
  "job_count (acquire outer j i s) = job_count s" "keys_of (acquire outer j i s) i' = keys_of s i'"
  by (simp_all add: acquire_def call_task_def runInternal_idle add_slot_def Let_def split: option.split)

text \<open>The first key of a job is taken.\<close>

lemma acquire_first_ok:
  assumes "queue_ok s" "slots_ok s" "jobs_ok s (insert j J)" "calling s J" "taker s None j 0" "j \<notin> J"
    "called s j \<longrightarrow> (\<exists>k. keys_of s j = [k] \<and> chains s k = None)"
    "keys_of s j \<noteq> [] \<Longrightarrow> keys_of s j ! 0 \<notin> held_keys s J"
  shows "lock_in (acquire None j 0 s) J" "same_jobs s (acquire None j 0 s)"
proof -
  let ?s = "acquire None j 0 s"
  have "insert j J - {j} = J" using assms(6) by auto
  then have jobs: "jobs_ok ?s J" using acquire_jobs_ok [OF assms(2,3,5)] assms(7) by simp
  have "calling ?s J"
  proof (cases "keys_of s j = []")
    case True
    then have "?s = call_task j s" by (simp add: acquire_def)
    then show ?thesis using assms(4) unfolding calling_def by (simp add: call_task_view)
  next
    case False
    then have a: "?s = add_slot (keys_of s j ! 0) j 0 (chains s (keys_of s j ! 0)) s"
      by (simp add: acquire_def runInternal_idle)
    show ?thesis unfolding calling_def
    proof
      fix i
      assume i: "i \<in> J"
      from assms(4) i obtain k where k: "i < job_count s" "\<forall>n < slot_count s. owner s n \<noteq> i"
        "keys_of s i = [k]" "chains s k = None"
        by (auto simp: calling_def)
      have "keys_of s j ! 0 \<noteq> k" "i \<noteq> j"
        using assms(6) assms(8) [OF False] i k(3) by (auto simp: held_keys_def)
      with k show "i < job_count ?s \<and> (\<forall>n < slot_count ?s. owner ?s n \<noteq> i) \<and>
          (\<exists>k. keys_of ?s i = [k] \<and> chains ?s k = None)"
        unfolding a by (auto simp: add_slot_def Let_def less_Suc_eq)
    qed
  qed
  with acquire_queue_ok [OF assms(1)] acquire_slots_ok [OF assms(2,3,5)] jobs
  show "lock_in ?s J" by (simp add: lock_in_def)
  show "same_jobs s ?s" by (simp add: same_jobs_def acquire_jobs_view)
qed

lemma runMany_in:
  "runMany r s = Inr s' \<Longrightarrow> polite r \<Longrightarrow> lock_in s J \<Longrightarrow> all_keys r \<inter> held_keys s J = {} \<Longrightarrow>
    lock_in s' J \<and> same_jobs s s'"
  "list_all polite rs \<Longrightarrow> lock_in s J \<Longrightarrow> \<Union> (set (map all_keys rs)) \<inter> held_keys s J = {} \<Longrightarrow>
    lock_in (task_calls rs s) J \<and> same_jobs s (task_calls rs s)"
proof (induction r s and rs s arbitrary: s' J and J rule: runMany_task_calls.induct)
  case (1 keys calls s)
  note IH = "1.IH" and run = "1.prems"(1) and pol = "1.prems"(2)
  let ?j = "job_count s" and ?s1 = "with_job keys s"
  have J: "lock_in s J" by (rule 1)
  note w = with_job_ok [where keys = keys, OF J]
  have keys: "keys_of ?s1 ?j = ordered_keys keys" "\<not> called ?s1 ?j" by (simp_all add: with_job_view)
  have held: "held_keys ?s1 J = held_keys s J"
    using same_jobs_held [OF w(6)] J by (simp add: lock_in_def)
  have apart: "set keys \<inter> held_keys s J = {}" "\<Union> (set (map all_keys calls)) \<inter> held_keys s J = {}"
    using 1 by auto
  have first: "keys_of ?s1 ?j ! 0 \<notin> held_keys ?s1 J" if "keys_of ?s1 ?j \<noteq> []"
    using that nth_mem [of 0 "ordered_keys keys"] apart(1) ordered_keys_sorted(2) [of keys]
    unfolding keys held by auto
  have ordinary: "lock_in (acquire None ?j 0 ?s1) J \<and> same_jobs s (acquire None ?j 0 ?s1)"
    using acquire_first_ok [OF w(1-5) calling_new [OF J] _ first] keys(2) same_jobs_trans [OF w(6)] by blast
  have open_: "\<not> closed s" using 1 by (auto split: if_splits)
  have polite: "list_all polite calls" using 1 by (simp add: list.pred_map comp_def)
  consider "keys = []" | key where "keys = [key]" | a b ks where "keys = a # b # ks"
    by (cases keys; cases "tl keys") auto
  then show ?case
  proof cases
    case 1
    have call: "acquire None ?j 0 ?s1 = call_task ?j ?s1"
      using keys(1) 1 by (simp add: acquire_def ordered_keys_def)
    have ok: "lock_in (call_task ?j ?s1) J" "same_jobs s (call_task ?j ?s1)"
      using ordinary unfolding call by simp_all
    have "held_keys (call_task ?j ?s1) J = held_keys s J"
      using same_jobs_held [OF ok(2)] J by (simp add: lock_in_def)
    with IH(1) [OF open_ refl refl 1 polite ok(1)] apart(2)
    have "lock_in (task_calls calls (call_task ?j ?s1)) J"
      "same_jobs (call_task ?j ?s1) (task_calls calls (call_task ?j ?s1))" by simp_all
    moreover have "s' = task_calls calls (call_task ?j ?s1)" using run 1 open_ by simp
    ultimately show ?thesis using same_jobs_trans [OF ok(2)] by simp
  next
    case 2
    have one: "keys_of ?s1 ?j = [key]" using keys(1) 2 by (simp add: ordered_keys_def)
    show ?thesis
    proof (cases "chains ?s1 key")
      case (Some p)
      then have "s' = acquire None ?j 0 ?s1"
        using run 2 open_ one by (simp add: runInternal_def acquire_def)
      with ordinary show ?thesis by simp
    next
      case None
      let ?s2 = "call_task ?j ?s1" and ?J = "insert ?j J"
      let ?s3 = "task_calls calls ?s2"
      have "calling ?s1 ?J"
        using w(4,5) one None by (auto simp: calling_def taker_def)
      note s2 = call_task_ok [OF w(1-3) this]
      have j: "?j < job_count ?s1" by (simp add: with_job_view)
      have "held_keys ?s2 ?J = insert key (held_keys s J)"
        using one held by (simp add: held_keys_def call_task_view)
      moreover have "key \<notin> \<Union> (set (map all_keys calls))" using pol 2 by simp
      ultimately have "lock_in ?s3 ?J \<and> same_jobs ?s2 ?s3"
        using IH(2) [OF open_ refl refl 2 refl polite s2(1)] apart(2) by auto
      then have s3: "lock_in ?s3 ?J" and same: "same_jobs ?s1 ?s3"
        using same_jobs_trans [OF s2(2)] by simp_all
      have one3: "keys_of ?s3 ?j = [key]" and held3: "held_keys ?s3 J = held_keys s J"
        using same j one same_jobs_held [OF same w(4)] held by (simp_all add: same_jobs_def)
      have c: "calling ?s3 ?J" using s3 by (simp add: lock_in_def)
      then have none: "chains ?s3 key = None" using one3 by (auto simp: calling_def)
      have "taker ?s3 None ?j 0" "calling ?s3 J" using c by (auto simp: calling_def taker_def)
      then have "lock_in (acquire None ?j 0 ?s3) J" "same_jobs ?s3 (acquire None ?j 0 ?s3)"
        using acquire_first_ok [of ?s3 ?j J] s3 calling_new [OF J] one3 none held3 apart(1) 2
        by (auto simp: lock_in_def)
      moreover have "s' = acquire None ?j 0 ?s3"
        using run 2 open_ None one3 none
        by (simp add: runInternal_def acquire_def Let_def)
      ultimately show ?thesis using same_jobs_trans [OF same_jobs_trans [OF w(6) same]] by simp
    qed
  next
    case 3
    then have "s' = acquire None ?j 0 ?s1" using run open_ by simp
    with ordinary show ?thesis by simp
  qed
next
  case (2 s)
  then show ?case by (simp add: same_jobs_def)
next
  case (3 r rs s)
  have r: "polite r" "list_all polite rs" "all_keys r \<inter> held_keys s J = {}"
      "\<Union> (set (map all_keys rs)) \<inter> held_keys s J = {}"
    using 3 by auto
  show ?case
  proof (cases "runMany r s")
    case (Inl e)
    with 3(2) [OF Inl r(2) 3(5) r(4)] show ?thesis by simp
  next
    case (Inr s')
    from 3(1) [OF Inr r(1) 3(5) r(3)] have s': "lock_in s' J" "same_jobs s s'" by simp_all
    from 3(5) have "calling s J" by (simp add: lock_in_def)
    with s'(2) have "held_keys s' J = held_keys s J" by (rule same_jobs_held)
    with 3(3) [OF Inr r(2) s'(1)] r(4) have "lock_in (task_calls rs s') J" "same_jobs s' (task_calls rs s')"
      by simp_all
    with Inr same_jobs_trans [OF s'(2)] show ?thesis by simp
  qed
qed

lemma runMany_ok: "polite r \<Longrightarrow> lock_ok s \<Longrightarrow> runMany r s = Inr s' \<Longrightarrow> lock_ok s'"
  using runMany_in(1) [of r s s' "{}"] by (simp add: lock_in_empty held_keys_def)

lemma turn_ok:
  assumes "turn s s'" "lock_ok s"
  shows "lock_ok s'"
proof -
  have ok: "queue_ok s" "slots_ok s" "jobs_ok s {}" using assms(2) by (simp_all add: lock_ok_def)
  from assms(1) have "slots_ok s' \<and> jobs_ok s' {}"
  proof cases
    case (start n p)
    let ?s = "s\<lparr>slot_of := (slot_of s)(n := (slot_of s n)\<lparr>slot_started := True\<rparr>)\<rparr>"
    have "slots_ok ?s" by (rule slots_ok_update [OF ok(2)]) (auto split: if_splits)
    moreover have "jobs_ok ?s {}" by (rule jobs_ok_update [OF ok(3)]) auto
    ultimately show ?thesis by (simp add: start(1))
  next
    case (proceed n j)
    have t: "taker s (Some n) j (index_at s n + 1)"
      using proceed slots_okD(1) [OF ok(2) proceed(2)] by (auto simp: taker_def)
    show ?thesis
      using acquire_slots_ok [OF ok(2,3) t] acquire_jobs_ok [OF ok(2,3) t] by (simp add: proceed(1))
  next
    case (finish j)
    let ?s = "s\<lparr>job_of := (job_of s)(j := (job_of s j)\<lparr>job_finished := True\<rparr>)\<rparr>"
    have "slots_ok ?s" by (rule slots_ok_cong [OF ok(2)]) auto
    moreover have "jobs_ok ?s {}" by (rule jobs_ok_update [OF ok(3)]) (use finish(3) in \<open>auto split: if_splits\<close>)
    ultimately show ?thesis by (simp add: finish(1))
  next
    case (settle n)
    let ?s = "s\<lparr>slot_of := (slot_of s)(n := (slot_of s n)\<lparr>slot_settled := True\<rparr>)\<rparr>"
    have "slots_ok ?s" by (rule slots_ok_update [OF ok(2)]) (use settle(5) in \<open>auto split: if_splits\<close>)
    moreover have "jobs_ok ?s {}" by (rule jobs_ok_update [OF ok(3)]) auto
    ultimately show ?thesis by (simp add: settle(1))
  next
    case (forget n)
    let ?s = "s\<lparr>chains := (chains s)(key_at s n := None)\<rparr>"
    have "slots_ok ?s" by (rule slots_ok_cong [OF ok(2)]) simp_all
    moreover have "jobs_ok ?s {}" by (rule jobs_ok_update [OF ok(3)]) simp_all
    ultimately show ?thesis by (simp add: forget(1))
  qed
  with turn_queue_ok [OF assms(1) ok(1)] show ?thesis by (simp add: lock_ok_def)
qed

lemma lock_reach_ok: "lock_reach s \<Longrightarrow> lock_ok s"
proof (induction rule: lock_reach.induct)
  case init
  show ?case by (simp add: lock_ok_def queue_ok_def slots_ok_def jobs_ok_def new_lock_def last_before_def)
next
  case (step s s')
  from step(2,3) show ?case
  proof cases
    case close
    have "queue_ok (shutdown s)" "slots_ok (shutdown s)" "jobs_ok (shutdown s) {}"
      using step(3) unfolding lock_ok_def jobs_ok_def
      by (auto simp: shutdown_def intro: queue_ok_cong slots_ok_cong)
    then show ?thesis by (simp add: close lock_ok_def)
  qed (use step(3) runMany_ok turn_ok in blast)+
qed

subsection \<open>Exclusion\<close>

definition running :: "'k store_lock \<Rightarrow> nat \<Rightarrow> bool" where
  "running s j \<longleftrightarrow> j < job_count s \<and> called s j \<and> \<not> finished s j"

text \<open>A slot of a job is unsettled while the slot it made is, and the last one while the task runs.\<close>

lemma outer_slots:
  assumes "slots_ok s" "n < slot_count s" "started s n" "i \<le> index_at s n"
  shows "\<exists>m < slot_count s. owner s m = owner s n \<and> index_at s m = i \<and> started s m \<and>
    (settled s m \<longrightarrow> settled s n)"
  using assms(2-4)
proof (induction "index_at s n - i" arbitrary: n)
  case 0
  then show ?case by (intro exI [of _ n]) simp
next
  case (Suc k)
  then have "0 < index_at s n" by simp
  with slots_okD(6) [OF assms(1) Suc(3)] obtain m where m: "m < n" "inner s m = Some n" by blast
  then have mc: "m < slot_count s" using Suc(3) by simp
  note made = slots_okD(4) [OF assms(1) mc m(2)]
  have "k = index_at s m - i" "i \<le> index_at s m" using Suc(2,5) made by simp_all
  from Suc(1) [OF this(1) mc _ this(2)] made obtain l where l: "l < slot_count s" "owner s l = owner s m"
    "index_at s l = i" "started s l" "settled s l \<longrightarrow> settled s m" by auto
  have "settled s m \<longrightarrow> settled s n"
    using slots_okD(7) [OF assms(1) mc] m(2) by (auto simp: inner_settled_def)
  with l made show ?case by (intro exI [of _ l]) auto
qed

lemma called_slots:
  assumes "lock_ok s" "j < job_count s" "called s j" "i < length (keys_of s j)"
  shows "\<exists>m < slot_count s. owner s m = j \<and> index_at s m = i \<and> started s m \<and> (settled s m \<longrightarrow> finished s j)"
proof -
  have ok: "slots_ok s" "jobs_ok s {}" using assms(1) by (simp_all add: lock_ok_def)
  have "keys_of s j \<noteq> []" using assms(4) by auto
  from jobs_okD(4) [OF ok(2) assms(2) _ assms(3) this] obtain n where n: "n < slot_count s" "owner s n = j"
    "index_at s n + 1 = length (keys_of s j)" "started s n" by blast
  have "finished s j" if "settled s n"
  proof -
    have "inner_settled s n" by (rule slots_okD(7) [OF ok(1) n(1) that])
    moreover have "inner s n = None"
      using slots_okD(4) [OF ok(1) n(1)] slots_okD(2) [OF ok(1)] n(2,3) by (cases "inner s n") fastforce+
    ultimately show ?thesis using n(2) by (simp add: inner_settled_def)
  qed
  with outer_slots [OF ok(1) n(1,4), of i] n assms(4) show ?thesis by auto
qed

lemma running_holds:
  assumes "lock_ok s" "running s j" "k \<in> set (keys_of s j)"
  shows "\<exists>n < slot_count s. owner s n = j \<and> key_at s n = k \<and> started s n \<and> \<not> settled s n"
proof -
  from assms(3) obtain i where i: "i < length (keys_of s j)" "keys_of s j ! i = k" by (auto simp: in_set_conv_nth)
  from called_slots [OF assms(1) _ _ i(1)] assms(2) obtain m where
    "m < slot_count s" "owner s m = j" "index_at s m = i" "started s m" "\<not> settled s m"
    by (auto simp: running_def)
  moreover from this have "key_at s m = k"
    using slots_okD(3) [of s m] assms(1) i(2) by (simp add: lock_ok_def)
  ultimately show ?thesis by blast
qed

text \<open>
  C29: The lock excludes, for tasks that do not ask for the key they are called with before their first
  \<open>await\<close> (\<open>polite\<close>): two tasks that hold a key in common never run at the same time, and a key is
  handed on in the order of the requests (when a request has been granted, every earlier one for the
  key is over).
\<close>

theorem lock_excludes:
  assumes "lock_reach s"
  shows "(\<forall>j j'. running s j \<longrightarrow> running s j' \<longrightarrow> j \<noteq> j' \<longrightarrow> set (keys_of s j) \<inter> set (keys_of s j') = {}) \<and>
    (\<forall>n m. m < n \<longrightarrow> n < slot_count s \<longrightarrow> key_at s m = key_at s n \<longrightarrow> started s n \<longrightarrow> settled s m)"
proof (intro conjI allI impI)
  have ok: "lock_ok s" by (rule lock_reach_ok [OF assms])
  then have queue: "queue_ok s" by (simp add: lock_ok_def)
  show fifo: "settled s m" if "m < n" "n < slot_count s" "key_at s m = key_at s n" "started s n" for n m
    using queue_okD(4) [OF queue that(2,4,1,3)] .
  fix j j'
  assume run: "running s j" "running s j'" "j \<noteq> j'"
  show "set (keys_of s j) \<inter> set (keys_of s j') = {}"
  proof (rule ccontr)
    assume "set (keys_of s j) \<inter> set (keys_of s j') \<noteq> {}"
    then obtain k where k: "k \<in> set (keys_of s j)" "k \<in> set (keys_of s j')" by blast
    obtain n where n: "n < slot_count s" "owner s n = j" "key_at s n = k" "started s n" "\<not> settled s n"
      using running_holds [OF ok run(1) k(1)] by blast
    obtain m where m: "m < slot_count s" "owner s m = j'" "key_at s m = k" "started s m" "\<not> settled s m"
      using running_holds [OF ok run(2) k(2)] by blast
    have "n \<noteq> m" using n(2) m(2) run(3) by auto
    then show False using fifo [of n m] fifo [of m n] n m by (auto simp: linorder_neq_iff)
  qed
qed

text \<open>
  Politeness is needed: a task that is called with a free key and asks for the same key before its
  first \<open>await\<close> finds the key free, and both tasks run.
\<close>

lemma reentrant_task_overlaps:
  "\<exists>s. runMany (Request [1 :: nat] [Request [1] []]) new_lock = Inr s \<and>
    running s 0 \<and> running s 1 \<and> keys_of s 0 = [1] \<and> keys_of s 1 = [1]"
proof -
  let ?s = "projr (runMany (Request [1 :: nat] [Request [1] []]) new_lock)"
  have "runMany (Request [1 :: nat] [Request [1] []]) new_lock = Inr ?s"
    by (simp add: new_lock_def Let_def)
  moreover have "running ?s 0" "running ?s 1" "keys_of ?s 0 = [1]" "keys_of ?s 1 = [1]"
    by code_simp+
  ultimately show ?thesis by blast
qed

subsection \<open>Progress\<close>

definition all_done :: "'k store_lock \<Rightarrow> bool" where
  "all_done s \<longleftrightarrow> (\<forall>j < job_count s. finished s j) \<and> (\<forall>n < slot_count s. settled s n) \<and> chains s = (\<lambda>_. None)"

text \<open>When no turn is possible, an unsettled slot waits for another one: of a larger key, or older.\<close>

lemma stuck_waits:
  assumes "lock_ok s" "\<And>s'. \<not> turn s s'" "n < slot_count s" "\<not> settled s n"
  shows "\<exists>m < slot_count s. \<not> settled s m \<and> (key_at s n < key_at s m \<or> key_at s m = key_at s n \<and> m < n)"
proof -
  have ok: "queue_ok s" "slots_ok s" "jobs_ok s {}" using assms(1) by (simp_all add: lock_ok_def)
  let ?j = "owner s n"
  have j: "?j < job_count s" by (rule slots_okD(1) [OF ok(2) assms(3)])
  show ?thesis
  proof (cases "started s n")
    case False
    then obtain p where p: "slot_prev (slot_of s n) = Some p"
      using queue_okD(5) [OF ok(1) assms(3)] by (cases "slot_prev (slot_of s n)") auto
    then have "p < n" "key_at s p = key_at s n"
      using queue_okD(1) [OF ok(1) assms(3)] by (simp_all add: last_before_def)
    moreover have "\<not> settled s p" using turn.start [OF assms(3) False p] assms(2) by blast
    ultimately show ?thesis using assms(3) by (intro exI [of _ p]) simp
  next
    case True
    have unsettled: "\<not> inner_settled s n" using turn.settle [OF assms(3) True assms(4)] assms(2) by blast
    show ?thesis
    proof (cases "inner s n")
      case (Some m)
      note made = slots_okD(4) [OF ok(2) assms(3) Some]
      have "key_at s n < key_at s m"
        using slots_okD(3) [OF ok(2) assms(3)] slots_okD(2,3) [OF ok(2), of m] made
          sorted_wrt_nth_less [OF jobs_okD(1) [OF ok(3) j], of "index_at s n" "index_at s m"] by simp
      with made unsettled Some show ?thesis by (intro exI [of _ m]) (simp add: inner_settled_def)
    next
      case None
      have called: "called s ?j" using turn.proceed [OF assms(3) True None refl] assms(2) by blast
      then have finished: "finished s ?j" using turn.finish [OF j] assms(2) by blast
      with unsettled None have "index_at s n + 1 < length (keys_of s ?j)" by (simp add: inner_settled_def)
      from called_slots [OF assms(1) j called this] obtain k where k: "k < slot_count s" "owner s k = ?j"
        "index_at s k = index_at s n + 1" by blast
      then obtain l where l: "l < k" "inner s l = Some k" using slots_okD(6) [OF ok(2), of k] by auto
      with k have "l = n"
        using slots_okD(4) [OF ok(2), of l k] slots_okD(5) [OF ok(2), of l n] assms(3) by simp
      with l None show ?thesis by simp
    qed
  qed
qed

lemma stuck_settled:
  assumes "lock_ok s" "\<And>s'. \<not> turn s s'" "n < slot_count s"
  shows "settled s n"
proof (rule ccontr)
  assume n: "\<not> settled s n"
  define U where "U = {m. m < slot_count s \<and> \<not> settled s m}"
  have U: "finite U" "n \<in> U" using assms(3) n by (simp_all add: U_def)
  define K where "K = Max (key_at s ` U)"
  have K: "K \<in> key_at s ` U" "\<And>m. m \<in> U \<Longrightarrow> key_at s m \<le> K"
    using U unfolding K_def by (auto intro: Max_in)
  define V where "V = {m \<in> U. key_at s m = K}"
  have V: "finite V" "V \<noteq> {}" using U(1) K(1) by (auto simp: V_def)
  let ?v = "Min V"
  have v: "?v < slot_count s" "\<not> settled s ?v" "key_at s ?v = K" using Min_in [OF V] by (auto simp: V_def U_def)
  from stuck_waits [OF assms(1,2) v(1,2)] obtain m where m: "m < slot_count s" "\<not> settled s m"
    "K < key_at s m \<or> key_at s m = K \<and> m < ?v" using v(3) by auto
  then have "m \<in> U" by (simp add: U_def)
  with K(2) [of m] m(3) have "key_at s m = K" "m < ?v" by auto
  with \<open>m \<in> U\<close> have "m \<in> V" by (simp add: V_def)
  with Min_le [OF V(1), of m] \<open>m < ?v\<close> show False by simp
qed

lemma stuck_done:
  assumes "lock_ok s" "\<And>s'. \<not> turn s s'"
  shows "all_done s"
proof -
  have ok: "queue_ok s" "slots_ok s" "jobs_ok s {}" using assms(1) by (simp_all add: lock_ok_def)
  have settled: "settled s n" if "n < slot_count s" for n by (rule stuck_settled [OF assms that])
  have "chains s k = None" for k
  proof (rule ccontr)
    assume "chains s k \<noteq> None"
    then obtain t where t: "chains s k = Some t" by blast
    with queue_okD(2) [OF ok(1), of k] have "t < slot_count s" "key_at s t = k" by (simp_all add: last_before_def)
    with turn.forget [of t s] settled t assms(2) show False by blast
  qed
  moreover have "finished s j" if j: "j < job_count s" for j
  proof (rule ccontr)
    assume unfinished: "\<not> finished s j"
    then have uncalled: "\<not> called s j" using turn.finish [OF j] assms(2) by blast
    then have "keys_of s j \<noteq> []" using jobs_okD(2) [OF ok(3) j] by auto
    from jobs_okD(3) [OF ok(3) j _ this] obtain n where n: "n < slot_count s" "owner s n = j" by auto
    define N where "N = Max {n. n < slot_count s \<and> owner s n = j}"
    have fin: "finite {n. n < slot_count s \<and> owner s n = j}" by simp
    have N: "N < slot_count s" "owner s N = j"
      using Max_in [OF fin] n unfolding N_def by blast+
    have "inner s N = None"
    proof (cases "inner s N")
      case (Some m)
      with slots_okD(4) [OF ok(2) N(1) this] N have "m \<le> N" unfolding N_def by (intro Max_ge) simp_all
      with slots_okD(4) [OF ok(2) N(1) Some] show ?thesis by simp
    qed
    with slots_okD(7) [OF ok(2) N(1) settled [OF N(1)]] N(2) unfinished show False
      by (simp add: inner_settled_def)
  qed
  ultimately show ?thesis using settled by (simp add: all_done_def fun_eq_iff)
qed

text \<open>
  The turns that are left: four for every key that is still to be requested, one for every slot that
  has not started, that has not settled or that is the last one of its key, and one for every task
  that was not called or has not finished.
\<close>

definition slot_work :: "'k store_lock \<Rightarrow> nat \<Rightarrow> nat" where
  "slot_work s n = of_bool (\<not> started s n) + of_bool (\<not> settled s n) + of_bool (chains s (key_at s n) = Some n)"

definition job_work :: "'k store_lock \<Rightarrow> nat \<Rightarrow> nat" where
  "job_work s j = of_bool (\<not> called s j) + of_bool (\<not> finished s j)"

definition keys_left :: "'k store_lock \<Rightarrow> nat" where
  "keys_left s = (\<Sum>j < job_count s. length (keys_of s j)) - slot_count s"

definition work :: "'k store_lock \<Rightarrow> nat" where
  "work s = 4 * keys_left s + (\<Sum>j < job_count s. job_work s j) + (\<Sum>n < slot_count s. slot_work s n)"

lemma slot_count_le:
  assumes "slots_ok s"
  shows "slot_count s \<le> (\<Sum>j < job_count s. length (keys_of s j))"
proof -
  let ?f = "\<lambda>n. (owner s n, index_at s n)" and ?S = "Sigma {..<job_count s} (\<lambda>j. {..<length (keys_of s j)})"
  have "inj_on ?f {..<slot_count s}"
    using slots_okD(5) [OF assms] by (auto intro!: inj_onI)
  moreover have "?f ` {..<slot_count s} \<subseteq> ?S" using slots_okD(1,2) [OF assms] by auto
  ultimately have "card {..<slot_count s} \<le> card ?S" by (intro card_inj_on_le) auto
  then show ?thesis by simp
qed

lemma slot_work_less:
  assumes "n < slot_count s" "slot_work s' n < slot_work s n" "\<And>m. m \<noteq> n \<Longrightarrow> slot_work s' m = slot_work s m"
    "slot_count s' = slot_count s" "job_count s' = job_count s" "job_of s' = job_of s"
  shows "work s' < work s"
proof -
  have "slot_work s' m \<le> slot_work s m" for m using assms(2,3) by (cases "m = n") simp_all
  then have "(\<Sum>m < slot_count s. slot_work s' m) < (\<Sum>m < slot_count s. slot_work s m)"
    using assms(1,2) by (intro sum_strict_mono_ex1) auto
  then show ?thesis using assms(4-6) by (simp add: work_def keys_left_def job_work_def)
qed

lemma job_work_less:
  assumes "j < job_count s" "job_work s' j < job_work s j" "\<And>i. i \<noteq> j \<Longrightarrow> job_work s' i = job_work s i"
    "\<And>i. keys_of s' i = keys_of s i" "job_count s' = job_count s"
    "slot_count s' = slot_count s" "slot_of s' = slot_of s" "chains s' = chains s"
  shows "work s' < work s"
proof -
  have "job_work s' i \<le> job_work s i" for i using assms(2,3) by (cases "i = j") simp_all
  then have "(\<Sum>i < job_count s. job_work s' i) < (\<Sum>i < job_count s. job_work s i)"
    using assms(1,2) by (intro sum_strict_mono_ex1) auto
  then show ?thesis using assms(4-8) by (simp add: work_def keys_left_def slot_work_def)
qed

lemma proceed_work:
  assumes "lock_ok s" "lock_ok (acquire (Some n) j i s)" "taker s (Some n) j i"
  shows "work (acquire (Some n) j i s) < work s"
proof (cases "i < length (keys_of s j)")
  case False
  then have a: "acquire (Some n) j i s = s\<lparr>job_of := (job_of s)(j := (job_of s j)\<lparr>job_called := True\<rparr>)\<rparr>"
    by (simp add: acquire_def call_task_def)
  show ?thesis unfolding a
    by (rule job_work_less [of j]) (use assms(3) in \<open>simp_all add: taker_def job_work_def\<close>)
next
  case True
  let ?s = "acquire (Some n) j i s" and ?N = "slot_count s"
  note new = acquire_key(1-8) [OF assms(3) True] and old = acquire_key(9) [OF assms(3) True]
  have chains: "chains ?s = (chains s)(keys_of s j ! i \<mapsto> ?N)"
    using True by (simp add: acquire_def runInternal_idle add_slot_def Let_def)
  have "slot_work ?s m \<le> slot_work s m" if "m < ?N" for m
    using old [OF that] that by (auto simp: slot_work_def chains)
  then have "(\<Sum>m < ?N. slot_work ?s m) \<le> (\<Sum>m < ?N. slot_work s m)" by (intro sum_mono) auto
  moreover have "slot_work ?s ?N \<le> 3" by (simp add: slot_work_def)
  moreover have "Suc ?N \<le> (\<Sum>j < job_count s. length (keys_of s j))"
    using slot_count_le [of ?s] assms(2) by (simp add: lock_ok_def new(1-3))
  then have "keys_left s = Suc (keys_left ?s)" by (simp add: keys_left_def new(1-3))
  ultimately show ?thesis by (simp add: work_def job_work_def new(1-3))
qed

lemma turn_work:
  assumes "turn s s'" "lock_ok s"
  shows "work s' < work s"
  using assms(1)
proof cases
  case (start n p)
  show ?thesis unfolding start(1) by (rule slot_work_less [OF start(2)]) (use start(3) in \<open>simp_all add: slot_work_def\<close>)
next
  case (proceed n j)
  have "taker s (Some n) j (index_at s n + 1)"
    using proceed slots_okD(1) [of s n] assms(2) by (auto simp: taker_def lock_ok_def)
  with proceed_work [OF assms(2)] turn_ok [OF assms] show ?thesis by (simp add: proceed(1))
next
  case (finish j)
  show ?thesis unfolding finish(1) by (rule job_work_less [OF finish(2)]) (use finish(4) in \<open>simp_all add: job_work_def\<close>)
next
  case (settle n)
  show ?thesis unfolding settle(1) by (rule slot_work_less [OF settle(2)]) (use settle(4) in \<open>simp_all add: slot_work_def\<close>)
next
  case (forget n)
  show ?thesis unfolding forget(1) by (rule slot_work_less [OF forget(2)]) (use forget(4) in \<open>auto simp: slot_work_def\<close>)
qed

text \<open>
  C30: Nobody waits for ever, when every task settles once it was called: the event loop cannot go on
  without end when nobody calls (every turn uses up some of the work that is left), and when no turn is
  left every task of every call has been run to its end and the map of the lock is empty, which is what
  \<open>shutdown\<close> waits for.  In particular tasks that take several keys never block each other.
\<close>

theorem lock_never_stuck:
  assumes "lock_reach s"
  shows "(\<forall>s'. turn s s' \<longrightarrow> work s' < work s) \<and> ((\<forall>s'. \<not> turn s s') \<longrightarrow> all_done s)"
  using turn_work stuck_done lock_reach_ok [OF assms] by blast

text \<open>A task that holds the key 1, and a call for 1 and 3 that waits for it.\<close>

definition sample_first :: "nat store_lock" where
  "sample_first = projr (runMany (Request [1] []) new_lock)"

definition sample_lock :: "nat store_lock" where
  "sample_lock = projr (runMany (Request [3, 1, 3] []) sample_first)"

definition sample_finished :: "nat store_lock" where
  "sample_finished = sample_lock\<lparr>job_of := (job_of sample_lock)(0 := (job_of sample_lock 0)\<lparr>job_finished := True\<rparr>)\<rparr>"

lemma sample_lock_facts:
  "lock_reach sample_lock" "job_count sample_lock = 2" "keys_of sample_lock 0 = [1]"
  "keys_of sample_lock 1 = [1, 3]" "called sample_lock 0" "\<not> finished sample_lock 0"
proof -
  have s: "runMany (Request [1] []) new_lock = Inr sample_first"
    by (simp add: sample_first_def new_lock_def)
  have "\<not> closed sample_first" by code_simp
  then have t: "runMany (Request [3, 1, 3] []) sample_first = Inr sample_lock"
    by (simp add: sample_lock_def)
  have "lock_reach sample_first"
    by (rule lock_reach.step [OF lock_reach.init lock_step.call [OF _ s]]) simp
  then show "lock_reach sample_lock"
    by (rule lock_reach.step [OF _ lock_step.call [OF _ t]]) simp
  show "job_count sample_lock = 2" "keys_of sample_lock 0 = [1]" "keys_of sample_lock 1 = [1, 3]"
    "called sample_lock 0" "\<not> finished sample_lock 0"
    by code_simp+
qed

lemma sample_running: "running sample_lock 0"
  using sample_lock_facts(2,5,6) by (simp add: running_def)

theorem lock_excludes_witness: "running sample_lock 0 \<and> \<not> running sample_lock 1"
proof
  show "running sample_lock 0" by (rule sample_running)
  show "\<not> running sample_lock 1"
  proof
    assume "running sample_lock 1"
    then have "set (keys_of sample_lock 0) \<inter> set (keys_of sample_lock 1) = {}"
      using lock_excludes [OF sample_lock_facts(1)] sample_running zero_neq_one by blast
    then show False by (simp add: sample_lock_facts(3,4) del: One_nat_def)
  qed
qed

theorem lock_never_stuck_witness: "work sample_finished < work sample_lock"
proof -
  have "turn sample_lock sample_finished"
    unfolding sample_finished_def using sample_lock_facts(2,5,6) by (intro turn.finish) simp_all
  then show ?thesis using lock_never_stuck [OF sample_lock_facts(1)] by blast
qed

end
