(* ===== verification/SharedExclusiveGate.thy ===== *)
theory SharedExclusiveGate
  imports Main
begin

text \<open>
  \<open>src/infra/perf/SharedExclusiveGate.ts\<close>: tasks that may run together and tasks that must run alone.
  A call is a client with a phase; the synchronous stretches of the code between two \<open>await\<close>s are the
  operations, and the event loop runs them in any order.
\<close>

subsection \<open>State\<close>

text \<open>
  A waiting client has its resolver in \<open>waiters\<close>; a woken one has been resolved and its continuation is
  due.
\<close>

datatype phase =
    SharedWaiting | SharedWoken | SharedRunning
  | ExclusiveWaiting | ExclusiveWoken | ExclusiveRunning
  | CloseWaiting | CloseWoken
  | Done | Rejected

record gate =
  activeShared :: nat
  pendingExclusive :: nat
  exclusiveActive :: bool
  gate_closed :: bool
  waiters :: "nat list"
  phases :: "phase list"

definition new_gate :: gate where
  "new_gate = \<lparr>activeShared = 0, pendingExclusive = 0, exclusiveActive = False, gate_closed = False,
     waiters = [], phases = []\<rparr>"

subsection \<open>Operations\<close>

fun woken :: "phase \<Rightarrow> phase" where
  "woken SharedWaiting = SharedWoken"
| "woken ExclusiveWaiting = ExclusiveWoken"
| "woken CloseWaiting = CloseWoken"
| "woken p = p"

definition notifyStateChange :: "gate \<Rightarrow> gate" where
  "notifyStateChange g = g\<lparr>phases := fold (\<lambda>c ps. ps[c := woken (ps ! c)]) (waiters g) (phases g), waiters := []\<rparr>"

definition set_phase :: "nat \<Rightarrow> phase \<Rightarrow> gate \<Rightarrow> gate" where
  "set_phase c p g = g\<lparr>phases := (phases g)[c := p]\<rparr>"

definition waitForStateChange :: "nat \<Rightarrow> phase \<Rightarrow> gate \<Rightarrow> gate" where
  "waitForStateChange c p g = set_phase c p (g\<lparr>waiters := waiters g @ [c]\<rparr>)"

text \<open>The loop of \<open>acquireShared\<close>, up to the next \<open>await\<close> or the end.\<close>

definition shared_loop :: "nat \<Rightarrow> gate \<Rightarrow> gate" where
  "shared_loop c g =
    (if exclusiveActive g \<or> 0 < pendingExclusive g then waitForStateChange c SharedWaiting g
     else set_phase c SharedRunning (g\<lparr>activeShared := activeShared g + 1\<rparr>))"

definition runShared :: "nat \<Rightarrow> gate \<Rightarrow> gate" where
  "runShared c g =
    (if gate_closed g then set_phase c Rejected g
     else if \<not> exclusiveActive g \<and> pendingExclusive g = 0
          then set_phase c SharedRunning (g\<lparr>activeShared := activeShared g + 1\<rparr>)
     else shared_loop c g)"

definition resume_shared :: "nat \<Rightarrow> gate \<Rightarrow> gate" where
  "resume_shared c g = (if gate_closed g then set_phase c Rejected g else shared_loop c g)"

definition finish_shared :: "nat \<Rightarrow> gate \<Rightarrow> gate" where
  "finish_shared c g = notifyStateChange (set_phase c Done (g\<lparr>activeShared := activeShared g - 1\<rparr>))"

text \<open>The \<open>finally\<close> of \<open>acquireExclusive\<close>.\<close>

definition leave_pending :: "gate \<Rightarrow> gate" where
  "leave_pending g = notifyStateChange (g\<lparr>pendingExclusive := pendingExclusive g - 1\<rparr>)"

definition exclusive_loop :: "nat \<Rightarrow> gate \<Rightarrow> gate" where
  "exclusive_loop c g =
    (if exclusiveActive g \<or> 0 < activeShared g then waitForStateChange c ExclusiveWaiting g
     else leave_pending (set_phase c ExclusiveRunning (g\<lparr>exclusiveActive := True\<rparr>)))"

definition runExclusive :: "nat \<Rightarrow> gate \<Rightarrow> gate" where
  "runExclusive c g =
    (if gate_closed g then set_phase c Rejected g
     else exclusive_loop c (notifyStateChange (g\<lparr>pendingExclusive := pendingExclusive g + 1\<rparr>)))"

definition resume_exclusive :: "nat \<Rightarrow> gate \<Rightarrow> gate" where
  "resume_exclusive c g =
    (if gate_closed g then leave_pending (set_phase c Rejected g) else exclusive_loop c g)"

definition finish_exclusive :: "nat \<Rightarrow> gate \<Rightarrow> gate" where
  "finish_exclusive c g = notifyStateChange (set_phase c Done (g\<lparr>exclusiveActive := False\<rparr>))"

definition close_loop :: "nat \<Rightarrow> gate \<Rightarrow> gate" where
  "close_loop c g =
    (if 0 < activeShared g \<or> exclusiveActive g \<or> 0 < pendingExclusive g
     then waitForStateChange c CloseWaiting g else set_phase c Done g)"

definition close_gate :: "nat \<Rightarrow> gate \<Rightarrow> gate" where
  "close_gate c g =
    (if gate_closed g then close_loop c g
     else close_loop c (notifyStateChange (g\<lparr>gate_closed := True\<rparr>)))"

subsection \<open>Steps\<close>

text \<open>A call is a new client; what the event loop may do next is a turn.\<close>

definition new_client :: "gate \<Rightarrow> gate" where
  "new_client g = g\<lparr>phases := phases g @ [Rejected]\<rparr>"

inductive gate_turn :: "gate \<Rightarrow> gate \<Rightarrow> bool" where
  shared: "c < length (phases g) \<Longrightarrow> phases g ! c = SharedWoken \<Longrightarrow> gate_turn g (resume_shared c g)"
| shared_end: "c < length (phases g) \<Longrightarrow> phases g ! c = SharedRunning \<Longrightarrow> gate_turn g (finish_shared c g)"
| exclusive: "c < length (phases g) \<Longrightarrow> phases g ! c = ExclusiveWoken \<Longrightarrow> gate_turn g (resume_exclusive c g)"
| exclusive_end: "c < length (phases g) \<Longrightarrow> phases g ! c = ExclusiveRunning \<Longrightarrow> gate_turn g (finish_exclusive c g)"
| closing: "c < length (phases g) \<Longrightarrow> phases g ! c = CloseWoken \<Longrightarrow> gate_turn g (close_loop c g)"

inductive gate_reach :: "gate \<Rightarrow> bool" where
  start: "gate_reach new_gate"
| call_shared: "gate_reach g \<Longrightarrow> gate_reach (runShared (length (phases g)) (new_client g))"
| call_exclusive: "gate_reach g \<Longrightarrow> gate_reach (runExclusive (length (phases g)) (new_client g))"
| call_close: "gate_reach g \<Longrightarrow> gate_reach (close_gate (length (phases g)) (new_client g))"
| turn: "gate_reach g \<Longrightarrow> gate_turn g g' \<Longrightarrow> gate_reach g'"

subsection \<open>Counting clients\<close>

definition num :: "(phase \<Rightarrow> bool) \<Rightarrow> phase list \<Rightarrow> nat" where
  "num P ps = length (filter P ps)"

lemma num_update:
  "c < length ps \<Longrightarrow> num P (ps[c := p]) + of_bool (P (ps ! c)) = num P ps + of_bool (P p)"
proof (induction ps arbitrary: c)
  case (Cons q ps)
  then show ?case by (cases c) (auto simp: num_def)
qed simp

lemma num_append [simp]: "num P (ps @ qs) = num P ps + num P qs"
  by (simp add: num_def)

lemma num_pos: "0 < num P ps \<longleftrightarrow> (\<exists>c < length ps. P (ps ! c))"
  by (auto simp: num_def filter_empty_conv set_conv_nth)

definition waiting :: "phase \<Rightarrow> bool" where
  "waiting p \<longleftrightarrow> p \<in> {SharedWaiting, ExclusiveWaiting, CloseWaiting}"

definition pending :: "phase \<Rightarrow> bool" where
  "pending p \<longleftrightarrow> p \<in> {ExclusiveWaiting, ExclusiveWoken}"

text \<open>What a waiting client waits for to end.\<close>

definition blocked :: "gate \<Rightarrow> phase \<Rightarrow> bool" where
  "blocked g p \<longleftrightarrow>
    (p = SharedWaiting \<longrightarrow> exclusiveActive g \<or> 0 < pendingExclusive g) \<and>
    (p = ExclusiveWaiting \<longrightarrow> exclusiveActive g \<or> 0 < activeShared g) \<and>
    (p = CloseWaiting \<longrightarrow> 0 < activeShared g \<or> exclusiveActive g \<or> 0 < pendingExclusive g)"

text \<open>
  The counters agree with the clients (\<open>n\<close> exclusive clients are counted beyond those that wait, in the
  middle of an operation), and an exclusive task runs alone.
\<close>

definition counts_ok :: "nat \<Rightarrow> gate \<Rightarrow> bool" where
  "counts_ok n g \<longleftrightarrow>
    activeShared g = num (\<lambda>p. p = SharedRunning) (phases g) \<and>
    pendingExclusive g = num pending (phases g) + n \<and>
    num (\<lambda>p. p = ExclusiveRunning) (phases g) = of_bool (exclusiveActive g) \<and>
    (exclusiveActive g \<longrightarrow> activeShared g = 0)"

definition waiters_ok :: "gate \<Rightarrow> bool" where
  "waiters_ok g \<longleftrightarrow> (\<forall>c. c \<in> set (waiters g) \<longleftrightarrow> c < length (phases g) \<and> waiting (phases g ! c))"

text \<open>Whoever waits has a reason to.\<close>

definition blocked_ok :: "gate \<Rightarrow> bool" where
  "blocked_ok g \<longleftrightarrow> (\<forall>p \<in> set (phases g). blocked g p)"

definition gate_ok :: "gate \<Rightarrow> bool" where
  "gate_ok g \<longleftrightarrow> counts_ok 0 g \<and> waiters_ok g \<and> blocked_ok g"

lemma woken_simps [simp]:
  "woken (woken p) = woken p" "woken p = SharedRunning \<longleftrightarrow> p = SharedRunning"
  "woken p = ExclusiveRunning \<longleftrightarrow> p = ExclusiveRunning" "pending (woken p) = pending p" "\<not> waiting (woken p)"
  "\<not> waiting p \<Longrightarrow> woken p = p"
  by (cases p; simp add: pending_def waiting_def)+

lemma fold_woken:
  "length (fold (\<lambda>c ps. ps[c := woken (ps ! c)]) ws ps) = length ps \<and>
    (\<forall>i < length ps. fold (\<lambda>c ps. ps[c := woken (ps ! c)]) ws ps ! i =
      (if i \<in> set ws then woken (ps ! i) else ps ! i))"
proof (induction ws arbitrary: ps)
  case (Cons w ws)
  have "woken (ps[w := woken (ps ! w)] ! i) = woken (ps ! i)" if "i < length ps" for i
    using that by (cases "i = w") simp_all
  with Cons [of "ps[w := woken (ps ! w)]"] show ?case by (auto simp: nth_list_update)
qed simp

lemma notify_eq:
  assumes "waiters_ok g"
  shows "notifyStateChange g = g\<lparr>phases := map woken (phases g), waiters := []\<rparr>"
proof -
  have "fold (\<lambda>c ps. ps[c := woken (ps ! c)]) (waiters g) (phases g) = map woken (phases g)"
    using fold_woken [of "waiters g" "phases g"] assms by (intro nth_equalityI) (auto simp: waiters_ok_def)
  then show ?thesis by (simp add: notifyStateChange_def)
qed

lemma num_map_woken:
  "num (\<lambda>p. p = SharedRunning) (map woken ps) = num (\<lambda>p. p = SharedRunning) ps"
  "num (\<lambda>p. p = ExclusiveRunning) (map woken ps) = num (\<lambda>p. p = ExclusiveRunning) ps"
  "num pending (map woken ps) = num pending ps"
  by (simp_all add: num_def filter_map comp_def)

text \<open>After a notification nobody waits.\<close>

lemma notify_ok:
  assumes "counts_ok n g" "waiters_ok g"
  shows "counts_ok n (notifyStateChange g)" "waiters_ok (notifyStateChange g)" "blocked_ok (notifyStateChange g)"
proof -
  have "blocked h (woken p)" for h p by (cases p) (simp_all add: blocked_def)
  then show "blocked_ok (notifyStateChange g)" by (simp add: notify_eq [OF assms(2)] blocked_ok_def)
  show "counts_ok n (notifyStateChange g)"
    using assms(1) by (auto simp: notify_eq [OF assms(2)] counts_ok_def num_map_woken)
qed (simp add: notify_eq [OF assms(2)] waiters_ok_def)

lemma notify_fields [simp]:
  "activeShared (notifyStateChange g) = activeShared g" "pendingExclusive (notifyStateChange g) = pendingExclusive g"
  "exclusiveActive (notifyStateChange g) = exclusiveActive g" "gate_closed (notifyStateChange g) = gate_closed g"
  "length (phases (notifyStateChange g)) = length (phases g)"
  using fold_woken [of "waiters g" "phases g"] by (simp_all add: notifyStateChange_def)

subsection \<open>One client changes its phase\<close>

lemma set_phase_waiters:
  assumes "waiters_ok g" "c < length (phases g)" "\<not> waiting (phases g ! c)" "\<not> waiting p"
  shows "waiters_ok (set_phase c p (g\<lparr>activeShared := a, pendingExclusive := e, exclusiveActive := x, gate_closed := d\<rparr>))"
  using assms by (auto simp: waiters_ok_def set_phase_def nth_list_update)

lemma wait_waiters:
  assumes "waiters_ok g" "c < length (phases g)" "waiting p"
  shows "waiters_ok (waitForStateChange c p g)"
  using assms by (auto simp: waiters_ok_def waitForStateChange_def set_phase_def nth_list_update)

lemma wait_blocked:
  assumes "blocked_ok g" "blocked g p"
  shows "blocked_ok (waitForStateChange c p g)"
proof -
  have "blocked (waitForStateChange c p g) q = blocked g q" for q
    by (simp add: blocked_def waitForStateChange_def set_phase_def)
  with assms show ?thesis
    using set_update_subset_insert [of "phases g" c p]
    by (auto simp: blocked_ok_def waitForStateChange_def set_phase_def)
qed

lemmas phase_counts = num_update [where P = "\<lambda>p. p = SharedRunning"] num_update [where P = "\<lambda>p. p = ExclusiveRunning"]
  num_update [where P = pending]

lemma shared_loop_ok:
  assumes "gate_ok g" "c < length (phases g)" "phases g ! c = SharedWoken \<or> phases g ! c = Rejected"
  shows "gate_ok (shared_loop c g)"
proof (cases "exclusiveActive g \<or> 0 < pendingExclusive g")
  case True
  have "counts_ok 0 (waitForStateChange c SharedWaiting g)"
    using assms phase_counts [OF assms(2), of SharedWaiting]
    by (auto simp: gate_ok_def counts_ok_def waitForStateChange_def set_phase_def pending_def)
  with True assms wait_waiters [OF _ assms(2), of SharedWaiting] wait_blocked [of g SharedWaiting c] show ?thesis
    by (simp add: shared_loop_def gate_ok_def waiting_def blocked_def)
next
  case False
  let ?g = "set_phase c SharedRunning (g\<lparr>activeShared := activeShared g + 1\<rparr>)"
  have "counts_ok 0 ?g"
    using assms False phase_counts [OF assms(2), of SharedRunning]
    by (auto simp: gate_ok_def counts_ok_def set_phase_def pending_def)
  moreover have "waiters_ok ?g"
    using assms set_phase_waiters [where g = g and c = c and p = SharedRunning and a = "activeShared g + 1" and e = "pendingExclusive g" and x = "exclusiveActive g" and d = "gate_closed g"]
    by (auto simp: gate_ok_def waiting_def)
  moreover have "blocked_ok ?g"
    using assms False set_update_subset_insert [of "phases g" c SharedRunning]
    by (auto simp: gate_ok_def blocked_ok_def blocked_def set_phase_def)
  ultimately show ?thesis using False by (simp add: shared_loop_def gate_ok_def)
qed

lemma reject_ok:
  assumes "gate_ok g" "c < length (phases g)" "phases g ! c \<in> {SharedWoken, CloseWoken, Rejected}" "p \<in> {Rejected, Done}"
  shows "gate_ok (set_phase c p g)"
proof -
  have "counts_ok 0 (set_phase c p g)"
    using assms phase_counts [OF assms(2), of p] by (auto simp: gate_ok_def counts_ok_def set_phase_def pending_def)
  moreover have "waiters_ok (set_phase c p g)"
    using assms set_phase_waiters [where g = g and c = c and p = p and a = "activeShared g" and e = "pendingExclusive g" and x = "exclusiveActive g" and d = "gate_closed g"]
    by (auto simp: gate_ok_def waiting_def)
  moreover have "blocked_ok (set_phase c p g)"
    using assms set_update_subset_insert [of "phases g" c p]
    by (auto simp: gate_ok_def blocked_ok_def blocked_def set_phase_def)
  ultimately show ?thesis by (simp add: gate_ok_def)
qed

text \<open>An operation that ends with a notification.\<close>

lemma notify_gate_ok: "counts_ok 0 g \<Longrightarrow> waiters_ok g \<Longrightarrow> gate_ok (notifyStateChange g)"
  by (simp add: gate_ok_def notify_ok)

lemma finish_shared_ok:
  assumes "gate_ok g" "c < length (phases g)" "phases g ! c = SharedRunning"
  shows "gate_ok (finish_shared c g)"
  unfolding finish_shared_def
proof (rule notify_gate_ok)
  show "counts_ok 0 (set_phase c Done (g\<lparr>activeShared := activeShared g - 1\<rparr>))"
    using assms phase_counts [OF assms(2), of Done]
    by (auto simp: gate_ok_def counts_ok_def set_phase_def pending_def)
  show "waiters_ok (set_phase c Done (g\<lparr>activeShared := activeShared g - 1\<rparr>))"
    using assms set_phase_waiters [where g = g and c = c and p = Done and a = "activeShared g - 1" and e = "pendingExclusive g" and x = "exclusiveActive g" and d = "gate_closed g"]
    by (auto simp: gate_ok_def waiting_def)
qed

lemma finish_exclusive_ok:
  assumes "gate_ok g" "c < length (phases g)" "phases g ! c = ExclusiveRunning"
  shows "gate_ok (finish_exclusive c g)"
  unfolding finish_exclusive_def
proof (rule notify_gate_ok)
  have "0 < num (\<lambda>p. p = ExclusiveRunning) (phases g)" using assms num_pos by auto
  then show "counts_ok 0 (set_phase c Done (g\<lparr>exclusiveActive := False\<rparr>))"
    using assms phase_counts [OF assms(2), of Done]
    by (auto simp: gate_ok_def counts_ok_def set_phase_def pending_def)
  show "waiters_ok (set_phase c Done (g\<lparr>exclusiveActive := False\<rparr>))"
    using assms set_phase_waiters [where g = g and c = c and p = Done and a = "activeShared g" and e = "pendingExclusive g" and x = False and d = "gate_closed g"]
    by (auto simp: gate_ok_def waiting_def)
qed

lemma leave_pending_ok:
  assumes "counts_ok 1 g" "waiters_ok g"
  shows "gate_ok (leave_pending g)"
  unfolding leave_pending_def
proof (rule notify_gate_ok)
  show "counts_ok 0 (g\<lparr>pendingExclusive := pendingExclusive g - 1\<rparr>)"
    using assms(1) by (auto simp: counts_ok_def)
  show "waiters_ok (g\<lparr>pendingExclusive := pendingExclusive g - 1\<rparr>)"
    using assms(2) unfolding waiters_ok_def by simp
qed

text \<open>\<open>n\<close> is 1 when the client is counted already but its phase does not say so yet.\<close>

lemma exclusive_loop_ok:
  assumes "counts_ok n g" "waiters_ok g" "blocked_ok g" "c < length (phases g)"
    "(n = 0 \<and> phases g ! c = ExclusiveWoken) \<or> (n = 1 \<and> phases g ! c = Rejected)"
  shows "gate_ok (exclusive_loop c g)"
proof (cases "exclusiveActive g \<or> 0 < activeShared g")
  case True
  have "counts_ok 0 (waitForStateChange c ExclusiveWaiting g)"
    using assms phase_counts [OF assms(4), of ExclusiveWaiting]
    by (auto simp: counts_ok_def waitForStateChange_def set_phase_def pending_def)
  with True assms wait_waiters [OF _ assms(4), of ExclusiveWaiting] wait_blocked [of g ExclusiveWaiting c] show ?thesis
    by (simp add: exclusive_loop_def gate_ok_def waiting_def blocked_def)
next
  case False
  have "counts_ok 1 (set_phase c ExclusiveRunning (g\<lparr>exclusiveActive := True\<rparr>))"
    using assms False phase_counts [OF assms(4), of ExclusiveRunning]
    by (auto simp: counts_ok_def set_phase_def pending_def)
  moreover have "waiters_ok (set_phase c ExclusiveRunning (g\<lparr>exclusiveActive := True\<rparr>))"
    using assms set_phase_waiters [where g = g and c = c and p = ExclusiveRunning and a = "activeShared g" and e = "pendingExclusive g" and x = True and d = "gate_closed g"]
    by (auto simp: waiting_def)
  ultimately show ?thesis using False leave_pending_ok by (simp add: exclusive_loop_def)
qed

lemma resume_exclusive_ok:
  assumes "gate_ok g" "c < length (phases g)" "phases g ! c = ExclusiveWoken"
  shows "gate_ok (resume_exclusive c g)"
proof (cases "gate_closed g")
  case True
  have "counts_ok 1 (set_phase c Rejected g)"
    using assms phase_counts [OF assms(2), of Rejected] by (auto simp: gate_ok_def counts_ok_def set_phase_def pending_def)
  moreover have "waiters_ok (set_phase c Rejected g)"
    using assms set_phase_waiters [where g = g and c = c and p = Rejected and a = "activeShared g" and e = "pendingExclusive g" and x = "exclusiveActive g" and d = "gate_closed g"]
    by (auto simp: gate_ok_def waiting_def)
  ultimately show ?thesis using True leave_pending_ok by (simp add: resume_exclusive_def)
next
  case False
  then show ?thesis
    using assms exclusive_loop_ok [of 0 g c] by (simp add: resume_exclusive_def gate_ok_def)
qed

lemma close_loop_ok:
  assumes "gate_ok g" "c < length (phases g)" "phases g ! c = CloseWoken \<or> phases g ! c = Rejected"
  shows "gate_ok (close_loop c g)"
proof (cases "0 < activeShared g \<or> exclusiveActive g \<or> 0 < pendingExclusive g")
  case True
  have "counts_ok 0 (waitForStateChange c CloseWaiting g)"
    using assms phase_counts [OF assms(2), of CloseWaiting]
    by (auto simp: gate_ok_def counts_ok_def waitForStateChange_def set_phase_def pending_def)
  with True assms wait_waiters [OF _ assms(2), of CloseWaiting] wait_blocked [of g CloseWaiting c] show ?thesis
    by (simp add: close_loop_def gate_ok_def waiting_def blocked_def)
next
  case False
  then show ?thesis using reject_ok [OF assms(1,2), of Done] assms(3) by (auto simp: close_loop_def)
qed

lemma gate_turn_ok: "gate_turn g g' \<Longrightarrow> gate_ok g \<Longrightarrow> gate_ok g'"
  by (erule gate_turn.cases)
    (auto simp: resume_shared_def reject_ok shared_loop_ok finish_shared_ok resume_exclusive_ok finish_exclusive_ok close_loop_ok)

subsection \<open>Calls\<close>

lemma new_client_ok:
  assumes "gate_ok g"
  shows "gate_ok (new_client g)" "phases (new_client g) ! length (phases g) = Rejected"
    "length (phases g) < length (phases (new_client g))"
proof -
  have "blocked (new_client g) p = blocked g p" for p by (simp add: blocked_def new_client_def)
  then have "blocked_ok (new_client g)" using assms by (auto simp: gate_ok_def blocked_ok_def blocked_def new_client_def)
  moreover have "counts_ok 0 (new_client g)"
    using assms by (auto simp: gate_ok_def counts_ok_def new_client_def num_def pending_def)
  moreover have "waiters_ok (new_client g)"
    using assms unfolding gate_ok_def waiters_ok_def
    by (auto simp: new_client_def nth_append less_Suc_eq waiting_def)
  ultimately show "gate_ok (new_client g)" by (simp add: gate_ok_def)
qed (simp_all add: new_client_def)

lemma set_phase_self: "c < length (phases g) \<Longrightarrow> phases g ! c = p \<Longrightarrow> set_phase c p g = g"
  by (cases g) (auto simp: set_phase_def)

lemma runShared_ok:
  assumes "gate_ok g"
  shows "gate_ok (runShared (length (phases g)) (new_client g))"
proof -
  note c = new_client_ok [OF assms]
  have "runShared (length (phases g)) (new_client g) =
      (if gate_closed (new_client g) then set_phase (length (phases g)) Rejected (new_client g)
       else shared_loop (length (phases g)) (new_client g))"
    by (simp add: runShared_def shared_loop_def)
  with shared_loop_ok [OF c(1,3)] c show ?thesis by (simp add: set_phase_self)
qed

lemma runExclusive_ok:
  assumes "gate_ok g"
  shows "gate_ok (runExclusive (length (phases g)) (new_client g))"
proof -
  note c = new_client_ok [OF assms]
  let ?g = "(new_client g)\<lparr>pendingExclusive := pendingExclusive (new_client g) + 1\<rparr>"
  have "counts_ok 1 ?g" using c(1) by (auto simp: gate_ok_def counts_ok_def)
  moreover have w: "waiters_ok ?g" using c(1) unfolding gate_ok_def waiters_ok_def by simp
  ultimately have n: "counts_ok 1 (notifyStateChange ?g)" "waiters_ok (notifyStateChange ?g)"
    "blocked_ok (notifyStateChange ?g)" by (blast intro: notify_ok)+
  have "phases (notifyStateChange ?g) = map woken (phases (new_client g))" using notify_eq [OF w] by simp
  then have "phases (notifyStateChange ?g) ! length (phases g) = Rejected" using c(2,3) by simp
  with n c(3) have "gate_ok (exclusive_loop (length (phases g)) (notifyStateChange ?g))"
    by (intro exclusive_loop_ok [of 1]) simp_all
  then show ?thesis using c by (simp add: runExclusive_def set_phase_self)
qed

lemma close_gate_ok:
  assumes "gate_ok g"
  shows "gate_ok (close_gate (length (phases g)) (new_client g))"
proof -
  note c = new_client_ok [OF assms]
  let ?g = "(new_client g)\<lparr>gate_closed := True\<rparr>"
  have "counts_ok 0 ?g" using c(1) by (auto simp: gate_ok_def counts_ok_def)
  moreover have w: "waiters_ok ?g" using c(1) unfolding gate_ok_def waiters_ok_def by simp
  ultimately have "gate_ok (notifyStateChange ?g)" by (rule notify_gate_ok)
  from close_loop_ok [OF this, of "length (phases g)"] close_loop_ok [OF c(1,3)] c(2,3) show ?thesis
    by (simp add: close_gate_def notify_eq [OF w])
qed

lemma gate_reach_ok: "gate_reach g \<Longrightarrow> gate_ok g"
proof (induction rule: gate_reach.induct)
  case start
  show ?case by (simp add: gate_ok_def counts_ok_def waiters_ok_def blocked_ok_def new_gate_def num_def)
qed (simp_all add: runShared_ok runExclusive_ok close_gate_ok gate_turn_ok)

subsection \<open>Progress\<close>

text \<open>A client has at most three turns that count: to be admitted, to end, to be told that the gate closed.\<close>

definition phase_work :: "phase \<Rightarrow> nat" where
  "phase_work p = (if p \<in> {Done, Rejected} then 0 else if p \<in> {SharedRunning, ExclusiveRunning} then 1 else 2)"

definition gate_work :: "gate \<Rightarrow> nat \<times> nat" where
  "gate_work g = (sum_list (map phase_work (phases g)),
     num (\<lambda>p. p \<in> {SharedWoken, ExclusiveWoken, CloseWoken}) (phases g))"

lemma sum_list_set:
  "c < length ps \<Longrightarrow> sum_list (map phase_work (ps[c := p])) + phase_work (ps ! c) = sum_list (map phase_work ps) + phase_work p"
proof (induction ps arbitrary: c)
  case (Cons q ps)
  then show ?case by (cases c) (auto simp: algebra_simps)
qed simp

lemma phase_work_woken [simp]: "phase_work (woken p) = phase_work p"
  by (cases p) (simp_all add: phase_work_def)

lemma notify_work:
  "waiters_ok g \<Longrightarrow> sum_list (map phase_work (phases (notifyStateChange g))) = sum_list (map phase_work (phases g))"
  by (simp add: notify_eq comp_def)

text \<open>A turn either settles something for good, or sends one woken client back to wait.\<close>

lemma loop_back:
  assumes "c < length (phases g)" "phases g ! c = q"
    "phase_work q = 2" "q \<in> {SharedWoken, ExclusiveWoken, CloseWoken}"
    "p \<in> {SharedWaiting, ExclusiveWaiting, CloseWaiting}"
  shows "(gate_work (waitForStateChange c p g), gate_work g) \<in> less_than <*lex*> less_than"
proof -
  have "phase_work p = 2" using assms(5) by (auto simp: phase_work_def)
  then have "sum_list (map phase_work ((phases g)[c := p])) = sum_list (map phase_work (phases g))"
    using sum_list_set [OF assms(1), of p] assms(2,3) by simp
  moreover have "num (\<lambda>p. p \<in> {SharedWoken, ExclusiveWoken, CloseWoken}) ((phases g)[c := p]) + 1 =
      num (\<lambda>p. p \<in> {SharedWoken, ExclusiveWoken, CloseWoken}) (phases g)"
    using num_update [OF assms(1), where P = "\<lambda>p. p \<in> {SharedWoken, ExclusiveWoken, CloseWoken}" and p = p] assms(2,4,5)
    by (auto split: if_splits)
  ultimately show ?thesis by (simp add: gate_work_def waitForStateChange_def set_phase_def)
qed

lemma settles:
  assumes "c < length (phases g)" "phase_work p < phase_work (phases g ! c)" "phases g' = (phases g)[c := p]"
  shows "sum_list (map phase_work (phases g')) < sum_list (map phase_work (phases g))"
  using sum_list_set [OF assms(1), of p] assms(2,3) by simp

lemma gate_work_less:
  "sum_list (map phase_work (phases g')) < sum_list (map phase_work (phases g)) \<Longrightarrow>
    (gate_work g', gate_work g) \<in> less_than <*lex*> less_than"
  by (simp add: gate_work_def)

text \<open>The same, with a notification at the end.\<close>

lemma settles_notify:
  assumes "waiters_ok g" "c < length (phases g)" "phase_work p < phase_work (phases g ! c)" "\<not> waiting p"
    "\<not> waiting (phases g ! c)" "phases g' = (phases g)[c := p]" "waiters g' = waiters g"
  shows "(gate_work (notifyStateChange g'), gate_work g) \<in> less_than <*lex*> less_than"
proof -
  have "waiters_ok g'" using assms by (auto simp: waiters_ok_def nth_list_update)
  from notify_work [OF this] settles [OF assms(2,3,6)] show ?thesis by (intro gate_work_less) simp
qed

lemma gate_turn_work:
  assumes "gate_turn g g'" "gate_ok g"
  shows "(gate_work g', gate_work g) \<in> less_than <*lex*> less_than"
  using assms(1)
proof cases
  case (shared c)
  have "(gate_work (set_phase c p (g\<lparr>activeShared := a\<rparr>)), gate_work g) \<in> less_than <*lex*> less_than"
    if "p \<in> {Rejected, SharedRunning}" for p a
    using shared that by (intro gate_work_less settles [where c = c and p = p]) (auto simp: set_phase_def phase_work_def)
  from this [of Rejected "activeShared g"] this [of SharedRunning "activeShared g + 1"] show ?thesis
    using loop_back [OF shared(2,3), of SharedWaiting] shared
    by (auto simp: resume_shared_def shared_loop_def phase_work_def)
next
  case (shared_end c)
  then show ?thesis
    using assms(2) unfolding finish_shared_def shared_end(1)
    by (intro settles_notify [where c = c and p = Done])
      (auto simp: gate_ok_def set_phase_def phase_work_def waiting_def)
next
  case (exclusive_end c)
  then show ?thesis
    using assms(2) unfolding finish_exclusive_def exclusive_end(1)
    by (intro settles_notify [where c = c and p = Done])
      (auto simp: gate_ok_def set_phase_def phase_work_def waiting_def)
next
  case (exclusive c)
  have "(gate_work (leave_pending (set_phase c p (g\<lparr>exclusiveActive := x\<rparr>))), gate_work g) \<in> less_than <*lex*> less_than"
    if "p \<in> {ExclusiveRunning, Rejected}" for p x
    using assms(2) exclusive that unfolding leave_pending_def
    by (intro settles_notify [where c = c and p = p])
      (auto simp: gate_ok_def set_phase_def phase_work_def waiting_def)
  from this [of Rejected "exclusiveActive g"] this [of ExclusiveRunning True] show ?thesis
    using loop_back [OF exclusive(2,3), of ExclusiveWaiting] exclusive
    by (auto simp: resume_exclusive_def exclusive_loop_def phase_work_def)
next
  case (closing c)
  then show ?thesis
    using loop_back [OF closing(2,3), of CloseWaiting]
    by (auto simp: close_loop_def set_phase_def phase_work_def
        intro!: gate_work_less settles [where c = c and p = Done])
qed

lemma gate_stuck_done:
  assumes "gate_ok g" "\<And>g'. \<not> gate_turn g g'" "c < length (phases g)"
  shows "phases g ! c \<in> {Done, Rejected}"
proof -
  have none: "phases g ! i \<notin> {SharedWoken, SharedRunning, ExclusiveWoken, ExclusiveRunning, CloseWoken}"
    if "i < length (phases g)" for i
    using assms(2) gate_turn.intros [OF that] by blast
  have "\<not> 0 < num (\<lambda>p. p = SharedRunning) (phases g)" "\<not> 0 < num (\<lambda>p. p = ExclusiveRunning) (phases g)"
    unfolding num_pos using none by blast+
  then have idle: "activeShared g = 0" "\<not> exclusiveActive g"
    using assms(1) by (auto simp: gate_ok_def counts_ok_def)
  have blocked: "blocked g (phases g ! i)" if "i < length (phases g)" for i
    using assms(1) that by (auto simp: gate_ok_def blocked_ok_def)
  have "phases g ! i \<noteq> ExclusiveWaiting" if "i < length (phases g)" for i
    using blocked [OF that] idle by (auto simp: blocked_def)
  then have "\<not> 0 < num pending (phases g)" unfolding num_pos pending_def using none by blast
  then have "pendingExclusive g = 0" using assms(1) by (simp add: gate_ok_def counts_ok_def)
  with blocked [OF assms(3)] none [OF assms(3)] idle show ?thesis
    by (cases "phases g ! c") (auto simp: blocked_def)
qed

text \<open>
  C31: The gate keeps its promise: an exclusive task never runs together with another task, the counters
  agree with the tasks, and no client is forgotten: the event loop cannot go on without end when nobody
  calls, and when it has nothing left to do every task has run or was turned away by \<open>close\<close>.
\<close>

theorem gate_exclusive:
  assumes "gate_reach g"
  shows "(\<forall>c c'. c < length (phases g) \<longrightarrow> c' < length (phases g) \<longrightarrow> c \<noteq> c' \<longrightarrow>
      phases g ! c = ExclusiveRunning \<longrightarrow> phases g ! c' \<notin> {SharedRunning, ExclusiveRunning}) \<and>
    activeShared g = num (\<lambda>p. p = SharedRunning) (phases g) \<and>
    (\<forall>g'. gate_turn g g' \<longrightarrow> (gate_work g', gate_work g) \<in> less_than <*lex*> less_than) \<and>
    ((\<forall>g'. \<not> gate_turn g g') \<longrightarrow> set (phases g) \<subseteq> {Done, Rejected})"
proof -
  have ok: "gate_ok g" by (rule gate_reach_ok [OF assms])
  have one: "num (\<lambda>p. p = ExclusiveRunning) (phases g) = of_bool (exclusiveActive g)"
    and shared: "activeShared g = num (\<lambda>p. p = SharedRunning) (phases g)"
    "exclusiveActive g \<longrightarrow> activeShared g = 0"
    using ok by (auto simp: gate_ok_def counts_ok_def)
  have "phases g ! c' \<notin> {SharedRunning, ExclusiveRunning}"
    if c: "c < length (phases g)" "c' < length (phases g)" "c \<noteq> c'" "phases g ! c = ExclusiveRunning" for c c'
  proof -
    have active: "exclusiveActive g" using one num_pos [of "\<lambda>p. p = ExclusiveRunning" "phases g"] c(1,4) by auto
    then have "\<not> 0 < num (\<lambda>p. p = SharedRunning) (phases g)" using shared by simp
    then have "phases g ! c' \<noteq> SharedRunning" unfolding num_pos using c(2) by blast
    moreover have "phases g ! c' \<noteq> ExclusiveRunning"
    proof
      assume "phases g ! c' = ExclusiveRunning"
      then have "0 < num (\<lambda>p. p = ExclusiveRunning) ((phases g)[c := Done])"
        unfolding num_pos using c by (intro exI [of _ c']) simp
      with num_update [OF c(1), where P = "\<lambda>p. p = ExclusiveRunning" and p = Done] one active c(4) show False by simp
    qed
    ultimately show ?thesis by simp
  qed
  moreover have "set (phases g) \<subseteq> {Done, Rejected}" if "\<forall>g'. \<not> gate_turn g g'"
    using gate_stuck_done [OF ok] that by (fastforce simp: in_set_conv_nth)
  ultimately show ?thesis using gate_turn_work [OF _ ok] shared by auto
qed

definition sample_gate :: gate where
  "sample_gate = runExclusive 1 (new_client (runShared 0 (new_client new_gate)))"

lemma sample_gate_reach: "gate_reach sample_gate"
  using gate_reach.call_exclusive [OF gate_reach.call_shared [OF gate_reach.start]]
  by (simp add: sample_gate_def new_gate_def runShared_def new_client_def set_phase_def)

theorem gate_exclusive_witness:
  "phases sample_gate = [SharedRunning, ExclusiveWaiting] \<and>
    activeShared sample_gate = num (\<lambda>p. p = SharedRunning) (phases sample_gate)"
proof
  show "phases sample_gate = [SharedRunning, ExclusiveWaiting]"
    by (simp add: sample_gate_def new_gate_def runShared_def runExclusive_def exclusive_loop_def new_client_def
        set_phase_def notifyStateChange_def waitForStateChange_def)
  show "activeShared sample_gate = num (\<lambda>p. p = SharedRunning) (phases sample_gate)"
    using gate_exclusive [OF sample_gate_reach] by blast
qed

end
