(* ===== verification/NoiseHandshake.thy ===== *)
theory NoiseHandshake
  imports Curve
begin

text \<open>
  The initiator side of the Noise handshake: \<open>src/transport/noise/constants.ts\<close>,
  \<open>WaNoiseHandshake.ts\<close> and the channel it ends in, \<open>WaNoiseSocket.ts\<close>.  The object of a handshake
  is local to one attempt and is dropped when one of its methods throws, so its methods return an
  error or the new state; the channel lives on, so its methods return the state in both cases.
\<close>

subsection \<open>constants.ts\<close>

definition WA_PROTO_HEADER :: bytes where "WA_PROTO_HEADER = [87, 65, 6, 3]"

definition NOISE_XX_NAME :: bytes where
  "NOISE_XX_NAME = text_encode (js ''Noise_XX_25519_AESGCM_SHA256'' @ [0, 0, 0, 0])"

definition NOISE_IK_NAME :: bytes where
  "NOISE_IK_NAME = text_encode (js ''Noise_IK_25519_AESGCM_SHA256'' @ [0, 0, 0, 0])"

definition NOISE_XX_FALLBACK_NAME :: bytes where
  "NOISE_XX_FALLBACK_NAME = text_encode (js ''Noise_XXfallback_25519_AESGCM_SHA256'')"

subsection \<open>WaNoiseHandshake.ts\<close>

datatype noise_error =
    CipherKeyMissing
  | NonceError nonce_error
  | SealFailed
  | OpenFailed
  | NoiseCurveError curve_error
  | ProtoDecodeFailed
  | ResumeMissingServerHello
  | ResumeMissingEphemeral
  | ResumeMissingPayload
  | MissingServerHelloFields
  | CodecNotInitialized
  | NotEstablished
  | SendFailed
  | HandshakeTimeout
  | SocketClosed
  | WireError

record handshake =
  handshakeHash :: bytes
  chainingKey :: bytes
  cipherKey :: "bytes option"
  nonce :: nat
  nonceScratch :: bytes

definition new_handshake :: handshake where
  "new_handshake = \<lparr>handshakeHash = [], chainingKey = [], cipherKey = None, nonce = 0,
     nonceScratch = replicate 12 0\<rparr>"

definition authenticate :: "crypto \<Rightarrow> bytes \<Rightarrow> handshake \<Rightarrow> handshake" where
  "authenticate C data h = h\<lparr>handshakeHash := sha256 C [handshakeHash h, data]\<rparr>"

definition start_handshake :: "crypto \<Rightarrow> bytes \<Rightarrow> bytes \<Rightarrow> handshake \<Rightarrow> handshake" where
  "start_handshake C protocolName prologue h =
    (let hashInput = if length protocolName = 32 then protocolName else sha256 C [protocolName]
     in authenticate C prologue
          (h\<lparr>handshakeHash := hashInput, chainingKey := hashInput, cipherKey := Some hashInput\<rparr>))"

definition mixIntoKey :: "crypto \<Rightarrow> bytes \<Rightarrow> handshake \<Rightarrow> handshake" where
  "mixIntoKey C keyMaterial h =
    (let (newChainingKey, nextCipherKey) = hkdfSplit C keyMaterial (Some (chainingKey h)) []
     in h\<lparr>nonce := 0, chainingKey := newChainingKey, cipherKey := Some nextCipherKey\<rparr>)"

definition nonce_result :: "nonce_error + 'a \<Rightarrow> noise_error + 'a" where
  "nonce_result r = (case r of Inl e \<Rightarrow> Inl (NonceError e) | Inr a \<Rightarrow> Inr a)"

definition handshake_encrypt :: "crypto \<Rightarrow> bytes \<Rightarrow> handshake \<Rightarrow> noise_error + bytes \<times> handshake" where
  "handshake_encrypt C plaintext h =
    (case cipherKey h of
       None \<Rightarrow> Inl CipherKeyMissing
     | Some k \<Rightarrow>
         rbind (nonce_result (writeNonceCounter (nonceScratch h) (nonce h))) (\<lambda>iv.
           case aesGcmEncrypt C k iv plaintext (handshakeHash h) of
             None \<Rightarrow> Inl SealFailed
           | Some ciphertext \<Rightarrow>
               Inr (ciphertext, authenticate C ciphertext (h\<lparr>nonceScratch := iv, nonce := nonce h + 1\<rparr>))))"

definition handshake_decrypt :: "crypto \<Rightarrow> bytes \<Rightarrow> handshake \<Rightarrow> noise_error + bytes \<times> handshake" where
  "handshake_decrypt C ciphertext h =
    (case cipherKey h of
       None \<Rightarrow> Inl CipherKeyMissing
     | Some k \<Rightarrow>
         rbind (nonce_result (writeNonceCounter (nonceScratch h) (nonce h))) (\<lambda>iv.
           case aesGcmDecrypt C k iv ciphertext (handshakeHash h) of
             None \<Rightarrow> Inl OpenFailed
           | Some plaintext \<Rightarrow>
               Inr (plaintext, authenticate C ciphertext (h\<lparr>nonceScratch := iv, nonce := nonce h + 1\<rparr>))))"

subsection \<open>WaNoiseSocket.ts\<close>

record noise_socket =
  encryptKey :: bytes
  decryptKey :: bytes
  writeCounter :: nat
  readCounter :: nat
  writeNonceScratch :: bytes
  readNonceScratch :: bytes

definition new_socket :: "bytes \<Rightarrow> bytes \<Rightarrow> noise_socket" where
  "new_socket enc dec = \<lparr>encryptKey = enc, decryptKey = dec, writeCounter = 0, readCounter = 0,
     writeNonceScratch = replicate 12 0, readNonceScratch = replicate 12 0\<rparr>"

definition socket_encrypt :: "crypto \<Rightarrow> bytes \<Rightarrow> noise_socket \<Rightarrow> (noise_error + bytes) \<times> noise_socket" where
  "socket_encrypt C frame s =
    (let s' = s\<lparr>writeCounter := writeCounter s + 1\<rparr>
     in case writeNonceCounter (writeNonceScratch s) (writeCounter s) of
          Inl e \<Rightarrow> (Inl (NonceError e), s')
        | Inr iv \<Rightarrow> (case aesGcmEncrypt C (encryptKey s) iv frame [] of None \<Rightarrow> Inl SealFailed | Some b \<Rightarrow> Inr b,
            s'\<lparr>writeNonceScratch := iv\<rparr>))"

definition socket_decrypt :: "crypto \<Rightarrow> bytes \<Rightarrow> noise_socket \<Rightarrow> (noise_error + bytes) \<times> noise_socket" where
  "socket_decrypt C frame s =
    (let s' = s\<lparr>readCounter := readCounter s + 1\<rparr>
     in case writeNonceCounter (readNonceScratch s) (readCounter s) of
          Inl e \<Rightarrow> (Inl (NonceError e), s')
        | Inr iv \<Rightarrow> (case aesGcmDecrypt C (decryptKey s) iv frame [] of None \<Rightarrow> Inl OpenFailed | Some b \<Rightarrow> Inr b,
            s'\<lparr>readNonceScratch := iv\<rparr>))"

text \<open>A method called on one item after the other; the first throw ends the loop.\<close>

fun each :: "('a \<Rightarrow> 's \<Rightarrow> ('e + 'b) \<times> 's) \<Rightarrow> 'a list \<Rightarrow> 's \<Rightarrow> ('e + 'b list) \<times> 's" where
  "each f [] s = (Inr [], s)"
| "each f (x # xs) s =
    (case f x s of
       (Inl e, s1) \<Rightarrow> (Inl e, s1)
     | (Inr b, s1) \<Rightarrow>
         (case each f xs s1 of
            (Inl e, s2) \<Rightarrow> (Inl e, s2)
          | (Inr bs, s2) \<Rightarrow> (Inr (b # bs), s2)))"

text \<open>\<open>finish\<close> of the handshake; the wiped object is not used again.\<close>

definition finish_handshake :: "crypto \<Rightarrow> handshake \<Rightarrow> noise_socket \<times> handshake" where
  "finish_handshake C h =
    (let (writeKey, readKey) = hkdfSplit C [] (Some (chainingKey h)) []
     in (new_socket writeKey readKey,
         h\<lparr>handshakeHash := [], chainingKey := [], cipherKey := None, nonce := 0\<rparr>))"

subsection \<open>Nonces\<close>

text \<open>The scratch buffer holds the nonce used last; its first eight bytes stay zero.\<close>

definition scratch_ok :: "bytes \<Rightarrow> bool" where
  "scratch_ok b \<longleftrightarrow> length b = 12 \<and> take 8 b = replicate 8 0"

definition counter_nonce :: "nat \<Rightarrow> bytes" where
  "counter_nonce n = replicate 8 0 @
    [to_u8 (n div 16777216), to_u8 (n div 65536), to_u8 (n div 256), to_u8 n]"

lemma length_counter_nonce [simp]: "length (counter_nonce n) = 12"
  by (simp add: counter_nonce_def)

lemma scratch_counter_nonce [simp]: "scratch_ok (counter_nonce n)"
  by (simp add: scratch_ok_def counter_nonce_def)

lemma scratch_new [simp]: "scratch_ok (replicate 12 0)"
  by (simp add: scratch_ok_def)

lemma writeNonceCounter_scratch:
  "scratch_ok b \<Longrightarrow> n < 2 ^ 32 \<Longrightarrow> writeNonceCounter b n = Inr (counter_nonce n)"
  by (simp add: writeNonceCounter_eq scratch_ok_def counter_nonce_def)

lemma writeNonceCounter_overflow:
  "scratch_ok b \<Longrightarrow> 2 ^ 32 \<le> n \<Longrightarrow> writeNonceCounter b n = Inl (NonceCounterOverflow n)"
  by (simp add: writeNonceCounter_def scratch_ok_def)

text \<open>Different counters give different nonces.\<close>

lemma counter_nonce_inj:
  assumes "counter_nonce m = counter_nonce n" "m < 2 ^ 32" "n < 2 ^ 32"
  shows "m = n"
proof -
  have digits: "n = ((n div 16777216 mod 256) * 256 + n div 65536 mod 256) * 65536 +
      (n div 256 mod 256) * 256 + n mod 256" if "n < 2 ^ 32" for n :: nat
  proof -
    have "n = n div 65536 * 65536 + (n mod 65536)" by simp
    also have "n mod 65536 = (n div 256 mod 256) * 256 + n mod 256"
      using mod_mult2_eq [of n 256 256] by simp
    also have "n div 65536 = n div 16777216 * 256 + n div 65536 mod 256"
      using div_mult2_eq [of n 65536 256] by simp
    also have "n div 16777216 = n div 16777216 mod 256" using that by simp
    finally show ?thesis by (simp only: add.assoc)
  qed
  have "m div 16777216 mod 256 = n div 16777216 mod 256" "m div 65536 mod 256 = n div 65536 mod 256"
    "m div 256 mod 256 = n div 256 mod 256" "m mod 256 = n mod 256"
    using assms(1) by (simp_all add: counter_nonce_def to_u8_eq_iff)
  then show ?thesis using digits [OF assms(2)] digits [OF assms(3)] by metis
qed

lemma each_append:
  "each f (xs @ ys) s =
    (case each f xs s of
       (Inl e, s1) \<Rightarrow> (Inl e, s1)
     | (Inr bs, s1) \<Rightarrow>
         (case each f ys s1 of
            (Inl e, s2) \<Rightarrow> (Inl e, s2)
          | (Inr cs, s2) \<Rightarrow> (Inr (bs @ cs), s2)))"
  by (induction xs arbitrary: s) (auto split: prod.splits sum.splits)

lemma each_Cons_InrE:
  assumes "each f (x # xs) s = (Inr bs, s')"
  obtains b s1 cs where "f x s = (Inr b, s1)" "each f xs s1 = (Inr cs, s')" "bs = b # cs"
  using assms by (auto split: prod.splits sum.splits)

text \<open>A frame is sealed under the nonce of the write counter, and the counter moves on whatever comes of it.\<close>

lemma socket_encrypt_nonce:
  assumes "scratch_ok (writeNonceScratch s)"
  shows "fst (socket_encrypt C frame s) =
      (if writeCounter s < 2 ^ 32 then
         case aesGcmEncrypt C (encryptKey s) (counter_nonce (writeCounter s)) frame [] of
           None \<Rightarrow> Inl SealFailed
         | Some ciphertext \<Rightarrow> Inr ciphertext
       else Inl (NonceError (NonceCounterOverflow (writeCounter s))))"
    "writeCounter (snd (socket_encrypt C frame s)) = writeCounter s + 1"
    "encryptKey (snd (socket_encrypt C frame s)) = encryptKey s"
    "scratch_ok (writeNonceScratch (snd (socket_encrypt C frame s)))"
  using assms writeNonceCounter_scratch [OF assms] writeNonceCounter_overflow [OF assms]
  by (cases "writeCounter s < 2 ^ 32"; simp add: socket_encrypt_def Let_def not_less split: option.split)+

text \<open>The same over any number of attempts, where a throw does not stop the next one.\<close>

fun try_each :: "('a \<Rightarrow> 's \<Rightarrow> ('e + 'b) \<times> 's) \<Rightarrow> 'a list \<Rightarrow> 's \<Rightarrow> ('e + 'b) list \<times> 's" where
  "try_each f [] s = ([], s)"
| "try_each f (x # xs) s =
    (let (r, s1) = f x s; (rs, s2) = try_each f xs s1 in (r # rs, s2))"

lemma try_encrypt_nonces:
  assumes "scratch_ok (writeNonceScratch s)"
  shows "fst (try_each (socket_encrypt C) frames s) =
    map (\<lambda>(n, frame).
        if n < 2 ^ 32 then
          case aesGcmEncrypt C (encryptKey s) (counter_nonce n) frame [] of
            None \<Rightarrow> Inl SealFailed
          | Some ciphertext \<Rightarrow> Inr ciphertext
        else Inl (NonceError (NonceCounterOverflow n)))
      (enumerate (writeCounter s) frames)"
  using assms
proof (induction frames arbitrary: s)
  case (Cons frame frames)
  note step = socket_encrypt_nonce [OF Cons(2), of C frame]
  from Cons(1) [OF step(4)] show ?case
    unfolding step(2,3) by (simp add: step(1) split_beta Let_def)
qed simp

end
