(* ===== verification/NoiseCertificate.thy ===== *)
theory NoiseCertificate
  imports Curve
begin

text \<open>
  \<open>src/transport/noise/WaNoiseCert.ts\<close>: the certificate chain of the server, and the chain that the
  test server builds (\<open>packages/fake-server/src/protocol/auth/cert-chain.ts\<close>).  The protobuf code
  and the signature scheme are parameters; \<open>None\<close> stands for a call that throws.
\<close>

subsection \<open>Parameters\<close>

record raw_certificate =
  rc_details :: proto_bytes
  rc_signature :: proto_bytes

record raw_chain =
  rh_leaf :: "raw_certificate option"
  rh_intermediate :: "raw_certificate option"

record raw_details =
  rd_serial :: "nat option"
  rd_issuerSerial :: "nat option"
  rd_key :: proto_bytes

record cert_proto =
  decode_chain :: "bytes \<Rightarrow> raw_chain option"
  encode_chain :: "raw_chain \<Rightarrow> bytes"
  decode_details :: "bytes \<Rightarrow> raw_details option"
  encode_details :: "raw_details \<Rightarrow> nat \<Rightarrow> nat \<Rightarrow> bytes"

record signatures =
  xeddsaVerify :: "bytes \<Rightarrow> bytes \<Rightarrow> bytes \<Rightarrow> bool option"
  xeddsaSign :: "bytes \<Rightarrow> bytes \<Rightarrow> bytes option"

text \<open>
  The protobuf code reads back what it wrote (the two times of \<open>encode_details\<close> are fields that the
  verifier does not look at), and a signature is accepted under the key that belongs to the one it
  was made with.
\<close>

definition byte_certificate :: "bytes \<Rightarrow> bytes \<Rightarrow> raw_certificate" where
  "byte_certificate details signature = \<lparr>rc_details = ProtoBytes details, rc_signature = ProtoBytes signature\<rparr>"

definition byte_details :: "nat \<Rightarrow> nat \<Rightarrow> bytes \<Rightarrow> raw_details" where
  "byte_details serial issuer k = \<lparr>rd_serial = Some serial, rd_issuerSerial = Some issuer, rd_key = ProtoBytes k\<rparr>"

definition cert_proto_laws :: "cert_proto \<Rightarrow> bool" where
  "cert_proto_laws P \<longleftrightarrow>
    (\<forall>a b c d. let m = \<lparr>rh_leaf = Some (byte_certificate a b), rh_intermediate = Some (byte_certificate c d)\<rparr>
      in decode_chain P (encode_chain P m) = Some m) \<and>
    (\<forall>m n k x y. decode_details P (encode_details P (byte_details m n k) x y) = Some (byte_details m n k))"

definition signature_laws :: "curve \<Rightarrow> signatures \<Rightarrow> bool" where
  "signature_laws X G \<longleftrightarrow>
    (\<forall>a m. length a = 32 \<longrightarrow>
      (\<exists>s. xeddsaSign G a m = Some s \<and> length s = 64 \<and> xeddsaVerify G (curve_public X a) m s = Some True))"

subsection \<open>WaNoiseCert.ts\<close>

definition ROOT_CA_SERIAL :: nat where "ROOT_CA_SERIAL = 0"

definition ROOT_CA_PUBLIC_KEY_HEX :: jstr where
  "ROOT_CA_PUBLIC_KEY_HEX = js ''142375574d0a587166aae71ebe516437c4a28b73e3695c6ce1f7f9545da8ee6b''"

datatype cert_error =
    ChainDecodeFailed
  | MissingLeafOrIntermediate
  | MissingCertificate
  | CertBytes bytes_error
  | DetailsDecodeFailed
  | MissingSerial
  | InvalidSerial nat
  | IntermediateIssuerMismatch
  | VerificationThrew
  | IntermediateSignatureInvalid
  | LeafIssuerMismatch
  | LeafSignatureInvalid
  | LeafKeyMismatch

record parsed_certificate =
  pc_serial :: nat
  pc_issuerSerial :: nat
  pc_key :: bytes
  pc_details :: bytes
  pc_signature :: bytes

record root_ca =
  rootPublicKey :: bytes
  rootSerial :: nat

definition PRODUCTION_ROOT_CA :: root_ca where
  "PRODUCTION_ROOT_CA = \<lparr>
     rootPublicKey = (case hexToBytes ROOT_CA_PUBLIC_KEY_HEX of Inr b \<Rightarrow> b | Inl _ \<Rightarrow> []),
     rootSerial = ROOT_CA_SERIAL\<rparr>"

definition cert_bytes :: "bytes_error + 'a \<Rightarrow> cert_error + 'a" where
  "cert_bytes r = (case r of Inl e \<Rightarrow> Inl (CertBytes e) | Inr a \<Rightarrow> Inr a)"

definition cert_number :: "nat option \<Rightarrow> cert_error + nat" where
  "cert_number v =
    (case v of
       None \<Rightarrow> Inl MissingSerial
     | Some n \<Rightarrow> if n \<le> MAX_SAFE_INTEGER then Inr n else Inl (InvalidSerial n))"

definition parseNoiseCertificate :: "cert_proto \<Rightarrow> raw_certificate option \<Rightarrow> cert_error + parsed_certificate" where
  "parseNoiseCertificate P certificate =
    (case certificate of
       None \<Rightarrow> Inl MissingCertificate
     | Some c \<Rightarrow>
         rbind (cert_bytes (decodeProtoBytes (rc_details c))) (\<lambda>detailsBytes.
         rbind (cert_bytes (decodeProtoBytes (rc_signature c))) (\<lambda>signatureBytes.
         rbind (cert_bytes (assertByteLength signatureBytes 64)) (\<lambda>_.
         case decode_details P detailsBytes of
           None \<Rightarrow> Inl DetailsDecodeFailed
         | Some details \<Rightarrow>
             rbind (cert_number (rd_serial details)) (\<lambda>serial.
             rbind (cert_number (rd_issuerSerial details)) (\<lambda>issuerSerial.
             rbind (cert_bytes (decodeProtoBytes (rd_key details))) (\<lambda>k.
               Inr \<lparr>pc_serial = serial, pc_issuerSerial = issuerSerial, pc_key = k,
                 pc_details = detailsBytes, pc_signature = signatureBytes\<rparr>)))))))"

definition check_signature :: "signatures \<Rightarrow> bytes \<Rightarrow> parsed_certificate \<Rightarrow> cert_error \<Rightarrow> cert_error + unit" where
  "check_signature G k cert invalid =
    (case xeddsaVerify G k (pc_details cert) (pc_signature cert) of
       None \<Rightarrow> Inl VerificationThrew
     | Some valid \<Rightarrow> if valid then Inr () else Inl invalid)"

definition verifyNoiseCertificateChain ::
    "cert_proto \<Rightarrow> signatures \<Rightarrow> bytes \<Rightarrow> bytes \<Rightarrow> root_ca option \<Rightarrow> cert_error + unit" where
  "verifyNoiseCertificateChain P G certificateChain serverStatic rootCa =
    (let root = (case rootCa of Some r \<Rightarrow> r | None \<Rightarrow> PRODUCTION_ROOT_CA)
     in case decode_chain P certificateChain of
          None \<Rightarrow> Inl ChainDecodeFailed
        | Some chain \<Rightarrow>
            if rh_leaf chain = None \<or> rh_intermediate chain = None then Inl MissingLeafOrIntermediate
            else rbind (parseNoiseCertificate P (rh_intermediate chain)) (\<lambda>intermediate.
              if pc_issuerSerial intermediate \<noteq> rootSerial root then Inl IntermediateIssuerMismatch
              else rbind (check_signature G (rootPublicKey root) intermediate IntermediateSignatureInvalid) (\<lambda>_.
              rbind (parseNoiseCertificate P (rh_leaf chain)) (\<lambda>leaf.
              if pc_issuerSerial leaf \<noteq> pc_serial intermediate then Inl LeafIssuerMismatch
              else rbind (check_signature G (pc_key intermediate) leaf LeafSignatureInvalid) (\<lambda>_.
              if \<not> uint8Equal (pc_key leaf) serverStatic then Inl LeafKeyMismatch else Inr ())))))"

subsection \<open>cert-chain.ts\<close>

record fake_root_ca = root_ca +
  rootPrivateKey :: bytes

definition generateFakeNoiseRootCa :: "key_pair \<Rightarrow> fake_root_ca" where
  "generateFakeNoiseRootCa keyPair =
    \<lparr>rootPublicKey = pubKey keyPair, rootSerial = 0, rootPrivateKey = privKey keyPair\<rparr>"

text \<open>The generated pair and the present time in seconds are arguments, the serials are the defaults.\<close>

definition buildFakeCertChain ::
    "cert_proto \<Rightarrow> signatures \<Rightarrow> fake_root_ca \<Rightarrow> bytes \<Rightarrow> key_pair \<Rightarrow> nat \<Rightarrow> bytes option" where
  "buildFakeCertChain P G root leafKey intermediateKeyPair nowSeconds =
    (let notBefore = nowSeconds - 86400; notAfter = nowSeconds + 315360000;
         intermediateDetails = encode_details P (byte_details 1 (rootSerial root) (pubKey intermediateKeyPair)) notBefore notAfter;
         leafDetails = encode_details P (byte_details 2 1 leafKey) notBefore notAfter
     in case xeddsaSign G (rootPrivateKey root) intermediateDetails of
          None \<Rightarrow> None
        | Some intermediateSignature \<Rightarrow>
            map_option (\<lambda>leafSignature. encode_chain P
              \<lparr>rh_leaf = Some (byte_certificate leafDetails leafSignature),
               rh_intermediate = Some (byte_certificate intermediateDetails intermediateSignature)\<rparr>)
              (xeddsaSign G (privKey intermediateKeyPair) leafDetails))"

subsection \<open>What an accepted chain is\<close>

text \<open>
  A certificate \<open>c\<close> of the chain, read as \<open>p\<close>: it names its issuer, and its details carry a valid
  signature under the issuer's key.
\<close>

definition certified :: "cert_proto \<Rightarrow> signatures \<Rightarrow> bytes \<Rightarrow> nat \<Rightarrow> raw_certificate \<Rightarrow> parsed_certificate \<Rightarrow> bool" where
  "certified P G issuerKey issuer c p \<longleftrightarrow>
    parseNoiseCertificate P (Some c) = Inr p \<and> pc_issuerSerial p = issuer \<and> length (pc_signature p) = 64 \<and>
    xeddsaVerify G issuerKey (pc_details p) (pc_signature p) = Some True"

definition chain_valid :: "cert_proto \<Rightarrow> signatures \<Rightarrow> root_ca \<Rightarrow> bytes \<Rightarrow> bytes \<Rightarrow> bool" where
  "chain_valid P G root bytes serverStatic \<longleftrightarrow>
    (\<exists>leaf intermediate l i.
      decode_chain P bytes = Some \<lparr>rh_leaf = Some leaf, rh_intermediate = Some intermediate\<rparr> \<and>
      certified P G (rootPublicKey root) (rootSerial root) intermediate i \<and>
      certified P G (pc_key i) (pc_serial i) leaf l \<and> pc_key l = serverStatic)"

lemma check_signature_ok [simp]:
  "check_signature G k c e = Inr u \<longleftrightarrow> xeddsaVerify G k (pc_details c) (pc_signature c) = Some True"
  by (auto simp: check_signature_def split: option.splits)

lemma parseNoiseCertificate_signature:
  "parseNoiseCertificate P (Some c) = Inr p \<Longrightarrow> length (pc_signature p) = 64"
  by (auto simp: parseNoiseCertificate_def rbind_eq_Inr_iff cert_bytes_def assertByteLength_def
      split: sum.splits option.splits if_splits)

text \<open>
  C23: The verifier accepts a chain exactly when it leads from the root to the server's key: the
  intermediate certificate is signed with the root key and names the root, the leaf is signed with the
  key of the intermediate certificate and names it, and the key of the leaf is the static key the
  server used in the handshake.
\<close>

theorem certificate_chain_checked:
  "verifyNoiseCertificateChain P G chain serverStatic rootCa = Inr () \<longleftrightarrow>
    chain_valid P G (case rootCa of Some r \<Rightarrow> r | None \<Rightarrow> PRODUCTION_ROOT_CA) chain serverStatic"
    (is "?accepted = chain_valid P G ?root chain serverStatic")
proof
  assume ?accepted
  then obtain raw i l where chain: "decode_chain P chain = Some raw" "rh_leaf raw \<noteq> None"
      "rh_intermediate raw \<noteq> None"
    and i: "parseNoiseCertificate P (rh_intermediate raw) = Inr i" "pc_issuerSerial i = rootSerial ?root"
      "xeddsaVerify G (rootPublicKey ?root) (pc_details i) (pc_signature i) = Some True"
    and l: "parseNoiseCertificate P (rh_leaf raw) = Inr l" "pc_issuerSerial l = pc_serial i"
      "xeddsaVerify G (pc_key i) (pc_details l) (pc_signature l) = Some True" "uint8Equal (pc_key l) serverStatic"
    by (auto simp: verifyNoiseCertificateChain_def rbind_eq_Inr_iff split: option.splits if_splits)
  from chain obtain leaf intermediate where raw: "raw = \<lparr>rh_leaf = Some leaf, rh_intermediate = Some intermediate\<rparr>"
    by (cases raw) auto
  show "chain_valid P G ?root chain serverStatic"
    unfolding chain_valid_def certified_def
    using chain(1) i l parseNoiseCertificate_signature [of P] by (auto simp: raw uint8Equal_iff)
next
  assume "chain_valid P G ?root chain serverStatic"
  then show ?accepted
    unfolding chain_valid_def certified_def
    by (auto simp: verifyNoiseCertificateChain_def uint8Equal_iff check_signature_def)
qed

lemma parse_built:
  assumes "cert_proto_laws P" "length s = 64" "n \<le> MAX_SAFE_INTEGER" "m \<le> MAX_SAFE_INTEGER"
  shows "parseNoiseCertificate P (Some (byte_certificate (encode_details P (byte_details n m k) a b) s)) =
    Inr \<lparr>pc_serial = n, pc_issuerSerial = m, pc_key = k,
      pc_details = encode_details P (byte_details n m k) a b, pc_signature = s\<rparr>"
proof -
  have "decode_details P (encode_details P (byte_details n m k) a b) = Some (byte_details n m k)"
    using assms(1) by (simp add: cert_proto_laws_def)
  with assms(2-) show ?thesis
    by (simp add: parseNoiseCertificate_def byte_certificate_def byte_details_def decodeProtoBytes_def cert_bytes_def
        assertByteLength_def cert_number_def)
qed

lemma built_chain_accepted:
  assumes "cert_proto_laws P" "signature_laws X G" "generated_pair X rootPair" "generated_pair X intermediate"
  obtains chain where
    "buildFakeCertChain P G (generateFakeNoiseRootCa rootPair) leafKey intermediate now = Some chain"
    "verifyNoiseCertificateChain P G chain leafKey
      (Some \<lparr>rootPublicKey = pubKey rootPair, rootSerial = 0\<rparr>) = Inr ()"
proof -
  let ?from = "now - 86400" and ?to = "now + 315360000"
  let ?id = "encode_details P (byte_details 1 0 (pubKey intermediate)) ?from ?to"
  let ?ld = "encode_details P (byte_details 2 1 leafKey) ?from ?to"
  have sign: "\<exists>s. xeddsaSign G (privKey g) m = Some s \<and> length s = 64 \<and> xeddsaVerify G (pubKey g) m s = Some True"
    if "generated_pair X g" for g m
    using assms(2) that unfolding signature_laws_def generated_pair_def by auto
  obtain s where s: "xeddsaSign G (privKey rootPair) ?id = Some s" "length s = 64"
      "xeddsaVerify G (pubKey rootPair) ?id s = Some True" using sign [OF assms(3)] by blast
  obtain t where t: "xeddsaSign G (privKey intermediate) ?ld = Some t" "length t = 64"
      "xeddsaVerify G (pubKey intermediate) ?ld t = Some True" using sign [OF assms(4)] by blast
  let ?raw = "\<lparr>rh_leaf = Some (byte_certificate ?ld t), rh_intermediate = Some (byte_certificate ?id s)\<rparr>"
  have small: "2 \<le> MAX_SAFE_INTEGER" "1 \<le> MAX_SAFE_INTEGER" "0 \<le> MAX_SAFE_INTEGER"
    by (simp_all add: MAX_SAFE_INTEGER_def)
  have decode: "decode_chain P (encode_chain P ?raw) = Some ?raw"
    using assms(1) by (simp add: cert_proto_laws_def Let_def)
  show thesis
  proof (rule that [of "encode_chain P ?raw"])
    show "buildFakeCertChain P G (generateFakeNoiseRootCa rootPair) leafKey intermediate now = Some (encode_chain P ?raw)"
      using s(1) t(1) by (simp add: buildFakeCertChain_def generateFakeNoiseRootCa_def Let_def)
    show "verifyNoiseCertificateChain P G (encode_chain P ?raw) leafKey
        (Some \<lparr>rootPublicKey = pubKey rootPair, rootSerial = 0\<rparr>) = Inr ()"
      using s(3) t(3) unfolding verifyNoiseCertificateChain_def decode
      by (simp add: parse_built [OF assms(1) s(2) small(2,3), unfolded One_nat_def]
          parse_built [OF assms(1) t(2) small(1,2), unfolded One_nat_def] check_signature_def uint8Equal_iff)
  qed
qed

end
