(* ===== verification/NoiseServer.thy ===== *)
theory NoiseServer
  imports NoiseHandshake NoiseCertificate FrameCodec
begin

text \<open>
  The responder side, as the repository's test server has it (\<open>packages/fake-server/src/infra\<close>):
  \<open>WaFakeNoiseHandshake.ts\<close>, \<open>WaFakeTransport.ts\<close>, the frame socket \<open>WaFakeFrameSocket.ts\<close> and the
  handshake part of \<open>WaFakeConnectionPipeline.ts\<close>.  It was written apart from the client, over the
  same primitives.  \<open>parseClientPayload\<close> is an argument.
\<close>

subsection \<open>WaFakeNoiseHandshake.ts\<close>

record responder =
  rs_hash :: bytes
  rs_chainingKey :: bytes
  rs_cipherKey :: "bytes option"
  rs_nonceCounter :: nat

definition new_responder :: responder where
  "new_responder = \<lparr>rs_hash = [], rs_chainingKey = [], rs_cipherKey = None, rs_nonceCounter = 0\<rparr>"

text \<open>\<open>view.setUint32(8, counter, false)\<close> on twelve zero bytes, which keeps the counter modulo \<open>2 ^ 32\<close>.\<close>

definition nonce_iv :: "nat \<Rightarrow> bytes" where
  "nonce_iv counter =
    u8_set (replicate 12 0) [to_u8 (drop_bit 24 counter), to_u8 (drop_bit 16 counter),
      to_u8 (drop_bit 8 counter), to_u8 counter] 8"

definition responder_authenticate :: "crypto \<Rightarrow> bytes \<Rightarrow> responder \<Rightarrow> responder" where
  "responder_authenticate C data h =
    (let concatenated = u8_set (u8_set (replicate (length (rs_hash h) + length data) 0) (rs_hash h) 0)
           data (length (rs_hash h))
     in h\<lparr>rs_hash := sha256 C [concatenated]\<rparr>)"

definition responder_start :: "crypto \<Rightarrow> bytes \<Rightarrow> bytes \<Rightarrow> responder \<Rightarrow> responder" where
  "responder_start C name prologue h =
    (let initialHash = if length name = 32 then name else sha256 C [name]
     in responder_authenticate C prologue (h\<lparr>rs_hash := initialHash, rs_chainingKey := initialHash,
          rs_cipherKey := Some initialHash, rs_nonceCounter := 0\<rparr>))"

definition responder_mix :: "crypto \<Rightarrow> bytes \<Rightarrow> responder \<Rightarrow> responder" where
  "responder_mix C input h =
    (let (nextChainingKey, nextCipherMaterial) = hkdfSplit C input (Some (rs_chainingKey h)) []
     in h\<lparr>rs_chainingKey := nextChainingKey, rs_cipherKey := Some nextCipherMaterial, rs_nonceCounter := 0\<rparr>)"

definition responder_encrypt :: "crypto \<Rightarrow> bytes \<Rightarrow> responder \<Rightarrow> noise_error + bytes \<times> responder" where
  "responder_encrypt C plaintext h =
    (case rs_cipherKey h of
       None \<Rightarrow> Inl CipherKeyMissing
     | Some k \<Rightarrow>
         (case aesGcmEncrypt C k (nonce_iv (rs_nonceCounter h)) plaintext (rs_hash h) of
            None \<Rightarrow> Inl SealFailed
          | Some ciphertext \<Rightarrow> Inr (ciphertext,
              responder_authenticate C ciphertext (h\<lparr>rs_nonceCounter := rs_nonceCounter h + 1\<rparr>))))"

definition responder_decrypt :: "crypto \<Rightarrow> bytes \<Rightarrow> responder \<Rightarrow> noise_error + bytes \<times> responder" where
  "responder_decrypt C ciphertext h =
    (case rs_cipherKey h of
       None \<Rightarrow> Inl CipherKeyMissing
     | Some k \<Rightarrow>
         (case aesGcmDecrypt C k (nonce_iv (rs_nonceCounter h)) ciphertext (rs_hash h) of
            None \<Rightarrow> Inl OpenFailed
          | Some plaintext \<Rightarrow> Inr (plaintext,
              responder_authenticate C ciphertext (h\<lparr>rs_nonceCounter := rs_nonceCounter h + 1\<rparr>))))"

subsection \<open>WaFakeTransport.ts\<close>

record transport =
  recvKey :: bytes
  sendKey :: bytes
  sendCounter :: nat
  recvCounter :: nat

definition responder_finish :: "crypto \<Rightarrow> responder \<Rightarrow> transport" where
  "responder_finish C h =
    (let (first, second) = hkdfSplit C [] (Some (rs_chainingKey h)) []
     in \<lparr>recvKey = first, sendKey = second, sendCounter = 0, recvCounter = 0\<rparr>)"

definition buildAesGcmNonce :: "nat \<Rightarrow> noise_error + bytes" where
  "buildAesGcmNonce counter =
    (if 0xffffffff < counter then Inl (NonceError (NonceCounterOverflow counter)) else Inr (nonce_iv counter))"

definition transport_encrypt :: "crypto \<Rightarrow> bytes \<Rightarrow> transport \<Rightarrow> (noise_error + bytes) \<times> transport" where
  "transport_encrypt C plaintext t =
    (case buildAesGcmNonce (sendCounter t) of
       Inl e \<Rightarrow> (Inl e, t)
     | Inr iv \<Rightarrow> (case aesGcmEncrypt C (sendKey t) iv plaintext [] of None \<Rightarrow> Inl SealFailed | Some b \<Rightarrow> Inr b,
         t\<lparr>sendCounter := sendCounter t + 1\<rparr>))"

definition transport_decrypt :: "crypto \<Rightarrow> bytes \<Rightarrow> transport \<Rightarrow> (noise_error + bytes) \<times> transport" where
  "transport_decrypt C ciphertext t =
    (case buildAesGcmNonce (recvCounter t) of
       Inl e \<Rightarrow> (Inl e, t)
     | Inr iv \<Rightarrow> (case aesGcmDecrypt C (recvKey t) iv ciphertext [] of None \<Rightarrow> Inl OpenFailed | Some b \<Rightarrow> Inr b,
         t\<lparr>recvCounter := recvCounter t + 1\<rparr>))"

subsection \<open>Handshake messages\<close>

text \<open>The protobuf messages of the handshake; the generated code is a parameter.\<close>

record client_hello =
  ch_ephemeral :: "bytes option"
  ch_static :: "bytes option"
  ch_payload :: "bytes option"

record server_hello =
  sh_ephemeral :: "bytes option"
  sh_static :: "bytes option"
  sh_payload :: "bytes option"

record client_finish =
  cf_static :: "bytes option"
  cf_payload :: "bytes option"

record handshake_message =
  clientHello :: "client_hello option"
  serverHello :: "server_hello option"
  clientFinish :: "client_finish option"

record noise_proto =
  encode_handshake :: "handshake_message \<Rightarrow> bytes"
  decode_handshake :: "bytes \<Rightarrow> handshake_message option"

definition noise_proto_laws :: "noise_proto \<Rightarrow> bool" where
  "noise_proto_laws P \<longleftrightarrow> (\<forall>m. decode_handshake P (encode_handshake P m) = Some m)"

definition client_hello_message :: "client_hello \<Rightarrow> handshake_message" where
  "client_hello_message m = \<lparr>clientHello = Some m, serverHello = None, clientFinish = None\<rparr>"

definition server_hello_message :: "server_hello \<Rightarrow> handshake_message" where
  "server_hello_message m = \<lparr>clientHello = None, serverHello = Some m, clientFinish = None\<rparr>"

definition client_finish_message :: "client_finish \<Rightarrow> handshake_message" where
  "client_finish_message m = \<lparr>clientHello = None, serverHello = None, clientFinish = Some m\<rparr>"

subsection \<open>WaFakeConnectionPipeline.ts\<close>

record 'p server =
  serverStaticKeyPair :: key_pair
  parse_payload :: "bytes \<Rightarrow> 'p option"

datatype pipeline =
    AwaitingPrologue
  | AwaitingClientHello
  | AwaitingClientFinish responder key_pair
  | Authenticated transport
  | Closed

datatype server_error =
    ServerNoise noise_error
  | ServerCurve curve_error
  | ServerDecodeFailed
  | ClientHelloMissingEphemeral
  | ClientFinishMissingFields
  | ClientPayloadInvalid

definition server_noise :: "noise_error + 'a \<Rightarrow> server_error + 'a" where
  "server_noise r = (case r of Inl e \<Rightarrow> Inl (ServerNoise e) | Inr a \<Rightarrow> Inr a)"

definition server_curve :: "curve_error + 'a \<Rightarrow> server_error + 'a" where
  "server_curve r = (case r of Inl e \<Rightarrow> Inl (ServerCurve e) | Inr a \<Rightarrow> Inr a)"

text \<open>
  The handlers return the frame that is sent and the new state.  The generated ephemeral pair and the
  encoded certificate chain are arguments; \<open>prologue\<close> is the header the client sent.
\<close>

definition handleXxClientHello :: "crypto \<Rightarrow> curve \<Rightarrow> noise_proto \<Rightarrow> 'p server \<Rightarrow> bytes \<Rightarrow> key_pair \<Rightarrow> bytes \<Rightarrow>
    bytes \<Rightarrow> server_error + bytes \<times> pipeline" where
  "handleXxClientHello C X P srv prologue serverEphemeral certChain clientEphemeralPub =
    (let h1 = responder_authenticate C clientEphemeralPub (responder_start C NOISE_XX_NAME prologue new_responder);
         h2 = responder_authenticate C (pubKey serverEphemeral) h1
     in rbind (server_curve (scalarMult X (privKey serverEphemeral) clientEphemeralPub)) (\<lambda>dh1.
        rbind (server_noise (responder_encrypt C (pubKey (serverStaticKeyPair srv)) (responder_mix C dh1 h2)))
          (\<lambda>(encryptedServerStatic, h3).
        rbind (server_curve (scalarMult X (privKey (serverStaticKeyPair srv)) clientEphemeralPub)) (\<lambda>dh2.
        rbind (server_noise (responder_encrypt C certChain (responder_mix C dh2 h3))) (\<lambda>(encryptedCertPayload, h4).
          Inr (encode_handshake P (server_hello_message
              \<lparr>sh_ephemeral = Some (pubKey serverEphemeral), sh_static = Some encryptedServerStatic,
               sh_payload = Some encryptedCertPayload\<rparr>),
            AwaitingClientFinish h4 serverEphemeral))))))"

text \<open>\<open>completeAuthentication\<close>, up to the stanzas that the server sends afterwards.\<close>

definition completeAuthentication :: "crypto \<Rightarrow> responder \<Rightarrow> pipeline" where
  "completeAuthentication C h = Authenticated (responder_finish C h)"

definition parse_client :: "'p server \<Rightarrow> bytes \<Rightarrow> server_error + 'p" where
  "parse_client srv bytes = (case parse_payload srv bytes of None \<Rightarrow> Inl ClientPayloadInvalid | Some p \<Rightarrow> Inr p)"

text \<open>Besides frame and state, the payload and the static key of the client that are reported.\<close>

definition handleIkClientHello :: "crypto \<Rightarrow> curve \<Rightarrow> noise_proto \<Rightarrow> 'p server \<Rightarrow> bytes \<Rightarrow> key_pair \<Rightarrow> bytes \<Rightarrow>
    bytes \<Rightarrow> bytes \<Rightarrow> bytes \<Rightarrow> server_error + bytes \<times> pipeline \<times> 'p \<times> bytes" where
  "handleIkClientHello C X P srv prologue serverEphemeral certChain clientEphemeralPub encryptedClientStatic
      encryptedClientPayload =
    (let staticPair = serverStaticKeyPair srv;
         h1 = responder_start C NOISE_IK_NAME prologue new_responder;
         h2 = responder_authenticate C clientEphemeralPub (responder_authenticate C (pubKey staticPair) h1)
     in rbind (server_curve (scalarMult X (privKey staticPair) clientEphemeralPub)) (\<lambda>dh1.
        rbind (server_noise (responder_decrypt C encryptedClientStatic (responder_mix C dh1 h2)))
          (\<lambda>(clientStaticKey, h3).
        rbind (server_curve (scalarMult X (privKey staticPair) clientStaticKey)) (\<lambda>dh2.
        rbind (server_noise (responder_decrypt C encryptedClientPayload (responder_mix C dh2 h3)))
          (\<lambda>(clientPayloadBytes, h4).
        rbind (parse_client srv clientPayloadBytes) (\<lambda>clientPayload.
        let h5 = responder_authenticate C (pubKey serverEphemeral) h4
        in rbind (server_curve (scalarMult X (privKey serverEphemeral) clientEphemeralPub)) (\<lambda>dhEphem.
           rbind (server_curve (scalarMult X (privKey serverEphemeral) clientStaticKey)) (\<lambda>dhStatic.
           rbind (server_noise (responder_encrypt C certChain (responder_mix C dhStatic (responder_mix C dhEphem h5))))
             (\<lambda>(encryptedCertPayload, h6).
             Inr (encode_handshake P (server_hello_message \<lparr>sh_ephemeral = Some (pubKey serverEphemeral),
                 sh_static = None, sh_payload = Some encryptedCertPayload\<rparr>),
               completeAuthentication C h6, clientPayload, clientStaticKey))))))))))"

definition handleClientFinish :: "crypto \<Rightarrow> curve \<Rightarrow> noise_proto \<Rightarrow> 'p server \<Rightarrow> bytes \<Rightarrow> responder \<Rightarrow> key_pair \<Rightarrow>
    server_error + pipeline \<times> 'p \<times> bytes" where
  "handleClientFinish C X P srv frame handshake serverEphemeral =
    (case decode_handshake P frame of
       None \<Rightarrow> Inl ServerDecodeFailed
     | Some parsed \<Rightarrow>
         (case clientFinish parsed of
            None \<Rightarrow> Inl ClientFinishMissingFields
          | Some fin \<Rightarrow>
              (case (cf_static fin, cf_payload fin) of
                 (Some encryptedStatic, Some encryptedPayload) \<Rightarrow>
                   rbind (server_noise (responder_decrypt C encryptedStatic handshake)) (\<lambda>(clientStaticKey, h1).
                   rbind (server_curve (scalarMult X (privKey serverEphemeral) clientStaticKey)) (\<lambda>dh.
                   rbind (server_noise (responder_decrypt C encryptedPayload (responder_mix C dh h1)))
                     (\<lambda>(clientPayloadBytes, h2).
                   rbind (parse_client srv clientPayloadBytes) (\<lambda>clientPayload.
                     Inr (completeAuthentication C h2, clientPayload, clientStaticKey)))))
               | _ \<Rightarrow> Inl ClientFinishMissingFields)))"

text \<open>
  \<open>handleClientHello\<close>: what the client sends decides between the two patterns.  The last component of
  the result is what is reported when the client is authenticated at once.
\<close>

definition handleClientHello :: "crypto \<Rightarrow> curve \<Rightarrow> noise_proto \<Rightarrow> 'p server \<Rightarrow> bytes \<Rightarrow> key_pair \<Rightarrow> bytes \<Rightarrow>
    bytes \<Rightarrow> server_error + bytes \<times> pipeline \<times> ('p \<times> bytes) option" where
  "handleClientHello C X P srv prologue serverEphemeral certChain frame =
    (case decode_handshake P frame of
       None \<Rightarrow> Inl ServerDecodeFailed
     | Some parsed \<Rightarrow>
         (case clientHello parsed of
            None \<Rightarrow> Inl ClientHelloMissingEphemeral
          | Some hello \<Rightarrow>
              (case ch_ephemeral hello of
                 None \<Rightarrow> Inl ClientHelloMissingEphemeral
               | Some ephemeral \<Rightarrow>
                   (case (ch_static hello, ch_payload hello) of
                      (Some s, Some p) \<Rightarrow>
                        rbind (handleIkClientHello C X P srv prologue serverEphemeral certChain ephemeral s p)
                          (\<lambda>(reply, st, payload, k). Inr (reply, st, Some (payload, k)))
                    | _ \<Rightarrow> rbind (handleXxClientHello C X P srv prologue serverEphemeral certChain ephemeral)
                        (\<lambda>(reply, st). Inr (reply, st, None))))))"

subsection \<open>WaFakeFrameSocket.ts\<close>

definition ROUTING_MAGIC :: byte where "ROUTING_MAGIC = 0xed"
definition VERSION_HEADER_LENGTH :: nat where "VERSION_HEADER_LENGTH = 4"

text \<open>
  \<open>tryParsePrologue\<close> on the bytes received so far: more are needed, the magic is wrong, or the two
  version bytes, the routing information and the rest of the bytes.
\<close>

datatype prologue_result =
    PrologueIncomplete
  | PrologueBadMagic byte byte
  | PrologueParsed byte byte "bytes option" bytes

definition parse_version :: "bytes \<Rightarrow> nat \<Rightarrow> bytes option \<Rightarrow> prologue_result" where
  "parse_version buffer offset routingInfo =
    (let w = buffer ! offset; a = buffer ! (offset + 1)
     in if w \<noteq> 0x57 \<or> a \<noteq> 0x41 then PrologueBadMagic w a
        else PrologueParsed (buffer ! (offset + 2)) (buffer ! (offset + 3)) routingInfo
          (drop (offset + VERSION_HEADER_LENGTH) buffer))"

definition tryParsePrologue :: "bytes \<Rightarrow> prologue_result" where
  "tryParsePrologue buffer =
    (if length buffer = 0 then PrologueIncomplete
     else if buffer ! 0 = ROUTING_MAGIC then
       (if length buffer < 4 then PrologueIncomplete
        else let routingLen = push_bit 16 (unat (buffer ! 1)) OR push_bit 8 (unat (buffer ! 2)) OR unat (buffer ! 3)
          in if length buffer < 4 + routingLen + VERSION_HEADER_LENGTH then PrologueIncomplete
             else parse_version buffer (4 + routingLen) (Some (subarray buffer 4 (4 + routingLen))))
     else if length buffer < VERSION_HEADER_LENGTH then PrologueIncomplete
     else parse_version buffer 0 None)"

text \<open>\<open>drainFrames\<close>: the frames that are complete, or the throw, and the bytes that are kept.\<close>

function drainFrames :: "bytes \<Rightarrow> bytes list \<times> frame_error option \<times> bytes" where
  "drainFrames buffer =
    (if length buffer < 3 then ([], None, buffer)
     else if push_bit 24 1 \<le> frameLength buffer then ([], Some (FrameTooLarge (frameLength buffer)), buffer)
     else if length buffer < 3 + frameLength buffer then ([], None, buffer)
     else let (frames, err, rest) = drainFrames (drop (3 + frameLength buffer) buffer)
       in (subarray buffer 3 (3 + frameLength buffer) # frames, err, rest))"
  by pat_completeness auto
termination by (relation "measure length") auto

declare drainFrames.simps [simp del]

definition server_send_frame :: "bytes \<Rightarrow> frame_error + bytes" where
  "server_send_frame body =
    (if push_bit 24 1 \<le> length body then Inl (FrameTooLarge (length body))
     else Inr (u8_set ((replicate (3 + length body) 0)[0 := to_u8 (drop_bit 16 (length body) AND 0xff),
       1 := to_u8 (drop_bit 8 (length body) AND 0xff), 2 := to_u8 (length body AND 0xff)]) body 3))"

record frame_socket =
  inboundBuffer :: bytes
  prologueParsed :: bool

datatype frame_event =
    PrologueEvent byte byte "bytes option"
  | FrameEvent bytes
  | FrameSocketError

definition new_frame_socket :: frame_socket where
  "new_frame_socket = \<lparr>inboundBuffer = [], prologueParsed = False\<rparr>"

text \<open>The two arrays of \<open>concatBytes\<close>, one of which may be returned as it is.\<close>

definition concat_two :: "bytes \<Rightarrow> bytes \<Rightarrow> bytes" where
  "concat_two a b =
    (if length a = 0 then b else if length b = 0 then a
     else u8_set (u8_set (replicate (length a + length b) 0) a 0) b (length a))"

definition drain_events :: "frame_socket \<Rightarrow> frame_event list \<times> frame_socket" where
  "drain_events s =
    (let (frames, err, rest) = drainFrames (inboundBuffer s)
     in (map FrameEvent frames @ (case err of None \<Rightarrow> [] | Some _ \<Rightarrow> [FrameSocketError]), s\<lparr>inboundBuffer := rest\<rparr>))"

definition handleInboundBytes :: "bytes \<Rightarrow> frame_socket \<Rightarrow> frame_event list \<times> frame_socket" where
  "handleInboundBytes chunk s =
    (let s1 = s\<lparr>inboundBuffer := concat_two (inboundBuffer s) chunk\<rparr>
     in if prologueParsed s1 then drain_events s1
        else case tryParsePrologue (inboundBuffer s1) of
            PrologueIncomplete \<Rightarrow> ([], s1)
          | PrologueBadMagic w a \<Rightarrow> ([FrameSocketError], s1)
          | PrologueParsed v d routing rest \<Rightarrow>
              let (events, s2) = drain_events (s1\<lparr>inboundBuffer := rest, prologueParsed := True\<rparr>)
              in (PrologueEvent v d routing # events, s2))"

end
