(* ===== verification/NoiseSession.thy ===== *)
theory NoiseSession
  imports NoiseServer
begin

text \<open>
  \<open>src/transport/noise/WaNoiseSession.ts\<close>.  \<open>start\<close> is a coroutine; \<open>stage\<close> says at which \<open>await\<close> it
  stands and carries its local variables.  The operations below are its synchronous stretches and the
  methods the socket calls in between.  An \<open>await\<close> of a computation (a scalar multiplication, the
  verification of the certificates) is not a stage of its own: what may happen meanwhile touches other
  fields only.  \<open>start\<close> is called once per object, as \<open>WaComms\<close> does.
\<close>

datatype session_error =
    HandshakeError noise_error
  | CurveFailure curve_error
  | CertificateError cert_error
  | FrameError frame_error
  | MessageDecodeFailed
  | MissingResumeServerHello
  | MissingResumeEphemeral
  | MissingResumePayload
  | MissingHelloFields
  | LoginPayloadMissing
  | RegistrationPayloadMissing
  | PayloadFailed
  | CodecMissing
  | SessionNotEstablished
  | SendWireFailed
  | FrameTimeout
  | SessionClosed

definition of_noise :: "noise_error + 'a \<Rightarrow> session_error + 'a" where
  "of_noise r = (case r of Inl e \<Rightarrow> Inl (HandshakeError e) | Inr a \<Rightarrow> Inr a)"

definition of_curve :: "curve_error + 'a \<Rightarrow> session_error + 'a" where
  "of_curve r = (case r of Inl e \<Rightarrow> Inl (CurveFailure e) | Inr a \<Rightarrow> Inr a)"

definition of_frame :: "frame_error + 'a \<Rightarrow> session_error + 'a" where
  "of_frame r = (case r of Inl e \<Rightarrow> Inl (FrameError e) | Inr a \<Rightarrow> Inr a)"

definition of_cert :: "cert_error + 'a \<Rightarrow> session_error + 'a" where
  "of_cert r = (case r of Inl e \<Rightarrow> Inl (CertificateError e) | Inr a \<Rightarrow> Inr a)"

subsection \<open>Configuration\<close>

text \<open>
  The payload fields hold what the payload, the payload function or \<open>buildLoginPayload\<close> and
  \<open>buildRegistrationPayload\<close> give; \<open>Inl\<close> stands for a throw.
\<close>

record noise_config =
  clientStaticKeyPair :: key_pair
  isRegistered :: bool
  loginPayload :: "(session_error + bytes) option"
  registrationPayload :: "(session_error + bytes) option"
  loginPayloadConfig :: "(session_error + bytes) option"
  registrationPayloadConfig :: "(session_error + bytes) option"
  cfg_serverStaticKey :: "bytes option"
  routingInfo :: "bytes option"
  protocolHeader :: "bytes option"
  verifyCertificateChain :: "bool option"
  cfg_trustedRootCa :: "root_ca option"

definition resolveHandshakePayload :: "noise_config \<Rightarrow> session_error + bytes" where
  "resolveHandshakePayload config =
    (if isRegistered config then
       (case loginPayload config of
          Some p \<Rightarrow> p
        | None \<Rightarrow> (case loginPayloadConfig config of Some p \<Rightarrow> p | None \<Rightarrow> Inl LoginPayloadMissing))
     else
       (case registrationPayload config of
          Some p \<Rightarrow> p
        | None \<Rightarrow> (case registrationPayloadConfig config of
              Some p \<Rightarrow> p | None \<Rightarrow> Inl RegistrationPayloadMissing)))"

definition buildRoutingInfoPrefix :: "bytes \<Rightarrow> bytes" where
  "buildRoutingInfoPrefix info =
    (let n = length info;
         prefix = (replicate (2 + 2 + 1 + 2 + n) 0)[0 := 0x45, 1 := 0x44, 2 := 0x00, 3 := 0x01,
           4 := to_u8 (drop_bit 16 n AND 0xff), 5 := to_u8 (drop_bit 8 n AND 0xff), 6 := to_u8 (n AND 0xff)]
     in u8_set prefix info 7)"

definition protocol_header :: "noise_config \<Rightarrow> bytes" where
  "protocol_header config = (case protocolHeader config of Some h \<Rightarrow> h | None \<Rightarrow> WA_PROTO_HEADER)"

definition intro_frame :: "noise_config \<Rightarrow> bytes" where
  "intro_frame config =
    (case routingInfo config of
       Some info \<Rightarrow> if 0 < length info then concatBytes [buildRoutingInfoPrefix info, protocol_header config]
         else protocol_header config
     | None \<Rightarrow> protocol_header config)"

subsection \<open>The messages of the handshake\<close>

text \<open>The beginning of \<open>fullHandshake\<close>, up to the message that is sent.\<close>

definition full_hello :: "crypto \<Rightarrow> noise_proto \<Rightarrow> bytes \<Rightarrow> key_pair \<Rightarrow> handshake \<times> bytes" where
  "full_hello C P header ephemeral =
    (authenticate C (pubKey ephemeral) (start_handshake C NOISE_XX_NAME header new_handshake),
     encode_handshake P (client_hello_message
       \<lparr>ch_ephemeral = Some (pubKey ephemeral), ch_static = None, ch_payload = None\<rparr>))"

text \<open>The beginning of \<open>tryResumeHandshakeWithIk\<close>.\<close>

definition resume_hello :: "crypto \<Rightarrow> curve \<Rightarrow> noise_proto \<Rightarrow> bytes \<Rightarrow> key_pair \<Rightarrow> key_pair \<Rightarrow> bytes \<Rightarrow> bytes \<Rightarrow>
    session_error + handshake \<times> bytes" where
  "resume_hello C X P serverStatic clientStatic ephemeral payload header =
    (let h = authenticate C (pubKey ephemeral) (authenticate C serverStatic
           (start_handshake C NOISE_IK_NAME header new_handshake))
     in rbind (of_curve (scalarMult X (privKey ephemeral) serverStatic)) (\<lambda>agreement1.
        rbind (of_curve (scalarMult X (privKey clientStatic) serverStatic)) (\<lambda>agreement2.
        rbind (of_noise (handshake_encrypt C (pubKey clientStatic) (mixIntoKey C agreement1 h)))
          (\<lambda>(encryptedClientStatic, h1).
        rbind (of_noise (handshake_encrypt C payload (mixIntoKey C agreement2 h1))) (\<lambda>(encryptedPayload, h2).
          Inr (h2, encode_handshake P (client_hello_message
            \<lparr>ch_ephemeral = Some (pubKey ephemeral), ch_static = Some encryptedClientStatic,
             ch_payload = Some encryptedPayload\<rparr>)))))))"

text \<open>The rest of \<open>tryResumeHandshakeWithIk\<close>; \<open>None\<close> when the server asks for the full handshake.\<close>

definition resume_reply :: "crypto \<Rightarrow> curve \<Rightarrow> noise_proto \<Rightarrow> handshake \<Rightarrow> key_pair \<Rightarrow> key_pair \<Rightarrow> bytes \<Rightarrow>
    session_error + noise_socket option" where
  "resume_reply C X P h clientStatic ephemeral serverHelloFrame =
    (case decode_handshake P serverHelloFrame of
       None \<Rightarrow> Inl MessageDecodeFailed
     | Some parsed \<Rightarrow>
         (case serverHello parsed of
            None \<Rightarrow> Inl MissingResumeServerHello
          | Some hello \<Rightarrow>
              if sh_static hello \<noteq> None then Inr None
              else case sh_ephemeral hello of
                  None \<Rightarrow> Inl MissingResumeEphemeral
                | Some serverEphemeral \<Rightarrow>
                    (case sh_payload hello of
                       None \<Rightarrow> Inl MissingResumePayload
                     | Some certificate \<Rightarrow>
                         let h1 = authenticate C serverEphemeral h
                         in rbind (of_curve (scalarMult X (privKey ephemeral) serverEphemeral)) (\<lambda>dh1.
                            rbind (of_curve (scalarMult X (privKey clientStatic) serverEphemeral)) (\<lambda>dh2.
                            rbind (of_noise (handshake_decrypt C certificate
                                (mixIntoKey C dh2 (mixIntoKey C dh1 h1)))) (\<lambda>(_, h2).
                              Inr (Some (fst (finish_handshake C h2)))))))))"

text \<open>The handshake that \<open>resumeHandshakeWithFallback\<close> goes on with.\<close>

definition fallback_handshake :: "crypto \<Rightarrow> bytes \<Rightarrow> key_pair \<Rightarrow> handshake" where
  "fallback_handshake C header ephemeral =
    authenticate C (pubKey ephemeral) (start_handshake C NOISE_XX_FALLBACK_NAME header new_handshake)"

text \<open>
  \<open>continueFullHandshake\<close> up to the point where the key of the server is recorded, and from there to
  the message that is sent.
\<close>

definition full_reply :: "crypto \<Rightarrow> curve \<Rightarrow> noise_proto \<Rightarrow> cert_proto \<Rightarrow> signatures \<Rightarrow> root_ca option \<Rightarrow> bool \<Rightarrow>
    handshake \<Rightarrow> key_pair \<Rightarrow> bytes \<Rightarrow> session_error + handshake \<times> bytes \<times> bytes" where
  "full_reply C X P CP G root verify h ephemeral serverHelloFrame =
    (case decode_handshake P serverHelloFrame of
       None \<Rightarrow> Inl MessageDecodeFailed
     | Some parsed \<Rightarrow>
         (case serverHello parsed of
            None \<Rightarrow> Inl MissingHelloFields
          | Some hello \<Rightarrow>
              (case (sh_ephemeral hello, sh_static hello, sh_payload hello) of
                 (Some serverEphemeral, Some encryptedStatic, Some encryptedCert) \<Rightarrow>
                   let h1 = authenticate C serverEphemeral h
                   in rbind (of_curve (scalarMult X (privKey ephemeral) serverEphemeral)) (\<lambda>dh1.
                      rbind (of_noise (handshake_decrypt C encryptedStatic (mixIntoKey C dh1 h1)))
                        (\<lambda>(serverStatic, h2).
                      rbind (of_curve (scalarMult X (privKey ephemeral) serverStatic)) (\<lambda>dh2.
                      rbind (of_noise (handshake_decrypt C encryptedCert (mixIntoKey C dh2 h2)))
                        (\<lambda>(certificate, h3).
                      rbind (if verify then of_cert (verifyNoiseCertificateChain CP G certificate serverStatic root)
                             else Inr ()) (\<lambda>_.
                        Inr (h3, serverEphemeral, serverStatic))))))
               | _ \<Rightarrow> Inl MissingHelloFields)))"

definition client_finish_frame :: "crypto \<Rightarrow> curve \<Rightarrow> noise_proto \<Rightarrow> handshake \<Rightarrow> key_pair \<Rightarrow> bytes \<Rightarrow> bytes \<Rightarrow>
    session_error + handshake \<times> bytes" where
  "client_finish_frame C X P h clientStatic payload serverEphemeral =
    rbind (of_noise (handshake_encrypt C (pubKey clientStatic) h)) (\<lambda>(encryptedClientStatic, h1).
    rbind (of_curve (scalarMult X (privKey clientStatic) serverEphemeral)) (\<lambda>dh.
    rbind (of_noise (handshake_encrypt C payload (mixIntoKey C dh h1))) (\<lambda>(encryptedPayload, h2).
      Inr (h2, encode_handshake P (client_finish_message
        \<lparr>cf_static = Some encryptedClientStatic, cf_payload = Some encryptedPayload\<rparr>)))))"

end
