(* ===== verification/NoiseAgreement.thy ===== *)
theory NoiseAgreement
  imports NoiseSession SampleFields
begin

text \<open>
  The client of \<open>NoiseSession\<close> and the server of \<open>NoiseServer\<close> run against each other: their handshake
  objects stay in step, both patterns end with matching keys, and the channel delivers what was sent.
\<close>

named_theorems noise_step "the two handshake objects stay in step"

subsection \<open>Handshake objects in step\<close>

definition in_step :: "handshake \<Rightarrow> responder \<Rightarrow> bool" where
  "in_step h r \<longleftrightarrow>
    handshakeHash h = rs_hash r \<and> chainingKey h = rs_chainingKey r \<and> cipherKey h = rs_cipherKey r \<and>
    nonce h = rs_nonceCounter r \<and> scratch_ok (nonceScratch h)"

definition keyed :: "handshake \<Rightarrow> nat \<Rightarrow> bool" where
  "keyed h n \<longleftrightarrow> (\<exists>k. cipherKey h = Some k \<and> length k = 32) \<and> nonce h = n \<and> n < 2 ^ 32"

lemma nonce_iv_eq: "nonce_iv n = counter_nonce n"
  by (simp add: nonce_iv_def counter_nonce_def u8_set_def drop_bit_eq_div)

lemma responder_authenticate_eq:
  "responder_authenticate C data r = r\<lparr>rs_hash := sha256 C [rs_hash r, data]\<rparr>"
  by (simp add: responder_authenticate_def u8_set_def sha256_def Let_def)

lemma in_step_authenticate [noise_step]:
  "in_step h r \<Longrightarrow> in_step (authenticate C data h) (responder_authenticate C data r)"
  by (simp add: in_step_def authenticate_def responder_authenticate_eq)

lemma in_step_noise_start [noise_step]:
  "in_step (start_handshake C name prologue new_handshake) (responder_start C name prologue new_responder)"
  by (simp add: start_handshake_def responder_start_def Let_def authenticate_def
      responder_authenticate_eq in_step_def new_handshake_def new_responder_def)

lemma in_step_mix [noise_step]:
  "in_step h r \<Longrightarrow> in_step (mixIntoKey C k h) (responder_mix C k r)"
  by (simp add: in_step_def mixIntoKey_def responder_mix_def split_beta)

lemma keyed_mix [noise_step]: "crypto_laws C \<Longrightarrow> keyed (mixIntoKey C k h) 0"
  by (simp add: keyed_def mixIntoKey_def split_beta length_hkdfSplit)

lemma keyed_authenticate [noise_step]: "keyed h n \<Longrightarrow> keyed (authenticate C data h) n"
  by (simp add: keyed_def authenticate_def)

definition sealed :: "crypto \<Rightarrow> bytes \<Rightarrow> bytes \<Rightarrow> bool" where
  "sealed C pt ct \<longleftrightarrow> (\<exists>k iv aad. aesGcmEncrypt C k iv pt aad = Some ct)"

text \<open>What one side encrypts, the other one decrypts, and they stay in step.\<close>

lemma client_to_server:
  assumes "crypto_laws C" "in_step h r" "keyed h n"
  obtains ct h' r' where "handshake_encrypt C pt h = Inr (ct, h')" "responder_decrypt C ct r = Inr (pt, r')"
    "in_step h' r'" "sealed C pt ct"
proof -
  obtain k where k: "cipherKey h = Some k" "rs_cipherKey r = Some k" "length k = 32"
    using assms(2,3) by (auto simp: in_step_def keyed_def)
  obtain ct where ct: "aesGcmEncrypt C k (counter_nonce n) pt (handshakeHash h) = Some ct"
      "aesGcmDecrypt C k (counter_nonce n) ct (handshakeHash h) = Some pt"
    by (rule aesGcm_roundtrip [OF assms(1) k(3), of "counter_nonce n"]) simp_all
  show thesis
    using assms(2,3) k ct
    by (intro that [of ct "authenticate C ct (h\<lparr>nonceScratch := counter_nonce n, nonce := nonce h + 1\<rparr>)"
          "responder_authenticate C ct (r\<lparr>rs_nonceCounter := rs_nonceCounter r + 1\<rparr>)"])
      (auto simp: handshake_encrypt_def responder_decrypt_def in_step_def keyed_def nonce_result_def
        writeNonceCounter_scratch nonce_iv_eq authenticate_def responder_authenticate_eq sealed_def)
qed

lemma server_to_client:
  assumes "crypto_laws C" "in_step h r" "keyed h n"
  obtains ct h' r' where "responder_encrypt C pt r = Inr (ct, r')" "handshake_decrypt C ct h = Inr (pt, h')"
    "in_step h' r'" "n + 1 < 2 ^ 32 \<Longrightarrow> keyed h' (n + 1)" "sealed C pt ct"
proof -
  obtain k where k: "cipherKey h = Some k" "rs_cipherKey r = Some k" "length k = 32"
    using assms(2,3) by (auto simp: in_step_def keyed_def)
  obtain ct where ct: "aesGcmEncrypt C k (counter_nonce n) pt (handshakeHash h) = Some ct"
      "aesGcmDecrypt C k (counter_nonce n) ct (handshakeHash h) = Some pt"
    by (rule aesGcm_roundtrip [OF assms(1) k(3), of "counter_nonce n"]) simp_all
  show thesis
    using assms(2,3) k ct
    by (intro that [of ct "responder_authenticate C ct (r\<lparr>rs_nonceCounter := rs_nonceCounter r + 1\<rparr>)"
          "authenticate C ct (h\<lparr>nonceScratch := counter_nonce n, nonce := nonce h + 1\<rparr>)"])
      (auto simp: handshake_decrypt_def responder_encrypt_def in_step_def keyed_def nonce_result_def
        writeNonceCounter_scratch nonce_iv_eq authenticate_def responder_authenticate_eq sealed_def)
qed

text \<open>The two ends of the channel: what one writes with, the other one reads with.\<close>

definition linked :: "noise_socket \<Rightarrow> transport \<Rightarrow> bool" where
  "linked s t \<longleftrightarrow>
    encryptKey s = recvKey t \<and> decryptKey s = sendKey t \<and> writeCounter s = recvCounter t \<and>
    readCounter s = sendCounter t \<and> scratch_ok (writeNonceScratch s) \<and> scratch_ok (readNonceScratch s) \<and>
    length (recvKey t) = 32 \<and> length (sendKey t) = 32"

lemma finish_linked:
  assumes "crypto_laws C" "in_step h r"
  shows "linked (fst (finish_handshake C h)) (responder_finish C r)"
  using assms
  by (simp add: linked_def finish_handshake_def responder_finish_def in_step_def new_socket_def
      length_hkdfSplit split_beta)

subsection \<open>The two patterns\<close>

lemma of_noise_simps [simp]: "of_noise (Inr a) = Inr a" "of_noise (Inl e) = Inl (HandshakeError e)"
  by (simp_all add: of_noise_def)

lemma of_curve_simps [simp]: "of_curve (Inr a) = Inr a" "of_curve (Inl e) = Inl (CurveFailure e)"
  by (simp_all add: of_curve_def)

lemma of_cert_simps [simp]: "of_cert (Inr a) = Inr a" "of_cert (Inl e) = Inl (CertificateError e)"
  by (simp_all add: of_cert_def)

lemma server_noise_simps [simp]: "server_noise (Inr a) = Inr a" "server_noise (Inl e) = Inl (ServerNoise e)"
  by (simp_all add: server_noise_def)

lemma server_curve_simps [simp]: "server_curve (Inr a) = Inr a" "server_curve (Inl e) = Inl (ServerCurve e)"
  by (simp_all add: server_curve_def)

lemma noise_proto_lawsD: "noise_proto_laws P \<Longrightarrow> decode_handshake P (encode_handshake P m) = Some m"
  by (simp add: noise_proto_laws_def)

text \<open>The full handshake: every message is accepted, and the ends are linked.\<close>

lemma full_handshake_messages:
  assumes laws: "crypto_laws C" "curve_laws X" "noise_proto_laws P"
    and pairs: "generated_pair X clientStatic" "generated_pair X clientEph"
      "generated_pair X (serverStaticKeyPair srv)" "generated_pair X serverEph"
    and cert: "verify \<Longrightarrow> verifyNoiseCertificateChain CP G certChain (pubKey (serverStaticKeyPair srv)) root = Inr ()"
    and payload: "parse_payload srv payload = Some p"
  obtains h1 c1 c2 r h2 c3 c4 h3 t where
    "full_hello C P header clientEph = (h1, encode_handshake P (client_hello_message
      \<lparr>ch_ephemeral = Some (pubKey clientEph), ch_static = None, ch_payload = None\<rparr>))"
    "handleClientHello C X P srv header serverEph certChain (encode_handshake P (client_hello_message
        \<lparr>ch_ephemeral = Some (pubKey clientEph), ch_static = None, ch_payload = None\<rparr>)) =
      Inr (encode_handshake P (server_hello_message \<lparr>sh_ephemeral = Some (pubKey serverEph), sh_static = Some c1,
        sh_payload = Some c2\<rparr>), AwaitingClientFinish r serverEph, None)"
    "full_reply C X P CP G root verify h1 clientEph (encode_handshake P (server_hello_message
        \<lparr>sh_ephemeral = Some (pubKey serverEph), sh_static = Some c1, sh_payload = Some c2\<rparr>)) =
      Inr (h2, pubKey serverEph, pubKey (serverStaticKeyPair srv))"
    "client_finish_frame C X P h2 clientStatic payload (pubKey serverEph) =
      Inr (h3, encode_handshake P (client_finish_message \<lparr>cf_static = Some c3, cf_payload = Some c4\<rparr>))"
    "handleClientFinish C X P srv (encode_handshake P (client_finish_message
        \<lparr>cf_static = Some c3, cf_payload = Some c4\<rparr>)) r serverEph =
      Inr (Authenticated t, p, pubKey clientStatic)"
    "linked (fst (finish_handshake C h3)) t" "sealed C (pubKey (serverStaticKeyPair srv)) c1" "sealed C certChain c2"
    "sealed C (pubKey clientStatic) c3" "sealed C payload c4" "sendCounter t = 0" "recvCounter t = 0"
proof -
  have two: "(0 :: nat) + 1 < 2 ^ 32" by simp
  let ?ss = "serverStaticKeyPair srv"
  note decode = noise_proto_lawsD [OF laws(3)]
  obtain ee where ee: "scalarMult X (privKey clientEph) (pubKey serverEph) = Inr ee"
    "scalarMult X (privKey serverEph) (pubKey clientEph) = Inr ee"
    by (rule scalarMult_agrees [OF laws(2) pairs(2) pairs(4)])
  obtain es where es: "scalarMult X (privKey clientEph) (pubKey ?ss) = Inr es"
    "scalarMult X (privKey ?ss) (pubKey clientEph) = Inr es"
    by (rule scalarMult_agrees [OF laws(2) pairs(2) pairs(3)])
  obtain se where se: "scalarMult X (privKey clientStatic) (pubKey serverEph) = Inr se"
    "scalarMult X (privKey serverEph) (pubKey clientStatic) = Inr se"
    by (rule scalarMult_agrees [OF laws(2) pairs(1) pairs(4)])
  define h1 where "h1 = authenticate C (pubKey clientEph) (start_handshake C NOISE_XX_NAME header new_handshake)"
  define r1 where "r1 = responder_authenticate C (pubKey clientEph)
    (responder_start C NOISE_XX_NAME header new_responder)"
  have s1: "in_step h1 r1" unfolding h1_def r1_def by (intro noise_step)
  let ?h2 = "mixIntoKey C ee (authenticate C (pubKey serverEph) h1)"
  let ?r2 = "responder_mix C ee (responder_authenticate C (pubKey serverEph) r1)"
  have "in_step ?h2 ?r2" "keyed ?h2 0" using s1 laws(1) by (auto intro: noise_step)
  from server_to_client [OF laws(1) this, of "pubKey ?ss"]
  obtain c1 h3 r3 where c1: "responder_encrypt C (pubKey ?ss) ?r2 = Inr (c1, r3)"
    "handshake_decrypt C c1 ?h2 = Inr (pubKey ?ss, h3)" "in_step h3 r3" "sealed C (pubKey ?ss) c1" by metis
  have "in_step (mixIntoKey C es h3) (responder_mix C es r3)" "keyed (mixIntoKey C es h3) 0"
    using c1(3) laws(1) by (auto intro: noise_step)
  from server_to_client [OF laws(1) this, of certChain]
  obtain c2 h4 r4 where c2: "responder_encrypt C certChain (responder_mix C es r3) = Inr (c2, r4)"
    "handshake_decrypt C c2 (mixIntoKey C es h3) = Inr (certChain, h4)" "in_step h4 r4" "keyed h4 (0 + 1)" "sealed C certChain c2"
    using two by metis
  from client_to_server [OF laws(1) c2(3,4), of "pubKey clientStatic"]
  obtain c3 h5 r5 where c3: "handshake_encrypt C (pubKey clientStatic) h4 = Inr (c3, h5)"
    "responder_decrypt C c3 r4 = Inr (pubKey clientStatic, r5)" "in_step h5 r5" "sealed C (pubKey clientStatic) c3" by metis
  have "in_step (mixIntoKey C se h5) (responder_mix C se r5)" "keyed (mixIntoKey C se h5) 0"
    using c3(3) laws(1) by (auto intro: noise_step)
  from client_to_server [OF laws(1) this, of payload]
  obtain c4 h6 r6 where c4: "handshake_encrypt C payload (mixIntoKey C se h5) = Inr (c4, h6)"
    "responder_decrypt C c4 (responder_mix C se r5) = Inr (payload, r6)" "in_step h6 r6" "sealed C payload c4" by metis
  let ?m1 = "encode_handshake P (client_hello_message
    \<lparr>ch_ephemeral = Some (pubKey clientEph), ch_static = None, ch_payload = None\<rparr>)"
  let ?m2 = "encode_handshake P (server_hello_message \<lparr>sh_ephemeral = Some (pubKey serverEph),
    sh_static = Some c1, sh_payload = Some c2\<rparr>)"
  let ?m3 = "encode_handshake P (client_finish_message \<lparr>cf_static = Some c3, cf_payload = Some c4\<rparr>)"
  have "full_hello C P header clientEph = (h1, ?m1)" by (simp add: full_hello_def h1_def)
  moreover have "handleClientHello C X P srv header serverEph certChain ?m1 =
      Inr (?m2, AwaitingClientFinish r4 serverEph, None)"
    using c1(1) c2(1) ee(2) es(2)
    by (simp add: handleClientHello_def handleXxClientHello_def decode client_hello_message_def Let_def r1_def)
  moreover have "full_reply C X P CP G root verify h1 clientEph ?m2 = Inr (h4, pubKey serverEph, pubKey ?ss)"
    using c1(2) c2(2) ee(1) es(1) cert
    by (simp add: full_reply_def decode server_hello_message_def Let_def)
  moreover have "client_finish_frame C X P h4 clientStatic payload (pubKey serverEph) = Inr (h6, ?m3)"
    using c3(1) c4(1) se(1) by (simp add: client_finish_frame_def)
  moreover have "handleClientFinish C X P srv ?m3 r4 serverEph =
      Inr (Authenticated (responder_finish C r6), p, pubKey clientStatic)"
    using c3(2) c4(2) se(2) payload
    by (simp add: handleClientFinish_def decode client_finish_message_def parse_client_def completeAuthentication_def)
  moreover have "linked (fst (finish_handshake C h6)) (responder_finish C r6)"
    by (rule finish_linked [OF laws(1) c4(3)])
  ultimately show thesis
    using c1(4) c2(5) c3(4) c4(4) by (rule that) (simp_all add: responder_finish_def split_beta)
qed

text \<open>
  The short handshake with a pinned server key succeeds against the server too, with one message
  each way: the server learns the client's static key and payload from the first message, and both ends
  hold matching keys.
\<close>

theorem resume_handshake_agrees:
  assumes laws: "crypto_laws C" "curve_laws X" "noise_proto_laws P"
    and pairs: "generated_pair X clientStatic" "generated_pair X clientEph"
      "generated_pair X (serverStaticKeyPair srv)" "generated_pair X serverEph"
    and payload: "parse_payload srv payload = Some p"
  shows "\<exists>h1 m1 m2 s t.
    resume_hello C X P (pubKey (serverStaticKeyPair srv)) clientStatic clientEph payload header = Inr (h1, m1) \<and>
    handleClientHello C X P srv header serverEph certChain m1 =
      Inr (m2, Authenticated t, Some (p, pubKey clientStatic)) \<and>
    resume_reply C X P h1 clientStatic clientEph m2 = Inr (Some s) \<and> linked s t"
proof -
  let ?ss = "serverStaticKeyPair srv"
  note decode = noise_proto_lawsD [OF laws(3)]
  obtain es where es: "scalarMult X (privKey clientEph) (pubKey ?ss) = Inr es"
    "scalarMult X (privKey ?ss) (pubKey clientEph) = Inr es"
    by (rule scalarMult_agrees [OF laws(2) pairs(2) pairs(3)])
  obtain ss where ss: "scalarMult X (privKey clientStatic) (pubKey ?ss) = Inr ss"
    "scalarMult X (privKey ?ss) (pubKey clientStatic) = Inr ss"
    by (rule scalarMult_agrees [OF laws(2) pairs(1) pairs(3)])
  obtain ee where ee: "scalarMult X (privKey clientEph) (pubKey serverEph) = Inr ee"
    "scalarMult X (privKey serverEph) (pubKey clientEph) = Inr ee"
    by (rule scalarMult_agrees [OF laws(2) pairs(2) pairs(4)])
  obtain se where se: "scalarMult X (privKey clientStatic) (pubKey serverEph) = Inr se"
    "scalarMult X (privKey serverEph) (pubKey clientStatic) = Inr se"
    by (rule scalarMult_agrees [OF laws(2) pairs(1) pairs(4)])
  define h0 where "h0 = authenticate C (pubKey clientEph) (authenticate C (pubKey ?ss)
    (start_handshake C NOISE_IK_NAME header new_handshake))"
  define r0 where "r0 = responder_authenticate C (pubKey clientEph) (responder_authenticate C (pubKey ?ss)
    (responder_start C NOISE_IK_NAME header new_responder))"
  have s0: "in_step h0 r0" unfolding h0_def r0_def by (intro noise_step)
  have "in_step (mixIntoKey C es h0) (responder_mix C es r0)" "keyed (mixIntoKey C es h0) 0"
    using s0 laws(1) by (auto intro: noise_step)
  from client_to_server [OF laws(1) this, of "pubKey clientStatic"]
  obtain c1 h1 r1 where c1: "handshake_encrypt C (pubKey clientStatic) (mixIntoKey C es h0) = Inr (c1, h1)"
    "responder_decrypt C c1 (responder_mix C es r0) = Inr (pubKey clientStatic, r1)" "in_step h1 r1" by metis
  have "in_step (mixIntoKey C ss h1) (responder_mix C ss r1)" "keyed (mixIntoKey C ss h1) 0"
    using c1(3) laws(1) by (auto intro: noise_step)
  from client_to_server [OF laws(1) this, of payload]
  obtain c2 h2 r2 where c2: "handshake_encrypt C payload (mixIntoKey C ss h1) = Inr (c2, h2)"
    "responder_decrypt C c2 (responder_mix C ss r1) = Inr (payload, r2)" "in_step h2 r2" by metis
  let ?h3 = "mixIntoKey C se (mixIntoKey C ee (authenticate C (pubKey serverEph) h2))"
  let ?r3 = "responder_mix C se (responder_mix C ee (responder_authenticate C (pubKey serverEph) r2))"
  have "in_step ?h3 ?r3" "keyed ?h3 0" using c2(3) laws(1) by (auto intro: noise_step)
  from server_to_client [OF laws(1) this, of certChain]
  obtain c3 h4 r4 where c3: "responder_encrypt C certChain ?r3 = Inr (c3, r4)"
    "handshake_decrypt C c3 ?h3 = Inr (certChain, h4)" "in_step h4 r4" by metis
  let ?m1 = "encode_handshake P (client_hello_message
    \<lparr>ch_ephemeral = Some (pubKey clientEph), ch_static = Some c1, ch_payload = Some c2\<rparr>)"
  let ?m2 = "encode_handshake P (server_hello_message \<lparr>sh_ephemeral = Some (pubKey serverEph),
    sh_static = None, sh_payload = Some c3\<rparr>)"
  have "resume_hello C X P (pubKey ?ss) clientStatic clientEph payload header = Inr (h2, ?m1)"
    using c1(1) c2(1) es(1) ss(1) by (simp add: resume_hello_def h0_def Let_def)
  moreover have "handleClientHello C X P srv header serverEph certChain ?m1 =
      Inr (?m2, Authenticated (responder_finish C r4), Some (p, pubKey clientStatic))"
    using c1(2) c2(2) c3(1) es(2) ss(2) ee(2) se(2) payload
    by (simp add: handleClientHello_def handleIkClientHello_def decode client_hello_message_def Let_def r0_def
        parse_client_def completeAuthentication_def)
  moreover have "resume_reply C X P h2 clientStatic clientEph ?m2 = Inr (Some (fst (finish_handshake C h4)))"
    using c3(2) ee(1) se(1) by (simp add: resume_reply_def decode server_hello_message_def Let_def)
  moreover have "linked (fst (finish_handshake C h4)) (responder_finish C r4)"
    by (rule finish_linked [OF laws(1) c3(3)])
  ultimately show ?thesis by blast
qed

subsection \<open>The channel\<close>

text \<open>One end encrypts, the other end decrypts: the frame arrives and the counters stay equal.\<close>

lemma to_server:
  assumes "crypto_laws C" "linked s t" "writeCounter s < 2 ^ 32"
  obtains ct s' t' where "socket_encrypt C pt s = (Inr ct, s')" "transport_decrypt C ct t = (Inr pt, t')"
    "linked s' t'" "writeCounter s' = writeCounter s + 1" "readCounter s' = readCounter s"
proof -
  have len: "length (encryptKey s) = 32" using assms(2) by (simp add: linked_def)
  obtain ct where ct: "aesGcmEncrypt C (encryptKey s) (counter_nonce (writeCounter s)) pt [] = Some ct"
      "aesGcmDecrypt C (encryptKey s) (counter_nonce (writeCounter s)) ct [] = Some pt"
    by (rule aesGcm_roundtrip [OF assms(1) len, of "counter_nonce (writeCounter s)"]) simp_all
  then show thesis
    using assms(2,3)
    by (intro that [of ct "s\<lparr>writeCounter := writeCounter s + 1, writeNonceScratch := counter_nonce (writeCounter s)\<rparr>"
          "t\<lparr>recvCounter := recvCounter t + 1\<rparr>"])
      (simp_all add: socket_encrypt_def transport_decrypt_def linked_def writeNonceCounter_scratch
        buildAesGcmNonce_def nonce_iv_eq Let_def)
qed

lemma to_client:
  assumes "crypto_laws C" "linked s t" "readCounter s < 2 ^ 32"
  obtains ct s' t' where "transport_encrypt C pt t = (Inr ct, t')" "socket_decrypt C ct s = (Inr pt, s')"
    "linked s' t'" "readCounter s' = readCounter s + 1" "writeCounter s' = writeCounter s"
proof -
  have len: "length (decryptKey s) = 32" using assms(2) by (simp add: linked_def)
  obtain ct where ct: "aesGcmEncrypt C (decryptKey s) (counter_nonce (readCounter s)) pt [] = Some ct"
      "aesGcmDecrypt C (decryptKey s) (counter_nonce (readCounter s)) ct [] = Some pt"
    by (rule aesGcm_roundtrip [OF assms(1) len, of "counter_nonce (readCounter s)"]) simp_all
  then show thesis
    using assms(2,3)
    by (intro that [of ct "t\<lparr>sendCounter := sendCounter t + 1\<rparr>"
          "s\<lparr>readCounter := readCounter s + 1, readNonceScratch := counter_nonce (readCounter s)\<rparr>"])
      (simp_all add: socket_decrypt_def transport_encrypt_def linked_def writeNonceCounter_scratch
        buildAesGcmNonce_def nonce_iv_eq Let_def)
qed

lemma all_to_server:
  assumes "crypto_laws C" "linked s t" "writeCounter s + length pts \<le> 2 ^ 32"
  shows "\<exists>cts s' t'. each (socket_encrypt C) pts s = (Inr cts, s') \<and> each (transport_decrypt C) cts t = (Inr pts, t') \<and>
    linked s' t' \<and> readCounter s' = readCounter s"
  using assms(2,3)
proof (induction pts arbitrary: s t)
  case (Cons pt pts)
  then have "writeCounter s < 2 ^ 32" by simp
  from to_server [OF assms(1) Cons.prems(1) this, of pt] obtain ct s1 t1 where
    1: "socket_encrypt C pt s = (Inr ct, s1)" "transport_decrypt C ct t = (Inr pt, t1)" "linked s1 t1"
      "writeCounter s1 = writeCounter s + 1" "readCounter s1 = readCounter s" by metis
  have "writeCounter s1 + length pts \<le> 2 ^ 32" using 1(4) Cons.prems(2) by simp
  from Cons.IH [OF 1(3) this] show ?case using 1 by force
qed simp

lemma all_to_client:
  assumes "crypto_laws C" "linked s t" "readCounter s + length pts \<le> 2 ^ 32"
  shows "\<exists>cts s' t'. each (transport_encrypt C) pts t = (Inr cts, t') \<and> each (socket_decrypt C) cts s = (Inr pts, s') \<and>
    linked s' t' \<and> writeCounter s' = writeCounter s"
  using assms(2,3)
proof (induction pts arbitrary: s t)
  case (Cons pt pts)
  then have "readCounter s < 2 ^ 32" by simp
  from to_client [OF assms(1) Cons.prems(1) this, of pt] obtain ct s1 t1 where
    1: "transport_encrypt C pt t = (Inr ct, t1)" "socket_decrypt C ct s = (Inr pt, s1)" "linked s1 t1"
      "readCounter s1 = readCounter s + 1" "writeCounter s1 = writeCounter s" by metis
  have "readCounter s1 + length pts \<le> 2 ^ 32" using 1(4) Cons.prems(2) by simp
  from Cons.IH [OF 1(3) this] show ?case using 1 by force
qed simp

text \<open>
  C22: After the handshake the channel delivers: whatever both ends send, up to the \<open>2 ^ 32\<close> frames that
  the counters allow, the other end decrypts to the same frames in the same order, and the ends stay
  linked.
\<close>

theorem channel_delivers:
  assumes "crypto_laws C" "linked s t" "writeCounter s + length ups \<le> 2 ^ 32" "readCounter s + length downs \<le> 2 ^ 32"
  shows "\<exists>upCts downCts s1 t1 s2 t2.
      each (socket_encrypt C) ups s = (Inr upCts, s1) \<and> each (transport_decrypt C) upCts t = (Inr ups, t1) \<and>
      each (transport_encrypt C) downs t1 = (Inr downCts, t2) \<and> each (socket_decrypt C) downCts s1 = (Inr downs, s2) \<and>
      linked s2 t2"
proof -
  from all_to_server [OF assms(1-3)] obtain cts s1 t1 where
    1: "each (socket_encrypt C) ups s = (Inr cts, s1)" "each (transport_decrypt C) cts t = (Inr ups, t1)"
      "linked s1 t1" "readCounter s1 = readCounter s" by blast
  from all_to_client [OF assms(1) 1(3), of downs] assms(4) 1(4) show ?thesis using 1(1,2) by metis
qed

text \<open>
  C21: No nonce is used twice with the write key.  Whatever frames are given to the channel, and whatever
  attempts fail, the frame at position \<open>i\<close> is sealed under the nonce that spells the counter
  \<open>writeCounter s + i\<close>, or refused when this counter has passed \<open>2 ^ 32 - 1\<close>; and the nonces of
  different counters are different.
\<close>

theorem nonce_never_reused:
  assumes "scratch_ok (writeNonceScratch s)"
  shows "fst (try_each (socket_encrypt C) frames s) =
      map (\<lambda>(n, frame).
          if n < 2 ^ 32 then
            case aesGcmEncrypt C (encryptKey s) (counter_nonce n) frame [] of
              None \<Rightarrow> Inl SealFailed
            | Some ciphertext \<Rightarrow> Inr ciphertext
          else Inl (NonceError (NonceCounterOverflow n)))
        (enumerate (writeCounter s) frames) \<and>
    inj_on counter_nonce {..<2 ^ 32}"
  using try_encrypt_nonces [OF assms] counter_nonce_inj by (auto simp: inj_on_def)

subsection \<open>Witnesses\<close>

text \<open>A stand-in for the protobuf code of the handshake.\<close>

definition enc_fields :: "bytes option list \<Rightarrow> bytes" where
  "enc_fields vs = concat (map enc_field vs)"

fun dec_fields :: "nat \<Rightarrow> bytes \<Rightarrow> bytes option list" where
  "dec_fields 0 bs = []"
| "dec_fields (Suc n) bs = (let (v, r) = dec_field bs in v # dec_fields n r)"

lemma dec_enc_fields: "dec_fields (length vs) (enc_fields vs) = vs"
  by (induction vs) (simp_all add: enc_fields_def)

lemma dec_enc_fields_3 [simp]: "dec_fields 3 (enc_fields [a, b, c]) = [a, b, c]"
  using dec_enc_fields [of "[a, b, c]"] by (simp add: numeral_3_eq_3)

lemma dec_enc_fields_2 [simp]: "dec_fields 2 (enc_fields [a, b]) = [a, b]"
  using dec_enc_fields [of "[a, b]"] by (simp add: numeral_2_eq_2)

definition sample_noise_proto :: noise_proto where
  "sample_noise_proto = \<lparr>
     encode_handshake = (\<lambda>m. enc_fields
       [map_option (\<lambda>h. enc_fields [ch_ephemeral h, ch_static h, ch_payload h]) (clientHello m),
        map_option (\<lambda>h. enc_fields [sh_ephemeral h, sh_static h, sh_payload h]) (serverHello m),
        map_option (\<lambda>h. enc_fields [cf_static h, cf_payload h]) (clientFinish m)]),
     decode_handshake = (\<lambda>b. case dec_fields 3 b of
         [x, y, z] \<Rightarrow> Some \<lparr>
           clientHello = map_option (\<lambda>f. let v = dec_fields 3 f in
             \<lparr>ch_ephemeral = v ! 0, ch_static = v ! 1, ch_payload = v ! 2\<rparr>) x,
           serverHello = map_option (\<lambda>f. let v = dec_fields 3 f in
             \<lparr>sh_ephemeral = v ! 0, sh_static = v ! 1, sh_payload = v ! 2\<rparr>) y,
           clientFinish = map_option (\<lambda>f. let v = dec_fields 2 f in
             \<lparr>cf_static = v ! 0, cf_payload = v ! 1\<rparr>) z\<rparr>
       | _ \<Rightarrow> None)\<rparr>"

lemma map_fields [simp]:
  "map_option (\<lambda>x. \<lparr>ch_ephemeral = ch_ephemeral x, ch_static = ch_static x, ch_payload = ch_payload x\<rparr>) u = u"
  "map_option (\<lambda>x. \<lparr>sh_ephemeral = sh_ephemeral x, sh_static = sh_static x, sh_payload = sh_payload x\<rparr>) v = v"
  "map_option (\<lambda>x. \<lparr>cf_static = cf_static x, cf_payload = cf_payload x\<rparr>) w = w"
  by (cases u; cases v; cases w; simp)+

lemma sample_noise_proto_laws: "noise_proto_laws sample_noise_proto"
  by (simp add: noise_proto_laws_def sample_noise_proto_def option.map_comp comp_def)

definition sample_pair :: "byte \<Rightarrow> key_pair" where
  "sample_pair b = \<lparr>pubKey = replicate 32 b, privKey = replicate 32 b\<rparr>"

lemma sample_pair_generated [simp]: "generated_pair sample_curve (sample_pair b)"
  by (simp add: generated_pair_def sample_pair_def sample_curve_def)

definition sample_server :: "bytes server" where
  "sample_server = \<lparr>serverStaticKeyPair = sample_pair 2, parse_payload = Some\<rparr>"

theorem resume_handshake_agrees_witness:
  "\<exists>h1 m1 m2 s t.
    resume_hello sample_crypto sample_curve sample_noise_proto (replicate 32 2) (sample_pair 1) (sample_pair 3) [7, 8]
      WA_PROTO_HEADER = Inr (h1, m1) \<and>
    handleClientHello sample_crypto sample_curve sample_noise_proto sample_server WA_PROTO_HEADER (sample_pair 4) [9] m1 =
      Inr (m2, Authenticated t, Some ([7, 8], replicate 32 1)) \<and>
    resume_reply sample_crypto sample_curve sample_noise_proto h1 (sample_pair 1) (sample_pair 3) m2 = Inr (Some s) \<and>
    linked s t"
  using resume_handshake_agrees [OF sample_crypto_laws sample_curve_laws sample_noise_proto_laws,
      of "sample_pair 1" "sample_pair 3" sample_server "sample_pair 4" "[7, 8]" "[7, 8]" WA_PROTO_HEADER "[9]"]
  by (simp add: sample_server_def) (simp add: sample_pair_def)

definition sample_socket :: noise_socket where
  "sample_socket = new_socket (replicate 32 5) (replicate 32 6)"

definition sample_transport :: transport where
  "sample_transport = \<lparr>recvKey = replicate 32 5, sendKey = replicate 32 6, sendCounter = 0, recvCounter = 0\<rparr>"

lemma sample_linked: "linked sample_socket sample_transport"
  by (simp add: linked_def sample_socket_def sample_transport_def new_socket_def)

theorem channel_delivers_witness:
  "\<exists>upCts downCts s1 t1 s2 t2.
      each (socket_encrypt sample_crypto) [[1], [2, 3]] sample_socket = (Inr upCts, s1) \<and>
      each (transport_decrypt sample_crypto) upCts sample_transport = (Inr [[1], [2, 3]], t1) \<and>
      each (transport_encrypt sample_crypto) [[4]] t1 = (Inr downCts, t2) \<and>
      each (socket_decrypt sample_crypto) downCts s1 = (Inr [[4]], s2) \<and> linked s2 t2"
  by (rule channel_delivers [OF sample_crypto_laws sample_linked])
    (simp_all add: sample_socket_def new_socket_def)

theorem nonce_never_reused_witness:
  "fst (try_each (socket_encrypt sample_crypto) [[1], [2, 3]] sample_socket) =
    map (\<lambda>(n, frame).
        case aesGcmEncrypt sample_crypto (replicate 32 5) (counter_nonce n) frame [] of
          None \<Rightarrow> Inl SealFailed
        | Some ciphertext \<Rightarrow> Inr ciphertext)
      [(0, [1]), (1, [2, 3])]"
  using nonce_never_reused [of sample_socket sample_crypto "[[1], [2, 3]]"]
  by (simp add: sample_socket_def new_socket_def)

end
