(* ===== verification/NoiseConnection.thy ===== *)
theory NoiseConnection
  imports NoiseAgreement
begin

text \<open>
  The object of \<open>WaNoiseSession.ts\<close> with its \<open>start\<close> coroutine: which frames go to the handshake, which
  wait for its end, and which are decrypted at once.
\<close>

subsection \<open>State\<close>

text \<open>The local variables of \<open>start\<close>; \<open>at_pinned\<close> is the server key of a short handshake.\<close>

record attempt =
  at_config :: noise_config
  at_ephemeral :: key_pair
  at_payload :: bytes
  at_pinned :: "bytes option"

text \<open>
  \<open>WaitingFrame\<close>: the promise of \<open>waitHandshakeFrame\<close> is pending; \<open>FrameArrived\<close>: it has been settled
  and the continuation is due.
\<close>

datatype stage =
    Idle
  | Preparing noise_config
  | SendingHello attempt handshake
  | WaitingFrame attempt handshake
  | FrameArrived attempt handshake "session_error + bytes"
  | SendingFinish handshake
  | Established
  | Failed session_error

text \<open>
  The waiter and its rejecter are set and cleared together and belong to the pending promise, so one
  flag stands for both.
\<close>

record noise_session =
  frameCodec :: "codec option"
  handshakeInbox :: "bytes list"
  handshakeInboxHead :: nat
  handshakeWaiter :: bool
  pendingDecryptedFrames :: "bytes list"
  closedError :: bool
  noiseSocket :: "noise_socket option"
  serverStaticKey :: "bytes option"
  trustedRootCa :: "root_ca option"
  stage :: stage

definition new_session :: noise_session where
  "new_session = \<lparr>frameCodec = None, handshakeInbox = [], handshakeInboxHead = 0, handshakeWaiter = False,
     pendingDecryptedFrames = [], closedError = False, noiseSocket = None, serverStaticKey = None,
     trustedRootCa = None, stage = Idle\<rparr>"

text \<open>The platform and the generated code.\<close>

record environment =
  env_crypto :: crypto
  env_curve :: curve
  env_proto :: noise_proto
  env_certs :: cert_proto
  env_signatures :: signatures

subsection \<open>Incoming frames\<close>

definition decryptFramesBatch :: "crypto \<Rightarrow> bytes list \<Rightarrow> noise_socket \<Rightarrow> (noise_error + bytes list) \<times> noise_socket" where
  "decryptFramesBatch C frames sk = each (socket_decrypt C) frames sk"

text \<open>A frame that arrives during the handshake: the waiting coroutine gets it, or the inbox.\<close>

definition deliver_frame :: "bytes \<Rightarrow> noise_session \<Rightarrow> noise_session" where
  "deliver_frame frame s =
    (if handshakeWaiter s then
       s\<lparr>handshakeWaiter := False,
         stage := (case stage s of WaitingFrame a h \<Rightarrow> FrameArrived a h (Inr frame) | st \<Rightarrow> st)\<rparr>
     else s\<lparr>handshakeInbox := handshakeInbox s @ [frame]\<rparr>)"

definition push_frames :: "crypto \<Rightarrow> bytes \<Rightarrow> noise_session \<Rightarrow> (session_error + bytes list) \<times> noise_session" where
  "push_frames C chunk s =
    (case frameCodec s of
       None \<Rightarrow> (Inr [], s)
     | Some codec \<Rightarrow>
         let out = pendingDecryptedFrames s;
             (pushed, codec') = pushWireChunk chunk codec;
             s1 = s\<lparr>pendingDecryptedFrames := [], frameCodec := Some codec'\<rparr>
         in case pushed of
              Inl e \<Rightarrow> (Inl (FrameError e), s1)
            | Inr frames \<Rightarrow>
                (case noiseSocket s of
                   None \<Rightarrow> (Inr out, fold deliver_frame frames s1)
                 | Some sk \<Rightarrow>
                     (case decryptFramesBatch C frames sk of
                        (Inl e, sk') \<Rightarrow> (Inl (HandshakeError e), s1\<lparr>noiseSocket := Some sk'\<rparr>)
                      | (Inr decrypted, sk') \<Rightarrow> (Inr (out @ decrypted), s1\<lparr>noiseSocket := Some sk'\<rparr>))))"

definition encryptFrame :: "crypto \<Rightarrow> bytes \<Rightarrow> noise_session \<Rightarrow> (session_error + bytes) \<times> noise_session" where
  "encryptFrame C frame s =
    (case (noiseSocket s, frameCodec s) of
       (Some sk, Some codec) \<Rightarrow>
         (case socket_encrypt C frame sk of
            (Inl e, sk') \<Rightarrow> (Inl (HandshakeError e), s\<lparr>noiseSocket := Some sk'\<rparr>)
          | (Inr ct, sk') \<Rightarrow>
              (case encodeFrame ct codec of
                 Inl e \<Rightarrow> (Inl (FrameError e), s\<lparr>noiseSocket := Some sk'\<rparr>)
               | Inr (wire, codec') \<Rightarrow> (Inr wire, s\<lparr>noiseSocket := Some sk', frameCodec := Some codec'\<rparr>)))
     | _ \<Rightarrow> (Inl SessionNotEstablished, s))"

definition session_closed :: "noise_session \<Rightarrow> noise_session" where
  "session_closed s =
    (let s1 = s\<lparr>closedError := True\<rparr>
     in if handshakeWaiter s1 then
          s1\<lparr>handshakeWaiter := False,
            stage := (case stage s1 of WaitingFrame a h \<Rightarrow> FrameArrived a h (Inl SessionClosed) | st \<Rightarrow> st)\<rparr>
        else s1)"

definition frame_timeout :: "noise_session \<Rightarrow> noise_session" where
  "frame_timeout s =
    s\<lparr>handshakeWaiter := False,
      stage := (case stage s of WaitingFrame a h \<Rightarrow> FrameArrived a h (Inl FrameTimeout) | st \<Rightarrow> st)\<rparr>"

subsection \<open>The coroutine\<close>

definition fail :: "session_error \<Rightarrow> noise_session \<Rightarrow> noise_session" where
  "fail e s = s\<lparr>stage := Failed e\<rparr>"

text \<open>\<open>start\<close> up to the first \<open>await\<close>, after \<open>reset\<close>.\<close>

definition reset :: "noise_session \<Rightarrow> noise_session" where
  "reset s = s\<lparr>frameCodec := None, handshakeInbox := [], handshakeInboxHead := 0, handshakeWaiter := False,
     pendingDecryptedFrames := [], closedError := False, noiseSocket := None, serverStaticKey := None,
     trustedRootCa := None\<rparr>"

definition start_session :: "noise_config \<Rightarrow> noise_session \<Rightarrow> noise_session" where
  "start_session config s =
    (case new_codec (Some (intro_frame config)) (int WA_MAX_FRAME_LENGTH) of
       Inl e \<Rightarrow> fail (FrameError e) (reset s)
     | Inr codec \<Rightarrow> (reset s)\<lparr>frameCodec := Some codec, stage := Preparing config\<rparr>)"

text \<open>\<open>sendHandshakeFrame\<close>: the bytes that go to the socket.\<close>

definition sendHandshakeFrame :: "bytes \<Rightarrow> noise_session \<Rightarrow> (session_error + bytes) \<times> noise_session" where
  "sendHandshakeFrame frame s =
    (case frameCodec s of
       None \<Rightarrow> (Inl CodecMissing, s)
     | Some codec \<Rightarrow>
         (case encodeFrame frame codec of
            Inl e \<Rightarrow> (Inl (FrameError e), s)
          | Inr (wire, codec') \<Rightarrow> (Inr wire, s\<lparr>frameCodec := Some codec'\<rparr>)))"

definition send_and :: "bytes \<Rightarrow> stage \<Rightarrow> noise_session \<Rightarrow> bytes \<times> noise_session" where
  "send_and frame next s =
    (case sendHandshakeFrame frame s of
       (Inl e, s') \<Rightarrow> ([], fail e s')
     | (Inr wire, s') \<Rightarrow> (wire, s'\<lparr>stage := next\<rparr>))"

text \<open>The key pair and the payload are there: the first message is built and sent.\<close>

definition prepared :: "environment \<Rightarrow> noise_config \<Rightarrow> key_pair \<Rightarrow> noise_session \<Rightarrow> bytes \<times> noise_session" where
  "prepared E config ephemeral s =
    (case resolveHandshakePayload config of
       Inl e \<Rightarrow> ([], fail e s)
     | Inr payload \<Rightarrow>
         let s1 = s\<lparr>trustedRootCa := cfg_trustedRootCa config\<rparr>;
             pinned = (case cfg_serverStaticKey config of
                 Some k \<Rightarrow> if length k = 32 then Some k else None | None \<Rightarrow> None);
             a = \<lparr>at_config = config, at_ephemeral = ephemeral, at_payload = payload, at_pinned = pinned\<rparr>
         in case pinned of
              Some k \<Rightarrow>
                (case resume_hello (env_crypto E) (env_curve E) (env_proto E) k (clientStaticKeyPair config)
                    ephemeral payload (protocol_header config) of
                   Inl e \<Rightarrow> ([], fail e s1)
                 | Inr (h, frame) \<Rightarrow> send_and frame (SendingHello a h) s1)
            | None \<Rightarrow>
                (case full_hello (env_crypto E) (env_proto E) (protocol_header config) ephemeral of
                   (h, frame) \<Rightarrow> send_and frame (SendingHello a h) s1))"

text \<open>The message has been sent: \<open>waitHandshakeFrame\<close>.\<close>

definition waitHandshakeFrame :: "attempt \<Rightarrow> handshake \<Rightarrow> noise_session \<Rightarrow> noise_session" where
  "waitHandshakeFrame a h s =
    (if closedError s then fail SessionClosed s
     else if handshakeInboxHead s < length (handshakeInbox s) then
       let queued = handshakeInbox s ! handshakeInboxHead s;
           s1 = s\<lparr>handshakeInboxHead := handshakeInboxHead s + 1\<rparr>;
           s2 = (if handshakeInboxHead s1 = length (handshakeInbox s1)
             then s1\<lparr>handshakeInbox := [], handshakeInboxHead := 0\<rparr> else s1)
       in s2\<lparr>stage := FrameArrived a h (Inr queued)\<rparr>
     else s\<lparr>handshakeWaiter := True, stage := WaitingFrame a h\<rparr>)"

definition decodeBufferedPostHandshakeFrames :: "crypto \<Rightarrow> noise_session \<Rightarrow> session_error option \<times> noise_session" where
  "decodeBufferedPostHandshakeFrames C s =
    (case noiseSocket s of
       None \<Rightarrow> (None, s)
     | Some sk \<Rightarrow>
         if length (handshakeInbox s) \<le> handshakeInboxHead s then (None, s)
         else
           (case decryptFramesBatch C (drop (handshakeInboxHead s) (handshakeInbox s)) sk of
              (Inl e, sk') \<Rightarrow> (Some (HandshakeError e), s\<lparr>noiseSocket := Some sk'\<rparr>)
            | (Inr decrypted, sk') \<Rightarrow>
                (None, s\<lparr>noiseSocket := Some sk',
                  pendingDecryptedFrames := pendingDecryptedFrames s @ decrypted,
                  handshakeInbox := [], handshakeInboxHead := 0\<rparr>)))"

text \<open>The handshake has returned a channel: the end of \<open>start\<close>.\<close>

definition establish :: "crypto \<Rightarrow> noise_socket \<Rightarrow> noise_session \<Rightarrow> noise_session" where
  "establish C sk s =
    (case decodeBufferedPostHandshakeFrames C (s\<lparr>noiseSocket := Some sk\<rparr>) of
       (Some e, s') \<Rightarrow> fail e s'
     | (None, s') \<Rightarrow> s'\<lparr>stage := Established\<rparr>)"

text \<open>\<open>continueFullHandshake\<close> up to the message that is sent.\<close>

definition continueFullHandshake ::
    "environment \<Rightarrow> attempt \<Rightarrow> handshake \<Rightarrow> bytes \<Rightarrow> noise_session \<Rightarrow> bytes \<times> noise_session" where
  "continueFullHandshake E a h frame s =
    (case full_reply (env_crypto E) (env_curve E) (env_proto E) (env_certs E) (env_signatures E) (trustedRootCa s)
        (verifyCertificateChain (at_config a) \<noteq> Some False) h (at_ephemeral a) frame of
       Inl e \<Rightarrow> ([], fail e s)
     | Inr (h1, serverEphemeral, serverStatic) \<Rightarrow>
         let s1 = s\<lparr>serverStaticKey := Some serverStatic\<rparr>
         in case client_finish_frame (env_crypto E) (env_curve E) (env_proto E) h1
                (clientStaticKeyPair (at_config a)) (at_payload a) serverEphemeral of
              Inl e \<Rightarrow> ([], fail e s1)
            | Inr (h2, out) \<Rightarrow> send_and out (SendingFinish h2) s1)"

text \<open>The frame of the server has arrived; the bytes that are sent next, if any.\<close>

definition frame_arrived :: "environment \<Rightarrow> attempt \<Rightarrow> handshake \<Rightarrow> session_error + bytes \<Rightarrow> noise_session \<Rightarrow> bytes \<times> noise_session" where
  "frame_arrived E a h result s =
    (case result of
       Inl e \<Rightarrow> ([], fail e s)
     | Inr frame \<Rightarrow>
         (case at_pinned a of
            None \<Rightarrow> continueFullHandshake E a h frame s
          | Some k \<Rightarrow>
              (case resume_reply (env_crypto E) (env_curve E) (env_proto E) h
                  (clientStaticKeyPair (at_config a)) (at_ephemeral a) frame of
                 Inl e \<Rightarrow> ([], fail e s)
               | Inr (Some sk) \<Rightarrow> ([], establish (env_crypto E) sk (s\<lparr>serverStaticKey := Some k\<rparr>))
               | Inr None \<Rightarrow> continueFullHandshake E a
                   (fallback_handshake (env_crypto E) (protocol_header (at_config a)) (at_ephemeral a)) frame s)))"

text \<open>The last message of the full handshake has been sent.\<close>

definition finish_sent :: "crypto \<Rightarrow> handshake \<Rightarrow> noise_session \<Rightarrow> noise_session" where
  "finish_sent C h s = establish C (fst (finish_handshake C h)) s"

subsection \<open>Runs\<close>

text \<open>
  A run records, beside the session, the bytes that were pushed and the frames that were returned.  A
  push that throws, an error of the socket and a push before \<open>start\<close> are no steps: the caller drops
  the session, and the bytes.
\<close>

record run =
  conn :: noise_session
  received :: bytes
  emitted :: "bytes list"

definition new_run :: run where
  "new_run = \<lparr>conn = new_session, received = [], emitted = []\<rparr>"

inductive run_step :: "environment \<Rightarrow> run \<Rightarrow> run \<Rightarrow> bool" for E where
  start: "stage (conn r) = Idle \<Longrightarrow> run_step E r (r\<lparr>conn := start_session config (conn r)\<rparr>)"
| prepared: "stage (conn r) = Preparing config \<Longrightarrow>
    run_step E r (r\<lparr>conn := snd (prepared E config ephemeral (conn r))\<rparr>)"
| hello_sent: "stage (conn r) = SendingHello a h \<Longrightarrow> run_step E r (r\<lparr>conn := waitHandshakeFrame a h (conn r)\<rparr>)"
| arrived: "stage (conn r) = FrameArrived a h result \<Longrightarrow>
    run_step E r (r\<lparr>conn := snd (frame_arrived E a h result (conn r))\<rparr>)"
| finish_sent: "stage (conn r) = SendingFinish h \<Longrightarrow>
    run_step E r (r\<lparr>conn := finish_sent (env_crypto E) h (conn r)\<rparr>)"
| hello_failed: "stage (conn r) = SendingHello a h \<Longrightarrow> run_step E r (r\<lparr>conn := fail SendWireFailed (conn r)\<rparr>)"
| finish_failed: "stage (conn r) = SendingFinish h \<Longrightarrow> run_step E r (r\<lparr>conn := fail SendWireFailed (conn r)\<rparr>)"
| push: "frameCodec (conn r) \<noteq> None \<Longrightarrow> push_frames (env_crypto E) chunk (conn r) = (Inr out, s) \<Longrightarrow>
    run_step E r \<lparr>conn = s, received = received r @ chunk, emitted = emitted r @ out\<rparr>"
| encrypt: "run_step E r (r\<lparr>conn := snd (encryptFrame (env_crypto E) frame (conn r))\<rparr>)"
| closed: "run_step E r (r\<lparr>conn := session_closed (conn r)\<rparr>)"
| timeout: "stage (conn r) = WaitingFrame a h \<Longrightarrow> run_step E r (r\<lparr>conn := frame_timeout (conn r)\<rparr>)"

inductive run_reach :: "environment \<Rightarrow> run \<Rightarrow> bool" for E where
  init: "run_reach E new_run"
| step: "run_reach E r \<Longrightarrow> run_step E r r' \<Longrightarrow> run_reach E r'"

subsection \<open>The invariant\<close>

text \<open>What the frames decrypt to, from counter \<open>n\<close> on.\<close>

fun opens :: "crypto \<Rightarrow> bytes \<Rightarrow> nat \<Rightarrow> bytes list \<Rightarrow> bytes list option" where
  "opens C k n [] = Some []"
| "opens C k n (frame # frames) =
    (case aesGcmDecrypt C k (counter_nonce n) frame [] of
       None \<Rightarrow> None
     | Some pt \<Rightarrow> map_option ((#) pt) (opens C k (n + 1) frames))"

lemma opens_append:
  "opens C k n (xs @ ys) =
    (case opens C k n xs of
       None \<Rightarrow> None
     | Some pts \<Rightarrow> map_option ((@) pts) (opens C k (n + length xs) ys))"
proof (induction xs arbitrary: n)
  case Nil
  then show ?case by (cases "opens C k n ys") simp_all
next
  case (Cons x xs)
  show ?case
    by (cases "opens C k (Suc n) xs"; cases "opens C k (Suc (n + length xs)) ys")
      (auto simp: Cons.IH split: option.split)
qed

lemma socket_decrypt_Inr:
  assumes "socket_decrypt C frame sk = (Inr pt, sk')" "scratch_ok (readNonceScratch sk)"
  shows "aesGcmDecrypt C (decryptKey sk) (counter_nonce (readCounter sk)) frame [] = Some pt"
    "readCounter sk' = readCounter sk + 1" "decryptKey sk' = decryptKey sk" "scratch_ok (readNonceScratch sk')"
  using assms writeNonceCounter_scratch [OF assms(2), of "readCounter sk"]
    writeNonceCounter_overflow [OF assms(2), of "readCounter sk"]
  by (cases "readCounter sk < 2 ^ 32"; auto simp: socket_decrypt_def Let_def not_less split: option.splits)+

lemma decryptFramesBatch_opens:
  assumes "decryptFramesBatch C frames sk = (Inr pts, sk')" "scratch_ok (readNonceScratch sk)"
  shows "opens C (decryptKey sk) (readCounter sk) frames = Some pts \<and>
    readCounter sk' = readCounter sk + length frames \<and> decryptKey sk' = decryptKey sk \<and>
    scratch_ok (readNonceScratch sk')"
  using assms unfolding decryptFramesBatch_def
proof (induction frames arbitrary: sk pts)
  case (Cons frame frames)
  from Cons.prems(1) obtain b s1 cs where 1: "socket_decrypt C frame sk = (Inr b, s1)"
      "each (socket_decrypt C) frames s1 = (Inr cs, sk')" "pts = b # cs" by (rule each_Cons_InrE)
  show ?case
    using Cons.IH [OF 1(2)] socket_decrypt_Inr [OF 1(1) Cons.prems(2)] 1(3) by simp
qed simp

text \<open>The frames that \<open>stage\<close> says the coroutine has taken.\<close>

fun handed :: "stage \<Rightarrow> bytes list \<Rightarrow> bool" where
  "handed Idle hs = False"
| "handed (FrameArrived a h (Inr frame)) hs = (hs = [frame])"
| "handed (SendingFinish h) hs = (length hs = 1)"
| "handed Established hs = (length hs = 1)"
| "handed _ hs = (hs = [])"

definition reads_ok :: "crypto \<Rightarrow> noise_session \<Rightarrow> bytes list \<Rightarrow> bytes list \<Rightarrow> bool" where
  "reads_ok C s frames out \<longleftrightarrow>
    (\<exists>hs. handed (stage s) hs \<and>
      (case noiseSocket s of
         None \<Rightarrow> frames = hs @ drop (handshakeInboxHead s) (handshakeInbox s) \<and> out = [] \<and>
           pendingDecryptedFrames s = [] \<and> stage s \<noteq> Established
       | Some sk \<Rightarrow> stage s = Established \<and> handshakeInbox s = [] \<and> handshakeInboxHead s = 0 \<and>
           (\<exists>post. frames = hs @ post \<and>
             opens C (decryptKey sk) 0 post = Some (out @ pendingDecryptedFrames s) \<and>
             readCounter sk = length post \<and> scratch_ok (readNonceScratch sk))))"

definition waiter_ok :: "noise_session \<Rightarrow> bool" where
  "waiter_ok s \<longleftrightarrow>
    (handshakeInbox s = [] \<and> handshakeInboxHead s = 0 \<or> handshakeInboxHead s < length (handshakeInbox s)) \<and>
    handshakeWaiter s = (\<exists>a h. stage s = WaitingFrame a h) \<and>
    (handshakeWaiter s \<longrightarrow> handshakeInbox s = [])"

definition session_ok :: "crypto \<Rightarrow> noise_session \<Rightarrow> bytes \<Rightarrow> bytes list \<Rightarrow> bool" where
  "session_ok C s rcv out \<longleftrightarrow> waiter_ok s \<and>
    (\<exists>codec frames. frameCodec s = Some codec \<and> codec_ok codec \<and> maxFrameLength codec = WA_MAX_FRAME_LENGTH \<and>
      split_frames WA_MAX_FRAME_LENGTH rcv = Inr (frames, pending codec) \<and> reads_ok C s frames out)"

definition failed :: "noise_session \<Rightarrow> bool" where
  "failed s \<longleftrightarrow> (\<exists>e. stage s = Failed e)"

definition idle :: "noise_session \<Rightarrow> bool" where
  "idle s \<longleftrightarrow> stage s = Idle \<and> frameCodec s = None \<and> noiseSocket s = None \<and> \<not> handshakeWaiter s"

definition run_ok :: "crypto \<Rightarrow> run \<Rightarrow> bool" where
  "run_ok C r \<longleftrightarrow>
    failed (conn r) \<or> idle (conn r) \<and> received r = [] \<and> emitted r = [] \<or>
    session_ok C (conn r) (received r) (emitted r)"

lemma failed_fail [simp]: "failed (fail e s)"
  by (simp add: failed_def fail_def)

lemma session_ok_update [simp]:
  "session_ok C (s\<lparr>trustedRootCa := x\<rparr>) = session_ok C s"
  "session_ok C (s\<lparr>serverStaticKey := y\<rparr>) = session_ok C s"
  "session_ok C (s\<lparr>closedError := b\<rparr>) = session_ok C s"
  by (intro ext; auto simp: session_ok_def waiter_ok_def reads_ok_def split: option.splits)+

lemma encodeFrame_codec:
  assumes "encodeFrame frame codec = Inr (wire, codec')"
  shows "pending codec' = pending codec" "codec_ok codec' = codec_ok codec" "maxFrameLength codec' = maxFrameLength codec"
  using assms by (auto simp: encodeFrame_eq pending_def codec_ok_def buffer_bytes_def
      split: if_splits cong: buffer.case_cong)

text \<open>A message of the handshake is sent: only the codec and the stage change.\<close>

lemma send_and_ok:
  assumes "session_ok C s rcv out" "noiseSocket s = None" "\<not> handshakeWaiter s"
    and "\<And>hs. handed (stage s) hs \<Longrightarrow> handed next hs"
    and "next \<noteq> Established" "\<And>a h. next \<noteq> WaitingFrame a h"
  shows "failed (snd (send_and frame next s)) \<or> session_ok C (snd (send_and frame next s)) rcv out"
proof -
  obtain codec where codec: "frameCodec s = Some codec" using assms(1) by (auto simp: session_ok_def)
  show ?thesis
  proof (cases "encodeFrame frame codec")
    case (Inl e)
    then show ?thesis by (simp add: send_and_def sendHandshakeFrame_def codec)
  next
    case (Inr p)
    obtain wire codec' where p: "p = (wire, codec')" by (cases p)
    note c = encodeFrame_codec [OF Inr [unfolded p]]
    have "session_ok C (s\<lparr>frameCodec := Some codec', stage := next\<rparr>) rcv out"
      using assms codec c by (fastforce simp: session_ok_def waiter_ok_def reads_ok_def)
    then show ?thesis by (simp add: send_and_def sendHandshakeFrame_def codec Inr p)
  qed
qed

lemma session_ok_stage:
  assumes "session_ok C s rcv out"
  shows "handshakeWaiter s = (\<exists>a h. stage s = WaitingFrame a h)" "stage s \<noteq> Established \<Longrightarrow> noiseSocket s = None"
    "stage s \<noteq> Idle" "frameCodec s \<noteq> None"
  using assms by (auto simp: session_ok_def waiter_ok_def reads_ok_def split: option.splits)

lemma prepared_ok:
  assumes "session_ok C s rcv out" "stage s = Preparing config"
  shows "failed (snd (prepared E config ephemeral s)) \<or> session_ok C (snd (prepared E config ephemeral s)) rcv out"
proof -
  have "noiseSocket s = None" "\<not> handshakeWaiter s" using session_ok_stage(1,2) [OF assms(1)] assms(2) by auto
  then have send: "failed (snd (send_and frame (SendingHello a h) (s\<lparr>trustedRootCa := x\<rparr>))) \<or>
      session_ok C (snd (send_and frame (SendingHello a h) (s\<lparr>trustedRootCa := x\<rparr>))) rcv out" for frame a h x
    using assms by (intro send_and_ok) simp_all
  show ?thesis
    using send by (simp add: prepared_def Let_def split: sum.split option.split prod.split)
qed

lemma waitHandshakeFrame_ok:
  assumes "session_ok C s rcv out" "stage s = SendingHello a h"
  shows "failed (waitHandshakeFrame a h s) \<or> session_ok C (waitHandshakeFrame a h s) rcv out"
proof -
  have "noiseSocket s = None" "\<not> handshakeWaiter s" using session_ok_stage(1,2) [OF assms(1)] assms(2) by auto
  moreover have "drop n xs = xs ! n # drop (n + 1) xs" if "n < length xs" for n and xs :: "bytes list"
    using that by (simp add: Cons_nth_drop_Suc)
  ultimately show ?thesis
    using assms by (auto simp: waitHandshakeFrame_def Let_def session_ok_def waiter_ok_def reads_ok_def)
qed

lemma session_established_ok:
  assumes "session_ok C s rcv out" "noiseSocket s = None" "\<not> handshakeWaiter s" "\<And>hs. handed (stage s) hs \<Longrightarrow> length hs = 1"
    and "readCounter sk = 0" "scratch_ok (readNonceScratch sk)"
  shows "failed (establish C sk s) \<or> session_ok C (establish C sk s) rcv out"
proof -
  let ?rest = "drop (handshakeInboxHead s) (handshakeInbox s)"
  obtain codec frames hs where s: "frameCodec s = Some codec" "codec_ok codec"
    "maxFrameLength codec = WA_MAX_FRAME_LENGTH" "split_frames WA_MAX_FRAME_LENGTH rcv = Inr (frames, pending codec)"
    "handed (stage s) hs" "frames = hs @ ?rest" "out = []" "pendingDecryptedFrames s = []"
    using assms(1,2) by (auto simp: session_ok_def reads_ok_def)
  have one: "length hs = 1" by (rule assms(4) [OF s(5)])
  have head: "handshakeInbox s = [] \<and> handshakeInboxHead s = 0 \<or> handshakeInboxHead s < length (handshakeInbox s)"
    using assms(1) by (simp add: session_ok_def waiter_ok_def)
  show ?thesis
  proof (cases "handshakeInbox s = []")
    case True
    with head have "establish C sk s = s\<lparr>noiseSocket := Some sk, stage := Established\<rparr>"
      by (simp add: establish_def decodeBufferedPostHandshakeFrames_def)
    with s one True head assms(3,5,6) show ?thesis
      by (auto simp: session_ok_def waiter_ok_def reads_ok_def)
  next
    case False
    obtain r sk' where r: "decryptFramesBatch C ?rest sk = (r, sk')" by (cases "decryptFramesBatch C ?rest sk")
    show ?thesis
    proof (cases r)
      case (Inl e)
      with False head r show ?thesis
        by (simp add: establish_def decodeBufferedPostHandshakeFrames_def not_le)
    next
      case (Inr pts)
      note d = decryptFramesBatch_opens [OF r [unfolded Inr] assms(6)]
      have "establish C sk s = s\<lparr>noiseSocket := Some sk', pendingDecryptedFrames := pts, handshakeInbox := [],
          handshakeInboxHead := 0, stage := Established\<rparr>"
        using False head r Inr s(8) by (simp add: establish_def decodeBufferedPostHandshakeFrames_def not_le)
      with s one d assms(3,5) show ?thesis
        by (auto simp: session_ok_def waiter_ok_def reads_ok_def)
    qed
  qed
qed

lemma finish_socket: "readCounter (fst (finish_handshake C h)) = 0" "scratch_ok (readNonceScratch (fst (finish_handshake C h)))"
  by (simp_all add: finish_handshake_def new_socket_def split_beta)

lemma finish_sent_ok:
  assumes "session_ok C s rcv out" "stage s = SendingFinish h"
  shows "failed (finish_sent C h s) \<or> session_ok C (finish_sent C h s) rcv out"
  unfolding finish_sent_def
  using session_ok_stage(1,2) [OF assms(1)] assms by (intro session_established_ok) (simp_all add: finish_socket)

lemma resume_reply_socket:
  "resume_reply C X P h st ep frame = Inr (Some sk) \<Longrightarrow> readCounter sk = 0 \<and> scratch_ok (readNonceScratch sk)"
  by (auto simp: resume_reply_def rbind_eq_Inr_iff Let_def finish_socket split: option.splits if_splits)

lemma continue_ok:
  assumes "session_ok C s rcv out" "stage s = FrameArrived a h (Inr frame)"
  shows "failed (snd (continueFullHandshake E a g frame s)) \<or>
    session_ok C (snd (continueFullHandshake E a g frame s)) rcv out"
proof -
  have "noiseSocket s = None" "\<not> handshakeWaiter s" using session_ok_stage(1,2) [OF assms(1)] assms(2) by auto
  then have send: "failed (snd (send_and out' (SendingFinish g') (s\<lparr>serverStaticKey := x\<rparr>))) \<or>
      session_ok C (snd (send_and out' (SendingFinish g') (s\<lparr>serverStaticKey := x\<rparr>))) rcv out" for out' g' x
    using assms by (intro send_and_ok) auto
  show ?thesis
    using send by (simp add: continueFullHandshake_def Let_def split: sum.split prod.split)
qed

lemma frame_arrived_ok:
  assumes "session_ok (env_crypto E) s rcv out" "stage s = FrameArrived a h result"
  shows "failed (snd (frame_arrived E a h result s)) \<or>
    session_ok (env_crypto E) (snd (frame_arrived E a h result s)) rcv out"
proof (cases result)
  case (Inl e)
  then show ?thesis by (simp add: frame_arrived_def)
next
  case (Inr frame)
  note cont = continue_ok [OF assms(1), of a h frame] assms(2) Inr
  show ?thesis
  proof (cases "at_pinned a")
    case None
    with cont show ?thesis by (simp add: frame_arrived_def)
  next
    case (Some k)
    show ?thesis
    proof (cases "\<exists>sk. resume_reply (env_crypto E) (env_curve E) (env_proto E) h
        (clientStaticKeyPair (at_config a)) (at_ephemeral a) frame = Inr (Some sk)")
      case True
      then obtain sk where sk: "resume_reply (env_crypto E) (env_curve E) (env_proto E) h
          (clientStaticKeyPair (at_config a)) (at_ephemeral a) frame = Inr (Some sk)" by blast
      have "failed (establish (env_crypto E) sk (s\<lparr>serverStaticKey := Some k\<rparr>)) \<or>
          session_ok (env_crypto E) (establish (env_crypto E) sk (s\<lparr>serverStaticKey := Some k\<rparr>)) rcv out"
        using session_ok_stage(1,2) [OF assms(1)] assms Inr resume_reply_socket [OF sk]
        by (intro session_established_ok) auto
      with Some Inr sk show ?thesis by (simp add: frame_arrived_def)
    next
      case False
      with Some cont show ?thesis by (auto simp: frame_arrived_def split: sum.split option.split)
    qed
  qed
qed

lemma fold_deliver_inbox:
  "\<not> handshakeWaiter s \<Longrightarrow>
    fold deliver_frame frames s = s\<lparr>handshakeInbox := handshakeInbox s @ frames\<rparr>"
  by (induction frames arbitrary: s) (simp_all add: deliver_frame_def)

lemma push_frames_ok:
  assumes "session_ok C s rcv out" "push_frames C chunk s = (Inr result, s')"
  shows "failed s' \<or> session_ok C s' (rcv @ chunk) (out @ result)"
proof -
  obtain codec frames where s: "waiter_ok s" "frameCodec s = Some codec" "codec_ok codec"
    "maxFrameLength codec = WA_MAX_FRAME_LENGTH" "split_frames WA_MAX_FRAME_LENGTH rcv = Inr (frames, pending codec)"
    "reads_ok C s frames out"
    using assms(1) by (auto simp: session_ok_def)
  obtain pushed codec' where p: "pushWireChunk chunk codec = (pushed, codec')" by (cases "pushWireChunk chunk codec")
  obtain new where new: "pushed = Inr new"
    using assms(2) s(2) p by (cases pushed) (simp_all add: push_frames_def Let_def)
  have c: "split_frames WA_MAX_FRAME_LENGTH (pending codec @ chunk) = Inr (new, pending codec')" "codec_ok codec'"
    "maxFrameLength codec' = WA_MAX_FRAME_LENGTH"
    using frames.push_frames [OF s(3) p [unfolded new]] s(4) by simp_all
  have split: "split_frames WA_MAX_FRAME_LENGTH (rcv @ chunk) = Inr (frames @ new, pending codec')"
    unfolding split_frames_append [of _ rcv chunk] s(5) by (simp add: c(1))
  let ?s1 = "s\<lparr>pendingDecryptedFrames := [], frameCodec := Some codec'\<rparr>"
  have "failed s' \<or> (frameCodec s' = Some codec' \<and> waiter_ok s' \<and> reads_ok C s' (frames @ new) (out @ result))"
  proof (cases "noiseSocket s")
    case None
    with assms(2) s(2) p new have r: "result = pendingDecryptedFrames s" "s' = fold deliver_frame new ?s1"
      by (simp_all add: push_frames_def Let_def)
    from s(6) None obtain hs where hs: "handed (stage s) hs" "frames = hs @ drop (handshakeInboxHead s) (handshakeInbox s)"
      "out = []" "pendingDecryptedFrames s = []" "stage s \<noteq> Established"
      by (auto simp: reads_ok_def)
    show ?thesis
    proof (cases "handshakeWaiter s \<and> new \<noteq> []")
      case False
      then have "s' = ?s1\<lparr>handshakeInbox := handshakeInbox s @ new\<rparr>"
        using r(2) by (cases "new = []") (simp_all add: fold_deliver_inbox)
      with s(1) hs None r(1) False show ?thesis
        by (auto simp: waiter_ok_def reads_ok_def)
    next
      case True
      then obtain f fs where f: "new = f # fs" by (cases new) auto
      from True s(1) obtain a h where w: "stage s = WaitingFrame a h" "handshakeInbox s = []" "handshakeInboxHead s = 0"
        by (auto simp: waiter_ok_def)
      have "s' = ?s1\<lparr>handshakeWaiter := False, stage := FrameArrived a h (Inr f), handshakeInbox := fs\<rparr>"
        using True w unfolding r(2) f by (simp add: deliver_frame_def fold_deliver_inbox)
      with s(1) hs None r(1) w f show ?thesis
        by (auto simp: waiter_ok_def reads_ok_def)
    qed
  next
    case (Some sk)
    from s(6) Some obtain hs post where hs: "handed (stage s) hs" "stage s = Established" "handshakeInbox s = []"
      "handshakeInboxHead s = 0" "frames = hs @ post" "opens C (decryptKey sk) 0 post = Some (out @ pendingDecryptedFrames s)"
      "readCounter sk = length post" "scratch_ok (readNonceScratch sk)"
      by (auto simp: reads_ok_def)
    obtain q sk' where q: "decryptFramesBatch C new sk = (q, sk')" by (cases "decryptFramesBatch C new sk")
    then obtain pts where pts: "q = Inr pts"
      using assms(2) s(2) p new Some by (cases q) (simp_all add: push_frames_def Let_def)
    then have r: "result = pendingDecryptedFrames s @ pts" "s' = ?s1\<lparr>noiseSocket := Some sk'\<rparr>"
      using assms(2) s(2) p new Some q by (simp_all add: push_frames_def Let_def)
    note d = decryptFramesBatch_opens [OF q [unfolded pts] hs(8)]
    have "opens C (decryptKey sk') 0 (post @ new) = Some ((out @ result) @ [])"
      using d hs(6,7) by (simp add: opens_append r(1))
    with d hs s(1) r show ?thesis
      by (auto simp: waiter_ok_def reads_ok_def)
  qed
  with c split show ?thesis by (auto simp: session_ok_def)
qed

lemma socket_encrypt_reads:
  "socket_encrypt C frame sk = (x, sk') \<Longrightarrow> decryptKey sk' = decryptKey sk \<and> readCounter sk' = readCounter sk \<and>
    readNonceScratch sk' = readNonceScratch sk"
  by (auto simp: socket_encrypt_def Let_def split: sum.splits)

lemma session_ok_write:
  assumes "session_ok C s rcv out" "noiseSocket s = Some sk" "decryptKey sk' = decryptKey sk"
    "readCounter sk' = readCounter sk" "readNonceScratch sk' = readNonceScratch sk" "frameCodec s = Some codec"
    "pending codec' = pending codec" "codec_ok codec' = codec_ok codec" "maxFrameLength codec' = maxFrameLength codec"
  shows "session_ok C (s\<lparr>noiseSocket := Some sk', frameCodec := Some codec'\<rparr>) rcv out"
  using assms by (auto simp: session_ok_def waiter_ok_def reads_ok_def)

lemma encryptFrame_ok:
  assumes "session_ok C s rcv out"
  shows "session_ok C (snd (encryptFrame C frame s)) rcv out"
proof (cases "noiseSocket s")
  case None
  with assms show ?thesis by (simp add: encryptFrame_def)
next
  case (Some sk)
  obtain codec where codec: "frameCodec s = Some codec" using assms by (auto simp: session_ok_def)
  obtain x sk' where e: "socket_encrypt C frame sk = (x, sk')" by (cases "socket_encrypt C frame sk")
  note w = session_ok_write [OF assms Some _ _ _ codec]
  have same: "s\<lparr>noiseSocket := Some sk', frameCodec := Some codec\<rparr> = s\<lparr>noiseSocket := Some sk'\<rparr>"
    using codec by simp
  have kept: "session_ok C (s\<lparr>noiseSocket := Some sk'\<rparr>) rcv out"
    using w [of sk' codec] socket_encrypt_reads [OF e] by (simp add: same)
  show ?thesis
  proof (cases x)
    case (Inl err)
    with kept e codec Some show ?thesis by (simp add: encryptFrame_def)
  next
    case (Inr ct)
    show ?thesis
    proof (cases "encodeFrame ct codec")
      case (Inl err)
      with kept e codec Some \<open>x = Inr ct\<close> show ?thesis by (simp add: encryptFrame_def)
    next
      case (Inr p)
      obtain wire codec' where p: "p = (wire, codec')" by (cases p)
      have "session_ok C (s\<lparr>noiseSocket := Some sk', frameCodec := Some codec'\<rparr>) rcv out"
        using w [of sk' codec'] socket_encrypt_reads [OF e] encodeFrame_codec [OF Inr [unfolded p]] by simp
      with e codec Some \<open>x = Inr ct\<close> Inr p show ?thesis by (simp add: encryptFrame_def)
    qed
  qed
qed

lemma settle_ok:
  assumes "session_ok C s rcv out" "stage s = WaitingFrame a h"
  shows "session_ok C (s\<lparr>handshakeWaiter := False, stage := FrameArrived a h (Inl e)\<rparr>) rcv out"
  using assms by (auto simp: session_ok_def waiter_ok_def reads_ok_def split: option.splits)

lemma session_closed_ok:
  assumes "session_ok C s rcv out"
  shows "session_ok C (session_closed s) rcv out"
proof (cases "handshakeWaiter s")
  case True
  then obtain a h where w: "stage s = WaitingFrame a h" using session_ok_stage(1) [OF assms] by auto
  show ?thesis
    using settle_ok [of C "s\<lparr>closedError := True\<rparr>" rcv out a h SessionClosed] assms w True
    by (simp add: session_closed_def Let_def)
qed (use assms in \<open>simp add: session_closed_def Let_def\<close>)

text \<open>\<open>start\<close>, from which the session is no longer idle.\<close>

lemma start_session_ok: "failed (start_session config s) \<or> session_ok C (start_session config s) [] []"
proof (cases "new_codec (Some (intro_frame config)) (int WA_MAX_FRAME_LENGTH)")
  case (Inr codec)
  note c = new_codec_ok [OF Inr]
  with Inr show ?thesis
    by (auto simp: start_session_def reset_def session_ok_def waiter_ok_def reads_ok_def)
qed (simp add: start_session_def)

text \<open>A failed attempt stays failed.\<close>

lemma failed_keeps [simp]:
  "failed (snd (encryptFrame C frame s)) = failed s" "failed (session_closed s) = failed s"
  by (auto simp: failed_def encryptFrame_def session_closed_def Let_def
      split: option.splits sum.splits prod.splits stage.splits)

lemma failed_push: "push_frames C chunk s = (x, s') \<Longrightarrow> failed s \<Longrightarrow> failed s'"
proof -
  have deliver: "failed s \<Longrightarrow> failed (fold deliver_frame frames s)" for frames s
    by (induction frames arbitrary: s) (auto simp: failed_def deliver_frame_def)
  assume "push_frames C chunk s = (x, s')" "failed s"
  then show ?thesis
    using deliver by (auto simp: failed_def push_frames_def Let_def split: option.splits sum.splits prod.splits)
qed

lemma idle_keeps:
  "idle s \<Longrightarrow> snd (encryptFrame C frame s) = s" "idle s \<Longrightarrow> idle (session_closed s)"
  by (simp_all add: idle_def encryptFrame_def session_closed_def Let_def)

lemma run_step_ok:
  assumes "run_step E r r'" "run_ok (env_crypto E) r"
  shows "run_ok (env_crypto E) r'"
proof -
  let ?C = "env_crypto E" and ?s = "conn r"
  have started: "session_ok ?C ?s (received r) (emitted r)" if "\<not> failed ?s" "stage ?s \<noteq> Idle"
    using assms(2) that by (auto simp: run_ok_def idle_def)
  have live: "session_ok ?C ?s (received r) (emitted r)" if "stage ?s = st" "st \<noteq> Idle" "\<And>e. st \<noteq> Failed e" for st
    using that by (intro started) (auto simp: failed_def)
  show ?thesis
    using assms(1)
  proof cases
    case (start config)
    then have "received r = []" "emitted r = []"
      using assms(2) session_ok_stage(3) by (auto simp: run_ok_def failed_def)
    with start start_session_ok [of config ?s ?C] show ?thesis by (auto simp: run_ok_def)
  next
    case (prepared config ephemeral)
    from prepared_ok [OF live [OF prepared(2)], of config E ephemeral] prepared show ?thesis by (auto simp: run_ok_def)
  next
    case (hello_sent a h)
    from waitHandshakeFrame_ok [OF live [OF hello_sent(2)] hello_sent(2)] hello_sent show ?thesis
      by (auto simp: run_ok_def)
  next
    case (arrived a h result)
    from frame_arrived_ok [OF live [OF arrived(2)] arrived(2)] arrived show ?thesis by (auto simp: run_ok_def)
  next
    case (finish_sent h)
    from finish_sent_ok [OF live [OF finish_sent(2)] finish_sent(2)] finish_sent show ?thesis by (auto simp: run_ok_def)
  next
    case (push chunk out s)
    show ?thesis
    proof (cases "failed ?s")
      case True
      with push failed_push show ?thesis by (auto simp: run_ok_def)
    next
      case False
      with push(2) assms(2) have "session_ok ?C ?s (received r) (emitted r)"
        by (auto simp: run_ok_def idle_def)
      from push_frames_ok [OF this push(3)] push(1) show ?thesis by (auto simp: run_ok_def)
    qed
  next
    case (encrypt frame)
    with encryptFrame_ok [of ?C ?s "received r" "emitted r" frame] idle_keeps(1) [of ?s ?C frame] assms(2)
    show ?thesis by (auto simp: run_ok_def)
  next
    case closed
    with session_closed_ok [of ?C ?s "received r" "emitted r"] idle_keeps(2) [of ?s] assms(2)
    show ?thesis by (auto simp: run_ok_def)
  next
    case (timeout a h)
    from settle_ok [OF live [OF timeout(2)] timeout(2)] timeout show ?thesis
      by (auto simp: run_ok_def frame_timeout_def)
  qed (auto simp: run_ok_def)
qed

lemma run_reach_ok: "run_reach E r \<Longrightarrow> run_ok (env_crypto E) r"
proof (induction rule: run_reach.induct)
  case init
  show ?case by (simp add: run_ok_def idle_def new_run_def new_session_def)
next
  case (step r r')
  then show ?case using run_step_ok by blast
qed

text \<open>What a session that is established has read and returned.\<close>

lemma established_reads:
  assumes "run_reach E r" "noiseSocket (conn r) = Some sk" "\<not> failed (conn r)"
  obtains hello post rest where "split_frames WA_MAX_FRAME_LENGTH (received r) = Inr (hello # post, rest)"
    "opens (env_crypto E) (decryptKey sk) 0 post = Some (emitted r @ pendingDecryptedFrames (conn r))"
proof -
  from run_reach_ok [OF assms(1)] assms(2,3)
  have "session_ok (env_crypto E) (conn r) (received r) (emitted r)" by (auto simp: run_ok_def idle_def)
  with assms(2) obtain rest hs post where *:
    "split_frames WA_MAX_FRAME_LENGTH (received r) = Inr (hs @ post, rest)" "length hs = 1"
    "opens (env_crypto E) (decryptKey sk) 0 post = Some (emitted r @ pendingDecryptedFrames (conn r))"
    by (auto simp: session_ok_def reads_ok_def)
  then obtain hello where "hs = [hello]" by (auto simp: length_Suc_conv)
  with * that show thesis by simp
qed

lemma transport_encrypt_opens:
  assumes "crypto_laws C" "length (sendKey t) = 32" "each (transport_encrypt C) pts t = (Inr cts, t')"
  shows "opens C (sendKey t) (sendCounter t) cts = Some pts"
  using assms(2,3)
proof (induction pts arbitrary: t cts)
  case (Cons pt pts)
  from Cons.prems(2) obtain b t1 cs where 1: "transport_encrypt C pt t = (Inr b, t1)"
      "each (transport_encrypt C) pts t1 = (Inr cs, t')" "cts = b # cs" by (rule each_Cons_InrE)
  have t1: "t1 = t\<lparr>sendCounter := sendCounter t + 1\<rparr>" and
    b: "aesGcmEncrypt C (sendKey t) (counter_nonce (sendCounter t)) pt [] = Some b"
    using 1(1) by (auto simp: transport_encrypt_def buildAesGcmNonce_def nonce_iv_eq split: option.splits if_splits)
  obtain ct where "aesGcmEncrypt C (sendKey t) (counter_nonce (sendCounter t)) pt [] = Some ct"
      "aesGcmDecrypt C (sendKey t) (counter_nonce (sendCounter t)) ct [] = Some pt"
    by (rule aesGcm_roundtrip [OF assms(1) Cons.prems(1), of "counter_nonce (sendCounter t)"]) simp_all
  with b Cons.IH [OF _ 1(2)] Cons.prems(1) show ?case by (simp add: t1 1(3))
qed simp

end
