(* ===== verification/NoiseProperties.thy ===== *)
theory NoiseProperties
  imports NoiseConnection SampleFields
begin

text \<open>
  The whole connection set-up: the session object of the client and the frame socket and handshake of
  the test server exchange bytes, from \<open>start\<close> to an established channel.
\<close>

subsection \<open>The frame socket of the server\<close>

lemma drainFrames_split:
  "split_frames WA_MAX_FRAME_LENGTH bs = Inr (frames, rest) \<Longrightarrow> drainFrames bs = (frames, None, rest)"
proof (induction bs arbitrary: frames rule: drainFrames.induct)
  case (1 bs)
  have limit: "WA_MAX_FRAME_LENGTH < n \<longleftrightarrow> push_bit 24 1 \<le> n" for n
    by (auto simp: WA_MAX_FRAME_LENGTH_def push_bit_eq_mult)
  consider "length bs < 3" | "3 \<le> length bs" "length bs < 3 + frameLength bs"
    | "3 \<le> length bs" "3 + frameLength bs \<le> length bs"
    by linarith
  then show ?case
  proof cases
    case 1
    with "1.prems" show ?thesis by (simp add: drainFrames.simps)
  next
    case 2
    with "1.prems" show ?thesis
      by (auto simp: drainFrames.simps [of bs] split_frames.simps [of _ bs] limit split: if_splits)
  next
    case 3
    with "1.prems" obtain fs where fs: "\<not> push_bit 24 1 \<le> frameLength bs"
      "split_frames WA_MAX_FRAME_LENGTH (drop (3 + frameLength bs) bs) = Inr (fs, rest)"
      "frames = take (frameLength bs) (drop 3 bs) # fs"
      by (auto simp: split_frames.simps [of _ bs] limit rbind_eq_Inr_iff split: if_splits)
    with 3 have "drainFrames (drop (3 + frameLength bs) bs) = (fs, None, rest)"
      by (intro "1.IH") simp_all
    with fs 3 show ?thesis
      by (simp add: drainFrames.simps [of bs] subarray_def take_drop add.commute)
  qed
qed

lemma concat_two_eq [simp]: "concat_two a b = a @ b"
  by (simp add: concat_two_def u8_set_def)

text \<open>A header of the client and a frame are taken apart again.\<close>

lemma server_reads_hello:
  assumes "length frame \<le> WA_MAX_FRAME_LENGTH"
  shows "handleInboundBytes ([87, 65, v, d] @ frame_wire frame) new_frame_socket =
    ([PrologueEvent v d None, FrameEvent frame], \<lparr>inboundBuffer = [], prologueParsed = True\<rparr>)"
proof -
  have "WA_MAX_FRAME_LENGTH < 2 ^ 24" by (simp add: WA_MAX_FRAME_LENGTH_def push_bit_eq_mult)
  with split_frames_wire [of "[frame]" WA_MAX_FRAME_LENGTH] assms
  have "drainFrames (frame_wire frame) = ([frame], None, [])" by (intro drainFrames_split) simp
  then show ?thesis
    by (simp add: handleInboundBytes_def new_frame_socket_def tryParsePrologue_def parse_version_def
        ROUTING_MAGIC_def VERSION_HEADER_LENGTH_def drain_events_def Let_def)
qed

lemma server_reads_frame:
  assumes "length frame \<le> WA_MAX_FRAME_LENGTH"
  shows "handleInboundBytes (frame_wire frame) \<lparr>inboundBuffer = [], prologueParsed = True\<rparr> =
    ([FrameEvent frame], \<lparr>inboundBuffer = [], prologueParsed = True\<rparr>)"
proof -
  have "WA_MAX_FRAME_LENGTH < 2 ^ 24" by (simp add: WA_MAX_FRAME_LENGTH_def push_bit_eq_mult)
  with split_frames_wire [of "[frame]" WA_MAX_FRAME_LENGTH] assms
  have "drainFrames (frame_wire frame) = ([frame], None, [])" by (intro drainFrames_split) simp
  then show ?thesis by (simp add: handleInboundBytes_def drain_events_def)
qed

text \<open>
  The test server does not read the routing information of the client: it looks for the magic
  byte \<open>0xED\<close>, where the client writes the letters \<open>E\<close> and \<open>D\<close>, a zero and a one, and rejects every
  connection that carries routing information.
\<close>

theorem routing_info_rejected:
  assumes "routingInfo config = Some info" "info \<noteq> []"
  shows "handleInboundBytes (intro_frame config @ rest) new_frame_socket =
    ([FrameSocketError], \<lparr>inboundBuffer = intro_frame config @ rest, prologueParsed = False\<rparr>)"
proof -
  define n where "n = length info"
  let ?p = "buildRoutingInfoPrefix info"
  have "?p = [0x45, 0x44, 0, 1, to_u8 (drop_bit 16 n AND 0xff), to_u8 (drop_bit 8 n AND 0xff), to_u8 (n AND 0xff)] @ info"
  proof -
    have "replicate (7 + n) (0 :: byte) = [0, 0, 0, 0, 0, 0, 0] @ replicate n 0"
      by (simp add: numeral_eq_Suc)
    then show ?thesis
      by (simp add: buildRoutingInfoPrefix_def u8_set_def Let_def n_def [symmetric])
  qed
  then obtain tail where intro: "intro_frame config = 0x45 # 0x44 # tail" "2 \<le> length tail"
    using assms by (simp add: intro_frame_def concatBytes_eq)
  then have "tryParsePrologue (intro_frame config @ rest) = PrologueBadMagic 0x45 0x44"
    by (simp add: tryParsePrologue_def ROUTING_MAGIC_def VERSION_HEADER_LENGTH_def parse_version_def Let_def)
  then show ?thesis
    by (simp add: handleInboundBytes_def new_frame_socket_def Let_def)
qed

subsection \<open>A complete run\<close>

text \<open>Reading does not touch the intro bytes of the codec.\<close>

lemma appendBuffered_intro [simp]:
  "introSent (appendBuffered chunk st) = introSent st" "introFrame (appendBuffered chunk st) = introFrame st"
  by (simp_all add: appendBuffered_def Let_def split: buffer.split)

lemma scan_rest_intro [simp]:
  "introSent (snd (scan_rest fs chunk st)) = introSent st" "introFrame (snd (scan_rest fs chunk st)) = introFrame st"
  by (simp_all add: scan_rest_def keep_rest_def split: sum.split prod.split)

lemma clear_buffer_intro [simp]:
  "introSent (clear_buffer st) = introSent st" "introFrame (clear_buffer st) = introFrame st"
  by (simp_all add: clear_buffer_def)

lemma pushWireChunk_intro [simp]:
  "introSent (snd (pushWireChunk chunk st)) = introSent st" "introFrame (snd (pushWireChunk chunk st)) = introFrame st"
  by (simp_all add: pushWireChunk_def Let_def split: sum.split)
text \<open>
  The client side of a full handshake, given the messages: what it writes to the socket, and where it
  ends when the server's frame arrives in one chunk.
\<close>

definition full_run :: "environment \<Rightarrow> noise_config \<Rightarrow> key_pair \<Rightarrow> bytes \<Rightarrow> (bytes \<times> bytes) \<times> run" where
  "full_run E config ephemeral serverFrame =
    (let s1 = start_session config new_session;
         (wire1, s2) = prepared E config ephemeral s1;
         s3 = (case stage s2 of SendingHello a h \<Rightarrow> waitHandshakeFrame a h s2 | _ \<Rightarrow> s2);
         (out, s4) = push_frames (env_crypto E) (frame_wire serverFrame) s3;
         (wire2, s5) = (case stage s4 of FrameArrived a h r \<Rightarrow> frame_arrived E a h r s4 | _ \<Rightarrow> ([], s4));
         s6 = (case stage s5 of SendingFinish h \<Rightarrow> finish_sent (env_crypto E) h s5 | _ \<Rightarrow> s5)
     in ((wire1, wire2), \<lparr>conn = s6, received = frame_wire serverFrame, emitted = []\<rparr>))"

lemma full_run_ok:
  fixes E :: environment
  defines "C \<equiv> env_crypto E" and "X \<equiv> env_curve E" and "P \<equiv> env_proto E"
  assumes config: "cfg_serverStaticKey config = None" "resolveHandshakePayload config = Inr payload"
    and hello: "full_hello C P (protocol_header config) eph = (h1, m1)"
    and reply: "full_reply C X P (env_certs E) (env_signatures E) (cfg_trustedRootCa config)
      (verifyCertificateChain config \<noteq> Some False) h1 eph m2 = Inr (h2, serverEph, serverStatic)"
    and fin: "client_finish_frame C X P h2 (clientStaticKeyPair config) payload serverEph = Inr (h3, m3)"
    and small: "length m1 \<le> WA_MAX_FRAME_LENGTH" "length m2 \<le> WA_MAX_FRAME_LENGTH" "length m3 \<le> WA_MAX_FRAME_LENGTH"
  obtains codec where
    "full_run E config eph m2 = ((intro_frame config @ frame_wire m1, frame_wire m3),
      \<lparr>conn = new_session\<lparr>frameCodec := Some codec, noiseSocket := Some (fst (finish_handshake C h3)),
          serverStaticKey := Some serverStatic, trustedRootCa := cfg_trustedRootCa config, stage := Established\<rparr>,
       received = frame_wire m2, emitted = []\<rparr>)"
    "run_reach E (snd (full_run E config eph m2))"
proof -
  let ?C = "env_crypto E" and ?M = WA_MAX_FRAME_LENGTH
  have limit: "0 < int ?M" "int ?M \<le> int MAX_SAFE_INTEGER" "\<not> push_bit 24 1 \<le> int ?M"
    by (simp_all add: WA_MAX_FRAME_LENGTH_def push_bit_eq_mult MAX_SAFE_INTEGER_def)
  then obtain codec where new: "new_codec (Some (intro_frame config)) (int ?M) = Inr codec"
    by (simp add: new_codec_def)
  note c = new_codec_ok [OF new]
  have intro: "intro_prefix codec = intro_frame config" using c(5,6) by (auto simp: intro_prefix_def)
  define a where "a = \<lparr>at_config = config, at_ephemeral = eph, at_payload = payload, at_pinned = None\<rparr>"
  define codec1 where "codec1 = codec\<lparr>introSent := True\<rparr>"
  define sent where "sent = new_session\<lparr>trustedRootCa := cfg_trustedRootCa config, frameCodec := Some codec1\<rparr>"
  have start: "start_session config new_session = new_session\<lparr>frameCodec := Some codec, stage := Preparing config\<rparr>"
    by (simp add: start_session_def new reset_def new_session_def)
  have prepared: "prepared E config eph (start_session config new_session) =
      (intro_frame config @ frame_wire m1, sent\<lparr>stage := SendingHello a h1\<rparr>)"
    using small(1) hello unfolding C_def P_def start
    by (simp add: prepared_def config Let_def send_and_def sendHandshakeFrame_def encodeFrame_eq c(3) intro
        sent_def codec1_def a_def new_session_def)
  have wait: "waitHandshakeFrame a h1 (sent\<lparr>stage := SendingHello a h1\<rparr>) =
      sent\<lparr>handshakeWaiter := True, stage := WaitingFrame a h1\<rparr>"
    by (simp add: waitHandshakeFrame_def sent_def new_session_def)
  have c1: "codec_ok codec1" "pending codec1 = []" "maxFrameLength codec1 = ?M"
    using c encodeFrame_codec [of "[]" codec "intro_prefix codec @ frame_wire []" codec1]
    by (simp_all add: codec1_def encodeFrame_eq)
  have "?M < 2 ^ 24" by (simp add: WA_MAX_FRAME_LENGTH_def push_bit_eq_mult)
  with split_frames_wire [of "[m2]" ?M] small(2) have cut: "split_frames ?M (frame_wire m2) = Inr ([m2], [])" by simp
  obtain r codec2 where r: "pushWireChunk (frame_wire m2) codec1 = (r, codec2)" by (cases "pushWireChunk (frame_wire m2) codec1")
  have "push_meets codec1 (frame_wire m2) (r, codec2)" using pushWireChunk_meets [OF c1(1), of "frame_wire m2"] c1(2) r by simp
  with cut c1(3) have r2: "r = Inr [m2]" "maxFrameLength codec2 = ?M"
    by (auto simp: push_meets_def split: sum.splits)
  have "introSent codec2" using pushWireChunk_intro(1) [of "frame_wire m2" codec1] unfolding r by (simp add: codec1_def)
  then have plain: "intro_prefix codec2 = []" "codec2\<lparr>introSent := True\<rparr> = codec2"
    by (simp_all add: intro_prefix_def split: option.split)
  define got where "got = sent\<lparr>frameCodec := Some codec2\<rparr>"
  have push: "push_frames ?C (frame_wire m2) (sent\<lparr>handshakeWaiter := True, stage := WaitingFrame a h1\<rparr>) =
      (Inr [], got\<lparr>stage := FrameArrived a h1 (Inr m2)\<rparr>)"
    by (simp add: push_frames_def sent_def got_def r r2(1) deliver_frame_def new_session_def)
  have arrived: "frame_arrived E a h1 (Inr m2) (got\<lparr>stage := FrameArrived a h1 (Inr m2)\<rparr>) =
      (frame_wire m3, got\<lparr>serverStaticKey := Some serverStatic, stage := SendingFinish h3\<rparr>)"
    using reply fin small(3) unfolding C_def X_def P_def
    by (simp add: frame_arrived_def continueFullHandshake_def a_def got_def sent_def new_session_def send_and_def
        sendHandshakeFrame_def encodeFrame_eq r2(2) plain)
  have finish: "finish_sent ?C h3 (got\<lparr>serverStaticKey := Some serverStatic, stage := SendingFinish h3\<rparr>) =
      new_session\<lparr>frameCodec := Some codec2, noiseSocket := Some (fst (finish_handshake C h3)),
        serverStaticKey := Some serverStatic, trustedRootCa := cfg_trustedRootCa config, stage := Established\<rparr>"
    by (simp add: finish_sent_def establish_def decodeBufferedPostHandshakeFrames_def got_def sent_def new_session_def C_def)
  have run: "full_run E config eph m2 = ((intro_frame config @ frame_wire m1, frame_wire m3),
      \<lparr>conn = new_session\<lparr>frameCodec := Some codec2, noiseSocket := Some (fst (finish_handshake C h3)),
          serverStaticKey := Some serverStatic, trustedRootCa := cfg_trustedRootCa config, stage := Established\<rparr>,
       received = frame_wire m2, emitted = []\<rparr>)"
    by (simp add: full_run_def prepared wait push arrived finish)
  let ?r = "\<lambda>s. \<lparr>conn = s, received = [], emitted = []\<rparr>"
  have "run_reach E (?r (start_session config new_session))"
    using run_reach.step [OF run_reach.init run_step.start [of new_run E config]] by (simp add: new_run_def new_session_def)
  from run_reach.step [OF this run_step.prepared [of _ config E eph]]
  have "run_reach E (?r (sent\<lparr>stage := SendingHello a h1\<rparr>))"
    using prepared by (simp add: start)
  from run_reach.step [OF this run_step.hello_sent [of _ a h1]]
  have "run_reach E (?r (sent\<lparr>handshakeWaiter := True, stage := WaitingFrame a h1\<rparr>))" using wait by simp
  from run_reach.step [OF this run_step.push [of _ E "frame_wire m2"]] push
  have "run_reach E \<lparr>conn = got\<lparr>stage := FrameArrived a h1 (Inr m2)\<rparr>, received = frame_wire m2, emitted = []\<rparr>"
    by (simp add: sent_def)
  from run_reach.step [OF this run_step.arrived [of _ a h1 "Inr m2"]] arrived
  have "run_reach E \<lparr>conn = got\<lparr>serverStaticKey := Some serverStatic, stage := SendingFinish h3\<rparr>,
      received = frame_wire m2, emitted = []\<rparr>" by simp
  from run_reach.step [OF this run_step.finish_sent [of _ h3]] finish
  have "run_reach E (snd (full_run E config eph m2))" by (simp add: run)
  with run that show thesis by blast
qed

text \<open>
  C6: The connection is established.  The client and the test server take each other's messages of the
  full handshake: the hello of the client, the reply of the server to it and the finish of the client
  are accepted, the client learns the server's static key, the server learns the client's static key and
  payload, and the two ends of the channel are linked.  When these three messages fit in a frame, the
  same happens over the bytes on the wire: the server's frame socket reads the header and the two
  messages from what the session object writes, and the session ends established with the linked
  channel.  (The root key of the certificates must be the configured one, and no routing information is
  sent.)
\<close>

theorem session_establishes:
  fixes E :: environment and srv :: "'p server"
  assumes laws: "crypto_laws (env_crypto E)" "curve_laws (env_curve E)" "noise_proto_laws (env_proto E)"
    and pairs: "generated_pair (env_curve E) (clientStaticKeyPair config)" "generated_pair (env_curve E) eph"
      "generated_pair (env_curve E) (serverStaticKeyPair srv)" "generated_pair (env_curve E) serverEph"
    and config: "cfg_serverStaticKey config = None" "resolveHandshakePayload config = Inr payload"
      "routingInfo config = None" "protocol_header config = [87, 65, v, d]"
    and cert: "verifyCertificateChain config \<noteq> Some False \<Longrightarrow> verifyNoiseCertificateChain (env_certs E)
      (env_signatures E) certChain (pubKey (serverStaticKeyPair srv)) (cfg_trustedRootCa config) = Inr ()"
    and payload: "parse_payload srv payload = Some p"
  shows "\<exists>h1 m1 m2 r h2 h3 m3 t.
    full_hello (env_crypto E) (env_proto E) (protocol_header config) eph = (h1, m1) \<and>
    handleClientHello (env_crypto E) (env_curve E) (env_proto E) srv (protocol_header config) serverEph certChain m1 =
      Inr (m2, AwaitingClientFinish r serverEph, None) \<and>
    full_reply (env_crypto E) (env_curve E) (env_proto E) (env_certs E) (env_signatures E) (cfg_trustedRootCa config)
      (verifyCertificateChain config \<noteq> Some False) h1 eph m2 =
      Inr (h2, pubKey serverEph, pubKey (serverStaticKeyPair srv)) \<and>
    client_finish_frame (env_crypto E) (env_curve E) (env_proto E) h2 (clientStaticKeyPair config) payload
      (pubKey serverEph) = Inr (h3, m3) \<and>
    handleClientFinish (env_crypto E) (env_curve E) (env_proto E) srv m3 r serverEph =
      Inr (Authenticated t, p, pubKey (clientStaticKeyPair config)) \<and>
    linked (fst (finish_handshake (env_crypto E) h3)) t \<and>
    (length m1 \<le> WA_MAX_FRAME_LENGTH \<and> length m2 \<le> WA_MAX_FRAME_LENGTH \<and> length m3 \<le> WA_MAX_FRAME_LENGTH \<longrightarrow>
      (\<exists>wire1 wire2 run s1 s2 sk.
        full_run E config eph m2 = ((wire1, wire2), run) \<and> run_reach E run \<and>
        handleInboundBytes wire1 new_frame_socket = ([PrologueEvent v d None, FrameEvent m1], s1) \<and>
        handleInboundBytes wire2 s1 = ([FrameEvent m3], s2) \<and>
        stage (conn run) = Established \<and> noiseSocket (conn run) = Some sk \<and> linked sk t \<and>
        serverStaticKey (conn run) = Some (pubKey (serverStaticKeyPair srv))))"
proof -
  let ?P = "env_proto E"
  let ?m1 = "encode_handshake ?P (client_hello_message
    \<lparr>ch_ephemeral = Some (pubKey eph), ch_static = None, ch_payload = None\<rparr>)"
  obtain h1 c1 c2 r h2 c3 c4 h3 t where
    m: "full_hello (env_crypto E) ?P (protocol_header config) eph = (h1, ?m1)"
      "handleClientHello (env_crypto E) (env_curve E) ?P srv (protocol_header config) serverEph certChain ?m1 =
        Inr (encode_handshake ?P (server_hello_message \<lparr>sh_ephemeral = Some (pubKey serverEph), sh_static = Some c1,
          sh_payload = Some c2\<rparr>), AwaitingClientFinish r serverEph, None)"
      "full_reply (env_crypto E) (env_curve E) ?P (env_certs E) (env_signatures E) (cfg_trustedRootCa config)
        (verifyCertificateChain config \<noteq> Some False) h1 eph (encode_handshake ?P (server_hello_message
          \<lparr>sh_ephemeral = Some (pubKey serverEph), sh_static = Some c1, sh_payload = Some c2\<rparr>)) =
        Inr (h2, pubKey serverEph, pubKey (serverStaticKeyPair srv))"
      "client_finish_frame (env_crypto E) (env_curve E) ?P h2 (clientStaticKeyPair config) payload (pubKey serverEph) =
        Inr (h3, encode_handshake ?P (client_finish_message \<lparr>cf_static = Some c3, cf_payload = Some c4\<rparr>))"
      "handleClientFinish (env_crypto E) (env_curve E) ?P srv (encode_handshake ?P (client_finish_message
          \<lparr>cf_static = Some c3, cf_payload = Some c4\<rparr>)) r serverEph =
        Inr (Authenticated t, p, pubKey (clientStaticKeyPair config))"
      "linked (fst (finish_handshake (env_crypto E) h3)) t"
    by (rule full_handshake_messages [where header = "protocol_header config", OF laws pairs cert payload]) blast+
  let ?m2 = "encode_handshake ?P (server_hello_message
    \<lparr>sh_ephemeral = Some (pubKey serverEph), sh_static = Some c1, sh_payload = Some c2\<rparr>)"
  let ?m3 = "encode_handshake ?P (client_finish_message \<lparr>cf_static = Some c3, cf_payload = Some c4\<rparr>)"
  have intro: "intro_frame config = [87, 65, v, d]" using config(3,4) by (simp add: intro_frame_def)
  have "\<exists>wire1 wire2 run s1 s2 sk.
      full_run E config eph ?m2 = ((wire1, wire2), run) \<and> run_reach E run \<and>
      handleInboundBytes wire1 new_frame_socket = ([PrologueEvent v d None, FrameEvent ?m1], s1) \<and>
      handleInboundBytes wire2 s1 = ([FrameEvent ?m3], s2) \<and>
      stage (conn run) = Established \<and> noiseSocket (conn run) = Some sk \<and> linked sk t \<and>
      serverStaticKey (conn run) = Some (pubKey (serverStaticKeyPair srv))"
    if small: "length ?m1 \<le> WA_MAX_FRAME_LENGTH" "length ?m2 \<le> WA_MAX_FRAME_LENGTH" "length ?m3 \<le> WA_MAX_FRAME_LENGTH"
  proof -
    obtain codec where run: "full_run E config eph ?m2 = ((intro_frame config @ frame_wire ?m1, frame_wire ?m3),
        \<lparr>conn = new_session\<lparr>frameCodec := Some codec,
            noiseSocket := Some (fst (finish_handshake (env_crypto E) h3)),
            serverStaticKey := Some (pubKey (serverStaticKeyPair srv)),
            trustedRootCa := cfg_trustedRootCa config, stage := Established\<rparr>,
         received = frame_wire ?m2, emitted = []\<rparr>)"
      "run_reach E (snd (full_run E config eph ?m2))"
      by (rule full_run_ok [OF config(1,2) m(1,3,4) small])
    then show ?thesis
      using server_reads_hello [OF small(1), of v d] server_reads_frame [OF small(3)] m(6)
      unfolding intro by fastforce
  qed
  with m show ?thesis by blast
qed

text \<open>
  C7: Nothing the server sends is lost, doubled or reordered around the end of the handshake.  However
  the network cuts the stream, whether a frame arrives before the handshake is over, while its end is
  being worked out, or later, and whatever is sent meanwhile: as long as the attempt has not failed,
  the frames that were returned and those that are held back are exactly the first stanzas of the
  server, in order, and all of them once the whole stream has arrived.
\<close>

theorem session_delivers:
  assumes "crypto_laws (env_crypto E)" "run_reach E r" "noiseSocket (conn r) = Some sk" "\<not> failed (conn r)"
    and sent: "each (transport_encrypt (env_crypto E)) stanzas t = (Inr cts, t')" "sendKey t = decryptKey sk"
      "sendCounter t = 0" "length (sendKey t) = 32"
    and stream: "\<forall>frame \<in> set (hello # cts). length frame \<le> WA_MAX_FRAME_LENGTH"
      "concat (map frame_wire (hello # cts)) = received r @ rest"
  shows "\<exists>later. stanzas = emitted r @ pendingDecryptedFrames (conn r) @ later \<and> (rest = [] \<longrightarrow> later = [])"
proof -
  let ?C = "env_crypto E" and ?M = WA_MAX_FRAME_LENGTH
  obtain hello' post unread where read: "split_frames ?M (received r) = Inr (hello' # post, unread)"
    "opens ?C (decryptKey sk) 0 post = Some (emitted r @ pendingDecryptedFrames (conn r))"
    by (rule established_reads [OF assms(2-4)])
  have "?M < 2 ^ 24" by (simp add: WA_MAX_FRAME_LENGTH_def push_bit_eq_mult)
  from split_frames_wire [OF stream(1) this]
  have "split_frames ?M (received r @ rest) = Inr (hello # cts, [])" unfolding stream(2) .
  then obtain more where more: "hello # cts = (hello' # post) @ more" "split_frames ?M (unread @ rest) = Inr (more, [])"
    unfolding split_frames_append [of _ "received r"] read(1) by (auto simp: rbind_eq_Inr_iff)
  have "opens ?C (decryptKey sk) 0 cts = Some stanzas"
    using transport_encrypt_opens [OF assms(1) sent(4,1)] sent(2,3) by simp
  with more(1) read(2) obtain later where later: "opens ?C (decryptKey sk) (length post) more = Some later"
    "stanzas = (emitted r @ pendingDecryptedFrames (conn r)) @ later"
    by (auto simp: opens_append split: option.splits)
  have "later = []" if "rest = []"
  proof -
    have "more = []" using more(2) that split_frames_rest [OF read(1)] by simp
    with later(1) show ?thesis by simp
  qed
  with later(2) show ?thesis by auto
qed

subsection \<open>Witnesses\<close>

theorem routing_info_rejected_witness:
  "fst (handleInboundBytes (intro_frame \<lparr>clientStaticKeyPair = sample_pair 1, isRegistered = True,
      loginPayload = None, registrationPayload = None, loginPayloadConfig = None, registrationPayloadConfig = None,
      cfg_serverStaticKey = None, routingInfo = Some [8, 13, 8, 2], protocolHeader = None,
      verifyCertificateChain = None, cfg_trustedRootCa = None\<rparr>) new_frame_socket) = [FrameSocketError]"
  using routing_info_rejected [where rest = "[]", of "\<lparr>clientStaticKeyPair = sample_pair 1, isRegistered = True,
      loginPayload = None, registrationPayload = None, loginPayloadConfig = None, registrationPayloadConfig = None,
      cfg_serverStaticKey = None, routingInfo = Some [8, 13, 8, 2], protocolHeader = None,
      verifyCertificateChain = None, cfg_trustedRootCa = None\<rparr>" "[8, 13, 8, 2]"] by simp

text \<open>Stand-ins for the certificates: a signature is the beginning of key and message.\<close>

definition sample_signatures :: signatures where
  "sample_signatures = \<lparr>
     xeddsaVerify = (\<lambda>k m s. Some (s = take 64 (k @ m @ replicate 64 0))),
     xeddsaSign = (\<lambda>k m. Some (take 64 (k @ m @ replicate 64 0)))\<rparr>"

lemma sample_signature_laws: "signature_laws sample_curve sample_signatures"
  by (simp add: signature_laws_def sample_signatures_def sample_curve_def min_def)

definition proto_field :: "proto_bytes \<Rightarrow> bytes option" where
  "proto_field v = (case v of ProtoBytes b \<Rightarrow> Some b | _ \<Rightarrow> None)"

definition field_proto :: "bytes option \<Rightarrow> proto_bytes" where
  "field_proto v = (case v of Some b \<Rightarrow> ProtoBytes b | None \<Rightarrow> ProtoMissing)"

definition sample_certs :: cert_proto where
  "sample_certs = \<lparr>
     decode_chain = (\<lambda>b. let v = dec_fields 4 b in Some
       \<lparr>rh_leaf = Some \<lparr>rc_details = field_proto (v ! 0), rc_signature = field_proto (v ! 1)\<rparr>,
        rh_intermediate = Some \<lparr>rc_details = field_proto (v ! 2), rc_signature = field_proto (v ! 3)\<rparr>\<rparr>),
     encode_chain = (\<lambda>c. case (rh_leaf c, rh_intermediate c) of
         (Some l, Some i) \<Rightarrow> enc_fields [proto_field (rc_details l), proto_field (rc_signature l),
           proto_field (rc_details i), proto_field (rc_signature i)]
       | _ \<Rightarrow> []),
     decode_details = (\<lambda>b. let v = dec_fields 3 b in Some \<lparr>rd_serial = map_option length (v ! 0),
       rd_issuerSerial = map_option length (v ! 1), rd_key = field_proto (v ! 2)\<rparr>),
     encode_details = (\<lambda>d x y. enc_fields [map_option (\<lambda>n. replicate n 0) (rd_serial d),
       map_option (\<lambda>n. replicate n 0) (rd_issuerSerial d), proto_field (rd_key d)])\<rparr>"

lemma dec_enc_fields_4 [simp]: "dec_fields 4 (enc_fields [a, b, c, d]) = [a, b, c, d]"
  using dec_enc_fields [of "[a, b, c, d]"] by (simp add: numeral_eq_Suc)

lemma sample_certs_laws: "cert_proto_laws sample_certs"
  by (simp add: cert_proto_laws_def sample_certs_def Let_def byte_certificate_def byte_details_def proto_field_def
      field_proto_def)

definition sample_env :: environment where
  "sample_env = \<lparr>env_crypto = sample_crypto, env_curve = sample_curve, env_proto = sample_noise_proto,
     env_certs = sample_certs, env_signatures = sample_signatures\<rparr>"

definition sample_config :: noise_config where
  "sample_config = \<lparr>clientStaticKeyPair = sample_pair 1, isRegistered = True, loginPayload = Some (Inr [7, 8]),
     registrationPayload = None, loginPayloadConfig = None, registrationPayloadConfig = None,
     cfg_serverStaticKey = None, routingInfo = None, protocolHeader = None, verifyCertificateChain = None,
     cfg_trustedRootCa = Some \<lparr>rootPublicKey = replicate 32 5, rootSerial = 0\<rparr>\<rparr>"

definition sample_chain :: bytes where
  "sample_chain = the (buildFakeCertChain sample_certs sample_signatures (generateFakeNoiseRootCa (sample_pair 5))
     (pubKey (sample_pair 2)) (sample_pair 6) 0)"

lemma sample_chain_ok:
  "verifyNoiseCertificateChain sample_certs sample_signatures sample_chain (pubKey (sample_pair 2))
    (Some \<lparr>rootPublicKey = replicate 32 5, rootSerial = 0\<rparr>) = Inr ()"
proof -
  obtain chain where "buildFakeCertChain sample_certs sample_signatures (generateFakeNoiseRootCa (sample_pair 5))
      (pubKey (sample_pair 2)) (sample_pair 6) 0 = Some chain"
    "verifyNoiseCertificateChain sample_certs sample_signatures chain (pubKey (sample_pair 2))
      (Some \<lparr>rootPublicKey = pubKey (sample_pair 5), rootSerial = 0\<rparr>) = Inr ()"
    by (rule built_chain_accepted [OF sample_certs_laws sample_signature_laws, of "sample_pair 5" "sample_pair 6"]) simp_all
  then show ?thesis by (simp add: sample_chain_def sample_pair_def)
qed

theorem session_establishes_witness:
  "\<exists>m1 m2 m3 r t.
    handleClientHello sample_crypto sample_curve sample_noise_proto sample_server WA_PROTO_HEADER (sample_pair 4)
      sample_chain m1 = Inr (m2, AwaitingClientFinish r (sample_pair 4), None) \<and>
    handleClientFinish sample_crypto sample_curve sample_noise_proto sample_server m3 r (sample_pair 4) =
      Inr (Authenticated t, [7, 8], replicate 32 1)"
proof -
  have c: "clientStaticKeyPair sample_config = sample_pair 1" "resolveHandshakePayload sample_config = Inr [7, 8]"
    "protocol_header sample_config = [87, 65, 6, 3]" "cfg_serverStaticKey sample_config = None"
    "routingInfo sample_config = None"
    "cfg_trustedRootCa sample_config = Some \<lparr>rootPublicKey = replicate 32 5, rootSerial = 0\<rparr>"
    by (simp_all add: sample_config_def resolveHandshakePayload_def protocol_header_def WA_PROTO_HEADER_def)
  have e: "env_crypto sample_env = sample_crypto" "env_curve sample_env = sample_curve"
    "env_proto sample_env = sample_noise_proto" "env_certs sample_env = sample_certs"
    "env_signatures sample_env = sample_signatures"
    by (simp_all add: sample_env_def)
  have s: "serverStaticKeyPair sample_server = sample_pair 2" "parse_payload sample_server [7, 8] = Some [7, 8]"
    by (simp_all add: sample_server_def)
  have k: "pubKey (sample_pair 1) = replicate 32 1" by (simp add: sample_pair_def)
  show ?thesis
    using session_establishes [of sample_env sample_config "sample_pair 3" sample_server "sample_pair 4" "[7, 8]" 6 3
        sample_chain "[7, 8]"] sample_crypto_laws sample_curve_laws sample_noise_proto_laws sample_chain_ok
    unfolding c e s k by (simp add: WA_PROTO_HEADER_def) blast
qed

lemma sample_sealed: "sealed sample_crypto pt ct \<Longrightarrow> length ct = length pt + 16"
  by (auto simp: sealed_def aesGcmEncrypt_def sample_crypto_def concatBytes_eq split: if_splits)

lemma length_enc_field: "length (enc_field v) = (case v of None \<Rightarrow> 1 | Some b \<Rightarrow> 2 * length b + 2)"
  by (cases v) (simp_all add: enc_field_def)

text \<open>A session that has finished its handshake; the server has answered and now sends two stanzas.\<close>

lemma sample_established:
  obtains r sk t hello where "run_reach sample_env r" "noiseSocket (conn r) = Some sk" "linked sk t"
    "sendCounter t = 0" "stage (conn r) = Established" "received r = frame_wire hello" "emitted r = []"
    "pendingDecryptedFrames (conn r) = []" "length hello \<le> WA_MAX_FRAME_LENGTH"
proof -
  let ?ch = "encode_handshake sample_noise_proto (client_hello_message
    \<lparr>ch_ephemeral = Some (pubKey (sample_pair 3)), ch_static = None, ch_payload = None\<rparr>)"
  let ?c = "sample_config\<lparr>verifyCertificateChain := Some False\<rparr>"
  have c: "clientStaticKeyPair ?c = sample_pair 1" "resolveHandshakePayload ?c = Inr [7, 8]"
    "cfg_serverStaticKey ?c = None" "verifyCertificateChain ?c = Some False"
    by (simp_all add: sample_config_def resolveHandshakePayload_def)
  have e: "env_crypto sample_env = sample_crypto" "env_curve sample_env = sample_curve"
    "env_proto sample_env = sample_noise_proto"
    by (simp_all add: sample_env_def)
  have s: "serverStaticKeyPair sample_server = sample_pair 2" "parse_payload sample_server [7, 8] = Some [7, 8]"
    by (simp_all add: sample_server_def)
  have pairs: "generated_pair sample_curve (sample_pair 1)" "generated_pair sample_curve (sample_pair 3)"
    "generated_pair sample_curve (serverStaticKeyPair sample_server)" "generated_pair sample_curve (sample_pair 4)"
    by (simp_all add: s)
  have noCert: "False \<Longrightarrow> verifyNoiseCertificateChain (env_certs sample_env) (env_signatures sample_env) []
      (pubKey (serverStaticKeyPair sample_server)) (cfg_trustedRootCa ?c) = Inr ()" by blast
  obtain h1 c1 c2 r h2 c3 c4 h3 t where
    m: "full_hello sample_crypto sample_noise_proto (protocol_header ?c) (sample_pair 3) = (h1, ?ch)"
      "full_reply sample_crypto sample_curve sample_noise_proto (env_certs sample_env) (env_signatures sample_env)
        (cfg_trustedRootCa ?c) False h1 (sample_pair 3) (encode_handshake sample_noise_proto (server_hello_message
          \<lparr>sh_ephemeral = Some (pubKey (sample_pair 4)), sh_static = Some c1, sh_payload = Some c2\<rparr>)) =
        Inr (h2, pubKey (sample_pair 4), pubKey (serverStaticKeyPair sample_server))"
      "client_finish_frame sample_crypto sample_curve sample_noise_proto h2 (sample_pair 1) [7, 8] (pubKey (sample_pair 4)) =
        Inr (h3, encode_handshake sample_noise_proto (client_finish_message \<lparr>cf_static = Some c3, cf_payload = Some c4\<rparr>))"
      "linked (fst (finish_handshake sample_crypto h3)) t" "sealed sample_crypto (pubKey (serverStaticKeyPair sample_server)) c1"
      "sealed sample_crypto [] c2" "sealed sample_crypto (pubKey (sample_pair 1)) c3" "sealed sample_crypto [7, 8] c4"
      "sendCounter t = 0"
    by (rule full_handshake_messages [where header = "protocol_header ?c", OF sample_crypto_laws sample_curve_laws
          sample_noise_proto_laws pairs noCert s(2)]) blast+
  have len: "length c1 = 48" "length c2 = 16" "length c3 = 48" "length c4 = 18"
    using m(5-8) [THEN sample_sealed] by (simp_all add: s sample_pair_def)
  have small: "length ?ch \<le> WA_MAX_FRAME_LENGTH" "length (encode_handshake sample_noise_proto (server_hello_message
      \<lparr>sh_ephemeral = Some (pubKey (sample_pair 4)), sh_static = Some c1, sh_payload = Some c2\<rparr>)) \<le> WA_MAX_FRAME_LENGTH"
    "length (encode_handshake sample_noise_proto (client_finish_message \<lparr>cf_static = Some c3, cf_payload = Some c4\<rparr>))
      \<le> WA_MAX_FRAME_LENGTH"
    using len by (simp_all add: sample_noise_proto_def client_hello_message_def server_hello_message_def
        client_finish_message_def enc_fields_def length_enc_field sample_pair_def WA_MAX_FRAME_LENGTH_def push_bit_eq_mult)
  let ?m2 = "encode_handshake sample_noise_proto (server_hello_message
    \<lparr>sh_ephemeral = Some (pubKey (sample_pair 4)), sh_static = Some c1, sh_payload = Some c2\<rparr>)"
  have reply: "full_reply sample_crypto sample_curve sample_noise_proto (env_certs sample_env)
      (env_signatures sample_env) (cfg_trustedRootCa ?c) (verifyCertificateChain ?c \<noteq> Some False) h1
      (sample_pair 3) ?m2 = Inr (h2, pubKey (sample_pair 4), pubKey (serverStaticKeyPair sample_server))"
    using m(2) c(4) by simp
  obtain codec where "full_run sample_env ?c (sample_pair 3) ?m2 = ((intro_frame ?c @ frame_wire ?ch,
      frame_wire (encode_handshake sample_noise_proto (client_finish_message \<lparr>cf_static = Some c3, cf_payload = Some c4\<rparr>))),
      \<lparr>conn = new_session\<lparr>frameCodec := Some codec, noiseSocket := Some (fst (finish_handshake sample_crypto h3)),
          serverStaticKey := Some (pubKey (serverStaticKeyPair sample_server)),
          trustedRootCa := cfg_trustedRootCa ?c, stage := Established\<rparr>,
       received = frame_wire ?m2, emitted = []\<rparr>)"
    "run_reach sample_env (snd (full_run sample_env ?c (sample_pair 3) ?m2))"
    by (rule full_run_ok [OF c(3,2), of sample_env, unfolded e c(1), OF m(1) reply m(3) small])
  then show thesis
    using m(4,9) small(2)
    by (intro that [of "snd (full_run sample_env ?c (sample_pair 3) ?m2)" "fst (finish_handshake sample_crypto h3)" t ?m2])
      (simp_all add: new_session_def)
qed

lemma sample_transport_lengths:
  "each (transport_encrypt sample_crypto) pts t = (Inr cts, t') \<Longrightarrow> map length cts = map (\<lambda>p. length p + 16) pts"
proof (induction pts arbitrary: t cts)
  case (Cons pt pts)
  from Cons.prems obtain b t1 cs where 1: "transport_encrypt sample_crypto pt t = (Inr b, t1)"
      "each (transport_encrypt sample_crypto) pts t1 = (Inr cs, t')" "cts = b # cs" by (rule each_Cons_InrE)
  then have "sealed sample_crypto pt b"
    by (auto simp: transport_encrypt_def sealed_def split: sum.splits option.splits)
  from sample_sealed [OF this] Cons.IH [OF 1(2)] 1(3) show ?case by simp
qed simp

text \<open>The server sends two stanzas in one chunk, after the handshake.\<close>

theorem session_delivers_witness:
  "\<exists>r sk. run_reach sample_env r \<and> noiseSocket (conn r) = Some sk \<and>
    emitted r @ pendingDecryptedFrames (conn r) = [[1], [2, 3]]"
proof -
  have e: "env_crypto sample_env = sample_crypto" by (simp add: sample_env_def)
  obtain r sk t hello where r: "run_reach sample_env r" "noiseSocket (conn r) = Some sk" "linked sk t"
    "sendCounter t = 0" "stage (conn r) = Established" "received r = frame_wire hello" "emitted r = []"
    "pendingDecryptedFrames (conn r) = []" "length hello \<le> WA_MAX_FRAME_LENGTH"
    by (rule sample_established)
  have zero: "readCounter sk = 0" using r(3,4) by (simp add: linked_def)
  obtain cts s' t' where sent: "each (transport_encrypt sample_crypto) [[1], [2, 3]] t = (Inr cts, t')"
    "each (socket_decrypt sample_crypto) cts sk = (Inr [[1], [2, 3]], s')"
    using all_to_client [OF sample_crypto_laws r(3), of "[[1], [2, 3]]"] zero by auto
  let ?hello = "hello # cts" and ?M = WA_MAX_FRAME_LENGTH
  have M: "?M = 16777215" by (simp add: WA_MAX_FRAME_LENGTH_def push_bit_eq_mult)
  have "map length cts = [17, 18]" using sample_transport_lengths [OF sent(1)] by simp
  then have lens: "\<forall>frame \<in> set ?hello. length frame \<le> ?M" using r(9) by (auto simp: M map_eq_Cons_conv)
  from run_reach_ok [OF r(1)] r(2,5) have "session_ok sample_crypto (conn r) (received r) []"
    by (auto simp: run_ok_def idle_def failed_def e r(7))
  then obtain codec frames where codec: "frameCodec (conn r) = Some codec" "codec_ok codec" "maxFrameLength codec = ?M"
    "split_frames ?M (received r) = Inr (frames, pending codec)" by (auto simp: session_ok_def)
  have "pending codec = []" using codec(4) split_frames_wire [of "[hello]" ?M] r(6,9) by (simp add: M)
  then have "push_meets codec (concat (map frame_wire cts)) (pushWireChunk (concat (map frame_wire cts)) codec)"
    using pushWireChunk_meets [OF codec(2), of "concat (map frame_wire cts)"] by simp
  with codec(3) split_frames_wire [of cts ?M] lens obtain codec' where
    p: "pushWireChunk (concat (map frame_wire cts)) codec = (Inr cts, codec')"
    by (cases "pushWireChunk (concat (map frame_wire cts)) codec") (auto simp: push_meets_def M split: sum.splits)
  let ?s = "(conn r)\<lparr>pendingDecryptedFrames := [], frameCodec := Some codec', noiseSocket := Some s'\<rparr>"
  let ?r = "\<lparr>conn = ?s, received = received r @ concat (map frame_wire cts), emitted = emitted r @ [[1], [2, 3]]\<rparr>"
  have "push_frames (env_crypto sample_env) (concat (map frame_wire cts)) (conn r) = (Inr [[1], [2, 3]], ?s)"
    using codec(1) p r(2,8) sent(2) by (simp add: push_frames_def decryptFramesBatch_def e)
  then have reach: "run_reach sample_env ?r"
    using run_reach.step [OF r(1) run_step.push] codec(1) by simp
  have "decryptKey s' = decryptKey sk"
    using decryptFramesBatch_opens [of sample_crypto cts sk] sent(2) r(3) by (simp add: decryptFramesBatch_def linked_def)
  then have key: "sendKey t = decryptKey s'" using r(3) unfolding linked_def by metis
  have "\<exists>later. [[1], [2, 3]] = emitted ?r @ pendingDecryptedFrames (conn ?r) @ later \<and> ([] = ([] :: bytes) \<longrightarrow> later = [])"
    using r by (intro session_delivers [OF _ reach _ _ sent(1) [folded e] key _ _ lens])
      (simp_all add: e sample_crypto_laws failed_def linked_def)
  then have "emitted ?r @ pendingDecryptedFrames (conn ?r) = [[1], [2, 3]]" by auto
  with reach show ?thesis by (intro exI [of _ ?r] exI [of _ s']) simp
qed

end
