(* ===== verification/AppStateCrypto.thy ===== *)
theory AppStateCrypto
  imports Crypto Collections SampleFields
begin

text \<open>
  \<open>src/appstate/crypto/WaAppStateCrypto.ts\<close> with the constants of \<open>src/appstate/constants.ts\<close> and
  \<open>src/protocol/appstate.ts\<close>: the keys derived from a sync key and their cache, encryption of one
  mutation, the two MACs of a collection and the LT hash, a sum of expanded value MACs in
  64 little-endian 16-bit words.  The protobuf code of \<open>SyncActionData\<close> is the parameter
  \<open>action_codec\<close>; the value of an action is opaque.
\<close>

subsection \<open>Constants\<close>

definition APP_STATE_DERIVED_KEY_LENGTH :: nat where "APP_STATE_DERIVED_KEY_LENGTH = 160"
definition APP_STATE_DERIVED_INDEX_KEY_END :: nat where "APP_STATE_DERIVED_INDEX_KEY_END = 32"
definition APP_STATE_DERIVED_VALUE_ENCRYPTION_KEY_END :: nat where
  "APP_STATE_DERIVED_VALUE_ENCRYPTION_KEY_END = 64"
definition APP_STATE_DERIVED_VALUE_MAC_KEY_END :: nat where "APP_STATE_DERIVED_VALUE_MAC_KEY_END = 96"
definition APP_STATE_DERIVED_SNAPSHOT_MAC_KEY_END :: nat where
  "APP_STATE_DERIVED_SNAPSHOT_MAC_KEY_END = 128"
definition APP_STATE_DERIVED_PATCH_MAC_KEY_END :: nat where "APP_STATE_DERIVED_PATCH_MAC_KEY_END = 160"
definition APP_STATE_VALUE_MAC_LENGTH :: nat where "APP_STATE_VALUE_MAC_LENGTH = 32"
definition APP_STATE_MAC_OCTET_LENGTH :: nat where "APP_STATE_MAC_OCTET_LENGTH = 8"
definition APP_STATE_IV_LENGTH :: nat where "APP_STATE_IV_LENGTH = 16"
definition APP_STATE_LT_HASH_SIZE :: nat where "APP_STATE_LT_HASH_SIZE = 128"
definition APP_STATE_POINT_SIZE :: nat where "APP_STATE_POINT_SIZE = 2"

definition APP_STATE_EMPTY_LT_HASH :: bytes where
  "APP_STATE_EMPTY_LT_HASH = replicate APP_STATE_LT_HASH_SIZE 0"

lemmas app_state_lengths = APP_STATE_DERIVED_KEY_LENGTH_def APP_STATE_DERIVED_INDEX_KEY_END_def
  APP_STATE_DERIVED_VALUE_ENCRYPTION_KEY_END_def APP_STATE_DERIVED_VALUE_MAC_KEY_END_def
  APP_STATE_DERIVED_SNAPSHOT_MAC_KEY_END_def APP_STATE_DERIVED_PATCH_MAC_KEY_END_def
  APP_STATE_VALUE_MAC_LENGTH_def APP_STATE_MAC_OCTET_LENGTH_def APP_STATE_IV_LENGTH_def

definition KDF_MUTATION_KEYS :: bytes where "KDF_MUTATION_KEYS = text_encode (js ''WhatsApp Mutation Keys'')"
definition KDF_PATCH_INTEGRITY :: bytes where "KDF_PATCH_INTEGRITY = text_encode (js ''WhatsApp Patch Integrity'')"

definition OPERATION_SET :: nat where "OPERATION_SET = 0"
definition OPERATION_REMOVE :: nat where "OPERATION_REMOVE = 1"

subsection \<open>Data\<close>

record derived_keys =
  indexHmacKey :: bytes
  valueEncryptionAesKey :: bytes
  valueMacHmacKey :: bytes
  snapshotMacHmacKey :: bytes
  patchMacHmacKey :: bytes

datatype app_crypto_error =
    InvalidIvLength nat
  | CipherFailure
  | UnsupportedOperation nat
  | InvalidValueBlob
  | ValueMacMismatch
  | ActionDecodeFailure
  | MissingActionIndex
  | MissingActionVersion
  | IndexMacMismatch
  | LtHashInputLength
  | LtHashAlignment
  | LtHashOutputLength
  | VersionNotEncodable int

text \<open>
  A 64-bit field of a decoded message is a number or a \<open>Long\<close> object, depending on the build of
  the protobuf library; they differ where the code tests the field for truth.
\<close>

datatype proto_long = LongNumber int | LongObject int

definition long_value :: "proto_long \<Rightarrow> int" where
  "long_value l = (case l of LongNumber n \<Rightarrow> n | LongObject n \<Rightarrow> n)"

record 'v action_data =
  ad_index :: "bytes option"
  ad_value :: "'v option"
  ad_padding :: "bytes option"
  ad_version :: "int option"

record 'v action_codec =
  encode_action :: "'v action_data \<Rightarrow> bytes"
  decode_action :: "bytes \<Rightarrow> 'v action_data option"
  value_timestamp :: "'v \<Rightarrow> proto_long option"

record encrypted_mutation =
  em_indexMac :: bytes
  em_valueBlob :: bytes
  em_valueMac :: bytes

record 'v decrypted_mutation =
  dm_index :: jstr
  dm_value :: "'v option"
  dm_version :: int
  dm_indexMac :: bytes
  dm_valueMac :: bytes

subsection \<open>Keys\<close>

definition derive_fresh :: "crypto \<Rightarrow> bytes \<Rightarrow> derived_keys" where
  "derive_fresh C keyData =
    (let derived = hkdf C keyData None KDF_MUTATION_KEYS APP_STATE_DERIVED_KEY_LENGTH
     in \<lparr>indexHmacKey = subarray derived 0 APP_STATE_DERIVED_INDEX_KEY_END,
         valueEncryptionAesKey = subarray derived APP_STATE_DERIVED_INDEX_KEY_END
           APP_STATE_DERIVED_VALUE_ENCRYPTION_KEY_END,
         valueMacHmacKey = subarray derived APP_STATE_DERIVED_VALUE_ENCRYPTION_KEY_END
           APP_STATE_DERIVED_VALUE_MAC_KEY_END,
         snapshotMacHmacKey = subarray derived APP_STATE_DERIVED_VALUE_MAC_KEY_END
           APP_STATE_DERIVED_SNAPSHOT_MAC_KEY_END,
         patchMacHmacKey = subarray derived APP_STATE_DERIVED_SNAPSHOT_MAC_KEY_END
           APP_STATE_DERIVED_PATCH_MAC_KEY_END\<rparr>)"

text \<open>The object: the cache is a bounded map, from the base64 of a sync key to its keys.\<close>

record app_crypto =
  derivedKeysCache :: "(jstr, derived_keys) jsmap"
  derivedKeysCacheMaxSize :: nat
  skipMacVerification :: bool

definition DEFAULT_DERIVED_KEYS_CACHE_MAX_SIZE :: nat where "DEFAULT_DERIVED_KEYS_CACHE_MAX_SIZE = 256"

definition new_app_crypto :: "int option \<Rightarrow> bool \<Rightarrow> app_crypto" where
  "new_app_crypto maxSize skip =
    \<lparr>derivedKeysCache = [],
     derivedKeysCacheMaxSize = (case maxSize of None \<Rightarrow> DEFAULT_DERIVED_KEYS_CACHE_MAX_SIZE
       | Some n \<Rightarrow> nat (max 0 n)),
     skipMacVerification = skip\<rparr>"

definition clearCache :: "app_crypto \<Rightarrow> app_crypto" where
  "clearCache a = a\<lparr>derivedKeysCache := []\<rparr>"

definition touchDerivedKeysCacheEntry :: "jstr \<Rightarrow> derived_keys \<Rightarrow> app_crypto \<Rightarrow> app_crypto" where
  "touchDerivedKeysCacheEntry cacheKey keys a =
    (if derivedKeysCacheMaxSize a \<le> 0 then a
     else a\<lparr>derivedKeysCache :=
       fst (setBoundedMapEntry cacheKey keys (derivedKeysCacheMaxSize a) (derivedKeysCache a))\<rparr>)"

definition deriveKeys :: "crypto \<Rightarrow> app_crypto \<Rightarrow> bytes \<Rightarrow> derived_keys \<times> app_crypto" where
  "deriveKeys C a keyData =
    (let cacheKey = bytesToBase64 keyData in
     case map_get (derivedKeysCache a) cacheKey of
       Some cached \<Rightarrow> (cached, touchDerivedKeysCacheEntry cacheKey cached a)
     | None \<Rightarrow> let keys = derive_fresh C keyData
         in (keys, touchDerivedKeysCacheEntry cacheKey keys a))"

subsection \<open>Mutations\<close>

definition generateIndexMac :: "crypto \<Rightarrow> bytes \<Rightarrow> bytes \<Rightarrow> bytes" where
  "generateIndexMac C key indexBytes = hmacSha256Sign C key [indexBytes]"

definition generateAssociatedData :: "nat \<Rightarrow> bytes \<Rightarrow> app_crypto_error + bytes" where
  "generateAssociatedData operation keyId =
    (if operation \<noteq> OPERATION_SET \<and> operation \<noteq> OPERATION_REMOVE then Inl (UnsupportedOperation operation)
     else Inr (u8_set ((replicate (1 + length keyId) 0)[0 := to_u8 (operation + 1)]) keyId 1))"

definition generateValueMac :: "crypto \<Rightarrow> bytes \<Rightarrow> bytes \<Rightarrow> bytes \<Rightarrow> bytes \<Rightarrow> bytes" where
  "generateValueMac C key associatedData iv cipherText =
    (let octetLength = (replicate APP_STATE_MAC_OCTET_LENGTH 0)[APP_STATE_MAC_OCTET_LENGTH - 1 :=
           to_u8 (length associatedData AND 0xff)];
         full = hmacSha512Sign C key [associatedData, iv, cipherText, octetLength]
     in subarray full 0 APP_STATE_VALUE_MAC_LENGTH)"

text \<open>
  The body of \<open>encryptMutation\<close> after \<open>deriveKeys\<close>; \<open>random\<close> are the 16 random bytes that are drawn
  when no IV is given.
\<close>

definition encrypt_with ::
    "crypto \<Rightarrow> 'v action_codec \<Rightarrow> derived_keys \<Rightarrow> nat \<Rightarrow> bytes \<Rightarrow> jstr \<Rightarrow> 'v option \<Rightarrow> int \<Rightarrow> bytes option \<Rightarrow> bytes \<Rightarrow>
     app_crypto_error + encrypted_mutation" where
  "encrypt_with C A keys operation keyId index value version givenIv random =
    (let indexBytes = text_encode index;
         encoded = encode_action A \<lparr>ad_index = Some indexBytes, ad_value = value, ad_padding = Some [],
           ad_version = Some version\<rparr>;
         iv = (case givenIv of Some v \<Rightarrow> v | None \<Rightarrow> random)
     in if length iv \<noteq> APP_STATE_IV_LENGTH then Inl (InvalidIvLength (length iv))
        else let indexMac = generateIndexMac C (indexHmacKey keys) indexBytes in
          case aesCbcEncrypt C (valueEncryptionAesKey keys) iv encoded of
            None \<Rightarrow> Inl CipherFailure
          | Some cipherText \<Rightarrow> rbind (generateAssociatedData operation keyId) (\<lambda>associatedData.
              let valueMac = generateValueMac C (valueMacHmacKey keys) associatedData iv cipherText
              in Inr \<lparr>em_indexMac = indexMac, em_valueBlob = concatBytes [iv, cipherText, valueMac],
                      em_valueMac = valueMac\<rparr>))"

definition encryptMutation ::
    "crypto \<Rightarrow> 'v action_codec \<Rightarrow> app_crypto \<Rightarrow> nat \<Rightarrow> bytes \<Rightarrow> bytes \<Rightarrow> jstr \<Rightarrow> 'v option \<Rightarrow> int \<Rightarrow> bytes option \<Rightarrow> bytes \<Rightarrow>
     (app_crypto_error + encrypted_mutation) \<times> app_crypto" where
  "encryptMutation C A a operation keyId keyData index value version givenIv random =
    (let (keys, a') = deriveKeys C a keyData
     in (encrypt_with C A keys operation keyId index value version givenIv random, a'))"

text \<open>The checks that \<open>skipMacVerification\<close> turns off.\<close>

definition check_value_mac ::
    "crypto \<Rightarrow> bool \<Rightarrow> derived_keys \<Rightarrow> nat \<Rightarrow> bytes \<Rightarrow> bytes \<Rightarrow> bytes \<Rightarrow> bytes \<Rightarrow> app_crypto_error + unit" where
  "check_value_mac C skip keys operation keyId iv cipherText mac =
    (if skip then Inr ()
     else rbind (generateAssociatedData operation keyId) (\<lambda>associatedData.
       if uint8TimingSafeEqual mac (generateValueMac C (valueMacHmacKey keys) associatedData iv cipherText)
       then Inr () else Inl ValueMacMismatch))"

definition check_index_mac ::
    "crypto \<Rightarrow> bool \<Rightarrow> derived_keys \<Rightarrow> bytes \<Rightarrow> bytes \<Rightarrow> app_crypto_error + unit" where
  "check_index_mac C skip keys index indexMac =
    (if skip then Inr ()
     else if uint8TimingSafeEqual (generateIndexMac C (indexHmacKey keys) index) indexMac then Inr ()
     else Inl IndexMacMismatch)"

text \<open>The body of \<open>decryptMutation\<close> once the blob is long enough.\<close>

definition read_action ::
    "crypto \<Rightarrow> 'v action_codec \<Rightarrow> bool \<Rightarrow> derived_keys \<Rightarrow> bytes \<Rightarrow> bytes \<Rightarrow> bytes \<Rightarrow> bytes \<Rightarrow>
     app_crypto_error + 'v decrypted_mutation" where
  "read_action C A skip keys iv cipherText mac indexMac =
    (case aesCbcDecrypt C (valueEncryptionAesKey keys) iv cipherText of
       None \<Rightarrow> Inl CipherFailure
     | Some plaintext \<Rightarrow>
         (case decode_action A plaintext of
            None \<Rightarrow> Inl ActionDecodeFailure
          | Some action \<Rightarrow>
              (case ad_index action of
                 None \<Rightarrow> Inl MissingActionIndex
               | Some index \<Rightarrow>
                   (case ad_version action of
                      None \<Rightarrow> Inl MissingActionVersion
                    | Some version \<Rightarrow> rbind (check_index_mac C skip keys index indexMac) (\<lambda>_.
                        Inr \<lparr>dm_index = text_decode index, dm_value = ad_value action, dm_version = version,
                             dm_indexMac = indexMac, dm_valueMac = mac\<rparr>)))))"

definition decrypt_with ::
    "crypto \<Rightarrow> 'v action_codec \<Rightarrow> bool \<Rightarrow> derived_keys \<Rightarrow> nat \<Rightarrow> bytes \<Rightarrow> bytes \<Rightarrow> bytes \<Rightarrow>
     app_crypto_error + 'v decrypted_mutation" where
  "decrypt_with C A skip keys operation keyId indexMac valueBlob =
    (let macStart = length valueBlob - APP_STATE_VALUE_MAC_LENGTH;
         iv = subarray valueBlob 0 APP_STATE_IV_LENGTH;
         mac = drop macStart valueBlob;
         cipherText = subarray valueBlob APP_STATE_IV_LENGTH macStart
     in rbind (check_value_mac C skip keys operation keyId iv cipherText mac) (\<lambda>_.
        read_action C A skip keys iv cipherText mac indexMac))"

definition decryptMutation ::
    "crypto \<Rightarrow> 'v action_codec \<Rightarrow> app_crypto \<Rightarrow> nat \<Rightarrow> bytes \<Rightarrow> bytes \<Rightarrow> bytes \<Rightarrow> bytes \<Rightarrow>
     (app_crypto_error + 'v decrypted_mutation) \<times> app_crypto" where
  "decryptMutation C A a operation keyId keyData indexMac valueBlob =
    (if length valueBlob < APP_STATE_IV_LENGTH + APP_STATE_VALUE_MAC_LENGTH then (Inl InvalidValueBlob, a)
     else let (keys, a') = deriveKeys C a keyData
       in (decrypt_with C A (skipMacVerification a) keys operation keyId indexMac valueBlob, a'))"

subsection \<open>MACs of a collection\<close>

definition version_bytes :: "int \<Rightarrow> app_crypto_error + bytes" where
  "version_bytes version =
    (case intToBytes 8 (Integral version) of Inl e \<Rightarrow> Inl (VersionNotEncodable version) | Inr b \<Rightarrow> Inr b)"

definition snapshot_mac_with ::
    "crypto \<Rightarrow> derived_keys \<Rightarrow> bytes \<Rightarrow> int \<Rightarrow> jstr \<Rightarrow> app_crypto_error + bytes" where
  "snapshot_mac_with C keys ltHash version collectionName =
    rbind (version_bytes version) (\<lambda>v.
      Inr (hmacSha256Sign C (snapshotMacHmacKey keys) [ltHash, v, text_encode collectionName]))"

definition generateSnapshotMac ::
    "crypto \<Rightarrow> app_crypto \<Rightarrow> bytes \<Rightarrow> bytes \<Rightarrow> int \<Rightarrow> jstr \<Rightarrow> (app_crypto_error + bytes) \<times> app_crypto" where
  "generateSnapshotMac C a keyData ltHash version collectionName =
    (let (keys, a') = deriveKeys C a keyData in (snapshot_mac_with C keys ltHash version collectionName, a'))"

definition patch_mac_with ::
    "crypto \<Rightarrow> derived_keys \<Rightarrow> bytes \<Rightarrow> bytes list \<Rightarrow> int \<Rightarrow> jstr \<Rightarrow> app_crypto_error + bytes" where
  "patch_mac_with C keys snapshotMac valueMacs version collectionName =
    rbind (version_bytes version) (\<lambda>v.
      Inr (hmacSha256Sign C (patchMacHmacKey keys) ([snapshotMac] @ valueMacs @ [v, text_encode collectionName])))"

definition generatePatchMac ::
    "crypto \<Rightarrow> app_crypto \<Rightarrow> bytes \<Rightarrow> bytes \<Rightarrow> bytes list \<Rightarrow> int \<Rightarrow> jstr \<Rightarrow> (app_crypto_error + bytes) \<times> app_crypto" where
  "generatePatchMac C a keyData snapshotMac valueMacs version collectionName =
    (let (keys, a') = deriveKeys C a keyData
     in (patch_mac_with C keys snapshotMac valueMacs version collectionName, a'))"

subsection \<open>LT hash\<close>

type_synonym combine = "int \<Rightarrow> int \<Rightarrow> int"

definition point_at :: "bytes \<Rightarrow> nat \<Rightarrow> int" where
  "point_at bs offset = int (unat (bs ! offset) OR push_bit 8 (unat (bs ! (offset + 1))))"

definition low_byte :: "int \<Rightarrow> byte" where
  "low_byte value = of_int (value AND 0xff)"

text \<open>\<open>value >>> 8\<close> first takes the number to 32 bits.\<close>

definition high_byte :: "int \<Rightarrow> byte" where
  "high_byte value = of_int (drop_bit 8 (take_bit 32 value) AND 0xff)"

text \<open>
  The loop writes into \<open>out\<close> and reads from \<open>left\<close>; after the first value \<open>left\<close> is \<open>out\<close> itself,
  which is \<open>None\<close> here.
\<close>

definition left_view :: "bytes option \<Rightarrow> bytes \<Rightarrow> bytes" where
  "left_view left out = (case left of Some b \<Rightarrow> b | None \<Rightarrow> out)"

function pointwise_loop :: "combine \<Rightarrow> bytes option \<Rightarrow> bytes \<Rightarrow> nat \<Rightarrow> bytes \<Rightarrow> bytes" where
  "pointwise_loop combine left right offset out =
    (if offset < length (left_view left out) then
       let v = combine (point_at (left_view left out) offset) (point_at right offset)
       in pointwise_loop combine left right (offset + APP_STATE_POINT_SIZE)
            (out[offset := low_byte v, offset + 1 := high_byte v])
     else out)"
  by pat_completeness auto
termination
  by (relation "measure (\<lambda>(c, left, r, offset, out). length (left_view left out) - offset)")
    (auto simp: left_view_def APP_STATE_POINT_SIZE_def split: option.splits)

declare pointwise_loop.simps [simp del]

definition pointwiseWithOverflow ::
    "bytes option \<Rightarrow> bytes \<Rightarrow> combine \<Rightarrow> bytes \<Rightarrow> app_crypto_error + bytes" where
  "pointwiseWithOverflow left right combine out =
    (if length (left_view left out) \<noteq> length right then Inl LtHashInputLength
     else if length (left_view left out) mod APP_STATE_POINT_SIZE \<noteq> 0 then Inl LtHashAlignment
     else if length out \<noteq> length (left_view left out) then Inl LtHashOutputLength
     else Inr (pointwise_loop combine left right 0 out))"

definition expand_mac :: "crypto \<Rightarrow> bytes \<Rightarrow> bytes" where
  "expand_mac C v = hkdf C v None KDF_PATCH_INTEGRITY (length APP_STATE_EMPTY_LT_HASH)"

fun lt_rest :: "combine \<Rightarrow> bytes list \<Rightarrow> bytes \<Rightarrow> app_crypto_error + bytes" where
  "lt_rest combine [] out = Inr out"
| "lt_rest combine (v # vs) out =
    rbind (pointwiseWithOverflow None v combine out) (lt_rest combine vs)"

definition ltHashApply :: "crypto \<Rightarrow> bytes \<Rightarrow> bytes list \<Rightarrow> combine \<Rightarrow> app_crypto_error + bytes" where
  "ltHashApply C base values combine =
    (case map (expand_mac C) values of
       [] \<Rightarrow> Inr base
     | first # rest \<Rightarrow> rbind (pointwiseWithOverflow (Some base) first combine (replicate (length base) 0))
         (lt_rest combine rest))"

definition ltHashAdd :: "crypto \<Rightarrow> bytes \<Rightarrow> bytes list \<Rightarrow> app_crypto_error + bytes" where
  "ltHashAdd C base addValues = ltHashApply C base addValues (\<lambda>left right. left + right)"

definition ltHashSubtract :: "crypto \<Rightarrow> bytes \<Rightarrow> bytes list \<Rightarrow> app_crypto_error + bytes" where
  "ltHashSubtract C base removeValues = ltHashApply C base removeValues (\<lambda>left right. left - right)"

definition ltHashSubtractThenAdd ::
    "crypto \<Rightarrow> bytes \<Rightarrow> bytes list \<Rightarrow> bytes list \<Rightarrow> app_crypto_error + bytes \<times> bytes" where
  "ltHashSubtractThenAdd C base addValues removeValues =
    rbind (ltHashSubtract C base removeValues) (\<lambda>subtractResult.
      rbind (ltHashAdd C subtractResult addValues) (\<lambda>hash. Inr (hash, subtractResult)))"

subsection \<open>The cache is transparent\<close>

definition cache_ok :: "crypto \<Rightarrow> app_crypto \<Rightarrow> bool" where
  "cache_ok C a \<longleftrightarrow>
    (\<forall>k keys. map_get (derivedKeysCache a) k = Some keys \<longrightarrow>
      (\<exists>keyData. k = bytesToBase64 keyData \<and> keys = derive_fresh C keyData)) \<and>
    length (derivedKeysCache a) \<le> derivedKeysCacheMaxSize a \<and> jsmap_ok (derivedKeysCache a)"

lemma bytesToBase64_inject: "bytesToBase64 a = bytesToBase64 b \<longleftrightarrow> a = b"
proof
  assume "bytesToBase64 a = bytesToBase64 b"
  then have "base64ToBytes (bytesToBase64 a) = base64ToBytes (bytesToBase64 b)" by (rule arg_cong)
  then show "a = b" by (simp only: base64ToBytes_bytesToBase64 sum.inject)
qed (rule arg_cong)

lemma cache_ok_touch:
  assumes "cache_ok C a"
  shows "cache_ok C (touchDerivedKeysCacheEntry (bytesToBase64 keyData) (derive_fresh C keyData) a)"
proof (cases "derivedKeysCacheMaxSize a")
  case 0
  then show ?thesis using assms by (simp add: touchDerivedKeysCacheEntry_def)
next
  case (Suc n)
  let ?k = "bytesToBase64 keyData" and ?v = "derive_fresh C keyData"
  let ?m = "fst (setBoundedMapEntry ?k ?v (Suc n) (derivedKeysCache a))"
  have ok: "jsmap_ok (derivedKeysCache a)" using assms by (simp add: cache_ok_def)
  have "\<exists>kd. k = bytesToBase64 kd \<and> keys = derive_fresh C kd" if "map_get ?m k = Some keys" for k keys
    using bounded_map.get_put_cases [OF ok that] assms unfolding cache_ok_def by blast
  then show ?thesis
    using setBoundedMapEntry_get(3,4) [OF ok, of "Suc n" ?k ?v] Suc
    by (simp add: cache_ok_def touchDerivedKeysCacheEntry_def)
qed

lemma deriveKeys_cached:
  assumes "cache_ok C a"
  shows "fst (deriveKeys C a keyData) = derive_fresh C keyData" "cache_ok C (snd (deriveKeys C a keyData))"
    "skipMacVerification (snd (deriveKeys C a keyData)) = skipMacVerification a"
proof -
  have hit: "keys = derive_fresh C keyData"
    if "map_get (derivedKeysCache a) (bytesToBase64 keyData) = Some keys" for keys
  proof -
    from assms that obtain kd where "bytesToBase64 keyData = bytesToBase64 kd" "keys = derive_fresh C kd"
      unfolding cache_ok_def by blast
    then show ?thesis by (simp add: bytesToBase64_inject)
  qed
  have touch: "skipMacVerification (touchDerivedKeysCacheEntry k v a) = skipMacVerification a" for k v
    by (simp add: touchDerivedKeysCacheEntry_def)
  show "fst (deriveKeys C a keyData) = derive_fresh C keyData"
    using hit by (simp add: deriveKeys_def Let_def split: option.split)
  show "cache_ok C (snd (deriveKeys C a keyData))"
    using cache_ok_touch [OF assms, of keyData] hit by (auto simp: deriveKeys_def Let_def split: option.split)
  show "skipMacVerification (snd (deriveKeys C a keyData)) = skipMacVerification a"
    by (simp add: deriveKeys_def Let_def touch split: option.split)
qed

lemma cache_ok_new: "cache_ok C (new_app_crypto n skip)"
  by (simp add: cache_ok_def new_app_crypto_def jsmap_ok_def map_get_def)

lemma cache_ok_clear: "cache_ok C (clearCache a)"
  by (simp add: cache_ok_def clearCache_def jsmap_ok_def map_get_def)

text \<open>A use of the object: \<open>Some k\<close> derives the keys of \<open>k\<close>, \<open>None\<close> clears the cache.\<close>

fun derive_run :: "crypto \<Rightarrow> app_crypto \<Rightarrow> bytes option list \<Rightarrow> derived_keys list \<times> app_crypto" where
  "derive_run C a [] = ([], a)"
| "derive_run C a (None # us) = derive_run C (clearCache a) us"
| "derive_run C a (Some k # us) =
    (let d = deriveKeys C a k; rest = derive_run C (snd d) us in (fst d # fst rest, snd rest))"

lemma derive_run_cached:
  assumes "cache_ok C a"
  shows "fst (derive_run C a us) = map (derive_fresh C) (concat (map (\<lambda>u. case u of Some k \<Rightarrow> [k] | None \<Rightarrow> []) us))
    \<and> cache_ok C (snd (derive_run C a us))"
  using assms
proof (induction C a us rule: derive_run.induct)
  case (2 C a us)
  then show ?case by (simp add: cache_ok_clear)
next
  case (3 C a k us)
  show ?case
    using 3(1) [OF refl deriveKeys_cached(2) [OF 3(2)]] deriveKeys_cached(1) [OF 3(2), of k]
    by (simp add: Let_def)
qed simp

lemma derivedKeysCacheMaxSize_run: "derivedKeysCacheMaxSize (snd (derive_run C a us)) = derivedKeysCacheMaxSize a"
proof (induction C a us rule: derive_run.induct)
  case (3 C a k us)
  have "derivedKeysCacheMaxSize (snd (deriveKeys C a k)) = derivedKeysCacheMaxSize a"
    by (simp add: deriveKeys_def touchDerivedKeysCacheEntry_def Let_def split: option.split)
  then show ?case using 3 [OF refl] by (simp add: Let_def)
qed (simp_all add: clearCache_def)

text \<open>
  C20: however often keys are derived and the cache is cleared, on an object with any cache size, every
  call of \<open>deriveKeys\<close> returns what a fresh derivation returns, and the cache stays within its size.
\<close>

theorem derived_keys_cached:
  "fst (derive_run C (new_app_crypto n skip) us) =
      map (derive_fresh C) (concat (map (\<lambda>u. case u of Some k \<Rightarrow> [k] | None \<Rightarrow> []) us)) \<and>
   length (derivedKeysCache (snd (derive_run C (new_app_crypto n skip) us)))
      \<le> derivedKeysCacheMaxSize (new_app_crypto n skip)"
  using derive_run_cached [OF cache_ok_new, of C n skip us]
  by (simp add: cache_ok_def derivedKeysCacheMaxSize_run [where C = C and a = "new_app_crypto n skip" and us = us, symmetric])

subsection \<open>A mutation is read back\<close>

definition int32 :: "int \<Rightarrow> bool" where
  "int32 n \<longleftrightarrow> - (2 ^ 31) \<le> n \<and> n < 2 ^ 31"

definition action_laws :: "'v action_codec \<Rightarrow> bool" where
  "action_laws A \<longleftrightarrow>
    (\<forall>d. (case ad_version d of None \<Rightarrow> True | Some n \<Rightarrow> int32 n) \<longrightarrow> decode_action A (encode_action A d) = Some d)"

lemma derived_lengths:
  assumes "crypto_laws C"
  shows "length (valueEncryptionAesKey (derive_fresh C keyData)) = 32"
  using crypto_lawsD(3) [OF assms] by (simp add: derive_fresh_def hkdf_def subarray_def Let_def app_state_lengths)

lemma generateAssociatedData_eq:
  "operation \<in> {OPERATION_SET, OPERATION_REMOVE} \<Longrightarrow>
    generateAssociatedData operation keyId = Inr (to_u8 (operation + 1) # keyId)"
  by (auto simp: generateAssociatedData_def u8_set_def OPERATION_SET_def OPERATION_REMOVE_def)

lemma length_generateValueMac:
  "crypto_laws C \<Longrightarrow> length (generateValueMac C k ad iv ct) = APP_STATE_VALUE_MAC_LENGTH"
  using crypto_lawsD(6) [of C] by (simp add: generateValueMac_def hmacSha512Sign_def subarray_def Let_def app_state_lengths)

text \<open>What an encrypted mutation is, in terms of the plaintext.\<close>

lemma encrypt_with_eq:
  assumes "crypto_laws C" "length random = APP_STATE_IV_LENGTH" "operation \<in> {OPERATION_SET, OPERATION_REMOVE}"
    "length (valueEncryptionAesKey keys) = 32"
  obtains ct where
    "cbc_open C (valueEncryptionAesKey keys) random ct = Some (encode_action A \<lparr>ad_index = Some (text_encode index),
       ad_value = v, ad_padding = Some [], ad_version = Some version\<rparr>)"
    "encrypt_with C A keys operation keyId index v version None random =
      (let mac = generateValueMac C (valueMacHmacKey keys) (to_u8 (operation + 1) # keyId) random ct
       in Inr \<lparr>em_indexMac = generateIndexMac C (indexHmacKey keys) (text_encode index),
               em_valueBlob = random @ ct @ mac, em_valueMac = mac\<rparr>)"
proof -
  let ?plain = "encode_action A \<lparr>ad_index = Some (text_encode index), ad_value = v, ad_padding = Some [],
    ad_version = Some version\<rparr>"
  have "length random = 16" using assms(2) by (simp add: app_state_lengths)
  then obtain ct where "cbc_seal C (valueEncryptionAesKey keys) random ?plain = Some ct"
      "cbc_open C (valueEncryptionAesKey keys) random ct = Some ?plain"
    using crypto_lawsD(4) [OF assms(1,4)] by blast
  with assms(2) show thesis
    by (intro that [of ct]) (simp_all add: encrypt_with_def aesCbcEncrypt_def concatBytes_eq
        generateAssociatedData_eq [OF assms(3)] Let_def)
qed

lemma decrypt_with_blob:
  assumes "length iv = APP_STATE_IV_LENGTH" "length mac = APP_STATE_VALUE_MAC_LENGTH"
    "operation \<in> {OPERATION_SET, OPERATION_REMOVE}"
  shows "decrypt_with C A skip keys operation keyId indexMac (iv @ ct @ mac) =
    (if \<not> skip \<and> mac \<noteq> generateValueMac C (valueMacHmacKey keys) (to_u8 (operation + 1) # keyId) iv ct
     then Inl ValueMacMismatch else read_action C A skip keys iv ct mac indexMac)"
  using assms by (simp add: decrypt_with_def check_value_mac_def generateAssociatedData_eq
      uint8TimingSafeEqual_iff subarray_def Let_def)

lemma encrypt_decrypt_with:
  assumes laws: "crypto_laws C" "action_laws A"
    and "length random = APP_STATE_IV_LENGTH" "operation \<in> {OPERATION_SET, OPERATION_REMOVE}"
    and "length (valueEncryptionAesKey keys) = 32" "int32 version" "utf8_safe index"
  obtains m where "encrypt_with C A keys operation keyId index v version None random = Inr m"
    "decrypt_with C A skip keys operation keyId (em_indexMac m) (em_valueBlob m) =
      Inr \<lparr>dm_index = index, dm_value = v, dm_version = version, dm_indexMac = em_indexMac m,
           dm_valueMac = em_valueMac m\<rparr>"
    "em_indexMac m = generateIndexMac C (indexHmacKey keys) (text_encode index)"
    "APP_STATE_IV_LENGTH + APP_STATE_VALUE_MAC_LENGTH \<le> length (em_valueBlob m)"
proof -
  let ?d = "\<lparr>ad_index = Some (text_encode index), ad_value = v, ad_padding = Some [], ad_version = Some version\<rparr>"
  obtain ct where ct: "cbc_open C (valueEncryptionAesKey keys) random ct = Some (encode_action A ?d)"
      "encrypt_with C A keys operation keyId index v version None random =
        (let mac = generateValueMac C (valueMacHmacKey keys) (to_u8 (operation + 1) # keyId) random ct
         in Inr \<lparr>em_indexMac = generateIndexMac C (indexHmacKey keys) (text_encode index),
               em_valueBlob = random @ ct @ mac, em_valueMac = mac\<rparr>)"
    using encrypt_with_eq [OF laws(1) assms(3-5)] .
  have "decode_action A (encode_action A ?d) = Some ?d"
    using laws(2) assms(6) by (simp add: action_laws_def)
  with ct assms(3,7) show thesis
    by (intro that [OF ct(2) [unfolded Let_def]])
      (simp_all add: decrypt_with_blob [OF assms(3) length_generateValueMac [OF laws(1)] assms(4)]
        read_action_def aesCbcDecrypt_def check_index_mac_def uint8TimingSafeEqual_iff text_decode_encode
        length_generateValueMac [OF laws(1)])
qed

text \<open>
  C18: what one object encrypts, another one (with any cache content and with or without MAC checks)
  decrypts to the same index, value and version, under the index MAC and the value MAC that were
  announced.
\<close>

theorem mutation_roundtrip:
  assumes "crypto_laws C" "action_laws A" "cache_ok C a" "cache_ok C b"
    and "length random = APP_STATE_IV_LENGTH" "operation \<in> {OPERATION_SET, OPERATION_REMOVE}"
    and "int32 version" "utf8_safe index"
  shows "\<exists>m. fst (encryptMutation C A a operation keyId keyData index v version None random) = Inr m \<and>
    fst (decryptMutation C A b operation keyId keyData (em_indexMac m) (em_valueBlob m)) =
      Inr \<lparr>dm_index = index, dm_value = v, dm_version = version, dm_indexMac = em_indexMac m,
           dm_valueMac = em_valueMac m\<rparr>"
proof -
  obtain m where "encrypt_with C A (derive_fresh C keyData) operation keyId index v version None random = Inr m"
    "decrypt_with C A (skipMacVerification b) (derive_fresh C keyData) operation keyId (em_indexMac m) (em_valueBlob m) =
      Inr \<lparr>dm_index = index, dm_value = v, dm_version = version, dm_indexMac = em_indexMac m,
           dm_valueMac = em_valueMac m\<rparr>"
    "APP_STATE_IV_LENGTH + APP_STATE_VALUE_MAC_LENGTH \<le> length (em_valueBlob m)"
    using encrypt_decrypt_with [OF assms(1,2,5,6) derived_lengths [OF assms(1)] assms(7,8)] by metis
  then show ?thesis
    using deriveKeys_cached [OF assms(3), of keyData] deriveKeys_cached [OF assms(4), of keyData]
    by (intro exI [of _ m]) (simp add: encryptMutation_def decryptMutation_def split_beta)
qed

text \<open>A stand-in for the protobuf code of the actions, with byte strings as values.\<close>

definition sample_actions :: "bytes action_codec" where
  "sample_actions = \<lparr>
     encode_action = (\<lambda>d. enc_field (ad_index d) @ enc_field (ad_value d) @ enc_field (ad_padding d) @
       enc_num (map_option (\<lambda>n. nat (n + 2 ^ 31)) (ad_version d))),
     decode_action = (\<lambda>bs. let (index, r1) = dec_field bs; (v, r2) = dec_field r1; (padding, r3) = dec_field r2;
         (version, _) = dec_num r3
       in Some \<lparr>ad_index = index, ad_value = v, ad_padding = padding,
                ad_version = map_option (\<lambda>n. int n - 2 ^ 31) version\<rparr>),
     value_timestamp = (\<lambda>v. Some (LongNumber (int (length v))))\<rparr>"

lemma sample_actions_laws: "action_laws sample_actions"
proof -
  have num: "dec_num (enc_num v) = (v, [])" for v
    using dec_enc_num [of v "[]"] by simp
  have "map_option (\<lambda>n. int n - 2 ^ 31) (map_option (\<lambda>n. nat (n + 2 ^ 31)) (Some n)) = Some n" if "int32 n" for n
    using that by (simp add: int32_def)
  then show ?thesis
    by (auto simp: action_laws_def sample_actions_def num split: option.splits)
qed

theorem mutation_roundtrip_witness:
  "\<exists>m. fst (encryptMutation sample_crypto sample_actions (new_app_crypto None False) OPERATION_SET [0, 1, 2]
      (replicate 32 7) (js ''mute'') (Some [1, 2]) 3 None (replicate 16 5)) = Inr m \<and>
    fst (decryptMutation sample_crypto sample_actions (new_app_crypto (Some 1) True) OPERATION_SET [0, 1, 2]
      (replicate 32 7) (em_indexMac m) (em_valueBlob m)) =
      Inr \<lparr>dm_index = js ''mute'', dm_value = Some [1, 2], dm_version = 3, dm_indexMac = em_indexMac m,
           dm_valueMac = em_valueMac m\<rparr>"
  by (rule mutation_roundtrip [OF sample_crypto_laws sample_actions_laws cache_ok_new cache_ok_new])
    (simp_all add: app_state_lengths int32_def utf8_safe_def js_def high_surrogate_def low_surrogate_def)

end
