(* ===== verification/AppStateHash.thy ===== *)
theory AppStateHash
  imports AppStateCrypto "HOL-Library.Multiset"
begin

text \<open>
  The algebra of the LT hash: read as 64 words of 16 bits, adding value MACs to a hash adds the words
  of their expansions and subtracting them takes those away, modulo \<open>2 ^ 16\<close>.  So the hash of a
  collection is a function of the multiset of its value MACs (\<open>lt_hash\<close>), and an update of the
  multiset is an update of the hash, in whatever order it comes.
\<close>

subsection \<open>Words of a hash\<close>

definition lt_word :: "bytes \<Rightarrow> nat \<Rightarrow> 16 word" where
  "lt_word bs i = of_nat (unat (bs ! (2 * i)) + 256 * unat (bs ! (2 * i + 1)))"

definition word_bytes :: "16 word \<Rightarrow> bytes" where
  "word_bytes w = [to_u8 (unat w), to_u8 (unat w div 256)]"

lemma point_at_eq: "point_at bs offset = int (unat (bs ! offset) + 256 * unat (bs ! (offset + 1)))"
  using or_shift_nat [of "unat (bs ! offset)" 8 "unat (bs ! (offset + 1))"]
  by (simp add: point_at_def or.commute mult.commute)

lemma of_int_point_at: "(of_int (point_at bs (2 * i)) :: 16 word) = lt_word bs i"
  by (simp add: point_at_eq lt_word_def)

lemma int_and_255: "(v :: int) AND 255 = v mod 256"
  using take_bit_eq_mask [of 8 v] by (simp add: take_bit_eq_mod mask_eq_exp_minus_1)

lemma unat_of_int_byte: "unat (of_int v :: byte) = nat (v mod 256)"
proof -
  have "uint (of_int v :: byte) = v mod 256" by (simp add: unsigned_of_int take_bit_eq_mod)
  then have "nat (uint (of_int v :: byte)) = nat (v mod 256)" by (rule arg_cong)
  then show ?thesis by simp
qed

lemma unat_low_byte: "unat (low_byte v) = nat (v mod 256)"
  by (simp add: low_byte_def int_and_255 unat_of_int_byte)

lemma unat_high_byte: "unat (high_byte v) = nat (v div 256 mod 256)"
proof -
  have "v mod (256 * 16777216) = 256 * (v div 256 mod 16777216) + v mod 256"
    by (rule zmod_zmult2_eq) simp
  then have "v mod 4294967296 div 256 = (v mod 256 + 256 * (v div 256 mod 16777216)) div 256"
    by (simp add: add.commute)
  also have "\<dots> = v div 256 mod 16777216"
    by (subst div_mult_self2) simp_all
  finally have "v mod 4294967296 div 256 mod 256 = v div 256 mod 16777216 mod 256" by (rule arg_cong)
  also have "\<dots> = v div 256 mod 256" by (rule mod_mod_cancel) simp
  finally show ?thesis
    by (simp add: high_byte_def int_and_255 unat_of_int_byte drop_bit_eq_div take_bit_eq_mod)
qed

lemma low_high_byte:
  "(of_nat (unat (low_byte v) + 256 * unat (high_byte v)) :: 16 word) = of_int v"
proof -
  have "int (unat (low_byte v) + 256 * unat (high_byte v)) = v mod 65536"
    using zmod_zmult2_eq [of 256 v 256] by (simp add: unat_low_byte unat_high_byte)
  then have "(of_int (int (unat (low_byte v) + 256 * unat (high_byte v))) :: 16 word) = of_int (v mod 65536)"
    by (rule arg_cong)
  also have "\<dots> = of_int v"
    by (rule word_of_int_eq_iff [THEN iffD2]) (simp add: take_bit_eq_mod)
  finally show ?thesis by simp
qed

text \<open>Two hashes of the same length with the same words are equal.\<close>

lemma unat_of_nat_16: "n < 65536 \<Longrightarrow> unat (of_nat n :: 16 word) = n"
  by (simp add: unat_of_nat take_bit_nat_eq_self)

lemma lt_word_bytes:
  "bs ! (2 * i) = of_nat (unat (lt_word bs i))" "bs ! (2 * i + 1) = of_nat (unat (lt_word bs i) div 256)"
proof -
  let ?l = "unat (bs ! (2 * i))" and ?h = "unat (bs ! (2 * i + 1))"
  have "?l < 256" "?h < 256" by simp_all
  then have "?l + 256 * ?h < 65536" by linarith
  then have w: "unat (lt_word bs i) = ?l + 256 * ?h"
    unfolding lt_word_def by (rule unat_of_nat_16)
  have "(of_nat (?l + 256 * ?h) :: byte) = of_nat ?l + of_nat 256 * of_nat ?h" by simp
  also have "(of_nat 256 :: byte) = 0" by simp
  finally show "bs ! (2 * i) = of_nat (unat (lt_word bs i))" unfolding w by simp
  have "(?l + 256 * ?h) div 256 = ?h" using \<open>?l < 256\<close> by simp
  then show "bs ! (2 * i + 1) = of_nat (unat (lt_word bs i) div 256)" unfolding w by simp
qed

lemma lt_words_inject:
  assumes "length a = 2 * n" "length b = 2 * n" "\<And>i. i < n \<Longrightarrow> lt_word a i = lt_word b i"
  shows "a = b"
proof (rule nth_equalityI)
  fix k assume "k < length a"
  then have w: "lt_word a (k div 2) = lt_word b (k div 2)" using assms by (intro assms(3)) simp
  show "a ! k = b ! k"
  proof (cases "even k")
    case True
    then have "2 * (k div 2) = k" by simp
    with lt_word_bytes(1) [of a "k div 2"] lt_word_bytes(1) [of b "k div 2"] w show ?thesis by simp
  next
    case False
    then have "2 * (k div 2) + 1 = k" by simp
    with lt_word_bytes(2) [of a "k div 2"] lt_word_bytes(2) [of b "k div 2"] w show ?thesis by simp
  qed
qed (use assms in simp)

subsection \<open>The loop\<close>

lemma length_pointwise_loop [simp]: "length (pointwise_loop c left right offset out) = length out"
  by (induction c left right offset out rule: pointwise_loop.induct)
    (subst pointwise_loop.simps, simp add: Let_def)

text \<open>Reading the words from the buffer that is written gives the same as reading from a copy.\<close>

lemma pointwise_loop_alias:
  assumes "length b = length out" "\<And>k. offset \<le> k \<Longrightarrow> k < length out \<Longrightarrow> b ! k = out ! k" "even (length out)" "even offset"
  shows "pointwise_loop c None right offset out = pointwise_loop c (Some b) right offset out"
  using assms
proof (induction c "Some b" right offset out rule: pointwise_loop.induct)
  case (1 c right offset out)
  show ?case
  proof (cases "offset < length out")
    case True
    with 1(4,5) have less: "offset + 1 < length out" by (metis Suc_eq_plus1 Suc_lessI even_Suc)
    with True 1(3) [of offset] 1(3) [of "offset + 1"] have "point_at b offset = point_at out offset"
      by (simp add: point_at_def)
    moreover have "pointwise_loop c None right (offset + 2) out' = pointwise_loop c (Some b) right (offset + 2) out'"
      if "out' = out[offset := low_byte v, offset + 1 := high_byte v]" "v = c (point_at b offset) (point_at right offset)"
      for out' v
      using 1(1) [of v] True 1(2-5) that by (simp add: left_view_def APP_STATE_POINT_SIZE_def)
    ultimately show ?thesis
      using True 1(2) by (subst (1 2) pointwise_loop.simps) (simp add: left_view_def Let_def APP_STATE_POINT_SIZE_def)
  next
    case False
    then show ?thesis using 1(2) by (subst (1 2) pointwise_loop.simps) (simp add: left_view_def)
  qed
qed

lemma lt_word_update_other:
  "j \<noteq> i \<Longrightarrow> lt_word (out[2 * i := x, 2 * i + 1 := y]) j = lt_word out j"
proof -
  assume "j \<noteq> i"
  then have "2 * j \<noteq> 2 * i" "2 * j \<noteq> 2 * i + 1" "2 * j + 1 \<noteq> 2 * i" "2 * j + 1 \<noteq> 2 * i + 1" by presburger+
  then show ?thesis by (simp add: lt_word_def)
qed

lemma pointwise_loop_words:
  assumes "length b = 2 * n" "length out = 2 * n" "j < n"
  shows "lt_word (pointwise_loop c (Some b) right (2 * i) out) j =
    (if i \<le> j then of_int (c (point_at b (2 * j)) (point_at right (2 * j))) else lt_word out j)"
  using assms
proof (induction "n - i" arbitrary: i out)
  case 0
  then show ?case by (subst pointwise_loop.simps) (simp add: left_view_def)
next
  case (Suc m)
  let ?v = "c (point_at b (2 * i)) (point_at right (2 * i))"
  let ?out = "out[2 * i := low_byte ?v, 2 * i + 1 := high_byte ?v]"
  have less: "2 * i < length b" "2 * i + 1 < length out" using Suc by linarith+
  have step: "pointwise_loop c (Some b) right (2 * i) out = pointwise_loop c (Some b) right (2 * Suc i) ?out"
    using less by (subst pointwise_loop.simps) (simp add: left_view_def Let_def APP_STATE_POINT_SIZE_def)
  have at: "lt_word ?out i = of_int ?v"
    using less low_high_byte [of ?v] by (simp add: lt_word_def)
  have "lt_word (pointwise_loop c (Some b) right (2 * Suc i) ?out) j =
    (if Suc i \<le> j then of_int (c (point_at b (2 * j)) (point_at right (2 * j))) else lt_word ?out j)"
    using Suc by (intro Suc(1)) simp_all
  then show ?case
    unfolding step using at lt_word_update_other [of j i out] by (cases "j = i") auto
qed

subsection \<open>Adding and subtracting\<close>

lemma length_expand_mac [simp]: "crypto_laws C \<Longrightarrow> length (expand_mac C v) = 128"
  using crypto_lawsD(3) [of C] by (simp add: expand_mac_def hkdf_def APP_STATE_EMPTY_LT_HASH_def APP_STATE_LT_HASH_SIZE_def)

lemma pointwise_words:
  assumes "length (left_view left out) = 128" "length right = 128" "length out = 128"
    and hom: "\<And>a b. (of_int (c a b) :: 16 word) = f (of_int a) (of_int b)"
  obtains res where "pointwiseWithOverflow left right c out = Inr res" "length res = 128"
    "\<And>j. j < 64 \<Longrightarrow> lt_word res j = f (lt_word (left_view left out) j) (lt_word right j)"
proof -
  let ?b = "left_view left out"
  have run: "pointwise_loop c left right 0 out = pointwise_loop c (Some ?b) right 0 out"
    using pointwise_loop_alias [of out out 0 c right] assms(3) by (cases left) (simp_all add: left_view_def)
  have "lt_word (pointwise_loop c (Some ?b) right (2 * 0) out) j = f (lt_word ?b j) (lt_word right j)" if "j < 64" for j
    using pointwise_loop_words [where b = ?b and n = 64 and out = out and j = j and c = c and right = right and i = 0]
      assms(1,3) that
    by (simp add: hom of_int_point_at)
  then show thesis
    using assms(1-3) run by (intro that [of "pointwise_loop c (Some ?b) right 0 out"])
      (simp_all add: pointwiseWithOverflow_def APP_STATE_POINT_SIZE_def)
qed

lemma lt_rest_words:
  assumes "length out = 128" "\<forall>v\<in>set vs. length v = 128"
    and hom: "\<And>a b. (of_int (c a b) :: 16 word) = f (of_int a) (of_int b)"
  shows "\<exists>res. lt_rest c vs out = Inr res \<and> length res = 128 \<and>
    (\<forall>j<64. lt_word res j = foldl (\<lambda>w v. f w (lt_word v j)) (lt_word out j) vs)"
  using assms(1,2)
proof (induction vs arbitrary: out)
  case (Cons v vs)
  obtain res where res: "pointwiseWithOverflow None v c out = Inr res" "length res = 128"
      "\<And>j. j < 64 \<Longrightarrow> lt_word res j = f (lt_word out j) (lt_word v j)"
    using pointwise_words [of None out v c f] Cons.prems hom by (auto simp: left_view_def)
  have "\<exists>out'. lt_rest c vs res = Inr out' \<and> length out' = 128 \<and>
    (\<forall>j<64. lt_word out' j = foldl (\<lambda>w v. f w (lt_word v j)) (lt_word res j) vs)"
    using Cons.IH [OF res(2)] Cons.prems(2) by simp
  then show ?case using res by auto
qed simp

lemma ltHashApply_words:
  assumes "crypto_laws C" "length base = 128"
    and hom: "\<And>a b. (of_int (c a b) :: 16 word) = f (of_int a) (of_int b)"
  shows "\<exists>res. ltHashApply C base vs c = Inr res \<and> length res = 128 \<and>
    (\<forall>j<64. lt_word res j = foldl (\<lambda>w v. f w (lt_word (expand_mac C v) j)) (lt_word base j) vs)"
proof (cases vs)
  case Nil
  then show ?thesis using assms(2) by (simp add: ltHashApply_def)
next
  case (Cons v rest)
  obtain out where out: "pointwiseWithOverflow (Some base) (expand_mac C v) c (replicate 128 0) = Inr out"
      "length out = 128" "\<And>j. j < 64 \<Longrightarrow> lt_word out j = f (lt_word base j) (lt_word (expand_mac C v) j)"
    using pointwise_words [of "Some base" "replicate 128 0" "expand_mac C v" c f] assms by (auto simp: left_view_def)
  have "\<exists>res. lt_rest c (map (expand_mac C) rest) out = Inr res \<and> length res = 128 \<and>
    (\<forall>j<64. lt_word res j = foldl (\<lambda>w v. f w (lt_word v j)) (lt_word out j) (map (expand_mac C) rest))"
    by (rule lt_rest_words) (use out(2) assms in auto)
  with out show ?thesis using assms(2) by (auto simp: ltHashApply_def Cons foldl_map)
qed

lemma foldl_plus: "foldl (\<lambda>w v. w + g v) w vs = w + sum_list (map g vs)" for w :: "'b :: ab_group_add"
  by (induction vs arbitrary: w) (auto simp: algebra_simps)

lemma foldl_minus: "foldl (\<lambda>w v. w - g v) w vs = w - sum_list (map g vs)" for w :: "'b :: ab_group_add"
  by (induction vs arbitrary: w) (auto simp: algebra_simps)

text \<open>The hash of a multiset of value MACs.\<close>

definition mac_word :: "crypto \<Rightarrow> nat \<Rightarrow> bytes \<Rightarrow> 16 word" where
  "mac_word C j v = lt_word (expand_mac C v) j"

definition lt_hash :: "crypto \<Rightarrow> bytes multiset \<Rightarrow> bytes" where
  "lt_hash C M = concat (map (\<lambda>j. word_bytes (\<Sum>v\<in>#M. mac_word C j v)) [0..<64])"

lemma concat_pairs:
  "length (concat (map (\<lambda>j. word_bytes (g j)) [0..<n])) = 2 * n"
  "j < n \<Longrightarrow> lt_word (concat (map (\<lambda>j. word_bytes (g j)) [0..<n])) j = g j"
proof -
  have len: "length (concat (map (\<lambda>j. word_bytes (g j)) [0..<n])) = 2 * n" for n
    by (induction n) (simp_all add: word_bytes_def)
  then show "length (concat (map (\<lambda>j. word_bytes (g j)) [0..<n])) = 2 * n" .
  have self: "lt_word (word_bytes w) 0 = w" for w
  proof -
    have u: "unat w < 65536" using unsigned_less [of w, where ?'a = nat] by simp
    then have "unat w div 256 < 256" by simp
    then have "unat (word_bytes w ! (2 * 0)) + 256 * unat (word_bytes w ! (2 * 0 + 1)) = unat w"
      by (simp add: word_bytes_def)
    then have "lt_word (word_bytes w) 0 = of_nat (unat w)" unfolding lt_word_def by (rule arg_cong)
    then show ?thesis by simp
  qed
  show "lt_word (concat (map (\<lambda>j. word_bytes (g j)) [0..<n])) j = g j" if "j < n"
    using that
  proof (induction n)
    case (Suc n)
    let ?p = "concat (map (\<lambda>j. word_bytes (g j)) [0..<n])"
    have "lt_word (?p @ word_bytes (g n)) n = lt_word (word_bytes (g n)) 0"
      using len [of n] by (simp add: lt_word_def nth_append)
    moreover have "lt_word (?p @ word_bytes (g n)) j = lt_word ?p j" if "j < n"
      using len [of n] that by (simp add: lt_word_def nth_append)
    ultimately show ?case using Suc self by (cases "j = n") auto
  qed simp
qed

lemma lt_hash_words: "length (lt_hash C M) = 128" "j < 64 \<Longrightarrow> lt_word (lt_hash C M) j = (\<Sum>v\<in>#M. mac_word C j v)"
  using concat_pairs(1) [of "\<lambda>j. \<Sum>v\<in>#M. mac_word C j v" 64] concat_pairs(2) [of j 64 "\<lambda>j. \<Sum>v\<in>#M. mac_word C j v"]
  by (simp_all add: lt_hash_def)

lemma lt_hash_unique:
  assumes "length h = 128" "\<And>j. j < 64 \<Longrightarrow> lt_word h j = (\<Sum>v\<in>#M. mac_word C j v)"
  shows "h = lt_hash C M"
  by (rule lt_words_inject [of _ 64]) (use assms lt_hash_words in auto)

lemma lt_hash_empty: "APP_STATE_EMPTY_LT_HASH = lt_hash C {#}"
  by (rule lt_hash_unique) (simp_all add: APP_STATE_EMPTY_LT_HASH_def APP_STATE_LT_HASH_SIZE_def lt_word_def)

lemma sum_mset_list: "(\<Sum>v\<in>#mset vs. g v) = sum_list (map g vs)"
  by (simp add: sum_mset_sum_list [symmetric] flip: mset_map)

lemma ltHashAdd_eq:
  assumes "crypto_laws C"
  shows "ltHashAdd C (lt_hash C M) vs = Inr (lt_hash C (M + mset vs))"
proof -
  obtain res where res: "ltHashAdd C (lt_hash C M) vs = Inr res" "length res = 128"
    "\<forall>j<64. lt_word res j = foldl (\<lambda>w v. w + lt_word (expand_mac C v) j) (lt_word (lt_hash C M) j) vs"
    using ltHashApply_words [OF assms lt_hash_words(1) [of C M], of "\<lambda>a b. a + b" "(+)" vs] unfolding ltHashAdd_def by auto
  have "res = lt_hash C (M + mset vs)"
    by (rule lt_hash_unique [OF res(2)])
      (use res(3) in \<open>simp add: foldl_plus lt_hash_words sum_mset_list mac_word_def [symmetric]\<close>)
  with res show ?thesis by simp
qed

lemma ltHashSubtract_eq:
  assumes "crypto_laws C"
  shows "\<exists>res. ltHashSubtract C (lt_hash C M) vs = Inr res \<and> length res = 128 \<and>
    (\<forall>j<64. lt_word res j = (\<Sum>v\<in>#M. mac_word C j v) - (\<Sum>v\<in>#mset vs. mac_word C j v))"
proof -
  obtain res where res: "ltHashSubtract C (lt_hash C M) vs = Inr res" "length res = 128"
    "\<forall>j<64. lt_word res j = foldl (\<lambda>w v. w - lt_word (expand_mac C v) j) (lt_word (lt_hash C M) j) vs"
    using ltHashApply_words [OF assms lt_hash_words(1) [of C M], of "\<lambda>a b. a - b" "(-)" vs] unfolding ltHashSubtract_def by auto
  then show ?thesis
    by (intro exI [of _ res]) (simp add: foldl_minus lt_hash_words sum_mset_list mac_word_def [symmetric])
qed

text \<open>
  The removed MACs may be among the added ones, as when one patch writes an index twice; the
  hash in between is then not one of a multiset, the final one is.
\<close>

lemma ltHashSubtractThenAdd_eq:
  assumes "crypto_laws C" "mset rem \<subseteq># M + mset add"
  obtains sub where
    "ltHashSubtractThenAdd C (lt_hash C M) add rem = Inr (lt_hash C (M + mset add - mset rem), sub)"
proof -
  obtain sub where sub: "ltHashSubtract C (lt_hash C M) rem = Inr sub" "length sub = 128"
    "\<forall>j<64. lt_word sub j = (\<Sum>v\<in>#M. mac_word C j v) - (\<Sum>v\<in>#mset rem. mac_word C j v)"
    using ltHashSubtract_eq [OF assms(1)] by blast
  obtain res where res: "ltHashAdd C sub add = Inr res" "length res = 128"
    "\<forall>j<64. lt_word res j = foldl (\<lambda>w v. w + lt_word (expand_mac C v) j) (lt_word sub j) add"
    using ltHashApply_words [OF assms(1) sub(2), of "\<lambda>a b. a + b" "(+)"] unfolding ltHashAdd_def by auto
  have "res = lt_hash C (M + mset add - mset rem)"
  proof (rule lt_hash_unique [OF res(2)])
    fix j :: nat assume "j < 64"
    have split: "M + mset add = mset rem + (M + mset add - mset rem)" using assms(2) by simp
    have "(\<Sum>v\<in>#M + mset add. mac_word C j v) =
        (\<Sum>v\<in>#mset rem. mac_word C j v) + (\<Sum>v\<in>#M + mset add - mset rem. mac_word C j v)"
      by (subst split) (simp only: image_mset_union sum_mset.union)
    then have "(\<Sum>v\<in>#mset rem. mac_word C j v) + lt_word res j =
        (\<Sum>v\<in>#mset rem. mac_word C j v) + (\<Sum>v\<in>#M + mset add - mset rem. mac_word C j v)"
      using res(3) sub(3) \<open>j < 64\<close>
      by (simp add: foldl_plus sum_mset_list mac_word_def [symmetric] algebra_simps)
    then show "lt_word res j = (\<Sum>v\<in>#M + mset add - mset rem. mac_word C j v)" by (rule add_left_imp_eq)
  qed
  with sub(1) res(1) show thesis by (intro that [of sub]) (simp add: ltHashSubtractThenAdd_def)
qed

text \<open>
  The LT hash of a list of value MACs does not depend on their order, and adding and then
  removing MACs, in any order, gives back the hash.
\<close>

theorem lt_hash_order_free:
  assumes "crypto_laws C" "mset vs = mset ws" "mset rem \<subseteq># mset vs"
  shows "ltHashAdd C APP_STATE_EMPTY_LT_HASH vs = ltHashAdd C APP_STATE_EMPTY_LT_HASH ws \<and>
    rbind (ltHashAdd C APP_STATE_EMPTY_LT_HASH vs) (\<lambda>h. map_sum id fst (ltHashSubtractThenAdd C h rem rem)) =
      ltHashAdd C APP_STATE_EMPTY_LT_HASH ws"
proof -
  have "ltHashAdd C APP_STATE_EMPTY_LT_HASH xs = Inr (lt_hash C (mset xs))" for xs
    using ltHashAdd_eq [OF assms(1), of "{#}" xs] unfolding lt_hash_empty [of C] by simp
  moreover obtain sub where
    "ltHashSubtractThenAdd C (lt_hash C (mset ws)) rem rem = Inr (lt_hash C (mset ws + mset rem - mset rem), sub)"
    using ltHashSubtractThenAdd_eq [OF assms(1), of rem "mset ws" rem] assms by auto
  ultimately show ?thesis using assms(2) by simp
qed

theorem lt_hash_order_free_witness:
  "ltHashAdd sample_crypto APP_STATE_EMPTY_LT_HASH [[1, 2], [3]] = ltHashAdd sample_crypto APP_STATE_EMPTY_LT_HASH [[3], [1, 2]] \<and>
    rbind (ltHashAdd sample_crypto APP_STATE_EMPTY_LT_HASH [[1, 2], [3]])
      (\<lambda>h. map_sum id fst (ltHashSubtractThenAdd sample_crypto h [[3]] [[3]])) =
      ltHashAdd sample_crypto APP_STATE_EMPTY_LT_HASH [[3], [1, 2]]"
  by (rule lt_hash_order_free [OF sample_crypto_laws]) simp_all

end
