(* ===== verification/AppStateStore.thy ===== *)
theory AppStateStore
  imports AppStateHash SenderKeyStore
begin

text \<open>
  \<open>src/appstate/utils.ts\<close>, the data of \<open>src/appstate/types.ts\<close> and
  \<open>src/store/memory/appstate.store.ts\<close>: the collections, the choice of the active sync key and
  the in-memory store of sync keys and collection states.  A plain object of exported data is the list
  of its entries.
\<close>

subsection \<open>Data\<close>

datatype collection_name =
  AppRegular | AppRegularLow | AppRegularHigh | AppCriticalBlock | AppCriticalUnblockLow

fun collection_value :: "collection_name \<Rightarrow> jstr" where
  "collection_value AppRegular = js ''regular''"
| "collection_value AppRegularLow = js ''regular_low''"
| "collection_value AppRegularHigh = js ''regular_high''"
| "collection_value AppCriticalBlock = js ''critical_block''"
| "collection_value AppCriticalUnblockLow = js ''critical_unblock_low''"

definition all_collections :: "collection_name list" where
  "all_collections = [AppRegular, AppRegularLow, AppRegularHigh, AppCriticalBlock, AppCriticalUnblockLow]"

definition APP_STATE_DEFAULT_COLLECTIONS :: "collection_name list" where
  "APP_STATE_DEFAULT_COLLECTIONS =
    [AppCriticalUnblockLow, AppCriticalBlock, AppRegularLow, AppRegular, AppRegularHigh]"

definition parseCollectionName :: "jstr option \<Rightarrow> collection_name option" where
  "parseCollectionName v =
    (case v of
       None \<Rightarrow> None
     | Some s \<Rightarrow> if s = [] then None else find (\<lambda>c. collection_value c = s) all_collections)"

record fingerprint =
  fp_rawId :: "int option"
  fp_currentIndex :: "int option"
  fp_deviceIndexes :: "int list"

record sync_key =
  ask_keyId :: bytes
  ask_keyData :: bytes
  ask_timestamp :: int
  ask_fingerprint :: "fingerprint option"

record collection_state =
  cs_initialized :: bool
  cs_version :: int
  cs_hash :: bytes
  cs_indexValueMap :: "(jstr, bytes) jsmap"

subsection \<open>The active sync key\<close>

definition keyDeviceId :: "bytes \<Rightarrow> nat option" where
  "keyDeviceId keyId =
    (if length keyId < 6 then None else Some (push_bit 8 (unat (keyId ! 0)) OR unat (keyId ! 1)))"

definition keyEpoch :: "bytes \<Rightarrow> int" where
  "keyEpoch keyId =
    (if length keyId < 6 then - 1
     else int (unat (keyId ! 2) * 16777216 + unat (keyId ! 3) * 65536 + unat (keyId ! 4) * 256 + unat (keyId ! 5)))"

text \<open>Whether \<open>key\<close> replaces the key that was active so far.\<close>

definition replaces_active :: "sync_key \<Rightarrow> sync_key \<Rightarrow> bool" where
  "replaces_active key active =
    (let currentEpoch = keyEpoch (ask_keyId active); nextEpoch = keyEpoch (ask_keyId key) in
     if currentEpoch < nextEpoch then True
     else if nextEpoch < currentEpoch then False
     else case keyDeviceId (ask_keyId key) of
       None \<Rightarrow> False
     | Some nextDeviceId \<Rightarrow>
         (case keyDeviceId (ask_keyId active) of
            None \<Rightarrow> False
          | Some currentDeviceId \<Rightarrow> nextDeviceId < currentDeviceId))"

fun active_loop :: "sync_key option \<Rightarrow> sync_key list \<Rightarrow> sync_key option" where
  "active_loop active [] = active"
| "active_loop active (key # keys) =
    active_loop (case active of None \<Rightarrow> Some key
      | Some a \<Rightarrow> if replaces_active key a then Some key else Some a) keys"

definition pickActiveSyncKey :: "sync_key list \<Rightarrow> sync_key option" where
  "pickActiveSyncKey keys = active_loop None keys"

subsection \<open>The store\<close>

record app_state_store =
  as_keys :: "(jstr, sync_key) jsmap"
  as_collections :: "(collection_name, collection_state) jsmap"
  as_maxSyncKeys :: nat
  as_maxCollectionEntries :: nat

record app_state_data =
  data_keys :: "sync_key list"
  data_collections :: "(collection_name \<times> (int \<times> bytes \<times> (jstr \<times> bytes) list)) list"

definition DEFAULT_SYNC_KEYS_LIMIT :: int where "DEFAULT_SYNC_KEYS_LIMIT = 4096"
definition DEFAULT_COLLECTION_ENTRIES_LIMIT :: int where "DEFAULT_COLLECTION_ENTRIES_LIMIT = 50000"

text \<open>Copying a map entry by entry into a bounded one.\<close>

definition bounded_copy :: "nat \<Rightarrow> ('k \<times> 'v) list \<Rightarrow> ('k, 'v) jsmap" where
  "bounded_copy n entries = foldl (\<lambda>m (k, v). fst (setBoundedMapEntry k v n m)) [] entries"

definition load_data :: "nat \<Rightarrow> nat \<Rightarrow> app_state_data \<Rightarrow> app_state_store" where
  "load_data maxKeys maxEntries d =
    \<lparr>as_keys = bounded_copy maxKeys (map (\<lambda>k. (bytesToHex (ask_keyId k), k)) (data_keys d)),
     as_collections = foldl (\<lambda>m (name, version, hash, entries).
       map_set name \<lparr>cs_initialized = True, cs_version = version, cs_hash = hash,
         cs_indexValueMap = bounded_copy maxEntries entries\<rparr> m) [] (data_collections d),
     as_maxSyncKeys = maxKeys, as_maxCollectionEntries = maxEntries\<rparr>"

definition new_app_state_store ::
    "app_state_data option \<Rightarrow> int option \<Rightarrow> int option \<Rightarrow> store_error + app_state_store" where
  "new_app_state_store initial maxSyncKeys maxCollectionEntries =
    rbind (resolvePositive maxSyncKeys DEFAULT_SYNC_KEYS_LIMIT) (\<lambda>mk.
    rbind (resolvePositive maxCollectionEntries DEFAULT_COLLECTION_ENTRIES_LIMIT) (\<lambda>me.
      Inr (case initial of
        None \<Rightarrow> \<lparr>as_keys = [], as_collections = [], as_maxSyncKeys = nat mk, as_maxCollectionEntries = nat me\<rparr>
      | Some d \<Rightarrow> load_data (nat mk) (nat me) d)))"

definition exportData :: "app_state_store \<Rightarrow> app_state_data" where
  "exportData s =
    \<lparr>data_keys = map snd (as_keys s),
     data_collections = map (\<lambda>(name, cs). (name, cs_version cs, cs_hash cs, cs_indexValueMap cs)) (as_collections s)\<rparr>"

fun upsertSyncKeys :: "sync_key list \<Rightarrow> nat \<Rightarrow> app_state_store \<Rightarrow> nat \<times> app_state_store" where
  "upsertSyncKeys [] inserted s = (inserted, s)"
| "upsertSyncKeys (key # keys) inserted s =
    (let keyHex = bytesToHex (ask_keyId key) in
     if (case map_get (as_keys s) keyHex of None \<Rightarrow> False
       | Some existing \<Rightarrow> uint8Equal (ask_keyData existing) (ask_keyData key))
     then upsertSyncKeys keys inserted s
     else upsertSyncKeys keys (inserted + 1)
       (s\<lparr>as_keys := fst (setBoundedMapEntry keyHex key (as_maxSyncKeys s) (as_keys s))\<rparr>))"

definition getSyncKeysBatch :: "bytes list \<Rightarrow> app_state_store \<Rightarrow> sync_key option list" where
  "getSyncKeysBatch keyIds s = map (\<lambda>keyId. map_get (as_keys s) (bytesToHex keyId)) keyIds"

definition getSyncKeyData :: "bytes \<Rightarrow> app_state_store \<Rightarrow> bytes option" where
  "getSyncKeyData keyId s = map_option ask_keyData (map_get (as_keys s) (bytesToHex keyId))"

definition getSyncKeyDataBatch :: "bytes list \<Rightarrow> app_state_store \<Rightarrow> bytes option list" where
  "getSyncKeyDataBatch keyIds s = map (\<lambda>keyId. getSyncKeyData keyId s) keyIds"

definition getActiveSyncKey :: "app_state_store \<Rightarrow> sync_key option" where
  "getActiveSyncKey s = pickActiveSyncKey (map snd (as_keys s))"

definition empty_collection :: collection_state where
  "empty_collection = \<lparr>cs_initialized = False, cs_version = 0, cs_hash = APP_STATE_EMPTY_LT_HASH,
    cs_indexValueMap = []\<rparr>"

text \<open>Reading the state of a collection the store does not have yet enters an empty one.\<close>

definition getCollectionState :: "collection_name \<Rightarrow> app_state_store \<Rightarrow> collection_state \<times> app_state_store" where
  "getCollectionState name s =
    (case map_get (as_collections s) name of
       Some cs \<Rightarrow> (cs, s)
     | None \<Rightarrow> (empty_collection, s\<lparr>as_collections := map_set name empty_collection (as_collections s)\<rparr>))"

fun getCollectionStates :: "collection_name list \<Rightarrow> app_state_store \<Rightarrow> collection_state list \<times> app_state_store" where
  "getCollectionStates [] s = ([], s)"
| "getCollectionStates (name # names) s =
    (let (cs, s1) = getCollectionState name s; (rest, s2) = getCollectionStates names s1 in (cs # rest, s2))"

record state_update =
  up_collection :: collection_name
  up_version :: int
  up_hash :: bytes
  up_indexValueMap :: "(jstr, bytes) jsmap"

definition set_collection_state :: "app_state_store \<Rightarrow> state_update \<Rightarrow> app_state_store" where
  "set_collection_state s u =
    s\<lparr>as_collections := map_set (up_collection u)
       \<lparr>cs_initialized = True, cs_version = up_version u, cs_hash = up_hash u,
        cs_indexValueMap = bounded_copy (as_maxCollectionEntries s) (up_indexValueMap u)\<rparr> (as_collections s)\<rparr>"

definition setCollectionStates :: "state_update list \<Rightarrow> app_state_store \<Rightarrow> app_state_store" where
  "setCollectionStates updates s = foldl set_collection_state s updates"

definition clear_app_state :: "app_state_store \<Rightarrow> app_state_store" where
  "clear_app_state s = s\<lparr>as_keys := [], as_collections := []\<rparr>"

end
