(* ===== verification/NodeHelpers.thy ===== *)
theory NodeHelpers
  imports BinaryFormat ByteUtils Jid
begin

text \<open>
  \<open>src/transport/node/helpers.ts\<close> and \<open>query.ts\<close>: reading the children, attributes and contents of
  nodes, the ids of outgoing nodes, IQ envelopes, and the integer parsers of
  \<open>src/util/primitives.ts\<close> they go with.
\<close>

subsection \<open>Children\<close>

definition attr :: "node \<Rightarrow> jstr \<Rightarrow> jstr option" where
  "attr n name = map_of (attrs n) name"

definition getNodeChildren :: "node \<Rightarrow> node list" where
  "getNodeChildren n = (case content n of CNodes ns \<Rightarrow> ns | _ \<Rightarrow> [])"

fun first_with_tag :: "jstr \<Rightarrow> node list \<Rightarrow> node option" where
  "first_with_tag t [] = None"
| "first_with_tag t (n # ns) = (if tag n = t then Some n else first_with_tag t ns)"

definition findNodeChild :: "node \<Rightarrow> jstr \<Rightarrow> node option" where
  "findNodeChild n t = (case content n of CNodes ns \<Rightarrow> first_with_tag t ns | _ \<Rightarrow> None)"

definition getFirstNodeChild :: "node \<Rightarrow> node option" where
  "getFirstNodeChild n = (case getNodeChildren n of [] \<Rightarrow> None | c # _ \<Rightarrow> Some c)"

fun tagged_loop :: "jstr \<Rightarrow> node list \<Rightarrow> node list \<Rightarrow> node list" where
  "tagged_loop t [] tagged = tagged"
| "tagged_loop t (n # ns) tagged = tagged_loop t ns (if tag n \<noteq> t then tagged else tagged @ [n])"

definition getNodeChildrenByTag :: "node \<Rightarrow> jstr \<Rightarrow> node list" where
  "getNodeChildrenByTag n t = (case content n of CNodes ns \<Rightarrow> tagged_loop t ns [] | _ \<Rightarrow> [])"

fun nested_loop :: "jstr \<Rightarrow> node list \<Rightarrow> node list \<Rightarrow> node list" where
  "nested_loop t [] tagged = tagged"
| "nested_loop t (n # ns) tagged =
    nested_loop t ns (case content n of CNodes nested \<Rightarrow> tagged_loop t nested tagged | _ \<Rightarrow> tagged)"

definition getNodeChildrenByTagFromChildren :: "node \<Rightarrow> jstr \<Rightarrow> node list" where
  "getNodeChildrenByTagFromChildren n t = (case content n of CNodes ns \<Rightarrow> nested_loop t ns [] | _ \<Rightarrow> [])"

definition getNodeChildrenTags :: "node \<Rightarrow> jstr list" where
  "getNodeChildrenTags n = (case content n of CNodes ns \<Rightarrow> map tag ns | _ \<Rightarrow> [])"

fun attr_values_loop :: "jstr \<Rightarrow> jstr \<Rightarrow> node list \<Rightarrow> jstr list \<Rightarrow> jstr list" where
  "attr_values_loop t a [] values = values"
| "attr_values_loop t a (c # cs) values =
    (if tag c \<noteq> t then attr_values_loop t a cs values
     else case attr c a of
       None \<Rightarrow> attr_values_loop t a cs values
     | Some v \<Rightarrow> if v = [] then attr_values_loop t a cs values else attr_values_loop t a cs (values @ [v]))"

definition getNodeChildrenNonEmptyAttrValuesByTag :: "node \<Rightarrow> jstr \<Rightarrow> jstr \<Rightarrow> jstr list" where
  "getNodeChildrenNonEmptyAttrValuesByTag n t a = attr_values_loop t a (getNodeChildren n) []"

definition findNodeChildrenByTags :: "node \<Rightarrow> jstr list \<Rightarrow> node option list" where
  "findNodeChildrenByTags n tags = map (findNodeChild n) tags"

definition hasNodeChild :: "node \<Rightarrow> jstr \<Rightarrow> bool" where
  "hasNodeChild n t = (findNodeChild n t \<noteq> None)"

subsection \<open>Contents\<close>

datatype node_error =
    NoBinaryContent
  | MissingBinaryContent
  | BadBase64Content bytes_error
  | NonIqNode jstr
  | IqFailed jstr jstr

definition decodeNodeContentUtf8OrBytes :: "node content \<Rightarrow> node_error + bytes" where
  "decodeNodeContentUtf8OrBytes value =
    (case value of
       CBytes b \<Rightarrow> Inr b
     | CString s \<Rightarrow> Inr (text_encode s)
     | _ \<Rightarrow> Inl NoBinaryContent)"

text \<open>The first child whose content cannot be decoded stops the loop with an error.\<close>

fun utf8_values_loop :: "jstr \<Rightarrow> node list \<Rightarrow> jstr list \<Rightarrow> node_error + jstr list" where
  "utf8_values_loop t [] values = Inr values"
| "utf8_values_loop t (c # cs) values =
    (if tag c \<noteq> t then utf8_values_loop t cs values
     else if content c = NoContent then utf8_values_loop t cs values
     else if content c = CBytes [] then utf8_values_loop t cs values
     else rbind (decodeNodeContentUtf8OrBytes (content c)) (\<lambda>bytes.
       let v = text_decode bytes in
       if length v = 0 then utf8_values_loop t cs values else utf8_values_loop t cs (values @ [v])))"

definition getNodeChildrenNonEmptyUtf8ByTag :: "node \<Rightarrow> jstr \<Rightarrow> node_error + jstr list" where
  "getNodeChildrenNonEmptyUtf8ByTag n t = utf8_values_loop t (getNodeChildren n) []"

definition getNodeTextContent :: "node option \<Rightarrow> jstr option" where
  "getNodeTextContent n =
    (case n of
       None \<Rightarrow> None
     | Some n \<Rightarrow> (case content n of CBytes b \<Rightarrow> Some (text_decode b) | CString s \<Rightarrow> Some s | _ \<Rightarrow> None))"

definition getNodeBytesContent :: "node option \<Rightarrow> bytes option" where
  "getNodeBytesContent n =
    (case n of
       None \<Rightarrow> None
     | Some n \<Rightarrow> (case content n of CBytes b \<Rightarrow> Some b | _ \<Rightarrow> None))"

definition decodeNodeContentBase64OrBytes :: "node content \<Rightarrow> node_error + bytes" where
  "decodeNodeContentBase64OrBytes value =
    (case value of
       NoContent \<Rightarrow> Inl MissingBinaryContent
     | CString s \<Rightarrow> (case base64ToBytesChecked s of Inl e \<Rightarrow> Inl (BadBase64Content e) | Inr b \<Rightarrow> Inr b)
     | CBytes b \<Rightarrow> Inr b
     | CNodes _ \<Rightarrow> Inl MissingBinaryContent)"

subsection \<open>Integers in attributes\<close>

text \<open>
  \<open>Number\<close> of a string of digits rounds a large value, but to one that is not safe either.
\<close>

definition parseStrictUnsignedInt :: "jstr \<Rightarrow> nat option" where
  "parseStrictUnsignedInt v =
    (if \<not> (v \<noteq> [] \<and> list_all is_digit_unit v) then None
     else let parsed = digits_val v in
       if MAX_SAFE_INTEGER < parsed then None else Some parsed)"

definition parseOptionalInt :: "jstr option \<Rightarrow> nat option" where
  "parseOptionalInt v =
    (case v of None \<Rightarrow> None | Some s \<Rightarrow> if s = [] then None else parseStrictUnsignedInt s)"

definition parseOptionalSignedInt :: "jstr option \<Rightarrow> int option" where
  "parseOptionalSignedInt v =
    (case v of
       None \<Rightarrow> None
     | Some s \<Rightarrow>
         (case s of
            [] \<Rightarrow> None
          | c # digits \<Rightarrow>
              if c = 45 then map_option (\<lambda>n. - int n) (parseStrictUnsignedInt digits)
              else map_option int (parseStrictUnsignedInt s)))"

subsection \<open>IQ envelopes\<close>

definition IQ_TAG :: jstr where "IQ_TAG = js ''iq''"
definition ERROR_TAG :: jstr where "ERROR_TAG = js ''error''"
definition IQ_RESULT :: jstr where "IQ_RESULT = js ''result''"
definition IQ_ERROR :: jstr where "IQ_ERROR = js ''error''"

definition assign_attrs :: "attrs \<Rightarrow> attrs \<Rightarrow> attrs" where
  "assign_attrs obj entries = foldl (\<lambda>acc (k, v). obj_set k v acc) obj entries"

definition buildIqNode :: "jstr \<Rightarrow> jstr \<Rightarrow> jstr \<Rightarrow> node content \<Rightarrow> attrs \<Rightarrow> node" where
  "buildIqNode type to xmlns children extra =
    Node IQ_TAG (assign_attrs (assign_attrs [] extra) [(js ''to'', to), (js ''type'', type), (js ''xmlns'', xmlns)])
      children"

record iq_error =
  iq_code :: jstr
  iq_text :: jstr
  iq_numericCode :: "int option"

text \<open>\<open>a ?? b\<close>.\<close>

definition nullish :: "'a option \<Rightarrow> 'a \<Rightarrow> 'a" where
  "nullish a b = (case a of Some v \<Rightarrow> v | None \<Rightarrow> b)"

definition parseIqError :: "node \<Rightarrow> iq_error" where
  "parseIqError n =
    (let errorNode = findNodeChild n ERROR_TAG;
         error_attr = (\<lambda>name. case errorNode of None \<Rightarrow> None | Some e \<Rightarrow> attr e name);
         unknown = js ''unknown'';
         code = nullish (error_attr (js ''code'')) (nullish (attr n (js ''type'')) unknown);
         text = nullish (error_attr (js ''text'')) (nullish (error_attr (js ''type'')) unknown)
     in \<lparr>iq_code = code, iq_text = text,
         iq_numericCode = (case parse_int code of
           Some c \<Rightarrow> if \<bar>c\<bar> \<le> int MAX_SAFE_INTEGER then Some c else None
         | None \<Rightarrow> None)\<rparr>)"

definition assertIqResult :: "node \<Rightarrow> node_error + unit" where
  "assertIqResult n =
    (if tag n \<noteq> IQ_TAG then Inl (NonIqNode (tag n))
     else if attr n (js ''type'') = Some IQ_RESULT then Inr ()
     else let e = parseIqError n in Inl (IqFailed (iq_code e) (iq_text e)))"

subsection \<open>Ids of outgoing nodes\<close>

definition formatNodeIdPrefixFromSeed :: "bytes \<Rightarrow> jstr" where
  "formatNodeIdPrefixFromSeed seed =
    (let left = push_bit 8 (unat (seed ! 0)) OR unat (seed ! 1);
         right = push_bit 8 (unat (seed ! 2)) OR unat (seed ! 3)
     in js_dec left @ js ''.'' @ js_dec right @ js ''-'')"

record id_generator =
  idg_prefix :: jstr
  idg_count :: nat

definition createNodeIdGenerator :: "bytes \<Rightarrow> id_generator" where
  "createNodeIdGenerator seed = \<lparr>idg_prefix = formatNodeIdPrefixFromSeed seed, idg_count = 0\<rparr>"

definition next_id :: "id_generator \<Rightarrow> jstr \<times> id_generator" where
  "next_id g =
    (let count = idg_count g + 1 in (idg_prefix g @ js_dec count, g\<lparr>idg_count := count\<rparr>))"

record mobile_id_generator =
  featureCounter :: nat
  systemCounter :: nat

definition createMobileNodeIdGenerator :: mobile_id_generator where
  "createMobileNodeIdGenerator = \<lparr>featureCounter = 0, systemCounter = 0\<rparr>"

fun js_hex :: "nat \<Rightarrow> jstr" where
  "js_hex n = (if n < 16 then [HEX_CHARS ! n] else js_hex (n div 16) @ [HEX_CHARS ! (n mod 16)])"

declare js_hex.simps [simp del]

definition next_feature :: "mobile_id_generator \<Rightarrow> jstr \<times> mobile_id_generator" where
  "next_feature g =
    (let id = js ''0'' @ js_hex (featureCounter g)
     in (id, g\<lparr>featureCounter := (featureCounter g + 1) AND 0xffff\<rparr>))"

definition nextSystem :: "mobile_id_generator \<Rightarrow> jstr \<times> mobile_id_generator" where
  "nextSystem g =
    (let n = (systemCounter g + 1) AND 0xffff in (js_hex n, g\<lparr>systemCounter := n\<rparr>))"

end
