(* ===== verification/StateResult.thy ===== *)
theory StateResult
  imports Prelude
begin

text \<open>
  Code that works on a state and may throw: a function from the state to a result and the state at
  that point.  An exception keeps what was written before it, as it does in the code.  \<open>ensures\<close>
  is the rule format of the invariant proofs: the invariant holds in every outcome, and a normal
  result satisfies \<open>Q\<close>.
\<close>

type_synonym ('s, 'e, 'a) stateful = "'s \<Rightarrow> ('e + 'a) \<times> 's"

definition sreturn :: "'a \<Rightarrow> ('s, 'e, 'a) stateful" where
  "sreturn a s = (Inr a, s)"

definition sthrow :: "'e \<Rightarrow> ('s, 'e, 'a) stateful" where
  "sthrow e s = (Inl e, s)"

definition slift :: "'e + 'a \<Rightarrow> ('s, 'e, 'a) stateful" where
  "slift r s = (r, s)"

definition sbind :: "('s, 'e, 'a) stateful \<Rightarrow> ('a \<Rightarrow> ('s, 'e, 'b) stateful) \<Rightarrow> ('s, 'e, 'b) stateful" where
  "sbind m f s = (case m s of (Inl e, s') \<Rightarrow> (Inl e, s') | (Inr a, s') \<Rightarrow> f a s')"

definition sget :: "('s, 'e, 's) stateful" where
  "sget s = (Inr s, s)"

definition smodify :: "('s \<Rightarrow> 's) \<Rightarrow> ('s, 'e, unit) stateful" where
  "smodify f s = (Inr (), f s)"

text \<open>A state function that does not throw.\<close>

definition srun :: "('s \<Rightarrow> 'a \<times> 's) \<Rightarrow> ('s, 'e, 'a) stateful" where
  "srun f s = (let (a, s') = f s in (Inr a, s'))"

fun smap :: "('a \<Rightarrow> ('s, 'e, 'b) stateful) \<Rightarrow> 'a list \<Rightarrow> ('s, 'e, 'b list) stateful" where
  "smap f [] = sreturn []"
| "smap f (a # as) = sbind (f a) (\<lambda>b. sbind (smap f as) (\<lambda>bs. sreturn (b # bs)))"

fun rmap :: "('a \<Rightarrow> 'e + 'b) \<Rightarrow> 'a list \<Rightarrow> 'e + 'b list" where
  "rmap f [] = Inr []"
| "rmap f (a # as) = rbind (f a) (\<lambda>b. rbind (rmap f as) (\<lambda>bs. Inr (b # bs)))"

lemmas stateful_defs = sreturn_def sthrow_def slift_def sget_def smodify_def srun_def

lemma sbind_cong [fundef_cong]:
  "m s = m' s' \<Longrightarrow> (\<And>a t. m s = (Inr a, t) \<Longrightarrow> f a t = f' a t) \<Longrightarrow> sbind m f s = sbind m' f' s'"
  by (cases "m' s'") (auto simp: sbind_def split: sum.split)

lemma sbind_Inr [simp]: "m s = (Inr a, t) \<Longrightarrow> sbind m f s = f a t"
  by (simp add: sbind_def)

lemma sbind_Inl [simp]: "m s = (Inl e, t) \<Longrightarrow> sbind m f s = (Inl e, t)"
  by (simp add: sbind_def)

lemma sbind_Inr_cases:
  assumes "sbind m f s = (Inr b, s')"
  obtains a t where "m s = (Inr a, t)" "f a t = (Inr b, s')"
  using assms by (auto simp: sbind_def split: prod.splits sum.splits)

lemma sbind_Inl_cases:
  assumes "sbind m f s = (Inl e, s')"
  obtains "m s = (Inl e, s')" | a t where "m s = (Inr a, t)" "f a t = (Inl e, s')"
  using assms by (auto simp: sbind_def split: prod.splits sum.splits)

subsection \<open>Invariants\<close>

definition ensures :: "('s \<Rightarrow> bool) \<Rightarrow> ('s, 'e, 'a) stateful \<Rightarrow> ('a \<Rightarrow> bool) \<Rightarrow> bool" where
  "ensures I m Q \<longleftrightarrow> (\<forall>s. I s \<longrightarrow> I (snd (m s)) \<and> (\<forall>a. fst (m s) = Inr a \<longrightarrow> Q a))"

lemma yieldsI:
  "(\<And>s. I s \<Longrightarrow> I (snd (m s))) \<Longrightarrow> (\<And>s a. I s \<Longrightarrow> fst (m s) = Inr a \<Longrightarrow> Q a) \<Longrightarrow> ensures I m Q"
  by (simp add: ensures_def)

lemma yieldsD:
  "ensures I m Q \<Longrightarrow> I s \<Longrightarrow> I (snd (m s))"
  "ensures I m Q \<Longrightarrow> I s \<Longrightarrow> fst (m s) = Inr a \<Longrightarrow> Q a"
  by (simp_all add: ensures_def)

lemma ensures_return [intro!]: "Q a \<Longrightarrow> ensures I (sreturn a) Q"
  by (simp add: ensures_def sreturn_def)

lemma ensures_throw [intro!]: "ensures I (sthrow e) Q"
  by (simp add: ensures_def sthrow_def)

lemma ensures_lift [intro]: "(\<And>a. r = Inr a \<Longrightarrow> Q a) \<Longrightarrow> ensures I (slift r) Q"
  by (simp add: ensures_def slift_def)

lemma ensures_get [intro]: "(\<And>s. I s \<Longrightarrow> Q s) \<Longrightarrow> ensures I sget Q"
  by (simp add: ensures_def sget_def)

lemma ensures_modify [intro]: "(\<And>s. I s \<Longrightarrow> I (f s)) \<Longrightarrow> Q () \<Longrightarrow> ensures I (smodify f) Q"
  by (simp add: ensures_def smodify_def)

lemma ensures_run [intro]:
  "(\<And>s. I s \<Longrightarrow> I (snd (f s)) \<and> Q (fst (f s))) \<Longrightarrow> ensures I (srun f) Q"
  by (auto simp: ensures_def srun_def split_beta)

lemma ensures_bind:
  assumes "ensures I m Q" "\<And>a. Q a \<Longrightarrow> ensures I (f a) R"
  shows "ensures I (sbind m f) R"
proof (rule yieldsI)
  fix s assume "I s"
  obtain r t where m: "m s = (r, t)" by (cases "m s")
  with yieldsD [OF assms(1) \<open>I s\<close>] have t: "I t" "\<And>a. r = Inr a \<Longrightarrow> Q a" by simp_all
  show "I (snd (sbind m f s))"
    using m t yieldsD(1) [OF assms(2)] by (cases r) (simp_all add: sbind_def)
  show "R b" if "fst (sbind m f s) = Inr b" for b
    using m t yieldsD(2) [OF assms(2)] that by (cases r) (auto simp: sbind_def)
qed

lemma ensures_weaken: "ensures I m Q \<Longrightarrow> (\<And>a. Q a \<Longrightarrow> R a) \<Longrightarrow> ensures I m R"
  by (simp add: ensures_def)

lemma ensures_map:
  "(\<And>a. a \<in> set as \<Longrightarrow> ensures I (f a) Q) \<Longrightarrow> ensures I (smap f as) (\<lambda>bs. length bs = length as \<and> (\<forall>b\<in>set bs. Q b))"
proof (induction as)
  case (Cons a as)
  show ?case
    by (auto intro!: ensures_bind [where Q = Q] ensures_bind [where Q = "\<lambda>bs. length bs = length as \<and> (\<forall>b\<in>set bs. Q b)"] Cons)
qed auto

end
