(* ===== verification/AppStateSync.thy ===== *)
theory AppStateSync
  imports AppStateStore NodeHelpers StateResult
begin

text \<open>
  \<open>src/appstate/sync/WaAppStateSyncClient.ts\<close> and \<open>src/appstate/parsers/response-parser.ts\<close>: a
  synchronisation of the collections with the server.  The methods work on the state \<open>sync_state\<close>:
  the store and the context of the running synchronisation, with its key cache, its working
  copies of the collection states and the set of the changed ones.  The environment \<open>sync_env\<close>
  holds the platform, the protobuf code, the query function of the connection (indexed by the round,
  so that it may answer differently each time), the downloader of external blobs and the random bytes.
  The derived keys are taken without the cache, which \<open>derived_keys_cached\<close> shows to be
  transparent.  Tasks that the code starts together touch different collections, and keys that are
  loaded already; they are modelled one after the other.
\<close>

subsection \<open>Messages\<close>

record blob_reference =
  br_directPath :: "jstr option"
  br_mediaKey :: "bytes option"
  br_fileSha256 :: "bytes option"
  br_fileEncSha256 :: "bytes option"

text \<open>The optional messages \<open>index\<close>, \<open>value\<close> and \<open>keyId\<close> are their only fields.\<close>

record syncd_record =
  syr_index_blob :: "bytes option"
  syr_value_blob :: "bytes option"
  syr_keyId :: "bytes option"

record syncd_mutation =
  sym_operation :: "nat option"
  sym_record :: "syncd_record option"

record exit_code =
  ec_code :: "int option"
  ec_text :: "jstr option"

record syncd_patch =
  syp_version :: "proto_long option"
  syp_mutations :: "syncd_mutation list"
  syp_external :: "blob_reference option"
  syp_snapshotMac :: "bytes option"
  syp_patchMac :: "bytes option"
  syp_keyId :: "bytes option"
  syp_exitCode :: "exit_code option"
  syp_deviceIndex :: "nat option"

record syncd_snapshot =
  sys_version :: "proto_long option"
  sys_records :: "syncd_record list"
  sys_mac :: "bytes option"
  sys_keyId :: "bytes option"

record syncd_codec =
  encode_patch :: "syncd_patch \<Rightarrow> bytes"
  decode_patch :: "bytes \<Rightarrow> syncd_patch option"
  encode_snapshot :: "syncd_snapshot \<Rightarrow> bytes"
  decode_snapshot :: "bytes \<Rightarrow> syncd_snapshot option"
  decode_mutations :: "bytes \<Rightarrow> syncd_mutation list option"
  decode_reference :: "bytes \<Rightarrow> blob_reference option"

datatype 'v mutation_op = MutationSet 'v | MutationRemove

record 'v mutation_input =
  mi_collection :: collection_name
  mi_operation :: "'v mutation_op"
  mi_index :: jstr
  mi_version :: int
  mi_timestamp :: int

datatype mutation_source = FromSnapshot | FromPatch

record 'v app_mutation =
  am_collection :: collection_name
  am_operationCode :: nat
  am_source :: mutation_source
  am_index :: jstr
  am_value :: "'v option"
  am_version :: int
  am_indexMac :: bytes
  am_valueMac :: bytes
  am_keyId :: bytes
  am_timestamp :: int

datatype app_collection_state =
  StateSuccess | StateSuccessHasMore | StateConflict | StateConflictHasMore | StateErrorRetry
  | StateErrorFatal | StateBlocked

record collection_payload =
  cp_collection :: collection_name
  cp_state :: app_collection_state
  cp_version :: "nat option"
  cp_patches :: "syncd_patch list"
  cp_snapshotReference :: "blob_reference option"

subsection \<open>Errors\<close>

datatype sync_error =
    MissingKey "bytes option" collection_name
  | BadProtoField bytes_error
  | BadLong proto_long
  | AppCrypto app_crypto_error
  | SnapshotWithoutVersion
  | SnapshotWithoutMac
  | SnapshotWithoutKeyId
  | PatchWithoutVersion
  | PatchWithoutSnapshotMac
  | PatchWithoutPatchMac
  | PatchWithoutKeyId
  | PatchInvalidVersion int
  | PatchInlineAndExternal
  | PatchTerminal int
  | PatchVersionMismatch int int
  | PatchMacMismatch
  | MutationWithoutOperation
  | MutationWithoutRecord
  | NoDownloader
  | DownloadFailed
  | UndecodableBlob
  | QueryFailed
  | BadIq node_error
  | BadSyncTag jstr
  | SyncIqFailed jstr jstr
  | NoSyncNode
  | BadCollectionName "jstr option"
  | BadCollectionVersion jstr
  | BadPatchContent node_error
  | UndecodablePatch

definition lift_error :: "('e \<Rightarrow> sync_error) \<Rightarrow> 'e + 'a \<Rightarrow> sync_error + 'a" where
  "lift_error f r = (case r of Inl e \<Rightarrow> Inl (f e) | Inr a \<Rightarrow> Inr a)"

definition required_bytes :: "bytes option \<Rightarrow> sync_error + bytes" where
  "required_bytes v =
    lift_error BadProtoField (decodeProtoBytes (case v of None \<Rightarrow> ProtoMissing | Some b \<Rightarrow> ProtoBytes b))"

text \<open>\<open>longToNumber\<close> with its wrapper \<open>normalizeProtoLong\<close>.\<close>

definition normalizeProtoLong :: "proto_long option \<Rightarrow> sync_error + int" where
  "normalizeProtoLong v =
    (case v of
       None \<Rightarrow> Inr 0
     | Some l \<Rightarrow> if \<bar>long_value l\<bar> \<le> int MAX_SAFE_INTEGER then Inr (long_value l) else Inl (BadLong l))"

text \<open>\<open>!value\<close> of a 64-bit field: an object is never falsy.\<close>

definition falsy_long :: "proto_long option \<Rightarrow> bool" where
  "falsy_long v = (v = None \<or> v = Some (LongNumber 0))"

subsection \<open>Responses\<close>

definition parseCollectionState :: "node \<Rightarrow> app_collection_state" where
  "parseCollectionState n =
    (let hasMorePatches = (attr n (js ''has_more_patches'') = Some (js ''true'')) in
     if attr n (js ''type'') \<noteq> Some IQ_ERROR then
       (if hasMorePatches then StateSuccessHasMore else StateSuccess)
     else
       let code = (case findNodeChild n ERROR_TAG of None \<Rightarrow> None | Some e \<Rightarrow> attr e (js ''code'')) in
       if code = Some (js ''409'') then (if hasMorePatches then StateConflictHasMore else StateConflict)
       else if code \<in> {Some (js ''400''), Some (js ''404''), Some (js ''405''), Some (js ''406'')}
       then StateErrorFatal
       else StateErrorRetry)"

definition decode_patch_node :: "syncd_codec \<Rightarrow> node \<Rightarrow> sync_error + syncd_patch" where
  "decode_patch_node P n =
    rbind (lift_error BadPatchContent (decodeNodeContentBase64OrBytes (content n))) (\<lambda>b.
      case decode_patch P b of None \<Rightarrow> Inl UndecodablePatch | Some p \<Rightarrow> Inr p)"

definition parse_collection_node :: "syncd_codec \<Rightarrow> node \<Rightarrow> sync_error + collection_payload" where
  "parse_collection_node P n =
    (case parseCollectionName (attr n (js ''name'')) of
       None \<Rightarrow> Inl (BadCollectionName (attr n (js ''name'')))
     | Some collection \<Rightarrow>
         rbind (case attr n (js ''version'') of
             None \<Rightarrow> Inr None
           | Some v \<Rightarrow> if v = [] then Inr None
               else (case parseOptionalInt (Some v) of
                   None \<Rightarrow> Inl (BadCollectionVersion v) | Some k \<Rightarrow> Inr (Some k))) (\<lambda>version.
         rbind (case findNodeChild n (js ''patches'') of
             None \<Rightarrow> Inr []
           | Some patchesNode \<Rightarrow> rmap (decode_patch_node P) (getNodeChildrenByTag patchesNode (js ''patch''))) (\<lambda>patches.
         rbind (case findNodeChild n (js ''snapshot'') of
             None \<Rightarrow> Inr None
           | Some snapshotNode \<Rightarrow>
               rbind (lift_error BadPatchContent (decodeNodeContentBase64OrBytes (content snapshotNode))) (\<lambda>b.
                 case decode_reference P b of None \<Rightarrow> Inl UndecodablePatch | Some r \<Rightarrow> Inr (Some r))) (\<lambda>reference.
         Inr \<lparr>cp_collection = collection, cp_state = parseCollectionState n, cp_version = version,
              cp_patches = patches, cp_snapshotReference = reference\<rparr>))))"

definition parseSyncResponse :: "syncd_codec \<Rightarrow> node \<Rightarrow> sync_error + collection_payload list" where
  "parseSyncResponse P iq =
    (if tag iq \<noteq> IQ_TAG then Inl (BadSyncTag (tag iq))
     else case findNodeChild iq (js ''sync'') of
       None \<Rightarrow>
         if attr iq (js ''type'') = Some IQ_ERROR then
           (let errorNode = findNodeChild iq ERROR_TAG;
                get = (\<lambda>name. nullish (case errorNode of None \<Rightarrow> None | Some e \<Rightarrow> attr e name) (js ''unknown''))
            in Inl (SyncIqFailed (get (js ''code'')) (get (js ''text''))))
         else Inl NoSyncNode
     | Some syncNode \<Rightarrow> rmap (parse_collection_node P) (getNodeChildrenByTag syncNode (js ''collection'')))"

subsection \<open>State and environment\<close>

text \<open>\<open>sy_changed\<close> is the local variable \<open>collectionStateChanged\<close> of the collection in work.\<close>

record sync_state =
  sy_store :: app_state_store
  sy_keys :: "(jstr, bytes option) jsmap"
  sy_collections :: "(collection_name, collection_state) jsmap"
  sy_dirty :: "collection_name list"
  sy_changed :: bool

datatype blob_kind = SnapshotBlob | PatchBlob

record 'v sync_env =
  env_crypto :: crypto
  env_actions :: "'v action_codec"
  env_protos :: syncd_codec
  env_skipMac :: bool
  env_mobilePrimary :: bool
  env_deviceIndex :: "nat option"
  env_hostDomain :: jstr
  env_random :: "nat \<Rightarrow> collection_name \<Rightarrow> nat \<Rightarrow> bytes"
  env_query :: "nat \<Rightarrow> node \<Rightarrow> node option"
  env_downloader :: "(collection_name \<Rightarrow> blob_kind \<Rightarrow> blob_reference \<Rightarrow> bytes option) option"

type_synonym 'a syncing = "(sync_state, sync_error, 'a) stateful"

subsection \<open>Keys and collection states\<close>

definition getKeyData :: "bytes \<Rightarrow> sync_state \<Rightarrow> bytes option \<times> sync_state" where
  "getKeyData keyId s =
    (let keyHex = bytesToHex keyId in
     case map_get (sy_keys s) keyHex of
       Some cached \<Rightarrow> (cached, s)
     | None \<Rightarrow> let v = getSyncKeyData keyId (sy_store s) in (v, s\<lparr>sy_keys := map_set keyHex v (sy_keys s)\<rparr>))"

fun missing_keys :: "bytes list \<Rightarrow> jstr list \<Rightarrow> sync_state \<Rightarrow> bytes list" where
  "missing_keys [] seen s = []"
| "missing_keys (keyId # keyIds) seen s =
    (let keyHex = bytesToHex keyId in
     if map_get (sy_keys s) keyHex \<noteq> None \<or> keyHex \<in> set seen then missing_keys keyIds seen s
     else keyId # missing_keys keyIds (seen @ [keyHex]) s)"

definition preloadKeyData :: "bytes list \<Rightarrow> sync_state \<Rightarrow> sync_state" where
  "preloadKeyData keyIds s =
    (if keyIds = [] then s
     else let missing = missing_keys keyIds [] s in
       if missing = [] then s
       else let loaded = getSyncKeyDataBatch missing (sy_store s)
         in s\<lparr>sy_keys := foldl (\<lambda>m (keyId, v). map_set (bytesToHex keyId) v m) (sy_keys s) (zip missing loaded)\<rparr>)"

definition get_state :: "collection_name \<Rightarrow> sync_state \<Rightarrow> collection_state \<times> sync_state" where
  "get_state collection s =
    (case map_get (sy_collections s) collection of
       Some cached \<Rightarrow> (cached, s)
     | None \<Rightarrow>
         let (cs, store) = getCollectionState collection (sy_store s)
         in (cs, s\<lparr>sy_store := store, sy_collections := map_set collection cs (sy_collections s)\<rparr>))"

definition set_add :: "'a \<Rightarrow> 'a list \<Rightarrow> 'a list" where
  "set_add a as = (if a \<in> set as then as else as @ [a])"

definition set_state :: "collection_name \<Rightarrow> int \<Rightarrow> bytes \<Rightarrow> (jstr, bytes) jsmap \<Rightarrow> sync_state \<Rightarrow> sync_state" where
  "set_state collection version hash indexValueMap s =
    s\<lparr>sy_collections := map_set collection \<lparr>cs_initialized = True, cs_version = version, cs_hash = hash,
         cs_indexValueMap = indexValueMap\<rparr> (sy_collections s),
       sy_dirty := set_add collection (sy_dirty s)\<rparr>"

definition mark_changed :: "unit syncing" where
  "mark_changed = smodify (\<lambda>s. s\<lparr>sy_changed := True\<rparr>)"

subsection \<open>The next state of a collection\<close>

record mac_mutation =
  mm_operation :: nat
  mm_indexMac :: bytes
  mm_valueMac :: bytes

text \<open>The loop of \<open>computeNextCollectionState\<close>: the index map, the added and the removed MACs.\<close>

fun next_loop ::
    "mac_mutation list \<Rightarrow> (jstr, bytes) jsmap \<Rightarrow> bytes list \<Rightarrow> bytes list \<Rightarrow> (jstr, bytes) jsmap \<times> bytes list \<times> bytes list" where
  "next_loop [] m addValues removeValues = (m, addValues, removeValues)"
| "next_loop (mutation # rest) m addValues removeValues =
    (let indexMacHex = bytesToHex (mm_indexMac mutation); existing = map_get m indexMacHex in
     if mm_operation mutation = OPERATION_REMOVE then
       (case existing of
          None \<Rightarrow> next_loop rest m addValues removeValues
        | Some v \<Rightarrow> next_loop rest (map_delete indexMacHex m) addValues (removeValues @ [v]))
     else next_loop rest (map_set indexMacHex (mm_valueMac mutation) m) (addValues @ [mm_valueMac mutation])
       (case existing of None \<Rightarrow> removeValues | Some v \<Rightarrow> removeValues @ [v]))"

definition computeNextCollectionState ::
    "crypto \<Rightarrow> bytes \<Rightarrow> (jstr, bytes) jsmap \<Rightarrow> mac_mutation list \<Rightarrow> sync_error + bytes \<times> (jstr, bytes) jsmap" where
  "computeNextCollectionState C baseHash baseMap mutations =
    (let (m, addValues, removeValues) = next_loop mutations baseMap [] [] in
     rbind (lift_error AppCrypto (ltHashSubtractThenAdd C baseHash addValues removeValues)) (\<lambda>(hash, _).
       Inr (hash, m)))"

subsection \<open>Decryption\<close>

record raw_mutation =
  rm_operationCode :: nat
  rm_indexMac :: bytes
  rm_valueBlob :: bytes
  rm_keyId :: bytes

definition parse_record :: "nat \<Rightarrow> syncd_record \<Rightarrow> sync_error + raw_mutation" where
  "parse_record operationCode r =
    rbind (required_bytes (syr_keyId r)) (\<lambda>recordKeyId.
    rbind (required_bytes (syr_index_blob r)) (\<lambda>indexMac.
    rbind (required_bytes (syr_value_blob r)) (\<lambda>valueBlob.
      Inr \<lparr>rm_operationCode = operationCode, rm_indexMac = indexMac, rm_valueBlob = valueBlob,
           rm_keyId = recordKeyId\<rparr>)))"

definition parse_mutation :: "syncd_mutation \<Rightarrow> sync_error + raw_mutation" where
  "parse_mutation m =
    (case sym_operation m of
       None \<Rightarrow> Inl MutationWithoutOperation
     | Some operationCode \<Rightarrow>
         (case sym_record m of
            None \<Rightarrow> Inl MutationWithoutRecord
          | Some r \<Rightarrow> parse_record operationCode r))"

text \<open>
  The decryption tasks of a patch or a snapshot run side by side.  A task without its key is
  rejected in its first turn, before any task that fails to decrypt, so the keys are looked up
  first.
\<close>

definition resolve_key :: "collection_name \<Rightarrow> raw_mutation \<Rightarrow> (raw_mutation \<times> bytes) syncing" where
  "resolve_key collection r =
    sbind (srun (getKeyData (rm_keyId r))) (\<lambda>keyData.
      case keyData of
        None \<Rightarrow> sthrow (MissingKey (Some (rm_keyId r)) collection)
      | Some k \<Rightarrow> sreturn (r, k))"

definition decrypt_raw ::
    "'v sync_env \<Rightarrow> collection_name \<Rightarrow> mutation_source \<Rightarrow> raw_mutation \<times> bytes \<Rightarrow> sync_error + 'v app_mutation" where
  "decrypt_raw E collection source rk =
    (let (r, keyData) = rk in
     rbind (lift_error AppCrypto
         (if length (rm_valueBlob r) < APP_STATE_IV_LENGTH + APP_STATE_VALUE_MAC_LENGTH then Inl InvalidValueBlob
          else decrypt_with (env_crypto E) (env_actions E) (env_skipMac E) (derive_fresh (env_crypto E) keyData)
            (rm_operationCode r) (rm_keyId r) (rm_indexMac r) (rm_valueBlob r))) (\<lambda>decrypted.
     rbind (normalizeProtoLong (case dm_value decrypted of None \<Rightarrow> None
         | Some v \<Rightarrow> value_timestamp (env_actions E) v)) (\<lambda>timestamp.
       Inr \<lparr>am_collection = collection, am_operationCode = rm_operationCode r, am_source = source,
            am_index = dm_index decrypted, am_value = dm_value decrypted, am_version = dm_version decrypted,
            am_indexMac = dm_indexMac decrypted, am_valueMac = dm_valueMac decrypted, am_keyId = rm_keyId r,
            am_timestamp = timestamp\<rparr>)))"

definition decrypt_all ::
    "'v sync_env \<Rightarrow> collection_name \<Rightarrow> mutation_source \<Rightarrow> raw_mutation list \<Rightarrow> 'v app_mutation list syncing" where
  "decrypt_all E collection source raws =
    sbind (smodify (preloadKeyData (map rm_keyId raws))) (\<lambda>_.
    sbind (smap (resolve_key collection) raws) (\<lambda>keyed.
    slift (rmap (decrypt_raw E collection source) keyed)))"

definition decryptSnapshotRecords ::
    "'v sync_env \<Rightarrow> collection_name \<Rightarrow> syncd_snapshot \<Rightarrow> 'v app_mutation list syncing" where
  "decryptSnapshotRecords E collection snapshot =
    sbind (slift (rmap (parse_record OPERATION_SET) (sys_records snapshot)))
      (decrypt_all E collection FromSnapshot)"

definition decryptPatchMutations ::
    "'v sync_env \<Rightarrow> collection_name \<Rightarrow> syncd_patch \<Rightarrow> 'v app_mutation list syncing" where
  "decryptPatchMutations E collection patch =
    sbind (slift (rmap parse_mutation (syp_mutations patch))) (decrypt_all E collection FromPatch)"

subsection \<open>Snapshots and patches\<close>

text \<open>The key of a snapshot or patch, which is only needed when MACs are checked.\<close>

definition verification_key ::
    "'v sync_env \<Rightarrow> collection_name \<Rightarrow> bytes option \<Rightarrow> bytes option syncing" where
  "verification_key E collection keyIdField =
    (if env_skipMac E then sreturn None
     else sbind (slift (required_bytes keyIdField)) (\<lambda>keyId.
       sbind (srun (getKeyData keyId)) (\<lambda>keyData.
         case keyData of
           None \<Rightarrow> sthrow (MissingKey (Some keyId) collection)
         | Some k \<Rightarrow> sreturn (Some k))))"

definition index_map :: "'v app_mutation list \<Rightarrow> (jstr, bytes) jsmap" where
  "index_map ms = foldl (\<lambda>m d. map_set (bytesToHex (am_indexMac d)) (am_valueMac d) m) [] ms"

text \<open>A snapshot MAC that does not match is logged and tolerated.\<close>

definition applySnapshot ::
    "'v sync_env \<Rightarrow> collection_name \<Rightarrow> syncd_snapshot \<Rightarrow> 'v app_mutation list syncing" where
  "applySnapshot E collection snapshot =
    sbind (slift (normalizeProtoLong (sys_version snapshot))) (\<lambda>version.
    sbind (verification_key E collection (sys_keyId snapshot)) (\<lambda>keyData.
    sbind (decryptSnapshotRecords E collection snapshot) (\<lambda>mutations.
      let indexValueMap = index_map mutations in
    sbind (slift (lift_error AppCrypto
      (ltHashAdd (env_crypto E) APP_STATE_EMPTY_LT_HASH (map snd indexValueMap)))) (\<lambda>ltHash.
    sbind (slift (case keyData of None \<Rightarrow> Inr []
      | Some k \<Rightarrow> lift_error AppCrypto (snapshot_mac_with (env_crypto E) (derive_fresh (env_crypto E) k) ltHash
          version (collection_value collection)))) (\<lambda>expectedSnapshotMac.
    sbind (smodify (set_state collection version ltHash indexValueMap)) (\<lambda>_.
      sreturn mutations))))))"

definition assertPatchMacsMatch ::
    "'v sync_env \<Rightarrow> syncd_patch \<Rightarrow> collection_name \<Rightarrow> bytes \<Rightarrow> int \<Rightarrow> bytes \<Rightarrow> bytes list \<Rightarrow> sync_error + unit" where
  "assertPatchMacsMatch E patch collection patchKeyData patchVersion nextHash valueMacs =
    (let keys = derive_fresh (env_crypto E) patchKeyData; name = collection_value collection in
     rbind (required_bytes (syp_snapshotMac patch)) (\<lambda>snapshotMac.
     rbind (lift_error AppCrypto (snapshot_mac_with (env_crypto E) keys nextHash patchVersion name)) (\<lambda>expectedSnapshotMac.
     rbind (required_bytes (syp_patchMac patch)) (\<lambda>patchMac.
     rbind (lift_error AppCrypto (patch_mac_with (env_crypto E) keys snapshotMac valueMacs patchVersion name)) (\<lambda>expectedPatchMac.
       if uint8TimingSafeEqual expectedPatchMac patchMac then Inr () else Inl PatchMacMismatch)))))"

definition to_mac_mutation :: "'v app_mutation \<Rightarrow> mac_mutation" where
  "to_mac_mutation m = \<lparr>mm_operation = am_operationCode m, mm_indexMac = am_indexMac m, mm_valueMac = am_valueMac m\<rparr>"

definition applyPatch ::
    "'v sync_env \<Rightarrow> collection_name \<Rightarrow> syncd_patch \<Rightarrow> 'v app_mutation list syncing" where
  "applyPatch E collection patch =
    sbind (slift (normalizeProtoLong (syp_version patch))) (\<lambda>patchVersion.
    sbind (srun (get_state collection)) (\<lambda>current.
    sbind (if cs_version current \<noteq> patchVersion - 1
      then sthrow (PatchVersionMismatch (cs_version current) patchVersion) else sreturn ()) (\<lambda>_.
    sbind (verification_key E collection (syp_keyId patch)) (\<lambda>patchKeyData.
    sbind (decryptPatchMutations E collection patch) (\<lambda>mutations.
    sbind (slift (computeNextCollectionState (env_crypto E) (cs_hash current) (cs_indexValueMap current)
      (map to_mac_mutation mutations))) (\<lambda>(nextHash, nextMap).
    sbind (slift (case patchKeyData of None \<Rightarrow> Inr ()
      | Some k \<Rightarrow> assertPatchMacsMatch E patch collection k patchVersion nextHash (map am_valueMac mutations))) (\<lambda>_.
    sbind (smodify (set_state collection patchVersion nextHash nextMap)) (\<lambda>_.
      sreturn mutations))))))))"

definition validateSnapshot :: "'v sync_env \<Rightarrow> syncd_snapshot \<Rightarrow> sync_error + syncd_snapshot" where
  "validateSnapshot E snapshot =
    (if falsy_long (sys_version snapshot) then Inl SnapshotWithoutVersion
     else if \<not> env_skipMac E \<and> sys_mac snapshot = None then Inl SnapshotWithoutMac
     else if \<not> env_skipMac E \<and> sys_keyId snapshot = None then Inl SnapshotWithoutKeyId
     else Inr snapshot)"

definition parseCollectionPatchVersion :: "syncd_patch \<Rightarrow> sync_error + int" where
  "parseCollectionPatchVersion patch =
    rbind (normalizeProtoLong (syp_version patch)) (\<lambda>parsed.
      if parsed \<le> 0 then Inl (PatchInvalidVersion parsed) else Inr parsed)"

definition validatePatch :: "'v sync_env \<Rightarrow> syncd_patch \<Rightarrow> sync_error + syncd_patch" where
  "validatePatch E patch =
    (if falsy_long (syp_version patch) then Inl PatchWithoutVersion
     else if \<not> env_skipMac E \<and> syp_snapshotMac patch = None then Inl PatchWithoutSnapshotMac
     else if \<not> env_skipMac E \<and> syp_patchMac patch = None then Inl PatchWithoutPatchMac
     else if \<not> env_skipMac E \<and> syp_keyId patch = None then Inl PatchWithoutKeyId
     else if syp_mutations patch \<noteq> [] \<and> syp_external patch \<noteq> None then Inl PatchInlineAndExternal
     else case syp_exitCode patch of
       None \<Rightarrow> Inr patch
     | Some e \<Rightarrow>
         (case ec_code e of
            None \<Rightarrow> Inr patch
          | Some code \<Rightarrow> if code \<noteq> 0 then Inl (PatchTerminal code) else Inr patch))"

definition download ::
    "'v sync_env \<Rightarrow> collection_name \<Rightarrow> blob_kind \<Rightarrow> blob_reference \<Rightarrow> sync_error + bytes" where
  "download E collection kind reference =
    (case env_downloader E of
       None \<Rightarrow> Inl NoDownloader
     | Some get \<Rightarrow> (case get collection kind reference of None \<Rightarrow> Inl DownloadFailed | Some b \<Rightarrow> Inr b))"

definition ready_patch :: "'v sync_env \<Rightarrow> collection_name \<Rightarrow> syncd_patch \<Rightarrow> sync_error + syncd_patch" where
  "ready_patch E collection patch =
    rbind (case (syp_mutations patch, syp_external patch) of
        ([], Some reference) \<Rightarrow>
          rbind (download E collection PatchBlob reference) (\<lambda>b.
            case decode_mutations (env_protos E) b of
              None \<Rightarrow> Inl UndecodableBlob
            | Some ms \<Rightarrow> Inr (patch\<lparr>syp_mutations := ms, syp_external := None\<rparr>))
      | _ \<Rightarrow> Inr patch) (validatePatch E)"

text \<open>\<open>sort\<close> of the language is stable.\<close>

definition resolveReadyPatches ::
    "'v sync_env \<Rightarrow> collection_payload \<Rightarrow> sync_error + syncd_patch list" where
  "resolveReadyPatches E payload =
    rbind (rmap (\<lambda>p. rbind (parseCollectionPatchVersion p) (\<lambda>v. Inr (v, p))) (cp_patches payload)) (\<lambda>versions.
      rmap (ready_patch E (cp_collection payload)) (map snd (sort_key fst versions)))"

subsection \<open>Outgoing patches\<close>

record outgoing_context =
  og_collection :: collection_name
  og_patchVersion :: int
  og_nextHash :: bytes
  og_nextIndexValueMap :: "(jstr, bytes) jsmap"

definition operation_code :: "'v mutation_op \<Rightarrow> nat" where
  "operation_code op = (case op of MutationRemove \<Rightarrow> OPERATION_REMOVE | MutationSet _ \<Rightarrow> OPERATION_SET)"

definition operation_value :: "'v mutation_op \<Rightarrow> 'v option" where
  "operation_value op = (case op of MutationRemove \<Rightarrow> None | MutationSet v \<Rightarrow> Some v)"

definition encrypt_input ::
    "'v sync_env \<Rightarrow> sync_key \<Rightarrow> 'v mutation_input \<times> bytes \<Rightarrow> sync_error + nat \<times> encrypted_mutation" where
  "encrypt_input E activeKey mr =
    (let (m, random) = mr; operationCode = operation_code (mi_operation m) in
     rbind (lift_error AppCrypto (encrypt_with (env_crypto E) (env_actions E)
         (derive_fresh (env_crypto E) (ask_keyData activeKey)) operationCode (ask_keyId activeKey) (mi_index m)
         (operation_value (mi_operation m)) (mi_version m) None random)) (\<lambda>e. Inr (operationCode, e)))"

definition syncd_of :: "bytes \<Rightarrow> nat \<times> encrypted_mutation \<Rightarrow> syncd_mutation" where
  "syncd_of keyId ce =
    \<lparr>sym_operation = Some (fst ce),
     sym_record = Some \<lparr>syr_index_blob = Some (em_indexMac (snd ce)), syr_value_blob = Some (em_valueBlob (snd ce)),
       syr_keyId = Some keyId\<rparr>\<rparr>"

definition mac_of :: "nat \<times> encrypted_mutation \<Rightarrow> mac_mutation" where
  "mac_of ce = \<lparr>mm_operation = fst ce, mm_indexMac = em_indexMac (snd ce), mm_valueMac = em_valueMac (snd ce)\<rparr>"

definition buildOutgoingPatch ::
    "'v sync_env \<Rightarrow> (nat \<Rightarrow> bytes) \<Rightarrow> collection_name \<Rightarrow> collection_state \<Rightarrow> 'v mutation_input list \<Rightarrow> sync_key option \<Rightarrow>
     sync_error + syncd_patch \<times> outgoing_context" where
  "buildOutgoingPatch E random collection snapshot pending activeKey =
    (case activeKey of
       None \<Rightarrow> Inl (MissingKey None collection)
     | Some key \<Rightarrow>
         let keys = derive_fresh (env_crypto E) (ask_keyData key); name = collection_value collection;
             patchVersion = cs_version snapshot + 1 in
         rbind (rmap (encrypt_input E key) (zip pending (map random [0..<length pending]))) (\<lambda>encrypted.
         rbind (computeNextCollectionState (env_crypto E) (cs_hash snapshot) (cs_indexValueMap snapshot)
           (map mac_of encrypted)) (\<lambda>(nextHash, nextMap).
         rbind (lift_error AppCrypto (snapshot_mac_with (env_crypto E) keys nextHash patchVersion name)) (\<lambda>snapshotMac.
         rbind (lift_error AppCrypto (patch_mac_with (env_crypto E) keys snapshotMac
           (map (em_valueMac \<circ> snd) encrypted) patchVersion name)) (\<lambda>patchMac.
           Inr (\<lparr>syp_version = None, syp_mutations = map (syncd_of (ask_keyId key)) encrypted, syp_external = None,
                 syp_snapshotMac = Some snapshotMac, syp_patchMac = Some patchMac,
                 syp_keyId = Some (ask_keyId key), syp_exitCode = None, syp_deviceIndex = env_deviceIndex E\<rparr>,
                \<lparr>og_collection = collection, og_patchVersion = patchVersion, og_nextHash = nextHash,
                 og_nextIndexValueMap = nextMap\<rparr>))))))"

text \<open>
  \<open>groupPendingMutations\<close>: the mutations by collection, and of each index the last one, in their
  order.
\<close>

fun group_loop ::
    "'v mutation_input list \<Rightarrow> (collection_name, 'v mutation_input list) jsmap \<Rightarrow>
     (collection_name, 'v mutation_input list) jsmap" where
  "group_loop [] grouped = grouped"
| "group_loop (m # ms) grouped =
    group_loop ms (case map_get grouped (mi_collection m) of
        Some list \<Rightarrow> map_set (mi_collection m) (list @ [m]) grouped
      | None \<Rightarrow> map_set (mi_collection m) [m] grouped)"

fun compact_loop :: "'v mutation_input list \<Rightarrow> jstr list \<Rightarrow> 'v mutation_input list \<Rightarrow> 'v mutation_input list" where
  "compact_loop [] seen reversed = rev reversed"
| "compact_loop (m # ms) seen reversed =
    (if mi_index m \<in> set seen then compact_loop ms seen reversed
     else compact_loop ms (seen @ [mi_index m]) (reversed @ [m]))"

definition groupPendingMutations ::
    "'v mutation_input list \<Rightarrow> (collection_name, 'v mutation_input list) jsmap" where
  "groupPendingMutations pending =
    foldl (\<lambda>compacted (collection, list). map_set collection (compact_loop (rev list) [] []) compacted) []
      (group_loop pending [])"

subsection \<open>Requests\<close>

definition js_int :: "int \<Rightarrow> jstr" where
  "js_int n = (if n < 0 then js ''-'' @ js_dec (nat (- n)) else js_dec (nat n))"

record collection_request =
  rq_collection :: collection_name
  rq_node :: node
  rq_outgoing :: "outgoing_context option"
  rq_skippedUpload :: bool

definition collection_node :: "collection_name \<Rightarrow> int \<Rightarrow> bool \<Rightarrow> node list \<Rightarrow> node" where
  "collection_node collection version requestSnapshot children =
    Node (js ''collection'')
      [(js ''name'', collection_value collection), (js ''version'', js_int version),
       (js ''return_snapshot'', if requestSnapshot then js ''true'' else js ''false'')]
      (if children \<noteq> [] then CNodes children else NoContent)"

definition buildCollectionSyncRequest ::
    "'v sync_env \<Rightarrow> nat \<Rightarrow> (collection_name, 'v mutation_input list) jsmap \<Rightarrow> sync_key option \<Rightarrow> collection_name \<Rightarrow>
     collection_request syncing" where
  "buildCollectionSyncRequest E iteration pendingByCollection activeKey collection =
    sbind (srun (get_state collection)) (\<lambda>cs.
      let hasPersistedState = cs_initialized cs;
          requestSnapshot = (\<not> env_mobilePrimary E \<and> \<not> hasPersistedState);
          version = (if hasPersistedState then cs_version cs else 0);
          pending = nullish (map_get pendingByCollection collection) [];
          request = (\<lambda>children outgoing skipped. \<lparr>rq_collection = collection,
            rq_node = collection_node collection version requestSnapshot children,
            rq_outgoing = outgoing, rq_skippedUpload = skipped\<rparr>)
      in if pending = [] then sreturn (request [] None False)
         else if \<not> hasPersistedState \<and> \<not> env_mobilePrimary E then sreturn (request [] None True)
         else sbind (slift (buildOutgoingPatch E (env_random E iteration collection) collection cs pending activeKey))
           (\<lambda>(patch, context).
             sreturn (request [Node (js ''patch'') [] (CBytes (encode_patch (env_protos E) patch))] (Some context) False)))"

definition buildSyncIqNode :: "'v sync_env \<Rightarrow> node list \<Rightarrow> node" where
  "buildSyncIqNode E collectionNodes =
    Node IQ_TAG [(js ''to'', env_hostDomain E), (js ''type'', js ''set''), (js ''xmlns'', js ''w:sync:app:state'')]
      (CNodes [Node (js ''sync'') (if env_mobilePrimary E then [(js ''data_namespace'', js ''3'')] else [])
        (CNodes collectionNodes)])"

text \<open>A collection that occurs twice in a response counts with its last payload.\<close>

definition fetchSyncPayloadByCollection ::
    "'v sync_env \<Rightarrow> nat \<Rightarrow> node \<Rightarrow> sync_error + (collection_name, collection_payload) jsmap" where
  "fetchSyncPayloadByCollection E iteration iqNode =
    (case env_query E iteration iqNode of
       None \<Rightarrow> Inl QueryFailed
     | Some response \<Rightarrow>
         rbind (lift_error BadIq (assertIqResult response)) (\<lambda>_.
         rbind (parseSyncResponse (env_protos E) response) (\<lambda>payloads.
           Inr (foldl (\<lambda>m p. map_set (cp_collection p) p m) [] payloads))))"

subsection \<open>One collection of a round\<close>

record 'v collection_outcome =
  co_collection :: collection_name
  co_shouldRefetch :: bool
  co_stateChanged :: bool
  co_state :: app_collection_state
  co_version :: "nat option"
  co_mutations :: "'v app_mutation list option"
  co_missingKeyId :: "bytes option"

definition createCollectionOutcome ::
    "collection_name \<Rightarrow> app_collection_state \<Rightarrow> nat option \<Rightarrow> bool \<Rightarrow> bool \<Rightarrow> 'v app_mutation list option \<Rightarrow>
     bytes option \<Rightarrow> 'v collection_outcome" where
  "createCollectionOutcome collection state version shouldRefetch stateChanged mutations missingKeyId =
    \<lparr>co_collection = collection, co_shouldRefetch = shouldRefetch, co_stateChanged = stateChanged,
     co_state = state, co_version = version, co_mutations = mutations, co_missingKeyId = missingKeyId\<rparr>"

definition snapshot_step :: "'v sync_env \<Rightarrow> collection_payload \<Rightarrow> 'v app_mutation list syncing" where
  "snapshot_step E payload =
    (case cp_snapshotReference payload of
       None \<Rightarrow> sreturn []
     | Some reference \<Rightarrow>
         if env_mobilePrimary E then sreturn []
         else
           sbind (slift (download E (cp_collection payload) SnapshotBlob reference)) (\<lambda>snapshotBytes.
           sbind (slift (case decode_snapshot (env_protos E) snapshotBytes of
               None \<Rightarrow> Inl UndecodableBlob | Some s \<Rightarrow> validateSnapshot E s)) (\<lambda>snapshot.
           sbind (applySnapshot E (cp_collection payload) snapshot) (\<lambda>mutations.
           sbind mark_changed (\<lambda>_. sreturn mutations)))))"

fun apply_patches :: "'v sync_env \<Rightarrow> collection_name \<Rightarrow> syncd_patch list \<Rightarrow> 'v app_mutation list syncing" where
  "apply_patches E collection [] = sreturn []"
| "apply_patches E collection (p # ps) =
    sbind (applyPatch E collection p) (\<lambda>mutations.
    sbind mark_changed (\<lambda>_.
    sbind (apply_patches E collection ps) (\<lambda>rest. sreturn (mutations @ rest))))"

text \<open>Without patches, the server has taken our own one: the state computed for it becomes current.\<close>

definition accept_own :: "collection_payload \<Rightarrow> outgoing_context option \<Rightarrow> unit syncing" where
  "accept_own payload outgoing =
    (case outgoing of
       None \<Rightarrow> sreturn ()
     | Some og \<Rightarrow>
         if cp_state payload = StateSuccess \<and> map_option int (cp_version payload) = Some (og_patchVersion og) then
           sbind (smodify (set_state (cp_collection payload) (og_patchVersion og) (og_nextHash og)
             (og_nextIndexValueMap og))) (\<lambda>_. mark_changed)
         else sreturn ())"

definition patches_step ::
    "'v sync_env \<Rightarrow> collection_payload \<Rightarrow> outgoing_context option \<Rightarrow> 'v app_mutation list syncing" where
  "patches_step E payload outgoing =
    (if cp_patches payload \<noteq> [] then
       sbind (slift (resolveReadyPatches E payload)) (apply_patches E (cp_collection payload))
     else sbind (accept_own payload outgoing) (\<lambda>_. sreturn []))"

definition initialise_step :: "collection_name \<Rightarrow> collection_payload \<Rightarrow> unit syncing" where
  "initialise_step collection payload =
    sbind (srun (get_state collection)) (\<lambda>current.
      if \<not> cs_initialized current \<and> cp_state payload = StateSuccess then
        sbind (smodify (set_state collection (case cp_version payload of Some v \<Rightarrow> int v | None \<Rightarrow> cs_version current)
          (cs_hash current) (cs_indexValueMap current))) (\<lambda>_. mark_changed)
      else sreturn ())"

text \<open>The body of the \<open>try\<close>, up to the outcome.\<close>

definition process_payload ::
    "'v sync_env \<Rightarrow> collection_name \<Rightarrow> collection_payload \<Rightarrow> outgoing_context option \<Rightarrow> 'v app_mutation list syncing" where
  "process_payload E collection payload outgoing =
    sbind (snapshot_step E payload) (\<lambda>fromSnapshot.
    sbind (patches_step E payload outgoing) (\<lambda>fromPatches.
    sbind (initialise_step collection payload) (\<lambda>_.
      sreturn (fromSnapshot @ fromPatches))))"

definition is_conflict :: "app_collection_state \<Rightarrow> bool" where
  "is_conflict st = (st = StateConflict \<or> st = StateConflictHasMore)"

definition resolved_state :: "app_collection_state \<Rightarrow> bool \<Rightarrow> app_collection_state" where
  "resolved_state st hasPending =
    (if \<not> is_conflict st then st
     else if st = StateConflict then (if hasPending then StateConflict else StateSuccess) else st)"

definition processCollectionRound ::
    "'v sync_env \<Rightarrow> (collection_name, collection_payload) jsmap \<Rightarrow> (collection_name, 'v mutation_input list) jsmap \<Rightarrow>
     (collection_name, outgoing_context) jsmap \<Rightarrow> collection_name list \<Rightarrow> collection_name \<Rightarrow>
     'v collection_outcome syncing" where
  "processCollectionRound E payloads pendingByCollection outgoings skipped collection s0 =
    (case map_get payloads collection of
       None \<Rightarrow> (Inr (createCollectionOutcome collection StateErrorRetry None False False None None), s0)
     | Some payload \<Rightarrow>
         if cp_state payload = StateErrorFatal \<or> cp_state payload = StateErrorRetry then
           (Inr (createCollectionOutcome collection (cp_state payload) (cp_version payload) False False None None), s0)
         else
           let hasPending = (nullish (map_get pendingByCollection collection) [] \<noteq> []);
               conflictRefetch = (is_conflict (cp_state payload) \<and>
                 (cp_state payload = StateConflictHasMore \<or> hasPending));
               (r, s) = process_payload E collection payload (map_get outgoings (cp_collection payload))
                 (s0\<lparr>sy_changed := False\<rparr>)
           in (Inr (case r of
                 Inr applied \<Rightarrow>
                   createCollectionOutcome collection (resolved_state (cp_state payload) hasPending) (cp_version payload)
                     (conflictRefetch \<or> cp_state payload = StateSuccessHasMore \<or>
                       cp_state payload = StateSuccess \<and> collection \<in> set skipped)
                     (sy_changed s) (Some applied) None
               | Inl (MissingKey keyId _) \<Rightarrow>
                   createCollectionOutcome collection StateBlocked (cp_version payload) conflictRefetch (sy_changed s)
                     None keyId
               | Inl _ \<Rightarrow>
                   createCollectionOutcome collection StateErrorRetry (cp_version payload) True (sy_changed s)
                     None None), s))"

subsection \<open>A round\<close>

record 'v round_result =
  rr_results :: "'v collection_outcome list"
  rr_collectionsToRefetch :: "collection_name list"
  rr_stateChanged :: bool
  rr_missingKeyIds :: "bytes list"
  rr_blockedCollections :: "collection_name list"

fun distinct_keys :: "bytes option list \<Rightarrow> jstr list \<Rightarrow> bytes list" where
  "distinct_keys [] seen = []"
| "distinct_keys (k # ks) seen =
    (case k of
       None \<Rightarrow> distinct_keys ks seen
     | Some keyId \<Rightarrow>
         if bytesToHex keyId \<in> set seen then distinct_keys ks seen
         else keyId # distinct_keys ks (seen @ [bytesToHex keyId]))"

definition summarise_round :: "'v collection_outcome list \<Rightarrow> 'v round_result" where
  "summarise_round outcomes =
    \<lparr>rr_results = outcomes,
     rr_collectionsToRefetch = map co_collection (filter co_shouldRefetch outcomes),
     rr_stateChanged = (\<exists>o1\<in>set outcomes. co_stateChanged o1),
     rr_missingKeyIds = distinct_keys (map co_missingKeyId outcomes) [],
     rr_blockedCollections = map co_collection (filter (\<lambda>o1. co_state o1 = StateBlocked) outcomes)\<rparr>"

definition syncCollectionsRound ::
    "'v sync_env \<Rightarrow> nat \<Rightarrow> (collection_name, 'v mutation_input list) jsmap \<Rightarrow> collection_name list \<Rightarrow>
     'v round_result syncing" where
  "syncCollectionsRound E iteration pendingByCollection collections =
    sbind sget (\<lambda>s.
      let activeKey = getActiveSyncKey (sy_store s) in
    sbind (smap (buildCollectionSyncRequest E iteration pendingByCollection activeKey) collections) (\<lambda>requests.
      let outgoings = foldl (\<lambda>m r. case rq_outgoing r of None \<Rightarrow> m | Some og \<Rightarrow> map_set (rq_collection r) og m) [] requests;
          skipped = foldl (\<lambda>acc r. if rq_skippedUpload r then set_add (rq_collection r) acc else acc) [] requests in
    sbind (slift (fetchSyncPayloadByCollection E iteration (buildSyncIqNode E (map rq_node requests)))) (\<lambda>payloads.
    sbind (smap (processCollectionRound E payloads pendingByCollection outgoings skipped) collections) (\<lambda>outcomes.
      sreturn (summarise_round outcomes)))))"

subsection \<open>A synchronisation\<close>

text \<open>The calls of \<open>onMissingKeys\<close>; what the callback throws is logged and dropped.\<close>

type_synonym missing_event = "bytes list \<times> collection_name list"

record 'v sync_run =
  sr_results :: "(collection_name, 'v collection_outcome) jsmap"
  sr_stateChanged :: bool
  sr_events :: "missing_event list"

definition maxSyncIterations :: nat where "maxSyncIterations = 5"

definition retry_outcome :: "collection_name \<Rightarrow> 'v collection_outcome" where
  "retry_outcome collection = createCollectionOutcome collection StateErrorRetry None False False None None"

definition after_round :: "'v sync_run \<Rightarrow> 'v round_result \<Rightarrow> 'v sync_run" where
  "after_round run r =
    \<lparr>sr_results = foldl (\<lambda>m o1. map_set (co_collection o1) o1 m) (sr_results run) (rr_results r),
     sr_stateChanged = (sr_stateChanged run \<or> rr_stateChanged r),
     sr_events = sr_events run @ (if rr_missingKeyIds r \<noteq> [] \<and> rr_blockedCollections r \<noteq> []
       then [(rr_missingKeyIds r, rr_blockedCollections r)] else [])\<rparr>"

text \<open>The \<open>while\<close> loop: the first argument is the number of rounds that are left.\<close>

fun sync_loop ::
    "nat \<Rightarrow> 'v sync_env \<Rightarrow> (collection_name, 'v mutation_input list) jsmap \<Rightarrow> collection_name list \<Rightarrow> 'v sync_run \<Rightarrow>
     'v sync_run syncing" where
  "sync_loop 0 E pendingByCollection collectionsToSync run =
    (if collectionsToSync = [] then sreturn run
     else sreturn (run\<lparr>sr_results :=
       foldl (\<lambda>m c. map_set c (retry_outcome c) m) (sr_results run) collectionsToSync\<rparr>))"
| "sync_loop (Suc left) E pendingByCollection collectionsToSync run =
    (if collectionsToSync = [] then sreturn run
     else sbind (syncCollectionsRound E (maxSyncIterations - left) pendingByCollection collectionsToSync) (\<lambda>r.
       sync_loop left E pendingByCollection (rr_collectionsToRefetch r) (after_round run r)))"

definition persistCollectionUpdates :: "sync_state \<Rightarrow> sync_state" where
  "persistCollectionUpdates s =
    (let updates = List.map_filter (\<lambda>collection.
           map_option (\<lambda>cs. \<lparr>up_collection = collection, up_version = cs_version cs, up_hash = cs_hash cs,
             up_indexValueMap = cs_indexValueMap cs\<rparr>) (map_get (sy_collections s) collection)) (sy_dirty s)
     in if updates = [] then s else s\<lparr>sy_store := setCollectionStates updates (sy_store s)\<rparr>)"

text \<open>\<open>syncOnce\<close>: the results of the collections, in the order of the request, and the missing-key events.\<close>

definition unique_collections :: "collection_name list \<Rightarrow> collection_name list" where
  "unique_collections cs = foldl (\<lambda>acc c. set_add c acc) [] cs"

definition start_state :: "collection_name list \<Rightarrow> app_state_store \<Rightarrow> sync_state" where
  "start_state collections store =
    (let (states, store') = getCollectionStates collections store
     in \<lparr>sy_store = store', sy_keys = [],
         sy_collections = foldl (\<lambda>m (c, cs). map_set c cs m) [] (zip collections states),
         sy_dirty = [], sy_changed = False\<rparr>)"

definition sync_body ::
    "'v sync_env \<Rightarrow> collection_name list \<Rightarrow> 'v mutation_input list \<Rightarrow>
     ('v collection_outcome list \<times> missing_event list) syncing" where
  "sync_body E collections pendingMutations =
    sbind (sync_loop maxSyncIterations E (groupPendingMutations pendingMutations) collections
      \<lparr>sr_results = [], sr_stateChanged = False, sr_events = []\<rparr>) (\<lambda>run.
    sbind (smodify (\<lambda>s. if sr_stateChanged run \<and> sy_dirty s \<noteq> [] then persistCollectionUpdates s else s)) (\<lambda>_.
      sreturn (map (\<lambda>c. nullish (map_get (sr_results run) c) (retry_outcome c)) collections, sr_events run)))"

definition syncOnce ::
    "'v sync_env \<Rightarrow> collection_name list option \<Rightarrow> 'v mutation_input list \<Rightarrow> app_state_store \<Rightarrow>
     (sync_error + ('v collection_outcome list \<times> missing_event list)) \<times> app_state_store" where
  "syncOnce E requested pendingMutations store =
    (let collections = unique_collections (nullish requested APP_STATE_DEFAULT_COLLECTIONS);
         (r, s) = sync_body E collections pendingMutations (start_state collections store)
     in (r, sy_store s))"

subsection \<open>Sync keys\<close>

text \<open>
  \<open>ensureInitialSyncKey\<close>: \<open>epoch\<close>, \<open>keyData\<close> and \<open>rawId\<close> are drawn at random, \<open>now\<close> is the server
  clock.
\<close>

definition key_id_bytes :: "nat \<Rightarrow> nat \<Rightarrow> bytes" where
  "key_id_bytes deviceId epoch =
    [to_u8 (drop_bit 8 deviceId AND 0xff), to_u8 (deviceId AND 0xff), to_u8 (drop_bit 24 epoch AND 0xff),
     to_u8 (drop_bit 16 epoch AND 0xff), to_u8 (drop_bit 8 epoch AND 0xff), to_u8 (epoch AND 0xff)]"

definition ensureInitialSyncKey ::
    "'v sync_env \<Rightarrow> nat \<Rightarrow> bytes \<Rightarrow> int \<Rightarrow> int \<Rightarrow> app_state_store \<Rightarrow> sync_key \<times> app_state_store" where
  "ensureInitialSyncKey E epoch keyData rawId now store =
    (case getActiveSyncKey store of
       Some existing \<Rightarrow> (existing, store)
     | None \<Rightarrow>
         let key = \<lparr>ask_keyId = key_id_bytes (nullish (env_deviceIndex E) 0) epoch, ask_keyData = keyData,
               ask_timestamp = now,
               ask_fingerprint = Some \<lparr>fp_rawId = Some rawId, fp_currentIndex = Some 0, fp_deviceIndexes = [0]\<rparr>\<rparr>
         in (key, snd (upsertSyncKeys [key] 0 store)))"

definition importSyncKeys :: "sync_key list \<Rightarrow> app_state_store \<Rightarrow> nat \<times> app_state_store" where
  "importSyncKeys keys store = upsertSyncKeys keys 0 store"

record shared_key =
  shk_keyId :: "bytes option"
  shk_keyData :: "bytes option"
  shk_timestamp :: "proto_long option"
  shk_fingerprint :: "fingerprint option"

text \<open>An entry without key data is skipped, a malformed one rejects the whole share.\<close>

fun shared_keys :: "int \<Rightarrow> shared_key list \<Rightarrow> sync_error + sync_key list" where
  "shared_keys now [] = Inr []"
| "shared_keys now (item # items) =
    rbind (required_bytes (shk_keyId item)) (\<lambda>keyId.
      case shk_keyData item of
        None \<Rightarrow> shared_keys now items
      | Some keyData \<Rightarrow>
          rbind (case shk_timestamp item of None \<Rightarrow> Inr now | Some l \<Rightarrow> normalizeProtoLong (Some l)) (\<lambda>timestamp.
          rbind (shared_keys now items) (\<lambda>rest.
            Inr (\<lparr>ask_keyId = keyId, ask_keyData = keyData, ask_timestamp = timestamp,
                  ask_fingerprint = shk_fingerprint item\<rparr> # rest))))"

definition importSyncKeyShare ::
    "int \<Rightarrow> shared_key list \<Rightarrow> app_state_store \<Rightarrow> (sync_error + nat) \<times> app_state_store" where
  "importSyncKeyShare now items store =
    (case shared_keys now items of
       Inl e \<Rightarrow> (Inl e, store)
     | Inr keys \<Rightarrow> map_prod Inr id (importSyncKeys keys store))"

text \<open>The requested keys, each id once, without the malformed entries.\<close>

fun extractKeyRequestIds :: "bytes option list \<Rightarrow> jstr list \<Rightarrow> bytes list" where
  "extractKeyRequestIds [] seen = []"
| "extractKeyRequestIds (item # items) seen =
    (case required_bytes item of
       Inl _ \<Rightarrow> extractKeyRequestIds items seen
     | Inr keyId \<Rightarrow>
         if bytesToHex keyId \<in> set seen then extractKeyRequestIds items seen
         else keyId # extractKeyRequestIds items (seen @ [bytesToHex keyId]))"

end
