(* ===== verification/AppStateInvariant.thy ===== *)
theory AppStateInvariant
  imports AppStateSync
begin

text \<open>
  The hash of a collection is always the LT hash of the value MACs in its index map: every step of a
  synchronisation keeps this, in the working copies and in the store, also when the step fails.  The
  store breaks it only where its limit makes it drop index entries.
\<close>

subsection \<open>Maps\<close>

definition all_values :: "('v \<Rightarrow> bool) \<Rightarrow> ('k, 'v) jsmap \<Rightarrow> bool" where
  "all_values P m \<longleftrightarrow> (\<forall>e\<in>set m. P (snd e))"

lemma all_values_Nil [simp]: "all_values P []"
  by (simp add: all_values_def)

lemma all_values_set: "all_values P m \<Longrightarrow> P v \<Longrightarrow> all_values P (map_set k v m)"
  by (induction m) (auto simp: all_values_def map_set_def)

lemma all_values_get: "all_values P m \<Longrightarrow> map_get m k = Some v \<Longrightarrow> P v"
  using map_of_SomeD [of m k v] by (force simp: all_values_def map_get_def)

lemma all_values_foldl:
  "all_values P m \<Longrightarrow> (\<And>a. a \<in> set as \<Longrightarrow> P (g a)) \<Longrightarrow> all_values P (foldl (\<lambda>m a. map_set (f a) (g a) m) m as)"
  by (induction as arbitrary: m) (auto intro: all_values_set)

lemma map_delete_notin: "k \<notin> fst ` set m \<Longrightarrow> map_delete k m = m"
  by (induction m) (auto simp: map_delete_def)

lemma mset_values_delete:
  assumes "jsmap_ok m" "map_get m k = Some v"
  shows "mset (map snd m) = add_mset v (mset (map snd (map_delete k m)))"
  using assms
proof (induction m)
  case (Cons e m)
  show ?case
  proof (cases "fst e = k")
    case True
    then have "map_delete k m = m"
      using Cons.prems(1) by (intro map_delete_notin) (auto simp: jsmap_ok_def)
    with True Cons.prems show ?thesis by (cases e) (simp add: map_get_def map_delete_def)
  next
    case False
    then show ?thesis using Cons by (cases e) (simp add: map_get_def map_delete_def jsmap_ok_def)
  qed
qed (simp add: map_get_def)

lemma mset_values_set:
  assumes "jsmap_ok m"
  shows "map_get m k = None \<Longrightarrow> mset (map snd (map_set k v m)) = add_mset v (mset (map snd m))"
    "map_get m k = Some w \<Longrightarrow> add_mset w (mset (map snd (map_set k v m))) = add_mset v (mset (map snd m))"
proof -
  show "mset (map snd (map_set k v m)) = add_mset v (mset (map snd m))" if "map_get m k = None"
    using that by (simp add: map_set_new)
  show "add_mset w (mset (map snd (map_set k v m))) = add_mset v (mset (map snd m))" if "map_get m k = Some w"
    using assms that
  proof (induction m)
    case (Cons e m)
    then show ?case by (cases e) (auto simp: map_get_def map_set_def jsmap_ok_def)
  qed (simp add: map_get_def)
qed

lemma bounded_copy_eq:
  assumes "jsmap_ok m"
  shows "bounded_copy n m = drop (length m - n) m"
  using assms
proof (induction m rule: rev_induct)
  case (snoc e m)
  obtain k v where e: "e = (k, v)" by (cases e)
  have ok: "jsmap_ok m" "k \<notin> set (map fst m)" using snoc.prems by (auto simp: jsmap_ok_def e)
  then have del: "map_delete k (drop i m) = drop i m" for i
    by (intro map_delete_notin) (auto dest!: in_set_dropD)
  have "bounded_copy n (m @ [e]) = fst (setBoundedMapEntry k v n (bounded_copy n m))"
    by (simp add: bounded_copy_def e)
  also have "\<dots> = drop (Suc (length m) - (length m - n) - n) (drop (length m - n) m @ [(k, v)])"
    unfolding snoc.IH [OF ok(1)] by (simp add: setBoundedMapEntry_eq Let_def del)
  also have "\<dots> = drop (Suc (length m) - n) (m @ [e])"
    by (cases "n \<le> length m") (simp_all add: e Suc_diff_le)
  finally show ?case by simp
qed (simp add: bounded_copy_def)

subsection \<open>Collection states\<close>

definition state_ok :: "crypto \<Rightarrow> collection_state \<Rightarrow> bool" where
  "state_ok C cs \<longleftrightarrow>
    cs_hash cs = lt_hash C (mset (map snd (cs_indexValueMap cs))) \<and> jsmap_ok (cs_indexValueMap cs)"

lemma state_ok_empty: "state_ok C empty_collection"
  using lt_hash_empty [of C] by (simp add: state_ok_def empty_collection_def jsmap_ok_def)

lemma next_loop_mset:
  assumes "next_loop ms m A R = (m', A', R')" "jsmap_ok m"
    and "mset (map snd m) + mset R = B + mset A"
  shows "jsmap_ok m' \<and> mset (map snd m') + mset R' = B + mset A'"
  using assms
proof (induction ms m A R rule: next_loop.induct)
  case (2 mu rest m A R)
  let ?k = "bytesToHex (mm_indexMac mu)"
  show ?case
  proof (cases "map_get m ?k")
    case None
    then have upd: "mset (map snd (map_set ?k (mm_valueMac mu) m)) + mset R = B + mset (A @ [mm_valueMac mu])"
      using 2(6) mset_values_set(1) [OF 2(5) None, of "mm_valueMac mu"] by simp
    show ?thesis
    proof (cases "mm_operation mu = OPERATION_REMOVE")
      case True
      then show ?thesis using 2(1) [OF refl refl True None] 2(4-6) None by (simp add: Let_def)
    next
      case False
      then show ?thesis using 2(3) [OF refl refl False] 2(4,5) None upd by (simp add: Let_def)
    qed
  next
    case (Some w)
    have del: "mset (map snd (map_delete ?k m)) + mset (R @ [w]) = B + mset A"
      using 2(6) mset_values_delete [OF 2(5) Some] by simp
    have upd: "mset (map snd (map_set ?k (mm_valueMac mu) m)) + mset (R @ [w]) = B + mset (A @ [mm_valueMac mu])"
    proof -
      have "mset (map snd (map_set ?k (mm_valueMac mu) m)) + mset (R @ [w]) =
          add_mset w (mset (map snd (map_set ?k (mm_valueMac mu) m))) + mset R" by simp
      also have "\<dots> = add_mset (mm_valueMac mu) (mset (map snd m)) + mset R"
        by (simp only: mset_values_set(2) [OF 2(5) Some])
      also have "\<dots> = B + mset (A @ [mm_valueMac mu])" using 2(6) by simp
      finally show ?thesis .
    qed
    show ?thesis
    proof (cases "mm_operation mu = OPERATION_REMOVE")
      case True
      then show ?thesis
        using 2(2) [OF refl refl True Some] 2(4,5) Some del by (simp add: Let_def)
    next
      case False
      then show ?thesis
        using 2(3) [OF refl refl False] 2(4,5) Some upd by (simp add: Let_def)
    qed
  qed
qed simp

lemma computeNextCollectionState_ok:
  assumes "crypto_laws C" "state_ok C cs"
  obtains hash m where "computeNextCollectionState C (cs_hash cs) (cs_indexValueMap cs) ms = Inr (hash, m)"
    "hash = lt_hash C (mset (map snd m))" "jsmap_ok m"
    "m = fst (next_loop ms (cs_indexValueMap cs) [] [])"
proof -
  let ?B = "mset (map snd (cs_indexValueMap cs))"
  obtain m A R where l: "next_loop ms (cs_indexValueMap cs) [] [] = (m, A, R)"
    by (cases "next_loop ms (cs_indexValueMap cs) [] []") auto
  have m: "jsmap_ok m" "mset (map snd m) + mset R = ?B + mset A"
    using next_loop_mset [OF l, of ?B] assms(2) by (simp_all add: state_ok_def)
  then have sub: "mset R \<subseteq># ?B + mset A" "?B + mset A - mset R = mset (map snd m)"
    by (metis mset_subset_eq_add_right, metis add_diff_cancel_right')
  obtain h where "ltHashSubtractThenAdd C (lt_hash C ?B) A R = Inr (lt_hash C (mset (map snd m)), h)"
    using ltHashSubtractThenAdd_eq [OF assms(1) sub(1)] unfolding sub(2) by blast
  then show thesis
    using l m(1) assms(2)
    by (intro that [of "lt_hash C (mset (map snd m))" m])
      (simp_all add: computeNextCollectionState_def state_ok_def lift_error_def)
qed

subsection \<open>The steps of a synchronisation\<close>

definition store_ok :: "crypto \<Rightarrow> app_state_store \<Rightarrow> bool" where
  "store_ok C store \<longleftrightarrow> all_values (state_ok C) (as_collections store)"

definition sync_ok :: "crypto \<Rightarrow> sync_state \<Rightarrow> bool" where
  "sync_ok C s \<longleftrightarrow> all_values (state_ok C) (sy_collections s) \<and> store_ok C (sy_store s)"

lemma getCollectionState_ok:
  "store_ok C store \<Longrightarrow> state_ok C (fst (getCollectionState c store)) \<and> store_ok C (snd (getCollectionState c store))"
  by (auto simp: getCollectionState_def store_ok_def state_ok_empty
      intro: all_values_get all_values_set split: option.split)

lemma get_state_ok: "sync_ok C s \<Longrightarrow> sync_ok C (snd (get_state c s)) \<and> state_ok C (fst (get_state c s))"
  using getCollectionState_ok [of C "sy_store s" c]
  by (auto simp: get_state_def sync_ok_def split_beta Let_def intro: all_values_get all_values_set split: option.split)

lemma getKeyData_ok: "sync_ok C s \<Longrightarrow> sync_ok C (snd (getKeyData k s))"
  by (simp add: getKeyData_def sync_ok_def Let_def split: option.split)

lemma preloadKeyData_ok: "sync_ok C s \<Longrightarrow> sync_ok C (preloadKeyData ks s)"
  by (simp add: preloadKeyData_def sync_ok_def Let_def)

lemma set_state_ok:
  "sync_ok C s \<Longrightarrow> hash = lt_hash C (mset (map snd m)) \<Longrightarrow> jsmap_ok m \<Longrightarrow> sync_ok C (set_state c v hash m s)"
  by (auto simp: set_state_def sync_ok_def state_ok_def intro!: all_values_set)

text \<open>What a lifted result or a state function returned, for the rest of the sequence.\<close>

lemma ensures_lift_eq: "ensures I (slift r) (\<lambda>a. r = Inr a)"
  by (simp add: ensures_def slift_def)

lemma ensures_get_state: "ensures (sync_ok C) (srun (get_state c)) (state_ok C)"
  by (intro ensures_run) (rule get_state_ok)

lemma ensures_key: "ensures (sync_ok C) (srun (getKeyData k)) (\<lambda>_. True)"
  by (intro ensures_run) (simp add: getKeyData_ok)

lemma ensures_mark: "ensures (sync_ok C) mark_changed (\<lambda>_. True)"
  unfolding mark_changed_def by (intro ensures_modify) (simp_all add: sync_ok_def)

lemma ensures_set_state:
  "hash = lt_hash C (mset (map snd m)) \<Longrightarrow> jsmap_ok m \<Longrightarrow>
    ensures (sync_ok C) (smodify (set_state c v hash m)) (\<lambda>_. True)"
  by (intro ensures_modify) (simp_all add: set_state_ok)

lemma ensures_any: "ensures I m Q \<Longrightarrow> ensures I m (\<lambda>_. True)"
  by (simp add: ensures_def)

lemma ensures_map_any: "(\<And>a. a \<in> set as \<Longrightarrow> ensures I (f a) (\<lambda>_. True)) \<Longrightarrow> ensures I (smap f as) (\<lambda>_. True)"
  by (rule ensures_any [OF ensures_map])

lemma ensures_decrypt_all: "ensures (sync_ok C) (decrypt_all E c src raws) (\<lambda>_. True)"
proof -
  have key: "ensures (sync_ok C) (resolve_key c r) (\<lambda>_. True)" for r
    unfolding resolve_key_def by (rule ensures_bind [OF ensures_key]) (auto split: option.split)
  show ?thesis
    unfolding decrypt_all_def
    by (rule ensures_bind [where Q = "\<lambda>_. True"], (rule ensures_modify; simp add: preloadKeyData_ok))
      (rule ensures_bind [OF ensures_map_any [OF key]], rule ensures_any [OF ensures_lift_eq])
qed

lemma ensures_verification_key: "ensures (sync_ok C) (verification_key E c k) (\<lambda>_. True)"
  unfolding verification_key_def
  by (auto intro!: ensures_bind [OF ensures_lift_eq] ensures_bind [OF ensures_key] split: option.split)

lemma jsmap_ok_index_map: "jsmap_ok (index_map ms)"
proof -
  have "jsmap_ok (foldl (\<lambda>m d. map_set (bytesToHex (am_indexMac d)) (am_valueMac d) m) m ms)" if "jsmap_ok m" for m
    using that by (induction ms arbitrary: m) auto
  then show ?thesis by (simp add: index_map_def jsmap_ok_def)
qed

lemma ensures_applySnapshot:
  assumes "crypto_laws (env_crypto E)"
  shows "ensures (sync_ok (env_crypto E)) (applySnapshot E c snapshot) (\<lambda>_. True)"
proof -
  have hash: "h = lt_hash (env_crypto E) (mset (map snd m))"
    if "lift_error AppCrypto (ltHashAdd (env_crypto E) APP_STATE_EMPTY_LT_HASH (map snd m)) = Inr h" for h m
    using that ltHashAdd_eq [OF assms, of "{#}" "map snd m"] unfolding lt_hash_empty [of "env_crypto E"]
    by (simp add: lift_error_def)
  show ?thesis
    unfolding applySnapshot_def decryptSnapshotRecords_def Let_def
    by (intro ensures_bind [OF ensures_lift_eq] ensures_bind [OF ensures_verification_key]
        ensures_bind [OF ensures_bind [OF ensures_lift_eq ensures_decrypt_all]]
        ensures_bind [OF ensures_set_state] ensures_return hash jsmap_ok_index_map TrueI)
qed

lemma ensures_applyPatch:
  assumes "crypto_laws (env_crypto E)"
  shows "ensures (sync_ok (env_crypto E)) (applyPatch E c patch) (\<lambda>_. True)"
proof -
  let ?I = "sync_ok (env_crypto E)"
  have next_ok: "hash = lt_hash (env_crypto E) (mset (map snd m))" "jsmap_ok m"
    if "state_ok (env_crypto E) cs"
      "computeNextCollectionState (env_crypto E) (cs_hash cs) (cs_indexValueMap cs) ms = Inr (hash, m)" for cs ms hash m
    using computeNextCollectionState_ok [OF assms that(1), of ms] that(2) by auto
  have guard: "ensures ?I (if b then sthrow e else sreturn ()) (\<lambda>_. True)" for b e
    by auto
  show ?thesis
    unfolding applyPatch_def decryptPatchMutations_def
    apply (rule ensures_bind [OF ensures_lift_eq])
    apply (rule ensures_bind [OF ensures_get_state])
    apply (rule ensures_bind [OF guard])
    apply (rule ensures_bind [OF ensures_verification_key])
    apply (rule ensures_bind [OF ensures_bind [OF ensures_lift_eq ensures_decrypt_all]])
    apply (rule ensures_bind [OF ensures_lift_eq])
    apply clarify
    apply (rule ensures_bind [OF ensures_lift_eq])
    apply (rule ensures_bind [OF ensures_set_state])
      apply (erule (1) next_ok(1))
     apply (erule (1) next_ok(2))
    apply (rule ensures_return, rule TrueI)
    done
qed

text \<open>The state that an outgoing patch leads to.\<close>

definition context_ok :: "crypto \<Rightarrow> outgoing_context \<Rightarrow> bool" where
  "context_ok C og \<longleftrightarrow>
    og_nextHash og = lt_hash C (mset (map snd (og_nextIndexValueMap og))) \<and> jsmap_ok (og_nextIndexValueMap og)"

lemma rbind_Inr_cases:
  assumes "rbind m f = Inr b"
  obtains a where "m = Inr a" "f a = Inr b"
  using assms by (cases m) simp_all

lemma buildOutgoingPatch_ok:
  assumes "crypto_laws (env_crypto E)" "state_ok (env_crypto E) cs"
    and "buildOutgoingPatch E random c cs pending key = Inr (patch, og)"
  shows "context_ok (env_crypto E) og"
proof -
  obtain k where key: "key = Some k" using assms(3) by (cases key) (simp_all add: buildOutgoingPatch_def)
  let ?next = "\<lambda>enc. computeNextCollectionState (env_crypto E) (cs_hash cs) (cs_indexValueMap cs) (map mac_of enc)"
  have "\<exists>enc. ?next enc = Inr (og_nextHash og, og_nextIndexValueMap og)"
    using assms(3) unfolding buildOutgoingPatch_def key by (auto simp: Let_def elim!: rbind_Inr_cases)
  then obtain enc where built: "?next enc = Inr (og_nextHash og, og_nextIndexValueMap og)" by blast
  obtain h m where m: "?next enc = Inr (h, m)" "h = lt_hash (env_crypto E) (mset (map snd m))" "jsmap_ok m"
    by (rule computeNextCollectionState_ok [OF assms(1,2)])
  have "og_nextHash og = h" "og_nextIndexValueMap og = m" using built m(1) by simp_all
  with m(2,3) show ?thesis by (simp add: context_ok_def)
qed

lemma ensures_if: "(b \<Longrightarrow> ensures I m Q) \<Longrightarrow> (\<not> b \<Longrightarrow> ensures I m' Q) \<Longrightarrow> ensures I (if b then m else m') Q"
  by simp

lemma ensures_request:
  assumes "crypto_laws (env_crypto E)"
  shows "ensures (sync_ok (env_crypto E)) (buildCollectionSyncRequest E i pending key c)
    (\<lambda>r. case rq_outgoing r of None \<Rightarrow> True | Some og \<Rightarrow> context_ok (env_crypto E) og)"
  unfolding buildCollectionSyncRequest_def Let_def
  apply (rule ensures_bind [OF ensures_get_state])
  apply (intro ensures_if)
    apply (rule ensures_return, simp)
   apply (rule ensures_return, simp)
  apply (rule ensures_bind [OF ensures_lift_eq])
  apply clarify
  apply (simp only: collection_request.simps option.case)
  apply (rule buildOutgoingPatch_ok [OF assms], assumption+)
  done

lemma ensures_snapshot_step:
  assumes "crypto_laws (env_crypto E)"
  shows "ensures (sync_ok (env_crypto E)) (snapshot_step E payload) (\<lambda>_. True)"
  unfolding snapshot_step_def
  by (auto intro!: ensures_bind [OF ensures_lift_eq] ensures_bind [OF ensures_applySnapshot [OF assms]]
      ensures_bind [OF ensures_mark] split: option.split)

lemma ensures_apply_patches:
  assumes "crypto_laws (env_crypto E)"
  shows "ensures (sync_ok (env_crypto E)) (apply_patches E c ps) (\<lambda>_. True)"
proof (induction ps)
  case (Cons p ps)
  then show ?case
    by (auto intro!: ensures_bind [OF ensures_applyPatch [OF assms]] ensures_bind [OF ensures_mark] ensures_bind [OF Cons])
qed auto

lemma ensures_process:
  assumes "crypto_laws (env_crypto E)" "\<And>og. outgoing = Some og \<Longrightarrow> context_ok (env_crypto E) og"
  shows "ensures (sync_ok (env_crypto E)) (process_payload E c payload outgoing) (\<lambda>_. True)"
proof -
  let ?I = "sync_ok (env_crypto E)"
  have own: "ensures ?I (accept_own payload outgoing) (\<lambda>_. True)"
    using assms(2) unfolding accept_own_def context_ok_def
    by (auto intro!: ensures_bind [OF ensures_set_state] ensures_mark split: option.split)
  have patches: "ensures ?I (patches_step E payload outgoing) (\<lambda>_. True)"
    unfolding patches_step_def
    by (auto intro!: ensures_bind [OF ensures_lift_eq] ensures_apply_patches [OF assms(1)] ensures_bind [OF own])
  have init: "ensures ?I (initialise_step c payload) (\<lambda>_. True)"
    unfolding initialise_step_def
    by (rule ensures_bind [OF ensures_get_state])
      (auto intro!: ensures_bind [OF ensures_set_state] ensures_mark simp: state_ok_def)
  show ?thesis
    unfolding process_payload_def
    by (auto intro!: ensures_bind [OF ensures_snapshot_step [OF assms(1)]] ensures_bind [OF patches] ensures_bind [OF init])
qed

lemma ensures_round_collection:
  assumes "crypto_laws (env_crypto E)" "all_values (context_ok (env_crypto E)) outgoings"
  shows "ensures (sync_ok (env_crypto E)) (processCollectionRound E payloads pending outgoings skipped c) (\<lambda>_. True)"
proof (rule yieldsI)
  fix s assume s: "sync_ok (env_crypto E) s"
  have "sync_ok (env_crypto E) (s\<lparr>sy_changed := False\<rparr>)" using s by (simp add: sync_ok_def)
  then have "sync_ok (env_crypto E) (snd (process_payload E c payload (map_get outgoings k) (s\<lparr>sy_changed := False\<rparr>)))" for payload k
    by (intro yieldsD(1) [OF ensures_process [OF assms(1)]] all_values_get [OF assms(2)])
  with s show "sync_ok (env_crypto E) (snd (processCollectionRound E payloads pending outgoings skipped c s))"
    by (simp add: processCollectionRound_def Let_def split_beta split: option.split)
qed simp

lemma ensures_round:
  assumes "crypto_laws (env_crypto E)"
  shows "ensures (sync_ok (env_crypto E)) (syncCollectionsRound E i pending cs) (\<lambda>_. True)"
proof -
  have outgoings: "all_values (context_ok (env_crypto E))
      (foldl (\<lambda>m r. case rq_outgoing r of None \<Rightarrow> m | Some og \<Rightarrow> map_set (rq_collection r) og m) m requests)"
    if "\<forall>r\<in>set requests. case rq_outgoing r of None \<Rightarrow> True | Some og \<Rightarrow> context_ok (env_crypto E) og"
      "all_values (context_ok (env_crypto E)) m" for requests m
    using that by (induction requests arbitrary: m) (auto intro: all_values_set split: option.splits)
  show ?thesis
    unfolding syncCollectionsRound_def Let_def
    apply (rule ensures_bind [where Q = "\<lambda>_. True"])
     apply (rule ensures_get, rule TrueI)
    apply (rule ensures_bind [OF ensures_map [OF ensures_request [OF assms]]])
    apply (rule ensures_bind [OF ensures_lift_eq])
    apply (rule ensures_bind [OF ensures_map_any [OF ensures_round_collection [OF assms]]])
     apply (rule outgoings)
      apply (erule conjunct2)
     apply (rule all_values_Nil)
    apply (rule ensures_return, rule TrueI)
    done
qed

lemma ensures_loop:
  assumes "crypto_laws (env_crypto E)"
  shows "ensures (sync_ok (env_crypto E)) (sync_loop left E pending cs run) (\<lambda>_. True)"
proof (induction left arbitrary: cs run)
  case 0
  then show ?case by auto
next
  case (Suc left)
  then show ?case by (auto intro!: ensures_bind [OF ensures_round [OF assms]])
qed

subsection \<open>Saving\<close>

text \<open>A state whose hash may only be off because the store has dropped index entries.\<close>

definition saved_ok :: "crypto \<Rightarrow> nat \<Rightarrow> collection_state \<Rightarrow> bool" where
  "saved_ok C n cs \<longleftrightarrow> state_ok C cs \<or> length (cs_indexValueMap cs) = n"

definition update_ok :: "crypto \<Rightarrow> state_update \<Rightarrow> bool" where
  "update_ok C u \<longleftrightarrow> up_hash u = lt_hash C (mset (map snd (up_indexValueMap u))) \<and> jsmap_ok (up_indexValueMap u)"

lemma set_collection_state_ok:
  assumes "update_ok C u" "all_values (saved_ok C (as_maxCollectionEntries s)) (as_collections s)"
  shows "all_values (saved_ok C (as_maxCollectionEntries s)) (as_collections (set_collection_state s u))"
proof -
  have "length (bounded_copy (as_maxCollectionEntries s) (up_indexValueMap u)) = as_maxCollectionEntries s \<or>
      bounded_copy (as_maxCollectionEntries s) (up_indexValueMap u) = up_indexValueMap u"
    using assms(1) by (cases "length (up_indexValueMap u) \<le> as_maxCollectionEntries s")
      (simp_all add: bounded_copy_eq update_ok_def)
  then show ?thesis
    using assms by (auto simp: set_collection_state_def saved_ok_def state_ok_def update_ok_def intro!: all_values_set)
qed

lemma setCollectionStates_ok:
  assumes "\<forall>u\<in>set updates. update_ok C u" "all_values (saved_ok C (as_maxCollectionEntries s)) (as_collections s)"
  shows "all_values (saved_ok C (as_maxCollectionEntries s)) (as_collections (setCollectionStates updates s))"
  using assms
proof (induction updates arbitrary: s)
  case (Cons u updates)
  have "as_maxCollectionEntries (set_collection_state s u) = as_maxCollectionEntries s"
    by (simp add: set_collection_state_def)
  then show ?case
    using Cons.IH [of "set_collection_state s u"] Cons.prems set_collection_state_ok [of C u s]
    by (simp add: setCollectionStates_def)
qed (simp add: setCollectionStates_def)

lemma persist_updates_ok:
  assumes "sync_ok C s"
  shows "all_values (saved_ok C (as_maxCollectionEntries (sy_store s))) (as_collections (sy_store (persistCollectionUpdates s)))"
proof -
  let ?u = "\<lambda>c. map_option (\<lambda>cs. \<lparr>up_collection = c, up_version = cs_version cs, up_hash = cs_hash cs,
    up_indexValueMap = cs_indexValueMap cs\<rparr>) (map_get (sy_collections s) c)"
  have saved: "all_values (saved_ok C n) (as_collections (sy_store s))" for n
    using assms by (auto simp: sync_ok_def store_ok_def all_values_def saved_ok_def)
  have "update_ok C u" if "?u c = Some u" for u c
    using that assms all_values_get [of "state_ok C" "sy_collections s" c]
    by (auto simp: update_ok_def sync_ok_def state_ok_def)
  then have "\<forall>u\<in>set (List.map_filter ?u (sy_dirty s)). update_ok C u"
    unfolding map_filter_def by fastforce
  then show ?thesis
    using setCollectionStates_ok [OF _ saved] saved by (simp add: persistCollectionUpdates_def Let_def)
qed

lemma start_state_ok:
  assumes "store_ok C store"
  shows "sync_ok C (start_state collections store)"
proof -
  have states: "store_ok C (snd (getCollectionStates cs store)) \<and> (\<forall>st\<in>set (fst (getCollectionStates cs store)). state_ok C st)"
    if "store_ok C store" for cs store
    using that
  proof (induction cs arbitrary: store)
    case (Cons c cs)
    have ok: "state_ok C (fst (getCollectionState c store))" "store_ok C (snd (getCollectionState c store))"
      using getCollectionState_ok [OF Cons.prems] by blast+
    then show ?case using Cons.IH [OF ok(2)] by (simp add: split_beta)
  qed simp
  have fold: "all_values (state_ok C) (foldl (\<lambda>m (c, cs). map_set c cs m) m es)"
    if "all_values (state_ok C) m" "\<forall>e\<in>set es. state_ok C (snd e)" for m and es :: "(collection_name \<times> collection_state) list"
    using that by (induction es arbitrary: m) (auto simp: all_values_set)
  have "\<forall>e\<in>set (zip collections (fst (getCollectionStates collections store))). state_ok C (snd e)"
    using states [OF assms] by (auto dest: set_zip_rightD)
  then show ?thesis
    using states [OF assms] by (auto simp: start_state_def sync_ok_def split_beta intro!: fold)
qed

lemma limit_unchanged:
  "as_maxCollectionEntries (setCollectionStates updates store) = as_maxCollectionEntries store"
  by (induction updates arbitrary: store) (simp_all add: setCollectionStates_def set_collection_state_def)

lemma syncOnce_saved_ok:
  assumes "crypto_laws (env_crypto E)" "store_ok (env_crypto E) store"
    and "syncOnce E requested pending store = (r, store')"
  shows "all_values (saved_ok (env_crypto E) (as_maxCollectionEntries store')) (as_collections store')"
proof -
  let ?C = "env_crypto E"
  let ?save = "\<lambda>run s. if sr_stateChanged run \<and> sy_dirty s \<noteq> [] then persistCollectionUpdates s else s"
  define collections where "collections = unique_collections (nullish requested APP_STATE_DEFAULT_COLLECTIONS)"
  define loop where "loop = sync_loop maxSyncIterations E (groupPendingMutations pending) collections
      \<lparr>sr_results = [], sr_stateChanged = False, sr_events = []\<rparr> (start_state collections store)"
  have ok: "sync_ok ?C (snd loop)"
    unfolding loop_def by (rule yieldsD(1) [OF ensures_loop [OF assms(1)] start_state_ok [OF assms(2)]])
  have saved: "all_values (saved_ok ?C n) (as_collections (sy_store (snd loop)))" for n
    using ok by (auto simp: sync_ok_def store_ok_def all_values_def saved_ok_def)
  have limit: "as_maxCollectionEntries (sy_store (persistCollectionUpdates s)) = as_maxCollectionEntries (sy_store s)" for s
    by (simp add: persistCollectionUpdates_def Let_def limit_unchanged)
  have store': "store' = (case fst loop of Inl _ \<Rightarrow> sy_store (snd loop) | Inr run \<Rightarrow> sy_store (?save run (snd loop)))"
    using assms(3) unfolding syncOnce_def sync_body_def collections_def [symmetric] Let_def
    by (auto simp: loop_def [symmetric] sbind_def smodify_def sreturn_def split: prod.splits sum.splits)
  show ?thesis
    using persist_updates_ok [OF ok] saved unfolding store' by (auto simp: limit split: sum.split)
qed

end
