(* ===== verification/AppStateReplica.thy ===== *)
theory AppStateReplica
  imports AppStateInvariant
begin

text \<open>
  Patches between replicas: what \<open>buildOutgoingPatch\<close> builds is accepted by \<open>applyPatch\<close> of a client
  with the same collection state and the key, and both end in the same state.
\<close>

subsection \<open>Keys\<close>

lemma bytesToHex_inject: "bytesToHex a = bytesToHex b \<longleftrightarrow> a = b"
proof
  assume "bytesToHex a = bytesToHex b"
  then have "hexToBytes (bytesToHex a) = hexToBytes (bytesToHex b)" by (rule arg_cong)
  then show "a = b" by (simp only: hexToBytes_bytesToHex sum.inject)
qed (rule arg_cong)

definition has_key :: "bytes \<Rightarrow> bytes \<Rightarrow> sync_state \<Rightarrow> bool" where
  "has_key keyId keyData s \<longleftrightarrow> fst (getKeyData keyId s) = Some keyData"

lemma has_key_iff:
  "has_key i k s \<longleftrightarrow> map_get (sy_keys s) (bytesToHex i) = Some (Some k) \<or>
    map_get (sy_keys s) (bytesToHex i) = None \<and> getSyncKeyData i (sy_store s) = Some k"
  by (auto simp: has_key_def getKeyData_def Let_def split: option.split)

lemma getKeyData_frame:
  "sy_store (snd (getKeyData i s)) = sy_store s" "sy_collections (snd (getKeyData i s)) = sy_collections s"
  "sy_dirty (snd (getKeyData i s)) = sy_dirty s"
  "has_key j k s \<Longrightarrow> has_key j k (snd (getKeyData i s))"
  by (auto simp: getKeyData_def has_key_iff Let_def bytesToHex_inject split: option.split)

lemma set_missing_keys: "i \<in> set (missing_keys ids seen s) \<Longrightarrow> map_get (sy_keys s) (bytesToHex i) = None"
  by (induction ids arbitrary: seen) (auto simp: Let_def split: if_splits)

lemma loaded_keys:
  "map_get (foldl (\<lambda>m (i, v). map_set (bytesToHex i) v m) m (zip ids (map f ids))) (bytesToHex j) =
    (if j \<in> set ids then Some (f j) else map_get m (bytesToHex j))"
  by (induction ids arbitrary: m) (auto simp: bytesToHex_inject)

lemma preloadKeyData_frame:
  "sy_store (preloadKeyData ids s) = sy_store s" "sy_collections (preloadKeyData ids s) = sy_collections s"
  "sy_dirty (preloadKeyData ids s) = sy_dirty s"
  "has_key j k s \<Longrightarrow> has_key j k (preloadKeyData ids s)"
proof -
  show "sy_store (preloadKeyData ids s) = sy_store s" "sy_collections (preloadKeyData ids s) = sy_collections s"
    "sy_dirty (preloadKeyData ids s) = sy_dirty s"
    by (simp_all add: preloadKeyData_def Let_def)
  have "map_get (sy_keys (preloadKeyData ids s)) (bytesToHex j) \<in>
      {map_get (sy_keys s) (bytesToHex j), Some (getSyncKeyData j (sy_store s))}"
    using loaded_keys [of "sy_keys s" "missing_keys ids [] s" "\<lambda>i. getSyncKeyData i (sy_store s)" j]
    by (simp add: preloadKeyData_def Let_def getSyncKeyDataBatch_def)
  moreover have "map_get (sy_keys (preloadKeyData ids s)) (bytesToHex j) = map_get (sy_keys s) (bytesToHex j)"
    if "map_get (sy_keys s) (bytesToHex j) \<noteq> None"
    using loaded_keys [of "sy_keys s" "missing_keys ids [] s" "\<lambda>i. getSyncKeyData i (sy_store s)" j]
      set_missing_keys [of j ids "[]" s] that
    by (auto simp: preloadKeyData_def Let_def getSyncKeyDataBatch_def)
  ultimately show "has_key j k s \<Longrightarrow> has_key j k (preloadKeyData ids s)"
    by (auto simp: has_key_iff preloadKeyData_def Let_def)
qed

text \<open>The parts of the state that reading keys leaves alone.\<close>

definition same_collections :: "sync_state \<Rightarrow> sync_state \<Rightarrow> bool" where
  "same_collections s t \<longleftrightarrow> sy_store t = sy_store s \<and> sy_collections t = sy_collections s \<and> sy_dirty t = sy_dirty s
    \<and> (\<forall>i k. has_key i k s \<longrightarrow> has_key i k t)"

lemma same_collections_refl: "same_collections s s"
  by (simp add: same_collections_def)

lemma same_collections_trans: "same_collections s t \<Longrightarrow> same_collections t u \<Longrightarrow> same_collections s u"
  by (simp add: same_collections_def)

lemma same_collections_key: "same_collections s (snd (getKeyData i s))"
  by (simp add: same_collections_def getKeyData_frame)

lemma same_collections_preload: "same_collections s (preloadKeyData ids s)"
  by (simp add: same_collections_def preloadKeyData_frame)

lemma run_key:
  assumes "has_key i k s"
  obtains t where "srun (getKeyData i) s = (Inr (Some k) :: sync_error + bytes option, t)" "same_collections s t"
  using assms same_collections_key [of s i]
  by (intro that [of "snd (getKeyData i s)"]) (simp_all add: srun_def has_key_def split_beta)

lemma resolve_keys:
  assumes "\<forall>r\<in>set raws. has_key (rm_keyId r) (f r) s"
  shows "\<exists>t. smap (resolve_key c) raws s = (Inr (map (\<lambda>r. (r, f r)) raws), t) \<and> same_collections s t"
  using assms
proof (induction raws arbitrary: s)
  case Nil
  then show ?case by (auto simp: sreturn_def same_collections_refl)
next
  case (Cons r raws)
  obtain t where t: "srun (getKeyData (rm_keyId r)) s = (Inr (Some (f r)) :: sync_error + bytes option, t)" "same_collections s t"
    using Cons.prems by (auto intro: run_key)
  have "\<forall>r\<in>set raws. has_key (rm_keyId r) (f r) t" using Cons.prems t(2) by (auto simp: same_collections_def)
  then obtain u where u: "smap (resolve_key c) raws t = (Inr (map (\<lambda>r. (r, f r)) raws), u)" "same_collections t u"
    using Cons.IH by blast
  have "resolve_key c r s = (Inr (r, f r), t)" using t(1) by (simp add: resolve_key_def sbind_def sreturn_def)
  then show ?case using u t(2) by (auto simp: sreturn_def intro: same_collections_trans)
qed

subsection \<open>Mutations of a patch\<close>

definition raw_of :: "bytes \<Rightarrow> nat \<times> encrypted_mutation \<Rightarrow> raw_mutation" where
  "raw_of keyId ce = \<lparr>rm_operationCode = fst ce, rm_indexMac = em_indexMac (snd ce),
    rm_valueBlob = em_valueBlob (snd ce), rm_keyId = keyId\<rparr>"

lemma parse_syncd_of: "rmap parse_mutation (map (syncd_of keyId) ces) = Inr (map (raw_of keyId) ces)"
  by (induction ces) (simp_all add: parse_mutation_def parse_record_def syncd_of_def raw_of_def required_bytes_def
      decodeProtoBytes_def lift_error_def)

text \<open>The encrypted mutation \<open>ce\<close> is read back as \<open>am\<close>.\<close>

definition readable ::
    "'v sync_env \<Rightarrow> collection_name \<Rightarrow> bytes \<Rightarrow> bytes \<Rightarrow> nat \<times> encrypted_mutation \<Rightarrow> 'v app_mutation \<Rightarrow> bool" where
  "readable E c keyId k ce am \<longleftrightarrow>
    decrypt_raw E c FromPatch (raw_of keyId ce, k) = Inr am \<and> am_operationCode am = fst ce \<and>
    am_indexMac am = em_indexMac (snd ce) \<and> am_valueMac am = em_valueMac (snd ce)"

lemma decrypt_readable:
  assumes "list_all2 (readable E c keyId k) ces ams"
  shows "rmap (decrypt_raw E c FromPatch) (map (\<lambda>r. (r, k)) (map (raw_of keyId) ces)) = Inr ams"
    "map to_mac_mutation ams = map mac_of ces" "map am_valueMac ams = map (em_valueMac \<circ> snd) ces"
  using assms
  by (induction rule: list_all2_induct) (auto simp: readable_def to_mac_mutation_def mac_of_def)

lemma decryptPatchMutations_readable:
  assumes "list_all2 (readable E c keyId k) ces ams" "has_key keyId k s"
    and "syp_mutations patch = map (syncd_of keyId) ces"
  shows "\<exists>t. decryptPatchMutations E c patch s = (Inr ams, t) \<and> same_collections s t"
proof -
  let ?raws = "map (raw_of keyId) ces"
  let ?s1 = "preloadKeyData (map rm_keyId ?raws) s"
  have "\<forall>r\<in>set ?raws. has_key (rm_keyId r) k ?s1"
    using assms(2) by (auto simp: raw_of_def preloadKeyData_frame)
  then obtain t where t: "smap (resolve_key c) ?raws ?s1 = (Inr (map (\<lambda>r. (r, k)) ?raws), t)" "same_collections ?s1 t"
    using resolve_keys [where f = "\<lambda>_. k"] by blast
  then show ?thesis
    using same_collections_trans [OF same_collections_preload t(2)]
    by (intro exI [of _ t])
      (simp add: decryptPatchMutations_def decrypt_all_def assms(3) parse_syncd_of decrypt_readable [OF assms(1)]
        sbind_def slift_def smodify_def del: map_map)
qed

lemma verification_key_run:
  assumes "has_key keyId k s"
  shows "\<exists>t. verification_key E c (Some keyId) s = (Inr (if env_skipMac E then None else Some k), t) \<and> same_collections s t"
proof (cases "env_skipMac E")
  case True
  then show ?thesis by (auto simp: verification_key_def sreturn_def same_collections_refl)
next
  case False
  obtain t where "srun (getKeyData keyId) s = (Inr (Some k) :: sync_error + bytes option, t)" "same_collections s t" using run_key [OF assms] .
  with False show ?thesis
    by (auto simp: verification_key_def required_bytes_def decodeProtoBytes_def lift_error_def sbind_def slift_def sreturn_def)
qed

text \<open>A patch with readable mutations, matching MACs and the next version is applied.\<close>

lemma applyPatch_accepts:
  fixes E :: "'v sync_env"
  defines "C \<equiv> env_crypto E"
  assumes "list_all2 (readable E c keyId k) ces ams" "has_key keyId k s"
    and "map_get (sy_collections s) c = Some cs"
    and "syp_mutations patch = map (syncd_of keyId) ces" "syp_keyId patch = Some keyId"
    and "normalizeProtoLong (syp_version patch) = Inr (cs_version cs + 1)"
    and "computeNextCollectionState C (cs_hash cs) (cs_indexValueMap cs) (map mac_of ces) = Inr (h, m)"
    and "syp_snapshotMac patch = Some sm" "syp_patchMac patch = Some pm"
    and "snapshot_mac_with C (derive_fresh C k) h (cs_version cs + 1) (collection_value c) = Inr sm'"
    and "patch_mac_with C (derive_fresh C k) sm (map (em_valueMac \<circ> snd) ces) (cs_version cs + 1) (collection_value c) = Inr pm"
  shows "\<exists>t. applyPatch E c patch s = (Inr ams, set_state c (cs_version cs + 1) h m t) \<and> same_collections s t"
proof -
  obtain t1 where t1: "verification_key E c (Some keyId) s = (Inr (if env_skipMac E then None else Some k), t1)"
      "same_collections s t1" using verification_key_run [OF assms(3)] by blast
  then have "has_key keyId k t1" using assms(3) by (simp add: same_collections_def)
  then obtain t2 where t2: "decryptPatchMutations E c patch t1 = (Inr ams, t2)" "same_collections t1 t2"
    using decryptPatchMutations_readable [OF assms(2) _ assms(5)] by blast
  have cur: "srun (get_state c) s = (Inr cs :: sync_error + collection_state, s)" using assms(4) by (simp add: srun_def get_state_def)
  have macs: "assertPatchMacsMatch E patch c k (cs_version cs + 1) h (map am_valueMac ams) = Inr ()"
    using assms(8-12) unfolding C_def
    by (simp add: assertPatchMacsMatch_def required_bytes_def decodeProtoBytes_def lift_error_def Let_def
        decrypt_readable(3) [OF assms(2)] uint8TimingSafeEqual_iff)
  have "applyPatch E c patch s = (Inr ams, set_state c (cs_version cs + 1) h m t2)"
    using t1(1) t2(1) cur macs assms(6-8) unfolding C_def
    by (simp add: applyPatch_def sbind_def slift_def sreturn_def smodify_def decrypt_readable(2) [OF assms(2)])
  then show ?thesis using same_collections_trans [OF t1(2) t2(2)] by blast
qed

subsection \<open>A patch of one client is applied by another\<close>

definition valid_value :: "'v action_codec \<Rightarrow> 'v option \<Rightarrow> bool" where
  "valid_value A v \<longleftrightarrow>
    (case v of None \<Rightarrow> True
     | Some w \<Rightarrow> (case value_timestamp A w of None \<Rightarrow> True | Some l \<Rightarrow> \<bar>long_value l\<bar> \<le> int MAX_SAFE_INTEGER))"

definition valid_input :: "'v action_codec \<Rightarrow> 'v mutation_input \<Rightarrow> bool" where
  "valid_input A m \<longleftrightarrow> int32 (mi_version m) \<and> utf8_safe (mi_index m) \<and> valid_value A (operation_value (mi_operation m))"

lemma operation_code_cases: "operation_code op \<in> {OPERATION_SET, OPERATION_REMOVE}"
  by (cases op) (simp_all add: operation_code_def)

text \<open>An encrypted action, however it came about, is read back by a client with the same keys.\<close>

lemma readable_encrypted:
  assumes "crypto_laws (env_crypto E)" "action_laws (env_actions E)" "length random = APP_STATE_IV_LENGTH"
    and "operation \<in> {OPERATION_SET, OPERATION_REMOVE}" "int32 version" "utf8_safe index" "valid_value (env_actions E) v"
  obtains e am where
    "encrypt_with (env_crypto E) (env_actions E) (derive_fresh (env_crypto E) k) operation keyId index v version None random = Inr e"
    "readable E c keyId k (operation, e) am"
    "am_index am = index" "am_value am = v" "am_version am = version" "am_operationCode am = operation"
    "em_indexMac e = generateIndexMac (env_crypto E) (indexHmacKey (derive_fresh (env_crypto E) k)) (text_encode index)"
proof -
  let ?C = "env_crypto E" and ?A = "env_actions E"
  obtain e where e: "encrypt_with ?C ?A (derive_fresh ?C k) operation keyId index v version None random = Inr e"
    "decrypt_with ?C ?A (env_skipMac E) (derive_fresh ?C k) operation keyId (em_indexMac e) (em_valueBlob e) =
      Inr \<lparr>dm_index = index, dm_value = v, dm_version = version, dm_indexMac = em_indexMac e, dm_valueMac = em_valueMac e\<rparr>"
    "em_indexMac e = generateIndexMac ?C (indexHmacKey (derive_fresh ?C k)) (text_encode index)"
    "APP_STATE_IV_LENGTH + APP_STATE_VALUE_MAC_LENGTH \<le> length (em_valueBlob e)"
    by (rule encrypt_decrypt_with [OF assms(1-4) derived_lengths [OF assms(1)] assms(5,6)])
  obtain ts where ts: "normalizeProtoLong (case v of None \<Rightarrow> None | Some w \<Rightarrow> value_timestamp ?A w) = Inr ts"
    using assms(7) by (auto simp: valid_value_def normalizeProtoLong_def split: option.splits)
  show thesis
    by (rule that [OF e(1), of "\<lparr>am_collection = c, am_operationCode = operation, am_source = FromPatch, am_index = index,
        am_value = v, am_version = version, am_indexMac = em_indexMac e, am_valueMac = em_valueMac e, am_keyId = keyId,
        am_timestamp = ts\<rparr>"])
      (use e ts in \<open>simp_all add: readable_def raw_of_def decrypt_raw_def lift_error_def\<close>)
qed

lemma encrypt_inputs:
  assumes "crypto_laws (env_crypto E)" "action_laws (env_actions E)"
    and "env_crypto F = env_crypto E" "env_actions F = env_actions E"
    and "\<forall>(m, r)\<in>set inputs. valid_input (env_actions E) m \<and> length r = APP_STATE_IV_LENGTH"
  shows "\<exists>ces ams. rmap (encrypt_input E key) inputs = Inr ces \<and>
    list_all2 (readable F c (ask_keyId key) (ask_keyData key)) ces ams \<and>
    map (\<lambda>am. (am_index am, am_value am, am_version am, am_operationCode am)) ams =
      map (\<lambda>(m, r). (mi_index m, operation_value (mi_operation m), mi_version m, operation_code (mi_operation m))) inputs"
  using assms(5)
proof (induction inputs)
  case (Cons mr inputs)
  obtain m r where mr: "mr = (m, r)" by (cases mr)
  then have valid: "valid_input (env_actions E) m" "length r = APP_STATE_IV_LENGTH" using Cons.prems by auto
  obtain e am where e: "encrypt_with (env_crypto F) (env_actions F) (derive_fresh (env_crypto F) (ask_keyData key))
        (operation_code (mi_operation m)) (ask_keyId key) (mi_index m) (operation_value (mi_operation m)) (mi_version m) None r = Inr e"
      "readable F c (ask_keyId key) (ask_keyData key) (operation_code (mi_operation m), e) am"
      "am_index am = mi_index m" "am_value am = operation_value (mi_operation m)" "am_version am = mi_version m"
      "am_operationCode am = operation_code (mi_operation m)"
    by (rule readable_encrypted [where E = F and random = r and operation = "operation_code (mi_operation m)"
          and v = "operation_value (mi_operation m)" and index = "mi_index m" and version = "mi_version m"
          and k = "ask_keyData key" and keyId = "ask_keyId key" and c = c])
      (use assms(1-4) valid operation_code_cases in \<open>simp_all add: valid_input_def\<close>)
  obtain ces ams where IH: "rmap (encrypt_input E key) inputs = Inr ces"
    "list_all2 (readable F c (ask_keyId key) (ask_keyData key)) ces ams"
    "map (\<lambda>am. (am_index am, am_value am, am_version am, am_operationCode am)) ams =
      map (\<lambda>(m, r). (mi_index m, operation_value (mi_operation m), mi_version m, operation_code (mi_operation m))) inputs"
    using Cons.IH Cons.prems by auto
  have "rmap (encrypt_input E key) (mr # inputs) = Inr ((operation_code (mi_operation m), e) # ces)"
    using e(1) IH(1) assms(3,4) by (simp add: mr encrypt_input_def lift_error_def)
  then show ?case
    using e IH by (intro exI [of _ "(operation_code (mi_operation m), e) # ces"] exI [of _ "am # ams"]) (simp add: mr)
qed simp

lemma version_bytes_ok:
  "0 \<le> v \<Longrightarrow> v \<le> int MAX_SAFE_INTEGER \<Longrightarrow> \<exists>b. version_bytes v = Inr b"
  by (auto simp: version_bytes_def intToBytes_def isSafeInteger_def)

text \<open>
  C9: a patch that one client builds from its pending mutations, with the version the server gives
  it, is applied by every client with the same state of the collection and the sync key: it reads
  the same mutations, in their order, and ends with the hash and the index map that the sender has
  computed for itself.
\<close>

theorem outgoing_patch_accepted:
  assumes "crypto_laws (env_crypto E)" "action_laws (env_actions E)"
    and "env_crypto F = env_crypto E" "env_actions F = env_actions E"
    and "state_ok (env_crypto E) cs" "0 \<le> cs_version cs" "cs_version cs < int MAX_SAFE_INTEGER"
    and "\<forall>m\<in>set pending. valid_input (env_actions E) m" "\<forall>i. length (random i) = APP_STATE_IV_LENGTH"
    and "has_key (ask_keyId key) (ask_keyData key) s" "map_get (sy_collections s) c = Some cs"
  shows "\<exists>patch og ms t. buildOutgoingPatch E random c cs pending (Some key) = Inr (patch, og) \<and>
    applyPatch F c (patch\<lparr>syp_version := Some (LongNumber (cs_version cs + 1))\<rparr>) s = (Inr ms, t) \<and>
    map (\<lambda>m. (am_index m, am_value m, am_version m, am_operationCode m)) ms =
      map (\<lambda>m. (mi_index m, operation_value (mi_operation m), mi_version m, operation_code (mi_operation m))) pending \<and>
    map_get (sy_collections t) c = Some \<lparr>cs_initialized = True, cs_version = og_patchVersion og,
      cs_hash = og_nextHash og, cs_indexValueMap = og_nextIndexValueMap og\<rparr>"
proof -
  let ?C = "env_crypto E" and ?n = "collection_value c" and ?v = "cs_version cs + 1"
  let ?keys = "derive_fresh ?C (ask_keyData key)"
  let ?inputs = "zip pending (map random [0..<length pending])"
  have "\<forall>(m, r)\<in>set ?inputs. valid_input (env_actions E) m \<and> length r = APP_STATE_IV_LENGTH"
    using assms(8,9) by (auto simp: set_zip)
  then obtain ces ams where ces: "rmap (encrypt_input E key) ?inputs = Inr ces"
      "list_all2 (readable F c (ask_keyId key) (ask_keyData key)) ces ams"
      "map (\<lambda>am. (am_index am, am_value am, am_version am, am_operationCode am)) ams =
        map (\<lambda>(m, r). (mi_index m, operation_value (mi_operation m), mi_version m, operation_code (mi_operation m))) ?inputs"
    using encrypt_inputs [OF assms(1-4)] by blast
  have inputs: "map (\<lambda>(m, r). f m) ?inputs = map f pending" for f :: "_ \<Rightarrow> 'z"
    by (simp add: map_zip_map split_def map_fst_zip_take flip: map_map [of f fst, unfolded comp_def])
  obtain h m where next1: "computeNextCollectionState ?C (cs_hash cs) (cs_indexValueMap cs) (map mac_of ces) = Inr (h, m)"
    using computeNextCollectionState_ok [OF assms(1,5)] by blast
  obtain vb where vb: "version_bytes ?v = Inr vb" using version_bytes_ok [of ?v] assms(6,7) by auto
  obtain sm where sm: "snapshot_mac_with ?C ?keys h ?v ?n = Inr sm" by (simp add: snapshot_mac_with_def vb)
  obtain pm where pm: "patch_mac_with ?C ?keys sm (map (em_valueMac \<circ> snd) ces) ?v ?n = Inr pm"
    by (simp add: patch_mac_with_def vb)
  let ?patch = "\<lparr>syp_version = None, syp_mutations = map (syncd_of (ask_keyId key)) ces, syp_external = None,
    syp_snapshotMac = Some sm, syp_patchMac = Some pm, syp_keyId = Some (ask_keyId key), syp_exitCode = None,
    syp_deviceIndex = env_deviceIndex E\<rparr>"
  let ?og = "\<lparr>og_collection = c, og_patchVersion = ?v, og_nextHash = h, og_nextIndexValueMap = m\<rparr>"
  have built: "buildOutgoingPatch E random c cs pending (Some key) = Inr (?patch, ?og)"
    using ces(1) next1 sm pm by (simp add: buildOutgoingPatch_def lift_error_def Let_def)
  have "\<exists>t. applyPatch F c (?patch\<lparr>syp_version := Some (LongNumber ?v)\<rparr>) s = (Inr ams, set_state c ?v h m t) \<and>
      same_collections s t"
    by (rule applyPatch_accepts [OF ces(2) assms(10,11)])
      (use next1 sm pm assms(3,6,7) in \<open>simp_all add: normalizeProtoLong_def long_value_def\<close>)
  then obtain t where t: "applyPatch F c (?patch\<lparr>syp_version := Some (LongNumber ?v)\<rparr>) s = (Inr ams, set_state c ?v h m t)"
    by blast
  show ?thesis
    by (intro exI conjI, rule built, rule t) (simp_all add: ces(3) inputs set_state_def)
qed

text \<open>
  A client for the witnesses, with stand-ins for the platform and the protobuf code: messages are not
  looked into by the server it talks to, so a constant codec is enough.
\<close>

definition sample_patch :: syncd_patch where
  "sample_patch = \<lparr>syp_version = Some (LongNumber 1), syp_mutations = [], syp_external = None,
    syp_snapshotMac = None, syp_patchMac = None, syp_keyId = None, syp_exitCode = None, syp_deviceIndex = None\<rparr>"

definition sample_sync_env :: "bool \<Rightarrow> (nat \<Rightarrow> node \<Rightarrow> node option) \<Rightarrow> bytes sync_env" where
  "sample_sync_env skip query =
    \<lparr>env_crypto = sample_crypto, env_actions = sample_actions,
     env_protos = \<lparr>encode_patch = (\<lambda>_. []), decode_patch = (\<lambda>_. Some sample_patch), encode_snapshot = (\<lambda>_. []),
       decode_snapshot = (\<lambda>_. None), decode_mutations = (\<lambda>_. None), decode_reference = (\<lambda>_. None)\<rparr>,
     env_skipMac = skip, env_mobilePrimary = False, env_deviceIndex = Some 2, env_hostDomain = js ''s.whatsapp.net'',
     env_random = (\<lambda>_ _ _. replicate 16 0), env_query = query, env_downloader = None\<rparr>"

definition sample_sync_key :: sync_key where
  "sample_sync_key = \<lparr>ask_keyId = [0, 2, 0, 0, 0, 9], ask_keyData = replicate 32 7, ask_timestamp = 0, ask_fingerprint = None\<rparr>"

definition sample_sync_state :: sync_state where
  "sample_sync_state =
    \<lparr>sy_store = \<lparr>as_keys = [(bytesToHex (ask_keyId sample_sync_key), sample_sync_key)], as_collections = [],
       as_maxSyncKeys = 4, as_maxCollectionEntries = 4\<rparr>,
     sy_keys = [], sy_collections = [(AppRegular, empty_collection)], sy_dirty = [], sy_changed = False\<rparr>"

definition sample_inputs :: "bytes mutation_input list" where
  "sample_inputs =
    [\<lparr>mi_collection = AppRegular, mi_operation = MutationSet [1, 2], mi_index = js ''a'', mi_version = 2, mi_timestamp = 5\<rparr>,
     \<lparr>mi_collection = AppRegular, mi_operation = MutationRemove, mi_index = js ''b'', mi_version = 3, mi_timestamp = 6\<rparr>]"

lemma sample_inputs_valid: "\<forall>m\<in>set sample_inputs. valid_input sample_actions m"
  by (simp add: sample_inputs_def valid_input_def int32_def utf8_safe_def js_def high_surrogate_def low_surrogate_def
      valid_value_def operation_value_def sample_actions_def long_value_def MAX_SAFE_INTEGER_def)

lemma sample_state_key: "has_key (ask_keyId sample_sync_key) (ask_keyData sample_sync_key) sample_sync_state"
  by (simp add: has_key_iff sample_sync_state_def getSyncKeyData_def map_get_def)

theorem outgoing_patch_accepted_witness:
  "\<exists>patch og ms t. buildOutgoingPatch (sample_sync_env False (\<lambda>_ _. None)) (\<lambda>_. replicate 16 0) AppRegular empty_collection
      sample_inputs (Some sample_sync_key) = Inr (patch, og) \<and>
    applyPatch (sample_sync_env True (\<lambda>_ _. None)) AppRegular
      (patch\<lparr>syp_version := Some (LongNumber (cs_version empty_collection + 1))\<rparr>) sample_sync_state = (Inr ms, t) \<and>
    map (\<lambda>m. (am_index m, am_value m, am_version m, am_operationCode m)) ms =
      map (\<lambda>m. (mi_index m, operation_value (mi_operation m), mi_version m, operation_code (mi_operation m))) sample_inputs \<and>
    map_get (sy_collections t) AppRegular = Some \<lparr>cs_initialized = True, cs_version = og_patchVersion og,
      cs_hash = og_nextHash og, cs_indexValueMap = og_nextIndexValueMap og\<rparr>"
proof (rule outgoing_patch_accepted)
  let ?E = "sample_sync_env False (\<lambda>_ _. None)" and ?F = "sample_sync_env True (\<lambda>_ _. None)"
  show "crypto_laws (env_crypto ?E)" "action_laws (env_actions ?E)"
    by (simp_all add: sample_sync_env_def sample_crypto_laws sample_actions_laws)
  show "env_crypto ?F = env_crypto ?E" "env_actions ?F = env_actions ?E" by (simp_all add: sample_sync_env_def)
  show "state_ok (env_crypto ?E) empty_collection" by (rule state_ok_empty)
  show "0 \<le> cs_version empty_collection" "cs_version empty_collection < int MAX_SAFE_INTEGER"
    by (simp_all add: empty_collection_def MAX_SAFE_INTEGER_def)
  show "\<forall>m\<in>set sample_inputs. valid_input (env_actions ?E) m"
    using sample_inputs_valid by (simp add: sample_sync_env_def)
  show "\<forall>i. length ((\<lambda>_. replicate 16 0) i :: bytes) = APP_STATE_IV_LENGTH" by (simp add: APP_STATE_IV_LENGTH_def)
  show "has_key (ask_keyId sample_sync_key) (ask_keyData sample_sync_key) sample_sync_state" by (rule sample_state_key)
  show "map_get (sy_collections sample_sync_state) AppRegular = Some empty_collection"
    by (simp add: sample_sync_state_def map_get_def)
qed

end
