(* ===== verification/AppStateKeys.thy ===== *)
theory AppStateKeys
  imports AppStateReplica
begin

text \<open>
  Requesting and sharing sync keys between the devices of an account:
  \<open>src/client/messaging/key-protocol.ts\<close> and the handlers of \<open>WaAppStateSyncClient.ts\<close> for the two
  protocol messages.  What a function publishes is part of its result; whether a message could be
  sent is an input.  Logging is left out.
\<close>

subsection \<open>Messages\<close>

definition APP_STATE_SYNC_KEY_ID_LENGTH :: nat where "APP_STATE_SYNC_KEY_ID_LENGTH = 6"

record key_credentials =
  cred_meJid :: "jstr option"
  cred_meLid :: "jstr option"

datatype key_protocol_error = IdentityRequired | BadDeviceJid jid_error

definition truthy_text :: "jstr option \<Rightarrow> bool" where
  "truthy_text s \<longleftrightarrow> s \<noteq> None \<and> s \<noteq> Some []"

definition requireCurrentIdentity :: "key_credentials option \<Rightarrow> key_protocol_error + unit" where
  "requireCurrentIdentity credentials =
    (case credentials of
       None \<Rightarrow> Inl IdentityRequired
     | Some c \<Rightarrow> if truthy_text (cred_meJid c) \<or> truthy_text (cred_meLid c) then Inr () else Inl IdentityRequired)"

fun requested_ids :: "bytes list \<Rightarrow> jstr list \<Rightarrow> bytes list" where
  "requested_ids [] seen = []"
| "requested_ids (keyId # keyIds) seen =
    (if length keyId = 0 then requested_ids keyIds seen
     else let keyHex = bytesToHex keyId in
       if keyHex \<in> set seen then requested_ids keyIds seen
       else keyId # requested_ids keyIds (seen @ [keyHex]))"

text \<open>The devices that were asked, and the key ids of the request that each of them was sent.\<close>

definition requestKeys ::
    "key_credentials option \<Rightarrow> jstr list \<Rightarrow> bytes list \<Rightarrow> key_protocol_error + jstr list \<times> (jstr \<times> bytes option list) list" where
  "requestKeys credentials peerDeviceJids keyIds =
    rbind (requireCurrentIdentity credentials) (\<lambda>_.
      let ids = requested_ids keyIds [] in
      if ids = [] then Inr ([], [])
      else if peerDeviceJids = [] then Inr ([], [])
      else Inr (peerDeviceJids, map (\<lambda>jid. (jid, map Some ids)) peerDeviceJids))"

fun share_entries :: "sync_key list \<Rightarrow> jstr list \<Rightarrow> shared_key list \<times> jstr list" where
  "share_entries [] seen = ([], seen)"
| "share_entries (key # keys) seen =
    (if length (ask_keyId key) \<noteq> APP_STATE_SYNC_KEY_ID_LENGTH then share_entries keys seen
     else let keyHex = bytesToHex (ask_keyId key) in
       if keyHex \<in> set seen then share_entries keys seen
       else let (rest, seen') = share_entries keys (seen @ [keyHex])
         in (\<lparr>shk_keyId = Some (ask_keyId key), shk_keyData = Some (ask_keyData key),
              shk_timestamp = Some (LongNumber (ask_timestamp key)), shk_fingerprint = ask_fingerprint key\<rparr> # rest,
             seen'))"

fun orphan_entries :: "bytes list \<Rightarrow> jstr list \<Rightarrow> shared_key list" where
  "orphan_entries [] seen = []"
| "orphan_entries (keyId # keyIds) seen =
    (if length keyId \<noteq> APP_STATE_SYNC_KEY_ID_LENGTH then orphan_entries keyIds seen
     else let keyHex = bytesToHex keyId in
       if keyHex \<in> set seen then orphan_entries keyIds seen
       else \<lparr>shk_keyId = Some keyId, shk_keyData = None, shk_timestamp = None, shk_fingerprint = None\<rparr>
         # orphan_entries keyIds (seen @ [keyHex]))"

text \<open>The device a share is published to, and its entries.\<close>

definition sendKeyShare ::
    "key_credentials option \<Rightarrow> jstr \<Rightarrow> sync_key list \<Rightarrow> bytes list \<Rightarrow> key_protocol_error + jstr \<times> shared_key list" where
  "sendKeyShare credentials toDeviceJid keys missingKeyIds =
    rbind (requireCurrentIdentity credentials) (\<lambda>_.
    rbind (case normalizeDeviceJid toDeviceJid of Inl e \<Rightarrow> Inl (BadDeviceJid e) | Inr j \<Rightarrow> Inr j) (\<lambda>normalizedTo.
      let (shared, seen) = share_entries keys [] in Inr (normalizedTo, shared @ orphan_entries missingKeyIds seen)))"

subsection \<open>Handlers\<close>

record key_event =
  ke_remoteJid :: "jstr option"
  ke_participant :: "jstr option"
  ke_senderDevice :: nat

text \<open>\<open>participant ?? remoteJid\<close>, when it is not empty.\<close>

definition sender_jid :: "key_event \<Rightarrow> jstr option" where
  "sender_jid context =
    (let s = (case ke_participant context of Some p \<Rightarrow> Some p | None \<Rightarrow> ke_remoteJid context)
     in if truthy_text s then s else None)"

definition requester_device :: "jstr \<Rightarrow> nat \<Rightarrow> jid_error + jstr" where
  "requester_device senderJid senderDevice =
    rbind (applyDeviceToJid senderJid (Some senderDevice)) normalizeDeviceJid"

text \<open>The check the client is built with.\<close>

definition isOwnAccountDevice :: "key_credentials option \<Rightarrow> jstr \<Rightarrow> jid_error + bool" where
  "isOwnAccountDevice credentials deviceJid =
    (case credentials of None \<Rightarrow> Inr False | Some c \<Rightarrow> isOwnAccountJid deviceJid (cred_meJid c) (cred_meLid c))"

definition split_requested :: "bytes list \<Rightarrow> app_state_store \<Rightarrow> sync_key list \<times> bytes list" where
  "split_requested requestedKeyIds store =
    (let requestedKeys = getSyncKeysBatch requestedKeyIds store
     in (List.map_filter id requestedKeys,
         map fst (filter (\<lambda>(keyId, key). key = None) (zip requestedKeyIds requestedKeys))))"

text \<open>
  The call of \<open>sendKeyShare\<close> that a request leads to; \<open>None\<close> where the request is ignored.  An
  exception of the ownership check leaves the handler.
\<close>

definition handleIncomingKeyRequest ::
    "(jstr \<Rightarrow> jid_error + bool) option \<Rightarrow> bool \<Rightarrow> key_event \<Rightarrow> bytes option list option \<Rightarrow> app_state_store \<Rightarrow>
     jid_error + (jstr \<times> sync_key list \<times> bytes list) option" where
  "handleIncomingKeyRequest isOwn canShare context request store =
    (case request of
       None \<Rightarrow> Inr None
     | Some keyIds \<Rightarrow>
         (case sender_jid context of
            None \<Rightarrow> Inr None
          | Some senderJid \<Rightarrow>
              (case requester_device senderJid (ke_senderDevice context) of
                 Inl _ \<Rightarrow> Inr None
               | Inr deviceJid \<Rightarrow>
                   rbind (case isOwn of None \<Rightarrow> Inr True | Some check \<Rightarrow> check deviceJid) (\<lambda>own.
                     if \<not> own then Inr None
                     else let requestedKeyIds = extractKeyRequestIds keyIds [] in
                       if length requestedKeyIds = 0 \<or> \<not> canShare then Inr None
                       else let (available, missing) = split_requested requestedKeyIds store
                         in Inr (Some (deviceJid, available, missing))))))"

text \<open>Whether a synchronisation is triggered, and the store.\<close>

definition handleIncomingKeyShare ::
    "int \<Rightarrow> shared_key list option \<Rightarrow> app_state_store \<Rightarrow> bool \<times> app_state_store" where
  "handleIncomingKeyShare now share store =
    (case share of
       None \<Rightarrow> (False, store)
     | Some items \<Rightarrow>
         (case importSyncKeyShare now items store of
            (Inl _, store') \<Rightarrow> (False, store')
          | (Inr imported, store') \<Rightarrow> (0 < imported, store')))"

definition resolveDeviceIndex :: "jstr option \<Rightarrow> nat option" where
  "resolveDeviceIndex meJid =
    (if \<not> truthy_text meJid then None
     else case parseSignalAddressFromJid (the meJid) of Inl _ \<Rightarrow> None | Inr a \<Rightarrow> Some (device a))"

lemmas key_protocol_defs = requestKeys_def sendKeyShare_def handleIncomingKeyRequest_def
  handleIncomingKeyShare_def sender_jid_def requester_device_def isOwnAccountDevice_def
  requireCurrentIdentity_def truthy_text_def

subsection \<open>Lemmas\<close>

lemma required_bytes_iff [simp]: "required_bytes (Some b) = Inr b" "\<exists>e. required_bytes None = Inl e"
  by (simp_all add: required_bytes_def lift_error_def decodeProtoBytes_def)

lemma set_extract: "set (extractKeyRequestIds items seen) = {i. Some i \<in> set items \<and> bytesToHex i \<notin> set seen}"
proof (induction items arbitrary: seen)
  case (Cons item items)
  obtain e where none: "required_bytes None = Inl e" using required_bytes_iff(2) ..
  show ?case
  proof (cases item)
    case None
    with none show ?thesis by (simp add: Cons)
  next
    case (Some i)
    show ?thesis
      by (cases "bytesToHex i \<in> set seen") (auto simp: Some Cons bytesToHex_inject)
  qed
qed simp

lemma set_split_requested:
  "set (fst (split_requested ids store)) = {k. \<exists>i\<in>set ids. map_get (as_keys store) (bytesToHex i) = Some k}"
proof -
  have "set (List.map_filter id xs) = {k. Some k \<in> set xs}" for xs :: "sync_key option list"
    by (induction xs) (auto split: option.splits)
  then show ?thesis
    by (simp add: split_requested_def getSyncKeysBatch_def Let_def image_iff eq_commute)
qed

lemma separator_unique:
  fixes c :: nat
  assumes "xs @ c # ys = xs' @ c # ys'" "c \<notin> set xs" "c \<notin> set xs'"
  shows "xs = xs'" "ys = ys'"
proof -
  have "length xs = length xs'"
    using index_of_append [OF assms(2), of ys] index_of_append [OF assms(3), of ys'] assms(1) by simp
  with assms(1) show "xs = xs'" "ys = ys'" by simp_all
qed

lemma parse_device_at_Inr:
  assumes "parseSignalAddressFromJid (device_at u d s) = Inr r" "58 \<notin> set u" "64 \<notin> set u" "s \<noteq> []"
  shows "user r = u" "server_or_host r = s"
proof -
  have "user r = u \<and> server_or_host r = s"
    using assms(1)
  proof (cases rule: parse_cases)
    case (user u' s')
    have "(u @ 58 # js_dec d) @ 64 # s = u' @ 64 # s'" using user(2) by (simp add: device_at_eq)
    moreover have "64 \<notin> set (u @ 58 # js_dec d)" using assms(3) by simp
    ultimately have "u @ 58 # js_dec d = u'" using user(4) by (rule separator_unique(1))
    with user(5) show ?thesis by auto
  next
    case (device u' s' ds d')
    have "64 \<notin> set ds" using device by (auto simp: device_loop_Some_iff list_all_iff is_digit_unit_def)
    moreover have "u = u'" "js_dec d @ 64 # s = ds @ 64 # s'"
      using separator_unique [OF _ assms(2) device(7)] device(2) by (simp_all add: device_at_eq)
    ultimately show ?thesis
      using separator_unique(2) [of "js_dec d" 64 s ds s'] device(1) by (simp add: server_or_host_def)
  qed
  then show "user r = u" "server_or_host r = s" by simp_all
qed

lemma requester_device_address:
  assumes "requester_device senderJid d = Inr dev" "parseSignalAddressFromJid dev = Inr b"
  obtains a where "parseSignalAddressFromJid senderJid = Inr a" "user b = user a"
    "server_or_host b = server_or_host a"
proof -
  obtain raw where raw: "applyDeviceToJid senderJid (Some d) = Inr raw" "normalizeDeviceJid raw = Inr dev"
    using assms(1) by (auto simp: requester_device_def rbind_eq_Inr_iff)
  obtain r where r: "parseSignalAddressFromJid raw = Inr r" "dev = print_address r"
    using raw(2) by (auto simp: normalizeDeviceJid_eq rbind_eq_Inr_iff)
  obtain a where a: "parseSignalAddressFromJid senderJid = Inr a" "user r = user a"
    "server_or_host r = server_or_host a"
  proof (cases "d = 0")
    case True
    with raw(1) r(1) show thesis by (intro that [of r]) (simp_all add: applyDeviceToJid_def)
  next
    case False
    with raw(1) obtain a where a: "parseSignalAddressFromJid senderJid = Inr a"
        "raw = device_at (user a) d (server_or_host a)"
      by (auto simp: applyDeviceToJid_def rbind_eq_Inr_iff buildDeviceJid_def)
    with r(1) False show thesis
      using parse_device_at_Inr [of "user a" d "server_or_host a" r] parse_Inr_server(1,3,4) [OF a(1)]
      by (intro that [OF a(1)]) simp_all
  qed
  have "user r \<noteq> [] \<or> device r \<noteq> 0"
  proof (rule ccontr)
    assume "\<not> (user r \<noteq> [] \<or> device r \<noteq> 0)"
    then have "dev = 64 # server_or_host r" by (simp add: r(2) print_address_def user_at_eq)
    with assms(2) show False by (simp add: parseSignalAddressFromJid_def findAtIndex_def)
  qed
  with parse_print [OF r(1)] assms(2) r(2) have "b = r" by simp
  with a show thesis by (intro that [OF a(1)]) simp_all
qed

text \<open>Without an eviction, importing keys adds them or replaces their data.\<close>

definition key_pairs :: "sync_key list \<Rightarrow> (bytes \<times> bytes) list" where
  "key_pairs keys = map (\<lambda>k. (ask_keyId k, ask_keyData k)) keys"

lemma upsert_no_eviction:
  assumes "length (as_keys s) + length keys \<le> as_maxSyncKeys s"
  shows "getSyncKeyData i (snd (upsertSyncKeys keys n s)) =
    (case map_of (rev (key_pairs keys)) i of Some d \<Rightarrow> Some d | None \<Rightarrow> getSyncKeyData i s)"
  using assms
proof (induction keys arbitrary: s n)
  case (Cons k keys)
  have pairs: "map_of (rev (key_pairs (k # keys))) i = (case map_of (rev (key_pairs keys)) i of
      Some d \<Rightarrow> Some d | None \<Rightarrow> if i = ask_keyId k then Some (ask_keyData k) else None)"
    by (auto simp: key_pairs_def map_add_def split: option.split)
  show ?case
  proof (cases "case map_get (as_keys s) (bytesToHex (ask_keyId k)) of None \<Rightarrow> False
      | Some existing \<Rightarrow> uint8Equal (ask_keyData existing) (ask_keyData k)")
    case True
    then have "getSyncKeyData (ask_keyId k) s = Some (ask_keyData k)"
      by (simp add: getSyncKeyData_def uint8Equal_iff split: option.splits)
    with True Cons show ?thesis by (simp add: pairs split: option.split)
  next
    case False
    let ?m = "map_delete (bytesToHex (ask_keyId k)) (as_keys s) @ [(bytesToHex (ask_keyId k), k)]"
    let ?s = "s\<lparr>as_keys := ?m\<rparr>"
    have len: "length (map_delete (bytesToHex (ask_keyId k)) (as_keys s)) \<le> length (as_keys s)"
      by (simp add: map_delete_def)
    then have "fst (setBoundedMapEntry (bytesToHex (ask_keyId k)) k (as_maxSyncKeys s) (as_keys s)) = ?m"
      using Cons.prems by (simp add: setBoundedMapEntry_eq Let_def)
    then have run: "upsertSyncKeys (k # keys) n s = upsertSyncKeys keys (n + 1) ?s"
      using False by (simp add: Let_def)
    have "getSyncKeyData i ?s = (if i = ask_keyId k then Some (ask_keyData k) else getSyncKeyData i s)"
      using map_get_delete [of "bytesToHex (ask_keyId k)" "as_keys s" "bytesToHex i"]
      by (auto simp: getSyncKeyData_def map_get_def map_add_def bytesToHex_inject split: option.splits)
    with Cons.IH [of ?s "n + 1"] Cons.prems len show ?thesis
      unfolding run pairs by (auto split: option.split)
  qed
qed (simp add: key_pairs_def)

text \<open>The entries of a share that carry a key, as pairs of id and data.\<close>

definition entry_pairs :: "shared_key list \<Rightarrow> (bytes \<times> bytes) list" where
  "entry_pairs items = List.map_filter (\<lambda>e. case shk_keyData e of None \<Rightarrow> None
    | Some d \<Rightarrow> Some (the (shk_keyId e), d)) items"

definition entry_ok :: "shared_key \<Rightarrow> bool" where
  "entry_ok e \<longleftrightarrow> shk_keyId e \<noteq> None \<and>
    (\<forall>l. shk_timestamp e = Some l \<longrightarrow> \<bar>long_value l\<bar> \<le> int MAX_SAFE_INTEGER)"

lemma entry_pairs_simps [simp]:
  "entry_pairs [] = []"
  "entry_pairs (e # es) = (case shk_keyData e of None \<Rightarrow> entry_pairs es | Some d \<Rightarrow> (the (shk_keyId e), d) # entry_pairs es)"
  by (simp_all add: entry_pairs_def List.map_filter_def split: option.split)

lemma shared_keys_ok:
  "\<forall>e\<in>set items. entry_ok e \<Longrightarrow> \<exists>keys. shared_keys now items = Inr keys \<and> key_pairs keys = entry_pairs items"
proof (induction items)
  case (Cons e items)
  then obtain keys where keys: "shared_keys now items = Inr keys" "key_pairs keys = entry_pairs items" by auto
  have "entry_ok e" using Cons.prems by simp
  then obtain i where i: "shk_keyId e = Some i" by (auto simp: entry_ok_def)
  have "\<exists>t. (case shk_timestamp e of None \<Rightarrow> Inr now | Some l \<Rightarrow> normalizeProtoLong (Some l)) = (Inr t :: sync_error + int)"
    using \<open>entry_ok e\<close> by (auto simp: entry_ok_def normalizeProtoLong_def split: option.split)
  with i keys show ?case
    by (cases "shk_keyData e") (auto simp: key_pairs_def)
qed (simp add: key_pairs_def)

lemma entry_pairs_append: "entry_pairs (xs @ ys) = entry_pairs xs @ entry_pairs ys"
  by (simp add: entry_pairs_def List.map_filter_def)

lemma share_entries_pairs:
  "set (entry_pairs (fst (share_entries keys seen))) \<subseteq> {p \<in> set (key_pairs keys). length (fst p) = 6}"
  "k \<in> set keys \<Longrightarrow> length (ask_keyId k) = 6 \<Longrightarrow> bytesToHex (ask_keyId k) \<notin> set seen \<Longrightarrow>
    ask_keyId k \<in> fst ` set (entry_pairs (fst (share_entries keys seen)))"
proof -
  show "set (entry_pairs (fst (share_entries keys seen))) \<subseteq> {p \<in> set (key_pairs keys). length (fst p) = 6}"
    by (induction keys arbitrary: seen)
      (auto simp: key_pairs_def Let_def case_prod_unfold APP_STATE_SYNC_KEY_ID_LENGTH_def)
  show "k \<in> set keys \<Longrightarrow> length (ask_keyId k) = 6 \<Longrightarrow> bytesToHex (ask_keyId k) \<notin> set seen \<Longrightarrow>
      ask_keyId k \<in> fst ` set (entry_pairs (fst (share_entries keys seen)))"
  proof (induction keys arbitrary: seen)
    case (Cons k1 keys)
    show ?case
    proof (cases "ask_keyId k1 = ask_keyId k")
      case True
      with Cons.prems show ?thesis
        by (simp add: APP_STATE_SYNC_KEY_ID_LENGTH_def Let_def case_prod_unfold)
    next
      case False
      with Cons have "ask_keyId k \<in> fst ` set (entry_pairs (fst (share_entries keys seen')))"
        if "seen' \<in> {seen, seen @ [bytesToHex (ask_keyId k1)]}" for seen'
        using that by (auto simp: bytesToHex_inject)
      then show ?thesis
        by (auto simp: Let_def case_prod_unfold)
    qed
  qed simp
qed

lemma share_entries_form:
  "e \<in> set (fst (share_entries keys seen)) \<Longrightarrow> \<exists>k\<in>set keys. shk_keyId e = Some (ask_keyId k) \<and>
    shk_timestamp e = Some (LongNumber (ask_timestamp k))"
  "e \<in> set (orphan_entries ids seen) \<Longrightarrow> shk_keyId e \<noteq> None \<and> shk_timestamp e = None"
proof -
  show "e \<in> set (fst (share_entries keys seen)) \<Longrightarrow> \<exists>k\<in>set keys. shk_keyId e = Some (ask_keyId k) \<and>
      shk_timestamp e = Some (LongNumber (ask_timestamp k))"
    by (induction keys arbitrary: seen) (auto simp: Let_def case_prod_unfold split: if_splits)
  show "e \<in> set (orphan_entries ids seen) \<Longrightarrow> shk_keyId e \<noteq> None \<and> shk_timestamp e = None"
    by (induction ids arbitrary: seen) (auto simp: Let_def split: if_splits)
qed

lemma orphan_entries_pairs [simp]: "entry_pairs (orphan_entries ids seen) = []"
  by (induction ids arbitrary: seen) (simp_all add: Let_def)

subsection \<open>Properties\<close>

text \<open>
  C11: a request for sync keys is only answered to a device of the own account: the answer goes to a
  device of the sender, the sender belongs to the account, and the keys are those that were asked for.
\<close>

theorem keys_stay_in_account:
  assumes "handleIncomingKeyRequest (Some (isOwnAccountDevice (Some c))) canShare context request store =
    Inr (Some (dev, keys, missing))"
  shows "\<exists>sender a b ids. sender_jid context = Some sender \<and> request = Some ids \<and>
    parseSignalAddressFromJid sender = Inr a \<and> parseSignalAddressFromJid dev = Inr b \<and>
    user b = user a \<and> server_or_host b = server_or_host a \<and>
    isOwnAccountJid sender (cred_meJid c) (cred_meLid c) = Inr True \<and>
    set keys = {k. \<exists>i. Some i \<in> set ids \<and> map_get (as_keys store) (bytesToHex i) = Some k}"
proof -
  obtain ids sender where run: "request = Some ids" "sender_jid context = Some sender"
      "requester_device sender (ke_senderDevice context) = Inr dev" "isOwnAccountDevice (Some c) dev = Inr True"
      "split_requested (extractKeyRequestIds ids []) store = (keys, missing)"
    using assms by (auto simp: handleIncomingKeyRequest_def rbind_eq_Inr_iff Let_def
        split: option.splits sum.splits if_splits prod.splits)
  have own: "isOwnAccountJid dev (cred_meJid c) (cred_meLid c) = Inr True"
    using run(4) by (simp add: isOwnAccountDevice_def)
  then obtain b where b: "parseSignalAddressFromJid dev = Inr b"
    by (auto simp: isOwnAccountJid_def toUserJid_eq rbind_eq_Inr_iff)
  obtain a where a: "parseSignalAddressFromJid sender = Inr a" "user b = user a" "server_or_host b = server_or_host a"
    using requester_device_address [OF run(3) b] .
  have "isOwnAccountJid sender (cred_meJid c) (cred_meLid c) = Inr True"
    using isOwnAccountJid_address [OF a(1) b] a(2,3) own by simp
  moreover have "set keys = {k. \<exists>i. Some i \<in> set ids \<and> map_get (as_keys store) (bytesToHex i) = Some k}"
    using set_split_requested [of "extractKeyRequestIds ids []" store] by (simp add: run(5) set_extract)
  ultimately show ?thesis using run(1,2) a b by blast
qed

definition sample_key :: "nat \<Rightarrow> sync_key" where
  "sample_key n = \<lparr>ask_keyId = [0, 0, 0, 0, 0, of_nat n], ask_keyData = [of_nat n], ask_timestamp = 5, ask_fingerprint = None\<rparr>"

definition phone_store :: app_state_store where
  "phone_store = \<lparr>as_keys = map (\<lambda>n. (bytesToHex (ask_keyId (sample_key n)), sample_key n)) [1, 2],
    as_collections = [], as_maxSyncKeys = 10, as_maxCollectionEntries = 10\<rparr>"

definition companion_store :: app_state_store where
  "companion_store = \<lparr>as_keys = [], as_collections = [], as_maxSyncKeys = 10, as_maxCollectionEntries = 10\<rparr>"

definition sample_credentials :: key_credentials where
  "sample_credentials = \<lparr>cred_meJid = Some (js ''5@s.whatsapp.net''), cred_meLid = None\<rparr>"

definition sample_event :: key_event where
  "sample_event = \<lparr>ke_remoteJid = Some (js ''5@s.whatsapp.net''), ke_participant = None, ke_senderDevice = 3\<rparr>"

definition sample_request :: "bytes option list" where
  "sample_request = [Some (ask_keyId (sample_key 2)), None, Some (ask_keyId (sample_key 7))]"

lemma sample_handled:
  "handleIncomingKeyRequest (Some (isOwnAccountDevice (Some sample_credentials))) True sample_event (Some sample_request)
    phone_store = Inr (Some (device_at (js ''5'') 3 HOST_DOMAIN, [sample_key 2], [ask_keyId (sample_key 7)]))"
proof -
  let ?j = "device_at (js ''5'') 3 HOST_DOMAIN"
  have me: "js ''5@s.whatsapp.net'' = user_at (js ''5'') HOST_DOMAIN"
    by (simp add: user_at_def js_def HOST_DOMAIN_def)
  have dev: "parseSignalAddressFromJid ?j = Inr \<lparr>user = js ''5'', server = Some HOST_DOMAIN, device = 3\<rparr>"
    and usr: "parseSignalAddressFromJid (user_at (js ''5'') HOST_DOMAIN) =
      Inr \<lparr>user = js ''5'', server = Some HOST_DOMAIN, device = 0\<rparr>"
    using parse_device_at [of "js ''5''" HOST_DOMAIN 3] parse_user_at [of "js ''5''" HOST_DOMAIN]
    by (simp_all add: js_def MAX_SAFE_INTEGER_def HOST_DOMAIN_def)
  have requester: "requester_device (js ''5@s.whatsapp.net'') 3 = Inr ?j"
    by (simp add: requester_device_def applyDeviceToJid_def me usr buildDeviceJid_def normalizeDeviceJid_eq dev
        print_address_def server_or_host_def)
  have "user_at (js ''5'') HOST_DOMAIN \<noteq> []" by (simp add: user_at_def js_def)
  then have own: "isOwnAccountDevice (Some sample_credentials) ?j = Inr True"
    by (simp add: isOwnAccountDevice_def isOwnAccountJid_def toUserJid_eq dev usr me sample_credentials_def
        matches_identity_def user_server_def server_or_host_def)
  obtain e where none: "required_bytes None = Inl e" using required_bytes_iff(2) ..
  have ids: "extractKeyRequestIds sample_request [] = [ask_keyId (sample_key 2), ask_keyId (sample_key 7)]"
    by (simp add: sample_request_def none bytesToHex_inject) (simp add: sample_key_def)
  have "map_get (as_keys phone_store) (bytesToHex (ask_keyId (sample_key 2))) = Some (sample_key 2)"
    "map_get (as_keys phone_store) (bytesToHex (ask_keyId (sample_key 7))) = None"
    by (simp_all add: phone_store_def map_get_def bytesToHex_inject) (simp_all add: sample_key_def)
  then have split: "split_requested [ask_keyId (sample_key 2), ask_keyId (sample_key 7)] phone_store =
      ([sample_key 2], [ask_keyId (sample_key 7)])"
    by (simp add: split_requested_def getSyncKeysBatch_def List.map_filter_def)
  have sender: "sender_jid sample_event = Some (js ''5@s.whatsapp.net'')" "ke_senderDevice sample_event = 3"
    by (simp_all add: sender_jid_def sample_event_def truthy_text_def js_def)
  show ?thesis
    by (simp add: handleIncomingKeyRequest_def sender requester own ids split)
qed

theorem keys_stay_in_account_witness:
  "\<exists>sender a b ids. sender_jid sample_event = Some sender \<and> Some sample_request = Some ids \<and>
    parseSignalAddressFromJid sender = Inr a \<and>
    parseSignalAddressFromJid (device_at (js ''5'') 3 HOST_DOMAIN) = Inr b \<and>
    user b = user a \<and> server_or_host b = server_or_host a \<and>
    isOwnAccountJid sender (cred_meJid sample_credentials) (cred_meLid sample_credentials) = Inr True \<and>
    set [sample_key 2] = {k. \<exists>i. Some i \<in> set ids \<and> map_get (as_keys phone_store) (bytesToHex i) = Some k}"
  by (rule keys_stay_in_account [OF sample_handled])

text \<open>
  Two stores \<open>phone\<close> and \<open>companion\<close>: the entries arrive as they were sent, up to the representation
  of 64-bit numbers.
\<close>

definition same_entry :: "shared_key \<Rightarrow> shared_key \<Rightarrow> bool" where
  "same_entry e e' \<longleftrightarrow> shk_keyId e' = shk_keyId e \<and> shk_keyData e' = shk_keyData e \<and>
    map_option long_value (shk_timestamp e') = map_option long_value (shk_timestamp e)"

lemma same_entry_ok: "same_entry e e' \<Longrightarrow> entry_ok e \<Longrightarrow> entry_ok e'"
  by (cases "shk_timestamp e"; cases "shk_timestamp e'") (simp_all add: same_entry_def entry_ok_def)

lemma same_entries:
  "list_all2 same_entry es es' \<Longrightarrow> \<forall>e\<in>set es. entry_ok e \<Longrightarrow>
    (\<forall>e\<in>set es'. entry_ok e) \<and> entry_pairs es' = entry_pairs es"
proof (induction rule: list_all2_induct)
  case (Cons e es e' es')
  then show ?case using same_entry_ok [of e e'] by (simp add: same_entry_def split: option.split)
qed simp

definition filed_keys :: "app_state_store \<Rightarrow> bool" where
  "filed_keys store \<longleftrightarrow> (\<forall>h k. map_get (as_keys store) h = Some k \<longrightarrow>
    h = bytesToHex (ask_keyId k) \<and> \<bar>ask_timestamp k\<bar> \<le> int MAX_SAFE_INTEGER)"

text \<open>
  C16: The keys a device asks for reach it, when the answering device has its keys filed under their own
  ids and the asking one has room for the entries of the answer: once the answer has arrived, the asking
  device has every requested key with an id of six bytes that the other one has, and its other keys are
  as before.
\<close>

theorem key_share_arrives:
  assumes answer: "handleIncomingKeyRequest isOwn canShare context (Some ids) phone = Inr (Some (dev, keys, missing))"
    and sent: "sendKeyShare credentials dev keys missing = Inr (dev', entries)"
    and arrived: "list_all2 same_entry entries entries'"
    and stores: "filed_keys phone" "length (as_keys companion) + length entries \<le> as_maxSyncKeys companion"
  shows "\<exists>n companion'. importSyncKeyShare now entries' companion = (Inr n, companion') \<and>
    (\<forall>i. getSyncKeyData i companion' =
      (if Some i \<in> set ids \<and> length i = 6 \<and> getSyncKeyData i phone \<noteq> None
       then getSyncKeyData i phone else getSyncKeyData i companion))"
proof -
  have "split_requested (extractKeyRequestIds ids []) phone = (keys, missing)"
    using answer by (auto simp: handleIncomingKeyRequest_def rbind_eq_Inr_iff Let_def
        split: option.splits sum.splits if_splits prod.splits)
  with set_split_requested [of "extractKeyRequestIds ids []" phone]
  have keys: "set keys = {k. \<exists>i. Some i \<in> set ids \<and> map_get (as_keys phone) (bytesToHex i) = Some k}"
    by (simp add: set_extract)
  have filed: "Some (ask_keyId k) \<in> set ids" "map_get (as_keys phone) (bytesToHex (ask_keyId k)) = Some k"
      "\<bar>ask_timestamp k\<bar> \<le> int MAX_SAFE_INTEGER" if mem: "k \<in> set keys" for k
  proof -
    obtain i where i: "Some i \<in> set ids" "map_get (as_keys phone) (bytesToHex i) = Some k"
      using mem unfolding keys by blast
    with stores(1) have "bytesToHex i = bytesToHex (ask_keyId k)" "\<bar>ask_timestamp k\<bar> \<le> int MAX_SAFE_INTEGER"
      unfolding filed_keys_def by blast+
    with i show "Some (ask_keyId k) \<in> set ids" "map_get (as_keys phone) (bytesToHex (ask_keyId k)) = Some k"
      "\<bar>ask_timestamp k\<bar> \<le> int MAX_SAFE_INTEGER"
      by (simp_all add: bytesToHex_inject)
  qed
  obtain seen where entries: "entries = fst (share_entries keys []) @ orphan_entries missing seen"
    using sent unfolding sendKeyShare_def rbind_eq_Inr_iff Let_def case_prod_unfold sum.inject prod.inject by blast
  let ?pairs = "entry_pairs entries"
  have "entry_ok e" if "e \<in> set entries" for e
    using that share_entries_form(1) [of e keys "[]"] share_entries_form(2) [of e missing seen] filed(3)
    unfolding entries entry_ok_def by (auto simp: long_value_def)
  then have ok: "\<forall>e\<in>set entries'. entry_ok e" and pairs: "entry_pairs entries' = ?pairs"
    using same_entries [OF arrived] by simp_all
  obtain ks where ks: "shared_keys now entries' = Inr ks" "key_pairs ks = ?pairs"
    using shared_keys_ok [OF ok, of now] pairs by auto
  have "length (entry_pairs es) \<le> length es" for es by (induction es) (auto split: option.split)
  then have "length ks \<le> length entries" using arg_cong [OF ks(2), of length] by (simp add: key_pairs_def)
  with stores(2) have get: "getSyncKeyData i (snd (upsertSyncKeys ks 0 companion)) =
      (case map_of (rev ?pairs) i of Some d \<Rightarrow> Some d | None \<Rightarrow> getSyncKeyData i companion)" for i
    using upsert_no_eviction [of companion ks i 0] by (simp add: ks(2))
  have one: "Some i \<in> set ids \<and> length i = 6 \<and> getSyncKeyData i phone = Some d" if "(i, d) \<in> set ?pairs" for i d
    using that share_entries_pairs(1) [of keys "[]"] filed(1,2)
    by (auto simp: entries entry_pairs_append key_pairs_def getSyncKeyData_def)
  have all: "i \<in> fst ` set ?pairs"
    if i: "Some i \<in> set ids" "length i = 6" "getSyncKeyData i phone \<noteq> None" for i
  proof -
    obtain k where k: "map_get (as_keys phone) (bytesToHex i) = Some k"
      using i(3) by (auto simp: getSyncKeyData_def)
    with stores(1) have "bytesToHex i = bytesToHex (ask_keyId k)" unfolding filed_keys_def by blast
    then have "ask_keyId k = i" by (simp add: bytesToHex_inject)
    with k i(1,2) show ?thesis
      using share_entries_pairs(2) [of k keys "[]"] unfolding keys entries entry_pairs_append by auto
  qed
  have "map_of (rev ?pairs) i = (if Some i \<in> set ids \<and> length i = 6 \<and> getSyncKeyData i phone \<noteq> None
      then getSyncKeyData i phone else None)" for i
  proof (cases "map_of (rev ?pairs) i")
    case None
    then have "i \<notin> fst ` set ?pairs" by (simp add: map_of_eq_None_iff)
    with None all show ?thesis by auto
  next
    case (Some d)
    then have "(i, d) \<in> set ?pairs" using map_of_SomeD by fastforce
    with Some one show ?thesis by auto
  qed
  with get show ?thesis
    by (auto simp: importSyncKeyShare_def ks(1) importSyncKeys_def map_prod_def case_prod_unfold split: option.split)
qed

theorem key_share_arrives_witness:
  "\<exists>n companion'. importSyncKeyShare 9
      [\<lparr>shk_keyId = Some (ask_keyId (sample_key 2)), shk_keyData = Some (ask_keyData (sample_key 2)),
        shk_timestamp = Some (LongObject 5), shk_fingerprint = None\<rparr>,
       \<lparr>shk_keyId = Some (ask_keyId (sample_key 7)), shk_keyData = None, shk_timestamp = None, shk_fingerprint = None\<rparr>]
      companion_store = (Inr n, companion') \<and>
    (\<forall>i. getSyncKeyData i companion' =
      (if Some i \<in> set sample_request \<and> length i = 6 \<and> getSyncKeyData i phone_store \<noteq> None
       then getSyncKeyData i phone_store else getSyncKeyData i companion_store))"
proof -
  let ?entry = "\<lambda>t. \<lparr>shk_keyId = Some (ask_keyId (sample_key 2)), shk_keyData = Some (ask_keyData (sample_key 2)),
      shk_timestamp = Some t, shk_fingerprint = None\<rparr>"
  let ?orphan = "\<lparr>shk_keyId = Some (ask_keyId (sample_key 7)), shk_keyData = None, shk_timestamp = None,
      shk_fingerprint = None\<rparr>"
  let ?j = "device_at (js ''5'') 3 HOST_DOMAIN"
  have "normalizeDeviceJid ?j = Inr ?j"
    using parse_device_at [of "js ''5''" HOST_DOMAIN 3]
    by (simp add: normalizeDeviceJid_eq print_address_def server_or_host_def js_def MAX_SAFE_INTEGER_def HOST_DOMAIN_def)
  moreover have "bytesToHex (ask_keyId (sample_key 7)) \<noteq> bytesToHex (ask_keyId (sample_key 2))"
    by (simp add: bytesToHex_inject) (simp add: sample_key_def)
  moreover have "length (ask_keyId (sample_key n)) = 6" "ask_timestamp (sample_key n) = 5"
      "ask_fingerprint (sample_key n) = None" for n
    by (simp_all add: sample_key_def)
  moreover have "requireCurrentIdentity (Some sample_credentials) = Inr ()"
    by (simp add: requireCurrentIdentity_def truthy_text_def sample_credentials_def js_def)
  ultimately have "sendKeyShare (Some sample_credentials) ?j [sample_key 2] [ask_keyId (sample_key 7)] =
      Inr (?j, [?entry (LongNumber 5), ?orphan])"
    by (simp add: sendKeyShare_def APP_STATE_SYNC_KEY_ID_LENGTH_def)
  moreover have "list_all2 same_entry [?entry (LongNumber 5), ?orphan] [?entry (LongObject 5), ?orphan]"
    by (simp add: same_entry_def long_value_def)
  moreover have "filed_keys phone_store"
    by (auto simp: filed_keys_def phone_store_def map_get_def MAX_SAFE_INTEGER_def sample_key_def split: if_splits)
  moreover have "length (as_keys companion_store) + length [?entry (LongNumber 5), ?orphan] \<le> as_maxSyncKeys companion_store"
    by (simp add: companion_store_def)
  ultimately show ?thesis by (rule key_share_arrives [OF sample_handled])
qed

end
