(* ===== verification/AppStateProperties.thy ===== *)
theory AppStateProperties
  imports AppStateReplica
begin

text \<open>
  The properties of the app-state synchronisation as a whole: the hashes of the store, the atomicity
  and authenticity of patches, the grouping of pending mutations, the choice of the sync key, and what
  a synchronisation reports.
\<close>

subsection \<open>A synchronisation, evaluated\<close>

definition sample_answer :: node where
  "sample_answer =
    Node IQ_TAG [(js ''type'', IQ_RESULT)] (CNodes [Node (js ''sync'') [] (CNodes
      [Node (js ''collection'') [(js ''name'', js ''regular''), (js ''version'', js ''7'')] NoContent])])"

lemmas node_defs = attr_def findNodeChild_def getNodeChildrenByTag_def IQ_TAG_def IQ_RESULT_def IQ_ERROR_def ERROR_TAG_def
  js_def

lemmas response_defs = parseSyncResponse_def parse_collection_node_def parseCollectionName_def all_collections_def
  parseOptionalInt_def parseStrictUnsignedInt_def is_digit_unit_def digits_val_def MAX_SAFE_INTEGER_def
  parseCollectionState_def

lemmas round_defs = syncCollectionsRound_def sbind_def stateful_defs buildCollectionSyncRequest_def get_state_def
  groupPendingMutations_def fetchSyncPayloadByCollection_def lift_error_def processCollectionRound_def process_payload_def
  snapshot_step_def patches_step_def accept_own_def initialise_step_def set_state_def mark_changed_def
  createCollectionOutcome_def resolved_state_def is_conflict_def summarise_round_def after_round_def nullish_def set_add_def

lemmas sync_defs = syncOnce_def unique_collections_def start_state_def sync_body_def maxSyncIterations_def
  persistCollectionUpdates_def map_filter_def setCollectionStates_def set_collection_state_def bounded_copy_def
  getCollectionState_def map_get_def map_set_def empty_collection_def

lemma parse_sample_answer:
  "parseSyncResponse P sample_answer = Inr [\<lparr>cp_collection = AppRegular, cp_state = StateSuccess, cp_version = Some 7,
    cp_patches = [], cp_snapshotReference = None\<rparr>]" "assertIqResult sample_answer = Inr ()"
  by (simp_all add: sample_answer_def response_defs node_defs Let_def assertIqResult_def)

definition sample_store :: app_state_store where
  "sample_store = \<lparr>as_keys = [], as_collections = [], as_maxSyncKeys = 4, as_maxCollectionEntries = 4\<rparr>"

lemma sync_sample_answer:
  "syncOnce (sample_sync_env True (\<lambda>_ _. Some sample_answer)) (Some [AppRegular]) [] sample_store =
    (Inr ([createCollectionOutcome AppRegular StateSuccess (Some 7) False True (Some []) None], []),
     sample_store\<lparr>as_collections := [(AppRegular, empty_collection\<lparr>cs_initialized := True, cs_version := 7\<rparr>)]\<rparr>)"
  by (simp add: sync_defs round_defs sample_store_def parse_sample_answer sample_sync_env_def Let_def split_beta numeral_eq_Suc)

text \<open>
  C8: A synchronisation that starts from a store in which every collection has the LT hash of its index
  map, against any server, with any answers, failing or not, leaves every collection of the store with
  the LT hash of its index map, unless its index map has reached the limit of the store, which may then
  have dropped entries and kept the hash.
\<close>

theorem sync_keeps_hashes:
  assumes "crypto_laws (env_crypto E)" "store_ok (env_crypto E) store"
    and "syncOnce E requested pending store = (r, store')"
    and "map_get (as_collections store') c = Some cs"
  shows "cs_hash cs = lt_hash (env_crypto E) (mset (map snd (cs_indexValueMap cs))) \<or>
    length (cs_indexValueMap cs) = as_maxCollectionEntries store'"
  using all_values_get [OF syncOnce_saved_ok [OF assms(1-3)] assms(4)] by (auto simp: saved_ok_def state_ok_def)

theorem sync_keeps_hashes_witness:
  "\<exists>store' cs. snd (syncOnce (sample_sync_env True (\<lambda>_ _. Some sample_answer)) (Some [AppRegular]) [] sample_store) = store' \<and>
    map_get (as_collections store') AppRegular = Some cs \<and> cs_version cs = 7 \<and>
    (cs_hash cs = lt_hash (env_crypto (sample_sync_env True (\<lambda>_ _. Some sample_answer))) (mset (map snd (cs_indexValueMap cs))) \<or>
     length (cs_indexValueMap cs) = as_maxCollectionEntries store')"
proof -
  let ?E = "sample_sync_env True (\<lambda>_ _. Some sample_answer)"
  let ?cs = "empty_collection\<lparr>cs_initialized := True, cs_version := 7\<rparr>"
  let ?store = "sample_store\<lparr>as_collections := [(AppRegular, ?cs)]\<rparr>"
  have "crypto_laws (env_crypto ?E)" "store_ok (env_crypto ?E) sample_store"
    by (simp_all add: sample_sync_env_def sample_crypto_laws store_ok_def sample_store_def)
  then show ?thesis
    by (intro exI [of _ ?store] exI [of _ ?cs] conjI
        sync_keeps_hashes [where E = ?E and store = sample_store and requested = "Some [AppRegular]" and pending = "[]" and c = AppRegular])
      (simp_all add: sync_sample_answer map_get_def)
qed

subsection \<open>Patches are applied whole or not at all\<close>

text \<open>The states and the keys that a synchronisation sees, whatever is cached of them.\<close>

definition same_view :: "sync_state \<Rightarrow> sync_state \<Rightarrow> bool" where
  "same_view s t \<longleftrightarrow> (\<forall>c. fst (get_state c t) = fst (get_state c s)) \<and> sy_dirty t = sy_dirty s \<and>
    (\<forall>i. fst (getKeyData i t) = fst (getKeyData i s))"

definition keeps_view :: "'a syncing \<Rightarrow> bool" where
  "keeps_view m \<longleftrightarrow> (\<forall>s. same_view s (snd (m s)))"

lemma same_view_trans: "same_view s t \<Longrightarrow> same_view t u \<Longrightarrow> same_view s u"
  by (simp add: same_view_def)

lemma keeps_view_bind: "keeps_view m \<Longrightarrow> (\<And>a. keeps_view (f a)) \<Longrightarrow> keeps_view (sbind m f)"
proof -
  assume m: "keeps_view m" and f: "\<And>a. keeps_view (f a)"
  have "same_view s (snd (sbind m f s))" for s
  proof (cases "m s")
    case (Pair r t)
    with m have st: "same_view s t" by (metis keeps_view_def snd_conv)
    show ?thesis
    proof (cases r)
      case (Inr a)
      have "same_view t (snd (f a t))" using f by (simp add: keeps_view_def)
      then show ?thesis using st Pair Inr by (simp add: sbind_def same_view_trans)
    qed (use st Pair in \<open>simp add: sbind_def\<close>)
  qed
  then show ?thesis by (simp add: keeps_view_def)
qed

lemma keeps_view_pure: "keeps_view (slift r)" "keeps_view (sreturn a)" "keeps_view (sthrow e)"
  by (simp_all add: keeps_view_def same_view_def stateful_defs)

lemma get_state_view:
  "fst (get_state c s) = (case map_get (sy_collections s) c of Some cs \<Rightarrow> cs
    | None \<Rightarrow> fst (getCollectionState c (sy_store s)))"
  by (simp add: get_state_def split_beta split: option.split)

lemma getCollectionState_view:
  "fst (getCollectionState c' (snd (getCollectionState c store))) = fst (getCollectionState c' store)"
  by (auto simp: getCollectionState_def split: option.splits)

lemma getCollectionState_keys: "as_keys (snd (getCollectionState c store)) = as_keys store"
  by (simp add: getCollectionState_def split: option.split)

lemma getKeyData_view:
  "fst (getKeyData i s) = (case map_get (sy_keys s) (bytesToHex i) of Some v \<Rightarrow> v | None \<Rightarrow> getSyncKeyData i (sy_store s))"
  by (simp add: getKeyData_def Let_def split: option.split)

lemma keeps_view_state: "keeps_view (srun (get_state c))"
proof -
  have "same_view s (snd (get_state c s))" for s
    by (auto simp: same_view_def get_state_view getKeyData_view get_state_def getSyncKeyData_def split_beta
        getCollectionState_view getCollectionState_keys split: option.splits)
  then show ?thesis by (simp add: keeps_view_def srun_def split_beta)
qed

lemma same_view_collections:
  assumes "sy_store t = sy_store s" "sy_collections t = sy_collections s" "sy_dirty t = sy_dirty s"
    "\<And>i. fst (getKeyData i t) = fst (getKeyData i s)"
  shows "same_view s t"
  using assms by (simp add: same_view_def get_state_view split: option.split)

lemma keeps_view_key: "keeps_view (srun (getKeyData i))"
proof -
  have "fst (getKeyData j (snd (getKeyData i s))) = fst (getKeyData j s)" for j s
    by (auto simp: getKeyData_view getKeyData_frame)
      (auto simp: getKeyData_def Let_def bytesToHex_inject split: option.splits)
  then show ?thesis
    by (simp add: keeps_view_def srun_def split_beta same_view_collections getKeyData_frame)
qed

lemma keeps_view_preload: "keeps_view (smodify (preloadKeyData ids))"
proof -
  have "fst (getKeyData j (preloadKeyData ids s)) = fst (getKeyData j s)" for j s
    using loaded_keys [of "sy_keys s" "missing_keys ids [] s" "\<lambda>i. getSyncKeyData i (sy_store s)" j]
      set_missing_keys [of j ids "[]" s]
    by (auto simp: getKeyData_view preloadKeyData_def Let_def getSyncKeyDataBatch_def split: if_splits option.splits)
  then show ?thesis
    by (simp add: keeps_view_def smodify_def same_view_collections preloadKeyData_frame)
qed

lemma keeps_view_map: "(\<And>a. keeps_view (f a)) \<Longrightarrow> keeps_view (smap f as)"
  by (induction as) (auto intro: keeps_view_bind keeps_view_pure)

lemma keeps_view_decrypt: "keeps_view (decryptPatchMutations E c patch)"
proof -
  have "keeps_view (resolve_key c r)" for r
    unfolding resolve_key_def
    by (rule keeps_view_bind [OF keeps_view_key]) (auto intro: keeps_view_pure split: option.split)
  then show ?thesis
    unfolding decryptPatchMutations_def decrypt_all_def
    by (intro keeps_view_bind keeps_view_pure keeps_view_preload keeps_view_map)
qed

lemma keeps_view_verification_key: "keeps_view (verification_key E c k)"
  unfolding verification_key_def
  by (auto intro!: keeps_view_bind keeps_view_pure keeps_view_key split: option.split)

text \<open>\<open>a\<close> is the mutation \<open>m\<close> of a patch, decrypted with the sync key it names.\<close>

definition decrypted_as ::
    "'v sync_env \<Rightarrow> collection_name \<Rightarrow> sync_state \<Rightarrow> syncd_mutation \<Rightarrow> 'v app_mutation \<Rightarrow> bool" where
  "decrypted_as E c s m a \<longleftrightarrow> (\<exists>raw k. parse_mutation m = Inr raw \<and> fst (getKeyData (rm_keyId raw) s) = Some k \<and>
    decrypt_raw E c FromPatch (raw, k) = Inr a)"

lemma rmap_Inr: "rmap f as = Inr bs \<Longrightarrow> list_all2 (\<lambda>a b. f a = Inr b) as bs"
  by (induction "as" arbitrary: bs) (auto simp: rbind_eq_Inr_iff)

lemma keeps_view_resolve: "keeps_view (resolve_key c r)"
  unfolding resolve_key_def
  by (rule keeps_view_bind [OF keeps_view_key]) (auto intro: keeps_view_pure split: option.split)

lemma resolve_key_Inr:
  "resolve_key c r s = (Inr rk, t) \<Longrightarrow> \<exists>k. rk = (r, k) \<and> fst (getKeyData (rm_keyId r) s) = Some k"
  by (auto simp: resolve_key_def srun_def split_beta sbind_def stateful_defs split: option.splits)

lemma resolve_keys_Inr:
  "smap (resolve_key c) raws s = (Inr rks, t) \<Longrightarrow>
    list_all2 (\<lambda>r rk. \<exists>k. rk = (r, k) \<and> fst (getKeyData (rm_keyId r) s) = Some k) raws rks"
proof (induction raws arbitrary: s rks t)
  case (Cons r raws)
  from Cons(2) obtain rk s1 rks' t' where r: "resolve_key c r s = (Inr rk, s1)"
    "smap (resolve_key c) raws s1 = (Inr rks', t')" "rks = rk # rks'"
    by (auto simp: stateful_defs elim!: sbind_Inr_cases)
  have "same_view s s1" using keeps_view_resolve [of c r] r(1) by (metis keeps_view_def snd_conv)
  then have "fst (getKeyData i s1) = fst (getKeyData i s)" for i by (simp add: same_view_def)
  with Cons(1) [OF r(2)] resolve_key_Inr [OF r(1)] r(3) show ?case by simp
qed (simp add: stateful_defs)

lemma decryptPatchMutations_Inr:
  assumes "decryptPatchMutations E c patch s = (Inr ms, t)"
  shows "list_all2 (decrypted_as E c s) (syp_mutations patch) ms"
proof -
  obtain raws rks s1 t1 where r: "rmap parse_mutation (syp_mutations patch) = Inr raws"
    "s1 = preloadKeyData (map rm_keyId raws) s" "smap (resolve_key c) raws s1 = (Inr rks, t1)"
    "rmap (decrypt_raw E c FromPatch) rks = Inr ms"
    using assms unfolding decryptPatchMutations_def decrypt_all_def
    by (auto simp: stateful_defs elim!: sbind_Inr_cases)
  have "same_view s s1"
    using keeps_view_preload [of "map rm_keyId raws"] by (simp add: keeps_view_def smodify_def r(2))
  then have key: "fst (getKeyData i s1) = fst (getKeyData i s)" for i by (simp add: same_view_def)
  have "length (syp_mutations patch) = length raws" "length raws = length rks" "length rks = length ms"
    using rmap_Inr [OF r(1)] resolve_keys_Inr [OF r(3)] rmap_Inr [OF r(4)] by (auto dest: list_all2_lengthD)
  with rmap_Inr [OF r(1)] resolve_keys_Inr [OF r(3)] rmap_Inr [OF r(4)] show ?thesis
    unfolding list_all2_conv_all_nth decrypted_as_def key by force
qed

text \<open>Everything \<open>applyPatch\<close> does before it writes the new state.\<close>

definition checked_patch ::
    "'v sync_env \<Rightarrow> collection_name \<Rightarrow> syncd_patch \<Rightarrow> (int \<times> bytes \<times> (jstr, bytes) jsmap \<times> 'v app_mutation list) syncing" where
  "checked_patch E collection patch =
    sbind (slift (normalizeProtoLong (syp_version patch))) (\<lambda>patchVersion.
    sbind (srun (get_state collection)) (\<lambda>current.
    sbind (if cs_version current \<noteq> patchVersion - 1
      then sthrow (PatchVersionMismatch (cs_version current) patchVersion) else sreturn ()) (\<lambda>_.
    sbind (verification_key E collection (syp_keyId patch)) (\<lambda>patchKeyData.
    sbind (decryptPatchMutations E collection patch) (\<lambda>mutations.
    sbind (slift (computeNextCollectionState (env_crypto E) (cs_hash current) (cs_indexValueMap current)
      (map to_mac_mutation mutations))) (\<lambda>(nextHash, nextMap).
    sbind (slift (case patchKeyData of None \<Rightarrow> Inr ()
      | Some k \<Rightarrow> assertPatchMacsMatch E patch collection k patchVersion nextHash (map am_valueMac mutations))) (\<lambda>_.
      sreturn (patchVersion, nextHash, nextMap, mutations))))))))"

lemma sbind_assoc: "sbind (sbind m f) g = sbind m (\<lambda>a. sbind (f a) g)"
proof
  fix s
  show "sbind (sbind m f) g s = sbind m (\<lambda>a. sbind (f a) g) s"
    by (cases "m s"; cases "fst (m s)") (auto simp: sbind_def)
qed

lemma sbind_return: "sbind (sreturn a) f = f a"
  by (rule ext) (simp add: sbind_def sreturn_def)

lemma applyPatch_eq:
  "applyPatch E c patch = sbind (checked_patch E c patch) (\<lambda>(v, h, m, ms).
    sbind (smodify (set_state c v h m)) (\<lambda>_. sreturn ms))"
  unfolding applyPatch_def checked_patch_def by (simp add: sbind_assoc sbind_return case_prod_unfold)

lemma keeps_view_checked: "keeps_view (checked_patch E c patch)"
  unfolding checked_patch_def
  by (auto intro!: keeps_view_bind keeps_view_pure keeps_view_state keeps_view_verification_key keeps_view_decrypt)

lemma slift_Inr: "slift r s = (Inr a, t) \<Longrightarrow> r = Inr a \<and> t = s"
  by (simp add: slift_def)

lemma verification_key_Inr:
  assumes "verification_key E c kf s = (Inr kd, t)" "\<not> env_skipMac E"
  shows "\<exists>keyId k. kf = Some keyId \<and> kd = Some k \<and> fst (getKeyData keyId s) = Some k"
proof -
  obtain keyId where keyId: "required_bytes kf = Inr keyId" "(case fst (getKeyData keyId s) of
      None \<Rightarrow> sthrow (MissingKey (Some keyId) c) | Some k \<Rightarrow> sreturn (Some k)) (snd (getKeyData keyId s)) = (Inr kd, t)"
    using assms unfolding verification_key_def by (auto simp: slift_def srun_def split_beta elim!: sbind_Inr_cases)
  obtain k where "fst (getKeyData keyId s) = Some k" "kd = Some k"
    using keyId(2) by (cases "fst (getKeyData keyId s)") (auto simp: stateful_defs)
  moreover have "kf = Some keyId"
    using keyId(1) by (cases kf) (simp_all add: required_bytes_def decodeProtoBytes_def lift_error_def)
  ultimately show ?thesis by blast
qed

lemma checked_patch_Inr:
  assumes "checked_patch E c patch s = (Inr (v, h, m, ms), t)"
  shows "normalizeProtoLong (syp_version patch) = Inr (cs_version (fst (get_state c s)) + 1)"
    "v = cs_version (fst (get_state c s)) + 1"
    "computeNextCollectionState (env_crypto E) (cs_hash (fst (get_state c s))) (cs_indexValueMap (fst (get_state c s)))
      (map to_mac_mutation ms) = Inr (h, m)"
    "\<not> env_skipMac E \<Longrightarrow> \<exists>keyId k. syp_keyId patch = Some keyId \<and> fst (getKeyData keyId s) = Some k \<and>
      assertPatchMacsMatch E patch c k v h (map am_valueMac ms) = Inr ()"
    "list_all2 (decrypted_as E c s) (syp_mutations patch) ms"
proof -
  let ?cs = "fst (get_state c s)" and ?s1 = "snd (get_state c s)"
  obtain kd t1 where long: "normalizeProtoLong (syp_version patch) = Inr v" "cs_version ?cs = v - 1"
    and kd: "verification_key E c (syp_keyId patch) ?s1 = (Inr kd, t1)"
    and next1: "computeNextCollectionState (env_crypto E) (cs_hash ?cs) (cs_indexValueMap ?cs) (map to_mac_mutation ms) = Inr (h, m)"
    and macs: "(case kd of None \<Rightarrow> Inr () | Some k \<Rightarrow> assertPatchMacsMatch E patch c k v h (map am_valueMac ms)) = Inr ()"
    and dec: "\<exists>t2. decryptPatchMutations E c patch t1 = (Inr ms, t2)"
    using assms unfolding checked_patch_def
    by (auto simp: stateful_defs split_beta elim!: sbind_Inr_cases split: if_splits)
  show "normalizeProtoLong (syp_version patch) = Inr (cs_version ?cs + 1)" "v = cs_version ?cs + 1"
    "computeNextCollectionState (env_crypto E) (cs_hash ?cs) (cs_indexValueMap ?cs) (map to_mac_mutation ms) = Inr (h, m)"
    using long next1 by simp_all
  have view: "fst (getKeyData i ?s1) = fst (getKeyData i s)" for i
    using keeps_view_state [of c] by (simp add: keeps_view_def same_view_def srun_def split_beta)
  show "\<exists>keyId k. syp_keyId patch = Some keyId \<and> fst (getKeyData keyId s) = Some k \<and>
      assertPatchMacsMatch E patch c k v h (map am_valueMac ms) = Inr ()" if "\<not> env_skipMac E"
    using verification_key_Inr [OF kd that] macs view by auto
  have "same_view ?s1 t1" using keeps_view_verification_key [of E c "syp_keyId patch"] kd by (metis keeps_view_def snd_conv)
  then have "decrypted_as E c t1 = decrypted_as E c s"
    using view unfolding decrypted_as_def same_view_def by (intro ext) simp
  with dec show "list_all2 (decrypted_as E c s) (syp_mutations patch) ms"
    using decryptPatchMutations_Inr by metis
qed

text \<open>
  C10: \<open>applyPatch\<close> either throws and leaves every collection, the set of changed collections and
  the keys as they were, or it applies the whole patch: every mutation of the patch is decrypted with
  the sync key it names and returned in its place; the patch is the successor of the current version
  and, with MAC checks on, carries a patch MAC under a known sync key over its snapshot MAC, the value
  MACs of its mutations, its version and the name of the collection; this collection moves to the state
  computed from exactly these mutations and every other one stays as it was.
\<close>

theorem patch_all_or_nothing:
  "case applyPatch E c patch s of
      (Inl e, t) \<Rightarrow> same_view s t
    | (Inr ms, t) \<Rightarrow> let C = env_crypto E; cs = fst (get_state c s); v = cs_version cs + 1 in
        list_all2 (decrypted_as E c s) (syp_mutations patch) ms \<and>
        normalizeProtoLong (syp_version patch) = Inr v \<and>
        (env_skipMac E \<or> (\<exists>keyId k snapshotMac patchMac. syp_keyId patch = Some keyId \<and> fst (getKeyData keyId s) = Some k \<and>
          syp_snapshotMac patch = Some snapshotMac \<and> syp_patchMac patch = Some patchMac \<and>
          patch_mac_with C (derive_fresh C k) snapshotMac (map am_valueMac ms) v (collection_value c) = Inr patchMac)) \<and>
        (\<exists>h m. computeNextCollectionState C (cs_hash cs) (cs_indexValueMap cs) (map to_mac_mutation ms) = Inr (h, m) \<and>
          (\<lambda>c'. fst (get_state c' t)) = (\<lambda>c'. fst (get_state c' s))
            (c := \<lparr>cs_initialized = True, cs_version = v, cs_hash = h, cs_indexValueMap = m\<rparr>))"
proof (cases "checked_patch E c patch s")
  case (Pair r' t')
  then have view: "same_view s t'" using keeps_view_checked [of E c patch] by (metis keeps_view_def snd_conv)
  show ?thesis
  proof (cases r')
    case (Inl e)
    then have "applyPatch E c patch s = (Inl e, t')" using Pair by (simp add: applyPatch_eq sbind_def)
    then show ?thesis using view by simp
  next
    case (Inr x)
    obtain v h m ms where x: "x = (v, h, m, ms)" by (cases x)
    have r: "applyPatch E c patch s = (Inr ms, set_state c v h m t')"
      using Pair Inr x by (simp add: applyPatch_eq sbind_def stateful_defs)
    have run: "checked_patch E c patch s = (Inr (v, h, m, ms), t')" using Pair Inr x by simp
    have macs: "\<exists>snapshotMac patchMac. syp_snapshotMac patch = Some snapshotMac \<and> syp_patchMac patch = Some patchMac \<and>
        patch_mac_with (env_crypto E) (derive_fresh (env_crypto E) k) snapshotMac (map am_valueMac ms) v (collection_value c) = Inr patchMac"
      if "assertPatchMacsMatch E patch c k v h (map am_valueMac ms) = Inr ()" for k
      using that unfolding assertPatchMacsMatch_def Let_def
      by (auto simp: required_bytes_def decodeProtoBytes_def lift_error_def uint8TimingSafeEqual_iff
          elim!: rbind_Inr_cases split: option.splits sum.splits if_splits)
    have "\<exists>keyId k snapshotMac patchMac. syp_keyId patch = Some keyId \<and> fst (getKeyData keyId s) = Some k \<and>
        syp_snapshotMac patch = Some snapshotMac \<and> syp_patchMac patch = Some patchMac \<and>
        patch_mac_with (env_crypto E) (derive_fresh (env_crypto E) k) snapshotMac (map am_valueMac ms) v (collection_value c) = Inr patchMac"
      if "\<not> env_skipMac E"
      using checked_patch_Inr(4) [OF run that] macs by blast
    moreover have "(\<lambda>c'. fst (get_state c' (set_state c v h m t'))) = (\<lambda>c'. fst (get_state c' s))
        (c := \<lparr>cs_initialized = True, cs_version = v, cs_hash = h, cs_indexValueMap = m\<rparr>)"
    proof (rule ext)
      fix c'
      have "fst (get_state c' t') = fst (get_state c' s)" using view by (simp add: same_view_def)
      then show "fst (get_state c' (set_state c v h m t')) = ((\<lambda>c'. fst (get_state c' s))
          (c := \<lparr>cs_initialized = True, cs_version = v, cs_hash = h, cs_indexValueMap = m\<rparr>)) c'"
        by (simp add: get_state_view set_state_def cong: option.case_cong)
    qed
    ultimately show ?thesis
      using checked_patch_Inr(1,3,5) [OF run] unfolding r checked_patch_Inr(2) [OF run] by (simp add: Let_def) blast
  qed
qed

subsection \<open>Pending mutations\<close>

text \<open>The last element of every key, in the order of the list.\<close>

fun last_per :: "('a \<Rightarrow> 'k) \<Rightarrow> 'a list \<Rightarrow> 'a list" where
  "last_per f [] = []"
| "last_per f (x # xs) = (if f x \<in> f ` set xs then last_per f xs else x # last_per f xs)"

lemma last_per_snoc: "last_per f (xs @ [y]) = last_per f (filter (\<lambda>x. f x \<noteq> f y) xs) @ [y]"
  by (induction xs) (auto simp: image_iff)

lemma compact_loop_eq:
  "compact_loop ms seen acc = rev (acc @ rev (last_per mi_index (rev (filter (\<lambda>m. mi_index m \<notin> set seen) ms))))"
proof (induction ms seen acc rule: compact_loop.induct)
  case (2 m ms seen acc)
  have "filter (\<lambda>x. mi_index x \<noteq> mi_index m) (rev (filter (\<lambda>m. mi_index m \<notin> set seen) ms)) =
      rev (filter (\<lambda>x. mi_index x \<notin> set (seen @ [mi_index m])) ms)"
    by (simp add: rev_filter conj_commute)
  with 2 show ?case by (auto simp: last_per_snoc simp del: rev_filter)
qed simp

lemma compact_eq: "compact_loop (rev ms) [] [] = last_per mi_index ms"
  by (simp add: compact_loop_eq)

lemma group_loop_get:
  "map_get (group_loop ms m) c =
    (let own = filter (\<lambda>i. mi_collection i = c) ms in
     case map_get m c of Some list \<Rightarrow> Some (list @ own) | None \<Rightarrow> if own = [] then None else Some own)"
  by (induction ms m rule: group_loop.induct) (auto simp: Let_def split: option.splits)

lemma jsmap_ok_group: "jsmap_ok m \<Longrightarrow> jsmap_ok (group_loop ms m)"
  by (induction ms m rule: group_loop.induct) (auto split: option.splits)

lemma map_values_get:
  "map_get (foldl (\<lambda>acc (k, v). map_set k (f v) acc) acc es) k =
    (case map_of (rev es) k of Some v \<Rightarrow> Some (f v) | None \<Rightarrow> map_get acc k)"
  by (induction es arbitrary: acc) (auto simp: map_add_def split: option.splits)

lemma map_of_rev_ok: "jsmap_ok m \<Longrightarrow> map_of (rev m) = map_of m"
  by (rule map_of_inject_set [THEN iffD2]) (simp_all add: jsmap_ok_def rev_map [symmetric])

text \<open>
  C17: the mutations that are sent for a collection are those that were queued for it, in their order,
  without the ones that a later mutation of the same index replaces.
\<close>

theorem pending_mutations_grouped:
  "map_get (groupPendingMutations pending) c =
    (let own = filter (\<lambda>m. mi_collection m = c) pending in if own = [] then None else Some (last_per mi_index own))"
proof -
  have "map_of (rev (group_loop pending [])) = map_of (group_loop pending [])"
    by (rule map_of_rev_ok [OF jsmap_ok_group]) (simp add: jsmap_ok_def)
  then have "map_get (groupPendingMutations pending) c = map_option (last_per mi_index) (map_get (group_loop pending []) c)"
    unfolding groupPendingMutations_def compact_eq map_values_get by (simp add: map_get_def split: option.split)
  then show ?thesis by (simp add: group_loop_get map_get_Nil Let_def)
qed

subsection \<open>The active sync key\<close>

text \<open>
  Keys are ranked by their epoch, and within an epoch by the lower device; ids that are too short rank
  last.
\<close>

definition key_rank :: "sync_key \<Rightarrow> int \<times> int" where
  "key_rank k = (keyEpoch (ask_keyId k), - int (nullish (keyDeviceId (ask_keyId k)) 0))"

definition outranks :: "sync_key \<Rightarrow> sync_key \<Rightarrow> bool" where
  "outranks a b \<longleftrightarrow> fst (key_rank b) < fst (key_rank a) \<or>
    fst (key_rank b) = fst (key_rank a) \<and> snd (key_rank b) < snd (key_rank a)"

lemma keyEpoch_short: "keyEpoch i = - 1 \<longleftrightarrow> length i < 6" "length i < 6 \<longleftrightarrow> keyDeviceId i = None"
proof -
  have "int n \<noteq> - 1" for n by simp
  then show "keyEpoch i = - 1 \<longleftrightarrow> length i < 6" unfolding keyEpoch_def by presburger
  show "length i < 6 \<longleftrightarrow> keyDeviceId i = None" by (simp add: keyDeviceId_def)
qed

lemma outranks_trans: "outranks b a \<Longrightarrow> outranks a k \<Longrightarrow> outranks b k"
  by (auto simp: outranks_def)

lemma outranks_between: "outranks b k \<Longrightarrow> outranks b a \<or> outranks a k"
  by (auto simp: outranks_def)

lemma replaces_outranks: "replaces_active key active = outranks key active"
  using keyEpoch_short [of "ask_keyId key"] keyEpoch_short [of "ask_keyId active"]
  by (auto simp: replaces_active_def outranks_def key_rank_def nullish_def Let_def split: option.splits)

lemma active_loop_Some: "active_loop (Some a) keys \<noteq> None"
  by (induction keys arbitrary: a) auto

lemma active_loop_best:
  "active_loop (Some a) keys = Some k \<Longrightarrow> k \<in> set (a # keys) \<and> (\<forall>k'\<in>set (a # keys). \<not> outranks k' k)"
proof (induction keys arbitrary: a)
  case Nil
  then show ?case by (simp add: outranks_def)
next
  case (Cons b keys)
  show ?case
  proof (cases "outranks b a")
    case True
    then have "k \<in> set (b # keys)" "\<forall>k'\<in>set (b # keys). \<not> outranks k' k"
      using Cons.IH [of b] Cons.prems by (simp_all add: replaces_outranks)
    moreover from this True have "\<not> outranks a k" using outranks_trans by auto
    ultimately show ?thesis by simp
  next
    case False
    then have "k \<in> set (a # keys)" "\<forall>k'\<in>set (a # keys). \<not> outranks k' k"
      using Cons.IH [of a] Cons.prems by (simp_all add: replaces_outranks)
    moreover from this False have "\<not> outranks b k" using outranks_between by auto
    ultimately show ?thesis by auto
  qed
qed

text \<open>
  C19: the active sync key is one of the keys of the highest epoch, on the lowest device among them;
  there is one as soon as there is a key.
\<close>

theorem active_key_is_best:
  "case pickActiveSyncKey keys of
     None \<Rightarrow> keys = []
   | Some k \<Rightarrow> k \<in> set keys \<and> (\<forall>k'\<in>set keys. \<not> outranks k' k)"
proof (cases keys)
  case (Cons a rest)
  then obtain k where "active_loop (Some a) rest = Some k" using active_loop_Some [of a rest] by auto
  with Cons active_loop_best [of a rest k] show ?thesis by (simp add: pickActiveSyncKey_def)
qed (simp add: pickActiveSyncKey_def)

definition ranked_key :: "nat \<Rightarrow> nat \<Rightarrow> sync_key" where
  "ranked_key dev epoch = \<lparr>ask_keyId = [0, of_nat dev, 0, 0, 0, of_nat epoch], ask_keyData = [], ask_timestamp = 0,
    ask_fingerprint = None\<rparr>"

theorem active_key_is_best_witness:
  "\<exists>k. pickActiveSyncKey [ranked_key 1 4, ranked_key 2 7, ranked_key 3 7] = Some k \<and>
    \<not> outranks (ranked_key 1 4) k \<and> \<not> outranks (ranked_key 2 7) k \<and> \<not> outranks (ranked_key 3 7) k"
  using active_key_is_best [of "[ranked_key 1 4, ranked_key 2 7, ranked_key 3 7]"] by (auto split: option.splits)

lemma base_256:
  "256 * q1 + m0 = e \<Longrightarrow> 256 * q2 + m1 = q1 \<Longrightarrow> 256 * q3 + m2 = q2 \<Longrightarrow>
    q3 * 16777216 + m2 * 65536 + m1 * 256 + m0 = (e :: nat)"
  by auto

text \<open>
  On an empty store, the key that \<open>ensureInitialSyncKey\<close> generates carries the device and the
  epoch, is stored, and is the active key from then on: a second call returns it.
\<close>

theorem initial_key_becomes_active:
  assumes "as_keys store = []" "0 < as_maxSyncKeys store" "nullish (env_deviceIndex E) 0 < 65536" "epoch < 2 ^ 32"
    and "ensureInitialSyncKey E epoch keyData rawId now store = (key, store')"
  shows "keyEpoch (ask_keyId key) = int epoch \<and> keyDeviceId (ask_keyId key) = Some (nullish (env_deviceIndex E) 0) \<and>
    ask_keyData key = keyData \<and> getSyncKeyData (ask_keyId key) store' = Some keyData \<and>
    ensureInitialSyncKey E epoch' keyData' rawId' now' store' = (key, store')"
proof -
  let ?d = "nullish (env_deviceIndex E) 0"
  have none: "getActiveSyncKey store = None"
    by (simp add: getActiveSyncKey_def pickActiveSyncKey_def assms(1))
  have key: "ask_keyId key = key_id_bytes ?d epoch" "ask_keyData key = keyData"
    and store': "store' = snd (upsertSyncKeys [key] 0 store)"
    using assms(5) unfolding ensureInitialSyncKey_def none by (auto simp: Let_def)
  have keys: "as_keys store' = [(bytesToHex (ask_keyId key), key)]"
    using assms(1,2) by (simp add: store' map_get_def setBoundedMapEntry_eq map_delete_def Let_def)
  have id: "ask_keyId key = [to_u8 (?d div 256), to_u8 ?d, to_u8 (epoch div 16777216), to_u8 (epoch div 65536),
      to_u8 (epoch div 256), to_u8 epoch]"
    unfolding key(1) key_id_bytes_def by (simp add: and_255 drop_bit_eq_div)
  have "epoch div 16777216 < 256" using assms(4) by simp
  have "epoch div 65536 = epoch div 256 div 256" "epoch div 16777216 = epoch div 256 div 256 div 256"
    by (simp_all add: div_mult2_eq [symmetric])
  then have "epoch div 16777216 * 16777216 + epoch div 65536 mod 256 * 65536 + epoch div 256 mod 256 * 256 + epoch mod 256 = epoch"
    by (intro base_256) (simp_all add: mult_div_mod_eq)
  then have epoch: "keyEpoch (ask_keyId key) = int epoch"
    unfolding id keyEpoch_def using \<open>epoch div 16777216 < 256\<close> by simp
  have "?d div 256 < 256" using assms(3) by simp
  then have device: "keyDeviceId (ask_keyId key) = Some ?d"
    unfolding id keyDeviceId_def by (simp add: or_shift_nat [where n = 8, simplified])
  have "getSyncKeyData (ask_keyId key) store' = Some keyData"
    using key(2) by (simp add: getSyncKeyData_def keys map_get_def)
  moreover have "getActiveSyncKey store' = Some key"
    by (simp add: getActiveSyncKey_def pickActiveSyncKey_def keys)
  ultimately show ?thesis
    using epoch device key(2) by (simp add: ensureInitialSyncKey_def)
qed

theorem initial_key_becomes_active_witness:
  "\<exists>key store'. ensureInitialSyncKey (sample_sync_env True (\<lambda>_ _. None)) 66000 (replicate 32 1) 5 0 sample_store = (key, store') \<and>
    keyEpoch (ask_keyId key) = int 66000 \<and> keyDeviceId (ask_keyId key) = Some (nullish (Some 2) 0) \<and>
    ask_keyData key = replicate 32 1 \<and> getSyncKeyData (ask_keyId key) store' = Some (replicate 32 1) \<and>
    ensureInitialSyncKey (sample_sync_env True (\<lambda>_ _. None)) 9 [] 6 1 store' = (key, store')"
proof -
  let ?E = "sample_sync_env True (\<lambda>_ _. None)"
  obtain key store' where run: "ensureInitialSyncKey ?E 66000 (replicate 32 1) 5 0 sample_store = (key, store')"
    by (cases "ensureInitialSyncKey ?E 66000 (replicate 32 1) 5 0 sample_store") auto
  have "env_deviceIndex ?E = Some 2" by (simp add: sample_sync_env_def)
  with initial_key_becomes_active [OF _ _ _ _ run, of 9 "[]" 6 1] run show ?thesis
    by (intro exI [of _ key] exI [of _ store']) (simp add: sample_store_def nullish_def)
qed

end
