(* ===== verification/AppStateFlush.thy ===== *)
theory AppStateFlush
  imports AppStateProperties
begin

text \<open>
  The queue of local mutations of \<open>src/client/coordinators/WaAppStateMutationCoordinator.ts\<close>, its
  flush loop, and the sharing of a running synchronisation in \<open>WaAppStateSyncClient.sync\<close>.  The
  flush is a coroutine that waits for a synchronisation; the turns of the event loop between are the
  rules of the relation \<open>flush_step\<close>.  The ghost fields of the state hold, for every key, the last
  mutation that was queued, and the mutations a successful synchronisation has carried to the server.
\<close>

subsection \<open>The queue\<close>

type_synonym 'v mutation_queue = "(jstr, 'v mutation_input) jsmap"

definition mutation_key :: "'v mutation_input \<Rightarrow> jstr" where
  "mutation_key m = collection_value (mi_collection m) @ [1] @ mi_index m"

definition enqueueMutation :: "'v mutation_input \<Rightarrow> 'v mutation_queue \<Rightarrow> 'v mutation_queue" where
  "enqueueMutation m q =
    (let key = mutation_key m; q' = (if map_get q key \<noteq> None then map_delete key q else q)
     in map_set key m q')"

definition enqueue_all :: "'v mutation_input list \<Rightarrow> 'v mutation_queue \<Rightarrow> 'v mutation_queue" where
  "enqueue_all ms q = foldl (\<lambda>acc m. enqueueMutation m acc) q ms"

definition takePendingMutationsBatch :: "'v mutation_queue \<Rightarrow> 'v mutation_input list \<times> 'v mutation_queue" where
  "takePendingMutationsBatch q = (if q = [] then ([], q) else (map snd q, []))"

definition requeueMutations :: "'v mutation_input list \<Rightarrow> 'v mutation_queue \<Rightarrow> 'v mutation_queue" where
  "requeueMutations ms q = (if ms = [] then q else enqueue_all (map snd q) (enqueue_all ms []))"

subsection \<open>The flush\<close>

definition FLUSH_SUCCESS_STATES :: "app_collection_state set" where
  "FLUSH_SUCCESS_STATES = {StateSuccess, StateSuccessHasMore}"

text \<open>What a synchronisation gives its callers; \<open>Inl\<close> is a rejection.\<close>

type_synonym sync_answer = "sync_error + (collection_name \<times> app_collection_state) list"

definition reported_success :: "(collection_name \<times> app_collection_state) list \<Rightarrow> collection_name \<Rightarrow> bool" where
  "reported_success results c =
    (case map_get (foldl (\<lambda>m (c, st). map_set c st m) [] results) c of
       None \<Rightarrow> False
     | Some st \<Rightarrow> st \<in> FLUSH_SUCCESS_STATES)"

definition failed_mutations :: "'v mutation_input list \<Rightarrow> sync_answer \<Rightarrow> 'v mutation_input list" where
  "failed_mutations batch answer =
    (case answer of
       Inl _ \<Rightarrow> batch
     | Inr results \<Rightarrow>
         let collections = unique_collections (map mi_collection batch);
             failed = filter (\<lambda>c. \<not> reported_success results c) collections
         in filter (\<lambda>m. mi_collection m \<in> set failed) batch)"

datatype 'v flush_stage =
    FlushIdle
  | FlushWaiting "'v mutation_input list"
  | FlushResumed "'v mutation_input list" sync_answer

text \<open>\<open>fs_sync\<close> is the synchronisation in flight, with the mutations it was called with.\<close>

record 'v flush_state =
  fs_queue :: "'v mutation_queue"
  fs_flush :: "'v flush_stage"
  fs_sync :: "'v mutation_input list option"
  fs_latest :: "'v mutation_queue"
  fs_uploaded :: "'v mutation_input list"

definition idle_flush :: "'v flush_state" where
  "idle_flush = \<lparr>fs_queue = [], fs_flush = FlushIdle, fs_sync = None, fs_latest = [], fs_uploaded = []\<rparr>"

text \<open>\<open>sync\<close> of the client: a second call joins the run in flight, whatever its options are.\<close>

definition shared_sync :: "'v mutation_input list \<Rightarrow> 'v flush_state \<Rightarrow> 'v flush_state" where
  "shared_sync pendingMutations s =
    (case fs_sync s of Some _ \<Rightarrow> s | None \<Rightarrow> s\<lparr>fs_sync := Some pendingMutations\<rparr>)"

text \<open>
  An iteration of \<open>flushPendingMutationsLoop\<close> up to its \<open>await\<close>.  Without a connection \<open>sync\<close> of the
  coordinator throws.
\<close>

definition flush_batch :: "bool \<Rightarrow> 'v flush_state \<Rightarrow> 'v flush_state" where
  "flush_batch connected s =
    (let (batch, q) = takePendingMutationsBatch (fs_queue s) in
     if batch = [] then s\<lparr>fs_flush := FlushIdle\<rparr>
     else if \<not> connected then s\<lparr>fs_queue := requeueMutations batch q, fs_flush := FlushIdle\<rparr>
     else shared_sync batch (s\<lparr>fs_queue := q, fs_flush := FlushWaiting batch\<rparr>))"

definition flushMutations :: "bool \<Rightarrow> 'v flush_state \<Rightarrow> 'v flush_state" where
  "flushMutations connected s = (if fs_flush s \<noteq> FlushIdle then s else flush_batch connected s)"

definition enqueueAndFlush :: "bool \<Rightarrow> 'v mutation_input list \<Rightarrow> 'v flush_state \<Rightarrow> 'v flush_state" where
  "enqueueAndFlush connected ms s =
    flushMutations connected (s\<lparr>fs_queue := enqueue_all ms (fs_queue s), fs_latest := enqueue_all ms (fs_latest s)\<rparr>)"

text \<open>The end of the synchronisation in flight, and the turn in which the flush goes on with its answer.\<close>

definition settle_sync :: "sync_answer \<Rightarrow> 'v flush_state \<Rightarrow> 'v flush_state" where
  "settle_sync answer s =
    (case fs_sync s of
       None \<Rightarrow> s
     | Some carried \<Rightarrow>
         s\<lparr>fs_sync := None,
           fs_uploaded := fs_uploaded s @ (case answer of Inl _ \<Rightarrow> []
             | Inr results \<Rightarrow> filter (\<lambda>m. reported_success results (mi_collection m)) carried),
           fs_flush := (case fs_flush s of FlushWaiting batch \<Rightarrow> FlushResumed batch answer | f \<Rightarrow> f)\<rparr>)"

definition flush_turn :: "bool \<Rightarrow> 'v flush_state \<Rightarrow> 'v flush_state" where
  "flush_turn connected s =
    (case fs_flush s of
       FlushResumed batch answer \<Rightarrow>
         if failed_mutations batch answer = [] then flush_batch connected s
         else s\<lparr>fs_queue := requeueMutations (failed_mutations batch answer) (fs_queue s), fs_flush := FlushIdle\<rparr>
     | _ \<Rightarrow> s)"

text \<open>
  The turns.  \<open>joins\<close> says whether a flush may meet a synchronisation that someone else has started.
\<close>

inductive flush_step :: "bool \<Rightarrow> 'v flush_state \<Rightarrow> 'v flush_state \<Rightarrow> bool" for joins where
  queue_and_flush: "joins \<or> fs_sync s = None \<or> fs_flush s \<noteq> FlushIdle \<Longrightarrow>
    flush_step joins s (enqueueAndFlush connected ms s)"
| flush_again: "joins \<or> fs_sync s = None \<or> fs_flush s \<noteq> FlushIdle \<Longrightarrow>
    flush_step joins s (flushMutations connected s)"
| other_sync: "flush_step joins s (shared_sync [] s)"
| sync_settles: "flush_step joins s (settle_sync answer s)"
| flush_resumes: "joins \<or> fs_sync s = None \<Longrightarrow> flush_step joins s (flush_turn connected s)"

inductive flush_reachable :: "bool \<Rightarrow> 'v flush_state \<Rightarrow> bool" for joins where
  start: "flush_reachable joins idle_flush"
| step: "flush_reachable joins s \<Longrightarrow> flush_step joins s s' \<Longrightarrow> flush_reachable joins s'"

subsection \<open>Events of a synchronisation\<close>

text \<open>
  \<open>emitEventsFromSyncResult\<close>: which mutations of a collection are handed on.  The map from keys to
  the last position, then the loop that takes the mutation at that position.
\<close>

definition app_mutation_key :: "'v app_mutation \<Rightarrow> jstr" where
  "app_mutation_key m = collection_value (am_collection m) @ [1] @ am_index m"

definition last_positions :: "('v app_mutation \<Rightarrow> bool) \<Rightarrow> 'v app_mutation list \<Rightarrow> (jstr, nat) jsmap" where
  "last_positions skipped ms =
    foldl (\<lambda>acc (i, m). if skipped m then acc else map_set (app_mutation_key m) i acc) [] (enumerate 0 ms)"

definition winning_mutations :: "('v app_mutation \<Rightarrow> bool) \<Rightarrow> 'v app_mutation list \<Rightarrow> 'v app_mutation list" where
  "winning_mutations skipped ms =
    map snd (filter (\<lambda>(i, m). \<not> skipped m \<and> map_get (last_positions skipped ms) (app_mutation_key m) = Some i)
      (enumerate 0 ms))"

text \<open>The mutations the sinks get, and those that become events.\<close>

definition emitEventsFromSyncResult ::
    "bool \<Rightarrow> bool \<Rightarrow> 'v app_mutation list option \<Rightarrow> 'v app_mutation list \<times> 'v app_mutation list" where
  "emitEventsFromSyncResult hasSinks emitSnapshotMutations mutations =
    (let ms = nullish mutations [] in
     (if hasSinks then winning_mutations (\<lambda>_. False) ms else [],
      winning_mutations (\<lambda>m. \<not> emitSnapshotMutations \<and> am_source m = FromSnapshot) ms))"

definition getBlockedCollections :: "'v collection_outcome list \<Rightarrow> collection_name list" where
  "getBlockedCollections results = map co_collection (filter (\<lambda>r. co_state r = StateBlocked) results)"

subsection \<open>Lemmas on the queue\<close>

definition queue_ok :: "'v mutation_queue \<Rightarrow> bool" where
  "queue_ok q \<longleftrightarrow> jsmap_ok q \<and> (\<forall>k m. map_get q k = Some m \<longrightarrow> mutation_key m = k)"

definition keyed :: "'v mutation_input list \<Rightarrow> (jstr \<times> 'v mutation_input) list" where
  "keyed ms = map (\<lambda>m. (mutation_key m, m)) ms"

lemma enqueueMutation_get:
  "map_get (enqueueMutation m q) k = (if k = mutation_key m then Some m else map_get q k)"
  by (simp add: enqueueMutation_def Let_def)

lemma enqueue_all_get:
  "map_get (enqueue_all ms q) k = (case map_of (rev (keyed ms)) k of Some m \<Rightarrow> Some m | None \<Rightarrow> map_get q k)"
  by (induction ms arbitrary: q)
    (auto simp: enqueue_all_def keyed_def enqueueMutation_get map_add_def split: option.split)

lemma map_of_keyed: "map_of (rev (keyed ms)) k = Some m \<Longrightarrow> m \<in> set ms \<and> mutation_key m = k"
  by (auto simp: keyed_def dest!: map_of_SomeD)

lemma map_of_keyed_distinct:
  "distinct (map mutation_key ms) \<Longrightarrow> m \<in> set ms \<Longrightarrow> map_of (rev (keyed ms)) (mutation_key m) = Some m"
  by (rule map_of_is_SomeI) (auto simp: keyed_def rev_map [symmetric] o_def)

lemma queue_ok_enqueue: "queue_ok q \<Longrightarrow> queue_ok (enqueueMutation m q)"
  by (simp add: queue_ok_def enqueueMutation_get) (simp add: enqueueMutation_def Let_def)

lemma queue_ok_all: "queue_ok q \<Longrightarrow> queue_ok (enqueue_all ms q)"
  unfolding enqueue_all_def by (induction ms arbitrary: q) (simp_all add: queue_ok_enqueue)

lemma queue_ok_Nil [simp]: "queue_ok []"
  by (simp add: queue_ok_def jsmap_ok_def map_get_Nil)

lemma keyed_queue:
  assumes "queue_ok q"
  shows "keyed (map snd q) = q" "map_of (rev q) = map_get q" "distinct (map mutation_key (map snd q))"
proof -
  have key: "mutation_key (snd e) = fst e" if "e \<in> set q" for e
    using assms that by (cases e) (simp add: queue_ok_def jsmap_ok_def map_get_def)
  then show "keyed (map snd q) = q" by (simp add: keyed_def map_idI)
  show "map_of (rev q) = map_get q"
    using map_of_rev_ok [of q] assms by (simp add: queue_ok_def map_get_def fun_eq_iff)
  have "map mutation_key (map snd q) = map fst q" using key by simp
  then show "distinct (map mutation_key (map snd q))"
    using assms by (simp only: queue_ok_def jsmap_ok_def simp_thms)
qed

lemma requeue_get:
  "queue_ok q \<Longrightarrow> map_get (requeueMutations ms q) k =
    (case map_get q k of Some m \<Rightarrow> Some m | None \<Rightarrow> map_of (rev (keyed ms)) k)"
proof -
  assume "queue_ok q"
  then have "map_of (rev (keyed (map snd q))) = map_get q" by (simp only: keyed_queue)
  then show ?thesis
    by (simp add: requeueMutations_def enqueue_all_get map_get_Nil del: map_map split: option.split)
      (simp add: keyed_def)
qed

lemma queue_ok_requeue: "queue_ok q \<Longrightarrow> queue_ok (requeueMutations ms q)"
  by (simp add: requeueMutations_def queue_ok_all)

lemma set_unique_collections: "set (unique_collections cs) = set cs"
proof -
  have "set (foldl (\<lambda>acc c. set_add c acc) acc cs) = set acc \<union> set cs" for acc
    by (induction cs arbitrary: acc) (auto simp: set_add_def)
  then show ?thesis by (simp add: unique_collections_def)
qed

lemma failed_mutations_cases:
  assumes "m \<in> set batch"
  shows "m \<in> set (failed_mutations batch answer) \<or>
    (\<exists>results. answer = Inr results \<and> reported_success results (mi_collection m))"
  using assms by (auto simp: failed_mutations_def set_unique_collections Let_def split: sum.split)

lemma failed_mutations_subset:
  "set (failed_mutations batch answer) \<subseteq> set batch"
  "distinct (map mutation_key batch) \<Longrightarrow> distinct (map mutation_key (failed_mutations batch answer))"
  by (auto simp: failed_mutations_def Let_def distinct_map_filter split: sum.split)

subsection \<open>The invariant\<close>

fun in_flight :: "'v flush_stage \<Rightarrow> 'v mutation_input list" where
  "in_flight FlushIdle = []"
| "in_flight (FlushWaiting batch) = batch"
| "in_flight (FlushResumed batch answer) = batch"

definition flush_inv :: "'v flush_state \<Rightarrow> bool" where
  "flush_inv s \<longleftrightarrow> queue_ok (fs_queue s) \<and> distinct (map mutation_key (in_flight (fs_flush s))) \<and>
    (\<forall>batch. fs_flush s = FlushWaiting batch \<longrightarrow> fs_sync s = Some batch) \<and>
    (\<forall>batch results. fs_flush s = FlushResumed batch (Inr results) \<longrightarrow>
      (\<forall>m\<in>set batch. reported_success results (mi_collection m) \<longrightarrow> m \<in> set (fs_uploaded s))) \<and>
    (\<forall>k m. map_get (fs_queue s) k = Some m \<longrightarrow> map_get (fs_latest s) k = Some m) \<and>
    (\<forall>m\<in>set (in_flight (fs_flush s)). map_get (fs_queue s) (mutation_key m) = None \<longrightarrow>
      map_get (fs_latest s) (mutation_key m) = Some m) \<and>
    (\<forall>k m. map_get (fs_latest s) k = Some m \<longrightarrow> mutation_key m = k \<and>
      (map_get (fs_queue s) k = Some m \<or> m \<in> set (in_flight (fs_flush s)) \<or> m \<in> set (fs_uploaded s)))"

lemma flush_invD:
  assumes "flush_inv s"
  shows "queue_ok (fs_queue s)" "distinct (map mutation_key (in_flight (fs_flush s)))"
    "fs_flush s = FlushWaiting batch \<Longrightarrow> fs_sync s = Some batch"
    "fs_flush s = FlushResumed batch (Inr results) \<Longrightarrow> m \<in> set batch \<Longrightarrow>
      reported_success results (mi_collection m) \<Longrightarrow> m \<in> set (fs_uploaded s)"
    "map_get (fs_queue s) k = Some m \<Longrightarrow> map_get (fs_latest s) k = Some m"
    "m \<in> set (in_flight (fs_flush s)) \<Longrightarrow> map_get (fs_queue s) (mutation_key m) = None \<Longrightarrow>
      map_get (fs_latest s) (mutation_key m) = Some m"
    "map_get (fs_latest s) k = Some m \<Longrightarrow> mutation_key m = k"
    "map_get (fs_latest s) k = Some m \<Longrightarrow> map_get (fs_queue s) k = Some m \<or>
      m \<in> set (in_flight (fs_flush s)) \<or> m \<in> set (fs_uploaded s)"
  using assms unfolding flush_inv_def by blast+

text \<open>The states in which no flush is in progress.\<close>

lemma flush_inv_idleI:
  assumes "queue_ok (fs_queue s)" "fs_flush s = FlushIdle"
    "\<And>k m. map_get (fs_queue s) k = Some m \<Longrightarrow> map_get (fs_latest s) k = Some m"
    "\<And>k m. map_get (fs_latest s) k = Some m \<Longrightarrow> mutation_key m = k \<and>
      (map_get (fs_queue s) k = Some m \<or> m \<in> set (fs_uploaded s))"
  shows "flush_inv s"
  unfolding flush_inv_def using assms by (intro conjI) simp_all

lemma flush_inv_enqueue:
  assumes "flush_inv s"
  shows "flush_inv (s\<lparr>fs_queue := enqueue_all ms (fs_queue s), fs_latest := enqueue_all ms (fs_latest s)\<rparr>)"
  using assms unfolding flush_inv_def
  by (auto simp: queue_ok_all enqueue_all_get dest: map_of_keyed split: option.splits)

lemma flush_inv_batch:
  assumes "flush_inv s" "fs_sync s = None" "set (in_flight (fs_flush s)) \<subseteq> set (fs_uploaded s)"
  shows "flush_inv (flush_batch connected s)"
proof (cases "fs_queue s = []")
  case True
  with assms show ?thesis
    unfolding flush_inv_def by (simp add: flush_batch_def takePendingMutationsBatch_def map_get_Nil) blast
next
  case False
  let ?b = "map snd (fs_queue s)"
  have ok: "queue_ok (fs_queue s)" using assms(1) by (simp add: flush_inv_def)
  have get: "map_of (rev (keyed ?b)) k = map_get (fs_queue s) k" for k
    by (simp only: keyed_queue [OF ok])
  have mem: "map_get (fs_queue s) (mutation_key m) = Some m" if "m \<in> set ?b" for m
    using map_of_keyed_distinct [OF keyed_queue(3) [OF ok] that] by (simp only: get)
  have mem': "m \<in> set ?b" if "map_get (fs_queue s) k = Some m" for k m
    using map_of_keyed [of ?b k m] that by (simp only: get)
  show ?thesis
  proof (cases connected)
    case True
    then have "flush_batch connected s = s\<lparr>fs_queue := [], fs_flush := FlushWaiting ?b, fs_sync := Some ?b\<rparr>"
      using False assms(2) by (simp add: flush_batch_def takePendingMutationsBatch_def shared_sync_def)
    moreover have "map_get (fs_latest s) (mutation_key m) = Some m" if "m \<in> set ?b" for m
      using flush_invD(5) [OF assms(1) mem [OF that]] .
    moreover have "m \<in> set ?b \<or> m \<in> set (fs_uploaded s)" if "map_get (fs_latest s) k = Some m" for k m
      using flush_invD(8) [OF assms(1) that] mem' assms(3) by blast
    ultimately show ?thesis
      using keyed_queue(3) [OF ok] flush_invD(7) [OF assms(1)] unfolding flush_inv_def
      by (simp add: map_get_Nil del: map_map set_map)
  next
    case False
    then have "flush_batch connected s = s\<lparr>fs_queue := requeueMutations ?b [], fs_flush := FlushIdle\<rparr>"
      using \<open>fs_queue s \<noteq> []\<close> by (simp add: flush_batch_def takePendingMutationsBatch_def)
    moreover have "map_get (requeueMutations ?b []) k = map_get (fs_queue s) k" for k
      by (simp add: requeue_get map_get_Nil get del: map_map)
    moreover have "map_get (fs_queue s) k = Some m \<or> m \<in> set (fs_uploaded s)"
      if "map_get (fs_latest s) k = Some m" for k m
      using flush_invD(8) [OF assms(1) that] assms(3) by blast
    ultimately show ?thesis
      using flush_invD(5,7) [OF assms(1)] by (intro flush_inv_idleI) (simp_all add: queue_ok_requeue del: map_map)
  qed
qed

lemma flush_inv_turn:
  assumes "flush_inv s" "fs_sync s = None"
  shows "flush_inv (flush_turn connected s)"
proof (cases "fs_flush s")
  case (FlushResumed batch answer)
  let ?f = "failed_mutations batch answer"
  have settled: "m \<in> set ?f \<or> m \<in> set (fs_uploaded s)" if "m \<in> set batch" for m
    using failed_mutations_cases [OF that, of answer] assms(1) FlushResumed that unfolding flush_inv_def by blast
  show ?thesis
  proof (cases "?f = []")
    case True
    with settled have "set (in_flight (fs_flush s)) \<subseteq> set (fs_uploaded s)" by (auto simp: FlushResumed)
    with flush_inv_batch [OF assms] True show ?thesis by (simp add: flush_turn_def FlushResumed)
  next
    case False
    have ok: "queue_ok (fs_queue s)" "distinct (map mutation_key batch)"
      using assms(1) by (simp_all add: flush_inv_def FlushResumed)
    have mem: "map_of (rev (keyed ?f)) (mutation_key m) = Some m" if "m \<in> set ?f" for m
      using map_of_keyed_distinct [OF failed_mutations_subset(2) [OF ok(2)] that] .
    have mem': "m \<in> set batch \<and> mutation_key m = k" if "map_of (rev (keyed ?f)) k = Some m" for m k
      using map_of_keyed [OF that] failed_mutations_subset(1) by blast
    have "flush_turn connected s = s\<lparr>fs_queue := requeueMutations ?f (fs_queue s), fs_flush := FlushIdle\<rparr>"
      using False by (simp add: flush_turn_def FlushResumed)
    moreover have "flush_inv (s\<lparr>fs_queue := requeueMutations ?f (fs_queue s), fs_flush := FlushIdle\<rparr>)" (is "flush_inv ?s")
    proof (rule flush_inv_idleI)
      show "queue_ok (fs_queue ?s)" "fs_flush ?s = FlushIdle" using ok by (simp_all add: queue_ok_requeue)
    next
      fix k m
      assume "map_get (fs_queue ?s) k = Some m"
      then show "map_get (fs_latest ?s) k = Some m"
        using flush_invD(5,6) [OF assms(1)] mem' [of k m]
        by (auto simp: requeue_get [OF ok(1)] FlushResumed split: option.splits)
    next
      fix k m
      assume latest: "map_get (fs_latest ?s) k = Some m"
      then have key: "mutation_key m = k" using flush_invD(7) [OF assms(1)] by simp
      have "map_get (fs_queue s) k = Some m \<or> m \<in> set ?f \<or> m \<in> set (fs_uploaded s)"
        using flush_invD(8) [OF assms(1)] latest settled by (auto simp: FlushResumed)
      moreover have "map_get (fs_queue ?s) k = Some m" if "m \<in> set ?f"
        using mem [OF that] key latest flush_invD(5) [OF assms(1), of k]
        by (auto simp: requeue_get [OF ok(1)] split: option.split)
      moreover have "map_get (fs_queue ?s) k = Some m" if "map_get (fs_queue s) k = Some m"
        using that by (simp add: requeue_get [OF ok(1)])
      ultimately show "mutation_key m = k \<and> (map_get (fs_queue ?s) k = Some m \<or> m \<in> set (fs_uploaded ?s))"
        using key by auto
    qed
    ultimately show ?thesis by simp
  qed
qed (simp_all add: flush_turn_def assms)

lemma flush_inv_flush:
  "flush_inv s \<Longrightarrow> fs_sync s = None \<or> fs_flush s \<noteq> FlushIdle \<Longrightarrow> flush_inv (flushMutations connected s)"
  using flush_inv_batch [of s connected] by (auto simp: flushMutations_def)

lemma flush_inv_other: "flush_inv s \<Longrightarrow> flush_inv (shared_sync [] s)"
  unfolding flush_inv_def by (cases "fs_sync s") (simp_all add: shared_sync_def)

lemma flush_inv_settle:
  assumes "flush_inv s"
  shows "flush_inv (settle_sync answer s)"
proof (cases "fs_sync s")
  case (Some carried)
  show ?thesis
  proof (cases "fs_flush s")
    case (FlushWaiting batch)
    then have "carried = batch" using flush_invD(3) [OF assms] Some by simp
    with Some FlushWaiting assms show ?thesis
      unfolding flush_inv_def by (auto simp: settle_sync_def)
  qed (use Some assms in \<open>auto simp: settle_sync_def flush_inv_def\<close>)
qed (simp add: settle_sync_def assms)

lemma flush_inv_reachable: "flush_reachable False s \<Longrightarrow> flush_inv s"
proof (induction rule: flush_reachable.induct)
  case start
  show ?case by (rule flush_inv_idleI) (simp_all add: idle_flush_def map_get_Nil)
next
  case (step s s')
  from step.hyps(2) step.IH show ?case
  proof cases
    case (queue_and_flush connected ms)
    then show ?thesis
      using flush_inv_flush [OF flush_inv_enqueue [OF step.IH, of ms], of connected]
      by (simp add: enqueueAndFlush_def)
  qed (use step.IH in \<open>simp_all add: flush_inv_flush flush_inv_other flush_inv_settle flush_inv_turn\<close>)
qed

subsection \<open>Properties\<close>

text \<open>
  C12: no local mutation is lost, as long as a flush never meets a synchronisation that someone else has
  started: at every moment, the last mutation queued for a collection and an index is in the queue, in
  the batch of the running flush, or was carried by a synchronisation that reported success for its
  collection; and the queue never goes back to an older mutation, also when a failed batch is queued
  again.
\<close>

theorem mutations_never_lost:
  assumes "flush_reachable False s" "map_get (fs_latest s) k = Some m"
  shows "(map_get (fs_queue s) k = Some m \<or> m \<in> set (in_flight (fs_flush s)) \<or> m \<in> set (fs_uploaded s)) \<and>
    map_get (fs_queue s) k \<in> {None, Some m}"
  using flush_invD(5,8) [OF flush_inv_reachable [OF assms(1)], of k] assms(2)
  by (cases "map_get (fs_queue s) k") auto

definition sample_mutation :: "nat \<Rightarrow> nat mutation_input" where
  "sample_mutation v = \<lparr>mi_collection = AppRegular, mi_operation = MutationSet v, mi_index = js ''i'', mi_version = 1,
    mi_timestamp = 0\<rparr>"

lemmas flush_defs = enqueueAndFlush_def flushMutations_def flush_batch_def takePendingMutationsBatch_def
  shared_sync_def settle_sync_def flush_turn_def idle_flush_def enqueue_all_def enqueueMutation_def

theorem mutations_never_lost_witness:
  "\<exists>s :: nat flush_state. map_get (fs_latest s) (mutation_key (sample_mutation 2)) = Some (sample_mutation 2) \<and>
    fs_flush s = FlushIdle \<and> fs_uploaded s = [] \<and>
    map_get (fs_queue s) (mutation_key (sample_mutation 2)) = Some (sample_mutation 2)"
proof -
  let ?m = "sample_mutation"
  let ?s1 = "enqueueAndFlush True [?m 3] idle_flush"
  let ?s2 = "enqueueAndFlush True [?m 2] ?s1"
  let ?s3 = "settle_sync (Inl QueryFailed) ?s2"
  let ?s = "flush_turn True ?s3"
  define K where "K = mutation_key (?m 2)"
  have key: "mutation_key (?m v) = K" for v by (simp add: K_def mutation_key_def sample_mutation_def)
  have s1: "?s1 = \<lparr>fs_queue = [], fs_flush = FlushWaiting [?m 3], fs_sync = Some [?m 3],
      fs_latest = [(K, ?m 3)], fs_uploaded = []\<rparr>"
    by (simp add: flush_defs map_get_Nil map_set_new Let_def key)
  have s2: "?s2 = \<lparr>fs_queue = [(K, ?m 2)], fs_flush = FlushWaiting [?m 3], fs_sync = Some [?m 3],
      fs_latest = [(K, ?m 2)], fs_uploaded = []\<rparr>"
    unfolding s1 by (simp add: flush_defs map_get_Nil map_set_new Let_def key map_get_def map_delete_def)
  have s3: "?s3 = \<lparr>fs_queue = [(K, ?m 2)], fs_flush = FlushResumed [?m 3] (Inl QueryFailed), fs_sync = None,
      fs_latest = [(K, ?m 2)], fs_uploaded = []\<rparr>"
    unfolding s2 by (simp add: settle_sync_def)
  have s: "fs_flush ?s = FlushIdle" "fs_uploaded ?s = []" "fs_latest ?s = [(K, ?m 2)]"
    unfolding s3 by (simp_all add: flush_turn_def failed_mutations_def)
  have "flush_reachable False ?s1"
    by (rule flush_reachable.step [OF flush_reachable.start flush_step.queue_and_flush]) (simp add: idle_flush_def)
  then have "flush_reachable False ?s2"
    by (rule flush_reachable.step [OF _ flush_step.queue_and_flush]) (simp add: s1)
  then have "flush_reachable False ?s3" by (rule flush_reachable.step [OF _ flush_step.sync_settles])
  then have "flush_reachable False ?s"
    by (rule flush_reachable.step [OF _ flush_step.flush_resumes]) (simp add: s3)
  moreover have "map_get (fs_latest ?s) K = Some (?m 2)" by (simp add: s map_get_def)
  ultimately show ?thesis using mutations_never_lost [of ?s K "?m 2"] s
    by (intro exI [of _ ?s]) (simp add: key)
qed

text \<open>
  A flush that meets a synchronisation of someone else joins it and takes its success for its own:
  the mutation is then neither in the queue nor in flight nor has any synchronisation carried it.
\<close>

theorem joined_flush_drops_mutation:
  "\<exists>s. flush_reachable True s \<and> map_get (fs_latest s) (mutation_key m) = Some m \<and>
    fs_queue s = [] \<and> fs_flush s = FlushIdle \<and> fs_sync s = None \<and> fs_uploaded s = []"
proof -
  let ?s1 = "shared_sync [] idle_flush"
  let ?s2 = "enqueueAndFlush True [m] ?s1"
  let ?answer = "Inr [(mi_collection m, StateSuccess)] :: sync_answer"
  let ?s3 = "settle_sync ?answer ?s2"
  let ?s = "flush_turn True ?s3"
  have "flush_reachable True ?s1" by (rule flush_reachable.step [OF flush_reachable.start flush_step.other_sync])
  then have "flush_reachable True ?s2"
    by (rule flush_reachable.step [OF _ flush_step.queue_and_flush]) simp
  then have "flush_reachable True ?s3" by (rule flush_reachable.step [OF _ flush_step.sync_settles])
  then have "flush_reachable True ?s"
    by (rule flush_reachable.step [OF _ flush_step.flush_resumes]) simp
  moreover have s2: "?s2 = \<lparr>fs_queue = [], fs_flush = FlushWaiting [m], fs_sync = Some [],
      fs_latest = [(mutation_key m, m)], fs_uploaded = []\<rparr>"
    by (simp add: flush_defs map_get_Nil map_set_new Let_def)
  have ok: "failed_mutations [m] ?answer = []"
    by (simp add: failed_mutations_def reported_success_def FLUSH_SUCCESS_STATES_def unique_collections_def set_add_def
        map_get_Nil)
  have s3: "?s3 = \<lparr>fs_queue = [], fs_flush = FlushResumed [m] ?answer, fs_sync = None,
      fs_latest = [(mutation_key m, m)], fs_uploaded = []\<rparr>"
    unfolding s2 by (simp add: settle_sync_def)
  have "?s = \<lparr>fs_queue = [], fs_flush = FlushIdle, fs_sync = None,
      fs_latest = [(mutation_key m, m)], fs_uploaded = []\<rparr>"
    unfolding s3 by (simp add: flush_turn_def ok flush_batch_def takePendingMutationsBatch_def)
  ultimately show ?thesis by (intro exI [of _ ?s]) (simp add: map_get_def)
qed

lemma last_per_filter: "last_per f (filter (\<lambda>x. f x \<noteq> k) xs) = filter (\<lambda>x. f x \<noteq> k) (last_per f xs)"
  by (induction xs) (auto simp: image_iff)

lemma enumerate_snoc: "enumerate 0 (xs @ [y]) = enumerate 0 xs @ [(length xs, y)]"
  by (simp add: enumerate_append_eq)

text \<open>
  C15: of the mutations of a collection, the sinks and the events get the last one of every index, in
  the order in which they were applied; for the events those of snapshots do not count unless they are
  asked for.
\<close>

theorem emitted_mutations_last:
  "emitEventsFromSyncResult hasSinks emitSnapshots (Some ms) =
    (if hasSinks then last_per app_mutation_key ms else [],
     last_per app_mutation_key (if emitSnapshots then ms else filter (\<lambda>m. am_source m = FromPatch) ms))"
proof -
  have "winning_mutations skipped ms = last_per app_mutation_key (filter (\<lambda>m. \<not> skipped m) ms)" for skipped
  proof (induction ms rule: rev_induct)
    case (snoc y xs)
    have pos: "last_positions skipped (xs @ [y]) = (if skipped y then last_positions skipped xs
        else map_set (app_mutation_key y) (length xs) (last_positions skipped xs))"
      by (simp add: last_positions_def enumerate_snoc)
    show ?case
    proof (cases "skipped y")
      case True
      with snoc show ?thesis by (simp add: winning_mutations_def pos enumerate_snoc)
    next
      case False
      have "filter (\<lambda>(i, m). \<not> skipped m \<and> map_get (last_positions skipped (xs @ [y])) (app_mutation_key m) = Some i)
          (enumerate 0 xs) =
        filter (\<lambda>(i, m). app_mutation_key m \<noteq> app_mutation_key y) (filter (\<lambda>(i, m). \<not> skipped m \<and>
          map_get (last_positions skipped xs) (app_mutation_key m) = Some i) (enumerate 0 xs))"
        unfolding filter_filter using False by (intro filter_cong) (auto simp: pos in_set_enumerate_eq)
      then have "winning_mutations skipped (xs @ [y]) =
          filter (\<lambda>m. app_mutation_key m \<noteq> app_mutation_key y) (winning_mutations skipped xs) @ [y]"
        using False by (simp add: winning_mutations_def pos enumerate_snoc filter_map o_def case_prod_unfold)
      moreover have "last_per app_mutation_key (filter (\<lambda>m. \<not> skipped m) (xs @ [y])) =
          filter (\<lambda>m. app_mutation_key m \<noteq> app_mutation_key y) (last_per app_mutation_key (filter (\<lambda>m. \<not> skipped m) xs)) @ [y]"
        using False by (simp add: last_per_snoc last_per_filter del: filter_filter)
      ultimately show ?thesis by (simp only: snoc)
    qed
  qed (simp add: winning_mutations_def last_positions_def)
  moreover have "(am_source m \<noteq> FromSnapshot) = (am_source m = FromPatch)" for m :: "'a app_mutation"
    by (cases "am_source m") simp_all
  ultimately show ?thesis by (simp add: emitEventsFromSyncResult_def nullish_def Let_def)
qed

end
