(* ===== verification/JsNumber.thy ===== *)
theory JsNumber
  imports Prelude "HOL-Library.Log_Nat"
begin

text \<open>
  JavaScript numbers that hold integers.

  A number is an IEEE double.  \<open>jsnum\<close> is an integer held in a double; \<open>+\<close>, \<open>-\<close>, \<open>*\<close> round the
  exact result to 53 significant bits, ties to even (\<open>round53\<close>), and the bit operators go through
  \<open>ToInt32\<close>.  Dividing by 65536 is exact, so \<open>Math.floor(v / 65536)\<close> is the floor of the quotient.
  \<open>-0\<close> is identified with \<open>0\<close>, which no operation below tells apart, and infinities are left out:
  the proofs keep every value below \<open>2\<^sup>5\<^sup>3\<close>.

  \<open>exactly a x A\<close> says that \<open>a\<close> holds the mathematical value \<open>x\<close> with \<open>\<bar>x\<bar> \<le> A\<close>; the collection
  \<open>exactness\<close> propagates it through expressions whose bounds stay below \<open>2\<^sup>5\<^sup>3\<close>.
\<close>

named_theorems exactness "propagation of exact values with bounds through expressions"

datatype jsnum = Num (num_of: int)

definition round53 :: "int \<Rightarrow> int" where
  "round53 n =
    (let k = floorlog 2 (nat \<bar>n\<bar>) - 53;
         q = \<bar>n\<bar> div 2 ^ k;
         r = \<bar>n\<bar> mod 2 ^ k
     in sgn n * (if 2 * r > 2 ^ k \<or> 2 * r = 2 ^ k \<and> odd q then q + 1 else q) * 2 ^ k)"

instantiation jsnum :: "{plus, minus, times, uminus}"
begin

definition plus_jsnum :: "jsnum \<Rightarrow> jsnum \<Rightarrow> jsnum" where
  "plus_jsnum a b = Num (round53 (num_of a + num_of b))"

definition minus_jsnum :: "jsnum \<Rightarrow> jsnum \<Rightarrow> jsnum" where
  "minus_jsnum a b = Num (round53 (num_of a - num_of b))"

definition times_jsnum :: "jsnum \<Rightarrow> jsnum \<Rightarrow> jsnum" where
  "times_jsnum a b = Num (round53 (num_of a * num_of b))"

definition uminus_jsnum :: "jsnum \<Rightarrow> jsnum" where
  "uminus_jsnum a = Num (- num_of a)"

instance by standard

end

text \<open>\<open>Math.floor(v / 65536)\<close>.\<close>

definition floor_shift16 :: "jsnum \<Rightarrow> jsnum" where
  "floor_shift16 v = Num (num_of v div 65536)"

text \<open>\<open>ToInt32\<close> and the bit operators.\<close>

definition to_int32 :: "jsnum \<Rightarrow> 32 word" where
  "to_int32 a = word_of_int (num_of a)"

definition of_int32 :: "32 word \<Rightarrow> jsnum" where
  "of_int32 w = Num (sint w)"

definition bit_and :: "jsnum \<Rightarrow> jsnum \<Rightarrow> jsnum" where
  "bit_and a b = of_int32 (to_int32 a AND to_int32 b)"

definition bit_or :: "jsnum \<Rightarrow> jsnum \<Rightarrow> jsnum" where
  "bit_or a b = of_int32 (to_int32 a OR to_int32 b)"

definition bit_xor :: "jsnum \<Rightarrow> jsnum \<Rightarrow> jsnum" where
  "bit_xor a b = of_int32 (to_int32 a XOR to_int32 b)"

definition bit_not :: "jsnum \<Rightarrow> jsnum" where
  "bit_not a = of_int32 (NOT (to_int32 a))"

text \<open>\<open>a >> n\<close> and \<open>a << n\<close>.\<close>

definition bit_sar :: "jsnum \<Rightarrow> nat \<Rightarrow> jsnum" where
  "bit_sar a n = of_int32 (signed_drop_bit n (to_int32 a))"

definition bit_shl :: "jsnum \<Rightarrow> nat \<Rightarrow> jsnum" where
  "bit_shl a n = of_int32 (push_bit n (to_int32 a))"

text \<open>Storing into a \<open>Uint8Array\<close> cell and reading from it.\<close>

definition store_u8 :: "jsnum \<Rightarrow> byte" where
  "store_u8 a = word_of_int (num_of a)"

definition load_u8 :: "byte \<Rightarrow> jsnum" where
  "load_u8 b = Num (uint b)"

subsection \<open>Exact arithmetic\<close>

lemma round53_exact:
  assumes "\<bar>n\<bar> < 2 ^ 53"
  shows "round53 n = n"
proof -
  have "nat \<bar>n\<bar> < 2 ^ 53" using assms by (simp add: nat_less_iff)
  then have "floorlog 2 (nat \<bar>n\<bar>) \<le> 53" by (simp add: floorlog_leD floorlog_le_iff)
  then have "floorlog 2 (nat \<bar>n\<bar>) - 53 = 0" by simp
  then show ?thesis by (simp add: round53_def Let_def sgn_mult_abs)
qed

definition exactly :: "jsnum \<Rightarrow> int \<Rightarrow> int \<Rightarrow> bool" where
  "exactly a x A \<longleftrightarrow> a = Num x \<and> \<bar>x\<bar> \<le> A"

lemma exactly_Num [exactness]: "\<bar>x\<bar> \<le> A \<Longrightarrow> exactly (Num x) x A"
  by (simp add: exactly_def)

lemma exactly_num_of: "exactly a x A \<Longrightarrow> num_of a = x"
  by (simp add: exactly_def)

lemma exactly_bound: "exactly a x A \<Longrightarrow> \<bar>x\<bar> \<le> A"
  by (simp add: exactly_def)

lemma exactly_mono: "exactly a x A \<Longrightarrow> A \<le> B \<Longrightarrow> exactly a x B"
  by (simp add: exactly_def)

lemma exactly_add [exactness]:
  assumes "exactly a x A" "exactly b y B" "A + B < 2 ^ 53"
  shows "exactly (a + b) (x + y) (A + B)"
proof -
  have "\<bar>x + y\<bar> \<le> A + B" using assms(1,2) by (auto simp: exactly_def)
  then show ?thesis
    using assms by (simp add: exactly_def plus_jsnum_def round53_exact)
qed

lemma exactly_diff [exactness]:
  assumes "exactly a x A" "exactly b y B" "A + B < 2 ^ 53"
  shows "exactly (a - b) (x - y) (A + B)"
proof -
  have "\<bar>x - y\<bar> \<le> A + B" using assms(1,2) by (auto simp: exactly_def)
  then show ?thesis
    using assms by (simp add: exactly_def minus_jsnum_def round53_exact)
qed

lemma exactly_mult [exactness]:
  assumes "exactly a x A" "exactly b y B" "A * B < 2 ^ 53"
  shows "exactly (a * b) (x * y) (A * B)"
proof -
  have "\<bar>x * y\<bar> \<le> A * B"
    using assms(1,2) by (auto simp: exactly_def abs_mult intro!: mult_mono)
  then show ?thesis
    using assms by (simp add: exactly_def times_jsnum_def round53_exact)
qed

lemma exactly_minus [exactness]: "exactly a x A \<Longrightarrow> exactly (- a) (- x) A"
  by (simp add: exactly_def uminus_jsnum_def)

end
