(* ===== verification/FieldElement.thy ===== *)
theory FieldElement
  imports JsNumber
begin

text \<open>
  Field elements modulo \<open>2\<^sup>2\<^sup>5\<^sup>5 - 19\<close>, from \<open>src/crypto/math/fe.ts\<close>.

  An element is a \<open>Float64Array\<close> of 16 limbs of 16 bits, here a list of \<open>jsnum\<close>; limbs may be
  negative or exceed 16 bits between two carries.  The functions of the source write into an output
  array; they read all of their inputs first (or go limb by limb), so the model returns the output.
  The carry rounds that the source unrolls in \<open>feMul\<close> and \<open>feSqr\<close> are the recursion \<open>carry_from\<close>.
\<close>

type_synonym fe = "jsnum list"

definition fe :: fe where
  "fe = replicate 16 (Num 0)"

fun limbs_of :: "nat \<Rightarrow> int \<Rightarrow> fe" where
  "limbs_of 0 n = []"
| "limbs_of (Suc k) n = Num (n AND 65535) # limbs_of k (drop_bit 16 n)"

definition feFromBigInt :: "int \<Rightarrow> fe" where
  "feFromBigInt n = limbs_of 16 n"

definition feFromBytes :: "bytes \<Rightarrow> fe" where
  "feFromBytes s =
    (let o1 = map (\<lambda>i. bit_or (load_u8 (s ! (2 * i))) (bit_shl (load_u8 (s ! (2 * i + 1))) 8)) [0..<16]
     in o1[15 := bit_and (o1 ! 15) (Num 32767)])"

fun carry_loop :: "jsnum \<Rightarrow> fe \<Rightarrow> fe \<times> jsnum" where
  "carry_loop c [] = ([], c)"
| "carry_loop c (x # xs) =
    (let v = x + c + Num 65535;
         c' = floor_shift16 v;
         (ys, d) = carry_loop c' xs
     in ((v - c' * Num 65536) # ys, d))"

definition feCarry :: "fe \<Rightarrow> fe" where
  "feCarry o1 =
    (case carry_loop (Num 1) o1 of
      (t, c) \<Rightarrow> t[0 := t ! 0 + (c - Num 1 + Num 37 * (c - Num 1))])"

text \<open>\<open>feSel\<close> swaps \<open>p\<close> and \<open>q\<close> when \<open>b\<close> is 1, without a branch.\<close>

definition feSel :: "fe \<Rightarrow> fe \<Rightarrow> jsnum \<Rightarrow> fe \<times> fe" where
  "feSel p q b =
    (let c = bit_not (b - Num 1);
         ts = map2 (\<lambda>x y. bit_and c (bit_xor x y)) p q
     in (map2 bit_xor p ts, map2 bit_xor q ts))"

text \<open>
  The loop of \<open>fePack\<close> that subtracts \<open>2\<^sup>2\<^sup>5\<^sup>5 - 19\<close> limb by limb; \<open>prev\<close> is \<open>m[i - 1]\<close>, whose bit 16 is
  the borrow.
\<close>

fun pack_sub :: "jsnum \<Rightarrow> fe \<Rightarrow> fe" where
  "pack_sub prev [] = [prev]"
| "pack_sub prev [t] =
    (let m = t - Num 32767 - bit_and (bit_sar prev 16) (Num 1)
     in [bit_and prev (Num 65535), m])"
| "pack_sub prev (t # ts) =
    (let m = t - Num 65535 - bit_and (bit_sar prev 16) (Num 1)
     in bit_and prev (Num 65535) # pack_sub m ts)"

definition pack_round :: "fe \<Rightarrow> fe" where
  "pack_round t =
    (let m = pack_sub (t ! 0 - Num 65517) (tl t);
         b = bit_and (bit_sar (m ! 15) 16) (Num 1)
     in fst (feSel t m (Num 1 - b)))"

definition fePack :: "fe \<Rightarrow> bytes" where
  "fePack n =
    (let t = feCarry (feCarry (feCarry n));
         t2 = pack_round (pack_round t)
     in concat (map (\<lambda>x. [store_u8 (bit_and x (Num 255)), store_u8 (bit_sar x 8)]) t2))"

definition feToBigInt :: "fe \<Rightarrow> int" where
  "feToBigInt a = foldr (\<lambda>b r. push_bit 8 r OR uint b) (fePack a) 0"

definition feAdd :: "fe \<Rightarrow> fe \<Rightarrow> fe" where
  "feAdd a b = map2 (+) a b"

definition feSub :: "fe \<Rightarrow> fe \<Rightarrow> fe" where
  "feSub a b = map2 (-) a b"

definition feNeg :: "fe \<Rightarrow> fe" where
  "feNeg a = map uminus a"

text \<open>One carry round of \<open>feMul\<close> and \<open>feSqr\<close>.\<close>

fun carry_from :: "jsnum \<Rightarrow> fe \<Rightarrow> fe \<times> jsnum" where
  "carry_from t [] = (let c = floor_shift16 t in ([t - c * Num 65536], c))"
| "carry_from t (u # us) =
    (let c = floor_shift16 t;
         (ys, d) = carry_from (u + c) us
     in ((t - c * Num 65536) # ys, d))"

definition carry38 :: "fe \<Rightarrow> fe" where
  "carry38 ts =
    (case carry_from (hd ts) (tl ts) of (ys, c) \<Rightarrow> ys[0 := ys ! 0 + Num 38 * c])"

definition feMul :: "fe \<Rightarrow> fe \<Rightarrow> fe" where
  "feMul a b =
    (let
      a0 = a ! 0; a1 = a ! 1; a2 = a ! 2; a3 = a ! 3; a4 = a ! 4; a5 = a ! 5; a6 = a ! 6;
      a7 = a ! 7; a8 = a ! 8; a9 = a ! 9; a10 = a ! 10; a11 = a ! 11; a12 = a ! 12; a13 = a ! 13;
      a14 = a ! 14; a15 = a ! 15; b0 = b ! 0; b1 = b ! 1; b2 = b ! 2; b3 = b ! 3; b4 = b ! 4;
      b5 = b ! 5; b6 = b ! 6; b7 = b ! 7; b8 = b ! 8; b9 = b ! 9; b10 = b ! 10; b11 = b ! 11;
      b12 = b ! 12; b13 = b ! 13; b14 = b ! 14; b15 = b ! 15; v1 = Num 38 * b1; v2 = Num 38 * b2;
      v3 = Num 38 * b3; v4 = Num 38 * b4; v5 = Num 38 * b5; v6 = Num 38 * b6; v7 = Num 38 * b7;
      v8 = Num 38 * b8; v9 = Num 38 * b9; v10 = Num 38 * b10; v11 = Num 38 * b11;
      v12 = Num 38 * b12; v13 = Num 38 * b13; v14 = Num 38 * b14; v15 = Num 38 * b15;
      t0 = a0 * b0 + a1 * v15 + a2 * v14 + a3 * v13 + a4 * v12 + a5 * v11 + a6 * v10 + a7 * v9 +
        a8 * v8 + a9 * v7 + a10 * v6 + a11 * v5 + a12 * v4 + a13 * v3 + a14 * v2 + a15 * v1;
      t1 = a0 * b1 + a1 * b0 + a2 * v15 + a3 * v14 + a4 * v13 + a5 * v12 + a6 * v11 + a7 * v10 +
        a8 * v9 + a9 * v8 + a10 * v7 + a11 * v6 + a12 * v5 + a13 * v4 + a14 * v3 + a15 * v2;
      t2 = a0 * b2 + a1 * b1 + a2 * b0 + a3 * v15 + a4 * v14 + a5 * v13 + a6 * v12 + a7 * v11 +
        a8 * v10 + a9 * v9 + a10 * v8 + a11 * v7 + a12 * v6 + a13 * v5 + a14 * v4 + a15 * v3;
      t3 = a0 * b3 + a1 * b2 + a2 * b1 + a3 * b0 + a4 * v15 + a5 * v14 + a6 * v13 + a7 * v12 +
        a8 * v11 + a9 * v10 + a10 * v9 + a11 * v8 + a12 * v7 + a13 * v6 + a14 * v5 + a15 * v4;
      t4 = a0 * b4 + a1 * b3 + a2 * b2 + a3 * b1 + a4 * b0 + a5 * v15 + a6 * v14 + a7 * v13 +
        a8 * v12 + a9 * v11 + a10 * v10 + a11 * v9 + a12 * v8 + a13 * v7 + a14 * v6 + a15 * v5;
      t5 = a0 * b5 + a1 * b4 + a2 * b3 + a3 * b2 + a4 * b1 + a5 * b0 + a6 * v15 + a7 * v14 +
        a8 * v13 + a9 * v12 + a10 * v11 + a11 * v10 + a12 * v9 + a13 * v8 + a14 * v7 + a15 * v6;
      t6 = a0 * b6 + a1 * b5 + a2 * b4 + a3 * b3 + a4 * b2 + a5 * b1 + a6 * b0 + a7 * v15 +
        a8 * v14 + a9 * v13 + a10 * v12 + a11 * v11 + a12 * v10 + a13 * v9 + a14 * v8 + a15 * v7;
      t7 = a0 * b7 + a1 * b6 + a2 * b5 + a3 * b4 + a4 * b3 + a5 * b2 + a6 * b1 + a7 * b0 +
        a8 * v15 + a9 * v14 + a10 * v13 + a11 * v12 + a12 * v11 + a13 * v10 + a14 * v9 + a15 * v8;
      t8 = a0 * b8 + a1 * b7 + a2 * b6 + a3 * b5 + a4 * b4 + a5 * b3 + a6 * b2 + a7 * b1 + a8 * b0
        + a9 * v15 + a10 * v14 + a11 * v13 + a12 * v12 + a13 * v11 + a14 * v10 + a15 * v9;
      t9 = a0 * b9 + a1 * b8 + a2 * b7 + a3 * b6 + a4 * b5 + a5 * b4 + a6 * b3 + a7 * b2 + a8 * b1
        + a9 * b0 + a10 * v15 + a11 * v14 + a12 * v13 + a13 * v12 + a14 * v11 + a15 * v10;
      t10 = a0 * b10 + a1 * b9 + a2 * b8 + a3 * b7 + a4 * b6 + a5 * b5 + a6 * b4 + a7 * b3 +
        a8 * b2 + a9 * b1 + a10 * b0 + a11 * v15 + a12 * v14 + a13 * v13 + a14 * v12 + a15 * v11;
      t11 = a0 * b11 + a1 * b10 + a2 * b9 + a3 * b8 + a4 * b7 + a5 * b6 + a6 * b5 + a7 * b4 +
        a8 * b3 + a9 * b2 + a10 * b1 + a11 * b0 + a12 * v15 + a13 * v14 + a14 * v13 + a15 * v12;
      t12 = a0 * b12 + a1 * b11 + a2 * b10 + a3 * b9 + a4 * b8 + a5 * b7 + a6 * b6 + a7 * b5 +
        a8 * b4 + a9 * b3 + a10 * b2 + a11 * b1 + a12 * b0 + a13 * v15 + a14 * v14 + a15 * v13;
      t13 = a0 * b13 + a1 * b12 + a2 * b11 + a3 * b10 + a4 * b9 + a5 * b8 + a6 * b7 + a7 * b6 +
        a8 * b5 + a9 * b4 + a10 * b3 + a11 * b2 + a12 * b1 + a13 * b0 + a14 * v15 + a15 * v14;
      t14 = a0 * b14 + a1 * b13 + a2 * b12 + a3 * b11 + a4 * b10 + a5 * b9 + a6 * b8 + a7 * b7 +
        a8 * b6 + a9 * b5 + a10 * b4 + a11 * b3 + a12 * b2 + a13 * b1 + a14 * b0 + a15 * v15;
      t15 = a0 * b15 + a1 * b14 + a2 * b13 + a3 * b12 + a4 * b11 + a5 * b10 + a6 * b9 + a7 * b8 +
        a8 * b7 + a9 * b6 + a10 * b5 + a11 * b4 + a12 * b3 + a13 * b2 + a14 * b1 + a15 * b0
    in carry38 (carry38
      [t0, t1, t2, t3, t4, t5, t6, t7, t8, t9, t10, t11, t12, t13, t14, t15]))"

definition feSqr :: "fe \<Rightarrow> fe" where
  "feSqr a =
    (let
      a0 = a ! 0; a1 = a ! 1; a2 = a ! 2; a3 = a ! 3; a4 = a ! 4; a5 = a ! 5; a6 = a ! 6;
      a7 = a ! 7; a8 = a ! 8; a9 = a ! 9; a10 = a ! 10; a11 = a ! 11; a12 = a ! 12; a13 = a ! 13;
      a14 = a ! 14; a15 = a ! 15; v8 = Num 38 * a8; v9 = Num 38 * a9; v10 = Num 38 * a10;
      v11 = Num 38 * a11; v12 = Num 38 * a12; v13 = Num 38 * a13; v14 = Num 38 * a14;
      v15 = Num 38 * a15;
      t0 = a0 * a0 + Num 2 * (a1 * v15 + a2 * v14 + a3 * v13 + a4 * v12 + a5 * v11 + a6 * v10 +
        a7 * v9) + a8 * v8;
      t1 = Num 2 * (a0 * a1 + a2 * v15 + a3 * v14 + a4 * v13 + a5 * v12 + a6 * v11 + a7 * v10 +
        a8 * v9);
      t2 = a1 * a1 + Num 2 * (a0 * a2 + a3 * v15 + a4 * v14 + a5 * v13 + a6 * v12 + a7 * v11 +
        a8 * v10) + a9 * v9;
      t3 = Num 2 * (a0 * a3 + a1 * a2 + a4 * v15 + a5 * v14 + a6 * v13 + a7 * v12 + a8 * v11 +
        a9 * v10);
      t4 = a2 * a2 + Num 2 * (a0 * a4 + a1 * a3 + a5 * v15 + a6 * v14 + a7 * v13 + a8 * v12 +
        a9 * v11) + a10 * v10;
      t5 = Num 2 * (a0 * a5 + a1 * a4 + a2 * a3 + a6 * v15 + a7 * v14 + a8 * v13 + a9 * v12 +
        a10 * v11);
      t6 = a3 * a3 + Num 2 * (a0 * a6 + a1 * a5 + a2 * a4 + a7 * v15 + a8 * v14 + a9 * v13 +
        a10 * v12) + a11 * v11;
      t7 = Num 2 * (a0 * a7 + a1 * a6 + a2 * a5 + a3 * a4 + a8 * v15 + a9 * v14 + a10 * v13 +
        a11 * v12);
      t8 = a4 * a4 + Num 2 * (a0 * a8 + a1 * a7 + a2 * a6 + a3 * a5 + a9 * v15 + a10 * v14 +
        a11 * v13) + a12 * v12;
      t9 = Num 2 * (a0 * a9 + a1 * a8 + a2 * a7 + a3 * a6 + a4 * a5 + a10 * v15 + a11 * v14 +
        a12 * v13);
      t10 = a5 * a5 + Num 2 * (a0 * a10 + a1 * a9 + a2 * a8 + a3 * a7 + a4 * a6 + a11 * v15 +
        a12 * v14) + a13 * v13;
      t11 = Num 2 * (a0 * a11 + a1 * a10 + a2 * a9 + a3 * a8 + a4 * a7 + a5 * a6 + a12 * v15 +
        a13 * v14);
      t12 = a6 * a6 + Num 2 * (a0 * a12 + a1 * a11 + a2 * a10 + a3 * a9 + a4 * a8 + a5 * a7 +
        a13 * v15) + a14 * v14;
      t13 = Num 2 * (a0 * a13 + a1 * a12 + a2 * a11 + a3 * a10 + a4 * a9 + a5 * a8 + a6 * a7 +
        a14 * v15);
      t14 = a7 * a7 + Num 2 * (a0 * a14 + a1 * a13 + a2 * a12 + a3 * a11 + a4 * a10 + a5 * a9 +
        a6 * a8) + a15 * v15;
      t15 = Num 2 * (a0 * a15 + a1 * a14 + a2 * a13 + a3 * a12 + a4 * a11 + a5 * a10 + a6 * a9 +
        a7 * a8)
    in carry38 (carry38
      [t0, t1, t2, t3, t4, t5, t6, t7, t8, t9, t10, t11, t12, t13, t14, t15]))"

fun feSqrN :: "fe \<Rightarrow> nat \<Rightarrow> fe" where
  "feSqrN a 0 = a"
| "feSqrN a (Suc n) = feSqrN (feSqr a) n"

text \<open>\<open>feInv\<close>: an assignment to \<open>t0\<close> to \<open>t3\<close> is a \<open>let\<close> that hides the earlier one.\<close>

definition feInv :: "fe \<Rightarrow> fe" where
  "feInv a =
    (let t0 = feSqr a;
         t1 = feSqrN t0 2;
         t1 = feMul a t1;
         t0 = feMul t0 t1;
         t2 = feSqr t0;
         t1 = feMul t1 t2;
         t2 = feSqrN t1 5;
         t1 = feMul t2 t1;
         t2 = feSqrN t1 10;
         t2 = feMul t2 t1;
         t3 = feSqrN t2 20;
         t2 = feMul t3 t2;
         t2 = feSqrN t2 10;
         t1 = feMul t2 t1;
         t2 = feSqrN t1 50;
         t2 = feMul t2 t1;
         t3 = feSqrN t2 100;
         t2 = feMul t3 t2;
         t2 = feSqrN t2 50;
         t1 = feMul t2 t1;
         t1 = feSqrN t1 5
     in feMul t1 t0)"

end
