(* ===== verification/FieldArith.thy ===== *)
theory FieldArith
  imports FieldElement
begin

text \<open>
  The functions of \<open>FieldElement\<close> compute in the integers modulo \<open>2\<^sup>2\<^sup>5\<^sup>5 - 19\<close>.

  \<open>fe_val\<close> is the integer that the limbs stand for and \<open>fe_bound B\<close> bounds their magnitude.  Under
  the stated bounds no intermediate result is rounded, so every operation is the exact one on
  \<open>fe_val\<close>, and a product is again bounded by \<open>65573\<close>: chains of operations stay exact.
\<close>

definition p25519 :: int where
  "p25519 = 2 ^ 255 - 19"

lemma p25519_pos [simp]: "0 < p25519"
  by (simp add: p25519_def)

lemma pow_256_mod_p: "2 ^ 256 = 38 + 2 * p25519"
  by (simp add: p25519_def)

fun limb_val :: "int list \<Rightarrow> int" where
  "limb_val [] = 0"
| "limb_val (x # xs) = x + 65536 * limb_val xs"

definition fe_val :: "fe \<Rightarrow> int" where
  "fe_val a = limb_val (map num_of a)"

definition fe_bound :: "int \<Rightarrow> fe \<Rightarrow> bool" where
  "fe_bound B a \<longleftrightarrow> length a = 16 \<and> list_all (\<lambda>x. \<bar>num_of x\<bar> \<le> B) a"

fun digits :: "nat \<Rightarrow> int \<Rightarrow> int list" where
  "digits 0 n = []"
| "digits (Suc k) n = n mod 65536 # digits k (n div 65536)"

lemma length_digits [simp]: "length (digits k n) = k"
  by (induction k arbitrary: n) simp_all

lemma digits_range: "x \<in> set (digits k n) \<Longrightarrow> 0 \<le> x \<and> x < 65536"
  by (induction k arbitrary: n) auto

lemma limb_val_Cons_divmod:
  "limb_val (t # us) mod 65536 = t mod 65536"
  "limb_val (t # us) div 65536 = t div 65536 + limb_val us"
  by simp_all

lemma digits_limb_Cons:
  "digits (Suc k) (limb_val (t # us)) = t mod 65536 # digits k (t div 65536 + limb_val us)"
  by (simp only: digits.simps limb_val_Cons_divmod)

lemma div_limb_Cons:
  "limb_val (t # us) div 65536 ^ Suc k = (t div 65536 + limb_val us) div 65536 ^ k"
  by (simp only: power_Suc zdiv_zmult2_eq zero_le_numeral zero_le_power limb_val_Cons_divmod)

lemma limb_val_digits: "limb_val (digits k n) = n mod 65536 ^ k"
proof (induction k arbitrary: n)
  case (Suc k)
  have "n mod (65536 * 65536 ^ k) = 65536 * (n div 65536 mod 65536 ^ k) + n mod 65536"
    by (rule zmod_zmult2_eq) simp
  then show ?case by (simp add: Suc.IH)
qed simp

lemma limb_val_sum: "limb_val xs = (\<Sum>i<length xs. xs ! i * 65536 ^ i)"
proof (induction xs)
  case (Cons x xs)
  have "(\<Sum>i<Suc (length xs). (x # xs) ! i * 65536 ^ i) =
      x + (\<Sum>i<length xs. xs ! i * (65536 * 65536 ^ i))"
    by (subst sum.lessThan_Suc_shift) simp
  then show ?case by (simp add: Cons sum_distrib_left mult_ac)
qed simp

lemma limb_val_bound:
  assumes "\<forall>x\<in>set xs. \<bar>x\<bar> \<le> B"
  shows "65535 * \<bar>limb_val xs\<bar> \<le> B * (65536 ^ length xs - 1)"
  using assms
proof (induction xs)
  case (Cons x xs)
  have "\<bar>limb_val (x # xs)\<bar> \<le> \<bar>x\<bar> + 65536 * \<bar>limb_val xs\<bar>" by simp
  moreover have "\<bar>x\<bar> \<le> B" "65535 * \<bar>limb_val xs\<bar> \<le> B * (65536 ^ length xs - 1)"
    using Cons by auto
  ultimately show ?case by (simp add: algebra_simps)
qed simp

lemma div_pow_bound:
  assumes "65535 * \<bar>V :: int\<bar> \<le> B * (65536 ^ n - 1)" "0 \<le> B"
  shows "\<bar>V div 65536 ^ n\<bar> \<le> B div 65535 + 1"
proof -
  let ?M = "65536 ^ n :: int" and ?q = "B div 65535 + 1"
  have "B * ?M < 65535 * ?q * ?M" by (intro mult_strict_right_mono) auto
  moreover have "65535 * \<bar>V\<bar> \<le> B * ?M" using assms by (simp add: algebra_simps)
  ultimately have *: "\<bar>V\<bar> < ?q * ?M" by linarith
  then have "V \<le> ?q * ?M" "- ?q * ?M \<le> V" by linarith+
  then have "V div ?M \<le> (?q * ?M) div ?M" "(- ?q * ?M) div ?M \<le> V div ?M"
    by (intro zdiv_mono1; simp)+
  moreover have "(?q * ?M) div ?M = ?q" "(- ?q * ?M) div ?M = - ?q"
    by (rule nonzero_mult_div_cancel_right; simp)+
  ultimately show ?thesis by linarith
qed

subsection \<open>Carries\<close>

lemma floor_exact: "floor_shift16 (Num x) = Num (x div 65536)"
  by (simp add: floor_shift16_def)

lemma num_plus: "\<bar>x + y\<bar> < 9007199254740992 \<Longrightarrow> Num x + Num y = Num (x + y)"
  by (simp add: plus_jsnum_def round53_exact)

lemma num_minus: "\<bar>x - y\<bar> < 9007199254740992 \<Longrightarrow> Num x - Num y = Num (x - y)"
  by (simp add: minus_jsnum_def round53_exact)

lemma num_times: "\<bar>x * y\<bar> < 9007199254740992 \<Longrightarrow> Num x * Num y = Num (x * y)"
  by (simp add: times_jsnum_def round53_exact)

lemma low_limb:
  assumes "\<bar>x\<bar> \<le> 4503599627370496"
  shows "Num x - Num (x div 65536) * Num 65536 = Num (x mod 65536)"
proof -
  have *: "x - x div 65536 * 65536 = x mod 65536" by (simp add: minus_div_mult_eq_mod)
  have r: "0 \<le> x mod 65536" "x mod 65536 < 65536" by simp_all
  have "\<bar>x div 65536 * 65536\<bar> < 9007199254740992" using assms * r by linarith
  moreover have "\<bar>x - x div 65536 * 65536\<bar> < 9007199254740992" using * r by linarith
  ultimately show ?thesis by (simp only: num_times num_minus *)
qed

lemma carry_from_exact:
  assumes "\<bar>t\<bar> \<le> 2 * B" "\<forall>u\<in>set us. \<bar>u\<bar> \<le> B" "65536 \<le> B" "B \<le> 140737488355328"
  shows "carry_from (Num t) (map Num us) =
    (map Num (digits (Suc (length us)) (limb_val (t # us))),
     Num (limb_val (t # us) div 65536 ^ Suc (length us)))"
  using assms
proof (induction us arbitrary: t)
  case Nil
  then show ?case by (simp add: low_limb floor_exact Let_def)
next
  case (Cons u us)
  let ?c = "t div 65536"
  have c: "\<bar>?c\<bar> \<le> B" using Cons.prems by linarith
  have u: "\<bar>u\<bar> \<le> B" using Cons.prems by simp
  have uc: "\<bar>u + ?c\<bar> \<le> 2 * B" using c u by linarith
  have add: "Num u + Num ?c = Num (u + ?c)"
    using uc Cons.prems(4) by (intro num_plus) linarith
  have low: "Num t - Num ?c * Num 65536 = Num (t mod 65536)"
    using Cons.prems by (intro low_limb) linarith
  have IH: "carry_from (Num (u + ?c)) (map Num us) =
    (map Num (digits (Suc (length us)) (limb_val ((u + ?c) # us))),
     Num (limb_val ((u + ?c) # us) div 65536 ^ Suc (length us)))"
    using Cons.prems uc by (intro Cons.IH) auto
  have sum: "limb_val ((u + ?c) # us) = ?c + limb_val (u # us)" by simp
  have split: "digits (Suc (length (u # us))) (limb_val (t # u # us)) =
      (t mod 65536) # digits (Suc (length us)) (limb_val ((u + ?c) # us))"
    unfolding sum by (simp only: digits_limb_Cons list.size add_Suc_right add_0_right)
  have "limb_val (t # u # us) div 65536 ^ Suc (length (u # us)) =
      limb_val ((u + ?c) # us) div 65536 ^ Suc (length us)"
    unfolding sum by (simp only: div_limb_Cons list.size add_Suc_right add_0_right)
  with IH show ?case
    by (simp only: carry_from.simps list.map Let_def floor_exact add split prod.case low)
qed


lemma carry_loop_exact:
  assumes "\<bar>d\<bar> \<le> B" "\<forall>u\<in>set us. \<bar>u\<bar> \<le> B" "65536 \<le> B" "B \<le> 140737488355328"
  shows "carry_loop (Num (d + 1)) (map Num us) =
    (map Num (digits (length us) (limb_val us + d)),
     Num ((limb_val us + d) div 65536 ^ length us + 1))"
  using assms
proof (induction us arbitrary: d)
  case (Cons u us)
  let ?e = "(u + d) div 65536"
  have u: "\<bar>u\<bar> \<le> B" using Cons.prems by simp
  have e: "\<bar>?e\<bar> \<le> B" using Cons.prems u by linarith
  have v: "Num u + Num (d + 1) + Num 65535 = Num (u + d + 65536)"
    using Cons.prems u by (subst num_plus; (subst num_plus)?; simp; linarith)
  have f: "floor_shift16 (Num (u + d + 65536)) = Num (?e + 1)"
    by (simp add: floor_exact)
  have low: "Num (u + d + 65536) - Num (?e + 1) * Num 65536 = Num ((u + d) mod 65536)"
    using low_limb [of "u + d + 65536"] Cons.prems u by simp
  have IH: "carry_loop (Num (?e + 1)) (map Num us) =
    (map Num (digits (length us) (limb_val us + ?e)),
     Num ((limb_val us + ?e) div 65536 ^ length us + 1))"
    using Cons.prems e by (intro Cons.IH) auto
  have V: "limb_val (u # us) + d = limb_val ((u + d) # us)" by simp
  have "(limb_val (u # us) + d) div 65536 ^ length (u # us) =
      (limb_val us + ?e) div 65536 ^ length us"
    unfolding V by (simp only: list.size add_Suc_right add_0_right div_limb_Cons)
      (simp add: add.commute)
  moreover have "digits (length (u # us)) (limb_val (u # us) + d) =
      ((u + d) mod 65536) # digits (length us) (limb_val us + ?e)"
    unfolding V by (simp only: list.size add_Suc_right add_0_right digits_limb_Cons) (simp add: add.commute)
  ultimately show ?case
    using IH by (simp only: carry_loop.simps list.map Let_def v f low prod.case)
qed simp

text \<open>The result of one carry round: the low 256 bits as digits, and 38 times the rest added.\<close>

definition folded :: "int \<Rightarrow> fe" where
  "folded V = (map Num (digits 16 V))[0 := Num (V mod 65536 + 38 * (V div 65536 ^ 16))]"

definition fold_val :: "int \<Rightarrow> int" where
  "fold_val V = V mod 65536 ^ 16 + 38 * (V div 65536 ^ 16)"

lemma fe_val_map_Num [simp]: "fe_val (map Num xs) = limb_val xs"
  by (simp add: fe_val_def comp_def)

lemma digits_16: "digits 16 V = V mod 65536 # digits 15 (V div 65536)"
  using digits.simps(2) [of 15 V] by (simp del: digits.simps)

lemma fe_val_folded: "fe_val (folded V) = fold_val V"
proof -
  have "limb_val (digits 16 V) = V mod 65536 ^ 16" by (rule limb_val_digits)
  then show ?thesis
    by (simp add: folded_def fold_val_def digits_16 fe_val_def comp_def)
qed

lemma length_folded [simp]: "length (folded V) = 16"
  by (simp add: folded_def)

lemma fe_val_bound:
  assumes "fe_bound B a" "0 \<le> B"
  shows "65535 * \<bar>fe_val a\<bar> \<le> B * (65536 ^ 16 - 1)"
proof -
  have "\<forall>x\<in>set (map num_of a). \<bar>x\<bar> \<le> B" "length (map num_of a) = 16"
    using assms by (auto simp: fe_bound_def list_all_iff)
  then show ?thesis
    unfolding fe_val_def using limb_val_bound [of "map num_of a" B] by simp
qed

lemma fe_bound_mono: "fe_bound A a \<Longrightarrow> A \<le> B \<Longrightarrow> fe_bound B a"
  by (fastforce simp: fe_bound_def list_all_iff)

lemma fe_bound_exact: "fe_bound B a \<Longrightarrow> a = map Num (map num_of a)"
  by (simp add: comp_def map_idI)

lemma carry38_folded:
  assumes "fe_bound B ts" "65536 \<le> B" "B \<le> 140737488355328"
  shows "carry38 ts = folded (fe_val ts)"
proof -
  obtain t us where ts: "map num_of ts = t # us" "length us = 15"
    using assms(1) by (cases "map num_of ts") (auto simp: fe_bound_def)
  have eq: "ts = Num t # map Num us" using fe_bound_exact [OF assms(1)] ts(1) by simp
  have b: "\<forall>x\<in>set (t # us). \<bar>x\<bar> \<le> B"
    using assms(1) unfolding eq by (simp add: fe_bound_def list_all_iff)
  have val: "fe_val ts = limb_val (t # us)" by (simp add: fe_val_def ts)
  let ?V = "limb_val (t # us)" and ?c = "limb_val (t # us) div 65536 ^ 16"
  have "\<bar>?c\<bar> \<le> B div 65535 + 1"
    using div_pow_bound fe_val_bound [OF assms(1)] assms(2) val by simp
  then have c: "\<bar>?c\<bar> \<le> B" using assms(2) by linarith
  have "carry_from (Num t) (map Num us) = (map Num (digits 16 ?V), Num ?c)"
    using carry_from_exact [of t B us] b assms ts(2) by simp
  moreover have "Num (?V mod 65536) + Num 38 * Num ?c = Num (?V mod 65536 + 38 * ?c)"
    using c assms(3) by (subst num_times; (subst num_plus)?; simp; linarith)
  ultimately show ?thesis
    unfolding carry38_def val by (simp add: eq folded_def digits_16)
qed

lemma feCarry_folded:
  assumes "fe_bound B ts" "65536 \<le> B" "B \<le> 140737488355328"
  shows "feCarry ts = folded (fe_val ts)"
proof -
  let ?us = "map num_of ts" and ?c = "fe_val ts div 65536 ^ 16"
  have "\<bar>?c\<bar> \<le> B div 65535 + 1"
    using div_pow_bound fe_val_bound [OF assms(1)] assms(2) by simp
  then have c: "\<bar>?c\<bar> \<le> B" using assms(2) by linarith
  have "carry_loop (Num (0 + 1)) (map Num ?us) =
      (map Num (digits (length ?us) (limb_val ?us + 0)),
       Num ((limb_val ?us + 0) div 65536 ^ length ?us + 1))"
    using assms by (intro carry_loop_exact [of 0 B]) (auto simp: fe_bound_def list_all_iff)
  then have "carry_loop (Num 1) ts = (map Num (digits 16 (fe_val ts)), Num (?c + 1))"
    using assms(1) fe_bound_exact [OF assms(1), symmetric]
    by (simp add: fe_val_def fe_bound_def)
  moreover have "Num (fe_val ts mod 65536) +
      (Num (?c + 1) - Num 1 + Num 37 * (Num (?c + 1) - Num 1)) =
      Num (fe_val ts mod 65536 + 38 * ?c)"
  proof -
    have 1: "Num (?c + 1) - Num 1 = Num ?c" using c assms(3) by (simp add: num_minus)
    have 2: "Num 37 * Num ?c = Num (37 * ?c)" using c assms(3) by (intro num_times) linarith
    have 3: "Num ?c + Num (37 * ?c) = Num (38 * ?c)"
      using c assms(3) by (subst num_plus; simp; linarith)
    have 4: "0 \<le> fe_val ts mod 65536" "fe_val ts mod 65536 < 65536" by simp_all
    show ?thesis unfolding 1 2 3 using c assms(3) 4 by (intro num_plus) linarith
  qed
  ultimately show ?thesis
    unfolding feCarry_def by (simp add: folded_def digits_16)
qed


subsection \<open>Bounds and values of carried elements\<close>

lemma fold_val_mod: "fold_val V mod p25519 = V mod p25519"
proof -
  have "V mod K + V div K * K = (V mod K + 38 * (V div K)) + p25519 * (2 * (V div K))"
    if "K = 38 + 2 * p25519" for K
    using that by (simp add: algebra_simps)
  from this [of "65536 ^ 16"] have "V = fold_val V + p25519 * (2 * (V div 65536 ^ 16))"
    by (simp only: mod_div_mult_eq fold_val_def) (simp add: p25519_def)
  then show ?thesis by (metis mod_mult_self2)
qed

lemma fe_bound_folded:
  assumes "\<bar>V div 65536 ^ 16\<bar> \<le> D"
  shows "fe_bound (65535 + 38 * D) (folded V)"
proof -
  have D: "0 \<le> D" using assms by linarith
  have m: "0 \<le> V mod 65536" "V mod 65536 < 65536" by simp_all
  have "\<bar>V mod 65536 + 38 * (V div 65536 ^ 16)\<bar> \<le> 65535 + 38 * D"
    using assms m by linarith
  moreover have "\<forall>x\<in>set (digits 15 (V div 65536)). \<bar>x\<bar> \<le> 65535 + 38 * D"
    using D by (auto dest: digits_range)
  ultimately show ?thesis
    by (simp add: fe_bound_def folded_def digits_16 list_all_iff)
qed

lemma fold_val_range:
  assumes "\<bar>V div 65536 ^ 16\<bar> \<le> D"
  shows "- 38 * D \<le> fold_val V" "fold_val V < 65536 ^ 16 + 38 * D"
proof -
  have m: "0 \<le> V mod 65536 ^ 16" "V mod 65536 ^ 16 < 65536 ^ 16" by simp_all
  then show "- 38 * D \<le> fold_val V" "fold_val V < 65536 ^ 16 + 38 * D"
    using assms unfolding fold_val_def by linarith+
qed

text \<open>After a first round the second one carries at most 1 out of the top limb.\<close>

lemma fold_val_div:
  assumes "\<bar>V div 65536 ^ 16\<bar> \<le> D" "D \<le> 9007199254740992"
  shows "\<bar>fold_val V div 65536 ^ 16\<bar> \<le> 1"
proof -
  have "- 1 * 65536 ^ 16 \<le> fold_val V" "fold_val V \<le> 65536 ^ 16 + 38 * D"
    using fold_val_range [OF assms(1)] assms(2) by (simp, linarith)+
  then have "- 1 * 65536 ^ 16 div 65536 ^ 16 \<le> fold_val V div 65536 ^ 16"
      "fold_val V div 65536 ^ 16 \<le> (65536 ^ 16 + 38 * D) div 65536 ^ 16"
    by (intro zdiv_mono1; simp)+
  moreover have "(65536 ^ 16 + 38 * D) div 65536 ^ 16 = 1"
    using assms by (simp add: div_add_self1 div_pos_pos_trivial)
  ultimately show ?thesis by simp
qed

definition carried :: "fe \<Rightarrow> bool" where
  "carried a \<longleftrightarrow> fe_bound 65573 a"

lemma carry_bound: "131072 \<le> B \<Longrightarrow> 65535 * q \<le> B \<Longrightarrow> 65535 + 38 * (q + 1) \<le> (B :: int)"
  by (simp add: algebra_simps)

lemma carry38_twice:
  assumes "fe_bound B ts" "131072 \<le> B" "B \<le> 140737488355328"
  shows "carry38 (carry38 ts) = folded (fold_val (fe_val ts))"
    "carried (carry38 (carry38 ts))"
    "fe_val (carry38 (carry38 ts)) mod p25519 = fe_val ts mod p25519"
proof -
  have D: "\<bar>fe_val ts div 65536 ^ 16\<bar> \<le> B div 65535 + 1"
    using div_pow_bound fe_val_bound [OF assms(1)] assms(2) by simp
  have "65535 * (B div 65535) \<le> B" by (simp add: minus_mod_eq_mult_div [symmetric])
  with assms(2) have "65535 + 38 * (B div 65535 + 1) \<le> B" by (rule carry_bound)
  with fe_bound_folded [OF D] have f: "fe_bound B (folded (fe_val ts))" by (rule fe_bound_mono)
  have c: "65536 \<le> B" using assms(2) by simp
  show *: "carry38 (carry38 ts) = folded (fold_val (fe_val ts))"
    unfolding carry38_folded [OF assms(1) c assms(3)] carry38_folded [OF f c assms(3)] fe_val_folded ..
  have "\<bar>fold_val (fe_val ts) div 65536 ^ 16\<bar> \<le> 1"
    by (rule fold_val_div [OF D]) (use assms(3) in linarith)
  from fe_bound_folded [OF this] show "carried (carry38 (carry38 ts))"
    unfolding * carried_def by simp
  show "fe_val (carry38 (carry38 ts)) mod p25519 = fe_val ts mod p25519"
    unfolding * fe_val_folded fold_val_mod by simp
qed

subsection \<open>Multiplication\<close>

text \<open>
  The unrolled rows of \<open>feMul\<close> as the loop that they unroll: row \<open>k\<close> adds the products whose indices
  sum to \<open>k\<close>, and 38 times those whose indices sum to \<open>k + 16\<close>.
\<close>

definition mul_term :: "fe \<Rightarrow> fe \<Rightarrow> nat \<Rightarrow> nat \<Rightarrow> jsnum" where
  "mul_term a b k j = a ! j * (if j \<le> k then b ! (k - j) else Num 38 * b ! (16 + k - j))"

fun jsum :: "jsnum list \<Rightarrow> jsnum" where
  "jsum [] = Num 0"
| "jsum (x # xs) = foldl (+) x xs"

definition mul_rows :: "fe \<Rightarrow> fe \<Rightarrow> fe" where
  "mul_rows a b = map (\<lambda>k. jsum (map (mul_term a b k) [0..<16])) [0..<16]"

lemma upt_16: "[0..<16] = [0, 1, 2, 3, 4, 5, 6, 7, 8, 9, 10, 11, 12, 13, 14, 15 :: nat]"
  by (simp add: upt_rec)

lemma feMul_rolled: "feMul a b = carry38 (carry38 (mul_rows a b))"
  unfolding feMul_def mul_rows_def upt_16 Let_def by (simp add: mul_term_def)


lemma exactly_foldl:
  assumes "exactly x n A" "list_all2 (\<lambda>y m. exactly y m C) ys ms"
    and "A + C * int (length ys) < 9007199254740992" "0 \<le> A" "0 \<le> C"
  shows "exactly (foldl (+) x ys) (n + sum_list ms) (A + C * int (length ys))"
  using assms
proof (induction ys arbitrary: x n A ms)
  case (Cons y ys)
  then obtain m ns where ms: "ms = m # ns" "exactly y m C" "list_all2 (\<lambda>y m. exactly y m C) ys ns"
    by (auto simp: list_all2_Cons1)
  have bound: "A + C * int (length (y # ys)) = (A + C) + C * int (length ys)"
    by (simp add: algebra_simps)
  have "0 \<le> C * int (length ys)" using Cons.prems by simp
  then have "A + C < 9007199254740992" using Cons.prems(3) bound by linarith
  then have "exactly (x + y) (n + m) (A + C)"
    using Cons.prems ms bound by (intro exactly_add) simp_all
  then have "exactly (foldl (+) (x + y) ys) (n + m + sum_list ns) (A + C + C * int (length ys))"
    using Cons.prems ms bound by (intro Cons.IH) simp_all
  then show ?case unfolding bound by (simp add: ms algebra_simps)
qed simp

lemma exactly_jsum:
  assumes "list_all2 (\<lambda>y m. exactly y m C) ys ms" "ys \<noteq> []"
    and "C * int (length ys) < 9007199254740992" "0 \<le> C"
  shows "exactly (jsum ys) (sum_list ms) (C * int (length ys))"
proof -
  obtain y zs m ns where y: "ys = y # zs" "ms = m # ns" "exactly y m C"
      "list_all2 (\<lambda>y m. exactly y m C) zs ns"
    using assms by (cases ys) (auto simp: list_all2_Cons1)
  with assms show ?thesis
    using exactly_foldl [of y m C C zs ns] by (simp add: algebra_simps)
qed

definition term_val :: "fe \<Rightarrow> fe \<Rightarrow> nat \<Rightarrow> nat \<Rightarrow> int" where
  "term_val a b k j =
    num_of (a ! j) * (if j \<le> k then num_of (b ! (k - j)) else 38 * num_of (b ! (16 + k - j)))"

lemma fe_bound_nth: "fe_bound A a \<Longrightarrow> i < 16 \<Longrightarrow> exactly (a ! i) (num_of (a ! i)) A"
  by (simp add: fe_bound_def list_all_length exactly_def)

lemma fe_bound_nonneg: "fe_bound A a \<Longrightarrow> 0 \<le> A"
  using fe_bound_nth [of A a 0] by (simp add: exactly_def)

lemma mul_term_exact:
  assumes "fe_bound A a" "fe_bound B b" "608 * (A * B) \<le> 140737488355328" "k < 16" "j < 16"
  shows "exactly (mul_term a b k j) (term_val a b k j) (38 * (A * B))"
proof -
  have nonneg: "0 \<le> A" "0 \<le> B" using assms(1,2) by (auto dest: fe_bound_nonneg)
  then have AB: "0 \<le> A * B" by simp
  have A: "exactly (a ! j) (num_of (a ! j)) A" using assms by (intro fe_bound_nth)
  show ?thesis
  proof (cases "j \<le> k")
    case True
    have "exactly (b ! (k - j)) (num_of (b ! (k - j))) B"
      using assms by (intro fe_bound_nth) auto
    with A have "exactly (mul_term a b k j) (term_val a b k j) (A * B)"
      unfolding mul_term_def term_val_def using True assms(3) by (simp add: exactly_mult)
    then show ?thesis by (rule exactly_mono) (use AB in linarith)
  next
    case False
    show ?thesis
    proof (cases "A = 0")
      case True
      with A have "a ! j = Num 0" by (cases "a ! j") (simp add: exactly_def)
      then show ?thesis
        using False True by (simp add: mul_term_def term_val_def exactly_def times_jsnum_def
            round53_exact)
    next
      case A0: False
      have "B \<le> A * B" using A0 nonneg by (simp add: mult_le_cancel_right1)
      moreover have "exactly (b ! (16 + k - j)) (num_of (b ! (16 + k - j))) B"
        using assms False by (intro fe_bound_nth) auto
      ultimately have "exactly (Num 38 * b ! (16 + k - j)) (38 * num_of (b ! (16 + k - j))) (38 * B)"
        using assms(3) by (intro exactly_mult exactly_Num) simp_all
      with A have "exactly (mul_term a b k j) (term_val a b k j) (A * (38 * B))"
        unfolding mul_term_def term_val_def using False assms(3) by (simp add: exactly_mult)
      then show ?thesis by (simp add: mult_ac)
    qed
  qed
qed

lemma mul_row_exact:
  assumes "fe_bound A a" "fe_bound B b" "608 * (A * B) \<le> 140737488355328" "k < 16"
  shows "exactly (jsum (map (mul_term a b k) [0..<16])) (\<Sum>j<16. term_val a b k j) (608 * (A * B))"
proof -
  have nonneg: "0 \<le> A * B"
    using fe_bound_nonneg [OF assms(1)] fe_bound_nonneg [OF assms(2)] by simp
  have "list_all2 (\<lambda>y m. exactly y m (38 * (A * B)))
      (map (mul_term a b k) [0..<16]) (map (term_val a b k) [0..<16])"
    using assms by (auto simp: list_all2_conv_all_nth intro!: mul_term_exact)
  from exactly_jsum [OF this] show ?thesis
    using assms(3) nonneg by (simp add: interv_sum_list_conv_sum_set_nat atLeast0LessThan)
qed

lemma conv_mod:
  fixes X c :: int
  shows "(\<Sum>k<n. X ^ k * (\<Sum>j<n. a j * (if j \<le> k then b (k - j) else c * b (n + k - j)))) mod (X ^ n - c)
    = ((\<Sum>j<n. a j * X ^ j) * (\<Sum>i<n. b i * X ^ i)) mod (X ^ n - c)"
proof -
  define low where "low j = (\<Sum>i<n - j. X ^ (i + j) * b i)" for j
  define high where "high j = (\<Sum>i\<in>{n - j..<n}. X ^ (i + j - n) * b i)" for j
  have row: "(\<Sum>k<n. X ^ k * (if j \<le> k then b (k - j) else c * b (n + k - j))) = low j + c * high j"
    if j: "j < n" for j
  proof -
    have "{..<n} = {j..<n} \<union> {..<j}" using j by auto
    then have "(\<Sum>k<n. X ^ k * (if j \<le> k then b (k - j) else c * b (n + k - j))) =
        (\<Sum>k\<in>{j..<n}. X ^ k * b (k - j)) + (\<Sum>k<j. X ^ k * (c * b (n + k - j)))"
      by (simp add: sum.union_disjoint disjoint_iff)
    also have "(\<Sum>k\<in>{j..<n}. X ^ k * b (k - j)) = low j"
      unfolding low_def
      by (rule sum.reindex_bij_witness [where i = "\<lambda>i. i + j" and j = "\<lambda>k. k - j"]) auto
    also have "(\<Sum>k<j. X ^ k * (c * b (n + k - j))) = c * high j"
      unfolding high_def sum_distrib_left using j
      by (intro sum.reindex_bij_witness [where i = "\<lambda>i. i + j - n" and j = "\<lambda>k. n + k - j"]) auto
    finally show ?thesis .
  qed
  have full: "X ^ j * (\<Sum>i<n. b i * X ^ i) = low j + X ^ n * high j" if j: "j < n" for j
  proof -
    have "{..<n} = {..<n - j} \<union> {n - j..<n}" using j by auto
    then have "(\<Sum>i<n. X ^ (i + j) * b i) = low j + (\<Sum>i\<in>{n - j..<n}. X ^ (i + j) * b i)"
      by (simp add: sum.union_disjoint disjoint_iff low_def)
    moreover have "X ^ (i + j) = X ^ n * X ^ (i + j - n)" if "n - j \<le> i" for i
      using that j by (metis le_add_diff_inverse le_diff_conv power_add)
    ultimately show ?thesis
      by (simp add: high_def sum_distrib_left power_add mult_ac)
  qed
  let ?L = "\<Sum>k<n. X ^ k * (\<Sum>j<n. a j * (if j \<le> k then b (k - j) else c * b (n + k - j)))"
  let ?R = "(\<Sum>j<n. a j * X ^ j) * (\<Sum>i<n. b i * X ^ i)"
  have "?L = (\<Sum>j<n. a j * (\<Sum>k<n. X ^ k * (if j \<le> k then b (k - j) else c * b (n + k - j))))"
    unfolding sum_distrib_left by (subst sum.swap) (simp add: mult_ac)
  also have "\<dots> = (\<Sum>j<n. a j * (low j + c * high j))" by (simp add: row)
  finally have L: "?L = (\<Sum>j<n. a j * (low j + c * high j))" .
  have "?R = (\<Sum>j<n. a j * (X ^ j * (\<Sum>i<n. b i * X ^ i)))"
    by (simp add: sum_distrib_right mult_ac)
  also have "\<dots> = (\<Sum>j<n. a j * (low j + X ^ n * high j))" by (simp add: full)
  also have "\<dots> = (\<Sum>j<n. a j * (low j + c * high j) + (X ^ n - c) * (a j * high j))"
    by (rule sum.cong) (simp_all add: algebra_simps)
  also have "\<dots> = ?L + (X ^ n - c) * (\<Sum>j<n. a j * high j)"
    unfolding L sum.distrib by (simp only: sum_distrib_left)
  finally show ?thesis by simp
qed


lemma rows_value:
  assumes "list_all2 (\<lambda>y m. exactly y m C) rows (map f [0..<16])"
  shows "fe_bound C rows" "fe_val rows = (\<Sum>k<16. 65536 ^ k * f k)"
proof -
  have len: "length rows = 16" using list_all2_lengthD [OF assms] by simp
  have nth: "exactly (rows ! k) (f k) C" if "k < 16" for k
    using list_all2_nthD2 [OF assms, of k] that by simp
  show "fe_bound C rows"
    using nth len by (auto simp: fe_bound_def list_all_length exactly_def)
  have "fe_val rows = (\<Sum>k<16. num_of (rows ! k) * 65536 ^ k)"
    by (simp add: fe_val_def limb_val_sum len)
  also have "\<dots> = (\<Sum>k<16. 65536 ^ k * f k)"
    using nth by (intro sum.cong) (simp_all add: exactly_def)
  finally show "fe_val rows = (\<Sum>k<16. 65536 ^ k * f k)" .
qed

lemma fe_val_nth_sum: "fe_bound B a \<Longrightarrow> fe_val a = (\<Sum>i<16. num_of (a ! i) * 65536 ^ i)"
  by (simp add: fe_val_def limb_val_sum fe_bound_def)

lemma product_rows:
  assumes "fe_bound A a" "fe_bound B b"
    and "list_all2 (\<lambda>y m. exactly y m C) rows (map (\<lambda>k. \<Sum>j<16. term_val a b k j) [0..<16])"
    and "131072 \<le> C" "C \<le> 140737488355328"
  shows "carried (carry38 (carry38 rows))"
    "fe_val (carry38 (carry38 rows)) mod p25519 = fe_val a * fe_val b mod p25519"
proof -
  note rows = rows_value [OF assms(3)]
  show "carried (carry38 (carry38 rows))" using carry38_twice [OF rows(1) assms(4,5)] by simp
  have "fe_val (carry38 (carry38 rows)) mod p25519 = fe_val rows mod p25519"
    using carry38_twice [OF rows(1) assms(4,5)] by simp
  also have "\<dots> = (\<Sum>k<16. 65536 ^ k * (\<Sum>j<16. num_of (a ! j) *
      (if j \<le> k then num_of (b ! (k - j)) else 38 * num_of (b ! (16 + k - j))))) mod p25519"
    unfolding rows(2) term_val_def ..
  also have "\<dots> = fe_val a * fe_val b mod p25519"
  proof -
    have "p25519 dvd 65536 ^ 16 - 38" by (simp add: p25519_def)
    then show ?thesis
      unfolding fe_val_nth_sum [OF assms(1)] fe_val_nth_sum [OF assms(2)]
      using arg_cong [OF conv_mod [where X = 65536 and n = 16 and c = 38
            and a = "\<lambda>j. num_of (a ! j)" and b = "\<lambda>i. num_of (b ! i)"],
          of "\<lambda>v. v mod p25519"]
      by (simp only: mod_mod_cancel)
  qed
  finally show "fe_val (carry38 (carry38 rows)) mod p25519 = fe_val a * fe_val b mod p25519" .
qed

lemma feMul_correct:
  assumes "fe_bound A a" "fe_bound B b" "608 * (A * B) \<le> 140737488355328"
  shows "carried (feMul a b)" "fe_val (feMul a b) mod p25519 = fe_val a * fe_val b mod p25519"
proof -
  let ?C = "max 131072 (608 * (A * B))"
  have "list_all2 (\<lambda>y m. exactly y m ?C) (mul_rows a b)
      (map (\<lambda>k. \<Sum>j<16. term_val a b k j) [0..<16])"
    unfolding mul_rows_def list_all2_map1 list_all2_map2
    using assms by (auto simp: list_all2_same intro!: exactly_mono [OF mul_row_exact])
  note product_rows [OF assms(1,2) this]
  then show "carried (feMul a b)"
      "fe_val (feMul a b) mod p25519 = fe_val a * fe_val b mod p25519"
    unfolding feMul_rolled using assms(3) by simp_all
qed

subsection \<open>Squaring\<close>

lemma exactly_conv: "exactly e x A \<Longrightarrow> x = y \<Longrightarrow> A \<le> B \<Longrightarrow> exactly e y B"
  by (simp add: exactly_def)

lemma exactly_2: "exactly (Num 2) 2 2" and exactly_38: "exactly (Num 38) 38 38"
  by (simp_all add: exactly_def)

lemma sum_upto_16: "(\<Sum>j<(16 :: nat). f j) = f 0 + f 1 + f 2 + f 3 + f 4 + f 5 + f 6 + f 7 + f 8 + f 9 +
    f 10 + f 11 + f 12 + f 13 + f 14 + (f 15 :: int)"
  by (simp add: lessThan_nat_numeral lessThan_Suc add_ac)

text \<open>The bound is the sum of two carried elements; 17 products of such limbs stay below \<open>2\<^sup>4\<^sup>7\<close>.\<close>

lemma feSqr_rows:
  assumes "fe_bound 131146 a"
  shows "\<exists>rows. feSqr a = carry38 (carry38 rows) \<and>
    list_all2 (\<lambda>y m. exactly y m 10457277168128) rows
      (map (\<lambda>k. \<Sum>j<16. term_val a a k j) [0..<16])"
  unfolding feSqr_def Let_def upt_16 list.map
  apply (intro exI conjI)
   apply (rule refl)
  apply (simp only: list_all2_Cons list_all2_Nil simp_thms)
  apply (intro conjI)
  by (rule exactly_conv,
      (rule exactly_add exactly_mult exactly_2 exactly_38 fe_bound_nth [OF assms] | (simp; fail))+,
      simp add: term_val_def sum_upto_16 algebra_simps, simp)+

lemma feSqr_correct:
  assumes "fe_bound 131146 a"
  shows "carried (feSqr a)" "fe_val (feSqr a) mod p25519 = (fe_val a)\<^sup>2 mod p25519"
proof -
  obtain rows where rows: "feSqr a = carry38 (carry38 rows)"
      "list_all2 (\<lambda>y m. exactly y m 10457277168128) rows
        (map (\<lambda>k. \<Sum>j<16. term_val a a k j) [0..<16])"
    using feSqr_rows [OF assms] by blast
  note product_rows [OF assms assms rows(2)]
  then show "carried (feSqr a)" "fe_val (feSqr a) mod p25519 = (fe_val a)\<^sup>2 mod p25519"
    unfolding rows(1) by (simp_all add: power2_eq_square)
qed


subsection \<open>Sums, differences, negation\<close>

lemma limb_val_map2:
  assumes "length xs = length ys"
  shows "limb_val (map2 (+) xs ys) = limb_val xs + limb_val ys"
    "limb_val (map2 (-) xs ys) = limb_val xs - limb_val ys"
  using assms by (induction xs ys rule: list_induct2) simp_all

lemma limb_val_uminus: "limb_val (map uminus xs) = - limb_val xs"
  by (induction xs) simp_all

lemma fe_map2_exact:
  assumes "fe_bound A a" "fe_bound B b"
    and op: "\<And>x y m n. exactly x m A \<Longrightarrow> exactly y n B \<Longrightarrow> exactly (f x y) (g m n) (A + B)"
  shows "fe_bound (A + B) (map2 f a b)"
    "map num_of (map2 f a b) = map2 g (map num_of a) (map num_of b)"
proof -
  have len: "length a = 16" "length b = 16" using assms by (simp_all add: fe_bound_def)
  have "exactly (f (a ! i) (b ! i)) (g (num_of (a ! i)) (num_of (b ! i))) (A + B)" if "i < 16" for i
    using that assms by (intro op fe_bound_nth)
  then show "fe_bound (A + B) (map2 f a b)"
      "map num_of (map2 f a b) = map2 g (map num_of a) (map num_of b)"
    by (auto simp: fe_bound_def list_all_length len exactly_def intro!: nth_equalityI)
qed

lemma feAdd_correct:
  assumes "fe_bound A a" "fe_bound B b" "A + B < 9007199254740992"
  shows "fe_bound (A + B) (feAdd a b)" "fe_val (feAdd a b) = fe_val a + fe_val b"
proof -
  note * = fe_map2_exact [OF assms(1,2), of "(+)" "(+)"]
  show "fe_bound (A + B) (feAdd a b)"
    unfolding feAdd_def using assms(3) by (intro *) (simp add: exactly_add)
  have "map num_of (map2 (+) a b) = map2 (+) (map num_of a) (map num_of b)"
    using assms(3) by (intro *) (simp add: exactly_add)
  then show "fe_val (feAdd a b) = fe_val a + fe_val b"
    using assms by (simp only: feAdd_def fe_val_def) (simp add: limb_val_map2 fe_bound_def)
qed

lemma feSub_correct:
  assumes "fe_bound A a" "fe_bound B b" "A + B < 9007199254740992"
  shows "fe_bound (A + B) (feSub a b)" "fe_val (feSub a b) = fe_val a - fe_val b"
proof -
  note * = fe_map2_exact [OF assms(1,2), of "(-)" "(-)"]
  show "fe_bound (A + B) (feSub a b)"
    unfolding feSub_def using assms(3) by (intro *) (simp add: exactly_diff)
  have "map num_of (map2 (-) a b) = map2 (-) (map num_of a) (map num_of b)"
    using assms(3) by (intro *) (simp add: exactly_diff)
  then show "fe_val (feSub a b) = fe_val a - fe_val b"
    using assms by (simp only: feSub_def fe_val_def) (simp add: limb_val_map2 fe_bound_def)
qed

lemma feNeg_correct:
  assumes "fe_bound A a"
  shows "fe_bound A (feNeg a)" "fe_val (feNeg a) = - fe_val a"
  using assms
  by (auto simp: feNeg_def fe_bound_def list_all_iff uminus_jsnum_def fe_val_def comp_def
      limb_val_uminus [of "map num_of a", unfolded map_map comp_def, simplified])

subsection \<open>Inversion\<close>

definition fe_pow :: "fe \<Rightarrow> fe \<Rightarrow> nat \<Rightarrow> bool" where
  "fe_pow a t k \<longleftrightarrow> fe_bound 131146 t \<and> fe_val t mod p25519 = fe_val a ^ k mod p25519"

lemma carried_bound: "carried a \<Longrightarrow> fe_bound 131146 a"
  unfolding carried_def by (erule fe_bound_mono) simp

lemma fe_pow_self: "fe_bound 131146 a \<Longrightarrow> fe_pow a a 1"
  by (simp add: fe_pow_def)

lemma fe_pow_mul:
  assumes "fe_pow a s i" "fe_pow a t j"
  shows "fe_pow a (feMul s t) (i + j)"
proof -
  have b: "fe_bound 131146 s" "fe_bound 131146 t" using assms by (simp_all add: fe_pow_def)
  have "fe_val (feMul s t) mod p25519 = fe_val s * fe_val t mod p25519"
    using feMul_correct [OF b] by simp
  also have "\<dots> = fe_val a ^ i * fe_val a ^ j mod p25519"
    using assms by (intro mod_mult_cong) (simp_all add: fe_pow_def)
  finally show ?thesis
    using feMul_correct(1) [OF b] by (simp add: fe_pow_def power_add carried_bound)
qed

lemma fe_pow_sqr:
  assumes "fe_pow a t k"
  shows "fe_pow a (feSqr t) (2 * k)"
proof -
  have b: "fe_bound 131146 t" using assms by (simp add: fe_pow_def)
  have "fe_val (feSqr t) mod p25519 = (fe_val t)\<^sup>2 mod p25519"
    using feSqr_correct [OF b] by simp
  also have "\<dots> = (fe_val a ^ k)\<^sup>2 mod p25519"
    using assms unfolding power2_eq_square by (intro mod_mult_cong) (simp_all add: fe_pow_def)
  finally show ?thesis
    using feSqr_correct(1) [OF b] by (simp add: fe_pow_def power_mult [symmetric] mult.commute carried_bound)
qed

lemma fe_pow_sqrN: "fe_pow a t k \<Longrightarrow> fe_pow a (feSqrN t n) (2 ^ n * k)"
proof (induction n arbitrary: t k)
  case (Suc n)
  from Suc.IH [OF fe_pow_sqr [OF Suc.prems]] show ?case by (simp add: mult_ac)
qed simp

lemma feInv_pow:
  assumes "fe_bound 131146 a"
  shows "fe_pow a (feInv a) (2 ^ 255 - 21)"
proof -
  have conv: "fe_pow a t k \<Longrightarrow> k = l \<Longrightarrow> fe_pow a t l" for t k l by simp
  show ?thesis
    unfolding feInv_def Let_def
    by (rule conv, (rule fe_pow_mul fe_pow_sqrN fe_pow_sqr fe_pow_self [OF assms])+, simp)
qed

lemma feInv_carried:
  assumes "fe_bound 131146 a"
  shows "carried (feInv a)"
proof -
  have mul: "carried (feMul s t)" if "fe_pow a s i" "fe_pow a t j" for s t i j
    using that by (auto simp: fe_pow_def intro: feMul_correct)
  show ?thesis
    unfolding feInv_def Let_def
    by (rule mul, (rule fe_pow_mul fe_pow_sqrN fe_pow_sqr fe_pow_self [OF assms])+)
qed

end
