(* ===== verification/FieldPack.thy ===== *)
theory FieldPack
  imports FieldArith
begin

text \<open>
  The byte form of field elements: \<open>fePack\<close> writes the canonical representative, and the
  conversions of \<open>src/crypto/math/le.ts\<close> and of \<open>fe.ts\<close> agree with it.
\<close>

text \<open>\<open>src/crypto/math/le.ts\<close>.\<close>

definition bytesToBigIntLE :: "bytes \<Rightarrow> int" where
  "bytesToBigIntLE bs = foldr (\<lambda>b out1. push_bit 8 out1 + uint b) bs 0"

fun bigIntToBytesLE :: "int \<Rightarrow> nat \<Rightarrow> bytes" where
  "bigIntToBytesLE current 0 = []"
| "bigIntToBytesLE current (Suc len) =
    word_of_int (current AND 255) # bigIntToBytesLE (drop_bit 8 current) len"

subsection \<open>The bit operators on 32-bit values\<close>

definition int32_range :: "int \<Rightarrow> bool" where
  "int32_range x \<longleftrightarrow> - 2147483648 \<le> x \<and> x < 2147483648"

lemma sint_word_of_int32: "int32_range x \<Longrightarrow> sint (word_of_int x :: 32 word) = x"
  by (simp add: int32_range_def signed_of_int signed_take_bit_int_eq_self)

lemma bit_and_num: "int32_range (x AND y) \<Longrightarrow> bit_and (Num x) (Num y) = Num (x AND y)"
  by (simp add: bit_and_def to_int32_def of_int32_def sint_word_of_int32 flip: of_int_and_eq)

lemma bit_or_num: "int32_range (x OR y) \<Longrightarrow> bit_or (Num x) (Num y) = Num (x OR y)"
  by (simp add: bit_or_def to_int32_def of_int32_def sint_word_of_int32 flip: of_int_or_eq)

lemma bit_xor_num: "int32_range (x XOR y) \<Longrightarrow> bit_xor (Num x) (Num y) = Num (x XOR y)"
  by (simp add: bit_xor_def to_int32_def of_int32_def sint_word_of_int32 flip: of_int_xor_eq)

lemma bit_sar_num:
  "int32_range x \<Longrightarrow> bit_sar (Num x) n = Num (x div 2 ^ n)"
  by (simp add: bit_sar_def to_int32_def of_int32_def sint_signed_drop_bit_eq sint_word_of_int32
      drop_bit_eq_div)

lemma and_65535_int: "(x :: int) AND 65535 = x mod 65536"
  using take_bit_eq_mask [of 16 x] by (simp add: take_bit_eq_mod mask_eq_exp_minus_1)

lemma and_255_int: "(x :: int) AND 255 = x mod 256"
  using take_bit_eq_mask [of 8 x] by (simp add: take_bit_eq_mod mask_eq_exp_minus_1)

lemma and_1_int: "(x :: int) AND 1 = x mod 2"
  by (simp add: and_one_eq)

lemma low_16 [simp]: "bit_and (Num x) (Num 65535) = Num (x mod 65536)"
proof -
  have "0 \<le> x mod 65536" "x mod 65536 < 65536" by simp_all
  then have "int32_range (x mod 65536)" unfolding int32_range_def by linarith
  then show ?thesis using bit_and_num [of x 65535] by (simp add: and_65535_int)
qed

lemma low_15: "bit_and (Num x) (Num 32767) = Num (x mod 32768)"
proof -
  have "0 \<le> x mod 32768" "x mod 32768 < 32768" by simp_all
  then have "int32_range (x mod 32768)" unfolding int32_range_def by linarith
  moreover have "x AND 32767 = x mod 32768"
    using take_bit_eq_mask [of 15 x] by (simp add: take_bit_eq_mod mask_eq_exp_minus_1)
  ultimately show ?thesis using bit_and_num [of x 32767] by simp
qed

lemma low_1 [simp]: "bit_and (Num x) (Num 1) = Num (x mod 2)"
proof -
  have "0 \<le> x mod 2" "x mod 2 < 2" by simp_all
  then have "int32_range (x mod 2)" unfolding int32_range_def by linarith
  then show ?thesis using bit_and_num [of x 1] by (simp add: and_1_int)
qed

text \<open>The borrow of a limb: bit 16 of a value between \<open>-65536\<close> and \<open>65535\<close>.\<close>

lemma borrow_bit:
  assumes "- 65536 \<le> x" "x < 65536"
  shows "bit_and (bit_sar (Num x) 16) (Num 1) = Num (- (x div 65536))"
proof -
  have "int32_range x" using assms by (simp add: int32_range_def)
  moreover have "x div 65536 = -1 \<or> x div 65536 = 0" using assms by linarith
  ultimately show ?thesis by (auto simp: bit_sar_num)
qed

subsection \<open>Subtracting the modulus\<close>

definition p_limbs :: "int list" where
  "p_limbs = 65517 # replicate 14 65535 @ [32767]"

lemma limb_val_p: "limb_val p_limbs = p25519"
  by (simp add: p_limbs_def p25519_def numeral_eq_Suc)

lemma pack_sub_exact:
  assumes "- 65536 \<le> prev" "prev < 65536" "list_all (\<lambda>u. 0 \<le> u \<and> u < 65536) (us @ [t])"
    and D: "D = prev + 65536 * (limb_val (us @ [t]) - limb_val (replicate (length us) 65535 @ [32767]))"
  shows "pack_sub (Num prev) (map Num (us @ [t])) =
    map Num (digits (Suc (length us)) D @ [D div 65536 ^ Suc (length us)])"
  using assms
proof (induction us arbitrary: prev D)
  case Nil
  have t: "0 \<le> t" "t < 65536" using Nil.prems by simp_all
  have b: "prev div 65536 = -1 \<or> prev div 65536 = 0" using Nil.prems by linarith
  have "Num t - Num 32767 - bit_and (bit_sar (Num prev) 16) (Num 1) =
      Num (t - 32767 + prev div 65536)"
    using t b Nil.prems by (auto simp: borrow_bit num_minus)
  moreover have D: "D = prev + 65536 * (t - 32767)" using Nil.prems by simp
  have "D mod 65536 = prev mod 65536" "D div 65536 = t - 32767 + prev div 65536"
    unfolding D
    by (simp_all only: mod_mult_self2 div_mult_self2 zero_neq_numeral not_False_eq_True)
  ultimately show ?case by (simp add: Let_def)
next
  case (Cons u us)
  let ?m = "u - 65535 + prev div 65536"
  let ?R = "limb_val (us @ [t]) - limb_val (replicate (length us) 65535 @ [32767])"
  have u: "0 \<le> u" "u < 65536" using Cons.prems by simp_all
  have b: "prev div 65536 = -1 \<or> prev div 65536 = 0" using Cons.prems by linarith
  have m: "Num u - Num 65535 - bit_and (bit_sar (Num prev) 16) (Num 1) = Num ?m"
    using u b Cons.prems by (auto simp: borrow_bit num_minus)
  have IH: "pack_sub (Num ?m) (map Num (us @ [t])) =
      map Num (digits (Suc (length us)) (?m + 65536 * ?R) @
        [(?m + 65536 * ?R) div 65536 ^ Suc (length us)])"
    using Cons.prems u b by (intro Cons.IH) auto
  have D: "D = limb_val (prev # [?m - prev div 65536 + 65536 * ?R])"
    using Cons.prems by (simp add: algebra_simps)
  have "D mod 65536 = prev mod 65536" "D div 65536 = ?m + 65536 * ?R"
    unfolding D limb_val_Cons_divmod by simp_all
  then have "digits (Suc (length (u # us))) D = prev mod 65536 # digits (Suc (length us)) (?m + 65536 * ?R)"
    "D div 65536 ^ Suc (length (u # us)) = (?m + 65536 * ?R) div 65536 ^ Suc (length us)"
    by (simp_all only: list.size add_Suc_right add_0_right digits.simps(2) [of "Suc (length us)" D]
        power_Suc [of _ "Suc (length us)"] zdiv_zmult2_eq zero_le_numeral zero_le_power)
  moreover have "pack_sub (Num prev) (map Num ((u # us) @ [t])) =
      Num (prev mod 65536) # pack_sub (Num ?m) (map Num (us @ [t]))"
    by (cases us) (simp_all only: list.map append_Cons append_Nil pack_sub.simps Let_def m low_16)
  ultimately show ?case using IH by simp
qed


lemma int32_bits:
  assumes "int32_range x" "int32_range y"
  shows "int32_range (x XOR y)"
proof -
  have "x XOR y = sint ((word_of_int x :: 32 word) XOR word_of_int y)"
    using assms by (simp add: signed_xor_eq sint_word_of_int32)
  then show ?thesis
    using sint_ge [of "(word_of_int x :: 32 word) XOR word_of_int y"]
      sint_lt [of "(word_of_int x :: 32 word) XOR word_of_int y"]
    by (simp add: int32_range_def)
qed

lemma feSel_num:
  assumes "b = 0 \<or> b = 1" "length ps = length qs" "list_all int32_range ps" "list_all int32_range qs"
  shows "fst (feSel (map Num ps) (map Num qs) (Num b)) = map Num (if b = 1 then qs else ps)"
proof -
  have c: "bit_not (Num b - Num 1) = Num (- b)"
    using assms(1) by (auto simp: num_minus bit_not_def to_int32_def of_int32_def)
  have sel: "bit_xor (Num x) (bit_and (Num (- b)) (bit_xor (Num x) (Num y))) =
      Num (if b = 1 then y else x)" if "int32_range x" "int32_range y" for x y
  proof -
    have xy: "int32_range (x XOR y)" using that by (rule int32_bits)
    have "bit_and (Num (- b)) (Num (x XOR y)) = Num (if b = 1 then x XOR y else 0)"
      using assms(1) xy by (subst bit_and_num) (auto simp: int32_range_def)
    moreover have "bit_xor (Num x) (Num (if b = 1 then x XOR y else 0)) = Num (if b = 1 then y else x)"
      using that by (subst bit_xor_num) (simp_all flip: xor.assoc)
    ultimately show ?thesis using xy by (simp add: bit_xor_num)
  qed
  show ?thesis
    using assms(2-4) unfolding feSel_def Let_def fst_conv c
    by (induction ps qs rule: list_induct2) (simp_all add: sel)
qed

lemma digits_snoc: "digits (Suc k) n = digits k n @ [n div 65536 ^ k mod 65536]"
proof (induction k arbitrary: n)
  case (Suc k)
  show ?case
    by (subst digits.simps(2), subst Suc.IH) (simp add: zdiv_zmult2_eq)
qed simp

lemma digits_int32: "list_all int32_range (digits k n)"
  by (auto simp: list_all_iff int32_range_def dest: digits_range)

text \<open>One round of the loop of \<open>fePack\<close> subtracts the modulus if the value reaches it.\<close>

lemma pack_round_exact:
  assumes "0 \<le> T" "T < 65536 ^ 16"
  shows "pack_round (map Num (digits 16 T)) = map Num (digits 16 (if p25519 \<le> T then T - p25519 else T))"
proof -
  let ?us = "digits 14 (T div 65536)" and ?top = "T div 65536 ^ 15" and ?D = "T - p25519"
  have "digits 15 (T div 65536) = ?us @ [?top mod 65536]"
    using digits_snoc [of 14 "T div 65536"] by (simp del: digits.simps flip: zdiv_zmult2_eq)
  moreover have top: "?top mod 65536 = ?top" using assms by (simp add: div_less_iff_less_mult)
  ultimately have tail: "digits 15 (T div 65536) = ?us @ [?top]" by simp
  define m where "m = digits 15 ?D @ [?D div 65536 ^ 15]"
  have D: "?D = (T mod 65536 - 65517) + 65536 * (limb_val (?us @ [?top]) -
      limb_val (replicate (length ?us) 65535 @ [32767]))"
  proof -
    have "limb_val (?us @ [?top]) = T div 65536"
      unfolding tail [symmetric] limb_val_digits using assms by (simp add: div_less_iff_less_mult)
    moreover have "65517 + 65536 * limb_val (replicate (length ?us) 65535 @ [32767]) = p25519"
      using limb_val_p by (simp add: p_limbs_def)
    ultimately show ?thesis by (simp add: algebra_simps)
  qed
  have range: "list_all (\<lambda>u. 0 \<le> u \<and> u < 65536) (?us @ [?top])"
    unfolding tail [symmetric] by (auto simp: list_all_iff dest: digits_range)
  have low: "0 \<le> T mod 65536" "T mod 65536 < 65536" by simp_all
  have sub: "pack_sub (map Num (digits 16 T) ! 0 - Num 65517) (tl (map Num (digits 16 T))) = map Num m"
    using pack_sub_exact [OF _ _ range D] low by (simp add: digits_16 tail num_minus m_def)
  let ?d = "?D div 65536 ^ 15" and ?b = "if p25519 \<le> T then 1 else 0 :: int"
  have "- 32768 * 65536 ^ 15 \<le> ?D" "?D \<le> 32768 * 65536 ^ 15 + 19"
    using assms by (simp_all add: p25519_def)
  then have "- 32768 * 65536 ^ 15 div 65536 ^ 15 \<le> ?d" "?d \<le> (32768 * 65536 ^ 15 + 19) div 65536 ^ 15"
    by (intro zdiv_mono1; simp)+
  then have d: "- 32768 \<le> ?d" "?d \<le> 32768" by simp_all
  have "?d < 0 \<longleftrightarrow> T < p25519"
    using pos_imp_zdiv_neg_iff [of "65536 ^ 15" ?D] by simp
  then have "?d div 65536 = ?b - 1" using d by auto
  moreover have "map Num m ! 15 = Num ?d" by (simp add: m_def nth_append)
  ultimately have b: "Num 1 - bit_and (bit_sar (map Num m ! 15) 16) (Num 1) = Num ?b"
    using d by (simp add: borrow_bit num_minus)
  have "fst (feSel (map Num (digits 16 T)) (map Num m) (Num ?b)) =
      map Num (if ?b = 1 then m else digits 16 T)"
    using d digits_int32 [of 15 ?D]
    by (intro feSel_num) (simp_all add: m_def digits_int32 int32_range_def)
  moreover have "m = digits 16 ?D" if "p25519 \<le> T"
  proof -
    have "?d mod 65536 = ?d" using d that by (simp add: pos_imp_zdiv_nonneg_iff)
    then show ?thesis using digits_snoc [of 15 ?D] by (simp add: m_def del: digits.simps)
  qed
  ultimately show ?thesis
    unfolding pack_round_def sub Let_def b by simp
qed


subsection \<open>The byte form\<close>

lemma last_fold:
  assumes "W = q * M + r" "0 \<le> r" "r < M" "\<bar>q\<bar> \<le> 1"
    and "- 38 * D \<le> W" "W < M + 38 * D" "38 * D + 38 < (M :: int)"
  shows "0 \<le> r + 38 * q \<and> r + 38 * q < M"
proof -
  have "q = -1 \<or> q = 0 \<or> q = 1" using assms(4) by linarith
  then show ?thesis using assms by (elim disjE) simp_all
qed

lemma third_carry:
  assumes "fe_bound B n" "131072 \<le> B" "B \<le> 140737488355328"
  obtains T where "feCarry (feCarry (feCarry n)) = map Num (digits 16 T)"
    "0 \<le> T" "T < 65536 ^ 16" "T mod p25519 = fe_val n mod p25519"
proof -
  let ?V = "fe_val n" and ?W = "fold_val (fe_val n)" and ?M = "65536 ^ 16 :: int"
  let ?T = "fold_val ?W" and ?D = "B div 65535 + 1"
  have B: "65536 \<le> B" using assms(2) by simp
  have D: "\<bar>?V div ?M\<bar> \<le> ?D"
    using div_pow_bound fe_val_bound [OF assms(1)] assms(2) by simp
  have DB: "65535 + 38 * ?D \<le> B"
    using assms(2) by (rule carry_bound) (simp add: minus_mod_eq_mult_div [symmetric])
  have c1: "feCarry n = folded ?V" using assms B by (intro feCarry_folded)
  have b1: "fe_bound B (folded ?V)" using fe_bound_mono [OF fe_bound_folded [OF D] DB] .
  have c2: "feCarry (folded ?V) = folded ?W"
    using feCarry_folded [OF b1 B assms(3)] by (simp add: fe_val_folded)
  have d2: "\<bar>?W div ?M\<bar> \<le> 1" using D by (rule fold_val_div) (use assms(3) in linarith)
  have b2: "fe_bound B (folded ?W)"
    using fe_bound_mono [OF fe_bound_folded [OF d2]] assms(2) by simp
  have c3: "feCarry (folded ?W) = folded ?T"
    using feCarry_folded [OF b2 B assms(3)] by (simp add: fe_val_folded)
  have W: "- 38 * ?D \<le> ?W" "?W < ?M + 38 * ?D" using fold_val_range [OF D] .
  have Dsmall: "38 * ?D + 38 < ?M" using DB assms(3) by simp
  have "?W = ?W div ?M * ?M + ?W mod ?M" by (rule div_mult_mod_eq [symmetric])
  moreover have "0 \<le> ?W mod ?M" "?W mod ?M < ?M" by simp_all
  ultimately have T: "0 \<le> ?T" "?T < ?M"
    unfolding fold_val_def [of ?W] using last_fold [OF _ _ _ d2 W Dsmall] by blast+
  have "folded ?T = map Num (digits 16 ?T)"
    using T by (simp add: folded_def digits_16 div_pos_pos_trivial)
  moreover have "?T mod p25519 = ?V mod p25519" by (simp add: fold_val_mod)
  ultimately show ?thesis using T that c1 c2 c3 by simp
qed

lemma two_rounds:
  assumes "0 \<le> T" "T < 65536 ^ 16"
  shows "pack_round (pack_round (map Num (digits 16 T))) = map Num (digits 16 (T mod p25519))"
proof -
  let ?T1 = "if p25519 \<le> T then T - p25519 else T"
  let ?T2 = "if p25519 \<le> ?T1 then ?T1 - p25519 else ?T1"
  have M: "65536 ^ 16 = 2 * p25519 + 38" "38 < p25519" by (simp_all add: p25519_def)
  have "0 \<le> ?T1" "?T1 \<le> T" using assms p25519_pos by (simp_all add: less_imp_le)
  then have T1: "0 \<le> ?T1" "?T1 < 65536 ^ 16" using assms by linarith+
  have T2: "0 \<le> ?T2" "?T2 < p25519" using assms M by auto
  have "?T2 mod p25519 = T mod p25519" by simp
  then have "?T2 = T mod p25519" using T2 by simp
  then show ?thesis
    by (simp only: pack_round_exact [OF assms] pack_round_exact [OF T1])
qed

lemma bytes_of_limb: "n mod 65536 div 256 = n div 256 mod (256 :: int)"
  using zmod_zmult2_eq [of 256 n 256] by simp

lemma digits_bytes:
  "concat (map (\<lambda>x. [store_u8 (bit_and x (Num 255)), store_u8 (bit_sar x 8)]) (map Num (digits k n))) =
    bigIntToBytesLE n (2 * k)"
proof (induction k arbitrary: n)
  case (Suc k)
  let ?d = "n mod 65536"
  have "0 \<le> ?d" "?d < 65536" by simp_all
  moreover have "0 \<le> ?d mod 256" "?d mod 256 < 256" by simp_all
  ultimately have "int32_range (?d AND 255)" "int32_range ?d"
    unfolding int32_range_def and_255_int by linarith+
  then have "store_u8 (bit_and (Num ?d) (Num 255)) = word_of_int (n AND 255)"
      "store_u8 (bit_sar (Num ?d) 8) = word_of_int (n div 256 AND 255)"
    by (simp_all add: store_u8_def bit_and_num bit_sar_num and_255_int mod_mod_cancel
        bytes_of_limb)
  then show ?case by (simp add: Suc.IH drop_bit_eq_div del: map_map flip: zdiv_zmult2_eq)
qed simp

text \<open>\<open>fePack\<close> writes the representative below the modulus, for every element with small limbs.\<close>

lemma fePack_value:
  assumes "fe_bound B n" "B \<le> 140737488355328"
  shows "fePack n = bigIntToBytesLE (fe_val n mod p25519) 32"
proof -
  have "fe_bound (max B 131072) n" using assms(1) by (rule fe_bound_mono) simp
  then obtain T where T: "feCarry (feCarry (feCarry n)) = map Num (digits 16 T)"
    "0 \<le> T" "T < 65536 ^ 16" "T mod p25519 = fe_val n mod p25519"
    by (rule third_carry) (use assms(2) in simp_all)
  show ?thesis
    unfolding fePack_def Let_def T(1) two_rounds [OF T(2,3)]
    using digits_bytes [of 16 "T mod p25519"] T(4) by simp
qed


lemma length_bigIntToBytesLE [simp]: "length (bigIntToBytesLE n k) = k"
  by (induction k arbitrary: n) simp_all

lemma bytesToBigIntLE_Cons [simp]:
  "bytesToBigIntLE [] = 0" "bytesToBigIntLE (b # bs) = uint b + 256 * bytesToBigIntLE bs"
  by (simp_all add: bytesToBigIntLE_def push_bit_eq_mult)

lemma uint_low_byte: "uint (word_of_int (n AND 255) :: byte) = n mod 256"
  by (simp add: and_255_int uint_word_of_int)

lemma bytes_int_roundtrip: "bytesToBigIntLE (bigIntToBytesLE n k) = n mod 256 ^ k"
proof (induction k arbitrary: n)
  case (Suc k)
  have "n mod (256 * 256 ^ k) = 256 * (n div 256 mod 256 ^ k) + n mod 256"
    by (rule zmod_zmult2_eq) simp
  then show ?case by (simp add: Suc.IH uint_low_byte drop_bit_eq_div)
qed simp

lemma int_bytes_roundtrip: "bigIntToBytesLE (bytesToBigIntLE bs) (length bs) = bs"
proof (induction bs)
  case (Cons b bs)
  have b: "0 \<le> uint b" "uint b < 256" using uint_bounded [of b] by simp_all
  then have "(uint b + 256 * bytesToBigIntLE bs) mod 256 = uint b"
      "(uint b + 256 * bytesToBigIntLE bs) div 256 = bytesToBigIntLE bs"
    by (simp_all add: div_add1_eq)
  then show ?case by (simp add: Cons and_255_int drop_bit_eq_div)
qed simp

lemma bytesToBigIntLE_range: "0 \<le> bytesToBigIntLE bs \<and> bytesToBigIntLE bs < 256 ^ length bs"
proof (induction bs)
  case (Cons b bs)
  have "0 \<le> uint b" "uint b < 256" using uint_bounded [of b] by simp_all
  with Cons show ?case by (simp; linarith)
qed simp

lemma push_bit_or_add: "0 \<le> b \<Longrightarrow> b < 2 ^ n \<Longrightarrow> push_bit n a OR b = push_bit n a + (b :: int)"
proof -
  assume b: "0 \<le> b" "b < 2 ^ n"
  have "push_bit n a AND take_bit n b = 0"
    by (rule bit_eqI) (auto simp: bit_and_iff bit_push_bit_iff bit_take_bit_iff)
  moreover have "take_bit n b = b" using b by (simp add: take_bit_int_eq_self)
  ultimately show ?thesis by (simp add: disjunctive_add_eq_or)
qed

lemma push_or_byte: "push_bit 8 r OR uint (b :: byte) = uint b + 256 * r"
  using uint_bounded [of b] by (subst push_bit_or_add) (simp_all add: push_bit_eq_mult)

lemma feToBigInt_value:
  assumes "fe_bound B a" "B \<le> 140737488355328"
  shows "feToBigInt a = fe_val a mod p25519"
proof -
  have "foldr (\<lambda>b r. push_bit 8 r OR uint b) bs 0 = bytesToBigIntLE bs" for bs :: bytes
    by (induction bs) (simp_all only: foldr.simps comp_apply push_or_byte bytesToBigIntLE_Cons id_apply)
  moreover have "0 \<le> fe_val a mod p25519" "fe_val a mod p25519 < p25519" by simp_all
  then have "fe_val a mod p25519 mod 256 ^ 32 = fe_val a mod p25519" 
    by (intro mod_pos_pos_trivial) (simp_all add: p25519_def)
  ultimately show ?thesis
    unfolding feToBigInt_def fePack_value [OF assms] by (simp only: bytes_int_roundtrip)
qed

lemma limbs_of_digits: "limbs_of k n = map Num (digits k n)"
  by (induction k arbitrary: n) (simp_all add: and_65535_int drop_bit_eq_div)

lemma fe_bound_digits: "fe_bound 65535 (map Num (digits 16 n))"
  by (auto simp: fe_bound_def list_all_iff dest: digits_range)

lemma feFromBigInt_value:
  "fe_bound 65535 (feFromBigInt n)" "fe_val (feFromBigInt n) = n mod 2 ^ 256"
  using limb_val_digits [of 16 n] by (simp_all add: feFromBigInt_def limbs_of_digits fe_bound_digits)


subsection \<open>Reading bytes\<close>

lemma limb_val_append: "limb_val (xs @ ys) = limb_val xs + 65536 ^ length xs * limb_val ys"
  by (induction xs) (simp_all add: algebra_simps)

lemma bit_shl_byte: "0 \<le> x \<Longrightarrow> x < 256 \<Longrightarrow> bit_shl (Num x) 8 = Num (x * 256)"
proof -
  assume x: "0 \<le> x" "x < 256"
  have "push_bit 8 (word_of_int x :: 32 word) = word_of_int (x * 256)"
    by (simp add: push_bit_eq_mult)
  moreover have "int32_range (x * 256)" using x by (simp add: int32_range_def)
  ultimately show ?thesis
    by (simp only: bit_shl_def to_int32_def of_int32_def jsnum.sel sint_word_of_int32)
qed

lemma limb_of_bytes:
  "bit_or (load_u8 a) (bit_shl (load_u8 b) 8) = Num (uint a + 256 * uint b)"
proof -
  have r: "0 \<le> uint a" "uint a < 256" "0 \<le> uint b" "uint b < 256"
    using uint_bounded [of a] uint_bounded [of b] by simp_all
  have "uint a OR uint b * 256 = uint a + 256 * uint b"
    using push_or_byte [of "uint b" a] by (simp add: push_bit_eq_mult or.commute)
  moreover have "int32_range (uint a + 256 * uint b)"
    unfolding int32_range_def using r by linarith
  ultimately show ?thesis
    using r by (simp add: load_u8_def bit_shl_byte bit_or_num)
qed

lemma byte_pairs_digits:
  "length bs = 2 * k \<Longrightarrow>
    map (\<lambda>i. uint (bs ! (2 * i)) + 256 * uint (bs ! (2 * i + 1))) [0..<k] = digits k (bytesToBigIntLE bs)"
proof (induction k arbitrary: bs)
  case (Suc k)
  then obtain a b cs where bs: "bs = a # b # cs" "length cs = 2 * k"
    by (cases bs; cases "tl bs") auto
  have r: "0 \<le> uint a + 256 * uint b" "uint a + 256 * uint b < 65536"
    using uint_bounded [of a] uint_bounded [of b] by simp_all
  have "bytesToBigIntLE bs = limb_val [uint a + 256 * uint b, bytesToBigIntLE cs]"
    by (simp add: bs)
  then have "digits (Suc k) (bytesToBigIntLE bs) =
      (uint a + 256 * uint b) # digits k (bytesToBigIntLE cs)"
    using r by (simp only: digits_limb_Cons) simp
  with Suc.IH [OF bs(2)] show ?case
    by (simp add: bs upt_conv_Cons comp_def flip: map_Suc_upt del: upt_Suc)
qed simp

text \<open>\<open>feFromBytes\<close> ignores the top bit.\<close>

lemma feFromBytes_value:
  assumes "length s = 32"
  shows "fe_bound 65535 (feFromBytes s)" "fe_val (feFromBytes s) = bytesToBigIntLE s mod 2 ^ 255"
proof -
  let ?n = "bytesToBigIntLE s"
  have "map (\<lambda>i. bit_or (load_u8 (s ! (2 * i))) (bit_shl (load_u8 (s ! (2 * i + 1))) 8)) [0..<16] =
      map Num (digits 16 ?n)"
    using arg_cong [OF byte_pairs_digits [of s 16], of "map Num"] assms
    by (simp only: limb_of_bytes map_map comp_def)
  also have "digits 16 ?n = digits 15 ?n @ [?n div 65536 ^ 15 mod 65536]"
    using digits_snoc [of 15 ?n] by (simp del: digits.simps)
  finally have limbs: "feFromBytes s = map Num (digits 15 ?n @ [?n div 65536 ^ 15 mod 65536 mod 32768])"
    unfolding feFromBytes_def Let_def by (simp add: nth_append list_update_append low_15)
  have "0 \<le> ?n div 65536 ^ 15 mod 65536 mod 32768" "?n div 65536 ^ 15 mod 65536 mod 32768 < 32768"
    by simp_all
  then show "fe_bound 65535 (feFromBytes s)"
    unfolding limbs fe_bound_def by (auto simp: list_all_iff dest: digits_range)
  have "?n mod (65536 ^ 15 * 32768) = 65536 ^ 15 * (?n div 65536 ^ 15 mod 32768) + ?n mod 65536 ^ 15"
    by (rule zmod_zmult2_eq) simp
  then show "fe_val (feFromBytes s) = ?n mod 2 ^ 255"
    unfolding limbs fe_val_map_Num limb_val_append limb_val_digits by (simp add: mod_mod_cancel)
qed

end
