(* ===== verification/Edwards.thy ===== *)
theory Edwards
  imports FieldElement
begin

text \<open>
  The curve arithmetic of XEdDSA: \<open>src/crypto/math/edwards.ts\<close>, \<open>mod.ts\<close> and \<open>constants.ts\<close>.  The
  scratch elements that the source shares between its point operations are read before they are
  overwritten, so the operations are functions of their arguments.

  The lemmas show that the remainder is the one of the group order whatever the sign, and that the
  recoded scalar has the value of the scalar, digits the table covers, and fits in its buffer.
\<close>

subsection \<open>constants.ts and mod.ts\<close>

definition GROUP_L :: int where
  "GROUP_L = 2 ^ 252 + 27742317777372353535851937790883648493"

definition FE_TWO_D :: fe where
  "FE_TWO_D = feFromBigInt 16295367250680780974490674513165176452449235426866156013048779062215315747161"

definition FE_ONE :: fe where
  "FE_ONE = feFromBigInt 1"

record extended_point =
  pt_x :: fe
  pt_y :: fe
  pt_z :: fe
  pt_t :: fe

definition BASE_POINT :: extended_point where
  "BASE_POINT = \<lparr>
     pt_x = feFromBigInt 15112221349535400772501151409588531511454012693041857206046113283949847762202,
     pt_y = feFromBigInt 46316835694926478169428394003475163141307993866256225615783033603165251855960,
     pt_z = feFromBigInt 1,
     pt_t = feFromBigInt 46827403850823179245072216630277197565144205554125654976674165829533817101731\<rparr>"

definition IDENTITY_POINT :: extended_point where
  "IDENTITY_POINT = \<lparr>pt_x = feFromBigInt 0, pt_y = feFromBigInt 1, pt_z = feFromBigInt 1, pt_t = feFromBigInt 0\<rparr>"

text \<open>\<open>%\<close> on BigInts takes the sign of the dividend.\<close>

definition mod_js :: "int \<Rightarrow> int \<Rightarrow> int" where
  "mod_js v modulus =
    (let remainder = sgn v * (\<bar>v\<bar> mod \<bar>modulus\<bar>)
     in if 0 \<le> remainder then remainder else remainder + modulus)"

definition modGroup :: "int \<Rightarrow> int" where
  "modGroup v = mod_js v GROUP_L"

subsection \<open>edwards.ts\<close>

definition addPointInto :: "extended_point \<Rightarrow> extended_point \<Rightarrow> extended_point" where
  "addPointInto a b =
    (let aTerm = feMul (feSub (pt_y a) (pt_x a)) (feSub (pt_y b) (pt_x b));
         bTerm = feMul (feAdd (pt_y a) (pt_x a)) (feAdd (pt_y b) (pt_x b));
         cTerm = feMul (feMul FE_TWO_D (pt_t a)) (pt_t b);
         dTerm = feMul (feAdd (pt_z a) (pt_z a)) (pt_z b);
         eTerm = feSub bTerm aTerm;
         fTerm = feSub dTerm cTerm;
         gTerm = feAdd dTerm cTerm;
         hTerm = feAdd bTerm aTerm
     in \<lparr>pt_x = feMul eTerm fTerm, pt_y = feMul gTerm hTerm, pt_z = feMul fTerm gTerm, pt_t = feMul eTerm hTerm\<rparr>)"

definition doublePointInto :: "extended_point \<Rightarrow> extended_point" where
  "doublePointInto p =
    (let aTerm = feMul (pt_x p) (pt_x p);
         bTerm = feMul (pt_y p) (pt_y p);
         c = feMul (pt_z p) (pt_z p);
         cTerm = feAdd c c;
         dTerm = feNeg aTerm;
         e = feAdd (pt_x p) (pt_y p);
         eTerm = feSub (feMul e e) (feAdd aTerm bTerm);
         gTerm = feAdd dTerm bTerm;
         fTerm = feSub gTerm cTerm;
         hTerm = feSub dTerm bTerm
     in \<lparr>pt_x = feMul eTerm fTerm, pt_y = feMul gTerm hTerm, pt_z = feMul fTerm gTerm, pt_t = feMul eTerm hTerm\<rparr>)"

definition negatePointInto :: "extended_point \<Rightarrow> extended_point" where
  "negatePointInto p = \<lparr>pt_x = feNeg (pt_x p), pt_y = pt_y p, pt_z = pt_z p, pt_t = feNeg (pt_t p)\<rparr>"

text \<open>The table of the odd multiples of the base point.\<close>

fun odd_multiples :: "nat \<Rightarrow> extended_point \<Rightarrow> extended_point \<Rightarrow> extended_point list" where
  "odd_multiples 0 dbl p = []"
| "odd_multiples (Suc n) dbl p = p # odd_multiples n dbl (addPointInto p dbl)"

definition precomp :: "extended_point list" where
  "precomp = odd_multiples 16 (doublePointInto BASE_POINT) BASE_POINT"

text \<open>The loop that recodes the scalar; the list is \<open>naf[0 .. nafLen - 1]\<close>.\<close>

function naf_digits :: "int \<Rightarrow> int list" where
  "naf_digits k =
    (if k \<le> 0 then []
     else if k AND 1 = 1 then
       let d = k AND 31; digit = (if 16 \<le> d then d - 32 else d)
       in digit # naf_digits (drop_bit 1 (k - digit))
     else 0 # naf_digits (drop_bit 1 k))"
  by auto

definition loop_step :: "int \<Rightarrow> extended_point \<Rightarrow> extended_point" where
  "loop_step digit result =
    (let dbl = doublePointInto result
     in if 0 < digit then addPointInto dbl (precomp ! nat (drop_bit 1 (digit - 1)))
        else if digit < 0 then addPointInto dbl (negatePointInto (precomp ! nat (drop_bit 1 (- digit - 1))))
        else dbl)"

subsection \<open>The recoded scalar\<close>

lemma modGroup_eq: "modGroup v = v mod GROUP_L"
proof -
  have L: "0 < GROUP_L" by (simp add: GROUP_L_def)
  consider "v = 0" | "0 < v" | "v < 0" by linarith
  then show ?thesis
  proof cases
    case 3
    have m: "0 \<le> - v mod GROUP_L" "- v mod GROUP_L < GROUP_L" using L by simp_all
    have "v mod GROUP_L = (if - v mod GROUP_L = 0 then 0 else GROUP_L - - v mod GROUP_L)"
      using zmod_zminus1_eq_if [of "- v" GROUP_L] by simp
    moreover have "- v mod GROUP_L = 0 \<or> 0 < - v mod GROUP_L" using m(1) by linarith
    ultimately show ?thesis using 3 L by (auto simp: modGroup_def mod_js_def Let_def)
  qed (use L in \<open>simp_all add: modGroup_def mod_js_def Let_def\<close>)
qed

lemma and_31_int: "(k :: int) AND 31 = k mod 32"
  using take_bit_eq_mask [of 5 k] by (simp add: take_bit_eq_mod mask_eq_exp_minus_1)

lemma odd_digit:
  fixes k :: int
  assumes "k mod 2 = 1" "0 < k"
  defines "digit \<equiv> (if 16 \<le> k mod 32 then k mod 32 - 32 else k mod 32)"
  shows "odd digit" "- 16 < digit" "digit < 16" "32 dvd k - digit" "0 \<le> k - digit" "k - digit < 2 * k"
proof -
  have "k mod 32 mod 2 = k mod 2" by (simp add: mod_mod_cancel)
  then have o: "odd (k mod 32)" using assms(1) by (metis odd_iff_mod_2_eq_one)
  have r: "0 \<le> k mod 32" "k mod 32 < 32" by simp_all
  have "k mod 32 \<noteq> 16" using o by auto
  then show "odd digit" "- 16 < digit" "digit < 16" using o r by (auto simp: digit_def)
  have k: "k - digit = 32 * (k div 32 + (if 16 \<le> k mod 32 then 1 else 0))"
    by (simp add: digit_def minus_mod_eq_mult_div [symmetric])
  then show "32 dvd k - digit" by (metis dvd_triv_left)
  have "0 \<le> k div 32" using assms(2) by simp
  moreover have "k = 32 * (k div 32) + k mod 32" by simp
  ultimately show "0 \<le> k - digit" "k - digit < 2 * k"
    unfolding k using r assms(2) \<open>k mod 32 \<noteq> 16\<close> by (auto split: if_splits; linarith)+
qed

termination naf_digits
proof (relation "measure nat")
  fix k d digit :: int
  assume k: "\<not> k \<le> 0" "k AND 1 = 1" "d = k AND 31" "digit = (if 16 \<le> d then d - 32 else d)"
  then have "k mod 2 = 1" "0 < k" "digit = (if 16 \<le> k mod 32 then k mod 32 - 32 else k mod 32)"
    by (simp_all add: and_one_eq and_31_int)
  then have "k - digit < 2 * k" "0 < k" using odd_digit(6) [of k] by simp_all
  then show "(drop_bit 1 (k - digit), k) \<in> measure nat"
    by (simp add: drop_bit_eq_div del: minus_less_iff)
qed (auto simp: drop_bit_eq_div)

declare naf_digits.simps [simp del]

lemma naf_digits_cases:
  obtains "k \<le> 0" "naf_digits k = []"
  | "0 < k" "even k" "naf_digits k = 0 # naf_digits (k div 2)"
  | digit where "0 < k" "odd k" "odd digit" "- 16 < digit" "digit < 16" "32 dvd k - digit" "0 \<le> k - digit"
      "k - digit < 2 * k" "naf_digits k = digit # naf_digits ((k - digit) div 2)"
proof -
  consider "k \<le> 0" | "0 < k" "even k" | "0 < k" "odd k" by linarith
  then show thesis
  proof cases
    case 1
    then show thesis using that(1) by (simp add: naf_digits.simps)
  next
    case 2
    then show thesis
      using that(2) by (simp add: naf_digits.simps [of k] and_one_eq drop_bit_eq_div even_iff_mod_2_eq_zero)
  next
    case 3
    let ?digit = "if 16 \<le> k mod 32 then k mod 32 - 32 else k mod 32"
    have "k mod 2 = 1" using 3 by (simp add: odd_iff_mod_2_eq_one)
    then have "naf_digits k = ?digit # naf_digits ((k - ?digit) div 2)"
      using 3 by (simp add: naf_digits.simps [of k] and_one_eq and_31_int drop_bit_eq_div Let_def)
    with 3 odd_digit [OF \<open>k mod 2 = 1\<close> 3(1)] show thesis by (intro that(3))
  qed
qed

lemma naf_digits_value: "0 \<le> k \<Longrightarrow> foldr (\<lambda>digit rest. digit + 2 * rest) (naf_digits k) 0 = k"
proof (induction "nat k" arbitrary: k rule: less_induct)
  case less
  show ?case
  proof (cases k rule: naf_digits_cases)
    case 2
    with less show ?thesis by (simp; fail | auto)
  next
    case (3 digit)
    have "even (k - digit)" using 3 by simp
    then have "2 * ((k - digit) div 2) = k - digit" by simp
    with 3 less(1) [of "(k - digit) div 2"] show ?thesis by simp
  qed (use less in auto)
qed

lemma naf_digits_range: "digit \<in> set (naf_digits k) \<Longrightarrow> digit = 0 \<or> odd digit \<and> \<bar>digit\<bar> < 16"
proof (induction "nat k" arbitrary: k rule: less_induct)
  case less
  show ?case
  proof (cases k rule: naf_digits_cases)
    case (3 d)
    with less(1) [of "(k - d) div 2"] less(2) show ?thesis by auto
  next
    case 2
    with less(1) [of "k div 2"] less(2) show ?thesis by auto
  qed (use less(2) in simp)
qed

lemma naf_digits_length: "k \<le> 2 ^ n \<Longrightarrow> length (naf_digits k) \<le> n + 1"
proof (induction n arbitrary: k)
  case 0
  show ?case
  proof (cases k rule: naf_digits_cases)
    case (3 digit)
    then have "k = 1" using 0 by simp
    then show ?thesis by (simp add: naf_digits.simps)
  qed (use 0 in auto)
next
  case (Suc n)
  show ?case
  proof (cases k rule: naf_digits_cases)
    case 2
    with Suc.IH [of "k div 2"] Suc.prems show ?thesis by simp
  next
    case (3 digit)
    have "k - digit \<le> 2 ^ Suc n"
    proof (cases "n < 4")
      case True
      then have "(2 :: int) ^ Suc n \<le> 2 ^ 4" by (intro power_increasing) simp_all
      then have "k < 16" using Suc.prems 3(2) by (cases "k = 16") auto
      then have "k - digit < 32" using 3 by simp
      then have "k - digit = 0" using 3(6,7) zdvd_imp_le [of 32 "k - digit"] by (cases "k - digit = 0") auto
      then show ?thesis by simp
    next
      case False
      then have "(32 :: int) dvd 2 ^ Suc n" using le_imp_power_dvd [of 5 "Suc n" "2 :: int"] by simp
      then obtain a b where ab: "k - digit = 32 * a" "(2 :: int) ^ Suc n = 32 * b" using 3(6) by (auto elim!: dvdE)
      have "k - digit < 2 ^ Suc n + 32" using Suc.prems 3(4) by simp
      then show ?thesis unfolding ab by simp
    qed
    then have "(k - digit) div 2 \<le> 2 ^ n" by simp
    with Suc.IH 3(9) show ?thesis by simp
  qed simp
qed

subsection \<open>Multiples of the base point\<close>

definition scalarMultBase :: "int \<Rightarrow> extended_point" where
  "scalarMultBase scalar =
    (let k = modGroup scalar
     in if k = 0 then IDENTITY_POINT else foldr loop_step (naf_digits k) IDENTITY_POINT)"

definition encodeExtendedPoint :: "extended_point \<Rightarrow> bytes" where
  "encodeExtendedPoint p =
    (let zinv = feInv (pt_z p);
         x = feMul (pt_x p) zinv;
         y = feMul (pt_y p) zinv;
         encoded = fePack y;
         xBytes = fePack x
     in encoded[31 := (encoded ! 31 AND 0x7f) OR push_bit 7 (xBytes ! 0 AND 1)])"

end
