(* ===== verification/XEdDSA.thy ===== *)
theory XEdDSA
  imports FieldPack Edwards ByteUtils
begin

text \<open>
  Signatures with Curve25519 keys: the conversion of \<open>src/crypto/curves/X25519.ts\<close> and
  \<open>src/crypto/core/xeddsa.ts\<close> without a native module.  SHA-512 and the Ed25519 verification of
  \<open>node:crypto\<close> are parameters.  The cache of derived public keys, which is keyed by the identity of
  the buffer of the private key, is left out.

  The lemmas say what the conversion, the multiples of the base point and their encoding compute, as
  arithmetic modulo \<open>2\<^sup>2\<^sup>5\<^sup>5 - 19\<close>: no limb is ever rounded.
\<close>

subsection \<open>X25519.ts\<close>

datatype xeddsa_error = InvalidKeyLength nat | LowOrderPublicKey | VerifyFailed

definition isFieldPMinus1 :: "bytes \<Rightarrow> bool" where
  "isFieldPMinus1 b =
    (if b ! 0 \<noteq> 0xec \<or> b ! 31 AND 0x7f \<noteq> 0x7f then False else list_all (\<lambda>i. b ! i = 0xff) [1..<31])"

definition clampCurvePrivateKeyInPlace :: "bytes \<Rightarrow> xeddsa_error + bytes" where
  "clampCurvePrivateKeyInPlace key =
    (case assertByteLength key 32 of
       Inl _ \<Rightarrow> Inl (InvalidKeyLength (length key))
     | Inr _ \<Rightarrow>
         let k1 = key[0 := key ! 0 AND 248]; k2 = k1[31 := k1 ! 31 AND 127]
         in Inr (k2[31 := k2 ! 31 OR 64]))"

definition montgomeryToEdwardsPublic :: "bytes \<Rightarrow> byte \<Rightarrow> xeddsa_error + bytes" where
  "montgomeryToEdwardsPublic curvePublicKey signBit =
    (case assertByteLength curvePublicKey 32 of
       Inl _ \<Rightarrow> Inl (InvalidKeyLength (length curvePublicKey))
     | Inr _ \<Rightarrow>
         if isFieldPMinus1 curvePublicKey then Inl LowOrderPublicKey
         else
           let x = feFromBytes curvePublicKey;
               m1 = feSub x FE_ONE;
               m2 = feAdd x FE_ONE;
               m3 = feInv m2;
               encoded = fePack (feMul m1 m3)
           in Inr (encoded[31 := (encoded ! 31 AND 0x7f) OR (signBit AND 0x80)]))"

subsection \<open>xeddsa.ts\<close>

text \<open>
  The signature of a message: the result and the buffer of the private key, which is clamped in place.
  \<open>randomSuffix\<close> is what \<open>randomBytesAsync(64)\<close> returns.
\<close>

definition PREFIX_SIGNATURE_RANDOM :: bytes where
  "PREFIX_SIGNATURE_RANDOM = 0xfe # replicate 31 0xff"

definition derivePublicForSigning :: "bytes \<Rightarrow> xeddsa_error + bytes \<times> int \<times> bytes \<times> byte" where
  "derivePublicForSigning privateKey =
    rbind (clampCurvePrivateKeyInPlace privateKey) (\<lambda>clamped.
      let privateScalar = bytesToBigIntLE clamped;
          encodedPublic = encodeExtendedPoint (scalarMultBase privateScalar)
      in Inr (clamped, privateScalar, encodedPublic, encodedPublic ! 31 AND 0x80))"

definition xeddsa_sign :: "(bytes list \<Rightarrow> bytes) \<Rightarrow> bytes \<Rightarrow> bytes \<Rightarrow> bytes \<Rightarrow> xeddsa_error + bytes \<times> bytes" where
  "xeddsa_sign sha512 randomSuffix privateKey message =
    (case assertByteLength privateKey 32 of
       Inl _ \<Rightarrow> Inl (InvalidKeyLength (length privateKey))
     | Inr _ \<Rightarrow>
         rbind (derivePublicForSigning privateKey) (\<lambda>(clamped, privateScalar, encodedPublic, pubKeySignBit).
           let r = modGroup (bytesToBigIntLE (sha512 [PREFIX_SIGNATURE_RANDOM, clamped, message, randomSuffix]));
               encodedR = encodeExtendedPoint (scalarMultBase r);
               h = modGroup (bytesToBigIntLE (sha512 [encodedR, encodedPublic, message]));
               s = modGroup (r + h * privateScalar);
               encodedS = bigIntToBytesLE s 32;
               encodedS' = encodedS[31 := (encodedS ! 31 AND 0x7f) OR pubKeySignBit]
           in Inr (concatBytes [encodedR, encodedS'], clamped)))"

text \<open>
  The verdict and the buffer of the signature afterwards; \<open>ed_verify\<close> is \<open>Ed25519.verify\<close> on message,
  signature and key, \<open>None\<close> when it rejects.  The conversion of the key stands outside the \<open>try\<close> whose
  \<open>finally\<close> restores the last byte.
\<close>

definition xeddsa_verify ::
    "(bytes \<Rightarrow> bytes \<Rightarrow> bytes \<Rightarrow> bool option) \<Rightarrow> bytes \<Rightarrow> bytes \<Rightarrow> bytes \<Rightarrow> (xeddsa_error + bool) \<times> bytes" where
  "xeddsa_verify ed_verify curvePublicKey message signature =
    (if length signature \<noteq> 64 then (Inr False, signature)
     else if signature ! 63 AND 0x60 \<noteq> 0 then (Inr False, signature)
     else
       let originalLastByte = signature ! 63;
           signBit = originalLastByte AND 0x80;
           cleared = signature[63 := originalLastByte AND 0x7f]
       in case montgomeryToEdwardsPublic curvePublicKey signBit of
            Inl e \<Rightarrow> (Inl e, cleared)
          | Inr edPublic \<Rightarrow>
              (case ed_verify message cleared edPublic of None \<Rightarrow> Inl VerifyFailed | Some b \<Rightarrow> Inr b,
               cleared[63 := originalLastByte]))"

subsection \<open>Bytes and their integers\<close>

lemma single_bit: "(s :: byte) AND 2 ^ n = (if bit s n then 2 ^ n else 0)"
  by (rule bit_word_eqI) (auto simp: bit_and_iff bit_exp_iff)

lemma sign_bit: "(s :: byte) AND 0x80 = (if bit s 7 then 0x80 else 0)"
  using single_bit [of s 7] by simp

lemma low_bits: "uint ((b :: byte) AND 0x7f) = uint b mod 128"
  using take_bit_eq_mask [of 7 "uint b"] by (simp add: uint_and take_bit_eq_mod mask_eq_exp_minus_1)

lemma bytesToBigIntLE_append:
  "bytesToBigIntLE (xs @ ys) = bytesToBigIntLE xs + 256 ^ length xs * bytesToBigIntLE ys"
  by (induction xs) (simp_all add: algebra_simps)

lemma bytesToBigIntLE_inject:
  "length xs = length ys \<Longrightarrow> bytesToBigIntLE xs = bytesToBigIntLE ys \<longleftrightarrow> xs = ys"
  using int_bytes_roundtrip by metis

lemma bytes_32: "length (b :: bytes) = 32 \<Longrightarrow> b = take 31 b @ [b ! 31]"
  using take_Suc_conv_app_nth [of 31 b] by simp

text \<open>The top bit of the last byte is bit 255 of the integer.\<close>

lemma bytesToBigIntLE_top:
  assumes "length b = 32"
  shows "bytesToBigIntLE (b[31 := b ! 31 AND 0x7f]) = bytesToBigIntLE b mod 2 ^ 255"
proof -
  let ?a = "bytesToBigIntLE (take 31 b)" and ?t = "uint (b ! 31)"
  have "b[31 := b ! 31 AND 0x7f] = take 31 b @ [b ! 31 AND 0x7f]"
    using assms by (subst bytes_32 [OF assms]) (simp add: list_update_append)
  then have "bytesToBigIntLE (b[31 := b ! 31 AND 0x7f]) = ?a + 256 ^ 31 * (?t mod 128)"
    using assms by (simp add: bytesToBigIntLE_append low_bits)
  also have "\<dots> = (?a + 256 ^ 31 * ?t) mod (256 ^ 31 * 128)"
  proof -
    have "0 \<le> ?a" "?a < 256 ^ 31" using bytesToBigIntLE_range [of "take 31 b"] assms by simp_all
    then have "(?a + 256 ^ 31 * ?t) mod 256 ^ 31 = ?a" "(?a + 256 ^ 31 * ?t) div 256 ^ 31 = ?t"
      by simp_all
    then show ?thesis using zmod_zmult2_eq [of 128 "?a + 256 ^ 31 * ?t" "256 ^ 31"] by simp
  qed
  also have "?a + 256 ^ 31 * ?t = bytesToBigIntLE b"
    using assms by (subst (3) bytes_32 [OF assms]) (simp add: bytesToBigIntLE_append)
  finally show ?thesis by simp
qed

text \<open>\<open>isFieldPMinus1\<close> compares the bytes of \<open>2\<^sup>2\<^sup>5\<^sup>5 - 20\<close>, whatever the top bit.\<close>

lemma bytesToBigIntLE_ff: "bytesToBigIntLE (replicate n 0xff) = 256 ^ n - 1"
  by (induction n) simp_all

lemma isFieldPMinus1_iff:
  assumes "length b = 32"
  shows "isFieldPMinus1 b \<longleftrightarrow> bytesToBigIntLE b mod 2 ^ 255 = p25519 - 1"
proof -
  let ?p = "0xec # replicate 30 0xff @ [0x7f] :: bytes"
  have p: "bytesToBigIntLE ?p = p25519 - 1" "length ?p = 32"
    by (simp_all add: bytesToBigIntLE_append bytesToBigIntLE_ff p25519_def)
  have "bytesToBigIntLE b mod 2 ^ 255 = p25519 - 1 \<longleftrightarrow> b[31 := b ! 31 AND 0x7f] = ?p"
    unfolding bytesToBigIntLE_top [OF assms, symmetric] p(1) [symmetric]
    using assms p(2) by (intro bytesToBigIntLE_inject) simp
  also have "\<dots> \<longleftrightarrow> (\<forall>i < 32. b[31 := b ! 31 AND 0x7f] ! i = ?p ! i)"
    using assms p(2) by (auto simp: list_eq_iff_nth_eq)
  also have "\<dots> \<longleftrightarrow> isFieldPMinus1 b"
  proof -
    have nth: "?p ! 0 = 0xec" "?p ! 31 = 0x7f" "\<And>i. 0 < i \<Longrightarrow> i < 31 \<Longrightarrow> ?p ! i = 0xff"
      by (auto simp: nth_Cons nth_append split: nat.split)
    have "i < 32 \<longleftrightarrow> i = 0 \<or> i = 31 \<or> i \<in> set [1..<31]" for i :: nat by auto
    then have "(\<forall>i < 32. P i) \<longleftrightarrow> P 0 \<and> P 31 \<and> (\<forall>i \<in> set [1..<31]. P i)" for P :: "nat \<Rightarrow> bool"
      by (simp only:) (auto simp del: set_upt)
    then show ?thesis
      unfolding isFieldPMinus1_def using nth assms by (auto simp: list_all_iff)
  qed
  finally show ?thesis by simp
qed

text \<open>Setting the sign bit of an encoded number below \<open>2\<^sup>2\<^sup>5\<^sup>5\<close>.\<close>

lemma encode_sign:
  assumes "0 \<le> y" "y < 2 ^ 255"
  shows "(bigIntToBytesLE y 32)[31 := (bigIntToBytesLE y 32 ! 31 AND 0x7f) OR (if sign then 0x80 else 0)] =
    bigIntToBytesLE (y + (if sign then 2 ^ 255 else 0)) 32" (is "?l = ?r")
proof -
  let ?b = "bigIntToBytesLE y 32"
  let ?c = "?b[31 := ?b ! 31 AND 0x7f]" and ?t = "?b ! 31 AND 0x7f"
  have b: "length ?b = 32" "bytesToBigIntLE ?b = y"
    using bytes_int_roundtrip [of y 32] assms by simp_all
  have c: "bytesToBigIntLE ?c = y" using bytesToBigIntLE_top [OF b(1)] b(2) assms by simp
  have or: "uint (?t OR (if sign then 0x80 else 0)) = uint ?t + (if sign then 128 else 0)"
  proof -
    have "0 \<le> uint ?t" "uint ?t < 2 ^ 7" by (simp_all add: low_bits)
    then show ?thesis using push_bit_or_add [of "uint ?t" 7 1] by (auto simp: uint_or or.commute push_bit_eq_mult)
  qed
  have last: "bytesToBigIntLE (?b[31 := v]) = bytesToBigIntLE (take 31 ?b) + 256 ^ 31 * uint v" for v
    using b(1) by (subst bytes_32 [OF b(1)]) (simp add: list_update_append bytesToBigIntLE_append)
  have "bytesToBigIntLE ?l = y + (if sign then 2 ^ 255 else 0)"
    using c unfolding last or by auto
  then have "bigIntToBytesLE (bytesToBigIntLE ?l) (length ?l) = ?r" by simp
  then show ?thesis by (simp only: int_bytes_roundtrip)
qed

subsection \<open>The conversion\<close>

lemma fe_one: "fe_bound 65535 FE_ONE" "fe_val FE_ONE = 1"
  using feFromBigInt_value [of 1] by (simp_all add: FE_ONE_def)

text \<open>A quotient in the field, written out: multiplication with the power \<open>p - 2\<close>.\<close>

lemma fePack_quotient:
  assumes "fe_bound 131146 a" "fe_bound 131146 b"
  shows "fePack (feMul a (feInv b)) =
    bigIntToBytesLE (fe_val a * fe_val b ^ (2 ^ 255 - 21) mod p25519) 32"
proof -
  have inv: "fe_bound 131146 (feInv b)" "fe_val (feInv b) mod p25519 = fe_val b ^ (2 ^ 255 - 21) mod p25519"
    using feInv_pow [OF assms(2)] by (simp_all add: fe_pow_def)
  note mul = feMul_correct [OF assms(1) inv(1)]
  have "fe_val (feMul a (feInv b)) mod p25519 = fe_val a * fe_val (feInv b) mod p25519" using mul(2) by simp
  also have "\<dots> = fe_val a * fe_val b ^ (2 ^ 255 - 21) mod p25519"
    by (metis inv(2) mod_mult_right_eq)
  finally have v: "fe_val (feMul a (feInv b)) mod p25519 = fe_val a * fe_val b ^ (2 ^ 255 - 21) mod p25519" .
  have "fe_bound 131146 (feMul a (feInv b))" using mul(1) by (simp add: carried_bound)
  then show ?thesis using fePack_value [of 131146 "feMul a (feInv b)"] unfolding v by simp
qed

lemma mod_p_range: "0 \<le> n mod p25519" "n mod p25519 < 2 ^ 255"
proof -
  have "n mod p25519 < p25519" by simp
  then show "0 \<le> n mod p25519" "n mod p25519 < 2 ^ 255" by (simp_all add: p25519_def)
qed

text \<open>
  C14: \<open>montgomeryToEdwardsPublic\<close>, limb arithmetic in doubles and all, is the birational map of the
  curve: a key of 32 bytes with the coordinate \<open>u\<close> (its top bit ignored) is rejected exactly when
  \<open>u = p - 1\<close>, and otherwise converted to the bytes of \<open>(u - 1) * (u + 1) ^ (p - 2)\<close> modulo
  \<open>p = 2\<^sup>2\<^sup>5\<^sup>5 - 19\<close> with the sign bit on top.
\<close>

theorem montgomery_conversion:
  "montgomeryToEdwardsPublic key signBit =
    (if length key \<noteq> 32 then Inl (InvalidKeyLength (length key))
     else
       let p = 2 ^ 255 - 19; u = bytesToBigIntLE key mod 2 ^ 255
       in if u = p - 1 then Inl LowOrderPublicKey
          else Inr (bigIntToBytesLE
            ((u - 1) * (u + 1) ^ (2 ^ 255 - 21) mod p + (if bit signBit 7 then 2 ^ 255 else 0)) 32))"
proof (cases "length key = 32")
  case True
  let ?u = "bytesToBigIntLE key mod 2 ^ 255"
  let ?y = "(?u - 1) * (?u + 1) ^ (2 ^ 255 - 21) mod p25519"
  note x = feFromBytes_value [OF True]
  have m1: "fe_bound 131146 (feSub (feFromBytes key) FE_ONE)" "fe_val (feSub (feFromBytes key) FE_ONE) = ?u - 1"
    using feSub_correct [OF x(1) fe_one(1)] x(2) fe_one(2) by (auto intro: fe_bound_mono)
  have m2: "fe_bound 131146 (feAdd (feFromBytes key) FE_ONE)" "fe_val (feAdd (feFromBytes key) FE_ONE) = ?u + 1"
    using feAdd_correct [OF x(1) fe_one(1)] x(2) fe_one(2) by (auto intro: fe_bound_mono)
  have "fePack (feMul (feSub (feFromBytes key) FE_ONE) (feInv (feAdd (feFromBytes key) FE_ONE))) =
      bigIntToBytesLE ?y 32"
    using fePack_quotient [OF m1(1) m2(1)] unfolding m1(2) m2(2) .
  then have "montgomeryToEdwardsPublic key signBit =
      (if ?u = p25519 - 1 then Inl LowOrderPublicKey
       else Inr (bigIntToBytesLE (?y + (if bit signBit 7 then 2 ^ 255 else 0)) 32))"
    using True isFieldPMinus1_iff [OF True] encode_sign [OF mod_p_range]
    by (simp only: montgomeryToEdwardsPublic_def assertByteLength_def sign_bit Let_def) simp
  with True show ?thesis unfolding p25519_def by (simp only: Let_def) simp
qed (simp add: montgomeryToEdwardsPublic_def assertByteLength_def)

subsection \<open>Points modulo the prime\<close>

text \<open>
  The point operations as formulas over the integers: the addition law of the curve
  \<open>- x\<^sup>2 + y\<^sup>2 = 1 + d * x\<^sup>2 * y\<^sup>2\<close> in extended coordinates, \<open>x = X / Z\<close>, \<open>y = Y / Z\<close>, \<open>x * y = T / Z\<close>.
\<close>

type_synonym coords = "int \<times> int \<times> int \<times> int"

definition edwards_d :: int where
  "edwards_d = 37095705934669439343138083508754565189542113879843219016388785533085940283555"

fun edwards_add :: "coords \<Rightarrow> coords \<Rightarrow> coords" where
  "edwards_add (x1, y1, z1, t1) (x2, y2, z2, t2) =
    (let e = x1 * y2 + x2 * y1; h = y1 * y2 + x1 * x2;
         f = z1 * z2 - edwards_d * t1 * t2; g = z1 * z2 + edwards_d * t1 * t2
     in (4 * e * f mod p25519, 4 * g * h mod p25519, 4 * f * g mod p25519, 4 * e * h mod p25519))"

fun edwards_double :: "coords \<Rightarrow> coords" where
  "edwards_double (x, y, z, t) =
    (let e = 2 * x * y; g = y\<^sup>2 - x\<^sup>2; f = y\<^sup>2 - x\<^sup>2 - 2 * z\<^sup>2; h = - (x\<^sup>2) - y\<^sup>2
     in (e * f mod p25519, g * h mod p25519, f * g mod p25519, e * h mod p25519))"

fun edwards_neg :: "coords \<Rightarrow> coords" where
  "edwards_neg (x, y, z, t) = (- x, y, z, - t)"

definition base_coords :: coords where
  "base_coords =
    (15112221349535400772501151409588531511454012693041857206046113283949847762202,
     46316835694926478169428394003475163141307993866256225615783033603165251855960, 1,
     46827403850823179245072216630277197565144205554125654976674165829533817101731)"

text \<open>\<open>d\<close> is \<open>- 121665 / 121666\<close>.\<close>

lemma edwards_d_eq: "edwards_d * 121666 mod p25519 = - 121665 mod p25519"
  by (simp add: edwards_d_def p25519_def)

text \<open>The formulas satisfy the law: \<open>(x1 y2 + x2 y1) / (1 + d x1 x2 y1 y2)\<close> and \<open>(y1 y2 + x1 x2) / (1 - d x1 x2 y1 y2)\<close>.\<close>

lemma edwards_add_law:
  assumes "edwards_add (x1, y1, z1, t1) (x2, y2, z2, t2) = (x, y, z, t)"
  shows "x * (z1 * z2 + edwards_d * t1 * t2) mod p25519 = z * (x1 * y2 + x2 * y1) mod p25519"
    "y * (z1 * z2 - edwards_d * t1 * t2) mod p25519 = z * (y1 * y2 + x1 * x2) mod p25519"
    "x * y mod p25519 = z * t mod p25519"
proof -
  define e h f g where "e = x1 * y2 + x2 * y1" and "h = y1 * y2 + x1 * x2"
    and "f = z1 * z2 - edwards_d * t1 * t2" and "g = z1 * z2 + edwards_d * t1 * t2"
  note defs = this
  have r: "x = 4 * e * f mod p25519" "y = 4 * g * h mod p25519" "z = 4 * f * g mod p25519" "t = 4 * e * h mod p25519"
    using assms by (simp_all add: Let_def defs)
  show "x * (z1 * z2 + edwards_d * t1 * t2) mod p25519 = z * (x1 * y2 + x2 * y1) mod p25519"
    "y * (z1 * z2 - edwards_d * t1 * t2) mod p25519 = z * (y1 * y2 + x1 * x2) mod p25519"
    unfolding defs [symmetric] r mod_mult_left_eq by (simp_all only: mult_ac)
  show "x * y mod p25519 = z * t mod p25519"
    unfolding r mod_mult_eq by (simp only: mult_ac)
qed

text \<open>\<open>a\<close> holds the residue of \<open>v\<close>, with limbs bounded by \<open>B\<close>.\<close>

definition fe_is :: "int \<Rightarrow> fe \<Rightarrow> int \<Rightarrow> bool" where
  "fe_is B a v \<longleftrightarrow> fe_bound B a \<and> fe_val a mod p25519 = v mod p25519"

lemma fe_is_mul:
  assumes "fe_is A a v" "fe_is B b w" "608 * (A * B) \<le> 140737488355328"
  shows "fe_is 65573 (feMul a b) (v * w)"
  using feMul_correct [of A a B b] assms by (auto simp: fe_is_def carried_def intro: mod_mult_cong)

lemma fe_is_add:
  assumes "fe_is A a v" "fe_is B b w" "A + B < 9007199254740992"
  shows "fe_is (A + B) (feAdd a b) (v + w)"
  using feAdd_correct [of A a B b] assms by (auto simp: fe_is_def intro: mod_add_cong)

lemma fe_is_sub:
  assumes "fe_is A a v" "fe_is B b w" "A + B < 9007199254740992"
  shows "fe_is (A + B) (feSub a b) (v - w)"
  using feSub_correct [of A a B b] assms by (auto simp: fe_is_def intro: mod_diff_cong)

lemma fe_is_neg: "fe_is A a v \<Longrightarrow> fe_is A (feNeg a) (- v)"
  using feNeg_correct [of A a] unfolding fe_is_def by (metis mod_minus_eq)

lemmas fe_is_bounded =
  fe_is_add [of 65573 _ _ 65573, simplified] fe_is_sub [of 65573 _ _ 65573, simplified]
  fe_is_sub [of 65573 _ _ 131146, simplified] fe_is_sub [of 131146 _ _ 131146, simplified]

lemma fe_is_cong: "fe_is B a v \<Longrightarrow> v mod p25519 = w mod p25519 \<Longrightarrow> fe_is B a w"
  by (simp add: fe_is_def)

lemma fe_is_const: "n mod 2 ^ 256 = n \<Longrightarrow> fe_is 65573 (feFromBigInt n) n"
  using feFromBigInt_value [of n] by (auto simp: fe_is_def intro: fe_bound_mono)

fun point_is :: "extended_point \<Rightarrow> coords \<Rightarrow> bool" where
  "point_is p (x, y, z, t) \<longleftrightarrow>
    fe_is 65573 (pt_x p) x \<and> fe_is 65573 (pt_y p) y \<and> fe_is 65573 (pt_z p) z \<and> fe_is 65573 (pt_t p) t"

lemma fe_is_two_d: "fe_is 65573 FE_TWO_D (2 * edwards_d)"
  unfolding FE_TWO_D_def
  by (rule fe_is_cong [OF fe_is_const]) (simp_all add: edwards_d_def p25519_def)

lemma point_is_add:
  assumes "point_is a c1" "point_is b c2"
  shows "point_is (addPointInto a b) (edwards_add c1 c2)"
proof -
  obtain x1 y1 z1 t1 x2 y2 z2 t2 where c: "c1 = (x1, y1, z1, t1)" "c2 = (x2, y2, z2, t2)"
    by (cases c1; cases c2) auto
  have p: "fe_is 65573 (pt_x a) x1" "fe_is 65573 (pt_y a) y1" "fe_is 65573 (pt_z a) z1" "fe_is 65573 (pt_t a) t1"
    "fe_is 65573 (pt_x b) x2" "fe_is 65573 (pt_y b) y2" "fe_is 65573 (pt_z b) z2" "fe_is 65573 (pt_t b) t2"
    using assms by (simp_all add: c)
  note rules = fe_is_mul fe_is_bounded fe_is_two_d p
  let ?e = "feSub (feMul (feAdd (pt_y a) (pt_x a)) (feAdd (pt_y b) (pt_x b)))
    (feMul (feSub (pt_y a) (pt_x a)) (feSub (pt_y b) (pt_x b)))"
  let ?h = "feAdd (feMul (feAdd (pt_y a) (pt_x a)) (feAdd (pt_y b) (pt_x b)))
    (feMul (feSub (pt_y a) (pt_x a)) (feSub (pt_y b) (pt_x b)))"
  let ?f = "feSub (feMul (feAdd (pt_z a) (pt_z a)) (pt_z b)) (feMul (feMul FE_TWO_D (pt_t a)) (pt_t b))"
  let ?g = "feAdd (feMul (feAdd (pt_z a) (pt_z a)) (pt_z b)) (feMul (feMul FE_TWO_D (pt_t a)) (pt_t b))"
  have e: "fe_is 131146 ?e (2 * (x1 * y2 + x2 * y1))"
    by (rule fe_is_cong, (rule rules | (simp; fail))+) (simp add: algebra_simps)
  have h: "fe_is 131146 ?h (2 * (y1 * y2 + x1 * x2))"
    by (rule fe_is_cong, (rule rules | (simp; fail))+) (simp add: algebra_simps)
  have f: "fe_is 131146 ?f (2 * (z1 * z2 - edwards_d * t1 * t2))"
    by (rule fe_is_cong, (rule rules | (simp; fail))+) (simp add: algebra_simps)
  have g: "fe_is 131146 ?g (2 * (z1 * z2 + edwards_d * t1 * t2))"
    by (rule fe_is_cong, (rule rules | (simp; fail))+) (simp add: algebra_simps)
  have mul: "fe_is 65573 (feMul a b) (4 * v * w mod p25519)" if "fe_is 131146 a (2 * v)" "fe_is 131146 b (2 * w)" for a b v w
  proof -
    have "fe_is 65573 (feMul a b) (2 * v * (2 * w))" using fe_is_mul [OF that] by simp
    then show ?thesis by (rule fe_is_cong) (simp add: mult_ac)
  qed
  show ?thesis
    using mul [OF e f] mul [OF g h] mul [OF f g] mul [OF e h] by (simp add: c addPointInto_def Let_def)
qed

lemma point_is_double:
  assumes "point_is p c"
  shows "point_is (doublePointInto p) (edwards_double c)"
proof -
  obtain x y z t where c: "c = (x, y, z, t)" by (cases c) auto
  have p: "fe_is 65573 (pt_x p) x" "fe_is 65573 (pt_y p) y" "fe_is 65573 (pt_z p) z" "fe_is 65573 (pt_t p) t"
    using assms by (simp_all add: c)
  note rules = fe_is_mul fe_is_bounded fe_is_neg p
  let ?a = "feMul (pt_x p) (pt_x p)" and ?b = "feMul (pt_y p) (pt_y p)" and ?c = "feMul (pt_z p) (pt_z p)"
  let ?e = "feSub (feMul (feAdd (pt_x p) (pt_y p)) (feAdd (pt_x p) (pt_y p))) (feAdd ?a ?b)"
  let ?g = "feAdd (feNeg ?a) ?b" and ?h = "feSub (feNeg ?a) ?b"
  let ?f = "feSub ?g (feAdd ?c ?c)"
  have e: "fe_is 196719 ?e (2 * x * y)"
    by (rule fe_is_cong, (rule rules | (simp; fail))+) (simp add: algebra_simps)
  have g: "fe_is 131146 ?g (y\<^sup>2 - x\<^sup>2)"
    by (rule fe_is_cong, (rule rules | (simp; fail))+) (simp add: algebra_simps power2_eq_square)
  have h: "fe_is 131146 ?h (- (x\<^sup>2) - y\<^sup>2)"
    by (rule fe_is_cong, (rule rules | (simp; fail))+) (simp add: algebra_simps power2_eq_square)
  have f: "fe_is 262292 ?f (y\<^sup>2 - x\<^sup>2 - 2 * z\<^sup>2)"
    by (rule fe_is_cong, (rule rules | (simp; fail))+) (simp add: algebra_simps power2_eq_square)
  have mul: "fe_is 65573 (feMul a b) (v * w mod p25519)"
    if "fe_is A a v" "fe_is B b w" "608 * (A * B) \<le> 140737488355328" for A B a b v w
    using fe_is_mul [OF that] by (rule fe_is_cong) simp
  show ?thesis
    using mul [OF e f] mul [OF g h] mul [OF f g] mul [OF e h] by (simp add: c doublePointInto_def Let_def)
qed

lemma point_is_neg: "point_is p c \<Longrightarrow> point_is (negatePointInto p) (edwards_neg c)"
  by (cases c) (simp add: negatePointInto_def fe_is_neg)

lemma point_is_constants:
  "point_is BASE_POINT base_coords" "point_is IDENTITY_POINT (0, 1, 1, 0)"
  by (simp_all add: BASE_POINT_def IDENTITY_POINT_def base_coords_def fe_is_const)

subsection \<open>Multiples of the base point\<close>

definition odd_multiple :: "nat \<Rightarrow> coords" where
  "odd_multiple i = ((\<lambda>q. edwards_add q (edwards_double base_coords)) ^^ i) base_coords"

lemma odd_multiples_nth:
  assumes "i < n" "point_is p c" "point_is dbl e"
  shows "point_is (odd_multiples n dbl p ! i) (((\<lambda>q. edwards_add q e) ^^ i) c)"
  using assms(1,2)
proof (induction n arbitrary: i p c)
  case (Suc n)
  then show ?case
    using Suc.IH [of "i - 1" "addPointInto p dbl" "edwards_add c e"] point_is_add [OF _ assms(3)]
    by (cases i) (simp_all add: funpow_Suc_right del: funpow.simps)
qed simp

lemma precomp_is: "i < 16 \<Longrightarrow> point_is (precomp ! i) (odd_multiple i)"
  unfolding precomp_def odd_multiple_def
  by (intro odd_multiples_nth point_is_double point_is_constants)

text \<open>Double, then add or subtract the odd multiple that the digit names.\<close>

definition ladder_step :: "int \<Rightarrow> coords \<Rightarrow> coords" where
  "ladder_step digit q =
    (if 0 < digit then edwards_add (edwards_double q) (odd_multiple (nat ((digit - 1) div 2)))
     else if digit < 0 then edwards_add (edwards_double q) (edwards_neg (odd_multiple (nat ((- digit - 1) div 2))))
     else edwards_double q)"

lemma loop_step_is:
  assumes "point_is p c" "\<bar>digit\<bar> < 16"
  shows "point_is (loop_step digit p) (ladder_step digit c)"
  using assms(2) point_is_double [OF assms(1)]
  by (auto simp: loop_step_def ladder_step_def Let_def drop_bit_eq_div intro!: point_is_add point_is_neg precomp_is)

lemma loop_is:
  assumes "\<forall>digit \<in> set ds. \<bar>digit\<bar> < 16" "point_is p c"
  shows "point_is (foldr loop_step ds p) (foldr ladder_step ds c)"
  using assms(1) by (induction ds) (simp_all add: assms(2) loop_step_is)

lemma scalarMultBase_is:
  "point_is (scalarMultBase n) (foldr ladder_step (naf_digits (n mod GROUP_L)) (0, 1, 1, 0))"
proof (cases "n mod GROUP_L = 0")
  case True
  then show ?thesis
    using point_is_constants(2) by (simp add: scalarMultBase_def modGroup_eq naf_digits.simps del: point_is.simps)
next
  case False
  have "\<forall>digit \<in> set (naf_digits (n mod GROUP_L)). \<bar>digit\<bar> < 16" using naf_digits_range by fastforce
  from loop_is [OF this point_is_constants(2)] False show ?thesis
    by (simp add: scalarMultBase_def modGroup_eq Let_def del: point_is.simps)
qed

text \<open>The encoding: \<open>y\<close> with the parity of \<open>x\<close> on top, where \<open>x = X / Z\<close> and \<open>y = Y / Z\<close>.\<close>

fun encode_coords :: "coords \<Rightarrow> bytes" where
  "encode_coords (x, y, z, t) =
    bigIntToBytesLE (y * z ^ (2 ^ 255 - 21) mod p25519 +
      (if odd (x * z ^ (2 ^ 255 - 21) mod p25519) then 2 ^ 255 else 0)) 32"

lemma mod_quotient_cong:
  "a mod p = b mod p \<Longrightarrow> c mod p = d mod p \<Longrightarrow> a * c ^ n mod p = b * d ^ n mod (p :: int)"
  by (metis mod_mult_cong power_mod)

lemma encodeExtendedPoint_is:
  assumes "point_is p c"
  shows "encodeExtendedPoint p = encode_coords c"
proof -
  obtain x y z t where c: "c = (x, y, z, t)" by (cases c) auto
  have b: "fe_bound 131146 (pt_x p)" "fe_bound 131146 (pt_y p)" "fe_bound 131146 (pt_z p)"
    using assms by (auto simp: c fe_is_def intro: fe_bound_mono)
  have v: "fe_val (pt_x p) mod p25519 = x mod p25519" "fe_val (pt_y p) mod p25519 = y mod p25519"
    "fe_val (pt_z p) mod p25519 = z mod p25519"
    using assms by (simp_all add: c fe_is_def)
  let ?q = "2 ^ 255 - 21 :: nat"
  have x: "fePack (feMul (pt_x p) (feInv (pt_z p))) = bigIntToBytesLE (x * z ^ ?q mod p25519) 32"
    unfolding fePack_quotient [OF b(1,3)] mod_quotient_cong [OF v(1,3)] ..
  have y: "fePack (feMul (pt_y p) (feInv (pt_z p))) = bigIntToBytesLE (y * z ^ ?q mod p25519) 32"
    unfolding fePack_quotient [OF b(2,3)] mod_quotient_cong [OF v(2,3)] ..
  have parity: "push_bit 7 (bigIntToBytesLE m 32 ! 0 AND 1) = (if odd m then 0x80 else (0 :: byte))" for m
  proof -
    have "bigIntToBytesLE m 32 ! 0 = word_of_int (m AND 255)" by (simp add: numeral_eq_Suc)
    moreover have "odd (word_of_int (m AND 255) :: byte) \<longleftrightarrow> odd m"
      by (simp add: bit_word_of_int_iff bit_and_iff flip: bit_0)
    then have "(word_of_int (m AND 255) :: byte) AND 1 = of_bool (odd m)"
      by (simp only: and_one_eq mod_2_eq_odd)
    ultimately show ?thesis by simp
  qed
  show ?thesis
    unfolding encodeExtendedPoint_def Let_def x y parity encode_sign [OF mod_p_range] c encode_coords.simps ..
qed

text \<open>
  C13: The public key of a scalar is computed without a rounding error.  The limb arithmetic in doubles,
  the table of odd multiples and the signed digits of \<open>scalarMultBase\<close> give, in the encoding of
  \<open>encodeExtendedPoint\<close>, exactly what the addition law of the curve gives in integer arithmetic modulo
  \<open>p\<close> on these digits; the digits spell the scalar modulo the group order, are zero or odd and below 16,
  so that the table holds their multiples, and fit in the buffer of 256.
\<close>

theorem base_multiple_exact:
  "let digits = naf_digits (n mod GROUP_L)
   in encodeExtendedPoint (scalarMultBase n) = encode_coords (foldr ladder_step digits (0, 1, 1, 0)) \<and>
      foldr (\<lambda>digit rest. digit + 2 * rest) digits 0 = n mod GROUP_L \<and>
      set digits \<subseteq> {digit. digit = 0 \<or> odd digit \<and> \<bar>digit\<bar> < 16} \<and> length digits \<le> 256"
proof -
  have k: "0 \<le> n mod GROUP_L" "n mod GROUP_L < GROUP_L" by (simp_all add: GROUP_L_def)
  have "GROUP_L \<le> 2 ^ 255" by (simp add: GROUP_L_def)
  then have "length (naf_digits (n mod GROUP_L)) \<le> 255 + 1" using k(2) by (intro naf_digits_length) linarith
  with naf_digits_value [OF k(1)] naf_digits_range encodeExtendedPoint_is [OF scalarMultBase_is [of n]]
  show ?thesis by (auto simp: Let_def)
qed

subsection \<open>Signatures\<close>

text \<open>A signature has 64 bytes and passes the test of \<open>xeddsaVerify\<close> on the bits of its last byte.\<close>

lemma nth_bigIntToBytesLE: "i < k \<Longrightarrow> bigIntToBytesLE n k ! i = word_of_int (n div 256 ^ i AND 255)"
proof (induction k arbitrary: n i)
  case (Suc k)
  then show ?case by (cases i) (simp_all add: drop_bit_eq_div zdiv_zmult2_eq)
qed simp

lemma reserved_bits:
  assumes "0 \<le> n" "n < 32"
  shows "(((word_of_int n :: byte) AND 0x7f) OR (b AND 0x80)) AND 0x60 = 0"
proof -
  have "take_bit 5 n = n" using assms by (intro take_bit_int_eq_self) simp_all
  then have "n AND mask 5 = n" by (simp only: take_bit_eq_mask)
  then have "n AND 0x60 = (n AND mask 5) AND 0x60" by (simp only:)
  then have "n AND 0x60 = 0" by (simp add: and.assoc mask_eq_exp_minus_1)
  then have "(word_of_int n :: byte) AND 0x60 = 0"
    by (metis of_int_0 of_int_and_eq of_int_numeral)
  then show ?thesis by (simp add: bit.conj_disj_distrib2 and.assoc)
qed

lemma xeddsa_sign_shape:
  assumes "xeddsa_sign sha512 randomSuffix key message = Inr (signature, clamped)"
  shows "length signature = 64" "signature ! 63 AND 0x60 = 0"
proof -
  obtain r v pub where sig: "signature = concatBytes [encodeExtendedPoint (scalarMultBase r),
      (bigIntToBytesLE (modGroup v) 32)[31 := (bigIntToBytesLE (modGroup v) 32 ! 31 AND 0x7f) OR (pub ! 31 AND 0x80)]]"
    using assms by (auto simp: xeddsa_sign_def derivePublicForSigning_def Let_def rbind_eq_Inr_iff split: sum.splits)
  let ?s = "modGroup v"
  let ?e = "bigIntToBytesLE ?s 32"
  have "?s < GROUP_L" "GROUP_L < 32 * 256 ^ 31" by (simp_all add: modGroup_eq GROUP_L_def)
  then have s: "0 \<le> ?s div 256 ^ 31" "?s div 256 ^ 31 < 32"
    by (simp_all add: modGroup_eq GROUP_L_def pos_imp_zdiv_nonneg_iff div_less_iff_less_mult)
  then have "?e ! 31 = word_of_int (?s div 256 ^ 31)"
    by (simp add: nth_bigIntToBytesLE and_255_int)
  then have e: "((?e ! 31 AND 0x7f) OR (pub ! 31 AND 0x80)) AND 0x60 = 0"
    using reserved_bits [OF s] by simp
  have len: "length (encodeExtendedPoint (scalarMultBase r)) = 32"
    using encodeExtendedPoint_is [OF scalarMultBase_is [of r]] by (cases "foldr ladder_step (naf_digits (r mod GROUP_L)) (0, 1, 1, 0)") simp
  show "length signature = 64" "signature ! 63 AND 0x60 = 0"
    using e len by (simp_all add: sig concatBytes_eq nth_append)
qed

text \<open>
  When the key is refused, \<open>xeddsaVerify\<close> throws and leaves the signature of the caller changed: the
  sign bit was cleared for the verification and is not put back.
\<close>

lemma refused_key_changes_signature:
  assumes "length signature = 64" "signature ! 63 AND 0x60 = 0" "bit (signature ! 63) 7" "length key \<noteq> 32"
  shows "xeddsa_verify ed_verify key message signature =
      (Inl (InvalidKeyLength (length key)), signature[63 := signature ! 63 AND 0x7f])"
    "signature[63 := signature ! 63 AND 0x7f] \<noteq> signature"
proof -
  show "xeddsa_verify ed_verify key message signature =
      (Inl (InvalidKeyLength (length key)), signature[63 := signature ! 63 AND 0x7f])"
    using assms by (simp add: xeddsa_verify_def montgomeryToEdwardsPublic_def assertByteLength_def Let_def)
  have "\<not> bit (signature ! 63 AND 0x7f) 7" by (simp add: bit_and_iff)
  then have "signature ! 63 AND 0x7f \<noteq> signature ! 63" using assms(3) by metis
  moreover have "signature[63 := signature ! 63 AND 0x7f] ! 63 = signature ! 63 AND 0x7f" using assms(1) by simp
  ultimately show "signature[63 := signature ! 63 AND 0x7f] \<noteq> signature" by metis
qed

end
