(* ===== verification/Spec2Isabelle.thy ===== *)
theory Spec2Isabelle
  imports BinaryProperties FrameCodec SessionProperties ProtocolProperties
    StoreLock SharedExclusiveGate NoiseProperties
    AppStateKeys AppStateFlush XEdDSA
begin

text \<open>
  A verification library for \<open>zapo\<close>, a TypeScript client for the WhatsApp Web protocol.

  Parts of the program and theories.

  \<^item> \<open>Prelude\<close>, \<open>JsString\<close>: bytes, results as sums with their bind \<open>rbind\<close>, \<open>subarray\<close> and
    \<open>TypedArray.set\<close>; JavaScript strings as lists of UTF-16 code units, \<open>indexOf\<close>, \<open>slice\<close>, decimal
    printing, \<open>TextEncoder\<close> and \<open>TextDecoder\<close>.
  \<^item> \<open>ByteUtils\<close>: \<open>src/util/bytes.ts\<close>.
  \<^item> \<open>Tokens\<close>, \<open>BinaryFormat\<close>, \<open>Defaults\<close>, \<open>ByteWriter\<close>, \<open>Encoder\<close>, \<open>ByteReader\<close>, \<open>Decoder\<close>:
    \<open>src/transport/binary\<close>, the binary form of the XML-like stanzas.  \<open>BinaryRoundtrip\<close> and
    \<open>BinaryProperties\<close> relate the two directions.
  \<^item> \<open>FrameCodec\<close>: \<open>src/transport/noise/WaFrameCodec.ts\<close>, which cuts the byte stream of the socket
    into the frames that carry the stanzas.
  \<^item> \<open>Jid\<close>: \<open>src/protocol/jid.ts\<close>, the addresses of accounts, devices and groups.
  \<^item> \<open>Crypto\<close>: the wrappers of \<open>src/crypto/core\<close> over \<open>node:crypto\<close>, which is a parameter.
  \<^item> \<open>MessageChain\<close>, \<open>SenderKeyChain\<close>: \<open>src/signal/group/SenderKeyChain.ts\<close>, the message keys of a
    sender in a group.
  \<^item> \<open>Collections\<close>, \<open>SenderKeyStore\<close>: \<open>src/util/collections.ts\<close> and
    \<open>src/store/memory/sender-key.store.ts\<close>.
  \<^item> \<open>SessionEncoding\<close>, \<open>SignalRatchet\<close>: the session types of \<open>src/signal/types.ts\<close>, their stored form
    (\<open>src/signal/session/encoding.ts\<close>), session set-up, message formats and the double ratchet
    (\<open>SignalSession.ts\<close>, \<open>SignalSerializer.ts\<close>, \<open>SignalRatchet.ts\<close>).
  \<^item> \<open>RatchetChain\<close>, \<open>SessionMessages\<close>, \<open>DoubleRatchet\<close>, \<open>Conversations\<close>, \<open>SessionProperties\<close>: the proofs
    about two sessions that talk to each other.  A conversation is a step relation: either side
    encrypts, or a message sent earlier arrives, in any order and any number of times.  The invariant
    says that one side is a ratchet step ahead of the other and that every chain a side can read is the
    sending chain of the other side at some point.
  \<^item> \<open>SignalStores\<close>, \<open>SignalProtocol\<close>, \<open>ProtocolProperties\<close>: the in-memory stores of sessions,
    identities, pre-keys and the registration, and \<open>SignalProtocol.ts\<close>, whose operations are functions
    from the stores to a result and new stores.
  \<^item> \<open>Curve\<close>: key pairs and the Diffie-Hellman function (\<open>src/crypto/curves\<close>).
  \<^item> \<open>NoiseHandshake\<close>, \<open>NoiseCertificate\<close>, \<open>NoiseSession\<close>, \<open>NoiseConnection\<close>: \<open>src/transport/noise\<close>, the
    encrypted connection: the handshake object, the channel, the certificate chain, the messages of the
    two handshakes, and the session object whose \<open>start\<close> is a coroutine (a stage per \<open>await\<close>).
    \<open>NoiseServer\<close> is the responder of \<open>packages/fake-server\<close>.  \<open>NoiseAgreement\<close> runs one against the
    other; \<open>NoiseProperties\<close> goes from \<open>start\<close> to an established channel over the bytes on the wire.
  \<^item> \<open>StoreLock\<close>, \<open>SharedExclusiveGate\<close>: the locks of \<open>src/infra/perf\<close> as step relations, a step being
    one turn of the event loop.  A task can make requests while it is called, before its first
    \<open>await\<close>; exclusion is proved when no task asks there for the key it is called with, and
    \<open>reentrant_task_overlaps\<close> shows that such a task overlaps with itself.  A measure of the work that
    is left gives progress.
  \<^item> \<open>NodeHelpers\<close>: \<open>src/transport/node/helpers.ts\<close> and \<open>query.ts\<close>, reading nodes, IQ envelopes, ids.
  \<^item> \<open>AppStateCrypto\<close>, \<open>AppStateHash\<close>, \<open>AppStateStore\<close>, \<open>AppStateSync\<close>: \<open>src/appstate\<close>, the settings and chat
    actions that the devices of an account share.  \<open>AppStateCrypto\<close> encrypts single mutations and
    computes the LT hash of a collection, \<open>AppStateHash\<close> gives it its algebra (128 bytes as 64 words,
    one sum over the multiset of the value MACs), \<open>AppStateStore\<close> is the in-memory store, and
    \<open>AppStateSync\<close> the client: requests, responses, snapshots, patches and a whole synchronisation as a
    stateful computation (\<open>StateResult\<close>: state passing with errors, and a small logic \<open>ensures\<close> for its
    invariants).  \<open>AppStateInvariant\<close> carries the invariant of the collections through a
    synchronisation, \<open>AppStateReplica\<close> shows that replicas stay equal, \<open>AppStateProperties\<close> holds the
    properties.
  \<^item> \<open>AppStateKeys\<close>: the exchange of sync keys between devices
    (\<open>src/client/messaging/key-protocol.ts\<close> and its handlers).
  \<^item> \<open>AppStateFlush\<close>: the queue of local mutations of \<open>WaAppStateMutationCoordinator.ts\<close>, whose flush
    is a step relation over the turns of the event loop.
  \<^item> \<open>JsNumber\<close>, \<open>FieldElement\<close>, \<open>FieldArith\<close>, \<open>FieldPack\<close>, \<open>Edwards\<close>, \<open>XEdDSA\<close>: the curve arithmetic of
    \<open>src/crypto/math\<close>, the conversion of keys in \<open>curves/X25519.ts\<close> and \<open>core/xeddsa.ts\<close>.  A field
    element is 16 limbs of type \<open>jsnum\<close>, a double that rounds to 53 bits (\<open>JsNumber\<close>, with the 32-bit
    operators and the stores to \<open>Uint8Array\<close>); \<open>FieldElement\<close> is \<open>fe.ts\<close>.  \<open>FieldArith\<close> and \<open>FieldPack\<close>
    carry a bound on the limbs through every operation, so that nothing is rounded, and give its value
    modulo \<open>2\<^sup>2\<^sup>5\<^sup>5 - 19\<close>.  \<open>XEdDSA\<close> lifts this to the addition law of the curve.  That the modulus is
    prime and that the law makes the points a group is not proved.

  Interfaces.  \<open>byte_source\<close> (what the decoder relies on of its reader), \<open>chunked_source\<close>
  (an incremental splitter of a stream), \<open>skipping_chain\<close> (selection of message keys with stored
  skipped keys, used for groups and for the ratchet), \<open>kv_store\<close> and \<open>sender_key_store\<close> are locales;
  each is interpreted on the model of the code in the theory of the component that provides it.

  Assumptions.  The ciphers, the hash functions and the curve are records of functions with the laws
  \<open>crypto_laws\<close> and \<open>curve_laws\<close> (decryption inverts encryption, output lengths, Diffie-Hellman
  agreement); the protobuf encoders are records with \<open>proto_laws\<close> (decoding inverts encoding).  Each
  is met by a concrete instance in the theory that states it.  The ratchet proofs keep a ghost map
  from ratchet keys to the chain key they started with.  A message on a chain that the receiver has
  dropped, because more than four newer ones exist, makes the receiver try a ratchet step; it is
  assumed that its MAC does not verify by accident under the fresh key (\<open>stale_mac_verifies\<close>), and
  proved that the message is then refused.

  Fuel.  Only the decoder of nodes runs on fuel, the number of bytes of its input plus one; every
  nested call of the code consumes a byte first, and \<open>decoder_total\<close> shows that this is enough.

  Not modelled.  The platform primitives (\<open>node:crypto\<close>, \<open>node:zlib\<close>, sockets, timers) are
  parameters or left out, as are the native crypto backend and the caches keyed by the identity of a
  buffer; the generated protobuf code and the generated token and registry tables other than the binary
  token dictionaries are not part of the model.  The coordinators and event parsers of the client, the
  builders of stanzas, media transfer, authentication and pairing, message retry, the group cipher above
  its message keys, the stores other than the ones above, the database back ends, calls and the test
  server beyond its handshake are left out.
\<close>

end
